(* ===== verification/Prelude.thy ===== *)
theory Prelude
  imports "HOL-Library.Word" "HOL-Library.Multiset" "HOL-Library.Sublist"
    "HOL-Library.Char_ord" Complex_Main "HOL-Library.List_Lexorder"
begin

text \<open>
  What every component shares: bytes and big-endian fields (Python's \<open>struct.pack("!H", n)\<close>
  and \<open>int.from_bytes(b, "big")\<close>), slices and indexing of byte strings, errors as sums, the
  string methods the sources use, and dictionaries with Python's insertion order.

  A \<open>str\<close> of the program is a list of Isabelle characters, read as the code points 0 to 255
  (Latin-1). The string methods below are exact on that range; text outside it (the Persian
  labels of the user interface) is not modelled.
\<close>

unbundle bit_operations_syntax

named_theorems byte_simps \<open>lengths and contents of packed fields and slices\<close>
named_theorems res_simps \<open>unfolding of the error monad\<close>
named_theorems dict_simps \<open>lookups in updated dictionaries\<close>

section \<open>Errors as values\<close>

datatype py_error =
    IndexError | ValueError | StructError | AssertionError | KeyError
  | TypeError | OverflowError | OSError | ConnectionError | RuntimeError | PyTimeout | AttributeError

type_synonym 'a res = "py_error + 'a"

definition rbind :: "'e + 'a \<Rightarrow> ('a \<Rightarrow> 'e + 'b) \<Rightarrow> 'e + 'b" where
  "rbind m f = (case m of Inl e \<Rightarrow> Inl e | Inr a \<Rightarrow> f a)"

definition guard_res :: "bool \<Rightarrow> 'e \<Rightarrow> 'e + unit" where
  "guard_res b e = (if b then Inr () else Inl e)"

lemma rbind_simps [simp, res_simps]:
  "rbind (Inl e) f = Inl e"
  "rbind (Inr a) f = f a"
  by (simp_all add: rbind_def)

lemma rbind_cong [fundef_cong]:
  "m = m' \<Longrightarrow> (\<And>a. m' = Inr a \<Longrightarrow> f a = f' a) \<Longrightarrow> rbind m f = rbind m' f'"
  by (cases m') auto

lemma rbind_InrE:
  assumes "rbind m f = Inr b"
  obtains a where "m = Inr a" "f a = Inr b"
  using assms by (cases m) auto

lemma rbind_eq_Inr_iff: "rbind m f = Inr b \<longleftrightarrow> (\<exists>a. m = Inr a \<and> f a = Inr b)"
  by (cases m) auto

lemma guard_res_Inr [simp, res_simps]: "guard_res b e = Inr u \<longleftrightarrow> b"
  by (simp add: guard_res_def)

lemma guard_res_cases [simp, res_simps]:
  "guard_res True e = Inr ()" "guard_res False e = Inl e"
  by (simp_all add: guard_res_def)

text \<open>Running an effect over a list, stopping at the first error (a Python \<open>for\<close> whose body raises).\<close>

fun rmap :: "('a \<Rightarrow> 'e + 'b) \<Rightarrow> 'a list \<Rightarrow> 'e + 'b list" where
  "rmap f [] = Inr []"
| "rmap f (x # xs) = rbind (f x) (\<lambda>y. rbind (rmap f xs) (\<lambda>ys. Inr (y # ys)))"

lemma rmap_length: "rmap f xs = Inr ys \<Longrightarrow> length ys = length xs"
  by (induction xs arbitrary: ys) (auto simp: rbind_eq_Inr_iff)

section \<open>Bytes\<close>

type_synonym u8 = "8 word"
type_synonym bytes = "u8 list"

definition pyslice :: "nat \<Rightarrow> nat \<Rightarrow> 'a list \<Rightarrow> 'a list" where
  \<comment> \<open>\<open>xs[a:b]\<close> for non-negative bounds: empty when \<open>b <= a\<close>, cut at the end of the list\<close>
  "pyslice a b xs = take (b - a) (drop a xs)"

definition index :: "'a list \<Rightarrow> nat \<Rightarrow> 'a res" where
  "index xs i = (if i < length xs then Inr (xs ! i) else Inl IndexError)"

definition from_be :: "bytes \<Rightarrow> nat" where
  \<comment> \<open>\<open>int.from_bytes(b, "big")\<close>; the empty string is 0\<close>
  "from_be bs = foldl (\<lambda>n b. n * 256 + unat b) 0 bs"

definition be16 :: "nat \<Rightarrow> bytes" where
  "be16 n = [word_of_nat (n div 256), word_of_nat n]"

definition pack_H :: "int \<Rightarrow> bytes res" where
  \<comment> \<open>\<open>struct.pack("!H", n)\<close>\<close>
  "pack_H n = (if 0 \<le> n \<and> n \<le> 65535 then Inr (be16 (nat n)) else Inl StructError)"

lemma unat_u8: "unat (b :: u8) < 256"
  using unsigned_less [of b] by simp

lemma two_bytes: "length bs = 2 \<Longrightarrow> \<exists>a b. bs = [a, b]"
  by (metis One_nat_def Suc_1 length_0_conv length_Suc_conv)

lemma length_pyslice [simp, byte_simps]: "length (pyslice a b xs) = min (b - a) (length xs - a)"
  by (simp add: pyslice_def)

lemma slice_append_left [byte_simps]:
  "b \<le> length xs \<Longrightarrow> pyslice a b (xs @ ys) = pyslice a b xs"
  by (simp add: pyslice_def)

lemma slice_append_right [byte_simps]:
  "length xs \<le> a \<Longrightarrow> pyslice a b (xs @ ys) = pyslice (a - length xs) (b - length xs) ys"
  by (simp add: pyslice_def)

lemma slice_all [byte_simps]: "length xs \<le> b \<Longrightarrow> pyslice 0 b xs = xs"
  by (simp add: pyslice_def)

lemma slice_exact [byte_simps]:
  assumes "length xs = a" and "length ys = b - a"
  shows "pyslice a b (xs @ ys @ zs) = ys"
  using assms by (simp add: pyslice_def)

lemma be16_length [simp, byte_simps]: "length (be16 n) = 2"
  by (simp add: be16_def)

lemma from_be_two [byte_simps]: "from_be [a, b] = unat a * 256 + unat b"
  by (simp add: from_be_def)

lemma from_be_be16 [simp, byte_simps]:
  assumes "n \<le> 65535" shows "from_be (be16 n) = n"
proof -
  have "n div 256 < 256" using assms by linarith
  moreover have "n div 256 * 256 + n mod 256 = n" by presburger
  ultimately show ?thesis
    by (simp add: be16_def from_be_two unat_of_nat)
qed

lemma be16_from_be [byte_simps]: "length bs = 2 \<Longrightarrow> be16 (from_be bs) = bs"
proof -
  assume "length bs = 2"
  then obtain a b where bs: "bs = [a, b]" using two_bytes by blast
  have "(unat a * 256 + unat b) div 256 = unat a" using unat_u8 [of b] by simp
  moreover have "word_of_nat (unat a * 256 + unat b) = b"
  proof -
    have "(256 :: u8) = 0" by simp
    then have "a * 256 = 0" by (metis mult_zero_right)
    then show ?thesis by (simp del: word_of_nat_eq_iff)
  qed
  ultimately show ?thesis by (simp add: bs be16_def from_be_two)
qed

lemma from_be_two_le: "length bs = 2 \<Longrightarrow> from_be bs \<le> 65535"
proof -
  assume "length bs = 2"
  then obtain a b where bs: "bs = [a, b]" using two_bytes by blast
  show ?thesis unfolding bs from_be_two using unat_u8 [of a] unat_u8 [of b] by linarith
qed

lemma pack_H_ok [simp, byte_simps]: "n \<le> 65535 \<Longrightarrow> pack_H (int n) = Inr (be16 n)"
  by (simp add: pack_H_def)

lemma pack_H_Inr: "pack_H n = Inr bs \<longleftrightarrow> 0 \<le> n \<and> n \<le> 65535 \<and> bs = be16 (nat n)"
  by (auto simp: pack_H_def)

lemma index_Inr: "index xs i = Inr x \<longleftrightarrow> i < length xs \<and> x = xs ! i"
  by (auto simp: index_def)

section \<open>Lists as the sources use them\<close>

text \<open>\<open>list(dict.fromkeys(xs))\<close>: the first occurrence of each element, in order.\<close>

fun uniq_acc :: "'a list \<Rightarrow> 'a list \<Rightarrow> 'a list" where
  "uniq_acc seen [] = []"
| "uniq_acc seen (x # xs) =
     (if x \<in> set seen then uniq_acc seen xs else x # uniq_acc (x # seen) xs)"

definition uniq :: "'a list \<Rightarrow> 'a list" where
  "uniq xs = uniq_acc [] xs"

lemma set_uniq_acc: "set (uniq_acc seen xs) = set xs - set seen"
  by (induction seen xs rule: uniq_acc.induct) auto

lemma distinct_uniq_acc: "distinct (uniq_acc seen xs)"
  by (induction seen xs rule: uniq_acc.induct) (auto simp: set_uniq_acc)

lemma set_uniq [simp]: "set (uniq xs) = set xs"
  by (simp add: uniq_def set_uniq_acc)

lemma distinct_uniq [simp]: "distinct (uniq xs)"
  by (simp add: uniq_def distinct_uniq_acc)

lemma uniq_acc_id: "distinct xs \<Longrightarrow> set xs \<inter> set seen = {} \<Longrightarrow> uniq_acc seen xs = xs"
  by (induction seen xs rule: uniq_acc.induct) auto

lemma uniq_id: "distinct xs \<Longrightarrow> uniq xs = xs"
  by (simp add: uniq_def uniq_acc_id)

lemma uniq_eq_Nil [simp]: "uniq xs = [] \<longleftrightarrow> xs = []"
  by (cases xs) (auto simp: uniq_def)

lemma hd_uniq: "xs \<noteq> [] \<Longrightarrow> hd (uniq xs) = hd xs"
  by (cases xs) (auto simp: uniq_def)

lemma length_uniq_le: "length (uniq xs) \<le> length xs"
proof -
  have "length (uniq_acc seen xs) \<le> length xs" for seen :: "'a list"
    by (induction seen xs rule: uniq_acc.induct) auto
  then show ?thesis by (simp add: uniq_def)
qed

text \<open>
  \<open>xs.sort(key=p)\<close> for a boolean key: \<open>False\<close> sorts before \<open>True\<close> and the sort is stable,
  so the elements with a false key come first, each group in its old order.
\<close>

definition sort_by_flag :: "('a \<Rightarrow> bool) \<Rightarrow> 'a list \<Rightarrow> 'a list" where
  "sort_by_flag p xs = filter (\<lambda>x. \<not> p x) xs @ filter p xs"

lemma mset_sort_by_flag [simp]: "mset (sort_by_flag p xs) = mset xs"
  by (induction xs) (auto simp: sort_by_flag_def)

lemma sort_by_flag_stable: "sort_by_flag p xs = sort_key p xs"
proof (rule sym, rule properties_for_sort_key)
  show "mset (sort_by_flag p xs) = mset xs"
    by simp
  have *: "sorted (map p (filter (\<lambda>x. \<not> p x) xs))" "sorted (map p (filter p xs))"
    by (induction xs) auto
  then show "sorted (map p (sort_by_flag p xs))"
    by (auto simp: sort_by_flag_def sorted_append)
  fix k assume "k \<in> set (sort_by_flag p xs)"
  show "filter (\<lambda>y. p k = p y) (sort_by_flag p xs) = filter (\<lambda>y. p k = p y) xs"
    by (cases "p k") (auto simp: sort_by_flag_def filter_empty_conv)
qed

lemma set_sort_by_flag [simp]: "set (sort_by_flag p xs) = set xs"
  by (auto simp: sort_by_flag_def)

lemma distinct_sort_by_flag [simp]: "distinct (sort_by_flag p xs) = distinct xs"
  by (rule mset_eq_imp_distinct_iff) simp

definition last_n :: "nat \<Rightarrow> 'a list \<Rightarrow> 'a list" where
  \<comment> \<open>\<open>xs[-n:]\<close> for positive \<open>n\<close>\<close>
  "last_n n xs = drop (length xs - n) xs"

lemma length_last_n [simp]: "length (last_n n xs) = min n (length xs)"
  by (simp add: last_n_def)

lemma set_last_n: "set (last_n n xs) \<subseteq> set xs"
  by (simp add: last_n_def set_drop_subset)

lemma last_n_short [simp]: "length xs \<le> n \<Longrightarrow> last_n n xs = xs"
  by (simp add: last_n_def)

lemma last_last_n: "0 < n \<Longrightarrow> xs \<noteq> [] \<Longrightarrow> last (last_n n xs) = last xs"
  by (simp add: last_n_def)

definition clamp :: "'a::linorder \<Rightarrow> 'a \<Rightarrow> 'a \<Rightarrow> 'a" where
  \<comment> \<open>\<open>max(lo, min(hi, x))\<close>\<close>
  "clamp lo hi x = max lo (min hi x)"

lemma clamp_bounds: "lo \<le> hi \<Longrightarrow> lo \<le> clamp lo hi x \<and> clamp lo hi x \<le> hi"
  by (simp add: clamp_def)

lemma clamp_id: "lo \<le> x \<Longrightarrow> x \<le> hi \<Longrightarrow> clamp lo hi x = x"
  by (simp add: clamp_def)

lemma clamp_idem: "lo \<le> hi \<Longrightarrow> clamp lo hi (clamp lo hi x) = clamp lo hi x"
  by (simp add: clamp_def)

end
