(* ===== verification/Packet_Templates.thy ===== *)
theory Packet_Templates
  imports Prelude
begin

text \<open>
  \<open>uac_desktop/pattern_core/packet_templates.py\<close>: the byte templates of the spoofing core.
  \<open>ClientHelloMaker\<close> builds the 517-byte fake ClientHello that carries the fake SNI and
  parses it back; \<open>ServerHelloMaker\<close> and the change-cipher response do the same for the
  server side. Every \<open>assert\<close> is the error value \<open>AssertionError\<close>, \<open>struct.pack\<close> out of
  range is \<open>StructError\<close> and \<open>bytes.decode()\<close> on malformed UTF-8 is \<open>ValueError\<close>.
\<close>

section \<open>Standard library: bytes.fromhex and bytes.decode\<close>

definition hex_digit :: "char \<Rightarrow> nat" where
  "hex_digit c = (let n = of_char c in if n \<le> 57 then n - 48 else n - 87)"

fun fromhex :: "string \<Rightarrow> bytes" where
  "fromhex (a # b # cs) = word_of_nat (16 * hex_digit a + hex_digit b) # fromhex cs"
| "fromhex _ = []"

lemma length_fromhex: "length (fromhex s) = length s div 2"
  by (induction s rule: fromhex.induct) auto

text \<open>Strict UTF-8: no overlong form, no surrogate, nothing above \<open>0x10FFFF\<close>.\<close>

definition is_cont :: "nat \<Rightarrow> bool" where
  "is_cont b \<longleftrightarrow> 128 \<le> b \<and> b < 192"

fun utf8_decode :: "nat list \<Rightarrow> nat list res" where
  "utf8_decode [] = Inr []"
| "utf8_decode (a # bs) =
     (if a < 128 then rbind (utf8_decode bs) (\<lambda>cs. Inr (a # cs))
      else (case bs of
         [] \<Rightarrow> Inl ValueError
       | b # bs2 \<Rightarrow>
         if 194 \<le> a \<and> a < 224 then
           (if is_cont b then rbind (utf8_decode bs2) (\<lambda>cs. Inr (((a - 192) * 64 + (b - 128)) # cs))
            else Inl ValueError)
         else (case bs2 of
            [] \<Rightarrow> Inl ValueError
          | c # bs3 \<Rightarrow>
            if 224 \<le> a \<and> a < 240 then
              (let p = (a - 224) * 4096 + (b - 128) * 64 + (c - 128) in
               if is_cont b \<and> is_cont c \<and> 2048 \<le> p \<and> \<not> (55296 \<le> p \<and> p < 57344)
               then rbind (utf8_decode bs3) (\<lambda>cs. Inr (p # cs)) else Inl ValueError)
            else (case bs3 of
               [] \<Rightarrow> Inl ValueError
             | d # bs4 \<Rightarrow>
               (let p = (a - 240) * 262144 + (b - 128) * 4096 + (c - 128) * 64 + (d - 128) in
                if 240 \<le> a \<and> a < 245 \<and> is_cont b \<and> is_cont c \<and> is_cont d \<and> 65536 \<le> p \<and> p < 1114112
                then rbind (utf8_decode bs4) (\<lambda>cs. Inr (p # cs)) else Inl ValueError)))))"

lemma utf8_decode_ascii: "\<forall>b \<in> set bs. b < 128 \<Longrightarrow> utf8_decode bs = Inr bs"
  by (induction bs) simp_all

section \<open>ClientHelloMaker\<close>

definition tls_ch_template_str :: string where
  "tls_ch_template_str =
     ''1603010200010001fc030341d5b549d9cd1adfa7296c8418d157dc7b624c8428'' @
     ''24ff493b9375bb48d34f2b20bf018bcc90a7c89a230094815ad0c15b736e38c0'' @
     ''1209d72d282cb5e2105328150024130213031301c02cc030c02bc02fcca9cca8'' @
     ''c024c028c023c027009f009e006b006700ff0100018f0000000b00090000066d'' @
     ''63692e6972000b000403000102000a00160014001d0017001e00190018010001'' @
     ''01010201030104002300000010000e000c02683208687474702f312e31001600'' @
     ''0000170000000d002a0028040305030603080708080809080a080b0804080508'' @
     ''06040105010601030303010302040205020602002b00050403040303002d0002'' @
     ''0101003300260024001d0020435bacc4d05f9d41fef44ab3ad55616c36e06134'' @
     ''73e2338770efdaa98693d217001500d500000000000000000000000000000000'' @
     ''0000000000000000000000000000000000000000000000000000000000000000'' @
     ''0000000000000000000000000000000000000000000000000000000000000000'' @
     ''0000000000000000000000000000000000000000000000000000000000000000'' @
     ''0000000000000000000000000000000000000000000000000000000000000000'' @
     ''0000000000000000000000000000000000000000000000000000000000000000'' @
     ''0000000000000000000000000000000000000000000000000000000000000000'' @
     ''0000000000''"

definition tls_ch_template :: bytes where
  "tls_ch_template = fromhex tls_ch_template_str"

definition template_sni :: bytes where
  "template_sni = map (\<lambda>c. word_of_nat (of_char c)) ''mci.ir''"

definition ch_static1 :: bytes where
  "ch_static1 = pyslice 0 11 tls_ch_template"

definition ch_static2 :: bytes where
  "ch_static2 = [0x20]"

definition ch_static3 :: bytes where
  "ch_static3 = pyslice 76 120 tls_ch_template"

definition ch_static4 :: bytes where
  "ch_static4 = pyslice (127 + length template_sni) (262 + length template_sni) tls_ch_template"

definition ch_static5 :: bytes where
  "ch_static5 = [0x00, 0x15]"

definition tls_change_cipher :: bytes where
  "tls_change_cipher = [0x14, 0x03, 0x03, 0x00, 0x01, 0x01]"

definition tls_app_data_header :: bytes where
  "tls_app_data_header = [0x17, 0x03, 0x03]"

definition get_client_hello_with :: "bytes \<Rightarrow> bytes \<Rightarrow> bytes \<Rightarrow> bytes \<Rightarrow> bytes res" where
  "get_client_hello_with rnd sess_id target_sni key_share =
     rbind (pack_H (int (length target_sni) + 5)) (\<lambda>h1.
     rbind (pack_H (int (length target_sni) + 3)) (\<lambda>h2.
     rbind (pack_H (int (length target_sni))) (\<lambda>h3.
     rbind (pack_H (219 - int (length target_sni))) (\<lambda>h4.
       let server_name_ext = h1 @ h2 @ [0x00] @ h3 @ target_sni;
           padding_ext = h4 @ replicate (219 - length target_sni) 0
       in Inr (ch_static1 @ rnd @ ch_static2 @ sess_id @ ch_static3 @ server_name_ext
               @ ch_static4 @ key_share @ ch_static5 @ padding_ext)))))"

definition parse_client_hello_template :: "bytes \<Rightarrow> (bytes \<times> bytes \<times> nat list \<times> bytes) res" where
  "parse_client_hello_template hello =
     rbind (guard_res (length hello = 517) AssertionError) (\<lambda>_.
       let rnd = pyslice 11 43 hello;
           sess_id = pyslice 44 76 hello;
           tls_sni_bytes = pyslice 127 (127 + from_be (pyslice 125 127 hello)) hello
       in rbind (utf8_decode (map unat tls_sni_bytes)) (\<lambda>tls_sni.
       let ks_ind = 262 + length tls_sni;
           key_share = pyslice ks_ind (ks_ind + 32) hello
       in rbind (get_client_hello_with rnd sess_id tls_sni_bytes key_share) (\<lambda>again.
          rbind (guard_res (again = hello) AssertionError) (\<lambda>_.
            Inr (rnd, sess_id, tls_sni, key_share)))))"

definition get_client_response_with :: "bytes \<Rightarrow> bytes res" where
  "get_client_response_with app_data1 =
     rbind (pack_H (int (length app_data1))) (\<lambda>h.
       Inr (tls_change_cipher @ tls_app_data_header @ h @ app_data1))"

definition parse_client_response :: "bytes \<Rightarrow> bytes res" where
  "parse_client_response resp =
     rbind (guard_res (length resp \<ge> 32) AssertionError) (\<lambda>_.
       let app_data1 = drop 11 resp
       in rbind (get_client_response_with app_data1) (\<lambda>again.
          rbind (guard_res (again = resp) AssertionError) (\<lambda>_. Inr app_data1)))"

section \<open>ServerHelloMaker\<close>

definition tls_sh_template_str :: string where
  "tls_sh_template_str =
     ''160303007a0200007603035e39ed63ad58140fbd12af1c6a37c879299a39461b'' @
     ''308d63cb1dae291c5b69702057d2a640c5ca53fed0f24491baaf96347f12db60'' @
     ''3fd1babe6bc3ad0b6fbde406130200002e002b0002030400330024001d0020d9'' @
     ''34ed49a1619be820856c4986e865c5b0e4eb188ebd30193271e8171152eb4e''"

definition tls_sh_template :: bytes where
  "tls_sh_template = fromhex tls_sh_template_str"

definition sh_static1 :: bytes where
  "sh_static1 = pyslice 0 11 tls_sh_template"

definition sh_static2 :: bytes where
  "sh_static2 = [0x20]"

definition sh_static3 :: bytes where
  "sh_static3 = pyslice 76 95 tls_sh_template"

definition get_server_hello_with :: "bytes \<Rightarrow> bytes \<Rightarrow> bytes \<Rightarrow> bytes \<Rightarrow> bytes res" where
  "get_server_hello_with rnd sess_id key_share app_data1 =
     rbind (pack_H (int (length app_data1))) (\<lambda>h.
       Inr (sh_static1 @ rnd @ sh_static2 @ sess_id @ sh_static3 @ key_share
            @ tls_change_cipher @ tls_app_data_header @ h @ app_data1))"

definition parse_server_hello :: "bytes \<Rightarrow> (bytes \<times> bytes \<times> bytes \<times> bytes) res" where
  "parse_server_hello hello =
     rbind (guard_res (length hello \<ge> 159) AssertionError) (\<lambda>_.
       let rnd = pyslice 11 43 hello;
           sess_id = pyslice 44 76 hello;
           key_share = pyslice 95 127 hello;
           app_data1 = drop 138 hello
       in rbind (get_server_hello_with rnd sess_id key_share app_data1) (\<lambda>again.
          rbind (guard_res (again = hello) AssertionError) (\<lambda>_.
            Inr (rnd, sess_id, key_share, app_data1))))"

section \<open>The static parts\<close>

lemma length_tls_ch_template: "length tls_ch_template = 517"
  by (simp add: tls_ch_template_def length_fromhex tls_ch_template_str_def)

lemma length_tls_sh_template: "length tls_sh_template = 127"
  by (simp add: tls_sh_template_def length_fromhex tls_sh_template_str_def)

lemma length_template_sni: "length template_sni = 6"
  by (simp add: template_sni_def)

lemma static_lengths [simp, byte_simps]:
  "length ch_static1 = 11" "length ch_static2 = 1" "length ch_static3 = 44"
  "length ch_static4 = 135" "length ch_static5 = 2"
  "length sh_static1 = 11" "length sh_static2 = 1" "length sh_static3 = 19"
  "length tls_change_cipher = 6" "length tls_app_data_header = 3"
  by (simp_all add: ch_static1_def ch_static2_def ch_static3_def ch_static4_def ch_static5_def
      sh_static1_def sh_static2_def sh_static3_def tls_change_cipher_def tls_app_data_header_def
      length_tls_ch_template length_tls_sh_template length_template_sni)

lemma ch_static1_bytes: "ch_static1 = [22, 3, 1, 2, 0, 1, 0, 1, 252, 3, 3]"
  by code_simp

lemma ch_static3_bytes:
  "ch_static3 =
     [0, 36, 19, 2, 19, 3, 19, 1, 192, 44, 192, 48, 192, 43, 192, 47, 204, 169, 204, 168, 192,
     36, 192, 40, 192, 35, 192, 39, 0, 159, 0, 158, 0, 107, 0, 103, 0, 255, 1, 0, 1, 143, 0, 0]"
  by code_simp

section \<open>Building the hello\<close>

definition client_hello_bytes :: "bytes \<Rightarrow> bytes \<Rightarrow> bytes \<Rightarrow> bytes \<Rightarrow> bytes" where
  \<comment> \<open>the value returned when no length is out of range\<close>
  "client_hello_bytes rnd sess_id sni key_share =
     ch_static1 @ rnd @ ch_static2 @ sess_id @ ch_static3
     @ (be16 (length sni + 5) @ be16 (length sni + 3) @ [0x00] @ be16 (length sni) @ sni)
     @ ch_static4 @ key_share @ ch_static5
     @ (be16 (219 - length sni) @ replicate (219 - length sni) 0)"

lemma get_client_hello_with_eq:
  "get_client_hello_with rnd sess_id sni key_share =
     (if length sni \<le> 219 then Inr (client_hello_bytes rnd sess_id sni key_share)
      else Inl StructError)"
proof (cases "length sni \<le> 219")
  case True
  then have "pack_H (int (length sni) + 5) = Inr (be16 (length sni + 5))"
    and "pack_H (int (length sni) + 3) = Inr (be16 (length sni + 3))"
    and "pack_H (219 - int (length sni)) = Inr (be16 (219 - length sni))"
    by (simp_all add: pack_H_def nat_diff_distrib nat_add_distrib)
  with True show ?thesis
    by (simp add: get_client_hello_with_def client_hello_bytes_def Let_def)
next
  case False
  then have "pack_H (219 - int (length sni)) = Inl StructError"
    by (simp add: pack_H_def)
  then show ?thesis using False
    by (auto simp: get_client_hello_with_def pack_H_def)
qed

lemma client_hello_bytes_length:
  assumes "length rnd = 32" "length sess_id = 32" "length key_share = 32" "length sni \<le> 219"
  shows "length (client_hello_bytes rnd sess_id sni key_share) = 517"
  using assms by (simp add: client_hello_bytes_def)

text \<open>The fixed offsets the parser reads, one pyslice each.\<close>

lemma client_hello_fields:
  fixes rnd sess_id sni key_share
  assumes "length rnd = 32" "length sess_id = 32" "length key_share = 32"
  defines "h \<equiv> client_hello_bytes rnd sess_id sni key_share"
  shows client_hello_rnd: "pyslice 11 43 h = rnd"
    and client_hello_sess: "pyslice 44 76 h = sess_id"
    and client_hello_snilen: "pyslice 125 127 h = be16 (length sni)"
    and client_hello_sni: "pyslice 127 (127 + length sni) h = sni"
  using assms by (simp_all add: client_hello_bytes_def pyslice_def)

lemma client_hello_share:
  assumes "length rnd = 32" "length sess_id = 32" "length key_share = 32"
  shows "pyslice (262 + length sni) (294 + length sni) (client_hello_bytes rnd sess_id sni key_share)
         = key_share"
proof -
  let ?pre = "ch_static1 @ rnd @ ch_static2 @ sess_id @ ch_static3
     @ (be16 (length sni + 5) @ be16 (length sni + 3) @ [0x00] @ be16 (length sni) @ sni) @ ch_static4"
  have "client_hello_bytes rnd sess_id sni key_share
      = ?pre @ key_share @ (ch_static5 @ be16 (219 - length sni) @ replicate (219 - length sni) 0)"
    by (simp add: client_hello_bytes_def)
  moreover have "length ?pre = 262 + length sni" using assms by simp
  ultimately show ?thesis
    using slice_exact [of ?pre "262 + length sni" key_share "294 + length sni"] assms(3) by simp
qed

lemma parse_client_hello_template_ascii:
  assumes "length rnd = 32" "length sess_id = 32" "length key_share = 32" "length sni \<le> 219"
    and ascii: "\<forall>b \<in> set sni. unat b < 128"
  shows "parse_client_hello_template (client_hello_bytes rnd sess_id sni key_share)
         = Inr (rnd, sess_id, map unat sni, key_share)"
proof -
  let ?h = "client_hello_bytes rnd sess_id sni key_share"
  have len: "length ?h = 517" using assms by (simp add: client_hello_bytes_length)
  have sni: "pyslice 127 (127 + from_be (pyslice 125 127 ?h)) ?h = sni"
    using assms by (simp add: client_hello_fields)
  have dec: "utf8_decode (map unat sni) = Inr (map unat sni)"
    using ascii by (simp add: utf8_decode_ascii)
  show ?thesis
    using assms len dec unfolding parse_client_hello_template_def Let_def sni
    by (simp add: client_hello_fields client_hello_share get_client_hello_with_eq)
qed

text \<open>Every hello the parser accepts is one the builder makes: the assertions guarantee it.\<close>

lemma parse_client_hello_template_sound:
  assumes "parse_client_hello_template h = Inr (rnd, sess_id, tls_sni, key_share)"
  shows "\<exists>sni. get_client_hello_with rnd sess_id sni key_share = Inr h
           \<and> utf8_decode (map unat sni) = Inr tls_sni \<and> length h = 517"
  using assms by (auto simp: parse_client_hello_template_def Let_def rbind_eq_Inr_iff)

section \<open>The server side\<close>

lemma get_client_response_with_eq:
  "get_client_response_with d =
     (if length d \<le> 65535 then Inr (tls_change_cipher @ tls_app_data_header @ be16 (length d) @ d)
      else Inl StructError)"
  by (auto simp: get_client_response_with_def pack_H_def)

lemma client_response_parse_build:
  assumes "21 \<le> length d" "length d \<le> 65535"
  shows "rbind (get_client_response_with d) parse_client_response = Inr d"
  using assms by (simp add: get_client_response_with_eq parse_client_response_def Let_def)

lemma get_server_hello_with_eq:
  "get_server_hello_with rnd sess_id ks d =
     (if length d \<le> 65535
      then Inr (sh_static1 @ rnd @ sh_static2 @ sess_id @ sh_static3 @ ks
                @ tls_change_cipher @ tls_app_data_header @ be16 (length d) @ d)
      else Inl StructError)"
  by (auto simp: get_server_hello_with_def pack_H_def)

lemma server_hello_parse_build:
  assumes "length rnd = 32" "length sess_id = 32" "length ks = 32"
    and "21 \<le> length d" "length d \<le> 65535"
  shows "rbind (get_server_hello_with rnd sess_id ks d) parse_server_hello
         = Inr (rnd, sess_id, ks, d)"
  using assms
  by (simp add: get_server_hello_with_eq parse_server_hello_def Let_def pyslice_def)

end
