(* ===== verification/Py_Text.thy ===== *)
theory Py_Text
  imports Prelude
begin

text \<open>
  The methods of \<open>str\<close> the sources call, on Latin-1 text: \<open>strip\<close>, \<open>lower\<close>, \<open>upper\<close>,
  \<open>startswith\<close>, \<open>endswith\<close>, \<open>in\<close>, \<open>find\<close>, \<open>partition\<close>, \<open>rpartition\<close>, \<open>split\<close>, \<open>join\<close>,
  \<open>replace\<close>, \<open>splitlines\<close>, \<open>isdigit\<close>, \<open>isalpha\<close>, decimal printing and \<open>int(text)\<close>.
  Two characters of the range have an upper case outside it (\<open>0xB5\<close> and \<open>0xFF\<close>); \<open>upper\<close>
  keeps them, and no definition of the development compares against their upper case.
\<close>

named_theorems text_simps \<open>string methods on concrete text\<close>

section \<open>Characters\<close>

definition is_space :: "char \<Rightarrow> bool" where
  "is_space c = (let n = of_char c :: nat in (9 \<le> n \<and> n \<le> 13) \<or> (28 \<le> n \<and> n \<le> 32) \<or> n = 133 \<or> n = 160)"

definition lower_char :: "char \<Rightarrow> char" where
  "lower_char c = (let n = of_char c :: nat in
     if (65 \<le> n \<and> n \<le> 90) \<or> (192 \<le> n \<and> n \<le> 222 \<and> n \<noteq> 215) then char_of (n + 32) else c)"

definition upper_char :: "char \<Rightarrow> string" where
  "upper_char c = (let n = of_char c :: nat in
     if n = 223 then ''SS''
     else if (97 \<le> n \<and> n \<le> 122) \<or> (224 \<le> n \<and> n \<le> 254 \<and> n \<noteq> 247) then [char_of (n - 32)] else [c])"

definition is_ascii_digit :: "char \<Rightarrow> bool" where
  "is_ascii_digit c = (let n = of_char c :: nat in 48 \<le> n \<and> n \<le> 57)"

definition is_digit_char :: "char \<Rightarrow> bool" where
  \<comment> \<open>\<open>str.isdigit\<close> also accepts the superscripts one, two and three\<close>
  "is_digit_char c = (is_ascii_digit c \<or> of_char c \<in> {178, 179, 185 :: nat})"

definition is_ascii_alpha :: "char \<Rightarrow> bool" where
  "is_ascii_alpha c = (let n = of_char c :: nat in (65 \<le> n \<and> n \<le> 90) \<or> (97 \<le> n \<and> n \<le> 122))"

section \<open>Case and white space\<close>

definition lower :: "string \<Rightarrow> string" where
  "lower s = map lower_char s"

definition upper :: "string \<Rightarrow> string" where
  "upper s = concat (map upper_char s)"

definition lstrip :: "string \<Rightarrow> string" where
  "lstrip s = dropWhile is_space s"

definition strip :: "string \<Rightarrow> string" where
  "strip s = rev (dropWhile is_space (rev (lstrip s)))"

definition strip_set :: "string \<Rightarrow> string \<Rightarrow> string" where
  \<comment> \<open>\<open>s.strip(chars)\<close>\<close>
  "strip_set cs s = rev (dropWhile (\<lambda>c. c \<in> set cs) (rev (dropWhile (\<lambda>c. c \<in> set cs) s)))"

lemma lower_char_idem [simp]: "lower_char (lower_char c) = lower_char c"
proof -
  have "n + 32 < 256" if "(65 \<le> n \<and> n \<le> 90) \<or> (192 \<le> n \<and> n \<le> 222 \<and> n \<noteq> (215::nat))" for n
    using that by linarith
  then show ?thesis
    by (auto simp: lower_char_def Let_def)
qed

lemma lower_idem [simp]: "lower (lower s) = lower s"
  by (simp add: lower_def)

lemma length_lower [simp]: "length (lower s) = length s"
  by (simp add: lower_def)

lemma is_space_lower [simp]: "is_space (lower_char c) = is_space c"
proof -
  have "of_char c < (256 :: nat)" by simp
  then show ?thesis by (auto simp: is_space_def lower_char_def Let_def)
qed

lemma lower_Nil [simp]: "lower [] = []" "lower s = [] \<longleftrightarrow> s = []"
  by (simp_all add: lower_def)

definition stripped :: "string \<Rightarrow> bool" where
  "stripped s \<longleftrightarrow> s = [] \<or> (\<not> is_space (hd s) \<and> \<not> is_space (last s))"

lemma hd_dropWhile_not: "dropWhile P xs \<noteq> [] \<Longrightarrow> \<not> P (hd (dropWhile P xs))"
  by (induction xs) auto

lemma last_dropWhile: "dropWhile P xs \<noteq> [] \<Longrightarrow> last (dropWhile P xs) = last xs"
  by (induction xs) (auto split: if_splits)

lemma stripped_strip [simp]: "stripped (strip s)"
proof (cases "strip s = []")
  case True then show ?thesis by (simp add: stripped_def)
next
  case False
  let ?l = "dropWhile is_space s"
  let ?r = "dropWhile is_space (rev ?l)"
  have r: "?r \<noteq> []" using False by (simp add: strip_def lstrip_def)
  then have l: "?l \<noteq> []" by (cases "?l = []") simp_all
  have "\<not> is_space (hd ?r)" using r by (rule hd_dropWhile_not)
  moreover have "last ?r = hd ?l" using last_dropWhile [OF r] l by (simp add: last_rev)
  moreover have "\<not> is_space (hd ?l)" using l by (rule hd_dropWhile_not)
  ultimately show ?thesis using r
    by (simp add: stripped_def strip_def lstrip_def last_rev hd_rev)
qed

lemma dropWhile_hd: "xs \<noteq> [] \<Longrightarrow> \<not> P (hd xs) \<Longrightarrow> dropWhile P xs = xs"
  by (cases xs) auto

lemma strip_stripped: "stripped s \<Longrightarrow> strip s = s"
  by (cases "s = []")
    (auto simp: strip_def lstrip_def stripped_def dropWhile_hd hd_rev)

lemma strip_idem [simp]: "strip (strip s) = strip s"
  by (simp add: strip_stripped)

lemma stripped_lower: "stripped (lower s) = stripped s"
  by (cases s) (auto simp: stripped_def lower_def last_map)

lemma strip_Nil [simp]: "strip [] = []"
  by (simp add: strip_def lstrip_def)

lemma strip_lower_strip [simp]: "strip (lower (strip s)) = lower (strip s)"
  by (simp add: strip_stripped stripped_lower)

lemma length_strip_le: "length (strip s) \<le> length s"
  using length_dropWhile_le [of is_space "rev (lstrip s)"] length_dropWhile_le [of is_space s]
  by (simp add: strip_def lstrip_def)

section \<open>Searching\<close>

definition startswith :: "string \<Rightarrow> string \<Rightarrow> bool" where
  "startswith s p = (take (length p) s = p)"

definition endswith :: "string \<Rightarrow> string \<Rightarrow> bool" where
  "endswith s p = startswith (rev s) (rev p)"

fun find_from :: "'a list \<Rightarrow> 'a list \<Rightarrow> nat \<Rightarrow> nat option" where
  \<comment> \<open>first position of \<open>p\<close> in \<open>s\<close>, counted from \<open>i\<close>\<close>
  "find_from p s i =
     (if take (length p) s = p then Some i
      else (case s of [] \<Rightarrow> None | _ # s' \<Rightarrow> find_from p s' (Suc i)))"

declare find_from.simps [simp del]

definition find_sub :: "'a list \<Rightarrow> 'a list \<Rightarrow> nat option" where
  "find_sub p s = find_from p s 0"

definition contains :: "string \<Rightarrow> string \<Rightarrow> bool" where
  "contains p s = (find_sub p s \<noteq> None)"

lemma find_from_Some:
  "find_from p s i = Some j \<Longrightarrow> i \<le> j \<and> j - i + length p \<le> length s \<and> take (length p) (drop (j - i) s) = p"
proof (induction p s i rule: find_from.induct)
  case (1 p s i)
  show ?case
  proof (cases "take (length p) s = p")
    case True
    then have "length p \<le> length s" by (metis length_take min.cobounded1)
    with True 1(2) show ?thesis by (simp add: find_from.simps [of p s i])
  next
    case False
    with 1(2) obtain c s' where s: "s = c # s'" and f: "find_from p s' (Suc i) = Some j"
      by (auto simp: find_from.simps [of p s i] split: list.splits)
    from 1(1) [OF False s f] show ?thesis by (auto simp: s Suc_diff_le drop_Cons')
  qed
qed

lemma find_sub_Some:
  "find_sub p s = Some j \<Longrightarrow> j + length p \<le> length s \<and> take (length p) (drop j s) = p"
  using find_from_Some [of p s 0 j] by (simp add: find_sub_def)

definition str_partition :: "string \<Rightarrow> string \<Rightarrow> string \<times> string \<times> string" where
  \<comment> \<open>\<open>s.partition(sep)\<close>\<close>
  "str_partition sep s = (case find_sub sep s of
     None \<Rightarrow> (s, [], [])
   | Some i \<Rightarrow> (take i s, sep, drop (i + length sep) s))"

definition str_rpartition :: "string \<Rightarrow> string \<Rightarrow> string \<times> string \<times> string" where
  "str_rpartition sep s = (case find_sub (rev sep) (rev s) of
     None \<Rightarrow> ([], [], s)
   | Some i \<Rightarrow> (rev (drop (i + length sep) (rev s)), sep, rev (take i (rev s))))"

section \<open>Splitting and joining\<close>

fun split_char_acc :: "char \<Rightarrow> string \<Rightarrow> string \<Rightarrow> string list" where
  "split_char_acc sep acc [] = [rev acc]"
| "split_char_acc sep acc (c # cs) =
     (if c = sep then rev acc # split_char_acc sep [] cs else split_char_acc sep (c # acc) cs)"

definition split_on :: "char \<Rightarrow> string \<Rightarrow> string list" where
  \<comment> \<open>\<open>s.split(sep)\<close> for a one-character separator\<close>
  "split_on sep s = split_char_acc sep [] s"

fun split_ws_acc :: "string \<Rightarrow> string \<Rightarrow> string list" where
  "split_ws_acc acc [] = (if acc = [] then [] else [rev acc])"
| "split_ws_acc acc (c # cs) =
     (if is_space c then (if acc = [] then split_ws_acc [] cs else rev acc # split_ws_acc [] cs)
      else split_ws_acc (c # acc) cs)"

definition split_ws :: "string \<Rightarrow> string list" where
  \<comment> \<open>\<open>s.split()\<close>\<close>
  "split_ws s = split_ws_acc [] s"

fun join :: "string \<Rightarrow> string list \<Rightarrow> string" where
  "join sep [] = []"
| "join sep [x] = x"
| "join sep (x # y # ys) = x @ sep @ join sep (y # ys)"

definition replace_char :: "char \<Rightarrow> string \<Rightarrow> string \<Rightarrow> string" where
  \<comment> \<open>\<open>s.replace(c, t)\<close> for a one-character pattern\<close>
  "replace_char c t s = concat (map (\<lambda>x. if x = c then t else [x]) s)"

lemma replace_char_id: "c \<notin> set s \<Longrightarrow> replace_char c t s = s"
  by (induction s) (auto simp: replace_char_def)

lemma split_char_acc_neq: "split_char_acc sep acc s \<noteq> []"
  by (induction sep acc s rule: split_char_acc.induct) auto

lemma split_on_neq [simp]: "split_on sep s \<noteq> []"
  by (simp add: split_on_def split_char_acc_neq)

lemma join_split_char_acc: "join [sep] (split_char_acc sep acc s) = rev acc @ s"
proof (induction sep acc s rule: split_char_acc.induct)
  case (2 sep acc c cs)
  then show ?case
    by (cases "split_char_acc sep [] cs") (auto simp: split_char_acc_neq)
qed simp

lemma join_split_on: "join [sep] (split_on sep s) = s"
  by (simp add: split_on_def join_split_char_acc)

lemma split_char_acc_join:
  "\<forall>x \<in> set xs. sep \<notin> set x \<Longrightarrow> xs \<noteq> [] \<Longrightarrow> split_char_acc sep [] (join [sep] xs) = xs"
proof (induction xs rule: induct_list012)
  case (2 x)
  have "sep \<notin> set s \<Longrightarrow> split_char_acc sep acc s = [rev acc @ s]" for acc s
    by (induction s arbitrary: acc) auto
  with 2 show ?case by simp
next
  case (3 x y zs)
  have "sep \<notin> set s \<Longrightarrow> split_char_acc sep acc (s @ sep # t) = (rev acc @ s) # split_char_acc sep [] t" for acc s t
    by (induction s arbitrary: acc) auto
  with 3 show ?case by simp
qed simp

lemma split_on_join:
  "\<forall>x \<in> set xs. sep \<notin> set x \<Longrightarrow> xs \<noteq> [] \<Longrightarrow> split_on sep (join [sep] xs) = xs"
  by (simp add: split_on_def split_char_acc_join)

text \<open>\<open>str.splitlines\<close>: a carriage return followed by a line feed is one boundary.\<close>

definition is_line_break :: "char \<Rightarrow> bool" where
  "is_line_break c = (let n = of_char c :: nat in (10 \<le> n \<and> n \<le> 13) \<or> (28 \<le> n \<and> n \<le> 30) \<or> n = 133)"

fun splitlines_acc :: "string \<Rightarrow> string \<Rightarrow> string list" where
  "splitlines_acc acc [] = (if acc = [] then [] else [rev acc])"
| "splitlines_acc acc (c # cs) =
     (if c = CHR 0x0D \<and> cs \<noteq> [] \<and> hd cs = CHR 0x0A then rev acc # splitlines_acc [] (tl cs)
      else if is_line_break c then rev acc # splitlines_acc [] cs
      else splitlines_acc (c # acc) cs)"

definition splitlines :: "string \<Rightarrow> string list" where
  "splitlines s = splitlines_acc [] s"

section \<open>Decimal numbers\<close>

definition digit_val :: "char \<Rightarrow> nat" where
  "digit_val c = of_char c - 48"

definition digit_char :: "nat \<Rightarrow> char" where
  "digit_char d = char_of (48 + d)"

fun nat_str :: "nat \<Rightarrow> string" where
  "nat_str n = (if n < 10 then [digit_char n] else nat_str (n div 10) @ [digit_char (n mod 10)])"

declare nat_str.simps [simp del]

definition int_str :: "int \<Rightarrow> string" where
  \<comment> \<open>\<open>str(n)\<close>\<close>
  "int_str i = (if i < 0 then CHR ''-'' # nat_str (nat (- i)) else nat_str (nat i))"

text \<open>
  \<open>int(text)\<close>: surrounding white space, an optional sign, decimal digits with single
  underscores between digits. \<open>None\<close> is the \<open>ValueError\<close>.
\<close>

fun digits_val :: "nat \<Rightarrow> bool \<Rightarrow> string \<Rightarrow> nat option" where
  \<comment> \<open>accumulator; whether the previous character was a digit\<close>
  "digits_val acc prev [] = (if prev then Some acc else None)"
| "digits_val acc prev (c # cs) =
     (if is_ascii_digit c then digits_val (acc * 10 + digit_val c) True cs
      else if c = CHR ''_'' \<and> prev then digits_val acc False cs
      else None)"

definition py_int :: "string \<Rightarrow> int option" where
  "py_int s = (case strip s of
     [] \<Rightarrow> None
   | c # cs \<Rightarrow>
     if c = CHR ''-'' then map_option (\<lambda>n. - int n) (digits_val 0 False cs)
     else if c = CHR ''+'' then map_option int (digits_val 0 False cs)
     else map_option int (digits_val 0 False (c # cs)))"

lemma digit_char_props:
  assumes "d < 10"
  shows "is_ascii_digit (digit_char d)" "digit_val (digit_char d) = d" "\<not> is_space (digit_char d)"
    "digit_char d \<noteq> CHR ''-''" "digit_char d \<noteq> CHR ''+''"
proof -
  have oc: "of_char (digit_char d) = 48 + d" using assms by (simp add: digit_char_def)
  then show "is_ascii_digit (digit_char d)" "digit_val (digit_char d) = d" "\<not> is_space (digit_char d)"
    using assms by (simp_all add: is_ascii_digit_def digit_val_def is_space_def)
  have "of_char (digit_char d) \<noteq> (45 :: nat)" "of_char (digit_char d) \<noteq> (43 :: nat)"
    using oc by simp_all
  then show "digit_char d \<noteq> CHR ''-''" "digit_char d \<noteq> CHR ''+''"
    by auto
qed

lemma digits_val_digits:
  assumes "list_all is_ascii_digit s" "s \<noteq> [] \<or> prev"
  shows "digits_val acc prev s = Some (foldl (\<lambda>a c. a * 10 + digit_val c) acc s)"
  using assms by (induction acc prev s rule: digits_val.induct) auto

lemma nat_str_digits: "list_all is_ascii_digit (nat_str n)"
  by (induction n rule: nat_str.induct) (subst nat_str.simps, simp add: digit_char_props)

lemma nat_str_neq_Nil [simp]: "nat_str n \<noteq> []"
  by (subst nat_str.simps) simp

lemma foldl_nat_str: "foldl (\<lambda>a c. a * 10 + digit_val c) 0 (nat_str n) = n"
  by (induction n rule: nat_str.induct) (subst nat_str.simps, simp add: digit_char_props)

lemma digits_val_nat_str [simp]: "digits_val 0 False (nat_str n) = Some n"
  by (simp add: digits_val_digits nat_str_digits foldl_nat_str)

lemma length_nat_str: "0 < k \<Longrightarrow> n < 10 ^ k \<Longrightarrow> length (nat_str n) \<le> k"
proof (induction n arbitrary: k rule: nat_str.induct)
  case (1 n)
  show ?case
  proof (cases "n < 10")
    case True
    with "1.prems" show ?thesis by (subst nat_str.simps) simp
  next
    case False
    with "1.prems" obtain j where k: "k = Suc j" "0 < j" by (cases k; cases "k - 1") auto
    with "1.prems" have "n div 10 < 10 ^ j" by (simp add: less_mult_imp_div_less mult.commute)
    from "1.IH" [OF False k(2) this] False k show ?thesis by (subst nat_str.simps) simp
  qed
qed

lemma hd_nat_str: "0 < n \<Longrightarrow> hd (nat_str n) \<noteq> CHR ''0''"
proof (induction n rule: nat_str.induct)
  case (1 n)
  show ?case
  proof (cases "n < 10")
    case True
    have "digit_val (CHR ''0'') = 0" by (simp add: digit_val_def)
    moreover have "digit_val (digit_char n) = n" using True by (rule digit_char_props(2))
    ultimately have "digit_char n \<noteq> CHR ''0''" using "1.prems" by (metis less_not_refl)
    with True show ?thesis by (subst nat_str.simps) simp
  next
    case False
    then have "0 < n div 10" by simp
    from "1.IH" [OF False this] False show ?thesis by (subst nat_str.simps) simp
  qed
qed

lemma nat_str_zero: "nat_str 0 = ''0''"
proof -
  have "nat_str 0 = [char_of (48 :: nat)]" by (simp add: nat_str.simps digit_char_def)
  also have "char_of (48 :: nat) = CHR ''0''" by code_simp
  finally show ?thesis .
qed

lemma digit_not:
  assumes "is_ascii_digit c"
  shows "\<not> is_space c" "c \<noteq> CHR ''-''" "c \<noteq> CHR ''+''" "c \<noteq> CHR ''.''" "c \<noteq> CHR '',''" "c \<noteq> CHR '':''"
  using assms by (auto simp: is_ascii_digit_def is_space_def Let_def)

lemma stripped_nat_str: "stripped (nat_str n)"
proof -
  have "\<forall>c \<in> set (nat_str n). \<not> is_space c" using nat_str_digits [of n] digit_not(1) by (auto simp: list_all_iff)
  then show ?thesis by (simp add: stripped_def)
qed

lemma strip_nat_str [simp]: "strip (nat_str n) = nat_str n"
  by (simp add: strip_stripped stripped_nat_str)

text \<open>Printing a number and reading it gives it back.\<close>

lemma py_int_int_str [simp]: "py_int (int_str i) = Some i"
proof (cases "i < 0")
  case True
  have "stripped (CHR ''-'' # nat_str (nat (- i)))"
    using stripped_nat_str [of "nat (- i)"] by (simp add: stripped_def is_space_def)
  with True show ?thesis by (simp add: py_int_def int_str_def strip_stripped)
next
  case False
  obtain c cs where c: "nat_str (nat i) = c # cs" by (cases "nat_str (nat i)") auto
  have d: "is_ascii_digit c" using nat_str_digits [of "nat i"] by (simp add: c)
  have "strip (c # cs) = c # cs" "digits_val 0 False (c # cs) = Some (nat i)"
    using strip_nat_str [of "nat i"] digits_val_nat_str [of "nat i"] unfolding c by simp_all
  with False digit_not [OF d] show ?thesis by (simp add: py_int_def int_str_def c del: digits_val.simps)
qed

end
