(* ===== verification/Py_Json.thy ===== *)
theory Py_Json
  imports Py_Text
begin

text \<open>
  The values \<open>json.loads\<close> returns, with the Python operations the sources apply to values
  whose type they do not know: truth, \<open>str(x)\<close>, \<open>int(x)\<close> and dictionary access. A float is
  its exact rational value together with the text Python prints for it; \<open>Infinity\<close> and
  \<open>NaN\<close>, which \<open>json.loads\<close> accepts, are values of their own. A dictionary is the list of
  its items in insertion order; a second \<open>d[k] = v\<close> keeps the position of the first.
\<close>

section \<open>Dictionaries in insertion order\<close>

type_synonym ('k, 'v) dict = "('k \<times> 'v) list"

definition dict_get :: "('k, 'v) dict \<Rightarrow> 'k \<Rightarrow> 'v option" where
  "dict_get d k = map_of d k"

definition dict_get_or :: "('k, 'v) dict \<Rightarrow> 'k \<Rightarrow> 'v \<Rightarrow> 'v" where
  \<comment> \<open>\<open>d.get(k, default)\<close>\<close>
  "dict_get_or d k v = (case dict_get d k of None \<Rightarrow> v | Some x \<Rightarrow> x)"

fun dict_set :: "'k \<Rightarrow> 'v \<Rightarrow> ('k, 'v) dict \<Rightarrow> ('k, 'v) dict" where
  "dict_set k v [] = [(k, v)]"
| "dict_set k v ((k', v') # d) = (if k' = k then (k, v) # d else (k', v') # dict_set k v d)"

definition dict_pop :: "'k \<Rightarrow> ('k, 'v) dict \<Rightarrow> ('k, 'v) dict" where
  \<comment> \<open>\<open>d.pop(k, None)\<close>\<close>
  "dict_pop k d = filter (\<lambda>(k', _). k' \<noteq> k) d"

definition dict_ok :: "('k, 'v) dict \<Rightarrow> bool" where
  \<comment> \<open>a dictionary holds a key once\<close>
  "dict_ok d \<longleftrightarrow> distinct (map fst d)"

fun dict_set_all :: "('k \<times> 'v) list \<Rightarrow> ('k, 'v) dict \<Rightarrow> ('k, 'v) dict" where
  "dict_set_all [] d = d"
| "dict_set_all ((k, v) # kvs) d = dict_set_all kvs (dict_set k v d)"

lemma dict_get_Nil [simp]: "dict_get [] k = None"
  by (simp add: dict_get_def)

lemma dict_get_set [simp, dict_simps]:
  "dict_get (dict_set k v d) k' = (if k' = k then Some v else dict_get d k')"
  by (induction k v d rule: dict_set.induct) (auto simp: dict_get_def)

lemma dict_get_pop [simp, dict_simps]:
  "dict_get (dict_pop k d) k' = (if k' = k then None else dict_get d k')"
  by (induction d) (auto simp: dict_get_def dict_pop_def)

lemma dict_get_or_set [simp, dict_simps]:
  "dict_get_or (dict_set k v d) k' w = (if k' = k then v else dict_get_or d k' w)"
  by (simp add: dict_get_or_def)

lemma dict_get_or_pop [simp, dict_simps]:
  "dict_get_or (dict_pop k d) k' w = (if k' = k then w else dict_get_or d k' w)"
  by (simp add: dict_get_or_def)

lemma keys_dict_set: "fst ` set (dict_set k v d) = insert k (fst ` set d)"
  by (induction k v d rule: dict_set.induct) auto

lemma keys_dict_set_list: "map fst (dict_set k v d) = map fst d @ (if k \<in> fst ` set d then [] else [k])"
  by (induction k v d rule: dict_set.induct) auto

lemma dict_ok_set [simp, intro]: "dict_ok d \<Longrightarrow> dict_ok (dict_set k v d)"
  by (auto simp: dict_ok_def keys_dict_set_list)

lemma dict_ok_pop [simp, intro]: "dict_ok d \<Longrightarrow> dict_ok (dict_pop k d)"
  by (auto simp: dict_ok_def dict_pop_def distinct_map_filter)

lemma dict_ok_Nil [simp]: "dict_ok []"
  by (simp add: dict_ok_def)

lemma length_dict_set:
  "length (dict_set k v d) = (if k \<in> fst ` set d then length d else Suc (length d))"
  using arg_cong [OF keys_dict_set_list [of k v d], of length] by simp

lemma length_dict_set_le: "length (dict_set k v d) \<le> Suc (length d)"
  by (simp add: length_dict_set)

lemma dict_pop_absent: "k \<notin> fst ` set d \<Longrightarrow> dict_pop k d = d"
  by (induction d) (auto simp: dict_pop_def)

lemma length_dict_pop: "dict_ok d \<Longrightarrow> k \<in> fst ` set d \<Longrightarrow> Suc (length (dict_pop k d)) = length d"
proof (induction d)
  case (Cons kv d)
  show ?case
  proof (cases "fst kv = k")
    case True
    with Cons.prems have "dict_pop k d = d"
      by (simp add: dict_ok_def dict_pop_absent)
    with True show ?thesis by (auto simp: dict_pop_def split: prod.splits)
  next
    case False
    with Cons show ?thesis by (auto simp: dict_ok_def dict_pop_def split: prod.splits)
  qed
qed simp

lemma length_dict_pop_le: "length (dict_pop k d) \<le> length d"
  by (simp add: dict_pop_def)

lemma dict_get_set_all:
  "distinct (map fst kvs) \<Longrightarrow>
   dict_get (dict_set_all kvs d) k = (case map_of kvs k of Some v \<Rightarrow> Some v | None \<Rightarrow> dict_get d k)"
  by (induction kvs d rule: dict_set_all.induct)
    (auto simp: map_of_eq_None_iff [THEN iffD2] split: option.split)

lemma dict_ok_set_all [simp]: "dict_ok d \<Longrightarrow> dict_ok (dict_set_all kvs d)"
  by (induction kvs d rule: dict_set_all.induct) auto

lemma dict_get_Some_key: "dict_get d k = Some v \<Longrightarrow> k \<in> fst ` set d"
  by (force simp: dict_get_def dest: map_of_SomeD)

lemma dict_get_None_iff: "dict_get d k = None \<longleftrightarrow> k \<notin> fst ` set d"
  by (simp add: dict_get_def map_of_eq_None_iff)

text \<open>
  The interface of a store of named values: what a lookup returns after a write or a removal,
  and that both keep the well-formedness of the store. The components that persist settings
  use a dictionary through these laws alone.
\<close>

locale keyed_store =
  fixes get :: "'s \<Rightarrow> 'k \<Rightarrow> 'v option"
    and put :: "'k \<Rightarrow> 'v \<Rightarrow> 's \<Rightarrow> 's"
    and remove :: "'k \<Rightarrow> 's \<Rightarrow> 's"
    and inv :: "'s \<Rightarrow> bool"
  assumes get_put: "get (put k v s) k' = (if k' = k then Some v else get s k')"
    and get_remove: "get (remove k s) k' = (if k' = k then None else get s k')"
    and inv_put: "inv s \<Longrightarrow> inv (put k v s)"
    and inv_remove: "inv s \<Longrightarrow> inv (remove k s)"
begin

lemma get_put_same: "get (put k v s) k = Some v"
  by (simp add: get_put)

lemma get_fold_put:
  "distinct (map fst kvs) \<Longrightarrow>
   get (fold (\<lambda>(k, v). put k v) kvs s) k
   = (case map_of kvs k of Some v \<Rightarrow> Some v | None \<Rightarrow> get s k)"
  by (induction kvs arbitrary: s)
    (auto simp: get_put map_of_eq_None_iff [THEN iffD2] split: option.split)

lemma get_fold_put_other: "k \<notin> fst ` set kvs \<Longrightarrow> get (fold (\<lambda>(k, v). put k v) kvs s) k = get s k"
  by (induction kvs arbitrary: s) (auto simp: get_put)

lemma inv_fold_put: "inv s \<Longrightarrow> inv (fold (\<lambda>(k, v). put k v) kvs s)"
  by (induction kvs arbitrary: s) (auto simp: inv_put)

lemma get_fold_remove:
  "get (fold remove ks s) k = (if k \<in> set ks then None else get s k)"
  by (induction ks arbitrary: s) (auto simp: get_remove)

end

interpretation dict: keyed_store dict_get dict_set dict_pop dict_ok
  by unfold_locales auto

section \<open>JSON values\<close>

datatype json =
    JNull | JBool bool | JInt int | JFloat rat string | JInf bool | JNan
  | JStr string | JArr "json list" | JObj "(string \<times> json) list"

type_synonym obj = "(string, json) dict"

abbreviation JDict :: "(string, json) dict \<Rightarrow> json" where
  "JDict \<equiv> JObj"

definition truthy :: "json \<Rightarrow> bool" where
  "truthy j = (case j of
     JNull \<Rightarrow> False | JBool b \<Rightarrow> b | JInt i \<Rightarrow> i \<noteq> 0 | JFloat r _ \<Rightarrow> r \<noteq> 0
   | JInf _ \<Rightarrow> True | JNan \<Rightarrow> True | JStr s \<Rightarrow> s \<noteq> [] | JArr xs \<Rightarrow> xs \<noteq> [] | JObj d \<Rightarrow> d \<noteq> [])"

definition or_else :: "json \<Rightarrow> json \<Rightarrow> json" where
  \<comment> \<open>\<open>a or b\<close>\<close>
  "or_else a b = (if truthy a then a else b)"

text \<open>\<open>repr\<close> of a string: the quote is a double quote only when the text has a single quote and no double one.\<close>

definition hex_char :: "nat \<Rightarrow> char" where
  "hex_char d = (if d < 10 then char_of (48 + d) else char_of (87 + d))"

definition repr_char :: "char \<Rightarrow> char \<Rightarrow> string" where
  "repr_char q c = (let n = of_char c :: nat in
     if c = q \<or> n = 92 then [CHR 0x5C, c]
     else if n = 10 then [CHR 0x5C, CHR ''n'']
     else if n = 13 then [CHR 0x5C, CHR ''r'']
     else if n = 9 then [CHR 0x5C, CHR ''t'']
     else if n < 32 \<or> (127 \<le> n \<and> n \<le> 160) \<or> n = 173
       then [CHR 0x5C, CHR ''x'', hex_char (n div 16), hex_char (n mod 16)]
     else [c])"

definition repr_str :: "string \<Rightarrow> string" where
  "repr_str s = (let q = (if CHR 0x27 \<in> set s \<and> CHR 0x22 \<notin> set s then CHR 0x22 else CHR 0x27)
     in q # concat (map (repr_char q) s) @ [q])"

fun py_repr :: "json \<Rightarrow> string"
  and py_repr_list :: "json list \<Rightarrow> string list"
  and py_repr_items :: "(string \<times> json) list \<Rightarrow> string list" where
  "py_repr JNull = ''None''"
| "py_repr (JBool b) = (if b then ''True'' else ''False'')"
| "py_repr (JInt i) = int_str i"
| "py_repr (JFloat _ t) = t"
| "py_repr (JInf neg) = (if neg then ''-inf'' else ''inf'')"
| "py_repr JNan = ''nan''"
| "py_repr (JStr s) = repr_str s"
| "py_repr (JArr xs) = ''['' @ join '', '' (py_repr_list xs) @ '']''"
| "py_repr (JObj d) = ''{'' @ join '', '' (py_repr_items d) @ ''}''"
| "py_repr_list [] = []"
| "py_repr_list (x # xs) = py_repr x # py_repr_list xs"
| "py_repr_items [] = []"
| "py_repr_items ((k, v) # d) = (repr_str k @ '': '' @ py_repr v) # py_repr_items d"

definition py_str :: "json \<Rightarrow> string" where
  \<comment> \<open>\<open>str(x)\<close>\<close>
  "py_str j = (case j of JStr s \<Rightarrow> s | _ \<Rightarrow> py_repr j)"

definition trunc_rat :: "rat \<Rightarrow> int" where
  "trunc_rat r = (if r < 0 then - \<lfloor>- r\<rfloor> else \<lfloor>r\<rfloor>)"

definition py_int_of :: "json \<Rightarrow> int res" where
  \<comment> \<open>\<open>int(x)\<close>: \<open>TypeError\<close> for null, lists and dictionaries, \<open>ValueError\<close> for bad text and NaN,
     \<open>OverflowError\<close> for an infinity\<close>
  "py_int_of j = (case j of
     JBool b \<Rightarrow> Inr (if b then 1 else 0)
   | JInt i \<Rightarrow> Inr i
   | JFloat r _ \<Rightarrow> Inr (trunc_rat r)
   | JStr s \<Rightarrow> (case py_int s of None \<Rightarrow> Inl ValueError | Some i \<Rightarrow> Inr i)
   | JNan \<Rightarrow> Inl ValueError
   | JInf _ \<Rightarrow> Inl OverflowError
   | JNull \<Rightarrow> Inl TypeError | JArr _ \<Rightarrow> Inl TypeError | JObj _ \<Rightarrow> Inl TypeError)"

definition is_dict :: "json \<Rightarrow> bool" where
  "is_dict j = (case j of JObj _ \<Rightarrow> True | _ \<Rightarrow> False)"

definition dict_of :: "json \<Rightarrow> (string, json) dict" where
  "dict_of j = (case j of JObj d \<Rightarrow> d | _ \<Rightarrow> [])"

lemma py_int_of_simps [simp]:
  "py_int_of (JInt i) = Inr i" "py_int_of (JBool b) = Inr (if b then 1 else 0)"
  "py_int_of JNull = Inl TypeError" "py_int_of (JInf b) = Inl OverflowError"
  "py_int_of JNan = Inl ValueError"
  by (simp_all add: py_int_of_def)

lemma py_str_JStr [simp]: "py_str (JStr s) = s"
  by (simp add: py_str_def)

lemma truthy_simps [simp]:
  "truthy (JStr s) = (s \<noteq> [])" "truthy (JInt i) = (i \<noteq> 0)" "truthy (JBool b) = b" "\<not> truthy JNull"
  by (simp_all add: truthy_def)

end
