(* ===== verification/Gene_Ops.thy ===== *)
theory Gene_Ops
  imports Py_Json
begin

text \<open>
  \<open>uac_desktop/gene_ops.py\<close>: the primitive operations applied to the live ClientHello. Parsing
  of operations from JSON, the record layer (\<open>unwrap_records\<close>, \<open>wrap_records\<close>), the hello
  (\<open>parse_client_hello\<close>, \<open>build_hello\<close>, \<open>rewrite_extensions\<close>) and \<open>build_plan\<close>, which turns
  operations into the pieces to send and the delay after each. An exception is its class; the
  message text is not modelled. The LCG state is a 32-bit word.
\<close>

type_synonym u32 = "32 word"

section \<open>Operations\<close>

datatype op_kind =
    Tcp_frag | Delay | Record_cut | Pad_ext | Shuffle_ext | Grease | Sni_cut | Junk_record | Reorder_send

fun kind_name :: "op_kind \<Rightarrow> string" where
  "kind_name Tcp_frag = ''tcp_frag''"
| "kind_name Delay = ''delay''"
| "kind_name Record_cut = ''record_cut''"
| "kind_name Pad_ext = ''pad_ext''"
| "kind_name Shuffle_ext = ''shuffle_ext''"
| "kind_name Grease = ''grease''"
| "kind_name Sni_cut = ''sni_cut''"
| "kind_name Junk_record = ''junk_record''"
| "kind_name Reorder_send = ''reorder_send''"

lemma kind_name_inj: "kind_name a = kind_name b \<longleftrightarrow> a = b"
  by (cases a; cases b) simp_all

text \<open>Kinds are ordered by name, as \<open>sorted({o.kind ...})\<close> orders the strings.\<close>

instantiation op_kind :: linorder
begin

definition less_eq_op_kind :: "op_kind \<Rightarrow> op_kind \<Rightarrow> bool" where
  "less_eq_op_kind a b = (kind_name a \<le> kind_name b)"

definition less_op_kind :: "op_kind \<Rightarrow> op_kind \<Rightarrow> bool" where
  "less_op_kind a b = (kind_name a < kind_name b)"

instance
  by standard (auto simp: less_eq_op_kind_def less_op_kind_def kind_name_inj less_le)

end

definition KINDS :: "op_kind list" where
  "KINDS = [Tcp_frag, Delay, Record_cut, Pad_ext, Shuffle_ext, Grease, Sni_cut, Junk_record, Reorder_send]"

definition LIVE_UNSAFE_KINDS :: "op_kind list" where
  "LIVE_UNSAFE_KINDS = [Pad_ext, Shuffle_ext, Grease, Junk_record, Reorder_send]"

definition clamp_any :: "json \<Rightarrow> int \<Rightarrow> int \<Rightarrow> int \<Rightarrow> int res" where
  "clamp_any v lo hi dflt = (case py_int_of v of
     Inr n \<Rightarrow> Inr (clamp lo hi n)
   | Inl e \<Rightarrow> (if e = TypeError \<or> e = ValueError then Inr dflt else Inl e))"

record op =
  op_kind :: op_kind
  op_size :: int
  op_delay_ms :: int
  op_offset :: int
  op_content_type :: int
  op_ttl :: int
  op_checksum_mode :: string

datatype raw_op = Already op | Raw json

definition kind_of_text :: "string \<Rightarrow> op_kind" where
  "kind_of_text s = (case find (\<lambda>k. kind_name k = s) KINDS of Some k \<Rightarrow> k | None \<Rightarrow> Tcp_frag)"

definition mk_op :: "op_kind \<Rightarrow> int \<Rightarrow> int \<Rightarrow> string \<Rightarrow> int \<Rightarrow> int \<Rightarrow> int \<Rightarrow> op" where
  \<comment> \<open>the kind-specific bounds and the constructor call; \<open>sz\<close> and \<open>offset\<close> are integers already\<close>
  "mk_op kind sz offset mode delay ct ttl =
     \<lparr>op_kind = kind,
      op_size = (if kind = Tcp_frag then clamp 1 512 sz
                 else if kind = Record_cut then clamp 1 1024 sz
                 else if kind = Pad_ext then clamp 0 512 sz
                 else if kind = Junk_record then clamp 0 256 sz else sz),
      op_delay_ms = delay,
      op_offset = (if kind = Sni_cut then clamp 0 64 offset else offset),
      op_content_type = ct, op_ttl = ttl,
      op_checksum_mode = (if mode \<in> {''valid'', ''corrupt'', ''zero''} then mode else ''valid'')\<rparr>"

definition op_from_dict :: "(string, json) dict \<Rightarrow> op res" where
  "op_from_dict raw =
     (let kind = kind_of_text (lower (strip (py_str (or_else (dict_get_or raw ''kind'' (JStr ''tcp_frag'')) (JStr ''tcp_frag'')))));
          mode = lower (py_str (or_else (dict_get_or raw ''checksum_mode'' (JStr ''valid'')) (JStr ''valid'')))
      in rbind (clamp_any (dict_get_or raw ''size'' (JInt 5)) 0 2048 5) (\<lambda>sz.
         rbind (clamp_any (dict_get_or raw ''offset'' (JInt 0)) 0 4096 0) (\<lambda>offset.
         rbind (clamp_any (dict_get_or raw ''delay_ms'' (JInt 0)) 0 80 0) (\<lambda>delay.
         rbind (clamp_any (dict_get_or raw ''content_type'' (JInt 0x17)) 0 255 0x17) (\<lambda>ct.
         rbind (clamp_any (dict_get_or raw ''ttl'' (JInt 0)) 0 255 0) (\<lambda>ttl.
           Inr (mk_op kind sz offset mode delay ct ttl)))))))"

fun op_from_any :: "raw_op \<Rightarrow> op option res" where
  "op_from_any (Already op) = Inr (Some op)"
| "op_from_any (Raw (JObj d)) = rbind (op_from_dict d) (\<lambda>op. Inr (Some op))"
| "op_from_any (Raw _) = Inr None"

definition normalize_ops :: "raw_op list \<Rightarrow> op list res" where
  "normalize_ops ops = rbind (rmap op_from_any ops) (\<lambda>os. Inr (List.map_filter id os))"

section \<open>Permutations from the LCG\<close>

definition lcg_next :: "u32 \<Rightarrow> u32" where
  "lcg_next state = 1103515245 * state + 12345"

definition swap_at :: "nat \<Rightarrow> nat \<Rightarrow> 'a list \<Rightarrow> 'a list" where
  "swap_at i j xs = xs[i := xs ! j, j := xs ! i]"

fun lcg_shuffle :: "nat \<Rightarrow> u32 \<Rightarrow> 'a list \<Rightarrow> 'a list" where
  \<comment> \<open>the loop \<open>for i in range(len(order) - 1, 0, -1)\<close>, \<open>i\<close> counting down\<close>
  "lcg_shuffle 0 state order = order"
| "lcg_shuffle (Suc i) state order =
     (let state' = lcg_next state; j = unat state' mod (Suc i + 1)
      in lcg_shuffle i state' (swap_at (Suc i) j order))"

definition permute_indices :: "int \<Rightarrow> int \<Rightarrow> nat list" where
  "permute_indices n seed =
     (let order = [0..<nat (max 0 n)];
          s0 = (word_of_int seed :: u32); state = (if s0 = 0 then 1 else s0)
      in if length order \<le> 1 then order else lcg_shuffle (length order - 1) state order)"

definition shuffle_order :: "int \<Rightarrow> 'a list \<Rightarrow> 'a list" where
  "shuffle_order seed base = lcg_shuffle (length base - 1) (word_of_int seed) base"

section \<open>TLS parsing\<close>

record parsed_hello =
  ph_version :: bytes
  ph_prefix :: bytes
  ph_extensions :: "(nat \<times> bytes) list"
  ph_sni :: "nat list"

function unwrap_loop :: "bytes \<Rightarrow> bytes \<Rightarrow> bytes option \<Rightarrow> (bytes \<times> bytes) res" where
  \<comment> \<open>the bytes not yet read, the handshake bytes so far, the version of the first record\<close>
  "unwrap_loop rest out ver =
     (if 5 \<le> length rest then
        (if rest ! 0 \<noteq> 0x16 then Inl ValueError
         else let ver' = (case ver of None \<Rightarrow> pyslice 1 3 rest | Some v \<Rightarrow> v);
                  n = from_be (pyslice 3 5 rest)
              in if 5 + n > length rest then Inl ValueError
                 else unwrap_loop (drop (5 + n) rest) (out @ pyslice 5 (5 + n) rest) (Some ver'))
      else if rest \<noteq> [] \<or> out = [] then Inl ValueError
      else Inr (out, case ver of None \<Rightarrow> [3, 1] | Some v \<Rightarrow> v))"
  by pat_completeness auto
termination by (relation "measure (\<lambda>(rest, out, ver). length rest)") auto

declare unwrap_loop.simps [simp del]

definition unwrap_records :: "bytes \<Rightarrow> (bytes \<times> bytes) res" where
  "unwrap_records wire = unwrap_loop wire [] None"

definition ascii_replace :: "bytes \<Rightarrow> nat list" where
  \<comment> \<open>\<open>decode("ascii", "replace")\<close>: a byte above 127 is the code point \<open>0xFFFD\<close>\<close>
  "ascii_replace bs = map (\<lambda>b. if unat b < 128 then unat b else 0xFFFD) bs"

function parse_exts :: "bytes \<Rightarrow> (nat \<times> bytes) list \<Rightarrow> nat list \<Rightarrow> ((nat \<times> bytes) list \<times> nat list) res" where
  \<comment> \<open>the rest of the extension block, the extensions so far, the SNI so far\<close>
  "parse_exts blob exts sni =
     (if blob = [] then Inr (exts, sni)
      else if length blob < 4 then Inl ValueError
      else let t = from_be (pyslice 0 2 blob); n = from_be (pyslice 2 4 blob);
               data = pyslice 4 (4 + n) blob
           in if length data \<noteq> n then Inl ValueError
              else let sni' = (if t = 0 \<and> 5 \<le> length data \<and> data ! 2 = 0
                               then ascii_replace (pyslice 5 (5 + from_be (pyslice 3 5 data)) data)
                               else sni)
                   in parse_exts (drop (4 + n) blob) (exts @ [(t, data)]) sni')"
  by pat_completeness auto
termination by (relation "measure (\<lambda>(blob, exts, sni). length blob)") auto

declare parse_exts.simps [simp del]

definition hello_body :: "bytes \<Rightarrow> bytes res" where
  "hello_body hs =
     rbind (index hs 0) (\<lambda>typ.
     rbind (guard_res (typ = 0x01) ValueError) (\<lambda>_.
     let blen = from_be (pyslice 1 4 hs); body = pyslice 4 (4 + blen) hs in
     rbind (guard_res (length body = blen) ValueError) (\<lambda>_. Inr body)))"

definition prefix_end :: "bytes \<Rightarrow> nat res" where
  \<comment> \<open>version, random, session id, cipher suites and compression methods are skipped\<close>
  "prefix_end body =
     rbind (index body 34) (\<lambda>sess_len.
     let p1 = 34 + (1 + unat sess_len);
         p2 = p1 + (2 + from_be (pyslice p1 (p1 + 2) body)) in
     rbind (index body p2) (\<lambda>comp_len.
     let p = p2 + (1 + unat comp_len) in
     rbind (guard_res (p + 2 \<le> length body) ValueError) (\<lambda>_. Inr p)))"

definition ext_block :: "bytes \<Rightarrow> nat \<Rightarrow> bytes res" where
  "ext_block body p =
     (let elen = from_be (pyslice p (p + 2) body);
          ext_blob = pyslice (p + 2) (p + 2 + elen) body
      in rbind (guard_res (length ext_blob = elen \<and> p + 2 + elen = length body) ValueError)
           (\<lambda>_. Inr ext_blob))"

definition parse_client_hello :: "bytes \<Rightarrow> parsed_hello res" where
  "parse_client_hello wire =
     rbind (unwrap_records wire) (\<lambda>(hs, version).
     rbind (hello_body hs) (\<lambda>body.
     rbind (prefix_end body) (\<lambda>p.
     rbind (ext_block body p) (\<lambda>ext_blob.
     rbind (parse_exts ext_blob [] []) (\<lambda>(exts, sni).
       Inr \<lparr>ph_version = version, ph_prefix = take p body, ph_extensions = exts, ph_sni = sni\<rparr>)))))"

definition pack_ext :: "nat \<times> bytes \<Rightarrow> bytes res" where
  \<comment> \<open>\<open>struct.pack("!HH", t, len(d)) + d\<close>\<close>
  "pack_ext e = rbind (pack_H (int (fst e))) (\<lambda>a.
                rbind (pack_H (int (length (snd e)))) (\<lambda>b. Inr (a @ b @ snd e)))"

definition be24 :: "nat \<Rightarrow> bytes" where
  "be24 n = [word_of_nat (n div 256 div 256), word_of_nat (n div 256), word_of_nat n]"

definition build_hello :: "parsed_hello \<Rightarrow> (nat \<times> bytes) list \<Rightarrow> bytes res" where
  "build_hello parsed exts =
     rbind (rmap pack_ext exts) (\<lambda>parts.
     let blob = concat parts in
     rbind (pack_H (int (length blob))) (\<lambda>h.
     let body = ph_prefix parsed @ h @ blob in
     rbind (guard_res (int (length body) < 2 ^ 32) StructError) (\<lambda>_.
       Inr ([0x01] @ be24 (length body) @ body))))"

fun cut_loop :: "nat list \<Rightarrow> 'a list \<Rightarrow> 'a list list" where
  \<comment> \<open>one piece per size while data is left, then the remainder as one piece\<close>
  "cut_loop [] d = (if d = [] then [] else [d])"
| "cut_loop (s # ss) d = (if d = [] then [] else take s d # cut_loop ss (drop s d))"

definition clean_sizes :: "int list \<Rightarrow> nat list" where
  "clean_sizes sizes = map (\<lambda>s. nat (max 1 s)) (filter (\<lambda>s. s > 0) sizes)"

definition tls_rec :: "bytes \<Rightarrow> bytes \<Rightarrow> bytes res" where
  "tls_rec ver c = rbind (pack_H (int (length c))) (\<lambda>h. Inr ([0x16] @ ver @ h @ c))"

definition wrap_records :: "bytes \<Rightarrow> int list \<Rightarrow> bytes \<Rightarrow> bytes res" where
  "wrap_records hs sizes first_version =
     (let clean = (if clean_sizes sizes = [] then [length hs] else clean_sizes sizes);
          chunks = cut_loop clean hs
      in case chunks of
           [] \<Rightarrow> Inr []
         | c # cs \<Rightarrow> rbind (tls_rec first_version c) (\<lambda>r.
                     rbind (rmap (tls_rec [3, 3]) cs) (\<lambda>rs. Inr (r @ concat rs))))"

section \<open>Extension rewriting\<close>

definition EXT_NAMES :: "(nat \<times> string) list" where
  "EXT_NAMES = [(0x0000, ''sni''), (0x000A, ''supported_groups''), (0x000B, ''ec_point_formats''),
     (0x000D, ''signature_algorithms''), (0x0010, ''alpn''), (0x0015, ''padding''),
     (0x0017, ''extended_master_secret''), (0x002B, ''supported_versions'')]"

definition EXT_GREASE_A :: nat where "EXT_GREASE_A = 0x0A0A"
definition EXT_PSK :: nat where "EXT_PSK = 0x0029"

definition hex4 :: "nat \<Rightarrow> string" where
  \<comment> \<open>the format \<open>:04x\<close> of a 16-bit number\<close>
  "hex4 t = map hex_char [t div 4096 mod 16, t div 256 mod 16, t div 16 mod 16, t mod 16]"

definition parse_hex :: "string \<Rightarrow> nat" where
  \<comment> \<open>\<open>int(text, 16)\<close> on the lower-case digits that \<open>hex4\<close> writes\<close>
  "parse_hex s = foldl (\<lambda>n c. 16 * n + (let v = of_char c in if v \<le> 57 then v - 48 else v - 87)) 0 s"

definition ext_name :: "nat \<Rightarrow> string" where
  "ext_name t = (case map_of EXT_NAMES t of Some n \<Rightarrow> n | None \<Rightarrow> CHR ''x'' # hex4 t)"

fun name_exts :: "(nat \<times> bytes) list \<Rightarrow> string list \<Rightarrow> (string, bytes) dict \<Rightarrow> bytes option
    \<Rightarrow> string list \<times> (string, bytes) dict \<times> bytes option" where
  "name_exts [] names by_name psk = (names, by_name, psk)"
| "name_exts ((t, d) # es) names by_name psk =
     (if t = EXT_PSK then name_exts es names by_name (Some d)
      else let name0 = ext_name t;
               name = (if dict_get by_name name0 \<noteq> None
                       then name0 @ ''#'' @ nat_str (length names) else name0)
           in name_exts es (names @ [name]) (dict_set name d by_name) psk)"

definition ext_type_of_name :: "string \<Rightarrow> nat" where
  "ext_type_of_name name =
     (let base = hd (split_on (CHR ''#'') name)
      in case find (\<lambda>(t, n). n = base) EXT_NAMES of
           Some (t, _) \<Rightarrow> t
         | None \<Rightarrow> parse_hex (tl base))"

definition emit_ext :: "int \<Rightarrow> (string, bytes) dict \<Rightarrow> string \<Rightarrow> (nat \<times> bytes) list" where
  "emit_ext pad by_name name =
     (if name = ''grease'' then [(EXT_GREASE_A, [0])]
      else if name = ''padding'' then (if pad > 0 then [(0x0015, replicate (nat (min pad 2048)) 0)] else [])
      else (case dict_get by_name name of None \<Rightarrow> [] | Some d \<Rightarrow> [(ext_type_of_name name, d)]))"

definition rewrite_extensions :: "parsed_hello \<Rightarrow> int \<Rightarrow> bool \<Rightarrow> int option \<Rightarrow> (nat \<times> bytes) list" where
  "rewrite_extensions parsed pad grease shuffle_seed =
     (let (names0, by_name, psk) = name_exts (ph_extensions parsed) [] [] None;
          names = (if ''padding'' \<in> set names0 then names0 else names0 @ [''padding'']);
          order0 = (case shuffle_seed of None \<Rightarrow> names | Some seed \<Rightarrow> shuffle_order seed names);
          order = (if grease \<and> ''grease'' \<notin> set order0
                      \<and> \<not> (\<exists>e \<in> set (ph_extensions parsed). fst e = EXT_GREASE_A)
                   then ''grease'' # order0 else order0)
      in concat (map (emit_ext pad by_name) order)
         @ (case psk of None \<Rightarrow> [] | Some d \<Rightarrow> [(EXT_PSK, d)]))"

section \<open>The plan\<close>

record gene_plan =
  gp_pieces :: "bytes list"
  gp_delays_ms :: "int list"
  gp_wire :: bytes
  gp_applied :: "op_kind list"
  gp_skipped :: "op_kind list"
  gp_error :: "py_error option"

definition split_sizes :: "bytes \<Rightarrow> int list \<Rightarrow> bytes list" where
  "split_sizes data sizes =
     (if clean_sizes sizes = [] then [data]
      else let out = cut_loop (clean_sizes sizes) data in if out = [] then [data] else out)"

record plan_acc =
  pa_pad :: int
  pa_grease :: bool
  pa_shuffle :: "int option"
  pa_reorder :: "int option"
  pa_records :: "int list"
  pa_tcp :: "int list"
  pa_delays :: "int list"
  pa_cuts :: "int list"
  pa_junk :: "op list"

definition plan_acc0 :: plan_acc where
  "plan_acc0 = \<lparr>pa_pad = 0, pa_grease = False, pa_shuffle = None, pa_reorder = None, pa_records = [],
     pa_tcp = [], pa_delays = [], pa_cuts = [], pa_junk = []\<rparr>"

definition plan_op :: "op \<Rightarrow> plan_acc \<Rightarrow> plan_acc" where
  "plan_op op a = (case op_kind op of
     Pad_ext \<Rightarrow> a\<lparr>pa_pad := op_size op\<rparr>
   | Grease \<Rightarrow> a\<lparr>pa_grease := (op_size op > 0)\<rparr>
   | Shuffle_ext \<Rightarrow> a\<lparr>pa_shuffle := Some (if op_size op \<noteq> 0 then op_size op
                                         else if op_offset op \<noteq> 0 then op_offset op else 1)\<rparr>
   | Record_cut \<Rightarrow> a\<lparr>pa_records := pa_records a @ [op_size op]\<rparr>
   | Tcp_frag \<Rightarrow> a\<lparr>pa_tcp := pa_tcp a @ [op_size op], pa_delays := pa_delays a @ [op_delay_ms op]\<rparr>
   | Delay \<Rightarrow> (if pa_delays a = [] then a
               else a\<lparr>pa_delays := butlast (pa_delays a) @ [max (last (pa_delays a)) (op_delay_ms op)]\<rparr>)
   | Sni_cut \<Rightarrow> a\<lparr>pa_cuts := pa_cuts a @ [op_offset op]\<rparr>
   | Junk_record \<Rightarrow> a\<lparr>pa_junk := pa_junk a @ [op]\<rparr>
   | Reorder_send \<Rightarrow> (if op_size op > 0 then a\<lparr>pa_reorder := Some (op_size op)\<rparr> else a))"

definition rewrites_hello :: "plan_acc \<Rightarrow> bool" where
  "rewrites_hello a = (pa_pad a \<noteq> 0 \<or> pa_grease a \<or> pa_shuffle a \<noteq> None)"

definition needs_parse :: "plan_acc \<Rightarrow> bool" where
  "needs_parse a = (pa_records a \<noteq> [] \<or> pa_cuts a \<noteq> [] \<or> rewrites_hello a)"

definition transform_hello :: "bool \<Rightarrow> plan_acc \<Rightarrow> bytes \<Rightarrow> (bytes \<times> nat list) res" where
  \<comment> \<open>the body of the \<open>try\<close>: the new wire and the host name\<close>
  "transform_hello strict a data =
     rbind (parse_client_hello data) (\<lambda>parsed.
     let exts = (if rewrites_hello a
                 then rewrite_extensions parsed (pa_pad a) (pa_grease a) (pa_shuffle a)
                 else ph_extensions parsed)
     in rbind (build_hello parsed exts) (\<lambda>hs.
        rbind (if pa_records a \<noteq> [] \<or> rewrites_hello a
               then wrap_records hs (pa_records a) (if strict then [3, 1] else ph_version parsed)
               else Inr data) (\<lambda>wire.
        rbind (parse_client_hello wire) (\<lambda>_. Inr (wire, ph_sni parsed)))))"

fun cut_steps :: "nat \<Rightarrow> nat list \<Rightarrow> int list" where
  \<comment> \<open>absolute cut positions, ascending, to piece sizes\<close>
  "cut_steps prev [] = []"
| "cut_steps prev (c # cs) = (if c > prev then int (c - prev) # cut_steps c cs else cut_steps prev cs)"

definition sni_cut_sizes :: "bytes \<Rightarrow> nat list \<Rightarrow> int list \<Rightarrow> int list" where
  "sni_cut_sizes wire hostname sni_cuts =
     (if hostname = [] \<or> sni_cuts = [] then []
      else let needle = map (\<lambda>c. word_of_nat c) (filter (\<lambda>c. c < 128) hostname) :: bytes
           in case find_sub needle wire of
                None \<Rightarrow> []
              | Some idx \<Rightarrow>
                let len = max 1 (length needle);
                    cuts = sort (uniq (map (\<lambda>off. idx + nat (max 0 (min (int len) off)))
                                        (filter (\<lambda>off. 0 \<le> off \<and> off \<le> int len) sni_cuts)))
                in cut_steps 0 cuts)"

definition junk_piece :: "op \<Rightarrow> (bytes \<times> int) res" where
  "junk_piece j = rbind (pack_H (op_size j)) (\<lambda>h.
     Inr ([word_of_int (op_content_type j)] @ [3, 3] @ h @ replicate (nat (op_size j)) 0, op_delay_ms j))"

definition chunk_delays :: "nat \<Rightarrow> int list \<Rightarrow> int list" where
  "chunk_delays n delays =
     map (\<lambda>i. if i + 1 \<ge> n then 0 else if i < length delays then delays ! i else 0) [0..<n]"

definition reorder_hello :: "int option \<Rightarrow> (bytes \<times> int) list \<Rightarrow> (bytes \<times> int) list" where
  "reorder_hello seed hello = (case seed of
     None \<Rightarrow> hello
   | Some k \<Rightarrow>
     if length hello < 2 then hello
     else let h = map (\<lambda>i. hello ! i) (permute_indices (int (length hello)) k)
          in butlast h @ [(fst (last h), 0)])"

definition live_ops :: "bool \<Rightarrow> op list \<Rightarrow> op list" where
  "live_ops strict ops =
     (if strict then ops else filter (\<lambda>p. op_kind p \<notin> set LIVE_UNSAFE_KINDS) ops)"

definition skipped_kinds :: "bool \<Rightarrow> op list \<Rightarrow> op_kind list" where
  "skipped_kinds strict ops =
     (if strict then [] else uniq (filter (\<lambda>k. k \<in> set LIVE_UNSAFE_KINDS) (map op_kind ops)))"

definition hello_kinds :: "op_kind list" where
  "hello_kinds = [Pad_ext, Grease, Shuffle_ext, Record_cut, Sni_cut]"

definition choose_wire :: "bool \<Rightarrow> plan_acc \<Rightarrow> bytes \<Rightarrow> op_kind list \<Rightarrow> op_kind list
    \<Rightarrow> bytes \<times> nat list \<times> int list \<times> op_kind list \<times> op_kind list \<times> py_error option" where
  \<comment> \<open>wire, host name, SNI cuts, applied, skipped, error: any exception falls back to the data as it came\<close>
  "choose_wire strict a data applied skipped =
     (if needs_parse a then
        (case transform_hello strict a data of
           Inr (w, h) \<Rightarrow> (w, h, pa_cuts a, applied, skipped, None)
         | Inl e \<Rightarrow> (data, [], [], filter (\<lambda>k. k \<notin> set hello_kinds) applied,
                    skipped @ filter (\<lambda>k. k \<in> set applied) hello_kinds, Some e))
      else (data, [], pa_cuts a, applied, skipped, None))"

definition build_plan :: "bytes \<Rightarrow> raw_op list \<Rightarrow> bool \<Rightarrow> gene_plan res" where
  "build_plan data ops strict =
     rbind (normalize_ops ops) (\<lambda>ops0.
     let ops_n = live_ops strict ops0;
         a = fold plan_op ops_n plan_acc0;
         (wire, hostname, cuts, applied, skipped, error) =
           choose_wire strict a data (sort (uniq (map op_kind ops_n))) (skipped_kinds strict ops0);
         from_cuts = sni_cut_sizes wire hostname cuts;
         tcp_sizes = from_cuts @ pa_tcp a;
         tcp_delays = replicate (length from_cuts) 0 @ pa_delays a
     in rbind (rmap junk_piece (pa_junk a)) (\<lambda>junk.
        let chunks = split_sizes wire tcp_sizes;
            hello = reorder_hello (pa_reorder a) (zip chunks (chunk_delays (length chunks) tcp_delays));
            allp = junk @ hello
        in Inr \<lparr>gp_pieces = map fst allp, gp_delays_ms = map snd allp, gp_wire = wire,
                gp_applied = applied, gp_skipped = skipped, gp_error = error\<rparr>))"

section \<open>Permutations\<close>

lemma mset_swap_at: "i < length xs \<Longrightarrow> j < length xs \<Longrightarrow> mset (swap_at i j xs) = mset xs"
  by (simp add: swap_at_def mset_swap)

lemma length_swap_at [simp]: "length (swap_at i j xs) = length xs"
  by (simp add: swap_at_def)

lemma mset_lcg_shuffle: "i < length xs \<or> i = 0 \<Longrightarrow> mset (lcg_shuffle i state xs) = mset xs"
proof (induction i state xs rule: lcg_shuffle.induct)
  case (2 i state order)
  let ?j = "unat (lcg_next state) mod (Suc i + 1)"
  have "?j < Suc i + 1" by (rule mod_less_divisor) simp
  with 2(2) have "?j < length order" by linarith
  with 2 show ?case by (simp add: Let_def mset_swap_at)
qed simp

lemma shuffle_order_mset: "mset (shuffle_order seed base) = mset base"
  unfolding shuffle_order_def by (cases base) (simp_all add: mset_lcg_shuffle)

lemma permute_indices_mset: "mset (permute_indices n seed) = mset [0..<nat n]"
proof -
  have *: "nat (max 0 n) = nat n" by simp
  have "mset (lcg_shuffle (length [0..<nat n] - 1) st [0..<nat n]) = mset [0..<nat n]" for st
    by (rule mset_lcg_shuffle) (cases "nat n", simp_all)
  then show ?thesis by (simp add: permute_indices_def * Let_def)
qed

section \<open>Cutting keeps the bytes\<close>

lemma concat_cut_loop [simp]: "concat (cut_loop ss d) = d"
  by (induction ss d rule: cut_loop.induct) auto

lemma cut_loop_nonempty: "\<forall>s \<in> set ss. 0 < s \<Longrightarrow> c \<in> set (cut_loop ss d) \<Longrightarrow> c \<noteq> []"
  by (induction ss d rule: cut_loop.induct) (auto split: if_splits)

lemma concat_split_sizes [simp]: "concat (split_sizes d sizes) = d"
proof (cases "clean_sizes sizes = [] \<or> cut_loop (clean_sizes sizes) d = []")
  case True
  then show ?thesis using concat_cut_loop [of "clean_sizes sizes" d]
    by (cases "clean_sizes sizes = []") (simp_all add: split_sizes_def Let_def)
next
  case False
  then show ?thesis by (simp add: split_sizes_def Let_def)
qed

lemma clean_sizes_pos: "s \<in> set (clean_sizes sizes) \<Longrightarrow> 0 < s"
  by (auto simp: clean_sizes_def)

section \<open>Records\<close>

lemma tls_rec_Inr:
  "tls_rec ver c = Inr r \<longleftrightarrow> length c \<le> 65535 \<and> r = [0x16] @ ver @ be16 (length c) @ c"
  by (auto simp: tls_rec_def rbind_eq_Inr_iff pack_H_Inr)

lemma unwrap_loop_record:
  assumes "length ver = 2" "length c \<le> 65535"
  shows "unwrap_loop ([0x16] @ ver @ be16 (length c) @ c @ rest) out v
         = unwrap_loop rest (out @ c) (Some (case v of None \<Rightarrow> ver | Some w \<Rightarrow> w))"
proof -
  let ?w = "[0x16] @ ver @ be16 (length c) @ c @ rest"
  have "drop (5 + length c) ([0x16] @ ver @ be16 (length c) @ c) = []"
    using assms by simp
  then have "drop (5 + length c) (([0x16] @ ver @ be16 (length c) @ c) @ rest) = rest"
    using assms by (subst drop_append) simp
  then have "drop (5 + length c) ?w = rest" by simp
  moreover have "pyslice 1 3 ?w = ver" "pyslice 3 5 ?w = be16 (length c)"
    "pyslice 5 (5 + length c) ?w = c"
    using assms by (simp_all add: pyslice_def)
  ultimately show ?thesis using assms
    by (subst unwrap_loop.simps) (simp add: Let_def cong: option.case_cong)
qed

lemma unwrap_loop_Nil:
  "unwrap_loop [] out (Some v) = (if out = [] then Inl ValueError else Inr (out, v))"
  by (simp add: unwrap_loop.simps)

lemma unwrap_loop_records:
  "rmap (tls_rec ver) cs = Inr rs \<Longrightarrow> length ver = 2 \<Longrightarrow>
   unwrap_loop (concat rs) out (Some v)
   = (if out @ concat cs = [] then Inl ValueError else Inr (out @ concat cs, v))"
proof (induction cs arbitrary: rs out)
  case Nil
  then show ?case by (simp add: unwrap_loop_Nil)
next
  case (Cons c cs)
  from Cons.prems obtain rs' where rs: "rs = ([0x16] @ ver @ be16 (length c) @ c) # rs'"
    and rs': "rmap (tls_rec ver) cs = Inr rs'" and c: "length c \<le> 65535"
    by (auto simp: rbind_eq_Inr_iff tls_rec_Inr)
  show ?case
    using unwrap_loop_record [OF Cons.prems(2) c, of "concat rs'" out "Some v"]
      Cons.IH [OF rs' Cons.prems(2), of "out @ c"]
    by (simp add: rs)
qed

lemma unwrap_wrap_records:
  assumes "wrap_records hs sizes ver = Inr wire" "hs \<noteq> []" "length ver = 2"
  shows "unwrap_records wire = Inr (hs, ver)"
proof -
  define clean where "clean = (if clean_sizes sizes = [] then [length hs] else clean_sizes sizes)"
  have cat: "concat (cut_loop clean hs) = hs" by simp
  with assms(2) obtain c cs where chunks: "cut_loop clean hs = c # cs"
    by (metis concat.simps(1) list.exhaust)
  with assms(1) obtain rs where c: "length c \<le> 65535" and rs: "rmap (tls_rec [3, 3]) cs = Inr rs"
    and wire: "wire = [0x16] @ ver @ be16 (length c) @ c @ concat rs"
    by (auto simp: wrap_records_def Let_def clean_def rbind_eq_Inr_iff tls_rec_Inr)
  have hs: "c @ concat cs = hs" using cat chunks by simp
  have "unwrap_records wire = unwrap_loop (concat rs) c (Some ver)"
    using unwrap_loop_record [OF assms(3) c, of "concat rs" "[]" None]
    by (simp add: unwrap_records_def wire)
  also have "\<dots> = Inr (hs, ver)"
    using unwrap_loop_records [OF rs, of c ver] hs assms(2) by auto
  finally show ?thesis .
qed

lemma unwrap_loop_version:
  "unwrap_loop rest out ver = Inr (hs, v) \<Longrightarrow> (\<forall>w. ver = Some w \<longrightarrow> length w = 2) \<Longrightarrow> length v = 2"
proof (induction rest out ver arbitrary: hs v rule: unwrap_loop.induct)
  case (1 rest out ver)
  from "1.prems" show ?case
    by (subst (asm) unwrap_loop.simps)
      (auto simp: Let_def split: if_splits option.splits dest!: "1.IH" [rotated 5])
qed

section \<open>Parsing and rebuilding the hello\<close>

section \<open>Parsing and rebuilding the hello\<close>

lemma pack_ext_Inr:
  "pack_ext e = Inr r \<longleftrightarrow> fst e \<le> 65535 \<and> length (snd e) \<le> 65535
     \<and> r = be16 (fst e) @ be16 (length (snd e)) @ snd e"
  by (auto simp: pack_ext_def rbind_eq_Inr_iff pack_H_Inr)

lemma take4_split: "4 \<le> length xs \<Longrightarrow> xs = take 2 xs @ take 2 (drop 2 xs) @ drop 4 xs"
  by (metis append_take_drop_id drop_drop numeral_Bit0 numeral_plus_one one_add_one semiring_norm(2)
      add_numeral_left)

text \<open>Packing the parsed extensions again gives the block that was parsed.\<close>

lemma parse_exts_pack:
  "parse_exts blob exts sni = Inr (exts', sni') \<Longrightarrow>
   \<exists>new parts. exts' = exts @ new \<and> rmap pack_ext new = Inr parts \<and> concat parts = blob"
proof (induction blob exts sni rule: parse_exts.induct)
  case (1 blob exts sni)
  let ?t = "from_be (pyslice 0 2 blob)" and ?n = "from_be (pyslice 2 4 blob)"
  let ?d = "pyslice 4 (4 + ?n) blob"
  show ?case
  proof (cases "blob = []")
    case True
    with "1.prems" have "exts' = exts" by (simp add: parse_exts.simps [of "[]"])
    with True show ?thesis by simp
  next
    case False
    with "1.prems" have len: "4 \<le> length blob" "length ?d = ?n"
      by (auto simp: parse_exts.simps [of blob] Let_def split: if_splits)
    define s2 where "s2 = (if ?t = 0 \<and> 5 \<le> length ?d \<and> ?d ! 2 = 0
                     then ascii_replace (pyslice 5 (5 + from_be (pyslice 3 5 ?d)) ?d) else sni)"
    have "parse_exts blob exts sni = parse_exts (drop (4 + ?n) blob) (exts @ [(?t, ?d)]) s2"
      using False len by (subst parse_exts.simps) (simp add: Let_def s2_def del: length_pyslice)
    with "1.prems" have
      rec: "parse_exts (drop (4 + ?n) blob) (exts @ [(?t, ?d)]) s2 = Inr (exts', sni')" by simp
    have "\<exists>new parts. exts' = (exts @ [(?t, ?d)]) @ new \<and> rmap pack_ext new = Inr parts
            \<and> concat parts = drop (4 + ?n) blob"
      using "1.IH" [OF False _ refl refl refl _ s2_def rec] len by simp
    then obtain new parts where new: "exts' = exts @ (?t, ?d) # new" "rmap pack_ext new = Inr parts"
      "concat parts = drop (4 + ?n) blob" by auto
    have l2: "length (pyslice 0 2 blob) = 2" "length (pyslice 2 4 blob) = 2" using len by simp_all
    then have "pack_ext (?t, ?d) = Inr (pyslice 0 2 blob @ pyslice 2 4 blob @ ?d)"
      using len from_be_two_le [OF l2(1)] from_be_two_le [OF l2(2)]
      by (simp add: pack_ext_Inr be16_from_be)
    moreover have "pyslice 0 2 blob @ pyslice 2 4 blob @ ?d @ drop (4 + ?n) blob = blob"
      using take4_split [OF len(1)] append_take_drop_id [of ?n "drop 4 blob"]
      by (simp add: pyslice_def add.commute)
    ultimately show ?thesis using new
      by (intro exI [of _ "(?t, ?d) # new"] exI [of _ "(pyslice 0 2 blob @ pyslice 2 4 blob @ ?d) # parts"])
        simp
  qed
qed

definition hello_length :: "bytes \<Rightarrow> nat" where
  \<comment> \<open>the handshake header and the body length it states\<close>
  "hello_length hs = 4 + from_be (pyslice 1 4 hs)"

lemma from_be_three: "from_be [a, b, c] = unat a * 65536 + unat b * 256 + unat c"
  by (simp add: from_be_def)

lemma be24_from_be: "length bs = 3 \<Longrightarrow> be24 (from_be bs) = bs"
proof -
  assume "length bs = 3"
  then obtain a b c where bs: "bs = [a, b, c]"
    by (auto simp: numeral_3_eq_3 length_Suc_conv)
  let ?n = "unat a * 65536 + unat b * 256 + unat c"
  note lt = unat_u8 [of a] unat_u8 [of b] unat_u8 [of c]
  have "?n div 65536 = unat a" by (rule div_nat_eqI) (use lt in simp)+
  then have d: "?n div 256 div 256 = unat a" by (simp flip: div_mult2_eq)
  have d2: "?n div 256 = unat a * 256 + unat b" by (rule div_nat_eqI) (use lt in simp)+
  have z: "(256 :: u8) = 0" "(65536 :: u8) = 0" by simp_all
  have "a * 256 = 0" "b * 256 = 0" "a * 65536 = 0" using z by (metis mult_zero_right)+
  then have "word_of_nat (unat a * 256 + unat b) = b" "word_of_nat ?n = c"
    by (simp_all del: word_of_nat_eq_iff)
  with d d2 show ?thesis by (simp add: bs be24_def from_be_three)
qed

lemma hello_body_Inr:
  "hello_body hs = Inr body \<longleftrightarrow>
     hs \<noteq> [] \<and> hs ! 0 = 1 \<and> body = pyslice 4 (hello_length hs) hs
     \<and> length body = from_be (pyslice 1 4 hs)"
  by (auto simp: hello_body_def rbind_eq_Inr_iff index_Inr Let_def hello_length_def)

lemma prefix_end_le: "prefix_end body = Inr p \<Longrightarrow> 34 < p \<and> p + 2 \<le> length body"
  by (auto simp: prefix_end_def rbind_eq_Inr_iff Let_def)

lemma ext_block_Inr:
  assumes "ext_block body p = Inr blob" "p + 2 \<le> length body"
  shows "take p body @ be16 (length blob) @ blob = body" "length blob \<le> 65535"
proof -
  let ?h = "pyslice p (p + 2) body"
  from assms(1) have blob: "blob = pyslice (p + 2) (p + 2 + from_be ?h) body" "length blob = from_be ?h"
    "p + 2 + from_be ?h = length body"
    by (auto simp: ext_block_def rbind_eq_Inr_iff Let_def)
  have l2: "length ?h = 2" using assms(2) by simp
  have "blob = drop (p + 2) body" using blob(1,3) by (simp add: pyslice_def)
  moreover have "?h = take 2 (drop p body)" by (simp add: pyslice_def)
  moreover have "drop (p + 2) body = drop 2 (drop p body)" by (simp add: add.commute)
  ultimately have "take p body @ ?h @ blob = body"
    by (metis append_take_drop_id)
  then show "take p body @ be16 (length blob) @ blob = body"
    using blob(2) be16_from_be [OF l2] by simp
  show "length blob \<le> 65535" using blob(2) from_be_two_le [OF l2] by simp
qed

lemma from_be_three_lt: "length bs = 3 \<Longrightarrow> from_be bs < 2 ^ 24"
proof -
  assume "length bs = 3"
  then obtain a b c where bs: "bs = [a, b, c]"
    by (auto simp: numeral_3_eq_3 length_Suc_conv)
  have "unat a * 65536 + unat b * 256 + unat c < 16777216"
    using unat_u8 [of a] unat_u8 [of b] unat_u8 [of c] by linarith
  then show ?thesis by (simp add: bs from_be_three)
qed

lemma hello_body_frame:
  assumes "hello_body hs = Inr body" "34 < length body"
  shows "[1] @ be24 (length body) @ body = take (hello_length hs) hs"
    and "hello_length hs \<le> length hs" and "length body < 2 ^ 24"
proof -
  from assms(1) have b: "hs \<noteq> []" "hs ! 0 = 1" "body = pyslice 4 (hello_length hs) hs"
    "length body = from_be (pyslice 1 4 hs)"
    unfolding hello_body_Inr by blast+
  have "length body = min (hello_length hs - 4) (length hs - 4)"
    using arg_cong [OF b(3), of length] by simp
  with b(4) assms(2) show le: "hello_length hs \<le> length hs"
    by (simp add: hello_length_def)
  have l3: "length (pyslice 1 4 hs) = 3" using le by (simp add: hello_length_def)
  then show "length body < 2 ^ 24" using b(4) from_be_three_lt by simp
  obtain t where hs: "hs = 1 # t" using b(1,2) by (cases hs) auto
  have n4: "hello_length hs = 4 + length body" using b(4) by (simp add: hello_length_def)
  have "be24 (length body) = take 3 t" using be24_from_be [OF l3] b(4) by (simp add: hs pyslice_def)
  moreover have "body = take (length body) (drop 3 t)"
    using b(3) n4 by (simp add: hs pyslice_def)
  moreover have "take (hello_length hs) hs = 1 # take 3 t @ take (length body) (drop 3 t)"
  proof -
    have "4 + length body = Suc (3 + length body)" by simp
    then have "take (hello_length hs) hs = take (Suc (3 + length body)) (1 # t)"
      using n4 hs by metis
    then show ?thesis by (simp only: take_Suc_Cons take_add)
  qed
  ultimately show "[1] @ be24 (length body) @ body = take (hello_length hs) hs" by simp
qed

text \<open>Rebuilding an unmodified parsed hello gives back its handshake message.\<close>

lemma parse_client_hello_build:
  assumes "parse_client_hello wire = Inr ph"
  obtains hs where "unwrap_records wire = Inr (hs, ph_version ph)"
    and "length (ph_version ph) = 2"
    and "hello_length hs \<le> length hs"
    and "build_hello ph (ph_extensions ph) = Inr (take (hello_length hs) hs)"
    and "take (hello_length hs) hs \<noteq> []"
proof -
  from assms obtain hs body p blob sni where
    uw: "unwrap_records wire = Inr (hs, ph_version ph)" and hb: "hello_body hs = Inr body"
    and pe: "prefix_end body = Inr p" and eb: "ext_block body p = Inr blob"
    and ex: "parse_exts blob [] [] = Inr (ph_extensions ph, sni)" and pre: "ph_prefix ph = take p body"
    by (auto simp: parse_client_hello_def rbind_eq_Inr_iff)
  have p: "34 < p" "p + 2 \<le> length body" using prefix_end_le [OF pe] by auto
  note frame = hello_body_frame [OF hb] and blob = ext_block_Inr [OF eb p(2)]
  from parse_exts_pack [OF ex] obtain parts where
    parts: "rmap pack_ext (ph_extensions ph) = Inr parts" "concat parts = blob" by auto
  have lb: "Suc (Suc (p + length blob)) = length body"
    using arg_cong [OF blob(1), of length] p by simp
  have "build_hello ph (ph_extensions ph) = Inr ([1] @ be24 (length body) @ body)"
    using parts blob frame(3) p lb
    by (simp add: build_hello_def pre Let_def)
  with frame p have "build_hello ph (ph_extensions ph) = Inr (take (hello_length hs) hs)" by simp
  moreover have "take (hello_length hs) hs \<noteq> []" using frame(1) p by (auto simp: hello_length_def)
  moreover have "length (ph_version ph) = 2"
    using uw unwrap_loop_version [of wire "[]" None] by (simp add: unwrap_records_def)
  ultimately show ?thesis using that uw frame(2) p by simp
qed

section \<open>Live plans\<close>

definition live_acc :: "plan_acc \<Rightarrow> bool" where
  "live_acc a \<longleftrightarrow> \<not> rewrites_hello a \<and> pa_reorder a = None \<and> pa_junk a = []"

lemma plan_op_live:
  "op_kind op \<notin> set LIVE_UNSAFE_KINDS \<Longrightarrow> live_acc a \<Longrightarrow> live_acc (plan_op op a)"
  by (cases "op_kind op")
    (auto simp: plan_op_def live_acc_def rewrites_hello_def LIVE_UNSAFE_KINDS_def)

lemma fold_plan_op_live:
  "\<forall>p \<in> set ops. op_kind p \<notin> set LIVE_UNSAFE_KINDS \<Longrightarrow> live_acc a \<Longrightarrow> live_acc (fold plan_op ops a)"
  by (induction ops arbitrary: a) (auto simp: plan_op_live)

lemma live_acc0: "live_acc plan_acc0"
  by (simp add: live_acc_def rewrites_hello_def plan_acc0_def)

text \<open>Without a rewriting operation the new wire carries the same handshake message.\<close>

lemma transform_hello_live:
  assumes "transform_hello False a data = Inr (wire, h)" "\<not> rewrites_hello a"
  shows "wire = data \<or> (\<exists>hs v. unwrap_records data = Inr (hs, v)
           \<and> unwrap_records wire = Inr (take (hello_length hs) hs, v))"
proof -
  from assms have "\<exists>ph hs'. parse_client_hello data = Inr ph
      \<and> build_hello ph (ph_extensions ph) = Inr hs'
      \<and> (if pa_records a \<noteq> [] then wrap_records hs' (pa_records a) (ph_version ph) else Inr data)
         = Inr wire"
    by (fastforce simp: transform_hello_def rbind_eq_Inr_iff Let_def)
  then obtain ph hs' where ph: "parse_client_hello data = Inr ph"
    and b: "build_hello ph (ph_extensions ph) = Inr hs'"
    and w: "(if pa_records a \<noteq> [] then wrap_records hs' (pa_records a) (ph_version ph) else Inr data)
            = Inr wire" by blast
  from parse_client_hello_build [OF ph] obtain hs where
    hs: "unwrap_records data = Inr (hs, ph_version ph)" "length (ph_version ph) = 2"
      "build_hello ph (ph_extensions ph) = Inr (take (hello_length hs) hs)"
      "take (hello_length hs) hs \<noteq> []" by metis
  show ?thesis
  proof (cases "pa_records a = []")
    case True
    with w show ?thesis by simp
  next
    case False
    with w b hs have "wrap_records (take (hello_length hs) hs) (pa_records a) (ph_version ph) = Inr wire"
      by simp
    from unwrap_wrap_records [OF this hs(4,2)] hs(1) show ?thesis by blast
  qed
qed

lemma chunk_delays_length [simp]: "length (chunk_delays n ds) = n"
  by (simp add: chunk_delays_def)

lemma chunk_delays_last: "0 < n \<Longrightarrow> last (chunk_delays n ds) = 0"
  by (cases n) (simp_all add: chunk_delays_def)

lemma split_sizes_neq [simp]: "split_sizes d sizes \<noteq> []"
  by (simp add: split_sizes_def Let_def)

text \<open>What \<open>build_plan\<close> computes in live mode, with the accumulator of its operations named.\<close>

lemma choose_wire_sound:
  "choose_wire strict a data ap sk = (w, rest) \<Longrightarrow>
   w = data \<or> (\<exists>h. transform_hello strict a data = Inr (w, h))"
  by (auto simp: choose_wire_def split: if_splits sum.splits prod.splits)

lemma build_plan_live_cases:
  assumes "build_plan data ops False = Inr pl"
  obtains ops0 a sizes delays where
    "normalize_ops ops = Inr ops0" "a = fold plan_op (live_ops False ops0) plan_acc0" "live_acc a"
    "gp_pieces pl = split_sizes (gp_wire pl) sizes"
    "gp_delays_ms pl = chunk_delays (length (gp_pieces pl)) delays"
    "set delays \<subseteq> insert 0 (set (pa_delays a))"
    "gp_wire pl = data \<or> (\<exists>h. transform_hello False a data = Inr (gp_wire pl, h))"
proof -
  from assms obtain ops0 where ops0: "normalize_ops ops = Inr ops0"
    by (auto simp: build_plan_def rbind_eq_Inr_iff)
  define a where "a = fold plan_op (live_ops False ops0) plan_acc0"
  have live: "live_acc a"
    unfolding a_def by (rule fold_plan_op_live) (auto simp: live_acc0 live_ops_def)
  then have j: "pa_junk a = []" "pa_reorder a = None" by (simp_all add: live_acc_def)
  obtain w h cuts ap sk er where
    res: "choose_wire False a data (sort (uniq (map op_kind (live_ops False ops0))))
            (skipped_kinds False ops0) = (w, h, cuts, ap, sk, er)"
    by (metis prod_cases6)
  define sizes where "sizes = sni_cut_sizes w h cuts @ pa_tcp a"
  define ds where "ds = replicate (length (sni_cut_sizes w h cuts)) 0 @ pa_delays a"
  have pl: "pl = \<lparr>gp_pieces = split_sizes w sizes,
     gp_delays_ms = chunk_delays (length (split_sizes w sizes)) ds,
     gp_wire = w, gp_applied = ap, gp_skipped = sk, gp_error = er\<rparr>"
    using assms res j
    by (simp add: build_plan_def ops0 Let_def a_def [symmetric] reorder_hello_def sizes_def ds_def)
  have "set ds \<subseteq> insert 0 (set (pa_delays a))" by (auto simp: ds_def)
  with pl ops0 live choose_wire_sound [OF res] a_def show ?thesis
    by (intro that [of ops0 a sizes ds]) simp_all
qed

section \<open>Bounds of parsed operations\<close>

definition op_in_range :: "op \<Rightarrow> bool" where
  "op_in_range p \<longleftrightarrow>
     0 \<le> op_size p \<and> op_size p \<le> 2048 \<and> 0 \<le> op_offset p \<and> op_offset p \<le> 4096
     \<and> 0 \<le> op_delay_ms p \<and> op_delay_ms p \<le> 80
     \<and> 0 \<le> op_content_type p \<and> op_content_type p \<le> 255 \<and> 0 \<le> op_ttl p \<and> op_ttl p \<le> 255
     \<and> (op_kind p = Tcp_frag \<longrightarrow> 1 \<le> op_size p \<and> op_size p \<le> 512)
     \<and> (op_kind p = Record_cut \<longrightarrow> 1 \<le> op_size p \<and> op_size p \<le> 1024)
     \<and> (op_kind p = Pad_ext \<longrightarrow> op_size p \<le> 512)
     \<and> (op_kind p = Junk_record \<longrightarrow> op_size p \<le> 256)
     \<and> (op_kind p = Sni_cut \<longrightarrow> op_offset p \<le> 64)
     \<and> op_checksum_mode p \<in> {''valid'', ''corrupt'', ''zero''}"

lemma clamp_any_Inr:
  "clamp_any v lo hi d = Inr n \<Longrightarrow> lo \<le> hi \<Longrightarrow> lo \<le> d \<Longrightarrow> d \<le> hi \<Longrightarrow> lo \<le> n \<and> n \<le> hi"
  by (auto simp: clamp_any_def clamp_def split: sum.splits if_splits)

lemma clamp_any_Inl: "clamp_any v lo hi d = Inl e \<Longrightarrow> e = OverflowError"
  by (auto simp: clamp_any_def py_int_of_def split: sum.splits if_splits json.splits option.splits)

lemma mk_op_in_range:
  assumes "0 \<le> sz \<and> sz \<le> 2048" "0 \<le> offset \<and> offset \<le> 4096" "0 \<le> delay \<and> delay \<le> 80"
    "0 \<le> ct \<and> ct \<le> 255" "0 \<le> ttl \<and> ttl \<le> 255"
  shows "op_in_range (mk_op kind sz offset mode delay ct ttl)"
proof -
  have "(if mode \<in> X then mode else ''valid'') \<in> insert ''valid'' X" for X by simp
  from this [of "{''valid'', ''corrupt'', ''zero''}"] assms show ?thesis
    unfolding op_in_range_def mk_op_def clamp_def by (cases kind) (simp_all del: insert_iff add: max_def min_def)
qed

lemma op_from_dict_in_range: "op_from_dict d = Inr p \<Longrightarrow> op_in_range p"
proof -
  assume "op_from_dict d = Inr p"
  then obtain kind sz offset delay ct ttl mode where c:
    "clamp_any (dict_get_or d ''size'' (JInt 5)) 0 2048 5 = Inr sz"
    "clamp_any (dict_get_or d ''offset'' (JInt 0)) 0 4096 0 = Inr offset"
    "clamp_any (dict_get_or d ''delay_ms'' (JInt 0)) 0 80 0 = Inr delay"
    "clamp_any (dict_get_or d ''content_type'' (JInt 0x17)) 0 255 0x17 = Inr ct"
    "clamp_any (dict_get_or d ''ttl'' (JInt 0)) 0 255 0 = Inr ttl"
    and p: "p = mk_op kind sz offset mode delay ct ttl"
    unfolding op_from_dict_def Let_def rbind_eq_Inr_iff by blast
  show ?thesis unfolding p
    using c [THEN clamp_any_Inr] by (intro mk_op_in_range) simp_all
qed

lemma rbind_Inl_iff: "rbind m f = Inl e \<longleftrightarrow> m = Inl e \<or> (\<exists>a. m = Inr a \<and> f a = Inl e)"
  by (cases m) auto

lemma op_from_any_error: "op_from_any (Raw j) = Inl e \<Longrightarrow> e = OverflowError"
  by (cases j) (auto simp: op_from_dict_def rbind_Inl_iff Let_def dest: clamp_any_Inl)

lemma op_from_any_in_range: "op_from_any (Raw j) = Inr (Some p) \<Longrightarrow> op_in_range p"
  by (cases j) (auto simp: rbind_eq_Inr_iff op_from_dict_in_range)

lemma normalize_raw_in_range:
  "normalize_ops (map Raw js) = Inr ops \<Longrightarrow> p \<in> set ops \<Longrightarrow> op_in_range p"
proof -
  have "rmap op_from_any (map Raw js) = Inr os \<Longrightarrow> Some p \<in> set os \<Longrightarrow> op_in_range p" for os
    by (induction js arbitrary: os) (auto simp: rbind_eq_Inr_iff op_from_any_in_range)
  then show "normalize_ops (map Raw js) = Inr ops \<Longrightarrow> p \<in> set ops \<Longrightarrow> op_in_range p"
    by (auto simp: normalize_ops_def rbind_eq_Inr_iff map_filter_def)
qed

lemma plan_op_delays:
  assumes "op_in_range p" "\<forall>d \<in> set (pa_delays a). 0 \<le> d \<and> d \<le> 80"
  shows "\<forall>d \<in> set (pa_delays (plan_op p a)). 0 \<le> d \<and> d \<le> 80"
proof -
  have "pa_delays a \<noteq> [] \<Longrightarrow> 0 \<le> last (pa_delays a) \<and> last (pa_delays a) \<le> 80"
    using assms(2) last_in_set by blast
  with assms show ?thesis
    by (cases "op_kind p") (auto simp: plan_op_def op_in_range_def dest: in_set_butlastD)
qed

lemma fold_plan_op_delays:
  "\<forall>p \<in> set ops. op_in_range p \<Longrightarrow> \<forall>d \<in> set (pa_delays a). 0 \<le> d \<and> d \<le> 80 \<Longrightarrow>
   \<forall>d \<in> set (pa_delays (fold plan_op ops a)). 0 \<le> d \<and> d \<le> 80"
proof (induction ops arbitrary: a)
  case (Cons p ops)
  have "\<forall>d \<in> set (pa_delays (plan_op p a)). 0 \<le> d \<and> d \<le> 80"
    by (rule plan_op_delays) (use Cons.prems in auto)
  from Cons.IH [OF _ this] Cons.prems(1) show ?case by simp
qed simp

lemma set_chunk_delays: "set (chunk_delays n ds) \<subseteq> insert 0 (set ds)"
  by (auto simp: chunk_delays_def)

section \<open>The plan on a concrete hello\<close>

definition sample_hello :: bytes where
  \<comment> \<open>a 65-byte ClientHello for the host \<open>a.ir\<close>\<close>
  "sample_hello = [0x16, 3, 1, 0, 60, 1, 0, 0, 56, 3, 3] @ replicate 32 7 @
     [0, 0, 2, 0x13, 1, 1, 0, 0, 13, 0, 0, 0, 9, 0, 7, 0, 0, 4, 97, 46, 105, 114]"

definition sample_ops :: "raw_op list" where
  "sample_ops = [Raw (JObj [(''kind'', JStr ''record_cut''), (''size'', JInt 20)]),
     Raw (JObj [(''kind'', JStr ''sni_cut''), (''offset'', JInt 2)]),
     Raw (JObj [(''kind'', JStr ''tcp_frag''), (''size'', JInt 1), (''delay_ms'', JInt 200)]),
     Raw (JObj [(''kind'', JStr ''pad_ext''), (''size'', JInt 9)])]"


lemma sample_plan_shape:
  "map_sum id (\<lambda>pl. (map length (gp_pieces pl), gp_delays_ms pl)) (build_plan sample_hello sample_ops False)
   = Inr ([68, 1, 1], [0, 80, 0])"
  by code_simp

lemma sample_planE:
  obtains pl where "build_plan sample_hello sample_ops False = Inr pl"
    "map length (gp_pieces pl) = [68, 1, 1]" "gp_delays_ms pl = [0, 80, 0]"
  using sample_plan_shape by (cases "build_plan sample_hello sample_ops False") auto

section \<open>Properties\<close>

lemma live_plan_wire:
  assumes "build_plan data ops False = Inr pl"
  shows "concat (gp_pieces pl) = gp_wire pl
    \<and> (gp_wire pl = data \<or>
        (\<exists>hs v. unwrap_records data = Inr (hs, v)
           \<and> unwrap_records (gp_wire pl) = Inr (take (hello_length hs) hs, v)))
    \<and> length (gp_delays_ms pl) = length (gp_pieces pl) \<and> last (gp_delays_ms pl) = 0"
  using assms
proof (rule build_plan_live_cases)
  fix ops0 a sizes delays
  assume a: "live_acc a" and p: "gp_pieces pl = split_sizes (gp_wire pl) sizes"
    and d: "gp_delays_ms pl = chunk_delays (length (gp_pieces pl)) delays"
    and w: "gp_wire pl = data \<or> (\<exists>h. transform_hello False a data = Inr (gp_wire pl, h))"
  have "0 < length (gp_pieces pl)" by (simp add: p)
  with transform_hello_live [of a data] a w show ?thesis
    unfolding d by (auto simp: p live_acc_def chunk_delays_last)
qed

text \<open>
  C5: In live mode (\<open>strict=False\<close>) a plan never changes what the client says. The pieces
  joined are the wire image; the wire image is the data as it came, or its records, unwrapped,
  hold the same version and the same ClientHello message (header, stated length, body) as the
  records of the data. Bytes after that message in the records of the data are the only thing
  that can be lost. There is one delay per piece and the last is 0.
\<close>

theorem live_plan_transparent:
  assumes "build_plan data ops False = Inr pl"
  shows "concat (gp_pieces pl) = gp_wire pl
    \<and> (gp_wire pl = data \<or>
        (\<exists>hs v. unwrap_records data = Inr (hs, v)
           \<and> unwrap_records (gp_wire pl) = Inr (take (hello_length hs) hs, v)))
    \<and> length (gp_delays_ms pl) = length (gp_pieces pl) \<and> last (gp_delays_ms pl) = 0"
  by (rule live_plan_wire [OF assms])

theorem live_plan_transparent_witness:
  "\<exists>pl. build_plan sample_hello sample_ops False = Inr pl
     \<and> map length (gp_pieces pl) = [68, 1, 1] \<and> concat (gp_pieces pl) = gp_wire pl
     \<and> last (gp_delays_ms pl) = 0"
proof -
  obtain pl where pl: "build_plan sample_hello sample_ops False = Inr pl"
    "map length (gp_pieces pl) = [68, 1, 1]" by (rule sample_planE)
  note t = live_plan_transparent [OF pl(1)]
  then have "concat (gp_pieces pl) = gp_wire pl" ..
  moreover from t have "last (gp_delays_ms pl) = 0" by (elim conjE)
  ultimately show ?thesis using pl by (intro exI [of _ pl] conjI)
qed

text \<open>
  Whatever delays a gene asks for, a live plan built from JSON operations waits between 0 and
  80 milliseconds after each piece.
\<close>

theorem live_plan_delays_bounded:
  assumes "build_plan data (map Raw js) False = Inr pl"
  shows "\<forall>d \<in> set (gp_delays_ms pl). 0 \<le> d \<and> d \<le> 80"
  using assms
proof (rule build_plan_live_cases)
  fix ops0 a sizes delays
  assume n: "normalize_ops (map Raw js) = Inr ops0"
    and a: "a = fold plan_op (live_ops False ops0) plan_acc0"
    and d: "gp_delays_ms pl = chunk_delays (length (gp_pieces pl)) delays"
    and ds: "set delays \<subseteq> insert 0 (set (pa_delays a))"
  have "\<forall>d \<in> set (pa_delays a). 0 \<le> d \<and> d \<le> 80"
    unfolding a using normalize_raw_in_range [OF n]
    by (intro fold_plan_op_delays) (auto simp: live_ops_def plan_acc0_def)
  with ds set_chunk_delays [of "length (gp_pieces pl)" delays] show ?thesis
    unfolding d by fastforce
qed

theorem live_plan_delays_bounded_witness:
  "\<exists>pl. build_plan sample_hello sample_ops False = Inr pl
     \<and> (\<forall>d \<in> set (gp_delays_ms pl). 0 \<le> d \<and> d \<le> 80) \<and> 80 \<in> set (gp_delays_ms pl)"
proof -
  define js where "js = map (\<lambda>r. case r of Raw j \<Rightarrow> j | _ \<Rightarrow> JNull) sample_ops"
  have ops: "sample_ops = map Raw js" by (simp add: sample_ops_def js_def)
  obtain pl where pl: "build_plan sample_hello sample_ops False = Inr pl"
    "gp_delays_ms pl = [0, 80, 0]" by (rule sample_planE)
  from live_plan_delays_bounded [OF pl(1) [unfolded ops]] pl show ?thesis by auto
qed

text \<open>
  Cutting a handshake message into TLS records and reading the records back gives the message
  and the version of the first record, for any list of record sizes.
\<close>

theorem wrap_unwrap_roundtrip:
  assumes "wrap_records hs sizes ver = Inr wire" "hs \<noteq> []" "length ver = 2"
  shows "unwrap_records wire = Inr (hs, ver)"
  using assms by (rule unwrap_wrap_records)

theorem wrap_unwrap_roundtrip_witness:
  "\<exists>wire. wrap_records [1, 2, 3, 4, 5] [2, 2] [3, 1] = Inr wire \<and> length wire = 20
     \<and> unwrap_records wire = Inr ([1, 2, 3, 4, 5], [3, 1])"
proof -
  have w: "wrap_records [1, 2, 3, 4, 5] [2, 2] [3, 1]
      = Inr [22, 3, 1, 0, 2, 1, 2, 22, 3, 3, 0, 2, 3, 4, 22, 3, 3, 0, 1, 5]" by code_simp
  from wrap_unwrap_roundtrip [OF this] show ?thesis unfolding w by simp
qed

text \<open>
  \<open>Op.from_any\<close> on any JSON value either ignores it, or yields an operation whose every field is
  within the bounds of its kind, or fails; and it fails only with \<open>OverflowError\<close>, which
  \<open>_clamp\<close> does not catch: a size of \<open>Infinity\<close>, which \<open>json.loads\<close> accepts, does raise it and
  \<open>build_plan\<close> with it, for all data.
\<close>

theorem op_from_json_bounds:
  "(case op_from_any (Raw j) of
      Inr None \<Rightarrow> True
    | Inr (Some p) \<Rightarrow> op_in_range p
    | Inl e \<Rightarrow> e = OverflowError)
   \<and> build_plan data [Raw (JObj [(''size'', JInf False)])] strict = Inl OverflowError"
proof
  show "case op_from_any (Raw j) of
      Inr None \<Rightarrow> True | Inr (Some p) \<Rightarrow> op_in_range p | Inl e \<Rightarrow> e = OverflowError"
    using op_from_any_error [of j] op_from_any_in_range [of j]
    by (auto split: sum.splits option.splits)
  have "normalize_ops [Raw (JObj [(''size'', JInf False)])] = Inl OverflowError"
    by code_simp
  then show "build_plan data [Raw (JObj [(''size'', JInf False)])] strict = Inl OverflowError"
    by (simp add: build_plan_def)
qed

end
