(* ===== verification/Tls_Tools.thy ===== *)
theory Tls_Tools
  imports Packet_Templates Gene_Ops
begin

text \<open>
  \<open>uac_desktop/tls_tools.py\<close>: \<open>locate_sni\<close> finds the host name of a ClientHello, \<open>fragments\<close>
  cuts the first flight by a named strategy. A strategy is the text the settings hold; an unknown
  one falls through to the last line of \<open>fragments\<close>. The contract of a cut that only changes the
  segmentation of the byte stream is the locale \<open>stream_cut\<close>.
\<close>

section \<open>Finding the SNI\<close>

function sni_names :: "bytes \<Rightarrow> nat \<Rightarrow> nat \<Rightarrow> (nat \<times> nat) option res" where
  \<comment> \<open>the inner \<open>while q + 3 <= names_end\<close>; \<open>Inr None\<close> is the loop running out\<close>
  "sni_names data q names_end =
     (if q + 3 \<le> names_end then
        rbind (index data q) (\<lambda>name_type.
          let name_len = from_be (pyslice (q + 1) (q + 3) data) in
          if name_type = 0 \<and> q + 3 + name_len \<le> names_end then Inr (Some (q + 3, name_len))
          else sni_names data (q + 3 + name_len) names_end)
      else Inr None)"
  by pat_completeness auto
termination by (relation "measure (\<lambda>(data, q, e). e - q)") auto

declare sni_names.simps [simp del]

function sni_exts :: "bytes \<Rightarrow> nat \<Rightarrow> nat \<Rightarrow> (nat \<times> nat) option res" where
  "sni_exts data pos e =
     (if pos + 4 \<le> e then
        let ext_type = from_be (pyslice pos (pos + 2) data);
            ext_len = from_be (pyslice (pos + 2) (pos + 4) data);
            pos' = pos + 4
        in if ext_type = 0 \<and> pos' + ext_len \<le> e then
             rbind (sni_names data (pos' + 2) (pos' + ext_len)) (\<lambda>r.
               case r of Some x \<Rightarrow> Inr (Some x) | None \<Rightarrow> sni_exts data (pos' + ext_len) e)
           else sni_exts data (pos' + ext_len) e
      else Inr None)"
  by pat_completeness auto
termination by (relation "measure (\<lambda>(data, pos, e). e - pos)") auto

declare sni_exts.simps [simp del]

definition sni_search :: "bytes \<Rightarrow> (nat \<times> nat) option res" where
  "sni_search data =
     (let record_end = min (length data) (5 + from_be (pyslice 3 5 data)) in
      rbind (index data 5) (\<lambda>hs_type.
      if hs_type \<noteq> 0x01 then Inr None else
      rbind (index data 43) (\<lambda>session_len.
      let p1 = 43 + (1 + unat session_len);
          p2 = p1 + (2 + from_be (pyslice p1 (p1 + 2) data)) in
      rbind (index data p2) (\<lambda>compression_len.
      let p3 = p2 + (1 + unat compression_len);
          extensions_len = from_be (pyslice p3 (p3 + 2) data);
          pos = p3 + 2
      in sni_exts data pos (min record_end (pos + extensions_len))))))"

definition locate_sni :: "bytes \<Rightarrow> (nat \<times> nat) option" where
  "locate_sni data =
     (if length data < 9 \<or> data ! 0 \<noteq> 0x16 then None
      else case sni_search data of Inl _ \<Rightarrow> None | Inr r \<Rightarrow> r)"

definition find_sni :: "bytes \<Rightarrow> bytes" where
  \<comment> \<open>\<open>decode("ascii", "ignore")\<close> keeps the bytes below 128\<close>
  "find_sni data = (case locate_sni data of
     None \<Rightarrow> []
   | Some (start, n) \<Rightarrow> filter (\<lambda>b. unat b < 128) (pyslice start (start + n) data))"

section \<open>Cutting\<close>

definition tls_record :: "bytes \<Rightarrow> bytes \<Rightarrow> bytes res" where
  "tls_record version payload =
     rbind (pack_H (int (length payload))) (\<lambda>h. Inr ([0x16] @ version @ h @ payload))"

function chunks_of :: "nat \<Rightarrow> 'a list \<Rightarrow> 'a list list" where
  \<comment> \<open>\<open>[data[i:i + size] for i in range(0, len(data), size)]\<close>; the callers pass a positive size\<close>
  "chunks_of n d = (if d = [] then [] else take (max 1 n) d # chunks_of n (drop (max 1 n) d))"
  by pat_completeness auto
termination by (relation "measure (\<lambda>(n, d). length d)") auto

declare chunks_of.simps [simp del]

definition cut_at :: "nat \<Rightarrow> 'a list \<Rightarrow> 'a list list" where
  "cut_at c d = [take c d, drop c d]"

definition gene_plan_from_ops :: "bytes \<Rightarrow> json list \<Rightarrow> bool \<Rightarrow> gene_plan res" where
  "gene_plan_from_ops data ops strict = build_plan data (map Raw (filter is_dict ops)) strict"

definition fragments_from_ops :: "bytes \<Rightarrow> json list \<Rightarrow> bytes list res" where
  "fragments_from_ops data ops =
     (if data = [] then Inr [data]
      else rbind (gene_plan_from_ops data ops False) (\<lambda>plan.
        let ps = filter (\<lambda>p. p \<noteq> []) (gp_pieces plan)
        in Inr (if ps = [] then [data] else ps)))"

definition multi_strategies :: "string list" where
  "multi_strategies = [''multi'', ''full5'', ''full10'', ''full20'', ''multi64'']"

definition fixed_size :: "string \<Rightarrow> int \<Rightarrow> nat" where
  "fixed_size strategy chunk_size =
     nat (max 1 (case map_of [(''full5'', 5), (''full10'', 10), (''full20'', 20), (''multi64'', 64)] strategy of
       Some n \<Rightarrow> n | None \<Rightarrow> chunk_size))"

definition sni_chars :: "bytes \<Rightarrow> nat \<Rightarrow> nat \<Rightarrow> bytes list" where
  "sni_chars data start n =
     filter (\<lambda>x. x \<noteq> [])
       ((if start \<noteq> 0 then [take start data] else [])
        @ map (\<lambda>i. pyslice (start + i) (start + i + 1) data) [0..<n]
        @ (if start + n < length data then [drop (start + n) data] else []))"

definition fragments :: "bytes \<Rightarrow> string \<Rightarrow> int \<Rightarrow> json list \<Rightarrow> bytes list res" where
  "fragments data strategy chunk_size ops =
     (if length data < 2 then Inr [data]
      else if strategy = ''primitive'' then fragments_from_ops data ops
      else if strategy = ''plain'' then Inr [data]
      else let location = locate_sni data in
      if strategy = ''half'' then Inr (cut_at (max 1 (length data div 2)) data)
      else if strategy \<in> set multi_strategies then Inr (chunks_of (fixed_size strategy chunk_size) data)
      else if strategy \<in> {''sni_split'', ''sni_boundary''} \<and> location \<noteq> None then
        (case the location of (start, n) \<Rightarrow>
           let cut = start + (if strategy = ''sni_split'' then max 1 (n div 2) else 0)
           in Inr (cut_at (max 1 (min (length data - 1) cut)) data))
      else if strategy = ''sni_chars'' \<and> location \<noteq> None then
        (case the location of (start, n) \<Rightarrow> Inr (sni_chars data start n))
      else if strategy \<in> {''tls_record_frag'', ''tls_sni_records''} \<and> data ! 0 = 0x16 \<and> length data > 5 then
        (let payload = drop 5 data; version = pyslice 1 3 data;
             split = (if strategy = ''tls_sni_records'' \<and> location \<noteq> None
                      then max 1 (min (int (length payload) - 1) (int (fst (the location)) - 5))
                      else max 1 (int (length payload div 2)))
         in rbind (tls_record version (take (nat split) payload)) (\<lambda>a.
            rbind (tls_record version (drop (nat split) payload)) (\<lambda>b. Inr [a, b])))
      else Inr [data])"

section \<open>The SNI range lies in the data\<close>

lemma sni_names_range:
  "sni_names data q e = Inr (Some (s, n)) \<Longrightarrow> q + 3 \<le> s \<and> s + n \<le> e"
proof (induction data q e rule: sni_names.induct)
  case (1 data q e)
  show ?case
  proof (cases "q + 3 \<le> e")
    case False
    with "1.prems" show ?thesis by (simp add: sni_names.simps [of data q e])
  next
    case True
    from "1.prems" True obtain t where t: "index data q = Inr t"
      by (auto simp: sni_names.simps [of data q e] rbind_eq_Inr_iff)
    let ?l = "from_be (pyslice (q + 1) (q + 3) data)"
    show ?thesis
    proof (cases "t = 0 \<and> q + 3 + ?l \<le> e")
      case True
      with "1.prems" \<open>q + 3 \<le> e\<close> t show ?thesis
        by (auto simp: sni_names.simps [of data q e] Let_def)
    next
      case False
      with "1.prems" True t have "sni_names data (q + 3 + ?l) e = Inr (Some (s, n))"
        by (auto simp: sni_names.simps [of data q e] Let_def)
      from "1.IH" [OF True t refl False this] show ?thesis by simp
    qed
  qed
qed

lemma sni_exts_range:
  "sni_exts data pos e = Inr (Some (s, n)) \<Longrightarrow> pos + 9 \<le> s \<and> s + n \<le> e"
proof (induction data pos e rule: sni_exts.induct)
  case (1 data pos e)
  let ?t = "from_be (pyslice pos (pos + 2) data)"
  let ?l = "from_be (pyslice (pos + 2) (pos + 4) data)"
  show ?case
  proof (cases "pos + 4 \<le> e")
    case False
    with "1.prems" show ?thesis by (simp add: sni_exts.simps [of data pos e])
  next
    case le: True
    show ?thesis
    proof (cases "?t = 0 \<and> pos + 4 + ?l \<le> e")
      case True
      from "1.prems" le True obtain r where r: "sni_names data (pos + 4 + 2) (pos + 4 + ?l) = Inr r"
        by (auto simp: sni_exts.simps [of data pos e] Let_def rbind_eq_Inr_iff)
      show ?thesis
      proof (cases r)
        case None
        with "1.prems" le True r have "sni_exts data (pos + 4 + ?l) e = Inr (Some (s, n))"
          by (auto simp: sni_exts.simps [of data pos e] Let_def)
        from "1.IH"(1) [OF le refl refl refl True r None this] show ?thesis by simp
      next
        case (Some x)
        with "1.prems" le True r have "x = (s, n)"
          by (auto simp: sni_exts.simps [of data pos e] Let_def)
        with sni_names_range [of data "pos + 4 + 2" "pos + 4 + ?l" s n] r Some True show ?thesis by simp
      qed
    next
      case False
      with "1.prems" le have "sni_exts data (pos + 4 + ?l) e = Inr (Some (s, n))"
        by (auto simp: sni_exts.simps [of data pos e] Let_def)
      from "1.IH"(2) [OF le refl refl refl False this] show ?thesis by simp
    qed
  qed
qed

lemma locate_sni_range:
  assumes "locate_sni data = Some (s, n)"
  shows "58 \<le> s \<and> s + n \<le> length data \<and> data ! 0 = 0x16"
proof -
  from assms have h: "\<not> length data < 9" "data ! 0 = 0x16" "sni_search data = Inr (Some (s, n))"
    by (auto simp: locate_sni_def split: if_splits sum.splits)
  then obtain pos e where "sni_exts data pos (min (min (length data) (5 + from_be (pyslice 3 5 data))) e)
      = Inr (Some (s, n))" and "49 \<le> pos"
    by (auto simp: sni_search_def Let_def rbind_eq_Inr_iff split: if_splits)
  with sni_exts_range [of data pos] h show ?thesis by fastforce
qed

section \<open>Cuts of a byte stream\<close>

text \<open>
  What the senders rely on when they write the pieces of a cut to a stream socket one after the
  other: whatever the parameter, the pieces joined are the data. So at every moment the bytes
  written are a prefix of the data, and a piece is the slice that follows the pieces before it.
\<close>

locale stream_cut =
  fixes cut :: "'p \<Rightarrow> 'a list \<Rightarrow> 'a list list"
  assumes join: "concat (cut p d) = d"
begin

lemma sent_prefix: "prefix (concat (take k (cut p d))) d"
proof -
  have "concat (take k (cut p d)) @ concat (drop k (cut p d)) = d"
    using join [of p d] by (simp flip: concat_append)
  then show ?thesis by (metis prefixI)
qed

lemma total_length: "sum_list (map length (cut p d)) = length d"
  using arg_cong [OF join [of p d], of length] by (simp add: length_concat)

lemma piece_slice:
  assumes "k < length (cut p d)"
  defines "off \<equiv> length (concat (take k (cut p d)))"
  shows "pyslice off (off + length (cut p d ! k)) d = cut p d ! k"
proof -
  have "concat (take k (cut p d)) @ cut p d ! k @ concat (drop (Suc k) (cut p d)) = d"
    using join [of p d] id_take_nth_drop [OF assms(1)]
    by (metis concat.simps(2) concat_append append.assoc)
  then show ?thesis unfolding off_def
    by (metis add_diff_cancel_left' slice_exact)
qed

end

lemma chunks_of_Nil [simp]: "chunks_of n [] = []"
  by (simp add: chunks_of.simps [of n "[]"])

lemma concat_chunks_of: "concat (chunks_of n d) = d"
proof (induction n d rule: chunks_of.induct)
  case (1 n d)
  then show ?case by (cases "d = []") (simp_all add: chunks_of.simps [of n d])
qed

lemma chunks_of_size: "c \<in> set (chunks_of n d) \<Longrightarrow> c \<noteq> [] \<and> length c \<le> max 1 n"
proof (induction n d rule: chunks_of.induct)
  case (1 n d)
  then show ?case by (cases "d = []") (auto simp: chunks_of.simps [of n d])
qed

interpretation chunks: stream_cut chunks_of
  by unfold_locales (rule concat_chunks_of)

interpretation two: stream_cut cut_at
  by unfold_locales (simp add: cut_at_def)

interpretation sized: stream_cut "\<lambda>sizes d. split_sizes d sizes"
  by unfold_locales (rule concat_split_sizes)

lemma concat_filter_nonempty: "concat (filter (\<lambda>x. x \<noteq> []) xs) = concat xs"
  by (induction xs) auto

lemma concat_singletons: "concat (map (\<lambda>i. pyslice (a + i) (a + i + 1) d) [0..<n]) = pyslice a (a + n) d"
proof (induction n)
  case (Suc n)
  have "pyslice a (a + n) d @ pyslice (a + n) (a + n + 1) d = pyslice a (a + n + 1) d"
    unfolding pyslice_def
    by (metis (no_types) add_diff_cancel_left' ab_semigroup_add_class.add_ac(1) drop_drop take_add add.commute)
  with Suc show ?case by simp
qed (simp add: pyslice_def)

lemma concat_sni_chars: "concat (sni_chars d s n) = d"
proof -
  have "take s d @ pyslice s (s + n) d @ drop (s + n) d = d"
    by (simp add: pyslice_def) (metis append_take_drop_id drop_drop add.commute)
  then show ?thesis
    unfolding sni_chars_def concat_filter_nonempty concat_append concat_singletons
    by auto
qed

interpretation chars: stream_cut "\<lambda>(s, n) d. sni_chars d s n"
  by unfold_locales (auto simp: concat_sni_chars)

definition stream_strategy :: "string \<Rightarrow> bool" where
  \<comment> \<open>every strategy but the ones that add record headers\<close>
  "stream_strategy s \<longleftrightarrow> s \<notin> {''primitive'', ''tls_record_frag'', ''tls_sni_records''}"

lemma fragments_stream_cases:
  assumes "stream_strategy s" "2 \<le> length d"
  obtains "fragments d s cs ops = Inr [d]"
  | c where "fragments d s cs ops = Inr (cut_at c d)"
  | "fragments d s cs ops = Inr (chunks_of (fixed_size s cs) d)"
  | st n where "fragments d s cs ops = Inr (sni_chars d st n)"
proof -
  define Q where "Q r \<longleftrightarrow> r = Inr [d] \<or> (\<exists>c. r = Inr (cut_at c d))
      \<or> r = Inr (chunks_of (fixed_size s cs) d) \<or> (\<exists>st n. r = Inr (sni_chars d st n))"
    for r :: "bytes list res"
  have leaf: "Q (Inr [d])" "Q (Inr (cut_at c d))" "Q (Inr (chunks_of (fixed_size s cs) d))"
    "Q (Inr (sni_chars d st n))" for c st n
    unfolding Q_def by blast+
  have s: "s \<notin> {''tls_record_frag'', ''tls_sni_records''}" "s \<noteq> ''primitive''" "\<not> length d < 2"
    using assms by (simp_all add: stream_strategy_def)
  have "Q (fragments d s cs ops)"
    unfolding fragments_def Let_def by (simp only: s leaf if_False simp_thms split: if_split prod.split)
  then show ?thesis using that unfolding Q_def by blast
qed

section \<open>The records of a split hello\<close>

lemma tls_record_rec: "tls_record = tls_rec"
  by (simp add: fun_eq_iff tls_record_def tls_rec_def)

lemma unwrap_two_records:
  assumes "tls_record v a = Inr ra" "tls_record v b = Inr rb" "length v = 2" "a @ b \<noteq> []"
  shows "unwrap_records (ra @ rb) = Inr (a @ b, v)"
proof -
  from assms have ra: "ra = [0x16] @ v @ be16 (length a) @ a" "length a \<le> 65535"
    by (simp_all add: tls_record_rec tls_rec_Inr)
  have rb: "rmap (tls_rec v) [b] = Inr [rb]" using assms(2) by (simp add: tls_record_rec)
  have "unwrap_records (ra @ rb) = unwrap_loop rb a (Some v)"
    using unwrap_loop_record [OF assms(3) ra(2), of rb "[]" None]
    by (simp add: unwrap_records_def ra(1))
  also have "\<dots> = Inr (a @ b, v)"
    using unwrap_loop_records [OF rb assms(3), of a v] assms(4) by simp
  finally show ?thesis .
qed

lemma fragments_records:
  assumes "s \<in> {''tls_record_frag'', ''tls_sni_records''}" "d ! 0 = 0x16" "5 < length d"
  obtains k where "fragments d s cs ops =
      rbind (tls_record (pyslice 1 3 d) (take k (drop 5 d))) (\<lambda>a.
      rbind (tls_record (pyslice 1 3 d) (drop k (drop 5 d))) (\<lambda>b. Inr [a, b]))"
    and "s = ''tls_sni_records'' \<Longrightarrow> locate_sni d = Some (st, n) \<Longrightarrow> 0 < n \<Longrightarrow> k = st - 5"
proof -
  define split where "split = (if s = ''tls_sni_records'' \<and> locate_sni d \<noteq> None
      then max 1 (min (int (length (drop 5 d)) - 1) (int (fst (the (locate_sni d))) - 5))
      else max 1 (int (length (drop 5 d) div 2)))"
  have "fragments d s cs ops =
      rbind (tls_record (pyslice 1 3 d) (take (nat split) (drop 5 d))) (\<lambda>a.
      rbind (tls_record (pyslice 1 3 d) (drop (nat split) (drop 5 d))) (\<lambda>b. Inr [a, b]))"
  proof -
    have "s \<notin> set multi_strategies" "s \<noteq> ''primitive''" "s \<noteq> ''plain''" "s \<noteq> ''half''"
      "s \<notin> {''sni_split'', ''sni_boundary''}" "s \<noteq> ''sni_chars''"
      using assms(1) by (auto simp: multi_strategies_def)
    with assms show ?thesis unfolding fragments_def Let_def split_def [symmetric] by simp
  qed
  moreover have "nat split = st - 5" if "s = ''tls_sni_records''" "locate_sni d = Some (st, n)" "0 < n"
    using locate_sni_range [OF that(2)] that by (auto simp: split_def)
  ultimately show ?thesis using that by blast
qed

section \<open>The fake hello carries the fake SNI\<close>

lemma locate_sni_fake_hello:
  assumes "length rnd = 32" "length sess_id = 32" "length key_share = 32" "length sni \<le> 219"
  shows "locate_sni (client_hello_bytes rnd sess_id sni key_share) = Some (127, length sni)"
proof -
  let ?h = "client_hello_bytes rnd sess_id sni key_share"
  note defs = client_hello_bytes_def ch_static1_bytes ch_static2_def ch_static3_bytes pyslice_def
  have len: "length ?h = 517" using assms by (rule client_hello_bytes_length)
  have rec: "?h ! 0 = 0x16" "from_be (pyslice 3 5 ?h) = 512" "index ?h 5 = Inr 1"
    using assms len by (simp_all add: defs from_be_two index_def)
  have skip: "index ?h 43 = Inr 0x20" "from_be (pyslice 76 78 ?h) = 36" "index ?h 114 = Inr 1"
    "from_be (pyslice 116 118 ?h) = 399"
    using assms len by (simp_all add: defs from_be_two index_def nth_append)
  have ext: "from_be (pyslice 118 120 ?h) = 0" "from_be (pyslice 120 122 ?h) = length sni + 5"
    "index ?h 124 = Inr 0" "from_be (pyslice 125 127 ?h) = length sni"
    using assms len by (simp_all add: defs from_be_two index_def nth_append)
  have "sni_names ?h 124 (127 + length sni) = Inr (Some (127, length sni))"
    using ext by (simp add: sni_names.simps [of ?h 124])
  then have "sni_exts ?h 118 517 = Inr (Some (127, length sni))"
    using ext assms by (simp add: sni_exts.simps [of ?h 118] Let_def)
  then have "sni_search ?h = Inr (Some (127, length sni))"
    using rec skip len by (simp add: sni_search_def Let_def)
  with rec len show ?thesis by (simp add: locate_sni_def)
qed

section \<open>Properties\<close>

text \<open>
  C26: The fake ClientHello the spoofing core injects is a hello for the fake SNI: for any random
  bytes, session id and key share of 32 bytes and any ASCII host name of at most 219 bytes the
  builder succeeds with 517 bytes, the program's own SNI finder reads exactly that host name
  from them, and the template parser gives back all four fields.
\<close>

theorem fake_hello_roundtrip:
  assumes "length rnd = 32" "length sess_id = 32" "length key_share = 32" "length sni \<le> 219"
    and "\<forall>b \<in> set sni. unat b < 128"
  shows "\<exists>h. get_client_hello_with rnd sess_id sni key_share = Inr h \<and> length h = 517
     \<and> find_sni h = sni
     \<and> parse_client_hello_template h = Inr (rnd, sess_id, map unat sni, key_share)"
  using assms client_hello_sni [OF assms(1-3), of sni]
  by (simp add: get_client_hello_with_eq client_hello_bytes_length find_sni_def
      locate_sni_fake_hello parse_client_hello_template_ascii filter_id_conv)

theorem fake_hello_roundtrip_witness:
  "\<exists>h. get_client_hello_with (replicate 32 1) (replicate 32 2) [97, 46, 105, 114] (replicate 32 3) = Inr h
     \<and> length h = 517 \<and> find_sni h = [97, 46, 105, 114]"
  using fake_hello_roundtrip [of "replicate 32 1" "replicate 32 2" "replicate 32 3" "[97, 46, 105, 114]"]
  by auto

lemma fragments_stream:
  assumes "stream_strategy s"
  shows "\<exists>ps. fragments d s cs ops = Inr ps \<and> concat ps = d
     \<and> (\<forall>k. prefix (concat (take k ps)) d)
     \<and> (s \<in> set multi_strategies \<and> 2 \<le> length d \<longrightarrow>
          (\<forall>p \<in> set ps. p \<noteq> [] \<and> length p \<le> fixed_size s cs))"
proof (cases "2 \<le> length d")
  case False
  have "prefix (concat (take k [d])) d" for k by (cases k) simp_all
  with False show ?thesis by (simp add: fragments_def)
next
  case True
  have multi: "fragments d s cs ops = Inr (chunks_of (fixed_size s cs) d)" if "s \<in> set multi_strategies"
  proof -
    have "s \<noteq> ''primitive''" "s \<noteq> ''plain''" "s \<noteq> ''half''"
      using that by (auto simp: multi_strategies_def)
    with that True show ?thesis unfolding fragments_def Let_def by simp
  qed
  have size: "\<forall>p \<in> set (chunks_of (fixed_size s cs) d). p \<noteq> [] \<and> length p \<le> fixed_size s cs"
  proof
    fix p assume "p \<in> set (chunks_of (fixed_size s cs) d)"
    from chunks_of_size [OF this] show "p \<noteq> [] \<and> length p \<le> fixed_size s cs"
      by (auto simp: fixed_size_def)
  qed
  have one: "prefix (concat (take k [d])) d" for k by (cases k) simp_all
  have fixed: "s \<in> set multi_strategies \<longrightarrow> (\<forall>p \<in> set ps. p \<noteq> [] \<and> length p \<le> fixed_size s cs)"
    if "fragments d s cs ops = Inr ps" for ps
  proof
    assume "s \<in> set multi_strategies"
    with multi that have "ps = chunks_of (fixed_size s cs) d" by simp
    with size show "\<forall>p \<in> set ps. p \<noteq> [] \<and> length p \<le> fixed_size s cs" by simp
  qed
  have concl: ?thesis if "fragments d s cs ops = Inr ps" "concat ps = d"
    "\<And>k. prefix (concat (take k ps)) d" for ps
    using that fixed [OF that(1)] by (intro exI [of _ ps] conjI) simp_all
  show ?thesis
    using assms True
  proof (cases rule: fragments_stream_cases [of s d cs ops])
    case 1
    with one show ?thesis by (intro concl [of "[d]"]) simp_all
  next
    case (2 c)
    with two.join two.sent_prefix show ?thesis by (intro concl [of "cut_at c d"]) simp_all
  next
    case 3
    with chunks.join chunks.sent_prefix show ?thesis
      by (intro concl [of "chunks_of (fixed_size s cs) d"]) simp_all
  next
    case (4 st n)
    with chars.join [of "(st, n)" d] chars.sent_prefix [of _ "(st, n)" d] show ?thesis
      by (intro concl [of "sni_chars d st n"]) simp_all
  qed
qed

text \<open>
  C11: Every strategy that does not add TLS record headers only re-segments the byte stream: it
  succeeds, its pieces joined are the data, what has been written after any number of pieces is
  a prefix of the data, and the fixed-size strategies make non-empty pieces no longer than
  their size.
\<close>

theorem fragments_preserve_stream:
  assumes "stream_strategy s"
  shows "\<exists>ps. fragments d s cs ops = Inr ps \<and> concat ps = d
     \<and> (\<forall>k. prefix (concat (take k ps)) d)
     \<and> (s \<in> set multi_strategies \<and> 2 \<le> length d \<longrightarrow>
          (\<forall>p \<in> set ps. p \<noteq> [] \<and> length p \<le> fixed_size s cs))"
  by (rule fragments_stream [OF assms])

theorem fragments_preserve_stream_witness:
  "\<exists>ps. fragments [22, 3, 1, 0, 2, 1, 0] ''full5'' 5 [] = Inr ps
     \<and> concat ps = [22, 3, 1, 0, 2, 1, 0] \<and> (\<forall>p \<in> set ps. p \<noteq> [] \<and> length p \<le> 5)"
proof -
  have f: "fixed_size ''full5'' 5 = 5" "''full5'' \<in> set multi_strategies"
    by (simp_all add: fixed_size_def multi_strategies_def)
  from fragments_preserve_stream [of "''full5''" "[22, 3, 1, 0, 2, 1, 0]" 5 "[]"] show ?thesis
    by (auto simp: stream_strategy_def f)
qed

text \<open>
  The SNI split does what it is for: when the hello has a host name of at least two bytes,
  the data is cut strictly inside the host name, so neither piece holds it.
\<close>

theorem sni_split_cuts_host:
  assumes "locate_sni d = Some (st, n)" "2 \<le> n"
  shows "\<exists>c. fragments d ''sni_split'' cs ops = Inr [take c d, drop c d] \<and> st < c \<and> c < st + n"
proof -
  have r: "58 \<le> st" "st + n \<le> length d" using locate_sni_range [OF assms(1)] by auto
  define c where "c = max 1 (min (length d - 1) (st + max 1 (n div 2)))"
  have "fragments d ''sni_split'' cs ops = Inr [take c d, drop c d]"
    using assms r by (simp add: fragments_def multi_strategies_def c_def cut_at_def Let_def)
  moreover have "st < c" "c < st + n" using r assms(2) by (auto simp: c_def)
  ultimately show ?thesis by blast
qed

theorem sni_split_cuts_host_witness:
  "\<exists>c. fragments sample_hello ''sni_split'' 5 [] = Inr [take c sample_hello, drop c sample_hello]
     \<and> 61 < c \<and> c < 65"
proof -
  have "locate_sni sample_hello = Some (61, 4)" by code_simp
  from sni_split_cuts_host [OF this] show ?thesis by auto
qed

text \<open>
  C21: The record strategies change the record layer only: the two records they send unwrap to the
  payload and the version of the record that came in, and for \<open>tls_sni_records\<close> on a hello with a
  host name the first record ends right before the host name.
\<close>

theorem record_split_roundtrip:
  assumes "s \<in> {''tls_record_frag'', ''tls_sni_records''}"
    and "d ! 0 = 0x16" "5 < length d" "length d \<le> 65540"
  shows "\<exists>a b. fragments d s cs ops = Inr [a, b]
     \<and> unwrap_records (a @ b) = Inr (drop 5 d, pyslice 1 3 d)
     \<and> (\<forall>st n. s = ''tls_sni_records'' \<and> locate_sni d = Some (st, n) \<and> 0 < n \<longrightarrow>
          drop 5 a = take (st - 5) (drop 5 d))"
proof -
  obtain st0 n0 where loc: "locate_sni d = Some (st0, n0) \<or> locate_sni d = None"
    by (cases "locate_sni d") auto
  obtain k where f: "fragments d s cs ops =
      rbind (tls_record (pyslice 1 3 d) (take k (drop 5 d))) (\<lambda>a.
      rbind (tls_record (pyslice 1 3 d) (drop k (drop 5 d))) (\<lambda>b. Inr [a, b]))"
    and k: "s = ''tls_sni_records'' \<Longrightarrow> locate_sni d = Some (st0, n0) \<Longrightarrow> 0 < n0 \<Longrightarrow> k = st0 - 5"
    using fragments_records [OF assms(1-3), where st = st0 and n = n0] by metis
  define p where "p = drop 5 d"
  have v: "length (pyslice 1 3 d) = 2" using assms(3) by simp
  define a b where "a = [0x16] @ pyslice 1 3 d @ be16 (length (take k p)) @ take k p"
    and "b = [0x16] @ pyslice 1 3 d @ be16 (length (drop k p)) @ drop k p"
  have ab: "tls_record (pyslice 1 3 d) (take k p) = Inr a" "tls_record (pyslice 1 3 d) (drop k p) = Inr b"
    using assms(4) by (simp_all add: tls_record_rec tls_rec_Inr a_def b_def p_def)
  then have "fragments d s cs ops = Inr [a, b]" by (simp add: f p_def [symmetric])
  moreover have "unwrap_records (a @ b) = Inr (p, pyslice 1 3 d)"
  proof -
    have tk: "take k p @ drop k p = p" by simp
    have ne: "p \<noteq> []" using assms(3) by (simp add: p_def)
    from unwrap_two_records [OF ab v] show ?thesis unfolding tk using ne by simp
  qed
  moreover have "drop 5 a = take k p" using v by (simp add: a_def)
  ultimately show ?thesis using loc k unfolding p_def by (intro exI [of _ a] exI [of _ b]) auto
qed

theorem record_split_roundtrip_witness:
  "\<exists>a b. fragments sample_hello ''tls_sni_records'' 5 [] = Inr [a, b]
     \<and> unwrap_records (a @ b) = Inr (drop 5 sample_hello, [3, 1]) \<and> length a = 61"
proof -
  have h: "sample_hello ! 0 = 0x16" "5 < length sample_hello" "length sample_hello \<le> 65540"
    "pyslice 1 3 sample_hello = [3, 1]"
    by (simp_all add: sample_hello_def pyslice_def)
  have loc: "locate_sni sample_hello = Some (61, 4)" by code_simp
  from record_split_roundtrip [of "''tls_sni_records''" sample_hello 5 "[]"] h loc
  obtain a b where ab: "fragments sample_hello ''tls_sni_records'' 5 [] = Inr [a, b]"
    "unwrap_records (a @ b) = Inr (drop 5 sample_hello, [3, 1])"
    "drop 5 a = take 56 (drop 5 sample_hello)" by auto
  have "length (drop 5 a) = 56" by (simp add: ab(3) sample_hello_def)
  then have "length a = 61" by simp
  with ab show ?thesis by blast
qed

end
