(* ===== verification/Injector.thy ===== *)
theory Injector
  imports Tls_Tools
begin

text \<open>
  The wrong-sequence injector of \<open>pattern_core/core.py\<close>: \<open>InjectiveConnection\<close> is the record
  \<open>flow\<close>, \<open>PacketInjector\<close> the record \<open>injector\<close>. Connections are objects shared between the
  registry, the packet thread and the fake-send tasks, so they live in a store and are named by
  their position in it. The handlers \<open>_inbound\<close>, \<open>_outbound\<close>, \<open>_inject\<close> and \<open>_fake_send\<close> are
  functions; their interleaving (packet thread, task pool, session code, \<open>stop\<close>) is the
  inductive relation \<open>istep\<close>. The lock of a connection is held by the task that is sending for it:
  packets for that connection wait, \<open>_unregister\<close> and \<open>stop\<close> do not. WinDivert itself is outside:
  a \<open>send\<close> may succeed or raise \<open>OSError\<close>. Sequence numbers are unbounded integers with the
  sentinel -1 and the explicit masks of the code; those of a packet are 32-bit words.
\<close>

unbundle bit_operations_syntax

section \<open>Packets and connections\<close>

datatype direction = Inbound | Outbound | Neither

record packet =
  pk_dir :: direction
  pk_src_addr :: string
  pk_src_port :: int
  pk_dst_addr :: string
  pk_dst_port :: int
  pk_len :: int
  pk_ident :: "int option" \<comment> \<open>\<open>None\<close>: not an IPv4 packet\<close>
  pk_syn :: bool
  pk_ack :: bool
  pk_rst :: bool
  pk_fin :: bool
  pk_psh :: bool
  pk_seq :: u32
  pk_ackno :: u32
  pk_payload :: bytes

type_synonym flow_key = "string \<times> int \<times> string \<times> int"

record flow =
  fl_id :: flow_key
  fl_fake_data :: bytes
  fl_loop_open :: bool
  fl_event :: bool
  fl_result :: string
  fl_monitor :: bool
  fl_syn_seq :: int
  fl_syn_ack_seq :: int
  fl_fake_scheduled :: bool
  fl_fake_sent :: bool

definition mask32 :: "int \<Rightarrow> int" where
  "mask32 n = n AND 0xFFFFFFFF"

definition new_flow :: "string \<Rightarrow> string \<Rightarrow> int \<Rightarrow> int \<Rightarrow> bytes \<Rightarrow> flow" where
  "new_flow src_ip dst_ip src_port dst_port fake_data =
     \<lparr>fl_id = (src_ip, src_port, dst_ip, dst_port), fl_fake_data = fake_data, fl_loop_open = True,
      fl_event = False, fl_result = '''', fl_monitor = True, fl_syn_seq = -1, fl_syn_ack_seq = -1,
      fl_fake_scheduled = False, fl_fake_sent = False\<rparr>"

definition signal :: "string \<Rightarrow> flow \<Rightarrow> flow" where
  \<comment> \<open>a closed event loop raises \<open>RuntimeError\<close>, which is ignored: the event stays as it is\<close>
  "signal result f = f\<lparr>fl_result := result, fl_event := (fl_event f \<or> fl_loop_open f)\<rparr>"

definition abort_spoof :: "string \<Rightarrow> flow \<Rightarrow> flow \<times> string list" where
  "abort_spoof reason f =
     (signal ''unexpected_close'' (f\<lparr>fl_monitor := False\<rparr>), [''PATTERN flow fallback: '' @ reason])"

section \<open>The packet handlers\<close>

definition inbound :: "packet \<Rightarrow> flow \<Rightarrow> flow \<times> string list" where
  "inbound p f =
     (if fl_syn_seq f = -1 then abort_spoof ''inbound before SYN'' f
      else if pk_ack p \<and> pk_syn p \<and> \<not> pk_rst p \<and> \<not> pk_fin p \<and> pk_payload p = [] then
        (if uint (pk_ackno p) \<noteq> mask32 (fl_syn_seq f + 1) then abort_spoof ''SYN-ACK mismatch'' f
         else (f\<lparr>fl_syn_ack_seq := uint (pk_seq p)\<rparr>, []))
      else if pk_ack p \<and> \<not> pk_syn p \<and> \<not> pk_rst p \<and> \<not> pk_fin p \<and> pk_payload p = [] \<and> fl_fake_sent f then
        (if fl_syn_ack_seq f = -1 \<or> uint (pk_seq p) \<noteq> mask32 (fl_syn_ack_seq f + 1)
         then abort_spoof ''fake ACK sequence mismatch'' f
         else if uint (pk_ackno p) \<noteq> mask32 (fl_syn_seq f + 1)
         then abort_spoof ''fake ACK number mismatch'' f
         else (signal ''fake_data_ack_recv'' (f\<lparr>fl_monitor := False\<rparr>), []))
      else abort_spoof ''unexpected inbound packet'' f)"

definition outbound :: "packet \<Rightarrow> flow \<Rightarrow> flow \<times> string list \<times> bool" where
  \<comment> \<open>the last component: a fake-send task is submitted\<close>
  "outbound p f =
     (let abort = (\<lambda>reason. case abort_spoof reason f of (g, l) \<Rightarrow> (g, l, False)) in
      if fl_fake_scheduled f then abort ''outbound after fake schedule''
      else if pk_syn p \<and> \<not> pk_ack p \<and> \<not> pk_rst p \<and> \<not> pk_fin p \<and> pk_payload p = [] then
        (if pk_ackno p \<noteq> 0 then abort ''SYN has ACK number''
         else (f\<lparr>fl_syn_seq := uint (pk_seq p)\<rparr>, [], False))
      else if pk_ack p \<and> \<not> pk_syn p \<and> \<not> pk_rst p \<and> \<not> pk_fin p \<and> pk_payload p = [] then
        (if fl_syn_seq f = -1 \<or> uint (pk_seq p) \<noteq> mask32 (fl_syn_seq f + 1)
         then abort ''handshake ACK sequence mismatch''
         else if fl_syn_ack_seq f = -1 \<or> uint (pk_ackno p) \<noteq> mask32 (fl_syn_ack_seq f + 1)
         then abort ''handshake ACK number mismatch''
         else (f\<lparr>fl_fake_scheduled := True\<rparr>, [], True))
      else abort ''unexpected outbound packet'')"

definition packet_key :: "packet \<Rightarrow> flow_key option" where
  "packet_key p = (case pk_dir p of
     Inbound \<Rightarrow> Some (pk_dst_addr p, pk_dst_port p, pk_src_addr p, pk_src_port p)
   | Outbound \<Rightarrow> Some (pk_src_addr p, pk_src_port p, pk_dst_addr p, pk_dst_port p)
   | Neither \<Rightarrow> None)"

definition fake_packet :: "packet \<Rightarrow> flow \<Rightarrow> packet" where
  \<comment> \<open>the handshake ACK turned into the fake ClientHello, left of the receive window\<close>
  "fake_packet p f =
     p\<lparr>pk_psh := True,
       pk_len := pk_len p + int (length (fl_fake_data f)),
       pk_payload := fl_fake_data f,
       pk_ident := map_option (\<lambda>i. (i + 1) AND 0xFFFF) (pk_ident p),
       pk_seq := word_of_int (mask32 (fl_syn_seq f + 1 - int (length (fl_fake_data f))))\<rparr>"

section \<open>The injector\<close>

text \<open>A task of the pool: submitted, or holding the connection's lock in round \<open>k\<close> of the send
  loop, before or after the check of that round.\<close>

datatype task =
    is_Waiting: Waiting (task_packet: packet) (task_flow: nat)
  | Sending (task_packet: packet) (task_flow: nat) (task_round: nat) (task_checked: bool)

record injector =
  in_conns :: "(flow_key, nat) dict" \<comment> \<open>the registry\<close>
  in_flows :: "flow list" \<comment> \<open>the connection objects\<close>
  in_stop :: bool
  in_pool_open :: bool
  in_repeat :: int
  in_tasks :: "task list"
  in_sent :: "(nat \<times> packet) list" \<comment> \<open>packets given to WinDivert, with their connection\<close>
  in_log :: "string list"

definition new_injector :: "int \<Rightarrow> injector" where
  "new_injector fake_repeat =
     \<lparr>in_conns = [], in_flows = [], in_stop = False, in_pool_open = True, in_repeat = max 1 fake_repeat,
      in_tasks = [], in_sent = [], in_log = []\<rparr>"

definition locked :: "injector \<Rightarrow> nat \<Rightarrow> bool" where
  "locked st i = list_ex (\<lambda>t. case t of Sending _ j _ _ \<Rightarrow> j = i | Waiting _ _ \<Rightarrow> False) (in_tasks st)"

definition lookup_flow :: "injector \<Rightarrow> packet \<Rightarrow> nat option" where
  "lookup_flow st p = (case packet_key p of None \<Rightarrow> None | Some k \<Rightarrow> dict_get (in_conns st) k)"

definition set_flow :: "nat \<Rightarrow> flow \<Rightarrow> injector \<Rightarrow> injector" where
  "set_flow i f st = st\<lparr>in_flows := (in_flows st)[i := f]\<rparr>"

definition add_log :: "string list \<Rightarrow> injector \<Rightarrow> injector" where
  "add_log l st = st\<lparr>in_log := in_log st @ l\<rparr>"

definition submit_fake :: "packet \<Rightarrow> nat \<Rightarrow> injector \<Rightarrow> injector" where
  \<comment> \<open>a pool that was shut down raises \<open>RuntimeError\<close>, which \<open>_inject\<close> logs\<close>
  "submit_fake p i st =
     (if in_pool_open st then st\<lparr>in_tasks := in_tasks st @ [Waiting p i]\<rparr>
      else add_log [''PATTERN packet recovery: RuntimeError''] st)"

definition inject :: "packet \<Rightarrow> injector \<Rightarrow> injector" where
  "inject p st = (case lookup_flow st p of
     None \<Rightarrow> st
   | Some i \<Rightarrow>
     let f = in_flows st ! i in
     if \<not> fl_monitor f then st
     else if pk_dir p = Inbound then
       (case inbound p f of (g, l) \<Rightarrow> add_log l (set_flow i g st))
     else
       (case outbound p f of (g, l, submit) \<Rightarrow>
          let st' = add_log l (set_flow i g st) in if submit then submit_fake p i st' else st'))"

definition may_send :: "injector \<Rightarrow> nat \<Rightarrow> bool" where
  "may_send st i = (fl_monitor (in_flows st ! i) \<and> \<not> in_stop st)"

definition set_task :: "nat \<Rightarrow> task option \<Rightarrow> injector \<Rightarrow> injector" where
  "set_task n t st = st\<lparr>in_tasks := take n (in_tasks st)
     @ (case t of None \<Rightarrow> [] | Some x \<Rightarrow> [x]) @ drop (Suc n) (in_tasks st)\<rparr>"

definition fake_send :: "bool \<Rightarrow> nat \<Rightarrow> injector \<Rightarrow> injector" where
  \<comment> \<open>the next step of task \<open>n\<close>; \<open>ok\<close>: WinDivert takes the packet\<close>
  "fake_send ok n st = (case in_tasks st ! n of
     Waiting p i \<Rightarrow>
       if may_send st i then set_task n (Some (Sending (fake_packet p (in_flows st ! i)) i 0 False)) st
       else set_task n None st
   | Sending p i k False \<Rightarrow>
       if int k < in_repeat st then
         (if may_send st i then set_task n (Some (Sending p i k True)) st else set_task n None st)
       else set_task n None (set_flow i ((in_flows st ! i)\<lparr>fl_fake_sent := True\<rparr>) st)
   | Sending p i k True \<Rightarrow>
       if ok then set_task n (Some (Sending p i (Suc k) False)) (st\<lparr>in_sent := in_sent st @ [(i, p)]\<rparr>)
       else if in_stop st then set_task n (Some (Sending p i (Suc k) False)) st
       else set_task n None st)"

definition register :: "flow \<Rightarrow> injector \<Rightarrow> injector" where
  "register f st = st\<lparr>in_flows := in_flows st @ [f],
                      in_conns := dict_set (fl_id f) (length (in_flows st)) (in_conns st)\<rparr>"

definition unregister :: "nat \<Rightarrow> injector \<Rightarrow> injector" where
  "unregister i st =
     (let f = in_flows st ! i
      in (set_flow i (f\<lparr>fl_monitor := False\<rparr>) st)\<lparr>in_conns := dict_pop (fl_id f) (in_conns st)\<rparr>)"

definition stop_flow :: "flow \<Rightarrow> flow" where
  "stop_flow f = signal ''stopped'' (f\<lparr>fl_monitor := False\<rparr>)"

definition stop_flows :: "injector \<Rightarrow> injector" where
  \<comment> \<open>\<open>PatternSniCore.stop\<close>: the registry is cleared and every connection of it is signalled\<close>
  "stop_flows st =
     (let is = map snd (in_conns st)
      in st\<lparr>in_conns := [],
            in_flows := map (\<lambda>i. if i \<in> set is then stop_flow (in_flows st ! i) else in_flows st ! i)
                          [0..<length (in_flows st)]\<rparr>)"

definition stop_injector :: "injector \<Rightarrow> injector" where
  \<comment> \<open>\<open>PacketInjector.stop\<close>: the pool is shut down and the tasks that have not begun are cancelled\<close>
  "stop_injector st =
     st\<lparr>in_stop := True, in_pool_open := False,
        in_tasks := filter (\<lambda>t. case t of Waiting _ _ \<Rightarrow> False | Sending _ _ _ _ \<Rightarrow> True) (in_tasks st)\<rparr>"

inductive istep :: "injector \<Rightarrow> injector \<Rightarrow> bool" where
  Packet: "lookup_flow st p = None \<or> \<not> locked st (the (lookup_flow st p)) \<Longrightarrow> istep st (inject p st)"
| Task: "n < length (in_tasks st) \<Longrightarrow>
    (\<forall>p i. in_tasks st ! n = Waiting p i \<longrightarrow> \<not> locked st i) \<Longrightarrow> istep st (fake_send ok n st)"
| Register: "istep st (register (new_flow src_ip dst_ip src_port dst_port fake_data) st)"
| Unregister: "i < length (in_flows st) \<Longrightarrow> istep st (unregister i st)"
| Stop_flows: "istep st (stop_flows st)"
| Stop_injector: "istep st (stop_injector st)"

inductive ireachable :: "int \<Rightarrow> injector \<Rightarrow> bool" for n where
  Start: "ireachable n (new_injector n)"
| Step: "ireachable n st \<Longrightarrow> istep st st' \<Longrightarrow> ireachable n st'"

inductive_cases istepE: "istep st st'"

section \<open>The invariant of one connection\<close>

lemma mask32_mod: "mask32 n = n mod 2 ^ 32"
proof -
  have m: "(0xFFFFFFFF :: int) = mask 32" by (simp add: mask_eq_exp_minus_1)
  show ?thesis by (simp add: mask32_def m take_bit_eq_mask [symmetric] take_bit_eq_mod)
qed

lemma mask32_range: "0 \<le> mask32 n" "mask32 n < 2 ^ 32"
  by (simp_all add: mask32_mod)

definition seq_ok :: "int \<Rightarrow> bool" where
  "seq_ok s \<longleftrightarrow> s = -1 \<or> 0 \<le> s \<and> s < 2 ^ 32"

definition fake_shape :: "flow \<Rightarrow> packet \<Rightarrow> bool" where
  \<comment> \<open>the payload ends right before the first byte of the window the server has open\<close>
  "fake_shape f p \<longleftrightarrow> pk_payload p = fl_fake_data f
     \<and> (uint (pk_seq p) + int (length (pk_payload p))) mod 2 ^ 32 = (fl_syn_seq f + 1) mod 2 ^ 32"

fun task_ok :: "bool \<Rightarrow> int \<Rightarrow> flow \<Rightarrow> task list \<Rightarrow> packet list \<Rightarrow> bool" where
  "task_ok stop rep f [] ps = True"
| "task_ok stop rep f [Waiting p i] ps = (ps = [])"
| "task_ok stop rep f [Sending p i k c] ps =
     (fake_shape f p \<and> length ps \<le> k \<and> (stop \<or> length ps = k) \<and> int k \<le> rep \<and> (c \<longrightarrow> int k < rep))"
| "task_ok stop rep f (_ # _ # _) ps = False"

definition flow_inv :: "bool \<Rightarrow> int \<Rightarrow> flow \<Rightarrow> task list \<Rightarrow> packet list \<Rightarrow> bool" where
  \<comment> \<open>a connection, its tasks and the packets sent for it\<close>
  "flow_inv stop rep f ts ps \<longleftrightarrow>
     seq_ok (fl_syn_seq f) \<and> seq_ok (fl_syn_ack_seq f)
     \<and> (fl_fake_scheduled f \<longrightarrow> fl_syn_seq f \<noteq> -1 \<and> fl_syn_ack_seq f \<noteq> -1)
     \<and> (fl_fake_sent f \<longrightarrow> fl_fake_scheduled f \<and> ts = [] \<and> (stop \<or> int (length ps) = rep))
     \<and> (fl_result f = ''fake_data_ack_recv'' \<longrightarrow> fl_fake_sent f \<and> \<not> fl_monitor f)
     \<and> (\<not> fl_fake_scheduled f \<longrightarrow> ts = [] \<and> ps = [])
     \<and> int (length ps) \<le> rep \<and> (\<forall>p \<in> set ps. fake_shape f p) \<and> task_ok stop rep f ts ps"

lemma seq_ok_uint [simp]: "seq_ok (uint (w :: u32))"
  using uint_bounded [of w] by (simp add: seq_ok_def)

lemma uint_neq_minus1 [simp]: "uint (w :: 'a::len word) \<noteq> -1"
  using uint_nonnegative [of w] by linarith

lemma flow_inv_new: "0 \<le> rep \<Longrightarrow> flow_inv stop rep (new_flow a b c d e) [] []"
  by (simp add: flow_inv_def new_flow_def seq_ok_def)

text \<open>Changing anything but the fake payload and the SYN sequence number keeps the shape.\<close>

lemma fake_shape_cong:
  "fl_fake_data g = fl_fake_data f \<Longrightarrow> fl_syn_seq g = fl_syn_seq f \<Longrightarrow> fake_shape g = fake_shape f"
  by (simp add: fake_shape_def fun_eq_iff)

lemma task_ok_cong:
  assumes "fl_fake_data g = fl_fake_data f" "fl_syn_seq g = fl_syn_seq f"
  shows "task_ok stop rep g ts ps = task_ok stop rep f ts ps"
  using fake_shape_cong [OF assms]
  by (cases "(stop, rep, f, ts, ps)" rule: task_ok.cases) simp_all

lemma flow_inv_frame:
  assumes "flow_inv stop rep f ts ps" "fl_fake_data g = fl_fake_data f" "fl_syn_seq g = fl_syn_seq f"
    and "fl_fake_scheduled g = fl_fake_scheduled f" "fl_fake_sent g = fl_fake_sent f"
    and "seq_ok (fl_syn_ack_seq g)" "fl_syn_ack_seq f \<noteq> -1 \<longrightarrow> fl_syn_ack_seq g \<noteq> -1"
    and "fl_result g = ''fake_data_ack_recv'' \<longrightarrow> fl_fake_sent g \<and> \<not> fl_monitor g"
  shows "flow_inv stop rep g ts ps"
  using assms by (simp add: flow_inv_def fake_shape_cong [of g f] task_ok_cong [of g f])

lemma flow_inv_signal:
  assumes "flow_inv stop rep f ts ps" "r = ''fake_data_ack_recv'' \<longrightarrow> fl_fake_sent f"
  shows "flow_inv stop rep (signal r (f\<lparr>fl_monitor := False\<rparr>)) ts ps"
  by (rule flow_inv_frame [OF assms(1)])
     (use assms in \<open>simp_all add: signal_def flow_inv_def\<close>)

lemma flow_inv_abort: "flow_inv stop rep f ts ps \<Longrightarrow> flow_inv stop rep (fst (abort_spoof r f)) ts ps"
  by (simp add: abort_spoof_def flow_inv_signal)

lemma flow_inv_unmonitor:
  assumes "flow_inv stop rep f ts ps"
  shows "flow_inv stop rep (f\<lparr>fl_monitor := False\<rparr>) ts ps"
  by (rule flow_inv_frame [OF assms]) (use assms in \<open>simp_all add: flow_inv_def\<close>)

lemma flow_inv_inbound:
  assumes "flow_inv stop rep f ts ps" "fl_monitor f"
  shows "flow_inv stop rep (fst (inbound p f)) ts ps"
proof -
  have "flow_inv stop rep (f\<lparr>fl_syn_ack_seq := uint (pk_seq p)\<rparr>) ts ps"
    by (rule flow_inv_frame [OF assms(1)]) (use assms in \<open>simp_all add: flow_inv_def\<close>)
  then show ?thesis unfolding inbound_def
    by (simp only: if_distrib [of fst] fst_conv split: if_split)
      (auto intro: flow_inv_abort [OF assms(1)] flow_inv_signal [OF assms(1)])
qed

lemma outbound_cases:
  assumes "outbound p f = (g, l, submit)"
  obtains (abort) r where "\<not> submit" "(g, l) = abort_spoof r f"
  | (syn) "\<not> submit" "\<not> fl_fake_scheduled f" "g = f\<lparr>fl_syn_seq := uint (pk_seq p)\<rparr>" "l = []"
  | (ack) submit "\<not> fl_fake_scheduled f" "g = f\<lparr>fl_fake_scheduled := True\<rparr>" "l = []"
      "fl_syn_seq f \<noteq> -1" "fl_syn_ack_seq f \<noteq> -1"
proof -
  have ab: "thesis" if "(case abort_spoof r f of (g, l) \<Rightarrow> (g, l, False)) = (g, l, submit)" for r
    using that by (intro abort [of r]) (simp_all add: case_prod_beta prod_eq_iff)
  from assms show thesis
    unfolding outbound_def Let_def by (auto split: if_split_asm intro: ab syn ack)
qed

lemma flow_inv_outbound:
  assumes "flow_inv stop rep f ts ps" "fl_monitor f" "outbound p f = (g, l, submit)"
  shows "if submit then ts = [] \<and> flow_inv stop rep g [Waiting q i] ps \<and> flow_inv stop rep g [] ps
         else flow_inv stop rep g ts ps"
  using assms(3)
proof (cases rule: outbound_cases)
  case (abort r)
  have "g = fst (abort_spoof r f)" using abort(2) by (metis fst_conv)
  with abort(1) flow_inv_abort [OF assms(1)] show ?thesis by simp
next
  case syn
  with assms(1,2) show ?thesis by (simp add: flow_inv_def)
next
  case ack
  with assms(1,2) show ?thesis by (simp add: flow_inv_def)
qed

lemma fake_shape_fake_packet: "fake_shape f (fake_packet p f)"
proof -
  let ?n = "int (length (fl_fake_data f))"
  have "uint (word_of_int (mask32 (fl_syn_seq f + 1 - ?n)) :: u32) = (fl_syn_seq f + 1 - ?n) mod 2 ^ 32"
    by (simp add: mask32_mod uint_word_of_int)
  then show ?thesis by (simp add: fake_shape_def fake_packet_def mod_add_left_eq)
qed

section \<open>The invariant of the injector\<close>

definition tasks_of :: "nat \<Rightarrow> injector \<Rightarrow> task list" where
  "tasks_of i st = filter (\<lambda>t. task_flow t = i) (in_tasks st)"

definition sent_of :: "nat \<Rightarrow> injector \<Rightarrow> packet list" where
  "sent_of i st = map snd (filter (\<lambda>x. fst x = i) (in_sent st))"

definition flow_ok :: "injector \<Rightarrow> nat \<Rightarrow> bool" where
  "flow_ok st i \<longleftrightarrow> flow_inv (in_stop st) (in_repeat st) (in_flows st ! i) (tasks_of i st) (sent_of i st)"

definition refs_ok :: "injector \<Rightarrow> bool" where
  "refs_ok st \<longleftrightarrow> 0 < in_repeat st \<and> (\<forall>x \<in> set (in_conns st). snd x < length (in_flows st))
     \<and> (\<forall>t \<in> set (in_tasks st). task_flow t < length (in_flows st))
     \<and> (\<forall>x \<in> set (in_sent st). fst x < length (in_flows st))"

definition injector_inv :: "injector \<Rightarrow> bool" where
  "injector_inv st \<longleftrightarrow> refs_ok st \<and> (\<forall>i < length (in_flows st). flow_ok st i)"

lemma injector_inv_add_log [simp]: "injector_inv (add_log l st) = injector_inv st"
  by (simp add: injector_inv_def refs_ok_def flow_ok_def add_log_def tasks_of_def sent_of_def)

lemma injector_inv_set_flow:
  assumes inv: "injector_inv st"
    and g: "flow_inv (in_stop st) (in_repeat st) g (tasks_of i st) (sent_of i st)"
  shows "injector_inv (set_flow i g st)"
proof -
  have "refs_ok (set_flow i g st)" using inv by (simp add: injector_inv_def refs_ok_def set_flow_def)
  moreover have "flow_ok (set_flow i g st) j" if "j < length (in_flows st)" for j
    using inv g that by (cases "i = j") (simp_all add: injector_inv_def flow_ok_def set_flow_def tasks_of_def sent_of_def)
  ultimately show ?thesis by (simp add: injector_inv_def set_flow_def)
qed

lemma filter_one_split:
  assumes "filter P (xs @ y # zs) = [y]" "P y"
  shows "filter P xs = []" "filter P zs = []"
proof -
  from assms have *: "filter P xs @ y # filter P zs = [y]" by simp
  show "filter P xs = []" using * by (cases "filter P xs") simp_all
  then show "filter P zs = []" using * by simp
qed

lemma tasks_of_one:
  assumes "injector_inv st" "n < length (in_tasks st)" "task_flow (in_tasks st ! n) = i"
  shows "tasks_of i st = [in_tasks st ! n]"
proof -
  have mem: "in_tasks st ! n \<in> set (tasks_of i st)" using assms(2,3) by (simp add: tasks_of_def)
  from assms have "i < length (in_flows st)" by (auto simp: injector_inv_def refs_ok_def)
  with assms(1) have "task_ok (in_stop st) (in_repeat st) (in_flows st ! i) (tasks_of i st) (sent_of i st)"
    by (simp add: injector_inv_def flow_ok_def flow_inv_def)
  then show ?thesis using mem by (cases "tasks_of i st" rule: remdups_adj.cases) auto
qed

lemma tasks_of_set_task:
  assumes "injector_inv st" "n < length (in_tasks st)" "task_flow (in_tasks st ! n) = i"
    and "case t of None \<Rightarrow> True | Some x \<Rightarrow> task_flow x = i"
  shows "tasks_of i (set_task n t st) = (case t of None \<Rightarrow> [] | Some x \<Rightarrow> [x])"
proof -
  let ?ts = "in_tasks st"
  have split: "?ts = take n ?ts @ ?ts ! n # drop (Suc n) ?ts" using assms(2) by (rule id_take_nth_drop)
  have one: "filter (\<lambda>x. task_flow x = i) ?ts = [?ts ! n]"
    using tasks_of_one [OF assms(1-3)] by (simp add: tasks_of_def)
  have "filter (\<lambda>x. task_flow x = i) (take n ?ts) = []" "filter (\<lambda>x. task_flow x = i) (drop (Suc n) ?ts) = []"
    using filter_one_split [of "\<lambda>x. task_flow x = i" "take n ?ts" "?ts ! n" "drop (Suc n) ?ts"] one split assms(3)
    by simp_all
  then show ?thesis using assms(4) by (cases t) (simp_all add: tasks_of_def set_task_def)
qed

lemma injector_inv_set_task:
  assumes inv: "injector_inv st" and n: "n < length (in_tasks st)" and i: "task_flow (in_tasks st ! n) = i"
    and t: "case t of None \<Rightarrow> True | Some x \<Rightarrow> task_flow x = i"
    and flow: "flow_inv (in_stop st) (in_repeat st) (in_flows st ! i)
                 (case t of None \<Rightarrow> [] | Some x \<Rightarrow> [x]) (sent_of i st @ map snd new)"
    and new: "\<forall>x \<in> set new. fst x = i"
  shows "injector_inv (set_task n t (st\<lparr>in_sent := in_sent st @ new\<rparr>))"
proof -
  let ?ts = "in_tasks st" and ?st = "set_task n t (st\<lparr>in_sent := in_sent st @ new\<rparr>)"
  have split: "?ts = take n ?ts @ ?ts ! n # drop (Suc n) ?ts" using n by (rule id_take_nth_drop)
  have own: "tasks_of i ?st = (case t of None \<Rightarrow> [] | Some x \<Rightarrow> [x])"
    using tasks_of_set_task [OF inv n i t] by (simp add: tasks_of_def set_task_def)
  have other: "tasks_of j ?st = tasks_of j st" if "j \<noteq> i" for j
  proof -
    have "tasks_of j st = filter (\<lambda>x. task_flow x = j) (take n ?ts @ ?ts ! n # drop (Suc n) ?ts)"
      using split by (simp add: tasks_of_def)
    then show ?thesis using that i t by (cases t) (simp_all add: tasks_of_def set_task_def)
  qed
  have sent: "sent_of i ?st = sent_of i st @ map snd new" "j \<noteq> i \<Longrightarrow> sent_of j ?st = sent_of j st" for j
    using new by (auto simp: sent_of_def set_task_def filter_empty_conv)
  have il: "i < length (in_flows st)" using inv n i by (auto simp: injector_inv_def refs_ok_def)
  have "refs_ok ?st"
    using inv new t il by (auto simp: injector_inv_def refs_ok_def set_task_def dest: in_set_takeD in_set_dropD split: option.splits)
  moreover have "flow_ok ?st j" if "j < length (in_flows ?st)" for j
  proof (cases "j = i")
    case True
    with flow own sent show ?thesis by (simp add: flow_ok_def set_task_def)
  next
    case False
    with inv that other sent show ?thesis by (simp add: flow_ok_def injector_inv_def set_task_def)
  qed
  ultimately show ?thesis by (simp add: injector_inv_def)
qed

section \<open>Every step keeps the invariant\<close>

lemma injector_inv_new: "injector_inv (new_injector n)"
  by (simp add: injector_inv_def refs_ok_def new_injector_def)

lemma injector_invD:
  assumes "injector_inv st" "i < length (in_flows st)"
  shows "flow_inv (in_stop st) (in_repeat st) (in_flows st ! i) (tasks_of i st) (sent_of i st)"
  using assms by (simp add: injector_inv_def flow_ok_def)

lemma lookup_flow_bound: "injector_inv st \<Longrightarrow> lookup_flow st p = Some i \<Longrightarrow> i < length (in_flows st)"
  by (force simp: injector_inv_def refs_ok_def lookup_flow_def dict_get_def split: option.splits dest: map_of_SomeD)

lemma injector_inv_submit:
  assumes inv: "injector_inv st" and i: "i < length (in_flows st)"
    and ts: "tasks_of i st = []"
    and f: "flow_inv (in_stop st) (in_repeat st) (in_flows st ! i) [Waiting p i] (sent_of i st)"
  shows "injector_inv (submit_fake p i st)"
proof (cases "in_pool_open st")
  case False
  with inv show ?thesis by (simp add: submit_fake_def)
next
  case True
  have "refs_ok (st\<lparr>in_tasks := in_tasks st @ [Waiting p i]\<rparr>)"
    using inv i by (auto simp: injector_inv_def refs_ok_def)
  moreover have "flow_ok (st\<lparr>in_tasks := in_tasks st @ [Waiting p i]\<rparr>) j" if "j < length (in_flows st)" for j
    using injector_invD [OF inv that] ts f
    by (cases "j = i") (simp_all add: flow_ok_def tasks_of_def sent_of_def)
  ultimately show ?thesis using True by (simp add: submit_fake_def injector_inv_def)
qed

lemma injector_inv_inject:
  assumes inv: "injector_inv st"
  shows "injector_inv (inject p st)"
proof (cases "lookup_flow st p")
  case None
  with inv show ?thesis by (simp add: inject_def)
next
  case (Some i)
  let ?f = "in_flows st ! i"
  have i: "i < length (in_flows st)" by (rule lookup_flow_bound [OF inv Some])
  note f = injector_invD [OF inv i]
  show ?thesis
  proof (cases "fl_monitor ?f")
    case False
    with inv Some show ?thesis by (simp add: inject_def)
  next
    case mon: True
    show ?thesis
    proof (cases "pk_dir p = Inbound")
      case True
      have "injector_inv (set_flow i (fst (inbound p ?f)) st)"
        by (rule injector_inv_set_flow [OF inv flow_inv_inbound [OF f mon]])
      with True Some mon show ?thesis by (simp add: inject_def case_prod_beta Let_def)
    next
      case False
      obtain g l submit where o: "outbound p ?f = (g, l, submit)" by (cases "outbound p ?f") auto
      note g = flow_inv_outbound [OF f mon o, of p i]
      show ?thesis
      proof (cases submit)
        case no: False
        with g have "injector_inv (set_flow i g st)" by (intro injector_inv_set_flow inv) simp
        with False Some mon o no show ?thesis by (simp add: inject_def)
      next
        case yes: True
        let ?st = "add_log l (set_flow i g st)"
        from yes g have ts: "tasks_of i st = []"
          and g1: "flow_inv (in_stop st) (in_repeat st) g [] (sent_of i st)"
          and g2: "flow_inv (in_stop st) (in_repeat st) g [Waiting p i] (sent_of i st)" by simp_all
        have view: "tasks_of i ?st = tasks_of i st" "sent_of i ?st = sent_of i st" "in_flows ?st ! i = g"
          "in_stop ?st = in_stop st" "in_repeat ?st = in_repeat st" "i < length (in_flows ?st)"
          using i by (simp_all add: tasks_of_def sent_of_def set_flow_def add_log_def)
        have "injector_inv ?st" using ts g1 by (simp add: injector_inv_set_flow [OF inv])
        then have "injector_inv (submit_fake p i ?st)"
          by (rule injector_inv_submit) (use view ts g2 in simp_all)
        with False Some mon o yes show ?thesis by (simp add: inject_def)
      qed
    qed
  qed
qed

lemma set_task_set_flow: "set_task n t (set_flow i g st) = set_flow i g (set_task n t st)"
  by (cases st) (simp add: set_task_def set_flow_def)

lemma injector_inv_fake_send:
  assumes inv: "injector_inv st" and n: "n < length (in_tasks st)"
  shows "injector_inv (fake_send ok n st)"
proof -
  define i where "i = task_flow (in_tasks st ! n)"
  let ?f = "in_flows st ! i" and ?rep = "in_repeat st" and ?stop = "in_stop st" and ?ps = "sent_of i st"
  have il: "i < length (in_flows st)" using inv n by (auto simp: i_def injector_inv_def refs_ok_def)
  have one: "tasks_of i st = [in_tasks st ! n]" by (rule tasks_of_one [OF inv n]) (simp add: i_def)
  have f: "flow_inv ?stop ?rep ?f [in_tasks st ! n] ?ps" using injector_invD [OF inv il] one by simp
  have upd: "injector_inv (set_task n t st)"
    if "flow_inv ?stop ?rep ?f (case t of None \<Rightarrow> [] | Some x \<Rightarrow> [x]) ?ps" "\<forall>x. t = Some x \<longrightarrow> task_flow x = i" for t
    using injector_inv_set_task [OF inv n, of i t "[]"] that by (simp add: i_def split: option.split)
  have none: "injector_inv (set_task n None st)"
    by (rule upd) (use f in \<open>auto simp: flow_inv_def\<close>)
  show ?thesis
  proof (cases "in_tasks st ! n")
    case (Waiting p j)
    with f have "flow_inv ?stop ?rep ?f [Sending (fake_packet p ?f) i 0 False] ?ps"
      by (auto simp: flow_inv_def fake_shape_fake_packet)
    with upd [of "Some (Sending (fake_packet p ?f) i 0 False)"] none Waiting show ?thesis
      by (simp add: fake_send_def i_def)
  next
    case (Sending p j k c)
    then have j: "j = i" by (simp add: i_def)
    show ?thesis
    proof (cases c)
      case False
      have "injector_inv (set_task n (Some (Sending p i k True)) st)" if "int k < ?rep"
        by (rule upd) (use f Sending that in \<open>auto simp: flow_inv_def\<close>)
      moreover have "injector_inv (set_task n None (set_flow i (?f\<lparr>fl_fake_sent := True\<rparr>) st))" if "\<not> int k < ?rep"
      proof -
        have "flow_inv ?stop ?rep (?f\<lparr>fl_fake_sent := True\<rparr>) [] ?ps"
          using f Sending that fake_shape_cong [of "?f\<lparr>fl_fake_sent := True\<rparr>" ?f]
          by (auto simp: flow_inv_def)
        moreover have "tasks_of i (set_task n None st) = []"
          using tasks_of_set_task [OF inv n, of i None] by (simp add: i_def)
        ultimately have "injector_inv (set_flow i (?f\<lparr>fl_fake_sent := True\<rparr>) (set_task n None st))"
          by (intro injector_inv_set_flow none) (simp add: set_task_def sent_of_def)
        then show ?thesis by (simp add: set_task_set_flow)
      qed
      ultimately show ?thesis using none Sending False j by (simp add: fake_send_def)
    next
      case True
      have snd: "injector_inv (set_task n (Some (Sending p i (Suc k) False)) (st\<lparr>in_sent := in_sent st @ [(i, p)]\<rparr>))"
        by (rule injector_inv_set_task [OF inv n]) (use f Sending True in \<open>auto simp: flow_inv_def i_def\<close>)
      have "injector_inv (set_task n (Some (Sending p i (Suc k) False)) st)" if ?stop
        by (rule upd) (use f Sending True that in \<open>auto simp: flow_inv_def\<close>)
      with snd none Sending True j show ?thesis by (simp add: fake_send_def)
    qed
  qed
qed

lemma in_dict_set: "x \<in> set (dict_set k v d) \<Longrightarrow> x = (k, v) \<or> x \<in> set d"
  by (induction k v d rule: dict_set.induct) (auto split: if_splits)

lemma injector_inv_register:
  assumes inv: "injector_inv st"
  shows "injector_inv (register (new_flow a b c d e) st)"
proof -
  let ?f = "new_flow a b c d e" and ?n = "length (in_flows st)"
  have "\<forall>x \<in> set (dict_set (fl_id ?f) ?n (in_conns st)). snd x < Suc ?n"
  proof
    fix x assume "x \<in> set (dict_set (fl_id ?f) ?n (in_conns st))"
    then have "x = (fl_id ?f, ?n) \<or> x \<in> set (in_conns st)" by (rule in_dict_set)
    then show "snd x < Suc ?n" using inv by (auto simp: injector_inv_def refs_ok_def less_SucI)
  qed
  then have refs: "refs_ok (register ?f st)"
    using inv by (auto simp: injector_inv_def refs_ok_def register_def less_SucI)
  have "flow_ok (register ?f st) j" if "j < Suc ?n" for j
  proof (cases "j = ?n")
    case True
    then have "tasks_of j st = []" "sent_of j st = []"
      using inv by (fastforce simp: injector_inv_def refs_ok_def tasks_of_def sent_of_def filter_empty_conv)+
    with True inv show ?thesis
      by (simp add: flow_ok_def register_def tasks_of_def sent_of_def nth_append injector_inv_def refs_ok_def flow_inv_new)
  next
    case False
    with that inv show ?thesis
      by (simp add: flow_ok_def register_def tasks_of_def sent_of_def nth_append injector_inv_def)
  qed
  with refs show ?thesis by (simp add: injector_inv_def register_def)
qed

lemma injector_inv_unregister:
  assumes inv: "injector_inv st" and i: "i < length (in_flows st)"
  shows "injector_inv (unregister i st)"
proof -
  have "injector_inv (set_flow i ((in_flows st ! i)\<lparr>fl_monitor := False\<rparr>) st)"
    by (intro injector_inv_set_flow inv flow_inv_unmonitor injector_invD i)
  moreover have "injector_inv (s\<lparr>in_conns := dict_pop k (in_conns s)\<rparr>)" if "injector_inv s" for s k
    using that by (auto simp: injector_inv_def refs_ok_def flow_ok_def tasks_of_def sent_of_def dict_pop_def)
  moreover have "unregister i st = (let s = set_flow i ((in_flows st ! i)\<lparr>fl_monitor := False\<rparr>) st
      in s\<lparr>in_conns := dict_pop (fl_id (in_flows st ! i)) (in_conns s)\<rparr>)"
    by (simp add: unregister_def Let_def set_flow_def)
  ultimately show ?thesis unfolding Let_def by metis
qed

lemma injector_inv_stop_flows:
  assumes inv: "injector_inv st"
  shows "injector_inv (stop_flows st)"
proof -
  have "flow_ok (stop_flows st) j" if "j < length (in_flows st)" for j
    using injector_invD [OF inv that] that
    by (simp add: flow_ok_def stop_flows_def Let_def tasks_of_def sent_of_def stop_flow_def flow_inv_signal)
  with inv show ?thesis by (simp add: injector_inv_def refs_ok_def stop_flows_def Let_def)
qed

lemma flow_inv_stop:
  assumes "flow_inv stop rep f ts ps" "us = ts \<or> us = []"
  shows "flow_inv True rep f us ps"
proof -
  have "task_ok True rep f us ps"
    using assms by (cases "(stop, rep, f, ts, ps)" rule: task_ok.cases) (auto simp: flow_inv_def)
  with assms show ?thesis by (auto simp: flow_inv_def)
qed

lemma injector_inv_stop_injector:
  assumes inv: "injector_inv st"
  shows "injector_inv (stop_injector st)"
proof -
  have "flow_ok (stop_injector st) j" if j: "j < length (in_flows st)" for j
  proof -
    note f = injector_invD [OF inv j]
    let ?keep = "\<lambda>t. case t of Waiting _ _ \<Rightarrow> False | Sending _ _ _ _ \<Rightarrow> True"
    have "task_ok (in_stop st) (in_repeat st) (in_flows st ! j) (tasks_of j st) (sent_of j st)"
      using f by (simp add: flow_inv_def)
    then have "filter ?keep (tasks_of j st) = tasks_of j st \<or> filter ?keep (tasks_of j st) = []"
      by (cases "tasks_of j st" rule: remdups_adj.cases) (auto split: task.splits)
    moreover have "tasks_of j (stop_injector st) = filter ?keep (tasks_of j st)"
      by (simp add: tasks_of_def stop_injector_def conj_commute)
    ultimately show ?thesis
      using flow_inv_stop [OF f, of "tasks_of j (stop_injector st)"]
      by (simp add: flow_ok_def stop_injector_def sent_of_def)
  qed
  with inv show ?thesis by (auto simp: injector_inv_def refs_ok_def stop_injector_def)
qed

lemmas injector_inv_steps = injector_inv_inject injector_inv_fake_send injector_inv_register
  injector_inv_unregister injector_inv_stop_flows injector_inv_stop_injector

lemma istep_inv: "istep st st' \<Longrightarrow> injector_inv st \<Longrightarrow> injector_inv st'"
  by (erule istepE) (simp_all add: injector_inv_steps)

lemma ireachable_inv: "ireachable n st \<Longrightarrow> injector_inv st"
  by (induction rule: ireachable.induct) (auto intro: injector_inv_new istep_inv)

section \<open>Properties\<close>

lemma in_repeat_step: "istep st st' \<Longrightarrow> in_repeat st' = in_repeat st"
  by (erule istepE)
    (auto simp: inject_def fake_send_def register_def unregister_def stop_flows_def stop_injector_def
       set_task_def set_flow_def add_log_def submit_fake_def Let_def case_prod_beta split: option.splits task.splits bool.splits)

lemma ireachable_repeat: "ireachable n st \<Longrightarrow> in_repeat st = max 1 n"
  by (induction rule: ireachable.induct) (simp_all add: new_injector_def in_repeat_step)

text \<open>
  C8: A connection is reported as spoofed (\<open>fake_data_ack_recv\<close>) only after the whole exchange was
  seen: the SYN and SYN-ACK numbers are known, the fake hello was scheduled and sent, in as many
  copies as configured unless the core was stopped meanwhile, and the connection is no longer
  monitored.
\<close>

theorem spoof_reported_after_fake:
  assumes "ireachable n st" "i < length (in_flows st)"
    and "fl_result (in_flows st ! i) = ''fake_data_ack_recv''"
  shows "fl_fake_sent (in_flows st ! i) \<and> fl_fake_scheduled (in_flows st ! i) \<and> \<not> fl_monitor (in_flows st ! i)
     \<and> 0 \<le> fl_syn_seq (in_flows st ! i) \<and> 0 \<le> fl_syn_ack_seq (in_flows st ! i)
     \<and> (in_stop st \<or> int (length (sent_of i st)) = max 1 n)"
  using injector_invD [OF ireachable_inv [OF assms(1)] assms(2)] assms(3) ireachable_repeat [OF assms(1)]
  by (auto simp: flow_inv_def seq_ok_def)

text \<open>
  C6: Every packet the injector sends carries the connection's fake ClientHello and ends exactly
  at the client's initial sequence number plus one (modulo 2^32): it lies left of the window the
  server has open, so the server discards it. A connection never gets more copies than configured.
\<close>

theorem fake_left_of_window:
  assumes "ireachable n st" "(i, p) \<in> set (in_sent st)"
  shows "i < length (in_flows st) \<and> pk_payload p = fl_fake_data (in_flows st ! i)
     \<and> (uint (pk_seq p) + int (length (pk_payload p))) mod 2 ^ 32 = (fl_syn_seq (in_flows st ! i) + 1) mod 2 ^ 32
     \<and> int (length (sent_of i st)) \<le> max 1 n"
proof -
  note inv = ireachable_inv [OF assms(1)]
  have i: "i < length (in_flows st)" using inv assms(2) by (auto simp: injector_inv_def refs_ok_def)
  have "p \<in> set (sent_of i st)" using assms(2) by (force simp: sent_of_def)
  with injector_invD [OF inv i] ireachable_repeat [OF assms(1)] i show ?thesis
    by (auto simp: flow_inv_def fake_shape_def)
qed

lemma nth_update_at: "i < length xs \<Longrightarrow> xs[j := y] ! i = (if i = j then y else xs ! i)"
  by (cases "i = j") simp_all

lemma inject_unmonitored:
  assumes "\<not> fl_monitor (in_flows st ! i)"
  shows "in_flows (inject p st) ! i = in_flows st ! i"
proof (cases "\<exists>a. lookup_flow st p = Some a \<and> fl_monitor (in_flows st ! a)")
  case True
  then obtain a where a: "lookup_flow st p = Some a" "fl_monitor (in_flows st ! a)" by auto
  with assms have "a \<noteq> i" by auto
  with a show ?thesis
    by (simp add: inject_def Let_def case_prod_beta set_flow_def add_log_def submit_fake_def)
next
  case False
  then show ?thesis by (auto simp: inject_def Let_def split: option.split)
qed

text \<open>
  A verdict is final: once a connection is no longer monitored, no packet, task or other
  session changes its result; only stopping the core can, to \<open>stopped\<close>.
\<close>

theorem verdict_is_final:
  assumes "istep st st'" "i < length (in_flows st)" "\<not> fl_monitor (in_flows st ! i)"
  shows "\<not> fl_monitor (in_flows st' ! i)
     \<and> (fl_result (in_flows st' ! i) = fl_result (in_flows st ! i) \<or> fl_result (in_flows st' ! i) = ''stopped'')"
  using assms(1)
proof (cases rule: istep.cases)
  case (Packet p)
  then show ?thesis using assms(3) inject_unmonitored [OF assms(3), of p] by simp
next
  case (Task n ok)
  then show ?thesis using assms(2,3)
    by (auto simp: fake_send_def set_task_def set_flow_def nth_update_at split: task.split bool.split)
next
  case (Unregister j)
  then show ?thesis using assms(2,3)
    by (cases "i = j") (simp_all add: unregister_def Let_def set_flow_def)
qed (use assms(2,3) in \<open>simp_all add: register_def nth_append stop_flows_def stop_injector_def Let_def
       stop_flow_def signal_def\<close>)

text \<open>The exchange of one connection, with any initial sequence numbers.\<close>

definition tcp_packet :: "direction \<Rightarrow> flow_key \<Rightarrow> bool \<Rightarrow> bool \<Rightarrow> u32 \<Rightarrow> u32 \<Rightarrow> packet" where
  \<comment> \<open>an empty segment of the connection \<open>key\<close>, as seen by the client\<close>
  "tcp_packet dir key syn ack sq ackno = (case key of (sa, sp, da, dp) \<Rightarrow>
     \<lparr>pk_dir = dir,
      pk_src_addr = (if dir = Inbound then da else sa), pk_src_port = (if dir = Inbound then dp else sp),
      pk_dst_addr = (if dir = Inbound then sa else da), pk_dst_port = (if dir = Inbound then sp else dp),
      pk_len = 40, pk_ident = Some 7, pk_syn = syn, pk_ack = ack, pk_rst = False, pk_fin = False,
      pk_psh = False, pk_seq = sq, pk_ackno = ackno, pk_payload = []\<rparr>)"

lemma tcp_packet_simps [simp]:
  "pk_dir (tcp_packet dir key syn ack sq a) = dir" "pk_syn (tcp_packet dir key syn ack sq a) = syn"
  "pk_ack (tcp_packet dir key syn ack sq a) = ack" "pk_rst (tcp_packet dir key syn ack sq a) = False"
  "pk_fin (tcp_packet dir key syn ack sq a) = False" "pk_payload (tcp_packet dir key syn ack sq a) = []"
  "pk_seq (tcp_packet dir key syn ack sq a) = sq" "pk_ackno (tcp_packet dir key syn ack sq a) = a"
  by (simp_all add: tcp_packet_def split: prod.split)

lemma packet_key_tcp [simp]: "dir \<noteq> Neither \<Longrightarrow> packet_key (tcp_packet dir key syn ack sq a) = Some key"
  by (cases dir; cases key) (simp_all add: packet_key_def tcp_packet_def)

lemma uint_succ: "uint (w + 1 :: u32) = mask32 (uint w + 1)"
  by (simp add: mask32_mod uint_word_ariths)

lemma word_of_int_mask32: "(word_of_int (mask32 n) :: u32) = word_of_int n"
  unfolding mask32_mod by transfer (simp add: take_bit_eq_mod)

definition after_handshake :: "flow \<Rightarrow> u32 \<Rightarrow> u32 \<Rightarrow> injector \<Rightarrow> injector" where
  \<comment> \<open>register, SYN out, SYN-ACK in, ACK out\<close>
  "after_handshake f x y st =
     inject (tcp_packet Outbound (fl_id f) False True (x + 1) (y + 1))
       (inject (tcp_packet Inbound (fl_id f) True True y (x + 1))
         (inject (tcp_packet Outbound (fl_id f) True False x 0) (register f st)))"

lemma new_flow_simps [simp]:
  "fl_id (new_flow a b c d e) = (a, c, b, d)" "fl_monitor (new_flow a b c d e)"
  "fl_fake_data (new_flow a b c d e) = e" "\<not> fl_fake_scheduled (new_flow a b c d e)"
  "fl_syn_seq (new_flow a b c d e) = -1" "fl_syn_ack_seq (new_flow a b c d e) = -1"
  "\<not> fl_fake_sent (new_flow a b c d e)" "fl_loop_open (new_flow a b c d e)"
  by (simp_all add: new_flow_def)

lemma after_handshake_eq:
  fixes a b c d e x y n
  defines "f \<equiv> new_flow a b c d e"
  shows "after_handshake f x y (new_injector n) =
    (new_injector n)\<lparr>in_conns := [(fl_id f, 0)],
       in_flows := [f\<lparr>fl_syn_seq := uint x, fl_syn_ack_seq := uint y, fl_fake_scheduled := True\<rparr>],
       in_tasks := [Waiting (tcp_packet Outbound (fl_id f) False True (x + 1) (y + 1)) 0]\<rparr>"
  unfolding after_handshake_def f_def
  by (simp add: inject_def lookup_flow_def register_def new_injector_def set_flow_def add_log_def
      submit_fake_def outbound_def inbound_def Let_def uint_succ dict_get_def)

lemma fake_send_rounds:
  assumes "in_tasks st = [Sending p 0 0 False]" "fl_monitor (in_flows st ! 0)" "\<not> in_stop st"
    and "int k \<le> in_repeat st"
  shows "((fake_send True 0 ^^ (2 * k)) st)
     = st\<lparr>in_tasks := [Sending p 0 k False], in_sent := in_sent st @ replicate k (0, p)\<rparr>"
  using assms(4)
proof (induction k)
  case 0
  with assms show ?case by simp
next
  case (Suc k)
  then have IH: "(fake_send True 0 ^^ (2 * k)) st
      = st\<lparr>in_tasks := [Sending p 0 k False], in_sent := in_sent st @ replicate k (0, p)\<rparr>" by simp
  have two: "2 * Suc k = Suc (Suc (2 * k))" by simp
  from Suc(2) assms show ?case unfolding two funpow.simps o_apply IH
    by (simp add: fake_send_def may_send_def set_task_def replicate_append_same)
qed

text \<open>
  C27: The exchange works: for any addresses, ports, fake payload, repeat count and initial
  sequence numbers (wrap-around included), the SYN, SYN-ACK and ACK of a new connection make the
  injector send exactly the configured number of copies of the fake hello, each the handshake ACK
  with the fake payload and a sequence number below the window, and the server's ACK that repeats
  the numbers of the handshake then gives the verdict \<open>fake_data_ack_recv\<close> and wakes the session.
\<close>

theorem handshake_is_spoofed:
  fixes a b c d e x y n
  defines "f \<equiv> new_flow a b c d e" and "r \<equiv> nat (max 1 n)"
  defines "ackp \<equiv> tcp_packet Outbound (fl_id f) False True (x + 1) (y + 1)"
  defines "st \<equiv> inject (tcp_packet Inbound (fl_id f) False True (y + 1) (x + 1))
       ((fake_send True 0 ^^ (2 * r + 2)) (after_handshake f x y (new_injector n)))"
  shows "fl_result (in_flows st ! 0) = ''fake_data_ack_recv'' \<and> fl_event (in_flows st ! 0)
     \<and> \<not> fl_monitor (in_flows st ! 0) \<and> in_tasks st = []
     \<and> in_sent st = replicate r (0, ackp\<lparr>pk_psh := True, pk_len := 40 + int (length e), pk_payload := e,
            pk_ident := Some 8, pk_seq := x + 1 - of_nat (length e)\<rparr>)"
proof -
  define g where "g = f\<lparr>fl_syn_seq := uint x, fl_syn_ack_seq := uint y, fl_fake_scheduled := True\<rparr>"
  define q where "q = fake_packet ackp g"
  define st1 where "st1 = (new_injector n)\<lparr>in_conns := [(fl_id f, 0)], in_flows := [g],
      in_tasks := [Sending q 0 0 False]\<rparr>"
  have start: "fake_send True 0 (after_handshake f x y (new_injector n)) = st1"
    unfolding f_def after_handshake_eq
    by (simp add: fake_send_def may_send_def set_task_def st1_def q_def g_def f_def ackp_def new_injector_def)
  have seq: "pk_seq q = x + 1 - of_nat (length e)"
    by (simp add: q_def fake_packet_def g_def f_def word_of_int_mask32)
  have q: "q = ackp\<lparr>pk_psh := True, pk_len := 40 + int (length e), pk_payload := e,
            pk_ident := Some 8, pk_seq := x + 1 - of_nat (length e)\<rparr>"
    using seq by (simp add: q_def fake_packet_def g_def f_def ackp_def tcp_packet_def)
  have rr: "int r = in_repeat st1" by (simp add: r_def st1_def new_injector_def)
  have rounds: "(fake_send True 0 ^^ (2 * r)) st1
      = st1\<lparr>in_tasks := [Sending q 0 r False], in_sent := replicate r (0, q)\<rparr>"
    by (subst fake_send_rounds [of st1 q r]) (use rr in \<open>simp_all add: st1_def g_def f_def new_injector_def\<close>)
  have "(fake_send True 0 ^^ (2 * r + 2)) (after_handshake f x y (new_injector n))
      = fake_send True 0 ((fake_send True 0 ^^ (2 * r)) st1)"
    by (simp add: funpow_swap1 start)
  also have "\<dots> = st1\<lparr>in_flows := [g\<lparr>fl_fake_sent := True\<rparr>], in_tasks := [], in_sent := replicate r (0, q)\<rparr>"
    unfolding rounds using rr by (simp add: fake_send_def set_task_def set_flow_def st1_def)
  finally have st: "st = inject (tcp_packet Inbound (fl_id f) False True (y + 1) (x + 1))
      (st1\<lparr>in_flows := [g\<lparr>fl_fake_sent := True\<rparr>], in_tasks := [], in_sent := replicate r (0, q)\<rparr>)"
    by (simp add: st_def)
  have "fl_result (in_flows st ! 0) = ''fake_data_ack_recv'' \<and> fl_event (in_flows st ! 0)
     \<and> \<not> fl_monitor (in_flows st ! 0) \<and> in_tasks st = [] \<and> in_sent st = replicate r (0, q)"
    unfolding st
    by (simp add: inject_def lookup_flow_def inbound_def set_flow_def add_log_def st1_def g_def f_def
        uint_succ signal_def Let_def dict_get_def new_injector_def)
  then show ?thesis using q by simp
qed

text \<open>A concrete run for the witnesses: one connection, one fake packet.\<close>

definition sample_flow :: flow where
  "sample_flow = new_flow ''10.0.0.2'' ''104.18.32.47'' 50000 443 [22, 3, 1]"

definition sample_acked :: injector where
  "sample_acked = after_handshake sample_flow 1 9 (new_injector 1)"

definition sample_sent :: injector where
  "sample_sent = fake_send True 0 (fake_send True 0 (fake_send True 0 (fake_send True 0 sample_acked)))"

definition sample_done :: injector where
  "sample_done = inject (tcp_packet Inbound (fl_id sample_flow) False True 10 2) sample_sent"

lemma ireachable_inject:
  "ireachable n st \<Longrightarrow> list_all (\<lambda>t. \<exists>p i. t = Waiting p i) (in_tasks st) \<Longrightarrow> ireachable n (inject p st)"
  by (rule Step, assumption, rule Packet) (auto simp: locked_def list_all_iff list_ex_iff)

lemma ireachable_after_handshake: "ireachable n (after_handshake (new_flow a b c d e) x y (new_injector n))"
proof -
  let ?f = "new_flow a b c d e"
  let ?s1 = "register ?f (new_injector n)"
  let ?s2 = "inject (tcp_packet Outbound (fl_id ?f) True False x 0) ?s1"
  let ?s3 = "inject (tcp_packet Inbound (fl_id ?f) True True y (x + 1)) ?s2"
  have "in_tasks ?s1 = []" "in_tasks ?s2 = []" "in_tasks ?s3 = []"
    by (simp_all add: inject_def lookup_flow_def register_def new_injector_def set_flow_def add_log_def
        outbound_def inbound_def Let_def uint_succ dict_get_def)
  moreover have "ireachable n ?s1" by (intro Step [OF Start] Register)
  ultimately show ?thesis unfolding after_handshake_def by (simp add: ireachable_inject)
qed

lemma sample_reachable: "ireachable 1 sample_sent" "ireachable 1 sample_done"
proof -
  have go: "ireachable 1 (fake_send True 0 st)"
    if "ireachable 1 st" "in_tasks st = [t]" "\<not> locked st (task_flow t)" for st t
    using that by (intro Step [OF that(1)] Task) auto
  have go2: "ireachable 1 (fake_send True 0 st)"
    if "ireachable 1 st" "in_tasks st = [Sending p i k c]" for st p i k c
    using that by (intro Step [OF that(1)] Task) auto
  let ?s1 = "fake_send True 0 sample_acked"
  let ?s2 = "fake_send True 0 ?s1"
  let ?s3 = "fake_send True 0 ?s2"
  have 0: "ireachable 1 sample_acked" unfolding sample_acked_def sample_flow_def by (rule ireachable_after_handshake)
  have t0: "list_ex (\<lambda>t. is_Waiting t) (in_tasks sample_acked) \<and> length (in_tasks sample_acked) = 1
      \<and> \<not> locked sample_acked (task_flow (hd (in_tasks sample_acked)))" by code_simp
  then have 1: "ireachable 1 ?s1" by (cases "in_tasks sample_acked") (auto intro: go [OF 0])
  have sending: "\<exists>p i k c. in_tasks st = [Sending p i k c]"
    if "length (in_tasks st) = 1 \<and> \<not> is_Waiting (hd (in_tasks st))" for st
    using that by (cases "in_tasks st"; cases "hd (in_tasks st)") auto
  have "length (in_tasks ?s1) = 1 \<and> \<not> is_Waiting (hd (in_tasks ?s1))" by code_simp
  from sending [OF this] 1 have 2: "ireachable 1 ?s2" by (auto intro: go2)
  have "length (in_tasks ?s2) = 1 \<and> \<not> is_Waiting (hd (in_tasks ?s2))" by code_simp
  from sending [OF this] 2 have 3: "ireachable 1 ?s3" by (auto intro: go2)
  have "length (in_tasks ?s3) = 1 \<and> \<not> is_Waiting (hd (in_tasks ?s3))" by code_simp
  from sending [OF this] 3 show 4: "ireachable 1 sample_sent" unfolding sample_sent_def by (auto intro: go2)
  have "in_tasks sample_sent = []" by code_simp
  then show "ireachable 1 sample_done" unfolding sample_done_def by (intro ireachable_inject 4) simp
qed

theorem spoof_reported_after_fake_witness:
  "fl_result (in_flows sample_done ! 0) = ''fake_data_ack_recv''
     \<and> fl_fake_sent (in_flows sample_done ! 0) \<and> length (sent_of 0 sample_done) = 1"
proof -
  have s: "0 < length (in_flows sample_done)" "fl_result (in_flows sample_done ! 0) = ''fake_data_ack_recv''"
    "\<not> in_stop sample_done" by code_simp+
  from spoof_reported_after_fake [OF sample_reachable(2) s(1,2)] s(2,3) show ?thesis by simp
qed

theorem fake_left_of_window_witness:
  "\<exists>p. in_sent sample_sent = [(0, p)] \<and> pk_payload p = [22, 3, 1]
     \<and> (uint (pk_seq p) + 3) mod 2 ^ 32 = 2"
proof -
  have s: "list_all (\<lambda>x. fst x = 0) (in_sent sample_sent) \<and> length (in_sent sample_sent) = 1"
    "fl_fake_data (in_flows sample_sent ! 0) = [22, 3, 1]" "fl_syn_seq (in_flows sample_sent ! 0) = 1"
    by code_simp+
  then obtain p where p: "in_sent sample_sent = [(0, p)]"
    by (cases "in_sent sample_sent") auto
  then have "(0, p) \<in> set (in_sent sample_sent)" by simp
  from fake_left_of_window [OF sample_reachable(1) this] s p show ?thesis by auto
qed

theorem verdict_is_final_witness:
  "fl_result (in_flows (unregister 0 sample_done) ! 0) \<in> {''fake_data_ack_recv'', ''stopped''}"
proof -
  have s: "0 < length (in_flows sample_done)" "\<not> fl_monitor (in_flows sample_done ! 0)"
    "fl_result (in_flows sample_done ! 0) = ''fake_data_ack_recv''" by code_simp+
  from verdict_is_final [OF Unregister [OF s(1)] s(1,2)] s(3) show ?thesis by simp
qed

section \<open>Anything unexpected ends the spoof\<close>

definition bare :: "bool \<Rightarrow> bool \<Rightarrow> packet \<Rightarrow> bool" where
  \<comment> \<open>an empty segment with exactly these SYN and ACK flags\<close>
  "bare syn ack p \<longleftrightarrow> pk_syn p = syn \<and> pk_ack p = ack \<and> \<not> pk_rst p \<and> \<not> pk_fin p \<and> pk_payload p = []"

definition expected_packet :: "packet \<Rightarrow> flow \<Rightarrow> bool" where
  \<comment> \<open>the packets of the exchange, by what was seen so far\<close>
  "expected_packet p f =
     (let next_in = (fl_syn_ack_seq f + 1) mod 2 ^ 32; next_out = (fl_syn_seq f + 1) mod 2 ^ 32 in
      if pk_dir p = Inbound then
        fl_syn_seq f \<noteq> -1 \<and> uint (pk_ackno p) = next_out
        \<and> (bare True True p
            \<or> bare False True p \<and> fl_fake_sent f \<and> fl_syn_ack_seq f \<noteq> -1 \<and> uint (pk_seq p) = next_in)
      else
        \<not> fl_fake_scheduled f
        \<and> (bare True False p \<and> pk_ackno p = 0
            \<or> bare False True p \<and> fl_syn_seq f \<noteq> -1 \<and> fl_syn_ack_seq f \<noteq> -1
               \<and> uint (pk_seq p) = next_out \<and> uint (pk_ackno p) = next_in))"

lemma inbound_decides:
  assumes "fl_monitor f" "pk_dir p = Inbound" "fl_result f \<noteq> ''unexpected_close''"
  shows "expected_packet p f \<longleftrightarrow> fl_result (fst (inbound p f)) \<noteq> ''unexpected_close''"
  using assms
  by (cases "pk_syn p"; cases "pk_ack p")
    (auto simp: expected_packet_def inbound_def abort_spoof_def signal_def bare_def mask32_mod Let_def)

lemma outbound_decides:
  assumes "fl_monitor f" "pk_dir p \<noteq> Inbound" "fl_result f \<noteq> ''unexpected_close''"
  shows "expected_packet p f \<longleftrightarrow> fl_result (fst (outbound p f)) \<noteq> ''unexpected_close''"
  using assms
  by (cases "pk_syn p"; cases "pk_ack p")
    (auto simp: expected_packet_def outbound_def abort_spoof_def signal_def bare_def mask32_mod Let_def)

text \<open>
  A packet of a monitored connection that is not the next one of the exchange (wrong flags,
  wrong numbers, data, or too early or too late) ends the spoof: the connection's verdict becomes
  \<open>unexpected_close\<close>, it is no longer monitored, its session is woken, nothing is submitted or sent,
  and no other connection changes. A packet of the exchange never causes that verdict.
\<close>

theorem unexpected_packet_falls_back:
  assumes "lookup_flow st p = Some i" "i < length (in_flows st)"
    and "fl_monitor (in_flows st ! i)" "fl_result (in_flows st ! i) = ''''"
  shows "if expected_packet p (in_flows st ! i)
     then fl_result (in_flows (inject p st) ! i) \<noteq> ''unexpected_close''
     else in_flows (inject p st) = (in_flows st)[i := signal ''unexpected_close'' ((in_flows st ! i)\<lparr>fl_monitor := False\<rparr>)]
       \<and> in_tasks (inject p st) = in_tasks st \<and> in_sent (inject p st) = in_sent st"
proof (cases "pk_dir p = Inbound")
  case True
  obtain g l where g: "inbound p (in_flows st ! i) = (g, l)" by (cases "inbound p (in_flows st ! i)") auto
  have "g = signal ''unexpected_close'' ((in_flows st ! i)\<lparr>fl_monitor := False\<rparr>) \<or> fl_result g \<noteq> ''unexpected_close''"
    using g assms(4) by (auto simp: inbound_def abort_spoof_def signal_def split: if_splits)
  with inbound_decides [OF assms(3) True] assms True g show ?thesis
    by (auto simp: inject_def set_flow_def add_log_def)
next
  case False
  obtain g l s where g: "outbound p (in_flows st ! i) = (g, l, s)" by (cases "outbound p (in_flows st ! i)") auto
  have "g = signal ''unexpected_close'' ((in_flows st ! i)\<lparr>fl_monitor := False\<rparr>) \<and> \<not> s \<or> fl_result g \<noteq> ''unexpected_close''"
    using g assms(4) by (auto simp: outbound_def abort_spoof_def signal_def Let_def split: if_splits)
  with outbound_decides [OF assms(3) False] assms False g show ?thesis
    by (auto simp: inject_def set_flow_def add_log_def submit_fake_def Let_def)
qed

theorem unexpected_packet_falls_back_witness:
  "fl_result (in_flows (inject (tcp_packet Inbound (fl_id sample_flow) True True 9 77)
      (register sample_flow (new_injector 1))) ! 0) = ''unexpected_close''"
proof -
  let ?st = "register sample_flow (new_injector 1)"
  let ?p = "tcp_packet Inbound (fl_id sample_flow) True True 9 77"
  have s: "lookup_flow ?st ?p = Some 0" "0 < length (in_flows ?st)" "fl_monitor (in_flows ?st ! 0)"
    "fl_result (in_flows ?st ! 0) = ''''" "\<not> expected_packet ?p (in_flows ?st ! 0)" by code_simp+
  from unexpected_packet_falls_back [OF s(1-4)] s(2,5) show ?thesis by (simp add: signal_def)
qed

end
