(* ===== verification/Failover.thy ===== *)
theory Failover
  imports Py_Json "HOL-Library.Product_Lexorder"
begin

text \<open>
  Choosing among several upstreams. Three components order their candidates and then try them in
  that order: the pattern core (\<open>_ordered_edges\<close>), the fragment proxy (\<open>_ordered_hosts\<close>) and the
  sticky router (\<open>order_for\<close>). What they owe the loop that tries is the locale \<open>failover\<close>; what the
  loop achieves is proved once from it. The first two components share their ordering,
  \<open>preferred_order\<close>; its laws are here, the interpretations are with the components.
\<close>

section \<open>The contract\<close>

locale failover =
  fixes order :: "'s \<Rightarrow> 'c list"
    and candidates :: "'s \<Rightarrow> 'c list"
    and healthy :: "'s \<Rightarrow> 'c \<Rightarrow> bool"
  assumes order_subset: "set (order s) \<subseteq> set (candidates s)"
    and healthy_tried: "c \<in> set (candidates s) \<Longrightarrow> healthy s c \<Longrightarrow> c \<in> set (order s)"
    and last_resort: "\<forall>c \<in> set (candidates s). \<not> healthy s c \<Longrightarrow> set (order s) = set (candidates s)"
    and healthy_first: "\<exists>hs us. order s = hs @ us \<and> (\<forall>c \<in> set hs. healthy s c) \<and> (\<forall>c \<in> set us. \<not> healthy s c)"
begin

text \<open>The loop: the first candidate that works.\<close>

definition walk :: "('c \<Rightarrow> bool) \<Rightarrow> 's \<Rightarrow> 'c option" where
  "walk works s = find works (order s)"

lemma order_nonempty: "candidates s \<noteq> [] \<Longrightarrow> order s \<noteq> []"
  using last_resort [of s] healthy_tried [of _ s] by fastforce

lemma walk_sound: "walk works s = Some c \<Longrightarrow> works c \<and> c \<in> set (candidates s)"
  using order_subset [of s] by (auto simp: walk_def find_Some_iff)

lemma find_append_first: "find P (xs @ ys) = (case find P xs of Some x \<Rightarrow> Some x | None \<Rightarrow> find P ys)"
  by (induction xs) auto

lemma walk_healthy:
  assumes "c \<in> set (candidates s)" "healthy s c" "works c"
  shows "\<exists>d. walk works s = Some d \<and> healthy s d \<and> works d"
proof -
  from healthy_first [of s] obtain hs us where split: "order s = hs @ us"
    "\<forall>c \<in> set hs. healthy s c" "\<forall>c \<in> set us. \<not> healthy s c" by blast
  with healthy_tried [OF assms(1,2)] assms(2) have "c \<in> set hs" by auto
  with assms(3) obtain d where d: "find works hs = Some d"
    by (metis find_None_iff not_None_eq)
  then have "walk works s = Some d" by (simp add: walk_def split(1) find_append_first)
  moreover from d have "d \<in> set hs" "works d" by (auto simp: find_Some_iff)
  ultimately show ?thesis using split(2) by blast
qed

lemma walk_none_healthy:
  assumes "\<forall>c \<in> set (candidates s). \<not> healthy s c" "c \<in> set (candidates s)" "works c"
  shows "walk works s \<noteq> None"
  using last_resort [OF assms(1)] assms(2,3) by (auto simp: walk_def find_None_iff)

end

text \<open>A contract in which an unhealthy candidate is also tried after the healthy ones.\<close>

locale exhaustive_failover = failover +
  assumes all_tried: "set (order s) = set (candidates s)"
begin

lemma walk_complete: "c \<in> set (candidates s) \<Longrightarrow> works c \<Longrightarrow> walk works s \<noteq> None"
  using all_tried [of s] by (auto simp: walk_def find_None_iff)

end

section \<open>The ordering of the pattern core and the fragment proxy\<close>

definition list_index :: "'a list \<Rightarrow> 'a \<Rightarrow> nat" where
  "list_index xs x = length (takeWhile (\<lambda>y. y \<noteq> x) xs)"

definition is_healthy :: "(string, rat) dict \<Rightarrow> rat \<Rightarrow> string \<Rightarrow> bool" where
  "is_healthy failed_until now c \<longleftrightarrow> dict_get_or failed_until c 0 \<le> now"

definition preferred_order :: "string list \<Rightarrow> (string, rat) dict \<Rightarrow> string option \<Rightarrow> rat \<Rightarrow> string list" where
  "preferred_order hosts failed_until preferred now =
     (let hs = filter (is_healthy failed_until now) hosts;
          healthy = (if hs = [] then hosts else hs)
      in sort_key (\<lambda>h. (Some h \<noteq> preferred, list_index hosts h)) healthy)"

lemma set_preferred_order:
  "set (preferred_order hosts fu p now) =
     (if \<exists>h \<in> set hosts. is_healthy fu now h then {h \<in> set hosts. is_healthy fu now h} else set hosts)"
  by (auto simp: preferred_order_def Let_def filter_empty_conv)

lemma distinct_preferred_order: "distinct hosts \<Longrightarrow> distinct (preferred_order hosts fu p now)"
  by (simp add: preferred_order_def Let_def)

lemma preferred_order_failover:
  "failover (\<lambda>(hosts, fu, p, now). preferred_order hosts fu p now) (\<lambda>(hosts, fu, p, now). hosts)
     (\<lambda>(hosts, fu, p, now). is_healthy fu now)"
proof (unfold_locales, goal_cases)
  case (1 s)
  then show ?case by (cases s) (auto simp: set_preferred_order)
next
  case (2 c s)
  then show ?case by (cases s) (auto simp: set_preferred_order)
next
  case (3 s)
  then show ?case by (cases s) (auto simp: set_preferred_order)
next
  case (4 s)
  obtain hosts fu p now where s: "s = (hosts, fu, p, now)" by (cases s)
  show ?case
  proof (cases "\<exists>h \<in> set hosts. is_healthy fu now h")
    case True
    then show ?thesis by (intro exI [of _ "preferred_order hosts fu p now"] exI [of _ "[]"])
        (simp add: s set_preferred_order)
  next
    case False
    then show ?thesis by (intro exI [of _ "[]"] exI [of _ "preferred_order hosts fu p now"])
        (simp add: s set_preferred_order)
  qed
qed

text \<open>The preferred host is tried first whenever it is tried at all.\<close>

lemma sort_key_hd:
  assumes "x \<in> set xs" "\<And>y. y \<in> set xs \<Longrightarrow> y \<noteq> x \<Longrightarrow> k x < k y"
  shows "hd (sort_key k xs) = x"
proof -
  have ne: "sort_key k xs \<noteq> []" using assms(1) by (metis set_sort empty_iff list.set(1))
  then obtain y ys where ys: "sort_key k xs = y # ys" by (cases "sort_key k xs") auto
  have "sorted (map k (y # ys))" using ys sorted_sort_key [of k xs] by simp
  then have le: "k y \<le> k z" if "z \<in> set (y # ys)" for z using that by auto
  have mem: "x \<in> set (y # ys)" "y \<in> set xs" using assms(1) ys by (metis set_sort list.set_intros(1))+
  show ?thesis using le [OF mem(1)] assms(2) [OF mem(2)] ys by (cases "y = x") auto
qed

lemma preferred_first:
  assumes "p \<in> set (preferred_order hosts fu (Some p) now)"
  shows "hd (preferred_order hosts fu (Some p) now) = p"
proof -
  define hs where "hs = (if filter (is_healthy fu now) hosts = [] then hosts else filter (is_healthy fu now) hosts)"
  have po: "preferred_order hosts fu (Some p) now
      = sort_key (\<lambda>h. (Some h \<noteq> Some p, list_index hosts h)) hs"
    by (simp add: preferred_order_def hs_def Let_def)
  show ?thesis unfolding po
    by (rule sort_key_hd) (use assms in \<open>auto simp: po less_prod_def\<close>)
qed

end
