(* ===== verification/Clean_Ip.thy ===== *)
theory Clean_Ip
  imports Py_Json "HOL-Library.Product_Lexorder"
begin

text \<open>
  \<open>clean_ip.py\<close>: IPv4 text, the edge order, the per-carrier cache of probed edges with its
  cool-downs and its size bound, the ranking, the Cloudflare sampler, the scan loop and
  \<open>find_clean_ips\<close>. Random draws, clock readings and the probes that finish in each round of the
  wait loop come from outside. Latencies and times are rationals. A cache entry is typed: a cache
  file whose entries have fields of other JSON types is not modelled, nor are file writes.
\<close>

section \<open>IPv4 text\<close>

definition ipv4_octet :: "string \<Rightarrow> nat option" where
  \<comment> \<open>\<open>ipaddress\<close>: one to three ASCII digits, no leading zero, at most 255\<close>
  "ipv4_octet s =
     (if s = [] \<or> length s > 3 \<or> \<not> list_all is_ascii_digit s \<or> (hd s = CHR ''0'' \<and> length s > 1) then None
      else case digits_val 0 False s of None \<Rightarrow> None | Some n \<Rightarrow> if n > 255 then None else Some n)"

definition ipv4_text :: "nat list \<Rightarrow> string" where
  "ipv4_text os = join ''.'' (map nat_str os)"

definition parse_ipv4 :: "string \<Rightarrow> nat list option" where
  "parse_ipv4 s = (case map ipv4_octet (split_on (CHR ''.'') s) of
     [Some a, Some b, Some c, Some d] \<Rightarrow> Some [a, b, c, d]
   | _ \<Rightarrow> None)"

definition valid_ipv4 :: "json \<Rightarrow> string" where
  "valid_ipv4 value = (case parse_ipv4 (strip (py_str (or_else value (JStr [])))) of
     None \<Rightarrow> [] | Some os \<Rightarrow> ipv4_text os)"

definition split_ips :: "json \<Rightarrow> string list" where
  "split_ips value =
     (let items = (case value of
            JArr xs \<Rightarrow> xs
          | v \<Rightarrow> map JStr (split_on (CHR '','') (replace_char (CHR '';'') '','' (py_str (or_else v (JStr []))))))
      in filter (\<lambda>ip. ip \<noteq> []) (map valid_ipv4 items))"

definition order_edges :: "json \<Rightarrow> json \<Rightarrow> json list \<Rightarrow> json \<Rightarrow> string list" where
  "order_edges gene_edges clean_edges rest session_edge =
     uniq (split_ips session_edge @ split_ips gene_edges @ split_ips clean_edges @ split_ips (JArr rest))"

section \<open>Probes and their ranking\<close>

record probe =
  pr_ip :: string
  pr_ok :: bool
  pr_latency_ms :: rat
  pr_error :: string
  pr_source :: string

definition rank_results :: "probe list \<Rightarrow> nat \<Rightarrow> probe list" where
  "rank_results results top_n = take top_n (sort_key pr_latency_ms (filter pr_ok results))"

section \<open>The cache\<close>

record cache_entry =
  ce_ok :: int
  ce_fail :: int
  ce_streak_fail :: int
  ce_last_ok :: "rat option"
  ce_cool_until :: rat
  ce_latency_ms :: rat

type_synonym bucket = "(string, cache_entry) dict"
type_synonym cache = "(string, bucket) dict"

definition FAILS_BEFORE_COOLDOWN :: int where "FAILS_BEFORE_COOLDOWN = 3"
definition COOLDOWN_SECONDS :: rat where "COOLDOWN_SECONDS = 30 * 60"
definition MAX_CACHE_PER_CARRIER :: nat where "MAX_CACHE_PER_CARRIER = 60"

definition new_entry :: cache_entry where
  "new_entry = \<lparr>ce_ok = 0, ce_fail = 0, ce_streak_fail = 0, ce_last_ok = None, ce_cool_until = 0,
     ce_latency_ms = 0\<rparr>"

definition entry_score :: "cache_entry \<Rightarrow> rat" where
  "entry_score e =
     (let total = ce_ok e + ce_fail e;
          ratio = (if total \<noteq> 0 then of_int (ce_ok e) / of_int total else 0);
          latency = (if ce_latency_ms e \<noteq> 0 then ce_latency_ms e else 5000)
      in latency * (1 + 2 * (1 - ratio)) + 300 * of_int (ce_streak_fail e))"

definition rank_entries :: "bucket \<Rightarrow> rat \<Rightarrow> bool \<Rightarrow> string list" where
  "rank_entries bucket now include_cooled =
     map snd (sort (map (\<lambda>(ip, e). (entry_score e, ip))
       (filter (\<lambda>(ip, e). include_cooled \<or> \<not> ce_cool_until e > now) bucket)))"

definition round_half_even :: "rat \<Rightarrow> int" where
  "round_half_even r =
     (let f = \<lfloor>r\<rfloor>; d = r - of_int f
      in if d < 1 / 2 then f else if d > 1 / 2 then f + 1 else if even f then f else f + 1)"

definition round1 :: "rat \<Rightarrow> rat" where
  \<comment> \<open>\<open>round(x, 1)\<close>\<close>
  "round1 r = of_int (round_half_even (r * 10)) / 10"

definition cache_key :: "string \<Rightarrow> string" where
  "cache_key carrier = lower (if carrier = [] then ''auto'' else carrier)"

definition the_bucket :: "string \<Rightarrow> cache \<Rightarrow> bucket" where
  "the_bucket carrier cache = dict_get_or cache (cache_key carrier) []"

definition note_probe :: "bool \<Rightarrow> rat \<Rightarrow> rat \<Rightarrow> cache_entry \<Rightarrow> cache_entry" where
  "note_probe ok latency now e =
     (if ok then
        e\<lparr>ce_ok := ce_ok e + 1, ce_streak_fail := 0, ce_last_ok := Some now, ce_cool_until := 0,
          ce_latency_ms := round1 (if ce_latency_ms e \<le> 0 then latency
                                   else ce_latency_ms e * 6 / 10 + latency * 4 / 10)\<rparr>
      else
        let e' = e\<lparr>ce_fail := ce_fail e + 1, ce_streak_fail := ce_streak_fail e + 1\<rparr>
        in if ce_streak_fail e' \<ge> FAILS_BEFORE_COOLDOWN then e'\<lparr>ce_cool_until := now + COOLDOWN_SECONDS\<rparr> else e')"

definition trim_bucket :: "rat \<Rightarrow> bucket \<Rightarrow> bucket" where
  "trim_bucket now bucket =
     (if length bucket > MAX_CACHE_PER_CARRIER then
        let keep = take MAX_CACHE_PER_CARRIER (rank_entries bucket now True)
        in filter (\<lambda>(ip, e). ip \<in> set keep) bucket
      else bucket)"

definition record_probe :: "string \<Rightarrow> string \<Rightarrow> bool \<Rightarrow> rat \<Rightarrow> rat \<Rightarrow> cache \<Rightarrow> cache" where
  "record_probe carrier ip0 ok latency now cache =
     (let ip = valid_ipv4 (JStr ip0) in
      if ip = [] then cache
      else let bucket = the_bucket carrier cache;
               entry = note_probe ok latency now (dict_get_or bucket ip new_entry)
           in dict_set (cache_key carrier) (trim_bucket now (dict_set ip entry bucket)) cache)"

definition good_ips :: "string \<Rightarrow> rat \<Rightarrow> nat \<Rightarrow> cache \<Rightarrow> string list" where
  "good_ips carrier now limit cache =
     take limit (rank_entries (filter (\<lambda>(ip, e). ce_ok e > 0) (the_bucket carrier cache)) now False)"

definition is_cooled :: "string \<Rightarrow> string \<Rightarrow> rat \<Rightarrow> cache \<Rightarrow> bool" where
  "is_cooled carrier ip now cache =
     (case dict_get (the_bucket carrier cache) ip of None \<Rightarrow> False | Some e \<Rightarrow> ce_cool_until e > now)"

section \<open>Sampling\<close>

definition CLOUDFLARE_RANGES :: "(nat list \<times> int) list" where
  \<comment> \<open>network address and number of addresses\<close>
  "CLOUDFLARE_RANGES =
     [([104, 16, 0, 0], 2 ^ 19), ([104, 24, 0, 0], 2 ^ 18), ([172, 64, 0, 0], 2 ^ 19), ([162, 159, 0, 0], 2 ^ 16),
      ([188, 114, 96, 0], 2 ^ 12), ([141, 101, 64, 0], 2 ^ 14), ([108, 162, 192, 0], 2 ^ 14), ([190, 93, 240, 0], 2 ^ 12),
      ([198, 41, 128, 0], 2 ^ 15), ([173, 245, 48, 0], 2 ^ 12), ([103, 21, 244, 0], 2 ^ 10), ([103, 22, 200, 0], 2 ^ 10),
      ([103, 31, 4, 0], 2 ^ 10), ([197, 234, 240, 0], 2 ^ 10), ([131, 0, 72, 0], 2 ^ 10)]"

definition ipv4_num :: "nat list \<Rightarrow> int" where
  "ipv4_num os = foldl (\<lambda>n x. n * 256 + int x) 0 os"

definition ipv4_octets :: "int \<Rightarrow> nat list" where
  "ipv4_octets n = map nat [n div 16777216 mod 256, n div 65536 mod 256, n div 256 mod 256, n mod 256]"

definition draw_host :: "nat \<times> int \<Rightarrow> nat list" where
  \<comment> \<open>the address \<open>off\<close> places into the range drawn\<close>
  "draw_host d = (case d of (k, off) \<Rightarrow> ipv4_octets (ipv4_num (fst (CLOUDFLARE_RANGES ! k)) + off))"

fun sample_loop :: "(nat \<Rightarrow> nat \<times> int) \<Rightarrow> nat \<Rightarrow> string list \<Rightarrow> nat \<Rightarrow> nat \<Rightarrow> string list \<Rightarrow> string list" where
  \<comment> \<open>\<open>fuel\<close> is what is left of \<open>wanted * 20\<close> rounds\<close>
  "sample_loop draws wanted skip guard 0 out = out"
| "sample_loop draws wanted skip guard (Suc fuel) out =
     (if length out < wanted then
        let ip = ipv4_text (draw_host (draws guard)) in
        if endswith ip ''.0'' \<or> endswith ip ''.255'' \<or> ip \<in> set skip \<or> ip \<in> set out
        then sample_loop draws wanted skip (Suc guard) fuel out
        else sample_loop draws wanted skip (Suc guard) fuel (out @ [ip])
      else out)"

definition sample_cloudflare :: "(nat \<Rightarrow> nat \<times> int) \<Rightarrow> nat \<Rightarrow> string list \<Rightarrow> string list" where
  "sample_cloudflare draws wanted exclude = sample_loop draws wanted exclude 0 (wanted * 20) []"

section \<open>Scanning\<close>

text \<open>One round of the wait loop: the time spent before it, whether \<open>cancel\<close> was set, the probes
  that finished in it (\<open>None\<close>: the future raised) and the time spent after it.\<close>

record scan_round =
  sr_before :: rat
  sr_cancel :: bool
  sr_done :: "probe option list"
  sr_after :: rat

fun scan_loop :: "rat \<Rightarrow> string \<Rightarrow> (rat \<Rightarrow> probe list \<Rightarrow> bool) \<Rightarrow> nat \<Rightarrow> scan_round list \<Rightarrow> probe list \<Rightarrow> probe list" where
  "scan_loop deadline source stop_when pending [] results = results"
| "scan_loop deadline source stop_when pending (r # rs) results =
     (if pending = 0 \<or> sr_cancel r \<or> deadline - sr_before r \<le> 0 then results
      else let results' = results @ map (\<lambda>p. p\<lparr>pr_source := source\<rparr>) (concat (map (\<lambda>x. case x of None \<Rightarrow> [] | Some p \<Rightarrow> [p]) (sr_done r)))
           in if stop_when (sr_after r) results' then results'
              else scan_loop deadline source stop_when (pending - length (sr_done r)) rs results')"

definition scan :: "string list \<Rightarrow> rat \<Rightarrow> string \<Rightarrow> (rat \<Rightarrow> probe list \<Rightarrow> bool) \<Rightarrow> scan_round list \<Rightarrow> probe list" where
  "scan ips deadline source stop_when rounds = scan_loop deadline source stop_when (length ips) rounds []"

definition early_stop :: "nat \<Rightarrow> rat \<Rightarrow> rat \<Rightarrow> probe list \<Rightarrow> bool" where
  "early_stop want early_after elapsed results =
     (let good = length (filter pr_ok results) in good \<ge> want \<or> (good \<ge> 1 \<and> elapsed \<ge> early_after))"

record scan_env =
  se_now :: rat
  se_now_cached :: rat \<comment> \<open>when the results of the cached edges are recorded\<close>
  se_now_scanned :: rat
  se_cache_rounds :: "scan_round list"
  se_elapsed :: rat \<comment> \<open>when the cached edges are done\<close>
  se_cancelled :: bool
  se_draws :: "nat \<Rightarrow> nat \<times> int"
  se_rounds :: "scan_round list"

definition record_all :: "string \<Rightarrow> rat \<Rightarrow> probe list \<Rightarrow> cache \<Rightarrow> cache" where
  "record_all carrier now ps cache =
     fold (\<lambda>r. record_probe carrier (pr_ip r) (pr_ok r) (pr_latency_ms r) now) ps cache"

definition find_clean_ips :: "scan_env \<Rightarrow> string \<Rightarrow> json list \<Rightarrow> nat \<Rightarrow> rat \<Rightarrow> nat \<Rightarrow> cache \<Rightarrow> probe list \<times> cache" where
  "find_clean_ips env carrier seeds sample budget top_n cache =
     (let now = se_now env;
          cached = good_ips carrier now 8 cache;
          res1 = (if cached = [] then []
                  else scan cached (min (5 / 2) budget) ''cache'' (early_stop top_n 1) (se_cache_rounds env));
          cache1 = record_all carrier (se_now_cached env) res1 cache;
          good = rank_results res1 top_n;
          remaining = budget - se_elapsed env
      in if cached \<noteq> [] \<and> good \<noteq> [] then (good, cache1)
         else if remaining \<le> 3 / 10 \<or> se_cancelled env then ([], cache1)
         else
           let seed_ips = filter (\<lambda>ip. \<not> is_cooled carrier ip now cache1) (split_ips (JArr seeds));
               pool0 = uniq (seed_ips @ sample_cloudflare (se_draws env) sample (cached @ seed_ips));
               pool = filter (\<lambda>ip. \<not> is_cooled carrier ip now cache1) pool0;
               res = (if pool = [] then []
                      else scan pool remaining ''scan'' (early_stop top_n (3 / 2)) (se_rounds env));
               kept = filter (\<lambda>r. pr_ok r \<or> pr_ip r \<in> set seed_ips \<or> pr_ip r \<in> set cached) res
           in (rank_results res top_n, record_all carrier (se_now_scanned env) kept cache1))"

text \<open>One round of the background refresh while connected, which leaves the active edges alone.\<close>

definition refresh_round :: "string \<Rightarrow> string list \<Rightarrow> rat \<Rightarrow> rat \<Rightarrow> (nat \<Rightarrow> nat \<times> int) \<Rightarrow> nat \<Rightarrow> scan_round list
    \<Rightarrow> cache \<Rightarrow> probe list \<times> cache" where
  "refresh_round carrier active now now_recorded draws sample rounds cache =
     (let cached = filter (\<lambda>ip. ip \<notin> set active) (good_ips carrier now 6 cache);
          ips = cached @ sample_cloudflare draws sample (cached @ active);
          res = (if ips = [] then [] else scan ips 6 ''refresh'' (\<lambda>_ _. False) rounds)
      in (res, record_all carrier now_recorded (filter (\<lambda>r. pr_ok r \<or> pr_ip r \<in> set cached) res) cache))"

section \<open>IPv4 text is stable\<close>

lemma ipv4_octet_nat_str:
  assumes "n \<le> 255" shows "ipv4_octet (nat_str n) = Some n"
proof (cases "n = 0")
  case True
  then show ?thesis by (simp add: nat_str_zero ipv4_octet_def is_ascii_digit_def digit_val_def)
next
  case False
  moreover have "length (nat_str n) \<le> 3" using assms by (intro length_nat_str) simp_all
  ultimately show ?thesis using assms by (simp add: ipv4_octet_def nat_str_digits hd_nat_str)
qed

lemma ipv4_octet_Some: "ipv4_octet s = Some n \<Longrightarrow> n \<le> 255"
  by (auto simp: ipv4_octet_def split: if_splits option.splits)

lemma no_dot_nat_str: "CHR ''.'' \<notin> set (nat_str n)"
  using nat_str_digits [of n] digit_not(4) by (auto simp: list_all_iff)

definition octets_ok :: "nat list \<Rightarrow> bool" where
  "octets_ok os \<longleftrightarrow> length os = 4 \<and> (\<forall>n \<in> set os. n \<le> 255)"

lemma parse_ipv4_Some: "parse_ipv4 s = Some os \<Longrightarrow> octets_ok os"
proof -
  assume p: "parse_ipv4 s = Some os"
  obtain a b c d where l: "map ipv4_octet (split_on (CHR ''.'') s) = [Some a, Some b, Some c, Some d]"
    and os: "os = [a, b, c, d]"
    using p by (auto simp: parse_ipv4_def split: list.splits option.splits)
  have "x \<le> 255" if "Some x \<in> set (map ipv4_octet (split_on (CHR ''.'') s))" for x
    using that ipv4_octet_Some by (metis (no_types, lifting) ex_map_conv)
  then show ?thesis using l os by (simp add: octets_ok_def)
qed

lemma octets_ok_cases:
  assumes "octets_ok os"
  obtains a b c d where "os = [a, b, c, d]" "a \<le> 255" "b \<le> 255" "c \<le> 255" "d \<le> 255"
  using assms by (auto simp: octets_ok_def length_Suc_conv eval_nat_numeral)

lemma split_ipv4_text:
  assumes "octets_ok os"
  shows "split_on (CHR ''.'') (ipv4_text os) = map nat_str os"
  unfolding ipv4_text_def
  by (rule split_on_join) (use assms no_dot_nat_str in \<open>auto simp: octets_ok_def\<close>)

lemma parse_ipv4_text:
  assumes "octets_ok os" shows "parse_ipv4 (ipv4_text os) = Some os"
  using assms
  by (rule octets_ok_cases) (use split_ipv4_text [OF assms] in \<open>simp add: parse_ipv4_def ipv4_octet_nat_str\<close>)

lemma ipv4_text_props:
  assumes "octets_ok os"
  shows "ipv4_text os \<noteq> []" "stripped (ipv4_text os)"
    "CHR '','' \<notin> set (ipv4_text os)" "CHR '';'' \<notin> set (ipv4_text os)"
proof -
  obtain a b c d where os: "os = [a, b, c, d]" using assms by (rule octets_ok_cases)
  have t: "ipv4_text os = nat_str a @ ''.'' @ nat_str b @ ''.'' @ nat_str c @ ''.'' @ nat_str d"
    by (simp add: ipv4_text_def os)
  show ne: "ipv4_text os \<noteq> []" by (simp add: t)
  have ch: "is_ascii_digit x \<or> x = CHR ''.''" if "x \<in> set (ipv4_text os)" for x
    using that nat_str_digits [of a] nat_str_digits [of b] nat_str_digits [of c] nat_str_digits [of d]
    by (auto simp: t list_all_iff)
  moreover have "\<not> is_space (CHR ''.'')" by (simp add: is_space_def)
  ultimately have "\<not> is_space x" if "x \<in> set (ipv4_text os)" for x
    using that digit_not(1) [of x] by metis
  then show "stripped (ipv4_text os)" using ne by (simp add: stripped_def)
  have "\<not> is_ascii_digit (CHR '','')" "\<not> is_ascii_digit (CHR '';'')" by (simp_all add: is_ascii_digit_def)
  with ch show "CHR '','' \<notin> set (ipv4_text os)" "CHR '';'' \<notin> set (ipv4_text os)" by blast+
qed

definition is_ipv4 :: "string \<Rightarrow> bool" where
  \<comment> \<open>dotted text in the form the program keeps\<close>
  "is_ipv4 s \<longleftrightarrow> (case parse_ipv4 s of None \<Rightarrow> False | Some os \<Rightarrow> ipv4_text os = s)"

lemma is_ipv4_text: "octets_ok os \<Longrightarrow> is_ipv4 (ipv4_text os)"
  by (simp add: is_ipv4_def parse_ipv4_text)

lemma is_ipv4E:
  assumes "is_ipv4 s" obtains os where "octets_ok os" "s = ipv4_text os"
  using assms parse_ipv4_Some by (auto simp: is_ipv4_def split: option.splits)

lemma valid_ipv4_cases: "valid_ipv4 v = [] \<or> is_ipv4 (valid_ipv4 v)"
  by (auto simp: valid_ipv4_def is_ipv4_text parse_ipv4_Some split: option.split)

lemma valid_ipv4_id: "is_ipv4 s \<Longrightarrow> valid_ipv4 (JStr s) = s"
proof (erule is_ipv4E)
  fix os assume "octets_ok os" "s = ipv4_text os"
  then show ?thesis
    by (simp add: valid_ipv4_def or_else_def ipv4_text_props strip_stripped parse_ipv4_text)
qed

lemma is_ipv4_neq [simp]: "\<not> is_ipv4 []"
proof
  assume "is_ipv4 []"
  then show False by (rule is_ipv4E) (metis ipv4_text_props(1))
qed

lemma split_ips_ipv4: "ip \<in> set (split_ips v) \<Longrightarrow> is_ipv4 ip"
  using valid_ipv4_cases by (auto simp: split_ips_def Let_def)

lemma order_edges_props:
  "distinct (order_edges g c r s)" "ip \<in> set (order_edges g c r s) \<Longrightarrow> is_ipv4 ip"
  by (auto simp: order_edges_def dest: split_ips_ipv4)

text \<open>A list the program joined with commas is read back as it was.\<close>

lemma split_ips_join:
  assumes "\<forall>ip \<in> set ips. is_ipv4 ip" "ips \<noteq> []"
  shows "split_ips (JStr (join '','' ips)) = ips"
proof -
  have no: "CHR '','' \<notin> set ip \<and> CHR '';'' \<notin> set ip \<and> ip \<noteq> []" if "ip \<in> set ips" for ip
  proof -
    from assms(1) that have "is_ipv4 ip" by blast
    then show ?thesis by (rule is_ipv4E) (simp add: ipv4_text_props)
  qed
  have "CHR '';'' \<notin> set (join '','' ips)"
    using no by (induction "'',''" ips rule: join.induct) auto
  then have rep: "replace_char (CHR '';'') '','' (join '','' ips) = join '','' ips" by (rule replace_char_id)
  have "join '','' ips \<noteq> []" using no assms(2) by (cases "('','', ips)" rule: join.cases) auto
  then have "split_ips (JStr (join '','' ips)) = filter (\<lambda>ip. ip \<noteq> []) (map valid_ipv4 (map JStr ips))"
    using no assms(2) by (simp add: split_ips_def or_else_def rep split_on_join)
  also have "map valid_ipv4 (map JStr ips) = ips"
    using assms(1) valid_ipv4_id by (induction ips) auto
  also have "filter (\<lambda>ip. ip \<noteq> []) ips = ips" using no by (simp add: filter_id_conv)
  finally show ?thesis .
qed

section \<open>The cache\<close>

lemma mset_rank_entries:
  "mset (rank_entries b now c) = mset (map fst (filter (\<lambda>(ip, e). c \<or> \<not> ce_cool_until e > now) b))"
proof -
  have "mset (rank_entries b now c)
      = image_mset snd (mset (map (\<lambda>(ip, e). (entry_score e, ip)) (filter (\<lambda>(ip, e). c \<or> \<not> ce_cool_until e > now) b)))"
    by (simp add: rank_entries_def)
  also have "\<dots> = mset (map snd (map (\<lambda>(ip, e). (entry_score e, ip)) (filter (\<lambda>(ip, e). c \<or> \<not> ce_cool_until e > now) b)))"
    by (simp only: mset_map)
  also have "map snd (map (\<lambda>(ip, e). (entry_score e, ip)) xs) = map fst xs" for xs :: bucket
    by (induction xs) auto
  finally show ?thesis .
qed

lemma set_rank_entries: "set (rank_entries b now c) = fst ` {x \<in> set b. c \<or> \<not> ce_cool_until (snd x) > now}"
  using arg_cong [OF mset_rank_entries [of b now c], of set_mset] by (auto simp: case_prod_beta)

lemma distinct_rank_entries: "dict_ok b \<Longrightarrow> distinct (rank_entries b now c)"
  by (rule mset_eq_imp_distinct_iff [THEN iffD2, OF mset_rank_entries])
    (simp add: dict_ok_def distinct_map_filter)

lemma dict_ok_filter: "dict_ok d \<Longrightarrow> dict_ok (filter P d)"
  by (simp add: dict_ok_def distinct_map_filter)

lemma length_trim_bucket:
  assumes "dict_ok b"
  shows "length (trim_bucket now b) \<le> MAX_CACHE_PER_CARRIER"
proof (cases "length b > MAX_CACHE_PER_CARRIER")
  case True
  let ?keep = "take MAX_CACHE_PER_CARRIER (rank_entries b now True)"
  let ?b = "filter (\<lambda>(ip, e). ip \<in> set ?keep) b"
  have "distinct (map fst ?b)" using assms dict_ok_filter by (auto simp: dict_ok_def)
  then have "length ?b = card (set (map fst ?b))" by (metis distinct_card length_map)
  also have "\<dots> \<le> card (set ?keep)" by (rule card_mono) auto
  also have "\<dots> \<le> MAX_CACHE_PER_CARRIER" using card_length [of ?keep] by simp
  finally show ?thesis using True by (simp add: trim_bucket_def Let_def)
qed (simp add: trim_bucket_def)

lemma length_dict_set_if:
  "length (dict_set k v d) = (if k \<in> fst ` set d then length d else Suc (length d))"
  by (induction k v d rule: dict_set.induct) auto

definition cache_inv :: "cache \<Rightarrow> bool" where
  "cache_inv c \<longleftrightarrow> (\<forall>carrier. dict_ok (the_bucket carrier c)
     \<and> length (the_bucket carrier c) \<le> MAX_CACHE_PER_CARRIER
     \<and> (\<forall>x \<in> set (the_bucket carrier c). is_ipv4 (fst x)))"

lemma the_bucket_set: "the_bucket carrier (dict_set (cache_key other) b cache)
    = (if cache_key carrier = cache_key other then b else the_bucket carrier cache)"
  by (simp add: the_bucket_def)

lemma record_probe_inv:
  assumes "cache_inv c" shows "cache_inv (record_probe carrier ip ok lat now c)"
proof (cases "valid_ipv4 (JStr ip) = []")
  case True
  with assms show ?thesis by (simp add: record_probe_def)
next
  case False
  define v where "v = valid_ipv4 (JStr ip)"
  with False have v: "v \<noteq> []" "is_ipv4 v" using valid_ipv4_cases by auto
  let ?e = "note_probe ok lat now (dict_get_or (the_bucket carrier c) v new_entry)"
  let ?b = "dict_set v ?e (the_bucket carrier c)"
  have ok: "dict_ok ?b" using assms by (simp add: cache_inv_def dict.inv_put)
  have "\<forall>x \<in> set ?b. is_ipv4 (fst x)"
  proof
    fix x assume "x \<in> set ?b"
    then have "fst x \<in> insert v (fst ` set (the_bucket carrier c))" using keys_dict_set [of v ?e] by blast
    then consider "fst x = v" | y where "y \<in> set (the_bucket carrier c)" "fst x = fst y" by auto
    then show "is_ipv4 (fst x)" using assms v(2) by cases (simp_all add: cache_inv_def)
  qed
  then have "dict_ok (trim_bucket now ?b) \<and> length (trim_bucket now ?b) \<le> MAX_CACHE_PER_CARRIER
      \<and> (\<forall>x \<in> set (trim_bucket now ?b). is_ipv4 (fst x))"
    using ok length_trim_bucket [OF ok] by (auto simp: trim_bucket_def Let_def dict_ok_filter)
  with assms v show ?thesis
    by (simp add: record_probe_def cache_inv_def the_bucket_set v_def [symmetric] Let_def)
qed

lemma record_all_inv: "cache_inv c \<Longrightarrow> cache_inv (record_all carrier now ps c)"
  unfolding record_all_def by (induction ps arbitrary: c) (auto intro: record_probe_inv)

lemma find_clean_ips_inv: "cache_inv c \<Longrightarrow> cache_inv (snd (find_clean_ips env carrier seeds n budget k c))"
  by (simp add: find_clean_ips_def Let_def record_all_inv)

text \<open>Which entries an eviction keeps: the best scores.\<close>

lemma rank_sorted: "sorted (map fst (sort (map (\<lambda>(ip, e). (entry_score e, ip)) b)))"
proof -
  let ?l = "sort (map (\<lambda>(ip, e). (entry_score e, ip)) b)"
  have "sorted ?l" by simp
  then show ?thesis unfolding sorted_map
    by (rule sorted_wrt_mono_rel [rotated]) (auto simp: less_eq_prod_def)
qed

lemma trim_keeps_best:
  assumes "dict_ok b" "x \<in> set (trim_bucket now b)" "y \<in> set b" "y \<notin> set (trim_bucket now b)"
  shows "entry_score (snd x) \<le> entry_score (snd y)"
proof -
  let ?l = "sort (map (\<lambda>(ip, e). (entry_score e, ip)) b)" and ?m = MAX_CACHE_PER_CARRIER
  have big: "length b > ?m" using assms(3,4) by (cases "length b > ?m") (simp_all add: trim_bucket_def)
  have rank: "rank_entries b now True = map snd ?l" by (simp add: rank_entries_def case_prod_beta)
  have t: "trim_bucket now b = filter (\<lambda>(ip, e). ip \<in> set (take ?m (map snd ?l))) b"
    using big by (simp add: trim_bucket_def rank)
  have uniq_key: "u = w" if "u \<in> set b" "w \<in> set b" "fst u = fst w" for u w
    using assms(1) that by (metis dict_ok_def eq_key_imp_eq_value prod.collapse)
  have mem: "(s, ip) \<in> set ?l \<Longrightarrow> \<exists>e. (ip, e) \<in> set b \<and> s = entry_score e" for s ip by auto
  from assms(2) t have x: "x \<in> set b" "fst x \<in> set (take ?m (map snd ?l))" by auto
  then obtain i where i: "i < ?m" "i < length ?l" "snd (?l ! i) = fst x"
    by (auto simp: in_set_conv_nth take_map)
  have "(entry_score (snd y), fst y) \<in> set ?l" using assms(3) by (force simp: image_iff split: prod.split)
  then obtain j where j: "j < length ?l" "?l ! j = (entry_score (snd y), fst y)" by (metis in_set_conv_nth)
  have "\<not> j < ?m"
  proof
    assume "j < ?m"
    then have "?l ! j \<in> set (take ?m ?l)" using j(1) by (metis in_set_conv_nth length_take min_less_iff_conj nth_take)
    then have "fst y \<in> set (take ?m (map snd ?l))" using j(2) by (force simp: take_map)
    with assms(3,4) t show False by auto
  qed
  with i have "i \<le> j" by simp
  then have le: "fst (?l ! i) \<le> fst (?l ! j)"
    using rank_sorted [of b] j(1) by (simp add: sorted_iff_nth_mono)
  have "?l ! i \<in> set ?l" using i(2) by (rule nth_mem)
  with mem [of "fst (?l ! i)" "snd (?l ! i)"] obtain e where e: "(fst x, e) \<in> set b" "fst (?l ! i) = entry_score e"
    using i by auto
  have "x = (fst x, e)" using uniq_key [OF x(1) e(1)] by simp
  then have "snd x = e" by (metis snd_conv)
  with le j e show ?thesis by simp
qed

section \<open>Properties\<close>

text \<open>
  Whatever probes are recorded, in any order, for any carriers and with any text as address,
  the cache keeps at most 60 edges per carrier, each once and each under a well-formed IPv4
  address; \<open>find_clean_ips\<close> keeps that too.
\<close>

theorem cache_always_bounded:
  "cache_inv (snd (find_clean_ips env carrier seeds n budget k
     (fold (\<lambda>(cr, ip, ok, lat, now). record_probe cr ip ok lat now) ps [])))"
proof -
  have "cache_inv (fold (\<lambda>(cr, ip, ok, lat, now). record_probe cr ip ok lat now) ps c)" if "cache_inv c" for c
    using that by (induction ps arbitrary: c) (auto intro: record_probe_inv)
  moreover have "cache_inv []" by (simp add: cache_inv_def the_bucket_def dict_get_or_def dict_ok_def)
  ultimately show ?thesis by (intro find_clean_ips_inv) blast
qed

lemma the_bucket_record_trim:
  assumes "valid_ipv4 (JStr ip) \<noteq> []"
  shows "the_bucket carrier (record_probe carrier ip ok lat now c)
    = trim_bucket now (dict_set (valid_ipv4 (JStr ip)) (note_probe ok lat now (dict_get_or (the_bucket carrier c)
           (valid_ipv4 (JStr ip)) new_entry)) (the_bucket carrier c))"
  using assms by (simp add: record_probe_def Let_def the_bucket_set)

text \<open>
  C16: An eviction never drops a better edge for a worse one: every edge that stays scores at
  least as well (a lower score is better) as every edge that goes.
\<close>

theorem eviction_keeps_best:
  assumes "cache_inv c" "valid_ipv4 (JStr ip) \<noteq> []"
    and "b = dict_set (valid_ipv4 (JStr ip)) (note_probe ok lat now (dict_get_or (the_bucket carrier c)
           (valid_ipv4 (JStr ip)) new_entry)) (the_bucket carrier c)"
    and "x \<in> set (the_bucket carrier (record_probe carrier ip ok lat now c))"
    and "y \<in> set b" "y \<notin> set (the_bucket carrier (record_probe carrier ip ok lat now c))"
  shows "entry_score (snd x) \<le> entry_score (snd y)"
proof (rule trim_keeps_best [of b x now])
  show "dict_ok b" using assms(1) by (simp add: assms(3) cache_inv_def dict.inv_put)
  have "the_bucket carrier (record_probe carrier ip ok lat now c) = trim_bucket now b"
    using the_bucket_record_trim [OF assms(2)] by (simp add: assms(3))
  then show "x \<in> set (trim_bucket now b)" "y \<in> set b" "y \<notin> set (trim_bucket now b)" using assms(4-6) by simp_all
qed

lemma the_bucket_record:
  assumes "valid_ipv4 (JStr ip) = ip" "ip \<noteq> []" "dict_ok (the_bucket carrier c)"
    and "length (the_bucket carrier c) < MAX_CACHE_PER_CARRIER \<or> ip \<in> fst ` set (the_bucket carrier c)
         \<and> length (the_bucket carrier c) \<le> MAX_CACHE_PER_CARRIER"
  shows "the_bucket carrier (record_probe carrier ip ok lat now c)
     = dict_set ip (note_probe ok lat now (dict_get_or (the_bucket carrier c) ip new_entry)) (the_bucket carrier c)"
  using assms by (auto simp: record_probe_def Let_def the_bucket_set trim_bucket_def length_dict_set_if)

lemma not_cooled_good: "ip \<in> set (good_ips carrier now k c) \<Longrightarrow> dict_ok (the_bucket carrier c) \<Longrightarrow>
   \<not> is_cooled carrier ip now c"
proof -
  assume g: "ip \<in> set (good_ips carrier now k c)" and ok: "dict_ok (the_bucket carrier c)"
  then obtain e where "(ip, e) \<in> set (the_bucket carrier c)" "\<not> ce_cool_until e > now"
    by (auto simp: good_ips_def set_rank_entries dest!: in_set_takeD)
  then show ?thesis using ok by (simp add: is_cooled_def dict_get_def dict_ok_def)
qed

lemma note_failures:
  "0 \<le> ce_streak_fail e \<Longrightarrow>
   ce_cool_until (note_probe False l3 t3 (note_probe False l2 t2 (note_probe False l1 t1 e))) = t3 + 1800"
  by (simp add: note_probe_def FAILS_BEFORE_COOLDOWN_def COOLDOWN_SECONDS_def Let_def)

text \<open>
  The cool-down: when a known or new edge of a bucket with room fails three times in a row
  it is not offered again until 30 minutes after the third failure, and the first success after
  that clears the cool-down at once.
\<close>

theorem cooldown_after_three_failures:
  assumes inv: "cache_inv c" and ip: "is_ipv4 ip"
    and room: "length (the_bucket carrier c) < MAX_CACHE_PER_CARRIER"
    and known: "case dict_get (the_bucket carrier c) ip of None \<Rightarrow> True | Some e \<Rightarrow> 0 \<le> ce_streak_fail e"
    and now: "0 \<le> t"
  shows "let c3 = record_probe carrier ip False l3 t3 (record_probe carrier ip False l2 t2
           (record_probe carrier ip False l1 t1 c))
     in (t < t3 + 1800 \<longrightarrow> is_cooled carrier ip t c3 \<and> ip \<notin> set (good_ips carrier t k c3))
        \<and> (t3 + 1800 \<le> t \<longrightarrow> \<not> is_cooled carrier ip t c3)
        \<and> \<not> is_cooled carrier ip t (record_probe carrier ip True l4 t4 c3)"
proof -
  have v: "valid_ipv4 (JStr ip) = ip" "ip \<noteq> []" using valid_ipv4_id [OF ip] ip by auto
  define upd where "upd = (\<lambda>ok l t' b. dict_set ip (note_probe ok l t' (dict_get_or b ip new_entry)) b)"
  have fit: "length b < MAX_CACHE_PER_CARRIER \<or> ip \<in> fst ` set b \<and> length b \<le> MAX_CACHE_PER_CARRIER \<Longrightarrow>
      ip \<in> fst ` set (upd ok l t' b) \<and> length (upd ok l t' b) \<le> MAX_CACHE_PER_CARRIER" for ok l t' b
    by (auto simp: upd_def keys_dict_set length_dict_set_if)
  have step: "the_bucket carrier (record_probe carrier ip ok l t' d) = upd ok l t' (the_bucket carrier d)
      \<and> (ip \<in> fst ` set (the_bucket carrier (record_probe carrier ip ok l t' d))
         \<and> length (the_bucket carrier (record_probe carrier ip ok l t' d)) \<le> MAX_CACHE_PER_CARRIER)
      \<and> cache_inv (record_probe carrier ip ok l t' d)"
    if "cache_inv d" "length (the_bucket carrier d) < MAX_CACHE_PER_CARRIER
      \<or> ip \<in> fst ` set (the_bucket carrier d) \<and> length (the_bucket carrier d) \<le> MAX_CACHE_PER_CARRIER" for ok l t' d
    using the_bucket_record [OF v, where ?c = d] that fit [OF that(2)] record_probe_inv [OF that(1)]
    by (simp add: upd_def cache_inv_def)
  define c1 c2 c3 c4 where "c1 = record_probe carrier ip False l1 t1 c" and "c2 = record_probe carrier ip False l2 t2 c1"
    and "c3 = record_probe carrier ip False l3 t3 c2" and "c4 = record_probe carrier ip True l4 t4 c3"
  note s1 = step [OF inv disjI1 [OF room], of False l1 t1, folded c1_def]
  note s2 = step [OF s1 [THEN conjunct2, THEN conjunct2] disjI2 [OF s1 [THEN conjunct2, THEN conjunct1]],
      of False l2 t2, folded c2_def]
  note s3 = step [OF s2 [THEN conjunct2, THEN conjunct2] disjI2 [OF s2 [THEN conjunct2, THEN conjunct1]],
      of False l3 t3, folded c3_def]
  note s4 = step [OF s3 [THEN conjunct2, THEN conjunct2] disjI2 [OF s3 [THEN conjunct2, THEN conjunct1]],
      of True l4 t4, folded c4_def]
  let ?e0 = "dict_get_or (the_bucket carrier c) ip new_entry"
  have pos: "0 \<le> ce_streak_fail ?e0"
    using known by (auto simp: dict_get_or_def new_entry_def split: option.splits)
  have b3: "dict_get (the_bucket carrier c3) ip
      = Some (note_probe False l3 t3 (note_probe False l2 t2 (note_probe False l1 t1 ?e0)))"
    and b4: "dict_get (the_bucket carrier c4) ip = Some (note_probe True l4 t4 (dict_get_or (the_bucket carrier c3) ip new_entry))"
    and inv3: "cache_inv c3"
    using s1 s2 s3 s4 by (simp_all add: upd_def)
  have cool: "is_cooled carrier ip t c3 \<longleftrightarrow> t < t3 + 1800"
    using pos by (simp add: is_cooled_def b3 note_failures)
  moreover have "\<not> is_cooled carrier ip t c4"
    using now by (simp add: is_cooled_def b4 note_probe_def)
  moreover have "is_cooled carrier ip t c3 \<longrightarrow> ip \<notin> set (good_ips carrier t k c3)"
    using not_cooled_good inv3 by (auto simp: cache_inv_def)
  ultimately show ?thesis unfolding Let_def c4_def c3_def c2_def c1_def by auto
qed

text \<open>
  What \<open>find_clean_ips\<close> offers: at most as many edges as asked for, all of them proved by a
  handshake in this search, the fastest first.
\<close>

theorem find_clean_ips_offers:
  "let rs = fst (find_clean_ips env carrier seeds n budget k c) in
     length rs \<le> k \<and> list_all pr_ok rs \<and> sorted (map pr_latency_ms rs)"
proof -
  have "length (rank_results ps k) \<le> k \<and> list_all pr_ok (rank_results ps k)
      \<and> sorted (map pr_latency_ms (rank_results ps k))" for ps
    unfolding rank_results_def
    by (auto simp: list_all_iff sorted_wrt_take simp flip: take_map dest: in_set_takeD)
  then show ?thesis by (simp add: find_clean_ips_def Let_def)
qed

text \<open>
  The sampler returns different addresses, none of them excluded, none ending in \<open>.0\<close> or
  \<open>.255\<close>, and no more than asked for, whatever is drawn.
\<close>

theorem sample_cloudflare_valid:
  "let out = sample_cloudflare draws n exclude in distinct out \<and> length out \<le> n
     \<and> list_all (\<lambda>ip. ip \<notin> set exclude \<and> \<not> endswith ip ''.0'' \<and> \<not> endswith ip ''.255'') out"
proof -
  let ?P = "\<lambda>out. distinct out \<and> length out \<le> n
     \<and> (\<forall>ip \<in> set out. ip \<notin> set exclude \<and> \<not> endswith ip ''.0'' \<and> \<not> endswith ip ''.255'')"
  have *: "?P out \<Longrightarrow> ?P (sample_loop draws n exclude guard fuel out)" for guard fuel out
  proof (induction fuel arbitrary: guard out)
    case (Suc fuel)
    let ?ip = "ipv4_text (draw_host (draws guard))"
    let ?bad = "endswith ?ip ''.0'' \<or> endswith ?ip ''.255'' \<or> ?ip \<in> set exclude \<or> ?ip \<in> set out"
    consider "length out < n" "?bad" | "length out < n" "\<not> ?bad" | "\<not> length out < n" by blast
    then show ?case
    proof cases
      case 1
      then have "sample_loop draws n exclude guard (Suc fuel) out = sample_loop draws n exclude (Suc guard) fuel out"
        by (simp only: sample_loop.simps Let_def if_True)
      with Suc.IH [OF Suc.prems] show ?thesis by simp
    next
      case 2
      then have eq: "sample_loop draws n exclude guard (Suc fuel) out
          = sample_loop draws n exclude (Suc guard) fuel (out @ [?ip])"
        by (simp only: sample_loop.simps Let_def if_True if_False)
      have "?P (out @ [ip])" if "ip \<notin> set out" "ip \<notin> set exclude" "\<not> endswith ip ''.0''" "\<not> endswith ip ''.255''"
        for ip using Suc.prems 2(1) that by auto
      with 2(2) have "?P (out @ [?ip])" by blast
      show ?thesis unfolding eq by (rule Suc.IH [OF \<open>?P (out @ [?ip])\<close>])
    next
      case 3
      with Suc.prems show ?thesis by simp
    qed
  qed simp
  show ?thesis unfolding sample_cloudflare_def Let_def list_all_iff by (rule *) simp
qed


text \<open>A full bucket for the witnesses: 60 addresses with one success each.\<close>

definition numbered_bucket :: "nat \<Rightarrow> bucket" where
  "numbered_bucket n = map (\<lambda>i. (ipv4_text [10, 0, 0, i], new_entry\<lparr>ce_ok := 1, ce_latency_ms := of_nat i + 1\<rparr>)) [0..<n]"

definition full_bucket :: bucket where
  "full_bucket = numbered_bucket 60"

lemma numbered_bucket_props:
  assumes "n \<le> 255"
  shows "dict_ok (numbered_bucket n)" "length (numbered_bucket n) = n"
    "\<forall>x \<in> set (numbered_bucket n). \<exists>i < n. fst x = ipv4_text [10, 0, 0, i]"
proof -
  have ok: "octets_ok [10, 0, 0, i]" if "i < n" for i using that assms by (simp add: octets_ok_def)
  have "inj_on (\<lambda>i. ipv4_text [10, 0, 0, i]) {0..<n}"
  proof (rule inj_onI)
    fix i j assume ij: "i \<in> {0..<n}" "j \<in> {0..<n}" and e: "ipv4_text [10, 0, 0, i] = ipv4_text [10, 0, 0, j]"
    then have "parse_ipv4 (ipv4_text [10, 0, 0, j]) = Some [10, 0, 0, i]"
      using parse_ipv4_text [OF ok, of i] unfolding e by simp
    moreover have "parse_ipv4 (ipv4_text [10, 0, 0, j]) = Some [10, 0, 0, j]" using ij by (intro parse_ipv4_text ok) simp
    ultimately show "i = j" by simp
  qed
  then show "dict_ok (numbered_bucket n)"
    by (simp add: dict_ok_def numbered_bucket_def comp_def distinct_map)
qed (auto simp: numbered_bucket_def)

lemma full_bucket_props:
  "dict_ok full_bucket" "length full_bucket = 60"
  "\<forall>x \<in> set full_bucket. \<exists>i < 60. fst x = ipv4_text [10, 0, 0, i]"
  using numbered_bucket_props [of 60] by (simp_all add: full_bucket_def)

lemma full_cache_inv: "cache_inv [(''mci'', full_bucket)]"
proof -
  have "is_ipv4 (ipv4_text [10, 0, 0, i])" if "i < 60" for i
    using that by (intro is_ipv4_text) (simp add: octets_ok_def)
  then have "\<forall>x \<in> set full_bucket. is_ipv4 (fst x)" using full_bucket_props(3) by metis
  moreover have "the_bucket carrier [(''mci'', full_bucket)] = full_bucket
      \<or> the_bucket carrier [(''mci'', full_bucket)] = []" for carrier
    by (simp add: the_bucket_def dict_get_or_def dict_get_def)
  moreover have "dict_ok ([] :: bucket)" by (simp add: dict_ok_def)
  ultimately show ?thesis using full_bucket_props(1,2) unfolding cache_inv_def MAX_CACHE_PER_CARRIER_def
    by (metis empty_iff le0 list.set(1) list.size(3) order_refl)
qed

theorem eviction_keeps_best_witness:
  "\<exists>x y. x \<in> set (the_bucket ''mci'' (record_probe ''mci'' (ipv4_text [10, 0, 1, 1]) True 20 5 [(''mci'', full_bucket)]))
     \<and> y \<notin> set (the_bucket ''mci'' (record_probe ''mci'' (ipv4_text [10, 0, 1, 1]) True 20 5 [(''mci'', full_bucket)]))
     \<and> entry_score (snd x) \<le> entry_score (snd y)"
proof -
  let ?ip = "ipv4_text [10, 0, 1, 1]" and ?c = "[(''mci'', full_bucket)]"
  have octs: "octets_ok [10, 0, 1, 1]" by (simp add: octets_ok_def)
  then have v: "valid_ipv4 (JStr ?ip) = ?ip" "?ip \<noteq> []" by (simp_all add: valid_ipv4_id is_ipv4_text ipv4_text_props)
  have mci: "the_bucket ''mci'' ?c = full_bucket"
    by (simp add: the_bucket_def cache_key_def dict_get_or_def dict_get_def lower_def lower_char_def)
  define b where "b = dict_set ?ip (note_probe True 20 5 (dict_get_or full_bucket ?ip new_entry)) full_bucket"
  define r where "r = the_bucket ''mci'' (record_probe ''mci'' ?ip True 20 5 ?c)"
  have ok: "dict_ok full_bucket" using full_cache_inv mci by (metis cache_inv_def)
  have "?ip \<notin> fst ` set full_bucket"
  proof
    assume "?ip \<in> fst ` set full_bucket"
    then obtain i where i: "i < 60" "?ip = ipv4_text [10, 0, 0, i]" using full_bucket_props(3) by force
    then have "octets_ok [10, 0, 0, i]" by (simp add: octets_ok_def)
    from parse_ipv4_text [OF this] parse_ipv4_text [OF octs] i(2) show False by simp
  qed
  then have lb: "length b = 61" by (simp add: b_def length_dict_set_if full_bucket_props(2))
  have okb: "dict_ok b" using ok by (simp add: b_def dict.inv_put)
  have r: "r = trim_bucket 5 b"
    using the_bucket_record_trim [of ?ip "''mci''" True 20 5 ?c] v(2) unfolding r_def b_def mci v(1) by simp
  have "r \<noteq> []"
  proof
    assume "r = []"
    then have none: "\<forall>x \<in> set b. fst x \<notin> set (take 60 (rank_entries b 5 True))"
      using r lb by (auto simp: trim_bucket_def MAX_CACHE_PER_CARRIER_def Let_def filter_empty_conv)
    have "length (rank_entries b 5 True) = 61"
      using arg_cong [OF mset_rank_entries [of b 5 True], of size] lb by simp
    then have "hd (rank_entries b 5 True) \<in> set (take 60 (rank_entries b 5 True))"
      by (cases "rank_entries b 5 True") auto
    moreover have "hd (rank_entries b 5 True) \<in> fst ` set b"
      using \<open>length (rank_entries b 5 True) = 61\<close> set_rank_entries [of b 5 True]
      by (cases "rank_entries b 5 True") auto
    ultimately show False using none by auto
  qed
  then obtain x where x: "x \<in> set r" by (cases r) auto
  have "length r \<le> 60" using length_trim_bucket [OF okb] r by (simp add: MAX_CACHE_PER_CARRIER_def)
  then have "card (set r) < card (set b)"
    using card_length [of r] lb distinct_card [of b] okb by (simp add: dict_ok_def distinct_map)
  then obtain y where y: "y \<in> set b" "y \<notin> set r" by (metis List.finite_set card_mono not_le subsetI)
  have "entry_score (snd x) \<le> entry_score (snd y)"
    by (rule eviction_keeps_best [OF full_cache_inv, of ?ip b True 20 5 "''mci''" x y])
      (use x y v mci in \<open>simp_all add: b_def r_def\<close>)
  with x y show ?thesis unfolding r_def by blast
qed

theorem cooldown_after_three_failures_witness:
  "is_cooled ''mci'' (ipv4_text [10, 0, 1, 1]) 100 (record_probe ''mci'' (ipv4_text [10, 0, 1, 1]) False 0 30
     (record_probe ''mci'' (ipv4_text [10, 0, 1, 1]) False 0 20
       (record_probe ''mci'' (ipv4_text [10, 0, 1, 1]) False 0 10 [])))"
proof -
  have "cache_inv []" by (simp add: cache_inv_def the_bucket_def dict_get_or_def dict_ok_def)
  moreover have "is_ipv4 (ipv4_text [10, 0, 1, 1])" by (rule is_ipv4_text) (simp add: octets_ok_def)
  ultimately show ?thesis
    using cooldown_after_three_failures [of "[]" "ipv4_text [10, 0, 1, 1]" "''mci''" 100,
        where ?l1.0 = 0 and ?t1.0 = 10 and ?l2.0 = 0 and ?t2.0 = 20 and ?l3.0 = 0 and ?t3.0 = 30]
    by (simp add: the_bucket_def dict_get_or_def MAX_CACHE_PER_CARRIER_def Let_def)
qed

end
