(* ===== verification/Pattern_Core.thy ===== *)
theory Pattern_Core
  imports Injector Failover Clean_Ip
begin

text \<open>
  \<open>PatternSniCore\<close> of \<open>pattern_core/core.py\<close>: quality settings, the configuration part of \<open>start\<close>,
  the edge list, the edge order (an interpretation of the failover contract), connecting with
  failover, and the ClientHello retry loop of \<open>_handle\<close>. A tuning or profile object is the
  dictionary of its attributes; \<open>getattr\<close> with a default reads it. Sockets, clocks and the
  verdict of the injector are answers of an environment, numbered by the calls made. A session is
  followed alone: what other sessions do to the shared edge state in between is not modelled. Neither
  is a failure to create the upstream socket, which \<open>_connect_edge_unlocked\<close> does before its \<open>try\<close>.
  Log lines and socket options are not modelled.
\<close>

type_synonym attrs = "(string, json) dict"

section \<open>Settings\<close>

definition clamp_attr :: "attrs \<Rightarrow> string \<Rightarrow> int \<Rightarrow> int \<Rightarrow> int \<Rightarrow> int res" where
  \<comment> \<open>\<open>max(lo, min(hi, int(getattr(tuning, name, default))))\<close>\<close>
  "clamp_attr t name def lo hi = rbind (py_int_of (dict_get_or t name (JInt def))) (\<lambda>n. Inr (clamp lo hi n))"

definition str_attr :: "attrs \<Rightarrow> string \<Rightarrow> string \<Rightarrow> string" where
  \<comment> \<open>\<open>str(getattr(obj, name, default) or "")\<close>\<close>
  "str_attr t name def = py_str (or_else (dict_get_or t name (JStr def)) (JStr []))"

record quality =
  q_inject_delay_ms :: int
  q_ack_timeout_ms :: int
  q_connect_timeout_ms :: int
  q_relay_buffer_kb :: int
  q_socket_buffer_kb :: int
  q_max_sessions :: int
  q_edge_failure_cooldown_s :: int
  q_keepalive_idle_s :: int
  q_keepalive_interval_s :: int
  q_keepalive_count :: int
  q_upload_optimized :: bool

definition quality_from_tuning :: "attrs \<Rightarrow> quality res" where
  "quality_from_tuning t =
     rbind (clamp_attr t ''pattern_inject_delay_ms'' 1 0 20) (\<lambda>a.
     rbind (clamp_attr t ''pattern_ack_timeout_ms'' 3000 500 10000) (\<lambda>b.
     rbind (clamp_attr t ''pattern_connect_timeout_ms'' 2500 500 10000) (\<lambda>c.
     rbind (clamp_attr t ''pattern_relay_buffer_kb'' 512 32 1024) (\<lambda>d.
     rbind (clamp_attr t ''pattern_socket_buffer_kb'' 4096 64 8192) (\<lambda>e.
     rbind (clamp_attr t ''pattern_max_sessions'' 12 2 64) (\<lambda>f.
     rbind (clamp_attr t ''pattern_edge_failure_cooldown_s'' 8 1 60) (\<lambda>g.
     rbind (clamp_attr t ''pattern_keepalive_idle_s'' 11 5 120) (\<lambda>h.
     rbind (clamp_attr t ''pattern_keepalive_interval_s'' 3 1 60) (\<lambda>i.
     rbind (clamp_attr t ''pattern_keepalive_count'' 3 1 10) (\<lambda>j.
     Inr \<lparr>q_inject_delay_ms = a, q_ack_timeout_ms = b, q_connect_timeout_ms = c, q_relay_buffer_kb = d,
          q_socket_buffer_kb = e, q_max_sessions = f, q_edge_failure_cooldown_s = g, q_keepalive_idle_s = h,
          q_keepalive_interval_s = i, q_keepalive_count = j,
          q_upload_optimized = truthy (dict_get_or t ''pattern_upload_optimized'' (JBool True))\<rparr>))))))))))"

definition TLS_FRAGMENT_STRATEGIES :: "string list" where
  "TLS_FRAGMENT_STRATEGIES = [''plain'', ''tls_sni_records'', ''full5'', ''full10'', ''full20'', ''multi64'',
     ''sni_boundary'', ''sni_split'', ''primitive'']"

text \<open>\<open>encode("idna")\<close>: an ASCII name is checked label by label and kept; any other name is left to
  the codec, the parameter.\<close>

definition idna_labels_ok :: "string \<Rightarrow> bool" where
  "idna_labels_ok s = (let ls = split_on (CHR ''.'') s in
     list_all (\<lambda>l. 0 < length l \<and> length l < 64) (butlast ls) \<and> length (last ls) < 64)"

definition encode_idna :: "(string \<Rightarrow> bytes res) \<Rightarrow> string \<Rightarrow> bytes res" where
  "encode_idna codec s =
     (if list_all (\<lambda>c. (of_char c :: nat) < 128) s then
        (if idna_labels_ok s then Inr (map of_char s) else Inl ValueError)
      else codec s)"

definition fake_sni_bytes :: "(string \<Rightarrow> bytes res) \<Rightarrow> string \<Rightarrow> bytes res" where
  "fake_sni_bytes codec value =
     (case encode_idna codec (strip value) of
        Inl e \<Rightarrow> Inl ValueError
      | Inr b \<Rightarrow> if b = [] \<or> length b > 219 \<or> of_char (CHR ''.'') \<notin> set b then Inl ValueError else Inr b)"

definition DEFAULT_IP :: string where "DEFAULT_IP = ''104.18.32.47''"

definition build_edges :: "attrs \<Rightarrow> attrs \<Rightarrow> string list res" where
  "build_edges profile t =
     (let configured = str_attr t ''pattern_connect_ip'' DEFAULT_IP;
          fallbacks = str_attr t ''pattern_fallback_ips'' ''188.114.99.0,104.18.8.83,104.18.9.83'';
          raw0 = map JStr (configured # split_on (CHR '','') (replace_char (CHR '';'') '','' fallbacks));
          raw1 = (if truthy (dict_get_or t ''pattern_use_profile_edges'' (JBool False))
                  then [dict_get_or profile ''address'' JNull, dict_get_or profile ''fallback_address'' JNull] @ raw0
                  else raw0);
          raw = order_edges (JStr (str_attr t ''pattern_gene_edges'' [])) (JStr (str_attr t ''pattern_clean_edges'' []))
                  (map (\<lambda>v. JStr (py_str (or_else v (JStr [])))) raw1) (JStr (str_attr t ''pattern_session_edge'' []));
          edges = uniq (filter (\<lambda>ip. ip \<noteq> []) (map (\<lambda>v. valid_ipv4 (JStr v)) raw))
      in if edges = [] then Inl ValueError else Inr edges)"

definition packet_filter :: "string list \<Rightarrow> int \<Rightarrow> string" where
  "packet_filter edges port =
     (let outbound = join '' or '' (map (\<lambda>e. ''ip.DstAddr == '' @ e) edges);
          inbound = join '' or '' (map (\<lambda>e. ''ip.SrcAddr == '' @ e) edges);
          p = int_str port
      in ''tcp and !impostor and tcp.PayloadLength == 0 and ''
         @ ''(tcp.Syn or tcp.Ack or tcp.Rst or tcp.Fin) and ''
         @ ''((tcp.DstPort == '' @ p @ '' and ('' @ outbound @ '')) ''
         @ ''or (tcp.SrcPort == '' @ p @ '' and ('' @ inbound @ '')))'')"

section \<open>Configuration\<close>

record core_config =
  cc_strategy :: string
  cc_quality :: quality
  cc_handshake_failover :: bool
  cc_hybrid :: bool
  cc_fragment_delay_s :: rat
  cc_post_fake_delay_s :: rat
  cc_fake_sni :: string
  cc_gene_strict :: bool
  cc_gene_ops :: "json list"
  cc_edges :: "string list"

definition chosen_strategy :: "string option \<Rightarrow> string" where
  "chosen_strategy forced =
     (let s = lower (strip (case forced of None \<Rightarrow> ''wrong_seq'' | Some f \<Rightarrow> if f = [] then ''wrong_seq'' else f))
      in if s = ''wrong_seq'' \<or> s \<in> set TLS_FRAGMENT_STRATEGIES then s else ''wrong_seq'')"

definition int_or :: "json \<Rightarrow> json \<Rightarrow> int res" where
  \<comment> \<open>\<open>int(a or b)\<close>\<close>
  "int_or a b = py_int_of (or_else a b)"

definition fragment_delay :: "attrs \<Rightarrow> string \<Rightarrow> bool \<Rightarrow> rat res" where
  "fragment_delay t strategy hs_failover =
     (let d0 = (if hs_failover then dict_get_or [(''full20'', 3 / 1000), (''full5'', 15 / 1000), (''tls_sni_records'', 10 / 1000)] strategy 0
                else (0 :: rat))
      in if d0 \<le> 0 \<and> strategy \<in> set TLS_FRAGMENT_STRATEGIES then
           rbind (int_or (dict_get_or t ''sni_split_delay_ms'' (JInt 0)) (JInt 0)) (\<lambda>tuned0.
           rbind (if strategy \<in> {''full5'', ''full10'', ''full20'', ''multi'', ''multi64''}
                  then int_or (dict_get_or t ''multi_delay_ms'' (JInt tuned0)) (JInt tuned0) else Inr tuned0) (\<lambda>tuned.
           Inr (if tuned > 0 then of_int (clamp 0 80 tuned) / 1000 else d0)))
         else Inr d0)"

definition gene_ops_of :: "(string \<Rightarrow> json res) \<Rightarrow> attrs \<Rightarrow> json list" where
  \<comment> \<open>\<open>json.loads\<close> is the parameter; text it rejects means no operations\<close>
  "gene_ops_of loads t =
     (let raw = strip (str_attr t ''pattern_gene_ops'' []) in
      if raw = [] then [] else case loads raw of Inr (JArr xs) \<Rightarrow> filter is_dict xs | _ \<Rightarrow> [])"

definition configure :: "(string \<Rightarrow> bytes res) \<Rightarrow> (string \<Rightarrow> json res) \<Rightarrow> attrs \<Rightarrow> attrs \<Rightarrow> string option \<Rightarrow> core_config res" where
  "configure codec loads profile t forced =
     (let strategy = chosen_strategy forced in
      rbind (quality_from_tuning t) (\<lambda>q.
      let hs_failover = (dict_get_or profile ''origin'' (JStr []) = JStr ''builtin''
                      \<and> lower (py_str (dict_get_or t ''carrier_mode'' (JStr []))) = ''mci'');
          hybrid = (hs_failover \<and> strategy = ''full5'')
      in rbind (fragment_delay t strategy hs_failover) (\<lambda>delay.
         rbind (if hybrid then rbind (clamp_attr t ''pattern_inject_delay_ms'' 0 0 20) (\<lambda>n. Inr (of_int n / 1000)) else Inr 0) (\<lambda>post.
         let fake_sni = py_str (or_else (dict_get_or t ''pattern_fake_sni'' (JStr ''chatgpt.com'')) (dict_get_or profile ''sni'' JNull))
         in rbind (fake_sni_bytes codec fake_sni) (\<lambda>_.
            rbind (build_edges profile t) (\<lambda>edges.
            Inr \<lparr>cc_strategy = strategy, cc_quality = q, cc_handshake_failover = hs_failover, cc_hybrid = hybrid,
                 cc_fragment_delay_s = delay, cc_post_fake_delay_s = post, cc_fake_sni = fake_sni,
                 cc_gene_strict = truthy (dict_get_or t ''pattern_gene_strict'' (JBool False)),
                 cc_gene_ops = gene_ops_of loads t, cc_edges = edges\<rparr>))))))"

definition injection_required :: "core_config \<Rightarrow> bool" where
  "injection_required c \<longleftrightarrow> cc_strategy c = ''wrong_seq'' \<or> cc_hybrid c"

section \<open>Connecting\<close>

text \<open>What the outside answers, by the number of the call.\<close>

record core_env =
  ev_now :: "nat \<Rightarrow> rat"
  ev_connect :: "nat \<Rightarrow> string \<Rightarrow> unit res"
  ev_verdict :: "nat \<Rightarrow> string \<Rightarrow> string res" \<comment> \<open>the injector's result, or the time-out of the wait\<close>
  ev_send :: "nat \<Rightarrow> unit res"
  ev_response :: "nat \<Rightarrow> bytes res"
  ev_forward :: "nat \<Rightarrow> unit res"
  ev_forwarded :: "nat \<Rightarrow> nat" \<comment> \<open>what a forward that fails has passed to the client before\<close>
  ev_peer :: "nat \<Rightarrow> bool" \<comment> \<open>\<open>getpeername\<close> answers\<close>

record core_state =
  cs_preferred :: "string option"
  cs_failed_until :: "(string, rat) dict"
  cs_upload :: int
  cs_download :: int
  cs_calls :: nat
  cs_wire :: "(bytes \<times> rat) list" \<comment> \<open>written to the current upstream, with the pause after it\<close>
  cs_replies :: "bytes list" \<comment> \<open>forwarded to the client\<close>

definition tick :: "core_state \<Rightarrow> core_state" where
  "tick st = st\<lparr>cs_calls := Suc (cs_calls st)\<rparr>"

definition caught :: "py_error \<Rightarrow> bool" where
  \<comment> \<open>\<open>except (OSError, asyncio.TimeoutError, ConnectionError, RuntimeError)\<close>\<close>
  "caught e \<longleftrightarrow> e \<in> {OSError, ConnectionError, RuntimeError, PyTimeout}"

definition fragments_only :: "core_config \<Rightarrow> bool" where
  "fragments_only c \<longleftrightarrow> cc_strategy c \<in> set TLS_FRAGMENT_STRATEGIES \<and> \<not> cc_hybrid c"

definition dial :: "core_env \<Rightarrow> core_config \<Rightarrow> string \<Rightarrow> nat \<Rightarrow> unit res" where
  \<comment> \<open>one upstream: TCP connect, and unless only fragmenting, the verdict of the injector\<close>
  "dial env c edge k =
     rbind (ev_connect env k edge) (\<lambda>_.
       if fragments_only c then Inr ()
       else rbind (ev_verdict env k edge) (\<lambda>r. if r = ''fake_data_ack_recv'' then Inr () else Inl ConnectionError))"

definition edge_connected :: "string \<Rightarrow> core_state \<Rightarrow> core_state" where
  "edge_connected edge st = st\<lparr>cs_preferred := Some edge, cs_failed_until := dict_pop edge (cs_failed_until st), cs_wire := []\<rparr>"

definition edge_failed :: "string \<Rightarrow> rat \<Rightarrow> core_state \<Rightarrow> core_state" where
  "edge_failed edge until st =
     st\<lparr>cs_failed_until := dict_set edge until (cs_failed_until st),
        cs_preferred := (if cs_preferred st = Some edge then None else cs_preferred st)\<rparr>"

fun try_edges :: "core_env \<Rightarrow> core_config \<Rightarrow> string list \<Rightarrow> core_state \<Rightarrow> string option res \<times> core_state" where
  "try_edges env c [] st = (Inr None, st)"
| "try_edges env c (e # es) st =
     (case dial env c e (cs_calls st) of
        Inr _ \<Rightarrow> (Inr (Some e), edge_connected e (tick st))
      | Inl x \<Rightarrow>
          if caught x then
            try_edges env c es (edge_failed e (ev_now env (cs_calls st)
              + of_int (q_edge_failure_cooldown_s (cc_quality c))) (tick st))
          else (Inl x, tick st))"

definition ordered_edges :: "core_config \<Rightarrow> core_state \<Rightarrow> rat \<Rightarrow> string list" where
  "ordered_edges c st now = preferred_order (cc_edges c) (cs_failed_until st) (cs_preferred st) now"

definition connect_edge_unlocked :: "core_env \<Rightarrow> core_config \<Rightarrow> string list option \<Rightarrow> core_state
    \<Rightarrow> string option res \<times> core_state" where
  "connect_edge_unlocked env c edges st =
     (case edges of
        Some es \<Rightarrow> try_edges env c es st
      | None \<Rightarrow> try_edges env c (ordered_edges c st (ev_now env (cs_calls st))) (tick st))"

definition or_all_edges :: "core_env \<Rightarrow> core_config \<Rightarrow> string option res \<times> core_state \<Rightarrow> string option res \<times> core_state" where
  "or_all_edges env c r = (if fst r = Inr None then connect_edge_unlocked env c None (snd r) else r)"

definition connect_edge :: "core_env \<Rightarrow> core_config \<Rightarrow> core_state \<Rightarrow> string option res \<times> core_state" where
  \<comment> \<open>the preferred edge alone, then all of them\<close>
  "connect_edge env c st =
     (case cs_preferred st of
        Some p \<Rightarrow> or_all_edges env c (connect_edge_unlocked env c (Some [p]) st)
      | None \<Rightarrow> connect_edge_unlocked env c None st)"

section \<open>The ClientHello and its pieces\<close>

text \<open>\<open>recv(n)\<close> on a stream that arrives in segments; an empty result is the end.\<close>

fun recv :: "int \<Rightarrow> bytes list \<Rightarrow> bytes \<times> bytes list" where
  "recv n [] = ([], [])"
| "recv n (seg # segs) =
     (if int (length seg) \<le> n then (seg, segs) else (take (nat n) seg, drop (nat n) seg # segs))"

function read_more :: "nat \<Rightarrow> bytes \<Rightarrow> bytes list \<Rightarrow> bytes \<times> bytes list" where
  "read_more expected first segs =
     (if length first < expected then
        (if fst (recv (int expected - int (length first)) segs) = [] then (first, snd (recv (int expected - int (length first)) segs))
         else read_more expected (first @ fst (recv (int expected - int (length first)) segs))
                (snd (recv (int expected - int (length first)) segs)))
      else (first, segs))"
  by pat_completeness auto
termination
  by (relation "measure (\<lambda>(expected, first, segs). expected - length first)") (auto simp flip: length_greater_0_conv)

declare read_more.simps [simp del]

definition expected_length :: "bytes \<Rightarrow> nat" where
  "expected_length first =
     (if length first \<ge> 5 \<and> first ! 0 = 0x16 then 5 + from_be (pyslice 3 5 first) else length first)"

definition read_record :: "bytes \<times> bytes list \<Rightarrow> bytes \<times> bytes list" where
  "read_record r = (if fst r = [] then r else read_more (expected_length (fst r)) (fst r) (snd r))"

definition read_first :: "bytes list \<Rightarrow> bytes \<times> bytes list" where
  "read_first segs = read_record (recv 65535 segs)"

definition core_pieces :: "core_config \<Rightarrow> bytes \<Rightarrow> (bytes list \<times> int list option) res" where
  "core_pieces c first =
     (if cc_strategy c = ''primitive'' then
        rbind (gene_plan_from_ops first (cc_gene_ops c) (cc_gene_strict c)) (\<lambda>plan.
        let ps = filter (\<lambda>p. p \<noteq> []) (gp_pieces plan);
            pieces = (if ps = [] then [first] else ps)
        in Inr (pieces, if length pieces = length (gp_pieces plan) then Some (gp_delays_ms plan) else None))
      else rbind (fragments first (cc_strategy c) 5 (cc_gene_ops c)) (\<lambda>ps. Inr (ps, None)))"

definition pause_after :: "core_config \<Rightarrow> int list option \<Rightarrow> nat \<Rightarrow> nat \<Rightarrow> rat" where
  "pause_after c delays n i =
     (case delays of
        Some ds \<Rightarrow> (if i < length ds \<and> ds ! i > 0 then of_int (ds ! i) / 1000 else 0)
      | None \<Rightarrow>
          if i + 1 < n then
            (if cc_fragment_delay_s c > 0 then cc_fragment_delay_s c
             else if cc_strategy c = ''tls_sni_records'' then 1 / 1000 else 0)
          else 0)"

fun send_pieces :: "core_env \<Rightarrow> core_config \<Rightarrow> int list option \<Rightarrow> nat \<Rightarrow> nat \<Rightarrow> bytes list \<Rightarrow> core_state \<Rightarrow> unit res \<times> core_state" where
  "send_pieces env c delays n i [] st = (Inr (), st)"
| "send_pieces env c delays n i (p # ps) st =
     (case ev_send env (cs_calls st) of
        Inl e \<Rightarrow> (Inl e, tick st)
      | Inr _ \<Rightarrow> send_pieces env c delays n (Suc i) ps
          ((tick st)\<lparr>cs_upload := cs_upload st + int (length p),
                     cs_wire := cs_wire st @ [(p, pause_after c delays n i)]\<rparr>))"

section \<open>A session\<close>

datatype session_end =
    Relay string \<comment> \<open>the two sides are joined\<close>
  | Closed \<comment> \<open>the session returned\<close>
  | Raised py_error \<comment> \<open>an exception no handler takes; the sockets are closed\<close>

definition passed_part :: "core_env \<Rightarrow> nat \<Rightarrow> bytes \<Rightarrow> bytes list" where
  \<comment> \<open>a \<open>sendall\<close> that fails may have sent a part\<close>
  "passed_part env k r = (let part = take (ev_forwarded env k) r in if part = [] then [] else [part])"

definition forward_response :: "core_env \<Rightarrow> core_state \<Rightarrow> unit res \<times> core_state" where
  \<comment> \<open>wait for the first answer and pass it to the client\<close>
  "forward_response env st =
     (case ev_response env (cs_calls st) of
        Inl e \<Rightarrow> (Inl e, tick st)
      | Inr r \<Rightarrow>
          if r = [] then (Inl ConnectionError, tick st)
          else case ev_forward env (Suc (cs_calls st)) of
            Inl e \<Rightarrow> (Inl e, (tick (tick st))\<lparr>cs_replies := cs_replies st @ passed_part env (Suc (cs_calls st)) r\<rparr>)
          | Inr _ \<Rightarrow> (Inr (), (tick (tick st))\<lparr>cs_replies := cs_replies st @ [r],
                              cs_download := cs_download st + int (length r)\<rparr>))"

definition blame :: "core_env \<Rightarrow> string \<Rightarrow> core_state \<Rightarrow> core_state" where
  \<comment> \<open>a handshake that got no answer\<close>
  "blame env outgoing st =
     (let edge = (if ev_peer env (cs_calls st) then outgoing
                  else case cs_preferred st of None \<Rightarrow> [] | Some p \<Rightarrow> p)
      in if edge = [] then tick st
         else edge_failed edge (ev_now env (cs_calls st) + 3 / 2) (tick st))"

text \<open>One attempt either ends the session or, when the handshake got no answer, asks for another.\<close>

datatype attempt = Done session_end | Again

definition fail_with :: "py_error \<Rightarrow> session_end" where
  "fail_with e = (if caught e then Closed else Raised e)"

definition after_response :: "core_env \<Rightarrow> string \<Rightarrow> unit res \<times> core_state \<Rightarrow> attempt \<times> core_state" where
  "after_response env edge r = (case fst r of
     Inr _ \<Rightarrow> (Done (Relay edge), snd r)
   | Inl e \<Rightarrow> if e \<in> {OSError, ConnectionError, PyTimeout} then (Again, blame env edge (snd r))
             else (Done (fail_with e), snd r))"

definition after_send :: "core_env \<Rightarrow> core_config \<Rightarrow> string \<Rightarrow> unit res \<times> core_state \<Rightarrow> attempt \<times> core_state" where
  "after_send env c edge r = (case fst r of
     Inl e \<Rightarrow> (Done (fail_with e), snd r)
   | Inr _ \<Rightarrow> if cc_handshake_failover c then after_response env edge (forward_response env (snd r))
             else (Done (Relay edge), snd r))"

definition after_connect :: "core_env \<Rightarrow> core_config \<Rightarrow> bytes list \<Rightarrow> int list option
    \<Rightarrow> string option res \<times> core_state \<Rightarrow> attempt \<times> core_state" where
  "after_connect env c pieces delays r = (case fst r of
     Inl e \<Rightarrow> (Done (fail_with e), snd r)
   | Inr None \<Rightarrow> (Done Closed, snd r)
   | Inr (Some edge) \<Rightarrow> after_send env c edge (send_pieces env c delays (length pieces) 0 pieces (snd r)))"

fun retry_hello :: "core_env \<Rightarrow> core_config \<Rightarrow> bytes list \<Rightarrow> int list option \<Rightarrow> nat
    \<Rightarrow> attempt \<times> core_state \<Rightarrow> attempt \<times> core_state" where
  \<comment> \<open>the number is the attempts left; the last upstream was closed\<close>
  "retry_hello env c pieces delays 0 r = r"
| "retry_hello env c pieces delays (Suc k) r =
     (if fst r = Again
      then retry_hello env c pieces delays k (after_connect env c pieces delays (connect_edge env c (snd r)))
      else r)"

definition end_session :: "attempt \<times> core_state \<Rightarrow> session_end \<times> core_state" where
  "end_session r = ((case fst r of Done e \<Rightarrow> e | Again \<Rightarrow> Closed), snd r)"

definition hello_attempts :: "core_env \<Rightarrow> core_config \<Rightarrow> string \<Rightarrow> (bytes list \<times> int list option) res
    \<Rightarrow> core_state \<Rightarrow> session_end \<times> core_state" where
  "hello_attempts env c edge plan st = (case plan of
     Inl e \<Rightarrow> (fail_with e, st)
   | Inr p \<Rightarrow> end_session (retry_hello env c (fst p) (snd p) (if cc_handshake_failover c then 2 else 0)
                 (after_connect env c (fst p) (snd p) (Inr (Some edge), st))))"

definition with_upstream :: "core_env \<Rightarrow> core_config \<Rightarrow> bytes \<Rightarrow> string option res \<times> core_state
    \<Rightarrow> session_end \<times> core_state" where
  "with_upstream env c first r = (case fst r of
     Inl e \<Rightarrow> (fail_with e, snd r)
   | Inr None \<Rightarrow> (Closed, snd r)
   | Inr (Some edge) \<Rightarrow>
       if cc_strategy c \<notin> set TLS_FRAGMENT_STRATEGIES then (Relay edge, snd r)
       else if first = [] then (Closed, snd r)
       else hello_attempts env c edge (core_pieces c first) (snd r))"

definition handle_session :: "core_env \<Rightarrow> core_config \<Rightarrow> bytes list \<Rightarrow> core_state \<Rightarrow> session_end \<times> core_state" where
  "handle_session env c segs st = with_upstream env c (fst (read_first segs)) (connect_edge env c st)"

section \<open>The edge order keeps the failover contract\<close>

lemma failover_pullback:
  "failover order cands healthy \<Longrightarrow> failover (\<lambda>s. order (f s)) (\<lambda>s. cands (f s)) (\<lambda>s. healthy (f s))"
  by (simp add: failover_def)

interpretation edges: failover
    "\<lambda>(c, st, now). ordered_edges c st now" "\<lambda>(c, st, now). cc_edges c"
    "\<lambda>(c, st, now). is_healthy (cs_failed_until st) now"
  using failover_pullback [OF preferred_order_failover,
      of "\<lambda>(c, st, now). (cc_edges c, cs_failed_until st, cs_preferred st, now)"]
  by (simp add: ordered_edges_def case_prod_beta')

section \<open>Connecting, with answers that do not change\<close>

definition answers :: "core_env \<Rightarrow> core_config \<Rightarrow> (string \<Rightarrow> bool) \<Rightarrow> bool" where
  \<comment> \<open>an edge works or fails, at any time\<close>
  "answers env c works \<longleftrightarrow> (\<forall>k e. (works e \<longrightarrow> dial env c e k = Inr ())
     \<and> (\<not> works e \<longrightarrow> (\<exists>x. dial env c e k = Inl x \<and> caught x)))"

lemma answersD:
  "answers env c works \<Longrightarrow> works e \<Longrightarrow> dial env c e k = Inr ()"
  "answers env c works \<Longrightarrow> \<not> works e \<Longrightarrow> \<exists>x. dial env c e k = Inl x \<and> caught x"
  by (simp_all add: answers_def)

lemma try_edges_find:
  "answers env c works \<Longrightarrow> fst (try_edges env c es st) = Inr (find works es)"
proof (induction es arbitrary: st)
  case (Cons e es)
  show ?case
  proof (cases "works e")
    case True
    with answersD(1) [OF Cons.prems True] show ?thesis by simp
  next
    case False
    with answersD(2) [OF Cons.prems False, of "cs_calls st"] Cons show ?thesis by auto
  qed
qed simp

lemma try_edges_result:
  assumes "try_edges env c es st = (Inr r, st')"
  shows "case r of
      Some e \<Rightarrow> e \<in> set es \<and> cs_preferred st' = Some e \<and> dict_get (cs_failed_until st') e = None \<and> cs_wire st' = []
    | None \<Rightarrow> (\<forall>e \<in> set es. dict_get (cs_failed_until st') e \<noteq> None)
              \<and> (\<forall>p. cs_preferred st' = Some p \<longrightarrow> p \<notin> set es \<and> cs_preferred st = Some p)
              \<and> (\<forall>e. e \<notin> set es \<longrightarrow> dict_get (cs_failed_until st') e = dict_get (cs_failed_until st) e)"
  using assms
proof (induction es arbitrary: st)
  case Nil
  then show ?case by (auto simp: try_edges.simps)
next
  case (Cons e es)
  show ?case
  proof (cases "dial env c e (cs_calls st)")
    case (Inr u)
    with Cons.prems show ?thesis by (auto simp: edge_connected_def tick_def)
  next
    case (Inl x)
    let ?st = "edge_failed e (ev_now env (cs_calls st) + of_int (q_edge_failure_cooldown_s (cc_quality c))) (tick st)"
    from Inl Cons.prems have rest: "try_edges env c es ?st = (Inr r, st')" by (auto split: if_splits)
    have failed: "dict_get (cs_failed_until st') e \<noteq> None" if "r = None"
    proof (cases "e \<in> set es")
      case False
      with Cons.IH [OF rest] that show ?thesis by (simp add: edge_failed_def)
    qed (use Cons.IH [OF rest] that in simp)
    from Cons.IH [OF rest] failed show ?thesis
      by (auto simp: edge_failed_def tick_def split: option.splits if_splits)
  qed
qed

lemma try_edges_replies [simp]: "cs_replies (snd (try_edges env c es st)) = cs_replies st"
  by (induction es arbitrary: st)
    (auto simp: edge_connected_def edge_failed_def tick_def split: sum.split)

lemma connect_unlocked_replies [simp]:
  "cs_replies (snd (connect_edge_unlocked env c es st)) = cs_replies st"
  by (cases es) (simp_all add: connect_edge_unlocked_def, simp add: tick_def)

lemma connect_edge_replies:
  assumes "connect_edge env c st = (r, st')" shows "cs_replies st' = cs_replies st"
proof (cases "cs_preferred st")
  case None
  with assms connect_unlocked_replies [of env c None st] show ?thesis by (simp add: connect_edge_def or_all_edges_def)
next
  case (Some p)
  obtain q s where q: "connect_edge_unlocked env c (Some [p]) st = (q, s)" by fastforce
  then have s: "cs_replies s = cs_replies st" using connect_unlocked_replies [of env c "Some [p]" st] by simp
  show ?thesis
  proof (cases "q = Inr None")
    case True
    with assms Some q s connect_unlocked_replies [of env c None s] show ?thesis by (simp add: connect_edge_def or_all_edges_def)
  next
    case False
    then have "connect_edge env c st = (q, s)"
      using Some q by (simp add: connect_edge_def or_all_edges_def)
    with assms s show ?thesis by simp
  qed
qed

text \<open>
  C7: Failover finds an edge that works: when edges either work or fail for as long as the
  connection takes, and one of the configured edges that is not cooling down works, then
  connecting succeeds with an edge that works, and that edge is the preferred one from then on.
\<close>

theorem connect_finds_working_edge:
  assumes "answers env c works" "e \<in> set (cc_edges c)" "works e"
    and "\<forall>k. dict_get_or (cs_failed_until st) e 0 \<le> ev_now env k"
  shows "\<exists>d st'. connect_edge env c st = (Inr (Some d), st') \<and> works d \<and> cs_preferred st' = Some d
     \<and> (d \<in> set (cc_edges c) \<or> cs_preferred st = Some d)"
proof -
  have all: "\<exists>d s'. connect_edge_unlocked env c None s = (Inr (Some d), s') \<and> works d \<and> cs_preferred s' = Some d
      \<and> d \<in> set (cc_edges c)"
    if "dict_get_or (cs_failed_until s) e 0 \<le> ev_now env (cs_calls s)" for s
  proof -
    let ?now = "ev_now env (cs_calls s)"
    have "is_healthy (cs_failed_until s) ?now e" using that by (simp add: is_healthy_def)
    then obtain d where d: "find works (ordered_edges c s ?now) = Some d" "works d"
      using edges.walk_healthy [of e "(c, s, ?now)" works] assms(2,3) by (auto simp: edges.walk_def)
    then have mem: "d \<in> set (cc_edges c)"
      using edges.walk_sound [of works "(c, s, ?now)" d] by (simp add: edges.walk_def)
    obtain s' where s': "try_edges env c (ordered_edges c s ?now) (tick s) = (Inr (Some d), s')"
      using try_edges_find [OF assms(1), of "ordered_edges c s ?now" "tick s"] d
      by (cases "try_edges env c (ordered_edges c s ?now) (tick s)") auto
    with try_edges_result [OF s'] d mem show ?thesis by (simp add: connect_edge_unlocked_def)
  qed
  show ?thesis
  proof (cases "cs_preferred st")
    case None
    with all [of st] assms(4) show ?thesis by (auto simp: connect_edge_def)
  next
    case (Some p)
    show ?thesis
    proof (cases "works p")
      case True
      with answersD(1) [OF assms(1) True] Some show ?thesis
        by (simp add: connect_edge_def connect_edge_unlocked_def edge_connected_def or_all_edges_def)
    next
      case False
      with try_edges_find [OF assms(1), of "[p]" st]
      obtain s where s: "try_edges env c [p] st = (Inr None, s)" by (cases "try_edges env c [p] st") auto
      from try_edges_result [OF s] False assms(3)
      have "dict_get (cs_failed_until s) e = dict_get (cs_failed_until st) e" by auto
      then have "dict_get_or (cs_failed_until s) e 0 \<le> ev_now env (cs_calls s)"
        using assms(4) by (simp add: dict_get_or_def)
      from all [OF this] Some s show ?thesis by (auto simp: connect_edge_def connect_edge_unlocked_def or_all_edges_def)
    qed
  qed
qed

section \<open>Sessions\<close>

lemma send_pieces_ok:
  "send_pieces env c ds n i ps st = (Inr (), st') \<Longrightarrow>
   map fst (cs_wire st') = map fst (cs_wire st) @ ps \<and> cs_replies st' = cs_replies st"
  by (induction ps arbitrary: i st) (force simp: tick_def split: sum.splits)+

lemma send_pieces_replies: "cs_replies (snd (send_pieces env c ds n i ps st)) = cs_replies st"
  by (induction ps arbitrary: i st) (auto simp: tick_def split: sum.split)

definition whole_forwards :: "core_env \<Rightarrow> bool" where
  "whole_forwards env \<longleftrightarrow> (\<forall>k. ev_forwarded env k = 0)"

definition some_parts :: "core_env \<Rightarrow> nat \<Rightarrow> bytes list \<Rightarrow> bool" where
  \<comment> \<open>what failed forwards have left with the client\<close>
  "some_parts env n parts \<longleftrightarrow> length parts \<le> n \<and> (whole_forwards env \<longrightarrow> parts = [])"

lemma passed_part_some: "some_parts env (Suc 0) (passed_part env k r)"
  by (simp add: some_parts_def passed_part_def whole_forwards_def Let_def)

lemma some_parts_append: "some_parts env n xs \<Longrightarrow> some_parts env m ys \<Longrightarrow> some_parts env (n + m) (xs @ ys)"
  by (simp add: some_parts_def)

lemma some_parts_mono: "some_parts env n xs \<Longrightarrow> n \<le> m \<Longrightarrow> some_parts env m xs"
  by (simp add: some_parts_def)

lemma forward_response_cases:
  assumes "forward_response env st = (r, st')"
  shows "cs_wire st' = cs_wire st \<and>
    (case r of Inr _ \<Rightarrow> (\<exists>a. a \<noteq> [] \<and> cs_replies st' = cs_replies st @ [a])
     | Inl _ \<Rightarrow> (\<exists>parts. some_parts env (Suc 0) parts \<and> cs_replies st' = cs_replies st @ parts))"
proof -
  have none: "some_parts env (Suc 0) []" by (simp add: some_parts_def)
  then show ?thesis
    using assms passed_part_some [of env "Suc (cs_calls st)"]
    by (auto simp: forward_response_def tick_def split: sum.splits if_splits)
qed

lemma connect_edge_wire:
  assumes "connect_edge env c st = (Inr (Some e), st')" shows "cs_wire st' = []"
proof -
  have *: "cs_wire s' = []" if "try_edges env c es s = (Inr (Some e), s')" for es s s'
    using try_edges_result [OF that] by simp
  show ?thesis
  proof (cases "cs_preferred st")
    case None
    with assms * show ?thesis by (simp add: connect_edge_def connect_edge_unlocked_def or_all_edges_def)
  next
    case (Some p)
    obtain q s where q: "connect_edge_unlocked env c (Some [p]) st = (q, s)" by fastforce
    show ?thesis
    proof (cases "q = Inr None")
      case True
      with assms Some q * show ?thesis by (simp add: connect_edge_def connect_edge_unlocked_def or_all_edges_def)
    next
      case False
      then have "connect_edge env c st = (q, s)"
        using Some q by (simp add: connect_edge_def or_all_edges_def)
      with assms q * show ?thesis by (simp add: connect_edge_unlocked_def del: try_edges.simps)
    qed
  qed
qed

lemma blame_replies [simp]: "cs_replies (blame env e st) = cs_replies st"
  by (simp add: blame_def edge_failed_def tick_def Let_def split: option.split)

definition answered_once :: "core_env \<Rightarrow> core_config \<Rightarrow> nat \<Rightarrow> bytes list \<Rightarrow> core_state \<Rightarrow> bool" where
  \<comment> \<open>where the first answer is awaited, one answer was passed on since \<open>rs\<close>, after what failed forwards left\<close>
  "answered_once env c n rs st \<longleftrightarrow>
     (if cc_handshake_failover c then \<exists>parts a. a \<noteq> [] \<and> some_parts env n parts \<and> cs_replies st = rs @ parts @ [a]
      else cs_replies st = rs)"

definition attempt_inv :: "core_env \<Rightarrow> core_config \<Rightarrow> bytes list \<Rightarrow> nat \<Rightarrow> bytes list \<Rightarrow> attempt \<Rightarrow> core_state \<Rightarrow> bool" where
  "attempt_inv env c pieces n rs d st = (case d of
     Done (Relay e) \<Rightarrow> map fst (cs_wire st) = pieces \<and> answered_once env c n rs st
   | Again \<Rightarrow> cc_handshake_failover c \<and> (\<exists>parts. some_parts env (Suc n) parts \<and> cs_replies st = rs @ parts)
   | _ \<Rightarrow> True)"

lemma after_connect_relay:
  assumes ac: "after_connect env c pieces ds r = (d, st')" and wire: "\<forall>e. fst r = Inr (Some e) \<longrightarrow> cs_wire (snd r) = []"
    and parts: "some_parts env n parts" "cs_replies (snd r) = rs @ parts" "\<not> cc_handshake_failover c \<Longrightarrow> parts = []"
  shows "attempt_inv env c pieces n rs d st'"
proof (cases "\<exists>e. fst r = Inr (Some e)")
  case False
  with ac show ?thesis
    by (auto simp: after_connect_def fail_with_def attempt_inv_def split: sum.splits option.splits if_splits)
next
  case True
  then obtain edge where r: "fst r = Inr (Some edge)" by blast
  obtain s st2 where snd: "send_pieces env c ds (length pieces) 0 pieces (snd r) = (s, st2)" by fastforce
  show ?thesis
  proof (cases s)
    case (Inl e)
    with ac r snd show ?thesis by (auto simp: after_connect_def after_send_def fail_with_def attempt_inv_def)
  next
    case (Inr u)
    then have "send_pieces env c ds (length pieces) 0 pieces (snd r) = (Inr (), st2)" using snd by simp
    from send_pieces_ok [OF this] wire r parts(2) have st2: "map fst (cs_wire st2) = pieces" "cs_replies st2 = rs @ parts"
      by auto
    obtain f st3 where f: "forward_response env st2 = (f, st3)" by fastforce
    from ac r snd Inr f have d: "(if cc_handshake_failover c then after_response env edge (f, st3)
        else (Done (Relay edge), st2)) = (d, st')"
      by (auto simp: after_connect_def after_send_def split: if_splits)
    note fc = forward_response_cases [OF f]
    show ?thesis
    proof (cases "cc_handshake_failover c")
      case False
      with d st2 parts(3) show ?thesis by (auto simp: attempt_inv_def answered_once_def)
    next
      case fo: True
      show ?thesis
      proof (cases f)
        case (Inr u)
        with fc st2 obtain a where "a \<noteq> []" "cs_replies st3 = rs @ parts @ [a]" "map fst (cs_wire st3) = pieces" by auto
        with d fo Inr parts(1) show ?thesis by (auto simp: after_response_def attempt_inv_def answered_once_def)
      next
        case (Inl e)
        with fc st2 obtain more where "some_parts env (Suc 0) more" "cs_replies st3 = rs @ parts @ more" by auto
        with some_parts_append [OF parts(1)] have "\<exists>ps. some_parts env (Suc n) ps \<and> cs_replies st3 = rs @ ps"
          by (intro exI [of _ "parts @ more"]) fastforce
        with d fo Inl show ?thesis by (auto simp: after_response_def fail_with_def attempt_inv_def split: if_splits)
      qed
    qed
  qed
qed

lemma retry_hello_relay:
  "retry_hello env c pieces ds k (d0, st0) = (Done (Relay e), st') \<Longrightarrow> attempt_inv env c pieces n rs d0 st0
   \<Longrightarrow> map fst (cs_wire st') = pieces \<and> answered_once env c (n + k) rs st'"
proof (induction k arbitrary: d0 st0 n)
  case (Suc k)
  show ?case
  proof (cases "d0 = Again")
    case False
    with Suc.prems show ?thesis
      by (fastforce simp: attempt_inv_def answered_once_def elim: some_parts_mono)
  next
    case True
    obtain q st1 where conn: "connect_edge env c st0 = (q, st1)" by fastforce
    obtain d2 st2 where ac: "after_connect env c pieces ds (q, st1) = (d2, st2)" by fastforce
    have wire: "\<forall>e. fst (q, st1) = Inr (Some e) \<longrightarrow> cs_wire (snd (q, st1)) = []"
      using connect_edge_wire conn by auto
    obtain parts where "some_parts env (Suc n) parts" "cs_replies (snd (q, st1)) = rs @ parts" "cc_handshake_failover c"
      using connect_edge_replies [OF conn] Suc.prems(2) True by (auto simp: attempt_inv_def)
    with after_connect_relay [OF ac wire] have "attempt_inv env c pieces (Suc n) rs d2 st2" by blast
    moreover have "retry_hello env c pieces ds k (d2, st2) = (Done (Relay e), st')"
      using Suc.prems(1) True conn ac by simp
    ultimately show ?thesis using Suc.IH [of d2 st2 "Suc n"] by simp
  qed
qed (simp add: attempt_inv_def)

lemma relayed_pieces:
  assumes "handle_session env c segs st = (Relay e, st')" "cc_strategy c \<in> set TLS_FRAGMENT_STRATEGIES"
  shows "\<exists>pieces ds. core_pieces c (fst (read_first segs)) = Inr (pieces, ds) \<and> map fst (cs_wire st') = pieces
     \<and> answered_once env c 2 (cs_replies st) st'"
proof -
  let ?first = "fst (read_first segs)" and ?k = "if cc_handshake_failover c then 2 else 0 :: nat"
  obtain q st1 where conn: "connect_edge env c st = (q, st1)" by fastforce
  obtain pieces ds where pieces: "core_pieces c ?first = Inr (pieces, ds)"
    using assms conn by (cases "core_pieces c ?first")
      (auto simp: handle_session_def with_upstream_def hello_attempts_def fail_with_def split: sum.splits option.splits if_splits)
  obtain edge d st2 where edge: "q = Inr (Some edge)"
    and ac: "after_connect env c pieces ds (q, st1) = (d, st2)"
    and re: "end_session (retry_hello env c pieces ds ?k (d, st2)) = (Relay e, st')"
    using assms pieces conn
    by (cases "after_connect env c pieces ds (q, st1)")
      (auto simp: handle_session_def with_upstream_def hello_attempts_def fail_with_def
        split: sum.splits option.splits if_splits)
  obtain d3 st3 where r3: "retry_hello env c pieces ds ?k (d, st2) = (d3, st3)" by fastforce
  with re have "d3 = Done (Relay e)" "st3 = st'" by (auto simp: end_session_def split: attempt.splits)
  with r3 have r: "retry_hello env c pieces ds ?k (d, st2) = (Done (Relay e), st')" by simp
  have wire: "\<forall>e. fst (q, st1) = Inr (Some e) \<longrightarrow> cs_wire (snd (q, st1)) = []"
    using connect_edge_wire conn by auto
  have "attempt_inv env c pieces 0 (cs_replies st) d st2"
    by (rule after_connect_relay [OF ac wire, where parts = "[]"])
      (simp_all add: some_parts_def connect_edge_replies [OF conn])
  from retry_hello_relay [OF r this]
  have "map fst (cs_wire st') = pieces \<and> answered_once env c ?k (cs_replies st) st'" by simp
  then show ?thesis using pieces by (auto simp: answered_once_def intro: some_parts_mono)
qed

text \<open>The pieces of the first record, by strategy.\<close>

lemma core_pieces_stream:
  assumes "core_pieces c first = Inr (pieces, ds)" "stream_strategy (cc_strategy c)"
  shows "concat pieces = first"
proof -
  obtain ps where ps: "fragments first (cc_strategy c) 5 (cc_gene_ops c) = Inr ps" "concat ps = first"
    using fragments_stream [OF assms(2)] by blast
  have "cc_strategy c \<noteq> ''primitive''" using assms(2) by (simp add: stream_strategy_def)
  with ps assms(1) show ?thesis by (simp add: core_pieces_def)
qed

lemma core_pieces_records:
  assumes "core_pieces c first = Inr (pieces, ds)" "cc_strategy c = ''tls_sni_records''"
  shows "concat pieces = first \<or> unwrap_records (concat pieces) = Inr (drop 5 first, pyslice 1 3 first)"
proof -
  have f: "fragments first ''tls_sni_records'' 5 (cc_gene_ops c) = Inr pieces"
    using assms by (auto simp: core_pieces_def elim: rbind_InrE)
  show ?thesis
  proof (cases "2 \<le> length first \<and> first ! 0 = 0x16 \<and> 5 < length first")
    case False
    with f have "pieces = [first]" by (auto simp: fragments_def multi_strategies_def Let_def split: if_splits)
    then show ?thesis by simp
  next
    case True
    then have h: "first ! 0 = 0x16" "5 < length first" by auto
    obtain k where "fragments first ''tls_sni_records'' 5 (cc_gene_ops c) =
        rbind (tls_record (pyslice 1 3 first) (take k (drop 5 first))) (\<lambda>a.
        rbind (tls_record (pyslice 1 3 first) (drop k (drop 5 first))) (\<lambda>b. Inr [a, b]))"
      by (rule fragments_records [OF _ h, of "''tls_sni_records''" 5 "cc_gene_ops c" 0 0]) auto
    with f obtain a b where ab: "tls_record (pyslice 1 3 first) (take k (drop 5 first)) = Inr a"
      "tls_record (pyslice 1 3 first) (drop k (drop 5 first)) = Inr b" "pieces = [a, b]"
      by (auto elim!: rbind_InrE)
    have v: "length (pyslice 1 3 first) = 2" using h(2) by simp
    have p: "take k (drop 5 first) @ drop k (drop 5 first) = drop 5 first" by (rule append_take_drop_id)
    have ne: "drop 5 first \<noteq> []" using h(2) by simp
    from unwrap_two_records [OF ab(1,2) v] have "unwrap_records (a @ b) = Inr (drop 5 first, pyslice 1 3 first)"
      unfolding p using ne by simp
    then show ?thesis using ab(3) by simp
  qed
qed

lemma core_pieces_genes:
  assumes "core_pieces c first = Inr (pieces, ds)" "cc_strategy c = ''primitive''" "\<not> cc_gene_strict c"
  shows "concat pieces = first \<or> (\<exists>hs v. unwrap_records first = Inr (hs, v)
     \<and> unwrap_records (concat pieces) = Inr (take (hello_length hs) hs, v))"
proof -
  obtain plan where plan: "build_plan first (map Raw (filter is_dict (cc_gene_ops c))) False = Inr plan"
    and pieces: "pieces = (if filter (\<lambda>p. p \<noteq> []) (gp_pieces plan) = [] then [first] else filter (\<lambda>p. p \<noteq> []) (gp_pieces plan))"
    using assms by (auto simp: core_pieces_def gene_plan_from_ops_def Let_def elim!: rbind_InrE)
  have join: "concat (filter (\<lambda>p. p \<noteq> []) (gp_pieces plan)) = gp_wire plan"
    using live_plan_wire [OF plan] by (simp add: concat_filter_nonempty)
  show ?thesis
  proof (cases "filter (\<lambda>p. p \<noteq> []) (gp_pieces plan) = []")
    case True
    then show ?thesis using pieces by simp
  next
    case False
    then have "concat pieces = gp_wire plan" using pieces join by simp
    then show ?thesis using live_plan_wire [OF plan] by simp
  qed
qed

text \<open>
  C2: What a session has done when it starts to relay, however many other edges were tried before. With
  \<open>wrong_seq\<close> nothing was written and nothing answered. With a fragmenting strategy the upstream it
  relays to got the pieces planned for the bytes the client sent first, one by one: joined they are
  these bytes, but for \<open>tls_sni_records\<close> they may be two records that unwrap to the same payload and
  version, and for \<open>primitive\<close> (unless it is strict) records that unwrap to the same ClientHello
  message and version. Where the first answer is awaited the client got exactly one non-empty answer
  from the upstream, after at most two parts that failed forwards had passed; otherwise nothing was
  passed to it yet.
\<close>

theorem relayed_session_is_whole:
  assumes "handle_session env c segs st = (Relay e, st')"
  shows "if cc_strategy c \<notin> set TLS_FRAGMENT_STRATEGIES then cs_wire st' = [] \<and> cs_replies st' = cs_replies st
     else (let first = fst (read_first segs); wire = concat (map fst (cs_wire st')) in
       (\<exists>ds. core_pieces c first = Inr (map fst (cs_wire st'), ds))
       \<and> (stream_strategy (cc_strategy c) \<longrightarrow> wire = first)
       \<and> (cc_strategy c = ''tls_sni_records'' \<longrightarrow> wire = first \<or> unwrap_records wire = Inr (drop 5 first, pyslice 1 3 first))
       \<and> (cc_strategy c = ''primitive'' \<and> \<not> cc_gene_strict c \<longrightarrow> wire = first \<or> (\<exists>hs v. unwrap_records first = Inr (hs, v)
            \<and> unwrap_records wire = Inr (take (hello_length hs) hs, v)))
       \<and> (if cc_handshake_failover c
          then \<exists>parts r. r \<noteq> [] \<and> cs_replies st' = cs_replies st @ parts @ [r] \<and> length parts \<le> 2
             \<and> ((\<forall>k. ev_forwarded env k = 0) \<longrightarrow> parts = [])
          else cs_replies st' = cs_replies st))"
proof (cases "cc_strategy c \<in> set TLS_FRAGMENT_STRATEGIES")
  case False
  obtain q st1 where conn: "connect_edge env c st = (q, st1)" by fastforce
  from assms False conn have "q = Inr (Some e)" "st1 = st'"
    by (auto simp: handle_session_def with_upstream_def fail_with_def split: sum.splits option.splits if_splits)
  with conn connect_edge_wire connect_edge_replies False show ?thesis by auto
next
  case True
  from relayed_pieces [OF assms True] obtain ds where
    pieces: "core_pieces c (fst (read_first segs)) = Inr (map fst (cs_wire st'), ds)"
    and once: "answered_once env c 2 (cs_replies st) st'" by blast
  have replies: "if cc_handshake_failover c
      then \<exists>parts r. r \<noteq> [] \<and> cs_replies st' = cs_replies st @ parts @ [r] \<and> length parts \<le> 2
         \<and> ((\<forall>k. ev_forwarded env k = 0) \<longrightarrow> parts = [])
      else cs_replies st' = cs_replies st"
    using once unfolding answered_once_def some_parts_def whole_forwards_def by (auto split: if_splits)
  show ?thesis unfolding Let_def
    using True replies pieces core_pieces_stream [OF pieces] core_pieces_records [OF pieces] core_pieces_genes [OF pieces]
    by simp
qed

lemma clamp_attr_range: "clamp_attr t n d lo hi = Inr v \<Longrightarrow> lo \<le> hi \<Longrightarrow> lo \<le> v \<and> v \<le> hi"
  by (auto simp: clamp_attr_def rbind_eq_Inr_iff clamp_bounds)

definition quality_ok :: "quality \<Rightarrow> bool" where
  "quality_ok q \<longleftrightarrow> 0 \<le> q_inject_delay_ms q \<and> q_inject_delay_ms q \<le> 20
     \<and> 500 \<le> q_ack_timeout_ms q \<and> q_ack_timeout_ms q \<le> 10000
     \<and> 500 \<le> q_connect_timeout_ms q \<and> q_connect_timeout_ms q \<le> 10000
     \<and> 32 \<le> q_relay_buffer_kb q \<and> q_relay_buffer_kb q \<le> 1024
     \<and> 64 \<le> q_socket_buffer_kb q \<and> q_socket_buffer_kb q \<le> 8192
     \<and> 2 \<le> q_max_sessions q \<and> q_max_sessions q \<le> 64
     \<and> 1 \<le> q_edge_failure_cooldown_s q \<and> q_edge_failure_cooldown_s q \<le> 60
     \<and> 5 \<le> q_keepalive_idle_s q \<and> q_keepalive_idle_s q \<le> 120
     \<and> 1 \<le> q_keepalive_interval_s q \<and> q_keepalive_interval_s q \<le> 60
     \<and> 1 \<le> q_keepalive_count q \<and> q_keepalive_count q \<le> 10"

lemma quality_from_tuning_ok: "quality_from_tuning t = Inr q \<Longrightarrow> quality_ok q"
  by (clarsimp simp: quality_from_tuning_def rbind_eq_Inr_iff quality_ok_def, (drule clamp_attr_range, simp)+, simp)

lemma build_edges_ok:
  assumes "build_edges profile t = Inr edges"
  shows "edges \<noteq> [] \<and> distinct edges \<and> (\<forall>ip \<in> set edges. is_ipv4 ip)"
proof -
  obtain raw where e: "edges = uniq (filter (\<lambda>ip. ip \<noteq> []) (map (\<lambda>v. valid_ipv4 (JStr v)) raw))" "edges \<noteq> []"
    using assms unfolding build_edges_def Let_def
    by (metis (no_types, lifting) Inl_Inr_False Inr_inject)
  have "is_ipv4 ip" if "ip \<in> set edges" for ip
    using that valid_ipv4_cases by (auto simp: e(1))
  with e show ?thesis by simp
qed

lemma fragment_delay_range:
  assumes "fragment_delay t s f = Inr d"
  shows "0 \<le> d \<and> d \<le> 80 / 1000"
proof -
  define d0 where "d0 = (if f then dict_get_or [(''full20'', 3 / 1000), (''full5'', 15 / 1000),
      (''tls_sni_records'', 10 / 1000)] s 0 else (0 :: rat))"
  define multi where "multi = (s \<in> {''full5'', ''full10'', ''full20'', ''multi'', ''multi64''})"
  have range0: "0 \<le> d0 \<and> d0 \<le> 80 / 1000" by (simp add: d0_def dict_get_or_def dict_get_def)
  have "\<exists>n :: int. d = (if n > 0 then of_int (clamp 0 80 n) / 1000 else d0)"
  proof (cases "d0 \<le> 0 \<and> s \<in> set TLS_FRAGMENT_STRATEGIES")
    case False
    with assms have "d = d0" unfolding fragment_delay_def Let_def d0_def [symmetric] by auto
    then show ?thesis by (intro exI [of _ 0]) simp
  next
    case True
    with assms show ?thesis unfolding fragment_delay_def Let_def d0_def [symmetric] multi_def [symmetric]
      by (auto simp only: rbind_eq_Inr_iff if_True sum.inject split: if_split_asm)
  qed
  then obtain n :: int where n: "d = (if n > 0 then of_int (clamp 0 80 n) / 1000 else d0)" by blast
  have "0 \<le> of_int (clamp 0 80 n) / (1000 :: rat) \<and> of_int (clamp 0 80 n) / (1000 :: rat) \<le> 80 / 1000"
    using clamp_bounds [of 0 80 n] by (simp add: divide_le_cancel)
  with n range0 show ?thesis by simp
qed

lemma chosen_strategy_known: "chosen_strategy forced \<in> insert ''wrong_seq'' (set TLS_FRAGMENT_STRATEGIES)"
  by (simp add: chosen_strategy_def Let_def)

lemma configure_Inr:
  assumes "configure codec loads profile t forced = Inr c"
  obtains "quality_from_tuning t = Inr (cc_quality c)" "cc_strategy c = chosen_strategy forced"
    "fragment_delay t (cc_strategy c) (cc_handshake_failover c) = Inr (cc_fragment_delay_s c)"
    "\<exists>b. fake_sni_bytes codec (cc_fake_sni c) = Inr b" "build_edges profile t = Inr (cc_edges c)"
    "cc_hybrid c = (cc_handshake_failover c \<and> cc_strategy c = ''full5'')"
  using assms by (auto simp: configure_def Let_def rbind_eq_Inr_iff)

lemma fake_sni_accepted:
  assumes "fake_sni_bytes codec s = Inr b"
  shows "b \<noteq> [] \<and> length b \<le> 219"
  using assms by (auto simp: fake_sni_bytes_def split: sum.splits if_splits)

text \<open>
  C28: A configuration that \<open>start\<close> accepts is usable: the strategy is one the session code knows,
  every quality value is in its range, the pause between pieces is at most 80 ms, the edge list
  is not empty and holds different well-formed IPv4 addresses, and for every key material of the
  right size the fake host name fits the ClientHello template: the hello has 517 bytes and
  carries exactly that name.
\<close>

theorem accepted_configuration_is_usable:
  assumes "configure codec loads profile t forced = Inr c"
    and "length rnd = 32" "length sess = 32" "length key = 32"
  shows "cc_strategy c \<in> insert ''wrong_seq'' (set TLS_FRAGMENT_STRATEGIES) \<and> quality_ok (cc_quality c)
     \<and> 0 \<le> cc_fragment_delay_s c \<and> cc_fragment_delay_s c \<le> 80 / 1000
     \<and> cc_edges c \<noteq> [] \<and> distinct (cc_edges c) \<and> (\<forall>ip \<in> set (cc_edges c). is_ipv4 ip)
     \<and> (\<exists>sni h. fake_sni_bytes codec (cc_fake_sni c) = Inr sni
          \<and> get_client_hello_with rnd sess sni key = Inr h \<and> length h = 517
          \<and> locate_sni h = Some (127, length sni) \<and> take (length sni) (drop 127 h) = sni)"
  using assms(1)
proof (rule configure_Inr)
  assume q: "quality_from_tuning t = Inr (cc_quality c)" and s: "cc_strategy c = chosen_strategy forced"
    and d: "fragment_delay t (cc_strategy c) (cc_handshake_failover c) = Inr (cc_fragment_delay_s c)"
    and e: "build_edges profile t = Inr (cc_edges c)" and "\<exists>b. fake_sni_bytes codec (cc_fake_sni c) = Inr b"
  then obtain sni where sni: "fake_sni_bytes codec (cc_fake_sni c) = Inr sni" by blast
  then have len: "length sni \<le> 219" using fake_sni_accepted by blast
  have "take (length sni) (drop 127 (client_hello_bytes rnd sess sni key)) = sni"
    using client_hello_sni [OF assms(2-4), of sni] by (simp add: pyslice_def)
  with len assms(2-4) have "\<exists>h. get_client_hello_with rnd sess sni key = Inr h \<and> length h = 517
      \<and> locate_sni h = Some (127, length sni) \<and> take (length sni) (drop 127 h) = sni"
    by (simp add: get_client_hello_with_eq client_hello_bytes_length locate_sni_fake_hello)
  with sni quality_from_tuning_ok [OF q] fragment_delay_range [OF d] build_edges_ok [OF e] chosen_strategy_known s
  show ?thesis by metis
qed

text \<open>Concrete inputs for the witnesses.\<close>

definition sample_config :: core_config where
  "sample_config =
     \<lparr>cc_strategy = ''full5'', cc_quality = \<lparr>q_inject_delay_ms = 1, q_ack_timeout_ms = 3000, q_connect_timeout_ms = 2500,
        q_relay_buffer_kb = 512, q_socket_buffer_kb = 4096, q_max_sessions = 12, q_edge_failure_cooldown_s = 8,
        q_keepalive_idle_s = 11, q_keepalive_interval_s = 3, q_keepalive_count = 3, q_upload_optimized = True\<rparr>,
      cc_handshake_failover = True, cc_hybrid = True, cc_fragment_delay_s = 15 / 1000, cc_post_fake_delay_s = 0,
      cc_fake_sni = ''chatgpt.com'', cc_gene_strict = False, cc_gene_ops = [],
      cc_edges = [''104.18.8.83'', ''104.18.9.83'']\<rparr>"

definition sample_env :: core_env where
  \<comment> \<open>the first edge refuses, the second works; the first wait for an answer times out\<close>
  "sample_env =
     \<lparr>ev_now = (\<lambda>k. if k < 7 then 5 else 100), ev_connect = (\<lambda>_ e. if e = ''104.18.9.83'' then Inr () else Inl OSError),
      ev_verdict = (\<lambda>_ _. Inr ''fake_data_ack_recv''), ev_send = (\<lambda>_. Inr ()),
      ev_response = (\<lambda>k. if k < 8 then Inl PyTimeout else Inr [22, 3, 3]), ev_forward = (\<lambda>_. Inr ()), ev_forwarded = (\<lambda>_. 0),
      ev_peer = (\<lambda>_. True)\<rparr>"

definition fresh_core :: core_state where
  "fresh_core = \<lparr>cs_preferred = None, cs_failed_until = [], cs_upload = 0, cs_download = 0, cs_calls = 0,
     cs_wire = [], cs_replies = []\<rparr>"

theorem connect_finds_working_edge_witness:
  "\<exists>d st'. connect_edge sample_env sample_config fresh_core = (Inr (Some d), st') \<and> d = ''104.18.9.83''"
proof -
  have a: "answers sample_env sample_config (\<lambda>e. e = ''104.18.9.83'')"
    by (simp add: answers_def dial_def sample_env_def caught_def)
  have e: "''104.18.9.83'' \<in> set (cc_edges sample_config)" by (simp add: sample_config_def)
  have h: "\<forall>k. dict_get_or (cs_failed_until fresh_core) ''104.18.9.83'' 0 \<le> ev_now sample_env k"
    by (simp add: fresh_core_def sample_env_def dict_get_or_def)
  from connect_finds_working_edge [OF a e refl h] show ?thesis by blast
qed

theorem relayed_session_is_whole_witness:
  "case handle_session sample_env sample_config [[22, 3, 1, 0, 2], [1, 0]] fresh_core of
     (Relay e, st') \<Rightarrow> concat (map fst (cs_wire st')) = [22, 3, 1, 0, 2, 1, 0] \<and> cs_replies st' = [[22, 3, 3]]
   | _ \<Rightarrow> False"
proof -
  obtain o1 st' where h: "handle_session sample_env sample_config [[22, 3, 1, 0, 2], [1, 0]] fresh_core = (o1, st')"
    by fastforce
  have r: "(case handle_session sample_env sample_config [[22, 3, 1, 0, 2], [1, 0]] fresh_core of
      (Relay e, st') \<Rightarrow> cs_replies st' = [[22, 3, 3]] | _ \<Rightarrow> False)" by code_simp
  with h obtain e where e: "o1 = Relay e" "cs_replies st' = [[22, 3, 3]]" by (cases o1) auto
  have s: "cc_strategy sample_config \<in> set TLS_FRAGMENT_STRATEGIES" "stream_strategy (cc_strategy sample_config)"
    "fst (read_first [[22, 3, 1, 0, 2], [1, 0]]) = [22, 3, 1, 0, 2, 1, 0]" by code_simp+
  from relayed_session_is_whole [OF h [unfolded e(1)]] s have "concat (map fst (cs_wire st')) = [22, 3, 1, 0, 2, 1, 0]"
    by (simp add: Let_def)
  with e h show ?thesis by simp
qed

theorem accepted_configuration_is_usable_witness:
  "\<exists>c. configure (\<lambda>_. Inl ValueError) (\<lambda>_. Inl ValueError) [] [] (Some ''full5'') = Inr c
     \<and> quality_ok (cc_quality c) \<and> cc_edges c \<noteq> []"
proof -
  have "case configure (\<lambda>_. Inl ValueError) (\<lambda>_. Inl ValueError) [] [] (Some ''full5'') of Inl _ \<Rightarrow> False | Inr _ \<Rightarrow> True"
    by code_simp
  then obtain c where c: "configure (\<lambda>_. Inl ValueError) (\<lambda>_. Inl ValueError) [] [] (Some ''full5'') = Inr c"
    by (cases "configure (\<lambda>_. Inl ValueError) (\<lambda>_. Inl ValueError) [] [] (Some ''full5'')") auto
  from accepted_configuration_is_usable [OF c, of "replicate 32 0" "replicate 32 0" "replicate 32 0"] c
  show ?thesis by auto
qed

section \<open>Reading the first record\<close>

lemma recv_stream: "fst (recv n segs) @ concat (snd (recv n segs)) = concat segs"
  by (cases "(n, segs)" rule: recv.cases) auto

lemma recv_length: "0 \<le> n \<Longrightarrow> int (length (fst (recv n segs))) \<le> n"
  by (cases "(n, segs)" rule: recv.cases) auto

lemma recv_nonempty:
  "0 < n \<Longrightarrow> segs \<noteq> [] \<Longrightarrow> [] \<notin> set segs \<Longrightarrow> fst (recv n segs) \<noteq> [] \<and> [] \<notin> set (snd (recv n segs))"
  by (cases "(n, segs)" rule: recv.cases) (auto split: if_splits)

lemma read_more_stream:
  "fst (read_more n first segs) @ concat (snd (read_more n first segs)) = first @ concat segs"
proof (induction n first segs rule: read_more.induct)
  case (1 n first segs)
  show ?case
  proof (cases "length first < n \<and> fst (recv (int n - int (length first)) segs) \<noteq> []")
    case True
    then show ?thesis
      using "1.IH" recv_stream [of "int n - int (length first)" segs]
      by (subst (1 2) read_more.simps) (simp add: case_prod_beta Let_def)
  next
    case False
    then show ?thesis using recv_stream [of "int n - int (length first)" segs]
      by (subst (1 2) read_more.simps) (auto simp: case_prod_beta Let_def)
  qed
qed

lemma read_more_length:
  assumes "[] \<notin> set segs" "n \<le> length first + length (concat segs)" "length first \<le> n"
  shows "length (fst (read_more n first segs)) = n"
  using assms
proof (induction n first segs rule: read_more.induct)
  case (1 n first segs)
  let ?r = "recv (int n - int (length first)) segs"
  show ?case
  proof (cases "length first < n")
    case False
    with 1(4) show ?thesis by (subst read_more.simps) simp
  next
    case True
    then have "segs \<noteq> []" using 1(3) by auto
    with recv_nonempty [of "int n - int (length first)" segs] True 1(2)
    have r: "fst ?r \<noteq> []" "[] \<notin> set (snd ?r)" by simp_all
    have "length (concat segs) = length (fst ?r) + length (concat (snd ?r))"
      using recv_stream [of "int n - int (length first)" segs] by (metis length_append)
    with 1(3) have "n \<le> length (first @ fst ?r) + length (concat (snd ?r))" by simp
    moreover have "length (first @ fst ?r) \<le> n"
      using recv_length [of "int n - int (length first)" segs] True by simp
    ultimately have "length (fst (read_more n (first @ fst ?r) (snd ?r))) = n"
      using "1.IH" [OF True r(1)] r(2) by blast
    with True r(1) show ?thesis by (subst read_more.simps) simp
  qed
qed

text \<open>
  The session reads a whole ClientHello record before it cuts it: when the first bytes that
  arrive hold a handshake record header and the record arrives at all, in whatever segments, the
  bytes read begin the stream, hold the complete record and nothing of the stream is lost; no
  more is read than the first segment or the record, whichever is longer.
\<close>

theorem hello_read_whole:
  assumes "[] \<notin> set segs" "f = fst (recv 65535 segs)" "5 \<le> length f" "f ! 0 = 0x16"
    and "5 + from_be (pyslice 3 5 f) \<le> length (concat segs)"
  shows "fst (read_first segs) @ concat (snd (read_first segs)) = concat segs
     \<and> length (fst (read_first segs)) = max (length f) (5 + from_be (pyslice 3 5 f))"
proof -
  let ?r = "recv 65535 segs" and ?n = "5 + from_be (pyslice 3 5 f)"
  have n: "expected_length f = ?n" using assms(3,4) by (simp add: expected_length_def)
  have rf: "read_first segs = read_more ?n f (snd ?r)"
    using assms(2,3) n by (auto simp: read_first_def read_record_def)
  have cat: "f @ concat (snd ?r) = concat segs" using recv_stream [of 65535 segs] assms(2) by simp
  have "segs \<noteq> []" using assms(5) by auto
  then have "[] \<notin> set (snd ?r)" using recv_nonempty [of 65535 segs] assms(1) by simp
  moreover have "?n \<le> length f + length (concat (snd ?r))"
    using assms(5) arg_cong [OF cat, of length] by (simp only: length_append)
  ultimately have "length f \<le> ?n \<Longrightarrow> length (fst (read_more ?n f (snd ?r))) = ?n"
    by (rule read_more_length)
  moreover have "\<not> length f \<le> ?n \<Longrightarrow> fst (read_more ?n f (snd ?r)) = f"
    by (subst read_more.simps) simp
  ultimately have "length (fst (read_more ?n f (snd ?r))) = max (length f) ?n"
    by (cases "length f \<le> ?n") (simp_all only: max_def if_True if_False not_False_eq_True simp_thms)
  with rf cat read_more_stream [of ?n f "snd ?r"] show ?thesis by simp
qed

theorem hello_read_whole_witness:
  "fst (read_first [[22, 3, 1, 0, 3], [1], [0, 9, 7]]) @ concat (snd (read_first [[22, 3, 1, 0, 3], [1], [0, 9, 7]]))
     = [22, 3, 1, 0, 3, 1, 0, 9, 7]
   \<and> length (fst (read_first [[22, 3, 1, 0, 3], [1], [0, 9, 7]])) = 8"
  using hello_read_whole [of "[[22, 3, 1, 0, 3], [1], [0, 9, 7]]" "[22, 3, 1, 0, 3]"]
  by (simp add: pyslice_def from_be_two)

end
