(* ===== verification/Py_Float.thy ===== *)
theory Py_Float
  imports Py_Json
begin

text \<open>
  Python's \<open>float\<close> as the sources use it: \<open>float(x)\<close> of a JSON value, the comparisons behind
  \<open>min\<close> and \<open>max\<close> with their behaviour on infinities and NaN, and the text of a float. A finite
  float is an exact rational: rounding to 53 bits is not modelled, the overflow limit is.
\<close>

datatype pyfloat = Fin rat | PInf | NInf | NaN

definition float_limit :: int where
  \<comment> \<open>the least integer that rounds beyond the largest double\<close>
  "float_limit = 2 ^ 1024 - 2 ^ 970"

definition fin :: "rat \<Rightarrow> pyfloat" where
  "fin r = (if r \<ge> of_int float_limit then PInf else if r \<le> - of_int float_limit then NInf else Fin r)"

section \<open>Text to float\<close>

definition digit_part :: "string \<Rightarrow> nat option" where
  "digit_part s = (if s = [] then Some 0 else digits_val 0 False s)"

definition digit_count :: "string \<Rightarrow> nat" where
  "digit_count s = length (filter is_ascii_digit s)"

definition mantissa :: "string \<Rightarrow> rat option" where
  \<comment> \<open>digits with an optional point, at least one digit on one side\<close>
  "mantissa s = (let ip = takeWhile (\<lambda>c. c \<noteq> CHR ''.'') s; fp = drop (Suc (length ip)) s
     in if ip = [] \<and> fp = [] then None
        else case (digit_part ip, digit_part fp) of
          (Some a, Some b) \<Rightarrow> Some (of_nat a + of_nat b / 10 ^ digit_count fp)
        | _ \<Rightarrow> None)"

definition unsigned_int :: "string \<Rightarrow> int option" where
  \<comment> \<open>an exponent: an optional sign and digits\<close>
  "unsigned_int s = (case s of
     [] \<Rightarrow> None
   | c # cs \<Rightarrow> if c = CHR ''-'' then map_option (\<lambda>n. - int n) (digits_val 0 False cs)
       else if c = CHR ''+'' then map_option int (digits_val 0 False cs)
       else map_option int (digits_val 0 False s))"

definition scale10 :: "rat \<Rightarrow> int \<Rightarrow> rat" where
  "scale10 m e = (if e < 0 then m / 10 ^ nat (- e) else m * 10 ^ nat e)"

definition number_text :: "string \<Rightarrow> rat option" where
  "number_text s = (let m = takeWhile (\<lambda>c. c \<noteq> CHR ''e'') s; e = drop (Suc (length m)) s
     in if length m = length s then mantissa m
        else case (mantissa m, unsigned_int e) of (Some r, Some k) \<Rightarrow> Some (scale10 r k) | _ \<Rightarrow> None)"

definition unsigned_float :: "string \<Rightarrow> pyfloat option" where
  "unsigned_float s =
     (if s = ''inf'' \<or> s = ''infinity'' then Some PInf
      else if s = ''nan'' then Some NaN
      else map_option fin (number_text s))"

definition negate :: "pyfloat \<Rightarrow> pyfloat" where
  "negate x = (case x of Fin r \<Rightarrow> Fin (- r) | PInf \<Rightarrow> NInf | NInf \<Rightarrow> PInf | NaN \<Rightarrow> NaN)"

definition py_float :: "string \<Rightarrow> pyfloat option" where
  \<comment> \<open>\<open>float(text)\<close>; \<open>None\<close> is the \<open>ValueError\<close>\<close>
  "py_float s = (case lower (strip s) of
     [] \<Rightarrow> None
   | c # cs \<Rightarrow> if c = CHR ''-'' then map_option negate (unsigned_float cs)
       else if c = CHR ''+'' then unsigned_float cs
       else unsigned_float (c # cs))"

definition py_float_of :: "json \<Rightarrow> pyfloat res" where
  \<comment> \<open>\<open>float(x)\<close>\<close>
  "py_float_of j = (case j of
     JBool b \<Rightarrow> Inr (Fin (if b then 1 else 0))
   | JInt i \<Rightarrow> (if \<bar>i\<bar> \<ge> float_limit then Inl OverflowError else Inr (Fin (of_int i)))
   | JFloat r _ \<Rightarrow> Inr (Fin r)
   | JInf neg \<Rightarrow> Inr (if neg then NInf else PInf)
   | JNan \<Rightarrow> Inr NaN
   | JStr s \<Rightarrow> (case py_float s of None \<Rightarrow> Inl ValueError | Some x \<Rightarrow> Inr x)
   | JNull \<Rightarrow> Inl TypeError | JArr _ \<Rightarrow> Inl TypeError | JObj _ \<Rightarrow> Inl TypeError)"

section \<open>Comparing and converting\<close>

definition flt_lt :: "pyfloat \<Rightarrow> pyfloat \<Rightarrow> bool" where
  "flt_lt x y = (case (x, y) of
     (Fin a, Fin b) \<Rightarrow> a < b
   | (Fin _, PInf) \<Rightarrow> True | (NInf, Fin _) \<Rightarrow> True | (NInf, PInf) \<Rightarrow> True
   | _ \<Rightarrow> False)"

definition py_min :: "pyfloat \<Rightarrow> pyfloat \<Rightarrow> pyfloat" where
  \<comment> \<open>\<open>min(x, y)\<close> keeps \<open>x\<close> unless \<open>y < x\<close>\<close>
  "py_min x y = (if flt_lt y x then y else x)"

definition py_max :: "pyfloat \<Rightarrow> pyfloat \<Rightarrow> pyfloat" where
  "py_max x y = (if flt_lt x y then y else x)"

definition flt_add :: "pyfloat \<Rightarrow> rat \<Rightarrow> pyfloat" where
  "flt_add x r = (case x of Fin a \<Rightarrow> fin (a + r) | _ \<Rightarrow> x)"

definition flt_trunc :: "pyfloat \<Rightarrow> int res" where
  \<comment> \<open>\<open>int(x)\<close>\<close>
  "flt_trunc x = (case x of Fin r \<Rightarrow> Inr (trunc_rat r) | NaN \<Rightarrow> Inl ValueError | _ \<Rightarrow> Inl OverflowError)"

definition fin_or :: "rat \<Rightarrow> pyfloat \<Rightarrow> rat" where
  "fin_or d x = (case x of Fin r \<Rightarrow> r | _ \<Rightarrow> d)"

section \<open>The text of a float\<close>

fun frac_digits :: "nat \<Rightarrow> rat \<Rightarrow> string" where
  "frac_digits 0 r = []"
| "frac_digits (Suc k) r =
     (if r = 0 then [] else digit_char (nat \<lfloor>r * 10\<rfloor>) # frac_digits k (r * 10 - of_int \<lfloor>r * 10\<rfloor>))"

definition float_text :: "rat \<Rightarrow> string" where
  \<comment> \<open>\<open>repr\<close> of a float that has at most 17 decimals, in plain notation\<close>
  "float_text r = (let a = \<bar>r\<bar>; ip = \<lfloor>a\<rfloor>; fp = frac_digits 17 (a - of_int ip)
     in (if r < 0 then ''-'' else []) @ int_str ip @ ''.'' @ (if fp = [] then ''0'' else fp))"

definition JNum :: "rat \<Rightarrow> json" where
  "JNum r = JFloat r (float_text r)"

definition json_of_float :: "pyfloat \<Rightarrow> json" where
  "json_of_float x = (case x of Fin r \<Rightarrow> JNum r | PInf \<Rightarrow> JInf False | NInf \<Rightarrow> JInf True | NaN \<Rightarrow> JNan)"

section \<open>Lemmas\<close>

lemma py_float_of_simps [simp]:
  "py_float_of (JFloat r t) = Inr (Fin r)" "py_float_of (JNum r) = Inr (Fin r)"
  "py_float_of (JBool b) = Inr (Fin (if b then 1 else 0))"
  "py_float_of JNull = Inl TypeError" "py_float_of JNan = Inr NaN"
  by (simp_all add: py_float_of_def JNum_def)

lemma float_limit_big: "10 ^ 18 < float_limit"
  unfolding float_limit_def by simp

lemma py_float_of_int [simp]: "\<bar>i\<bar> \<le> 10 ^ 18 \<Longrightarrow> py_float_of (JInt i) = Inr (Fin (of_int i))"
  using float_limit_big by (simp add: py_float_of_def)

lemma py_min_max_range:
  assumes "lo \<le> hi"
  shows "\<exists>r. py_max (Fin lo) (py_min (Fin hi) x) = Fin r \<and> lo \<le> r \<and> r \<le> hi"
  using assms by (cases x) (auto simp: py_max_def py_min_def flt_lt_def)

lemma py_clamp_id: "lo \<le> r \<Longrightarrow> r \<le> hi \<Longrightarrow> py_max (Fin lo) (py_min (Fin hi) (Fin r)) = Fin r"
  by (auto simp: py_max_def py_min_def flt_lt_def)

lemma truthy_JNum [simp]: "truthy (JNum r) = (r \<noteq> 0)"
  by (simp add: JNum_def truthy_def)

lemma trunc_rat_of_int [simp]: "trunc_rat (of_int i) = i"
  by (simp add: trunc_rat_def)

lemma flt_trunc_Fin [simp]: "flt_trunc (Fin r) = Inr (trunc_rat r)"
  by (simp add: flt_trunc_def)

end
