(* ===== verification/Pow_Regions.thy ===== *)
theory Pow_Regions
  imports Py_Float
begin

text \<open>
  \<open>pow/regions.py\<close> and the readers of \<open>pow/identity.py\<close>: country codes of the exit, the scalar
  reader for the identity file and the identity status drawn from it. Files are the text read from
  them, or \<open>None\<close> when there is no readable file. The labels for the user interface are left out.
\<close>

section \<open>Regions\<close>

definition BUNDLED :: "(string, string) dict" where
  "BUNDLED = [(''AT'', ''Austria''), (''AU'', ''Australia''), (''BE'', ''Belgium''), (''CA'', ''Canada''),
     (''CH'', ''Switzerland''), (''CZ'', ''Czechia''), (''DE'', ''Germany''), (''DK'', ''Denmark''),
     (''ES'', ''Spain''), (''FI'', ''Finland''), (''FR'', ''France''), (''GB'', ''United Kingdom''),
     (''ID'', ''Indonesia''), (''IE'', ''Ireland''), (''IN'', ''India''), (''IT'', ''Italy''),
     (''JP'', ''Japan''), (''NL'', ''Netherlands''), (''NO'', ''Norway''), (''PL'', ''Poland''),
     (''RO'', ''Romania''), (''RS'', ''Serbia''), (''SE'', ''Sweden''), (''SG'', ''Singapore''),
     (''US'', ''United States'')]"

definition EXTRA_NAMES :: "(string, string) dict" where
  "EXTRA_NAMES = [(''AE'', ''United Arab Emirates''), (''AR'', ''Argentina''), (''BG'', ''Bulgaria''),
     (''BR'', ''Brazil''), (''CL'', ''Chile''), (''EE'', ''Estonia''), (''GR'', ''Greece''),
     (''HK'', ''Hong Kong''), (''HU'', ''Hungary''), (''IL'', ''Israel''), (''IS'', ''Iceland''),
     (''KR'', ''South Korea''), (''LT'', ''Lithuania''), (''LV'', ''Latvia''), (''MD'', ''Moldova''),
     (''MX'', ''Mexico''), (''MY'', ''Malaysia''), (''NZ'', ''New Zealand''), (''PT'', ''Portugal''),
     (''SK'', ''Slovakia''), (''TR'', ''T'' @ [CHR 0xFC] @ ''rkiye''), (''TW'', ''Taiwan''),
     (''UA'', ''Ukraine'')]"

definition ALL_NAMES :: "(string, string) dict" where
  "ALL_NAMES = dict_set_all EXTRA_NAMES BUNDLED"

definition AUTOMATIC :: string where "AUTOMATIC = []"

definition is_code :: "string \<Rightarrow> bool" where
  "is_code code = (let key = upper (strip code) in length key = 2 \<and> list_all is_ascii_alpha key)"

definition normalize_region :: "string \<Rightarrow> string" where
  "normalize_region code = (let key = upper (strip code) in if is_code key then lower key else AUTOMATIC)"

definition egress_region :: "string \<Rightarrow> string option" where
  "egress_region code = (let normalized = normalize_region code in if normalized = [] then None else Some (upper normalized))"

definition region_name :: "string \<Rightarrow> string" where
  "region_name code = (let key = upper (normalize_region code) in if key = [] then [] else dict_get_or ALL_NAMES key key)"

section \<open>The scalars of the identity file\<close>

definition triple_quote :: string where
  "triple_quote = replicate 3 (CHR 0x22)"

definition drop_last :: "nat \<Rightarrow> 'a list \<Rightarrow> 'a list" where
  \<comment> \<open>\<open>s[:-n]\<close>\<close>
  "drop_last n s = take (length s - n) s"

record toml_state =
  ts_out :: "(string, string) dict"
  ts_multi :: "(string \<times> string list) option" \<comment> \<open>the open multi-line value: its key and its lines\<close>

definition unquote_value :: "string \<Rightarrow> string" where
  "unquote_value v =
     (if length v \<ge> 2 \<and> hd v = last v \<and> (hd v = CHR 0x22 \<or> hd v = CHR 0x27) then drop_last 1 (tl v) else v)"

definition toml_entry :: "string \<Rightarrow> string \<Rightarrow> toml_state \<Rightarrow> toml_state" where
  \<comment> \<open>one \<open>key = value\<close> line\<close>
  "toml_entry key v st =
     (if startswith v triple_quote then
        (let rest = drop 3 v in
         if endswith rest triple_quote \<and> length rest \<ge> 3 then st\<lparr>ts_out := dict_set key (drop_last 3 rest) (ts_out st)\<rparr>
         else st\<lparr>ts_multi := Some (key, if rest = [] then [] else [rest])\<rparr>)
      else st\<lparr>ts_out := dict_set key (unquote_value v) (ts_out st)\<rparr>)"

definition toml_line :: "string \<Rightarrow> toml_state \<Rightarrow> toml_state" where
  "toml_line raw st =
     (case ts_multi st of
        Some kc \<Rightarrow>
          (if endswith (strip raw) triple_quote
           then st\<lparr>ts_out := dict_set (fst kc) (join [CHR 0x0A] (snd kc @ [drop_last 3 (strip raw)])) (ts_out st), ts_multi := None\<rparr>
           else st\<lparr>ts_multi := Some (fst kc, snd kc @ [raw])\<rparr>)
      | None \<Rightarrow>
          (let s = strip raw in
           if s = [] \<or> startswith s ''#'' \<or> startswith s ''['' then st
           else case find_sub ''='' s of
             None \<Rightarrow> st
           | Some eq \<Rightarrow> if eq = 0 then st else toml_entry (strip (take eq s)) (strip (drop (Suc eq) s)) st))"

definition parse_toml_scalars :: "string \<Rightarrow> (string, string) dict" where
  "parse_toml_scalars text = ts_out (fold toml_line (splitlines text) \<lparr>ts_out = [], ts_multi = None\<rparr>)"

section \<open>The identity\<close>

record identity_status =
  is_present :: bool
  is_enrolled :: bool
  is_device_id :: string
  is_ipv4_addr :: string
  is_ipv6_addr :: string
  is_endpoint :: string
  is_organization :: string
  is_masque_certificate :: bool
  is_issued_at_epoch_sec :: int
  is_peer_public_prefix :: string

definition no_identity :: identity_status where
  "no_identity = \<lparr>is_present = False, is_enrolled = False, is_device_id = [], is_ipv4_addr = [], is_ipv6_addr = [],
     is_endpoint = [], is_organization = [], is_masque_certificate = False, is_issued_at_epoch_sec = 0,
     is_peer_public_prefix = []\<rparr>"

definition read_identity :: "string option \<Rightarrow> identity_status" where
  "read_identity file = (case file of
     None \<Rightarrow> no_identity
   | Some text \<Rightarrow>
       let fields = parse_toml_scalars text; get = (\<lambda>k. dict_get_or fields k []);
           issued = dict_get_or fields ''cert_issued_at'' ''0''
       in \<lparr>is_present = True,
           is_enrolled = (length (get ''access_token'') > 8 \<and> length (get ''wg_private_key'') > 20),
           is_device_id = get ''device_id'', is_ipv4_addr = get ''ipv4'', is_ipv6_addr = get ''ipv6'',
           is_endpoint = get ''assigned_endpoint'', is_organization = get ''organization'',
           is_masque_certificate = contains ''BEGIN CERTIFICATE'' (get ''cert_pem''),
           is_issued_at_epoch_sec = (case py_int (if issued = [] then ''0'' else issued) of None \<Rightarrow> 0 | Some n \<Rightarrow> n),
           is_peer_public_prefix = take 16 (get ''wg_peer_public_key'')\<rparr>)"

definition py_iter :: "json \<Rightarrow> json list res" where
  \<comment> \<open>what a \<open>for\<close> over the value runs through\<close>
  "py_iter j = (case j of
     JArr xs \<Rightarrow> Inr xs
   | JStr s \<Rightarrow> Inr (map (\<lambda>c. JStr [c]) s)
   | JObj d \<Rightarrow> Inr (map (\<lambda>kv. JStr (fst kv)) d)
   | _ \<Rightarrow> Inl TypeError)"

definition read_clean_h2_peers :: "json res \<Rightarrow> string list res" where
  \<comment> \<open>the argument is the parsed file, or why it could not be read\<close>
  "read_clean_h2_peers doc = (case doc of
     Inr (JObj d) \<Rightarrow> rbind (py_iter (dict_get_or d ''peers'' (JArr []))) (\<lambda>peers.
       Inr (filter (\<lambda>p. contains ''.'' p \<or> contains '':'' p) (map py_str peers)))
   | _ \<Rightarrow> Inr [])"

section \<open>Lemmas\<close>

lemma upper_char_lower_char: "is_ascii_alpha c \<Longrightarrow> upper_char (lower_char c) = upper_char c"
proof -
  let ?n = "of_char c :: nat"
  assume "is_ascii_alpha c"
  then consider "65 \<le> ?n" "?n \<le> 90" | "97 \<le> ?n" "?n \<le> 122" by (auto simp: is_ascii_alpha_def Let_def)
  then show ?thesis
  proof cases
    case 1
    then have "(?n + 32) mod 256 = ?n + 32" by simp
    with 1 have "of_char (lower_char c) = ?n + 32" by (simp add: lower_char_def Let_def)
    with 1 show ?thesis by (simp add: upper_char_def)
  next
    case 2
    then show ?thesis by (simp add: lower_char_def Let_def)
  qed
qed

lemma upper_lower_ascii: "list_all is_ascii_alpha k \<Longrightarrow> upper (lower k) = upper k"
  by (induction k) (simp_all add: upper_def lower_def upper_char_lower_char)

lemma ascii_upper_char: "is_ascii_alpha c \<Longrightarrow> \<exists>d. upper_char c = [d] \<and> is_ascii_alpha d \<and> upper_char d = [d]"
proof -
  let ?n = "of_char c :: nat"
  assume "is_ascii_alpha c"
  then consider "65 \<le> ?n" "?n \<le> 90" | "97 \<le> ?n" "?n \<le> 122" by (auto simp: is_ascii_alpha_def Let_def)
  then show ?thesis
  proof cases
    case 1
    then show ?thesis by (simp add: upper_char_def is_ascii_alpha_def Let_def)
  next
    case 2
    then have "(?n - 32) mod 256 = ?n - 32" by simp
    then have "of_char (char_of (?n - 32) :: char) = ?n - 32" by simp
    with 2 show ?thesis by (auto simp: upper_char_def is_ascii_alpha_def Let_def)
  qed
qed

lemma upper_ascii: "list_all is_ascii_alpha k \<Longrightarrow> list_all is_ascii_alpha (upper k) \<and> upper (upper k) = upper k \<and> length (upper k) = length k"
proof (induction k)
  case (Cons c k)
  then obtain d where "upper_char c = [d]" "is_ascii_alpha d" "upper_char d = [d]" using ascii_upper_char by auto
  with Cons show ?case by (simp add: upper_def)
qed (simp add: upper_def)

lemma ascii_not_space: "is_ascii_alpha c \<Longrightarrow> \<not> is_space c"
  by (auto simp: is_ascii_alpha_def is_space_def Let_def)

lemma strip_ascii: "list_all is_ascii_alpha k \<Longrightarrow> strip k = k"
proof (rule strip_stripped)
  assume "list_all is_ascii_alpha k"
  then show "stripped k" by (auto simp: stripped_def list_all_iff dest: ascii_not_space)
qed

lemma is_ascii_alpha_lower: "is_ascii_alpha c \<Longrightarrow> is_ascii_alpha (lower_char c)"
proof -
  let ?n = "of_char c :: nat"
  assume "is_ascii_alpha c"
  then consider "65 \<le> ?n" "?n \<le> 90" | "97 \<le> ?n" "?n \<le> 122" by (auto simp: is_ascii_alpha_def Let_def)
  then show ?thesis
  proof cases
    case 1
    then have "(?n + 32) mod 256 = ?n + 32" by simp
    with 1 show ?thesis by (simp add: lower_char_def is_ascii_alpha_def Let_def)
  next
    case 2
    then show ?thesis by (simp add: lower_char_def is_ascii_alpha_def Let_def)
  qed
qed

lemma lower_ascii: "list_all is_ascii_alpha k \<Longrightarrow> list_all is_ascii_alpha (lower k)"
  by (induction k) (simp_all add: lower_def is_ascii_alpha_lower)

lemma is_codeD: "is_code code \<Longrightarrow> list_all is_ascii_alpha (upper (strip code)) \<and> length (upper (strip code)) = 2"
  by (simp add: is_code_def Let_def)

text \<open>A normalised region is empty or a lower-case code, and normalising it again changes nothing.\<close>

lemma is_code_ascii: "list_all is_ascii_alpha k \<Longrightarrow> length k = 2 \<Longrightarrow> is_code k"
  using upper_ascii [of k] by (simp add: is_code_def strip_ascii)

lemma upper_char_props:
  "(\<exists>d. upper_char c = [d] \<and> upper_char d = [d] \<and> is_space d = is_space c) \<or> upper_char c = ''SS'' \<and> \<not> is_space c"
proof -
  let ?n = "of_char c :: nat"
  consider "?n = 223" | "97 \<le> ?n" "?n \<le> 122" | "224 \<le> ?n" "?n \<le> 254" "?n \<noteq> 247"
    | "?n \<noteq> 223" "\<not> (97 \<le> ?n \<and> ?n \<le> 122)" "\<not> (224 \<le> ?n \<and> ?n \<le> 254 \<and> ?n \<noteq> 247)" by blast
  then show ?thesis
  proof cases
    case 1
    then show ?thesis by (simp add: upper_char_def is_space_def Let_def)
  next
    case 2
    then have "of_char (char_of (?n - 32) :: char) = ?n - 32" by simp
    with 2 show ?thesis by (auto simp: upper_char_def is_space_def Let_def)
  next
    case 3
    have "?n - 32 < 256" using 3(2) by linarith
    then have "of_char (char_of (?n - 32) :: char) = ?n - 32" by simp
    with 3 show ?thesis by (auto simp: upper_char_def is_space_def Let_def)
  next
    case 4
    then have "upper_char c = [c]" by (auto simp: upper_char_def Let_def)
    then show ?thesis by blast
  qed
qed

lemma upper_SS: "upper ''SS'' = ''SS''" by code_simp

lemma upper_idem [simp]: "upper (upper s) = upper s"
proof (induction s)
  case (Cons c s)
  have "concat (map upper_char (upper_char c)) = upper_char c"
    using upper_char_props [of c] upper_SS by (auto simp: upper_def)
  with Cons show ?case by (simp add: upper_def)
qed (simp add: upper_def)

lemma upper_Nil [simp]: "upper [] = []" "upper s = [] \<longleftrightarrow> s = []"
proof -
  have "upper_char c \<noteq> []" for c using upper_char_props [of c] by auto
  then show "upper s = [] \<longleftrightarrow> s = []" by (cases s) (auto simp: upper_def)
qed (simp add: upper_def)

lemma stripped_upper: "stripped s \<Longrightarrow> stripped (upper s)"
proof -
  have S: "\<not> is_space (CHR ''S'')" by code_simp
  have h: "is_space (hd (upper_char c)) = is_space c" "is_space (last (upper_char c)) = is_space c" "upper_char c \<noteq> []" for c
    using upper_char_props [of c] S by auto
  assume st: "stripped s"
  show ?thesis
  proof (cases "s = []")
    case False
    then have "hd (upper s) = hd (upper_char (hd s))" "last (upper s) = last (upper_char (last s))"
    proof -
      show "hd (upper s) = hd (upper_char (hd s))" using False h(3) by (cases s) (auto simp: upper_def)
      show "last (upper s) = last (upper_char (last s))" using False h(3)
        by (cases s rule: rev_cases) (auto simp: upper_def)
    qed
    with st False show ?thesis by (simp add: stripped_def h)
  qed (simp add: stripped_def)
qed

lemma normalize_region_cases: "normalize_region code = [] \<or> is_code (normalize_region code)"
proof (cases "is_code (upper (strip code))")
  case True
  have "strip (upper (strip code)) = upper (strip code)" by (intro strip_stripped stripped_upper) simp
  with is_codeD [OF True] have "list_all is_ascii_alpha (upper (strip code))" "length (upper (strip code)) = 2" by auto
  with True show ?thesis by (simp add: normalize_region_def Let_def is_code_ascii lower_ascii)
qed (simp add: normalize_region_def Let_def AUTOMATIC_def)

lemma normalize_region_idem: "normalize_region (normalize_region code) = normalize_region code"
proof (cases "is_code (upper (strip code))")
  case True
  let ?k = "upper (strip code)"
  have "strip ?k = ?k" by (intro strip_stripped stripped_upper) simp
  with is_codeD [OF True] have k: "list_all is_ascii_alpha ?k" "length ?k = 2" by auto
  then have l: "strip (lower ?k) = lower ?k" "upper (lower ?k) = ?k"
    by (simp_all add: strip_ascii lower_ascii upper_lower_ascii)
  have "normalize_region code = lower ?k" using True by (simp add: normalize_region_def Let_def)
  moreover have "normalize_region (lower ?k) = lower ?k" using True by (simp add: normalize_region_def Let_def l)
  ultimately show ?thesis by simp
next
  case False
  have "\<not> is_code []" by code_simp
  with False show ?thesis by (simp add: normalize_region_def Let_def AUTOMATIC_def)
qed

text \<open>The reader of the identity file, on lines that hold one quoted value each.\<close>

definition toml_pair :: "string \<times> string \<Rightarrow> string" where
  "toml_pair kv = fst kv @ '' = '' @ [CHR 0x22] @ snd kv @ [CHR 0x22]"

definition toml_plain :: "string \<times> string \<Rightarrow> bool" where
  \<comment> \<open>a bare key and a value without quotes or line breaks\<close>
  "toml_plain kv \<longleftrightarrow> fst kv \<noteq> [] \<and> stripped (fst kv) \<and> CHR ''='' \<notin> set (fst kv) \<and> hd (fst kv) \<notin> {CHR ''#'', CHR ''[''}
     \<and> \<not> list_ex is_line_break (fst kv) \<and> \<not> list_ex is_line_break (snd kv) \<and> CHR 0x22 \<notin> set (snd kv)"

lemma find_sub_eq: "CHR ''='' \<notin> set k \<Longrightarrow> find_sub ''='' (k @ CHR ''='' # r) = Some (length k)"
proof -
  have "CHR ''='' \<notin> set k \<Longrightarrow> find_from ''='' (k @ CHR ''='' # r) i = Some (i + length k)" for i
    by (induction k arbitrary: i) (auto simp: find_from.simps [of _ "_ # _"])
  then show "CHR ''='' \<notin> set k \<Longrightarrow> ?thesis" by (simp add: find_sub_def)
qed

lemma splitlines_acc_line:
  "\<not> list_ex is_line_break l \<Longrightarrow> splitlines_acc acc (l @ CHR 0x0A # r) = (rev acc @ l) # splitlines_acc [] r"
proof (induction l arbitrary: acc)
  case Nil
  have "is_line_break (CHR 0x0A)" by code_simp
  then show ?case by simp
next
  case (Cons c l)
  have "is_line_break (CHR 0x0D)" by code_simp
  with Cons.prems have "c \<noteq> CHR 0x0D" by auto
  with Cons show ?case by auto
qed

lemma splitlines_lines:
  "list_all (\<lambda>l. \<not> list_ex is_line_break l) ls \<Longrightarrow> splitlines (concat (map (\<lambda>l. l @ [CHR 0x0A]) ls)) = ls"
proof -
  have "list_all (\<lambda>l. \<not> list_ex is_line_break l) ls \<Longrightarrow> splitlines_acc [] (concat (map (\<lambda>l. l @ [CHR 0x0A]) ls)) = ls"
    by (induction ls) (simp_all add: splitlines_acc_line del: splitlines_acc.simps, simp)
  then show "list_all (\<lambda>l. \<not> list_ex is_line_break l) ls \<Longrightarrow> ?thesis" by (simp add: splitlines_def)
qed

lemma toml_line_pair:
  assumes "toml_plain kv" "ts_multi st = None"
  shows "toml_line (toml_pair kv) st = st\<lparr>ts_out := dict_set (fst kv) (snd kv) (ts_out st)\<rparr>"
proof -
  let ?q = "[CHR 0x22] @ snd kv @ [CHR 0x22]"
  have nsp: "\<not> is_space (CHR 0x22)" "is_space (CHR '' '')" by code_simp+
  from assms(1) have k: "fst kv \<noteq> []" "stripped (fst kv)" "CHR ''='' \<notin> set (fst kv)"
    "hd (fst kv) \<noteq> CHR ''#''" "hd (fst kv) \<noteq> CHR ''[''" and v: "CHR 0x22 \<notin> set (snd kv)"
    by (auto simp: toml_plain_def)
  then have sp: "strip (toml_pair kv) = toml_pair kv"
    by (intro strip_stripped) (auto simp: stripped_def toml_pair_def nsp)
  have eq: "find_sub ''='' (toml_pair kv) = Some (Suc (length (fst kv)))"
    using find_sub_eq [of "fst kv @ '' ''" "'' '' @ ?q"] k(3) by (simp add: toml_pair_def)
  have key: "strip (take (Suc (length (fst kv))) (toml_pair kv)) = fst kv"
  proof -
    have "take (Suc (length (fst kv))) (toml_pair kv) = fst kv @ '' ''" by (simp add: toml_pair_def)
    moreover have "strip (fst kv @ '' '') = fst kv"
      using k(1,2) nsp(2) by (simp add: strip_def lstrip_def stripped_def dropWhile_hd dropWhile_append1 hd_rev)
    ultimately show ?thesis by simp
  qed
  have val: "strip (drop (Suc (Suc (length (fst kv)))) (toml_pair kv)) = ?q"
  proof -
    have "drop (Suc (Suc (length (fst kv)))) (toml_pair kv) = '' '' @ ?q" by (simp add: toml_pair_def)
    moreover have "strip ('' '' @ ?q) = ?q" using nsp by (simp add: strip_def lstrip_def)
    ultimately show ?thesis by simp
  qed
  have "\<not> startswith ?q triple_quote"
    using v by (cases "snd kv") (auto simp: startswith_def triple_quote_def numeral_3_eq_3)
  moreover have "unquote_value ?q = snd kv" by (simp add: unquote_value_def drop_last_def)
  ultimately have "toml_entry (fst kv) ?q st = st\<lparr>ts_out := dict_set (fst kv) (snd kv) (ts_out st)\<rparr>"
    by (simp add: toml_entry_def)
  moreover have "toml_pair kv \<noteq> []" "\<not> startswith (toml_pair kv) ''#''" "\<not> startswith (toml_pair kv) ''[''"
    using k(1,4,5) by (cases "fst kv"; auto simp: toml_pair_def startswith_def)+
  ultimately show ?thesis by (simp add: toml_line_def assms(2) sp eq key val Let_def)
qed

text \<open>
  The identity reader takes back what a plain writer wrote: a file of \<open>key = "value"\<close> lines
  (bare keys, values without quotes or line breaks) is read as exactly those values, a later
  line of the same key winning.
\<close>

theorem toml_scalars_roundtrip:
  assumes "list_all toml_plain kvs"
  shows "parse_toml_scalars (concat (map (\<lambda>kv. toml_pair kv @ [CHR 0x0A]) kvs)) = dict_set_all kvs []"
proof -
  have "list_all (\<lambda>l. \<not> list_ex is_line_break l) (map toml_pair kvs)"
  proof -
    have "\<not> is_line_break (CHR 0x22)" "\<not> is_line_break (CHR ''='')" "\<not> is_line_break (CHR '' '')" by code_simp+
    with assms show ?thesis by (auto simp: list_all_iff toml_plain_def toml_pair_def)
  qed
  from splitlines_lines [OF this]
  have "splitlines (concat (map (\<lambda>kv. toml_pair kv @ [CHR 0x0A]) kvs)) = map toml_pair kvs" by (simp add: comp_def)
  moreover have "ts_out (fold toml_line (map toml_pair kvs) st) = dict_set_all kvs (ts_out st)"
    if "ts_multi st = None" "list_all toml_plain kvs" for st kvs
    using that by (induction kvs arbitrary: st) (auto simp: toml_line_pair)
  ultimately show ?thesis using assms by (simp add: parse_toml_scalars_def)
qed

theorem toml_scalars_roundtrip_witness:
  "parse_toml_scalars (toml_pair (''device_id'', ''ab'') @ [CHR 0x0A] @ toml_pair (''ipv4'', ''172.16.0.2'') @ [CHR 0x0A])
     = [(''device_id'', ''ab''), (''ipv4'', ''172.16.0.2'')]"
proof -
  have "list_all toml_plain [(''device_id'', ''ab''), (''ipv4'', ''172.16.0.2'')]" by code_simp
  from toml_scalars_roundtrip [OF this] show ?thesis by simp
qed

end
