(* ===== verification/Pow_Config.thy ===== *)
theory Pow_Config
  imports Pow_Regions
begin

text \<open>
  The configuration of the PoW engine, \<open>pow/config.py\<close>: the settings and their validation, the plan
  of the outer leg, the strategy ladder of the inner leg, the adaptive fragmentation switch, the
  JSON handed to the native core and the Psiphon configuration. A JSON document is a value of type
  \<open>json\<close> before it is dumped. Files are values: the parsed content or why it could not be read.
  The label tables of the user interface are not modelled.
\<close>

section \<open>Names\<close>

definition CHAIN_SOCKS_PORT :: int where "CHAIN_SOCKS_PORT = 1820"
definition PSIPHON_SOCKS_PORT :: int where "PSIPHON_SOCKS_PORT = 1821"
definition OUTER_AUTO :: string where "OUTER_AUTO = ''auto''"
definition DISCOVERY_CACHE :: string where "DISCOVERY_CACHE = ''cache''"
definition DISCOVERY_FRESH :: string where "DISCOVERY_FRESH = ''fresh''"
definition SCAN_TURBO :: string where "SCAN_TURBO = ''turbo''"
definition SCAN_BALANCED :: string where "SCAN_BALANCED = ''balanced''"
definition SCAN_THOROUGH :: string where "SCAN_THOROUGH = ''thorough''"
definition SCAN_MODES :: "string list" where "SCAN_MODES = [SCAN_TURBO, SCAN_BALANCED, SCAN_THOROUGH]"
definition OUTER_LADDER :: "string list" where "OUTER_LADDER = [''masque'', ''gool'', ''wireguard'']"
definition MCI_LADDER :: "string list" where "MCI_LADDER = [''wireguard'', ''gool'', ''masque'']"
definition FIREWALL_AUTO :: string where "FIREWALL_AUTO = ''auto''"
definition FIREWALL_IRANCELL :: string where "FIREWALL_IRANCELL = ''irancell''"
definition FIREWALL_MCI :: string where "FIREWALL_MCI = ''mci''"
definition FIREWALLS :: "string list" where "FIREWALLS = [FIREWALL_AUTO, FIREWALL_IRANCELL, FIREWALL_MCI]"
definition RECIPE_AUTO :: string where "RECIPE_AUTO = ''auto''"
definition RECIPE_WARP_V6 :: string where "RECIPE_WARP_V6 = ''warp-v6''"
definition RECIPE_WARP_ANY :: string where "RECIPE_WARP_ANY = ''warp-any''"
definition RECIPE_WOW_V6 :: string where "RECIPE_WOW_V6 = ''wow-v6''"
definition RECIPE_WOW_ANY :: string where "RECIPE_WOW_ANY = ''wow-any''"
definition RECIPE_MASQUE_H2 :: string where "RECIPE_MASQUE_H2 = ''masque-h2''"
definition RECIPE_MASQUE_H3 :: string where "RECIPE_MASQUE_H3 = ''masque-h3''"
definition RECIPE_MASQUE_H2_SPLIT :: string where "RECIPE_MASQUE_H2_SPLIT = ''masque-h2-split''"
definition RECIPE_MASQUE_H2_SAVED :: string where "RECIPE_MASQUE_H2_SAVED = ''masque-h2-saved''"
definition RECIPES :: "string list" where
  "RECIPES = [RECIPE_AUTO, RECIPE_WARP_V6, RECIPE_WARP_ANY, RECIPE_WOW_V6, RECIPE_WOW_ANY, RECIPE_MASQUE_H2,
     RECIPE_MASQUE_H3, RECIPE_MASQUE_H2_SPLIT, RECIPE_MASQUE_H2_SAVED]"
definition KEY_AUTO :: string where "KEY_AUTO = ''auto''"
definition KEY_ECH :: string where "KEY_ECH = ''ech''"
definition KEY_FRAGMENT :: string where "KEY_FRAGMENT = ''fragment''"
definition KEY_EXTERNAL :: string where "KEY_EXTERNAL = ''external''"
definition KEY_RELAY :: string where "KEY_RELAY = ''relay''"
definition KEY_OOB :: string where "KEY_OOB = ''oob''"
definition KEY_DOH :: string where "KEY_DOH = ''doh''"
definition KEY_FETCHES :: "string list" where
  "KEY_FETCHES = [KEY_AUTO, KEY_OOB, KEY_RELAY, KEY_ECH, KEY_FRAGMENT, KEY_EXTERNAL]"
definition KEY_FETCHES_RETIRED :: "string list" where "KEY_FETCHES_RETIRED = [KEY_DOH, ''ech-doh'']"
definition DEFAULT_KEY_FETCH :: string where "DEFAULT_KEY_FETCH = KEY_AUTO"
definition KEY_FETCH_FALLBACK :: string where "KEY_FETCH_FALLBACK = KEY_RELAY"
definition OBFUSCATION_PROFILES :: "string list" where
  "OBFUSCATION_PROFILES = [''off'', ''light'', ''balanced'', ''aggressive'']"
definition H2_FRAG_AUTO :: string where "H2_FRAG_AUTO = ''auto''"
definition H2_FRAG_ON :: string where "H2_FRAG_ON = ''on''"
definition H2_FRAG_OFF :: string where "H2_FRAG_OFF = ''off''"
definition H2_FRAG_CHOICES :: "string list" where "H2_FRAG_CHOICES = [H2_FRAG_AUTO, H2_FRAG_ON, H2_FRAG_OFF]"

lemmas config_names =
  OUTER_AUTO_def DISCOVERY_CACHE_def DISCOVERY_FRESH_def SCAN_TURBO_def SCAN_BALANCED_def SCAN_THOROUGH_def
  OUTER_LADDER_def MCI_LADDER_def FIREWALL_AUTO_def FIREWALL_IRANCELL_def FIREWALL_MCI_def FIREWALLS_def
  RECIPE_AUTO_def RECIPE_WARP_V6_def RECIPE_WARP_ANY_def RECIPE_WOW_V6_def RECIPE_WOW_ANY_def RECIPE_MASQUE_H2_def
  RECIPE_MASQUE_H3_def RECIPE_MASQUE_H2_SPLIT_def RECIPE_MASQUE_H2_SAVED_def RECIPES_def KEY_AUTO_def KEY_ECH_def
  KEY_FRAGMENT_def KEY_EXTERNAL_def KEY_RELAY_def KEY_OOB_def KEY_DOH_def KEY_FETCHES_def KEY_FETCHES_RETIRED_def
  DEFAULT_KEY_FETCH_def OBFUSCATION_PROFILES_def H2_FRAG_AUTO_def H2_FRAG_ON_def H2_FRAG_OFF_def H2_FRAG_CHOICES_def

section \<open>Relays\<close>

definition RELAY_URLS_DEFAULT :: "string list" where
  "RELAY_URLS_DEFAULT = [''https://dark-brook-3ef5.behroozuac5.workers.dev/'']"

definition relay_urls :: "json res \<Rightarrow> string list" where
  \<comment> \<open>the argument is the parsed override file, or why there is none\<close>
  "relay_urls file =
     (case rbind file (\<lambda>raw. py_iter (case raw of JObj d \<Rightarrow> dict_get_or d ''relays'' (JArr []) | _ \<Rightarrow> raw)) of
        Inl _ \<Rightarrow> RELAY_URLS_DEFAULT
      | Inr us \<Rightarrow>
          let urls = filter (\<lambda>u. startswith (lower u) ''https://'') (map (\<lambda>u. strip (py_str u)) us)
          in if urls = [] then RELAY_URLS_DEFAULT else urls)"

section \<open>The strategies of the inner leg\<close>

definition FRONTED :: "string list" where
  "FRONTED = [''FRONTED-MEEK-OSSH'', ''FRONTED-MEEK-HTTP-OSSH'', ''FRONTED-MEEK-QUIC-OSSH'']"
definition DIRECT :: "string list" where
  "DIRECT = [''TLS-OSSH'', ''OSSH'', ''SSH'', ''SHADOWSOCKS-OSSH'', ''UNFRONTED-MEEK-HTTPS-OSSH'',
     ''UNFRONTED-MEEK-OSSH'', ''QUIC-OSSH'', ''CONJURE-OSSH'']"
definition FAST_DIRECT :: "string list" where
  "FAST_DIRECT = [''TLS-OSSH'', ''OSSH'', ''SSH'', ''SHADOWSOCKS-OSSH'']"
definition CHAINABLE :: "string list" where
  "CHAINABLE = [''FRONTED-MEEK-OSSH'', ''FRONTED-MEEK-HTTP-OSSH'', ''TLS-OSSH'', ''UNFRONTED-MEEK-HTTPS-OSSH'',
     ''UNFRONTED-MEEK-OSSH'', ''SHADOWSOCKS-OSSH'', ''OSSH'', ''SSH'']"
definition ALTERNATE_DNS :: "string list" where
  "ALTERNATE_DNS = [''208.67.222.222:5353'', ''9.9.9.9:9953'', ''208.67.220.220:5353'']"
definition REGION_PHASE_TIMEOUT_SECONDS :: int where "REGION_PHASE_TIMEOUT_SECONDS = 25"
definition NEARBY_PHASE_TIMEOUT_SECONDS :: int where "NEARBY_PHASE_TIMEOUT_SECONDS = 12"
definition CHAINED_LIGHT_TIMEOUT_SECONDS :: int where "CHAINED_LIGHT_TIMEOUT_SECONDS = 20"
definition PSIPHON_WAIT_MARGIN_S :: int where "PSIPHON_WAIT_MARGIN_S = 8"
definition NEARBY_WAIT_MARGIN_S :: int where "NEARBY_WAIT_MARGIN_S = 3"
definition SERVER_AFFINITY_GRACE_MS :: int where "SERVER_AFFINITY_GRACE_MS = 1500"
definition NEARBY :: "string list" where
  "NEARBY = [''DE'', ''NL'', ''AT'', ''PL'', ''CH'', ''SE'', ''FR'', ''GB'', ''CZ'', ''DK'', ''BE'', ''IT'',
     ''RS'', ''RO'', ''LT'', ''FI'', ''NO'', ''IE'', ''ES'']"
definition SERVER_ENTRY_SIGNATURE_PUBLIC_KEY :: string where
  "SERVER_ENTRY_SIGNATURE_PUBLIC_KEY = ''sHuUVTWaRyh5pZwy4UguSgkwmBe0EHtJJkoF5WrxmvA=''"
definition REMOTE_SERVER_LIST_SIGNATURE_PUBLIC_KEY :: string where
  "REMOTE_SERVER_LIST_SIGNATURE_PUBLIC_KEY =
     ''MIICIDANBgkqhkiG9w0BAQEFAAOCAg0AMIICCAKCAgEAt7Ls+/39r+T6zNW7GiVpJfzq/xvL9SBH5rIFnk0R''
     @ ''XYEYavax3WS6HOD35eTAqn8AniOwiH+DOkvgSKF2caqk/y1dfq47Pdymtwzp9ikpB1C5OfAysXzBiwVJlCd''
     @ ''ajBKvBZDerV1cMvRzCKvKwRmvDmHgphQQ7WfXIGbRbmmk6opMBh3roE42KcotLFtqp0RRwLtcBRNtCdsrVs''
     @ ''jiI1Lqz/lH+T61sGjSjQ3CHMuZYSQJZo/KrvzgQXpkaCTdbObxHqb6/+i1qaVOfEsvjoiyzTxJADvSytVt''
     @ ''cjijhPEV6XskJVHE1Zgl+7rATr/pDQkw6DPCNBS1+Y6fy7GstZALQXwEDN/qhQI9kWkHijT8ns+i1vGg00''
     @ ''Mk/6J75arLhqcodWsdeG/M/moWgqQAnlZAGVtJI1OgeF5fsPpXu4kctOfuZlGjVZXQNW34aOzm8r8S0eV''
     @ ''ZitPlbhcPiR4gT/aSMz/wd8lZlzZYsje/Jr8u/YtlwjjreZrGRmG8KMOzukV3lLmMppXFMvl4bxv6YFEmI''
     @ ''uTsOhbLTwFgh7KYNjodLj/LsqRVfwz31PgWQFTEPICV7GCvgVlPRxnofqKSjgTWI4mxDhBpVcATvaoBl1''
     @ ''L/6WLbFvBsoAUBItWwctO2xalKxF5szhGm8lccoc5MZr8kfE0uxMgsxz4er68iCID+rsCAQM=''"
definition EXCHANGE_OBFUSCATION_KEY :: string where
  "EXCHANGE_OBFUSCATION_KEY = ''DpXzloJk1Hw6aSzmKKky0xcahsEHubch81Mi6K0XMlU=''"

record psiphon_strategy =
  ps_name :: string
  ps_label :: string
  ps_timeout_seconds :: int
  ps_preferred_protocols :: "string list"

definition STRATEGY_A :: psiphon_strategy where
  "STRATEGY_A = \<lparr>ps_name = ''A'', ps_label = ''domain-fronted (CDN)'', ps_timeout_seconds = 40, ps_preferred_protocols = FRONTED\<rparr>"

definition STRATEGY_F :: psiphon_strategy where
  "STRATEGY_F = \<lparr>ps_name = ''F'', ps_label = ''direct through WARP'', ps_timeout_seconds = 28, ps_preferred_protocols = FAST_DIRECT\<rparr>"

definition STRATEGY_LADDER :: "psiphon_strategy list" where
  "STRATEGY_LADDER = [STRATEGY_A, STRATEGY_F]"

definition strategy_ladder :: "bool \<Rightarrow> psiphon_strategy list" where
  "strategy_ladder direct =
     (if direct then STRATEGY_LADDER
      else [STRATEGY_F\<lparr>ps_timeout_seconds := CHAINED_LIGHT_TIMEOUT_SECONDS\<rparr>, STRATEGY_A])"

definition strategy_signature :: "bool option \<Rightarrow> string" where
  "strategy_signature direct =
     (let ladder = (case direct of None \<Rightarrow> STRATEGY_LADDER | Some d \<Rightarrow> strategy_ladder d) in join '','' (map ps_name ladder))"

definition rtt_key :: "bool \<Rightarrow> string \<Rightarrow> string" where
  "rtt_key direct name = (if direct then ''d'' else ''c'') @ name"

definition first_min :: "('a \<Rightarrow> 'b::linorder) \<Rightarrow> 'a list \<Rightarrow> 'a" where
  \<comment> \<open>\<open>min(xs, key=f)\<close>: the first of the least elements\<close>
  "first_min f xs = foldl (\<lambda>b x. if f x < f b then x else b) (hd xs) (tl xs)"

definition start_index :: "psiphon_strategy list \<Rightarrow> int option \<Rightarrow> (string, int) dict \<Rightarrow> int" where
  "start_index ladder remembered rtt_by_name =
     (let rtt = (\<lambda>i. dict_get_or rtt_by_name (ps_name (ladder ! i)) 0);
          measured = filter (\<lambda>i. rtt i > 0) [0..<length ladder]
      in if length measured \<ge> 2 then int (first_min rtt measured)
         else case remembered of
           Some r \<Rightarrow> if 0 \<le> r \<and> r < int (length ladder) then r else 0
         | None \<Rightarrow> 0)"

definition auto_bias_region :: "string option \<Rightarrow> string list \<Rightarrow> bool \<Rightarrow> string option" where
  "auto_bias_region remembered available remembered_only =
     (let live = map (\<lambda>c. upper (strip c)) (filter (\<lambda>c. length (strip c) = 2) available);
          usable = (\<lambda>c. live = [] \<or> c \<in> set live);
          last = upper (strip (case remembered of None \<Rightarrow> [] | Some r \<Rightarrow> r))
      in if last \<in> set NEARBY \<and> usable last then Some last
         else if remembered_only then None
         else find usable NEARBY)"

section \<open>Settings\<close>

record pow_settings =
  exit_country_code :: string
  outer_transport :: string
  obfuscation_profile :: string
  h2_fragmentation :: bool
  scan_mode :: string
  optimized_mode :: bool
  firewall_profile :: string
  link_recipe :: string
  chain_psiphon :: bool
  key_fetch :: string
  parallel_masque :: bool
  irancell_h3 :: bool
  direct_psiphon_first :: bool
  lowest_rtt_ip :: bool
  quic_tuned :: bool
  h2_large_windows :: bool
  h2_socket_tuning :: bool
  h2_speed_pick :: bool
  h2_fragment_mode :: string

definition DEFAULT_SETTINGS :: pow_settings where
  "DEFAULT_SETTINGS = \<lparr>exit_country_code = [], outer_transport = OUTER_AUTO, obfuscation_profile = ''balanced'',
     h2_fragmentation = True, scan_mode = SCAN_BALANCED, optimized_mode = True, firewall_profile = FIREWALL_AUTO,
     link_recipe = RECIPE_AUTO, chain_psiphon = True, key_fetch = DEFAULT_KEY_FETCH, parallel_masque = False,
     irancell_h3 = False, direct_psiphon_first = False, lowest_rtt_ip = False, quic_tuned = False,
     h2_large_windows = True, h2_socket_tuning = True, h2_speed_pick = True, h2_fragment_mode = ''auto''\<rparr>"

definition normalize_h2_fragment_mode :: "string \<Rightarrow> string" where
  "normalize_h2_fragment_mode raw = (let v = lower (strip raw) in if v \<in> set H2_FRAG_CHOICES then v else H2_FRAG_AUTO)"

definition normalize_scan_mode :: "string \<Rightarrow> string" where
  "normalize_scan_mode raw = (let v = lower (strip raw) in
     if v = ''fast'' \<or> v = SCAN_TURBO then SCAN_TURBO
     else if v = ''deep'' \<or> v = SCAN_THOROUGH then SCAN_THOROUGH
     else SCAN_BALANCED)"

definition chosen :: "string \<Rightarrow> string list \<Rightarrow> string \<Rightarrow> string" where
  \<comment> \<open>the value in lower case when it is one of the choices\<close>
  "chosen raw choices def = (let v = lower (strip raw) in if v \<in> set choices then v else def)"

definition validated :: "pow_settings \<Rightarrow> pow_settings" where
  "validated s = s\<lparr>
     exit_country_code := normalize_region (exit_country_code s),
     outer_transport := chosen (outer_transport s) (OUTER_AUTO # OUTER_LADDER) OUTER_AUTO,
     obfuscation_profile := chosen (obfuscation_profile s) OBFUSCATION_PROFILES ''balanced'',
     scan_mode := normalize_scan_mode (scan_mode s),
     firewall_profile := chosen (firewall_profile s) FIREWALLS FIREWALL_AUTO,
     link_recipe := chosen (link_recipe s) RECIPES RECIPE_AUTO,
     key_fetch := chosen (key_fetch s) KEY_FETCHES DEFAULT_KEY_FETCH,
     h2_fragment_mode := normalize_h2_fragment_mode (h2_fragment_mode s)\<rparr>"

definition uses_mci_firewall :: "pow_settings \<Rightarrow> bool" where
  "uses_mci_firewall s =
     (if firewall_profile s = FIREWALL_MCI then True else if firewall_profile s = FIREWALL_IRANCELL then False else True)"

section \<open>The plan of the outer leg\<close>

record outer_plan =
  op_protocols :: "string list"
  op_ip_mode :: string
  op_masque_transport :: string
  op_fragment :: bool
  op_fixed_order :: bool
  op_summary :: string

definition plan_of :: "string list \<Rightarrow> string \<Rightarrow> string \<Rightarrow> bool \<Rightarrow> bool \<Rightarrow> string \<Rightarrow> outer_plan" where
  "plan_of ps ip t fr fixed sm = \<lparr>op_protocols = ps, op_ip_mode = ip, op_masque_transport = t, op_fragment = fr,
     op_fixed_order = fixed, op_summary = sm\<rparr>"

definition ip_for :: "outer_plan \<Rightarrow> string \<Rightarrow> string" where
  "ip_for plan protocol =
     (if op_ip_mode plan = ''v6-warp'' then (if protocol \<in> {''wireguard'', ''gool''} then ''v6'' else ''v4'')
      else if op_ip_mode plan \<in> {''v6'', ''v4'', ''both''} then op_ip_mode plan
      else ''v4'')"

definition outer_plan_of :: "pow_settings \<Rightarrow> bool \<Rightarrow> outer_plan" where
  "outer_plan_of s mci =
     (let recipe = link_recipe (validated s) in
      if recipe = RECIPE_WARP_V6 then plan_of [''wireguard''] ''v6'' ''h3'' False True ''WARP IPv6''
      else if recipe = RECIPE_WARP_ANY then plan_of [''wireguard''] ''both'' ''h3'' False True ''WARP any IP''
      else if recipe = RECIPE_WOW_V6 then plan_of [''gool''] ''v6'' ''h3'' False True ''WARP-in-WARP IPv6''
      else if recipe = RECIPE_WOW_ANY then plan_of [''gool''] ''both'' ''h3'' False True ''WARP-in-WARP any IP''
      else if recipe = RECIPE_MASQUE_H2 then plan_of [''masque''] ''both'' ''h2'' False True ''MASQUE HTTP/2''
      else if recipe = RECIPE_MASQUE_H3 then plan_of [''masque''] ''v4'' ''h3'' False True ''MASQUE HTTP/3''
      else if recipe = RECIPE_MASQUE_H2_SPLIT then plan_of [''masque''] ''v4'' ''h2'' True True ''MASQUE HTTP/2 split hello''
      else if recipe = RECIPE_MASQUE_H2_SAVED then plan_of [''masque''] ''both'' ''h2'' False True ''MASQUE HTTP/2 saved IPs''
      else if mci then plan_of [''masque''] ''both'' ''h2'' False True ''MASQUE HTTP/2''
      else plan_of OUTER_LADDER ''v4'' ''h3'' False False ''Irancell ladder'')"

definition candidates_of :: "pow_settings \<Rightarrow> bool \<Rightarrow> string list" where
  "candidates_of s mci =
     (let mode = outer_transport s; ladder = (if mci then MCI_LADDER else OUTER_LADDER) in
      if mode = [] \<or> mode = OUTER_AUTO then ladder
      else if mode \<in> set ladder \<or> mode \<in> set OUTER_LADDER then [mode]
      else ladder)"

definition key_protocols :: "string \<Rightarrow> string list" where
  "key_protocols recipe =
     (if recipe \<in> {RECIPE_WOW_V6, RECIPE_WOW_ANY} then [''wireguard'', ''gool'']
      else if recipe \<in> {RECIPE_MASQUE_H2, RECIPE_MASQUE_H3, RECIPE_MASQUE_H2_SPLIT, RECIPE_MASQUE_H2_SAVED} then [''masque'']
      else if recipe \<in> {RECIPE_WARP_V6, RECIPE_WARP_ANY} then [''wireguard'']
      else [''wireguard'', ''gool'', ''masque''])"

definition outer_label :: "string \<Rightarrow> string" where
  "outer_label protocol =
     dict_get_or [(''masque'', ''MASQUE''), (''wireguard'', ''WireGuard''), (''gool'', ''WoW'')] protocol (upper protocol)"

definition outer_budget_ms :: "string \<Rightarrow> bool \<Rightarrow> string \<Rightarrow> int" where
  "outer_budget_ms protocol retune mode =
     (if retune then dict_get_or [(''masque'', 14000), (''wireguard'', 11000)] protocol 16000
      else let scan = normalize_scan_mode mode in
      if scan = SCAN_TURBO then dict_get_or [(''masque'', 90000), (''wireguard'', 24000)] protocol 34000
      else if scan = SCAN_THOROUGH then dict_get_or [(''masque'', 180000), (''wireguard'', 55000)] protocol 70000
      else dict_get_or [(''masque'', 120000), (''wireguard'', 36000)] protocol 48000)"

definition attempt_scan_mode :: "string \<Rightarrow> int \<Rightarrow> string \<Rightarrow> bool \<Rightarrow> string" where
  "attempt_scan_mode protocol offset mode retune =
     (if \<not> retune \<and> offset = 0 \<and> protocol = ''masque'' then SCAN_THOROUGH else normalize_scan_mode mode)"

section \<open>Adaptive fragmentation\<close>

definition JITTER_THRESHOLD_MS :: int where "JITTER_THRESHOLD_MS = 120"
definition ADAPTIVE_FAILS_TO_ENABLE :: int where "ADAPTIVE_FAILS_TO_ENABLE = 2"
definition ADAPTIVE_STABLE_OFF_MS :: int where "ADAPTIVE_STABLE_OFF_MS = 3 * 60000"

definition is_jitter_high :: "int list \<Rightarrow> bool" where
  "is_jitter_high samples =
     (let clean = filter (\<lambda>s. s > 0) samples in
      if length clean < 2 then False
      else let low = first_min id clean; high = first_min uminus clean
      in high - low \<ge> JITTER_THRESHOLD_MS \<and> high \<ge> low * 13 div 10)"

record adaptive_state =
  ad_file :: "json res" \<comment> \<open>the flag file: its parsed content, or why it is unreadable\<close>
  ad_dpi_fails :: int

definition adaptive_on :: "json res \<Rightarrow> bool" where
  "adaptive_on file = (case file of Inr (JObj d) \<Rightarrow> truthy (dict_get_or d ''on'' (JBool False)) | _ \<Rightarrow> False)"

definition adaptive_set :: "bool \<Rightarrow> bool \<Rightarrow> adaptive_state \<Rightarrow> adaptive_state" where
  \<comment> \<open>the first argument says whether the write succeeds; an \<open>OSError\<close> is dropped\<close>
  "adaptive_set written on st = (if written then st\<lparr>ad_file := Inr (JObj [(''on'', JBool on)])\<rparr> else st)"

definition adaptive_reset :: "bool \<Rightarrow> adaptive_state \<Rightarrow> adaptive_state" where
  "adaptive_reset written st = adaptive_set written False (st\<lparr>ad_dpi_fails := 0\<rparr>)"

definition on_probe :: "bool \<Rightarrow> bool \<Rightarrow> adaptive_state \<Rightarrow> adaptive_state" where
  "on_probe success jitter_high st =
     (if \<not> success \<or> jitter_high then st\<lparr>ad_dpi_fails := ad_dpi_fails st + 1\<rparr>
      else st\<lparr>ad_dpi_fails := max 0 (ad_dpi_fails st - 1)\<rparr>)"

definition should_enable :: "bool \<Rightarrow> pow_settings \<Rightarrow> bool \<Rightarrow> adaptive_state \<Rightarrow> bool \<times> adaptive_state" where
  "should_enable written s rtt_variance_high st =
     (if normalize_h2_fragment_mode (h2_fragment_mode s) \<noteq> H2_FRAG_AUTO then (False, st)
      else if adaptive_on (ad_file st) then (True, st)
      else if rtt_variance_high \<and> ad_dpi_fails st \<ge> ADAPTIVE_FAILS_TO_ENABLE then (True, adaptive_set written True st)
      else (False, st))"

definition should_disable :: "bool \<Rightarrow> pow_settings \<Rightarrow> int \<Rightarrow> adaptive_state \<Rightarrow> bool \<times> adaptive_state" where
  "should_disable written s stable_ms st =
     (if stable_ms \<le> 0 then (False, st)
      else if normalize_h2_fragment_mode (h2_fragment_mode s) \<noteq> H2_FRAG_AUTO then (False, st)
      else if \<not> adaptive_on (ad_file st) then (False, st)
      else if stable_ms > ADAPTIVE_STABLE_OFF_MS \<and> ad_dpi_fails st = 0 then (True, adaptive_set written False st)
      else (False, st))"

definition h2_fragment_effective :: "pow_settings \<Rightarrow> string \<Rightarrow> outer_plan \<Rightarrow> bool \<Rightarrow> string option \<Rightarrow> bool" where
  "h2_fragment_effective s protocol plan adaptive masque_transport =
     (let transport = (case masque_transport of None \<Rightarrow> op_masque_transport plan
                       | Some t \<Rightarrow> if t = [] then op_masque_transport plan else t) in
      if \<not> (protocol = ''masque'' \<and> transport = ''h2'') then False
      else let mode = normalize_h2_fragment_mode (h2_fragment_mode s) in
      if mode = H2_FRAG_ON then True
      else if mode = H2_FRAG_OFF then False
      else op_fragment plan \<or> adaptive)"

section \<open>What the native core is told\<close>

definition path_child :: "string \<Rightarrow> string \<Rightarrow> string" where
  \<comment> \<open>\<open>str(Path(dir) / name)\<close> on Windows\<close>
  "path_child dir name = (if endswith dir [CHR 0x5C] then dir @ name else dir @ [CHR 0x5C] @ name)"

definition identity_path :: "string \<Rightarrow> string" where "identity_path dir = path_child dir ''uac-pow.toml''"
definition masque_cache_path :: "string \<Rightarrow> string" where "masque_cache_path dir = path_child dir ''uac-pow-masque-cache.json''"
definition lastconn_path :: "string \<Rightarrow> string" where "lastconn_path dir = path_child dir ''uac-pow-lastconn.toml''"
definition clean_h2_path :: "string \<Rightarrow> string" where "clean_h2_path dir = path_child dir ''uac-pow-clean-h2.json''"
definition adaptive_path :: "string \<Rightarrow> string" where "adaptive_path dir = path_child dir ''uac-pow-adaptive.json''"

text \<open>What the functions below read from the data directory.\<close>

record data_dir =
  dd_path :: string
  dd_relays :: "json res"
  dd_adaptive :: "json res"

definition chain_outer_json :: "data_dir \<Rightarrow> string \<Rightarrow> pow_settings \<Rightarrow> string \<Rightarrow> string \<Rightarrow> bool \<Rightarrow> string option \<Rightarrow> bool option
    \<Rightarrow> (string, json) dict" where
  "chain_outer_json dir protocol settings discovery mode mci masque_transport adaptive =
     (let s = validated settings; plan = outer_plan_of s mci;
          transport = (if protocol = ''masque'' then (case masque_transport of None \<Rightarrow> op_masque_transport plan
                         | Some t \<Rightarrow> if t = [] then op_masque_transport plan else t) else ''h3'');
          ad = (case adaptive of None \<Rightarrow> adaptive_on (dd_adaptive dir) | Some a \<Rightarrow> a)
      in [(''config_path'', JStr (identity_path (dd_path dir))),
          (''protocol'', JStr protocol),
          (''listen'', JStr (''127.0.0.1:'' @ int_str CHAIN_SOCKS_PORT)),
          (''scan_mode'', JStr (normalize_scan_mode mode)),
          (''ip_scan'', JStr (ip_for plan protocol)),
          (''endpoint_cache_path'', JStr (masque_cache_path (dd_path dir))),
          (''endpoint_discovery'', JStr (if link_recipe s = RECIPE_MASQUE_H2_SAVED then ''clean'' else discovery)),
          (''masque_transport'', JStr transport),
          (''obfuscation_profile'', JStr (obfuscation_profile s)),
          (''retry_obfuscation_profiles'', JBool True),
          (''tls_curve_preset'', JStr ''chrome''),
          (''wireguard_data_check'', JBool True),
          (''log_level'', JStr ''info''),
          (''perf_profile'', JStr ''high''),
          (''h2_fragmentation'', JBool (h2_fragment_effective s protocol plan ad (Some transport))),
          (''quic_tuned'', JBool (quic_tuned s)),
          (''h2_large_windows'', JBool (h2_large_windows s)),
          (''h2_socket_tuning'', JBool (h2_socket_tuning s)),
          (''h2_speed_pick'', JBool (h2_speed_pick s)),
          (''api_camo'', JStr (key_fetch s)),
          (''api_relay'', JStr (join '','' (relay_urls (dd_relays dir)))),
          (''gateway'', JBool False)])"

definition key_request_json :: "data_dir \<Rightarrow> pow_settings \<Rightarrow> string \<Rightarrow> (string, json) dict" where
  "key_request_json dir settings protocol =
     dict_set ''api_camo'' (JStr (key_fetch (validated settings)))
       (dict_set ''protocol'' (JStr protocol)
         (chain_outer_json dir protocol settings DISCOVERY_CACHE SCAN_BALANCED (uses_mci_firewall settings) None None))"

definition cert_renew_json :: "data_dir \<Rightarrow> pow_settings \<Rightarrow> (string, json) dict" where
  "cert_renew_json dir settings = dict_set ''renew_masque'' (JBool True) (key_request_json dir settings ''masque'')"

section \<open>The configuration of the inner leg\<close>

definition JStrs :: "string list \<Rightarrow> json" where "JStrs ss = JArr (map JStr ss)"

definition base_config :: "int \<Rightarrow> string \<Rightarrow> psiphon_strategy \<Rightarrow> bool \<Rightarrow> (string, json) dict" where
  "base_config socks_port data_directory strategy optimized =
     [(''PropagationChannelId'', JStr ''FFFFFFFFFFFFFFFF''),
      (''SponsorId'', JStr ''1111111111111111''),
      (''EgressRegion'', JStr []),
      (''EstablishTunnelTimeoutSeconds'', JInt (ps_timeout_seconds strategy)),
      (''DataDirectory'', JStr data_directory),
      (''ClientVersion'', JStr ''1''),
      (''TunnelProtocol'', JStr []),
      (''RemoteServerListURL'', JStr []),
      (''LocalSocksProxyPort'', JInt socks_port),
      (''RemoteServerListSignaturePublicKey'', JStr REMOTE_SERVER_LIST_SIGNATURE_PUBLIC_KEY),
      (''ServerEntrySignaturePublicKey'', JStr SERVER_ENTRY_SIGNATURE_PUBLIC_KEY),
      (''ExchangeObfuscationKey'', JStr EXCHANGE_OBFUSCATION_KEY),
      (''EmitBytesTransferred'', JBool True),
      (''DeviceRegion'', JStr ''IR''),
      (''ConnectionWorkerPoolSize'', JInt (if optimized then 12 else 16)),
      (''EmitDiagnosticNotices'', JBool True),
      (''DNSResolverPreferredAlternateServers'', JStrs ALTERNATE_DNS),
      (''DNSResolverPreferAlternateServerProbability'', JNum (if optimized then 1 else 35 / 100)),
      (''DNSResolverAttemptsPerPreferredServer'', JInt (if optimized then 2 else 1)),
      (''InproxyEnabled'', JBool False),
      (''InproxyAllowClient'', JBool False),
      (''EstablishTunnelServerAffinityGracePeriodMilliseconds'', JInt SERVER_AFFINITY_GRACE_MS)]"

definition with_strategy :: "psiphon_strategy \<Rightarrow> (string, json) dict \<Rightarrow> (string, json) dict" where
  "with_strategy strategy c =
     dict_set ''EstablishTunnelTimeoutSeconds'' (JInt (ps_timeout_seconds strategy))
       (if ps_name strategy = ''A''
        then dict_set_all [(''InitialLimitTunnelProtocols'', JStrs FRONTED),
               (''InitialLimitTunnelProtocolsCandidateCount'', JInt 24), (''LimitTunnelProtocols'', JStrs FRONTED),
               (''ConnectionWorkerPoolSize'', JInt 12), (''NetworkLatencyMultiplier'', JNum (3 / 2))] c
        else dict_set_all [(''InitialLimitTunnelProtocols'', JStrs FAST_DIRECT),
               (''InitialLimitTunnelProtocolsCandidateCount'', JInt 16),
               (''ConnectionWorkerPoolSize'', JInt 16), (''NetworkLatencyMultiplier'', JNum 1)] c)"

definition with_region :: "string option \<Rightarrow> bool \<Rightarrow> (string, json) dict \<Rightarrow> (string, json) dict" where
  "with_region region region_bias c = (case region of
     None \<Rightarrow> c
   | Some r \<Rightarrow>
       let c' = dict_set ''EgressRegion'' (JStr r) c in
       if region_bias then dict_set ''EstablishTunnelTimeoutSeconds'' (JInt NEARBY_PHASE_TIMEOUT_SECONDS) c'
       else dict_pop ''LimitTunnelProtocols'' (dict_pop ''InitialLimitTunnelProtocolsCandidateCount''
              (dict_pop ''InitialLimitTunnelProtocols''
                (dict_set ''EstablishTunnelTimeoutSeconds'' (JInt REGION_PHASE_TIMEOUT_SECONDS) c'))))"

definition preferred_region_of :: "string option \<Rightarrow> string option" where
  "preferred_region_of preferred = (case preferred of None \<Rightarrow> None | Some p \<Rightarrow> if p = [] then None else egress_region p)"

definition direct_protocols :: "psiphon_strategy \<Rightarrow> string list" where
  "direct_protocols strategy =
     (if list_all (\<lambda>p. startswith p ''FRONTED-'') (ps_preferred_protocols strategy)
      then [''FRONTED-MEEK-OSSH'', ''FRONTED-MEEK-HTTP-OSSH''] else [''TLS-OSSH'', ''SHADOWSOCKS-OSSH''])"

definition with_leg :: "bool \<Rightarrow> psiphon_strategy \<Rightarrow> (string, json) dict \<Rightarrow> (string, json) dict" where
  "with_leg direct strategy c =
     (if direct then
        (let meek_only = list_all (\<lambda>p. startswith p ''FRONTED-'') (ps_preferred_protocols strategy);
             protocols = direct_protocols strategy;
             c' = dict_pop ''DNSResolverPreferredAlternateServers'' (dict_set_all
               [(''LimitTunnelProtocols'', JStrs protocols), (''InitialLimitTunnelProtocols'', JStrs protocols),
                (''InitialLimitTunnelProtocolsCandidateCount'', JInt (if meek_only then 16 else 8)),
                (''EstablishTunnelTimeoutSeconds'', JInt (if meek_only then 90 else 35)),
                (''ConnectionWorkerPoolSize'', JInt (if meek_only then 8 else 6)),
                (''DNSResolverPreferAlternateServerProbability'', JInt 0)] c)
         in if meek_only then dict_set_all [(''MeekTransformedHostName'', JStr ''cdnjs.cloudflare.com''),
                                (''MeekSNIServerName'', JStr ''cdnjs.cloudflare.com'')] c'
            else c')
      else dict_set ''LimitTunnelProtocols'' (JStrs CHAINABLE) c)"

definition only_chainable :: "(string, json) dict \<Rightarrow> (string, json) dict" where
  "only_chainable c = (case dict_get c ''InitialLimitTunnelProtocols'' of
     None \<Rightarrow> c
   | Some preference \<Rightarrow>
       let chainable = filter (\<lambda>p. p \<in> set (map JStr CHAINABLE)) (case preference of JArr ps \<Rightarrow> ps | _ \<Rightarrow> [])
       in if chainable = []
          then dict_pop ''InitialLimitTunnelProtocolsCandidateCount'' (dict_pop ''InitialLimitTunnelProtocols'' c)
          else dict_set ''InitialLimitTunnelProtocols'' (JArr chainable) c)"

definition psiphon_config :: "int \<Rightarrow> string \<Rightarrow> string option \<Rightarrow> psiphon_strategy \<Rightarrow> bool \<Rightarrow> bool \<Rightarrow> bool \<Rightarrow> int
    \<Rightarrow> (string, json) dict" where
  "psiphon_config socks_port data_directory preferred strategy optimized direct region_bias upstream_port =
     (let base = base_config socks_port data_directory strategy optimized;
          chained = (if direct then base
            else dict_set ''UpstreamProxyURL'' (JStr (''socks5://127.0.0.1:'' @ int_str upstream_port)) base)
      in only_chainable (with_leg direct strategy
           (with_region (preferred_region_of preferred) region_bias (with_strategy strategy chained))))"

definition psiphon_wait_seconds :: "json res \<Rightarrow> int \<Rightarrow> bool \<Rightarrow> int res" where
  \<comment> \<open>the argument is the parsed configuration; only \<open>TypeError\<close> and \<open>ValueError\<close> are handled\<close>
  "psiphon_wait_seconds config fallback region_bias =
     rbind (case rbind config (\<lambda>j. case j of
               JObj d \<Rightarrow> py_int_of (or_else (dict_get_or d ''EstablishTunnelTimeoutSeconds'' JNull) (JInt 0))
             | _ \<Rightarrow> Inl AttributeError) of
          Inr n \<Rightarrow> Inr n
        | Inl e \<Rightarrow> if e = TypeError \<or> e = ValueError then Inr 0 else Inl e) (\<lambda>n.
     Inr ((if n \<le> 0 then fallback else n) + (if region_bias then NEARBY_WAIT_MARGIN_S else PSIPHON_WAIT_MARGIN_S)))"

section \<open>The last connection\<close>

record last_connect =
  lc_protocol :: string
  lc_transport :: string
  lc_ip :: string
  lc_peer :: string
  lc_through_psiphon :: bool

definition middle_dot :: string where "middle_dot = [CHR '' '', CHR 0xB7, CHR '' '']"

definition char_count :: "char \<Rightarrow> string \<Rightarrow> nat" where
  "char_count c s = length (filter (\<lambda>x. x = c) s)"

definition describe :: "last_connect \<Rightarrow> string" where
  "describe lc =
     (if lc_protocol lc = [] then []
      else if lc_protocol lc = ''psiphon'' then ''Psiphon''
      else let
        name = dict_get_or [(''wireguard'', ''WireGuard''), (''gool'', ''WARP-in-WARP''), (''masque'', ''MASQUE'')]
                 (lc_protocol lc) (lc_protocol lc);
        transport_label = dict_get_or [(''h2'', ''HTTP/2''), (''h3'', ''HTTP/3'')] (lc_transport lc) [];
        host = hd (split_on (CHR '']'') (hd (split_on (CHR ''%'') (lc_peer lc))));
        ip_label = (if lc_ip lc = ''v6'' \<or> startswith (lc_peer lc) ''['' \<or> char_count (CHR '':'') host > 1 then ''IPv6''
                    else if lc_ip lc = ''v4'' \<or> char_count (CHR ''.'') host = 3 then ''IPv4'' else []);
        head = join middle_dot (filter (\<lambda>p. p \<noteq> []) [name, transport_label, ip_label, lc_peer lc])
      in head @ (if lc_through_psiphon lc then middle_dot @ ''Psiphon'' else middle_dot @ ''WARP''))"


section \<open>Settings are legal once validated\<close>

definition settings_legal :: "pow_settings \<Rightarrow> bool" where
  "settings_legal s \<longleftrightarrow> (exit_country_code s = [] \<or> is_code (exit_country_code s))
     \<and> outer_transport s \<in> set (OUTER_AUTO # OUTER_LADDER) \<and> obfuscation_profile s \<in> set OBFUSCATION_PROFILES
     \<and> scan_mode s \<in> set SCAN_MODES \<and> firewall_profile s \<in> set FIREWALLS \<and> link_recipe s \<in> set RECIPES
     \<and> key_fetch s \<in> set KEY_FETCHES \<and> h2_fragment_mode s \<in> set H2_FRAG_CHOICES"

lemma chosen_mem: "def \<in> set cs \<Longrightarrow> chosen raw cs def \<in> set cs"
  by (simp add: chosen_def Let_def)

text \<open>Choices are lower case and stripped, so choosing again keeps the value.\<close>

definition plain_choices :: "string list \<Rightarrow> bool" where
  "plain_choices cs = list_all (\<lambda>c. lower (strip c) = c) cs"

lemma chosen_idem: "plain_choices cs \<Longrightarrow> def \<in> set cs \<Longrightarrow> chosen (chosen raw cs def) cs def = chosen raw cs def"
proof -
  assume cs: "plain_choices cs" and d: "def \<in> set cs"
  have "lower (strip (chosen raw cs def)) = chosen raw cs def"
    using cs chosen_mem [OF d, of raw] by (auto simp: plain_choices_def list_all_iff)
  then show ?thesis using chosen_mem [OF d, of raw] by (simp add: chosen_def Let_def)
qed

lemma choices_plain:
  "plain_choices (OUTER_AUTO # OUTER_LADDER)" "plain_choices OBFUSCATION_PROFILES" "plain_choices FIREWALLS"
  "plain_choices RECIPES" "plain_choices KEY_FETCHES" "plain_choices H2_FRAG_CHOICES" "plain_choices SCAN_MODES"
  by code_simp+

lemma choice_defaults:
  "OUTER_AUTO \<in> set (OUTER_AUTO # OUTER_LADDER)" "''balanced'' \<in> set OBFUSCATION_PROFILES" "FIREWALL_AUTO \<in> set FIREWALLS"
  "RECIPE_AUTO \<in> set RECIPES" "DEFAULT_KEY_FETCH \<in> set KEY_FETCHES" "H2_FRAG_AUTO \<in> set H2_FRAG_CHOICES"
  by code_simp+

lemma h2_mode_chosen: "normalize_h2_fragment_mode raw = chosen raw H2_FRAG_CHOICES H2_FRAG_AUTO"
  by (simp add: normalize_h2_fragment_mode_def chosen_def)

lemma scan_mode_mem: "normalize_scan_mode raw \<in> set SCAN_MODES"
  by (simp add: normalize_scan_mode_def SCAN_MODES_def Let_def)

lemma scan_mode_idem: "normalize_scan_mode (normalize_scan_mode raw) = normalize_scan_mode raw"
proof -
  have "list_all (\<lambda>m. normalize_scan_mode m = m) SCAN_MODES" by code_simp
  with scan_mode_mem [of raw] show ?thesis by (auto simp: list_all_iff)
qed

lemma validated_sel [simp]:
  "link_recipe (validated s) = chosen (link_recipe s) RECIPES RECIPE_AUTO"
  "key_fetch (validated s) = chosen (key_fetch s) KEY_FETCHES DEFAULT_KEY_FETCH"
  "h2_fragment_mode (validated s) = normalize_h2_fragment_mode (h2_fragment_mode s)"
  "obfuscation_profile (validated s) = chosen (obfuscation_profile s) OBFUSCATION_PROFILES ''balanced''"
  "scan_mode (validated s) = normalize_scan_mode (scan_mode s)"
  by (simp_all add: validated_def)

lemma validated_legal: "settings_legal (validated s)"
  unfolding settings_legal_def
  using normalize_region_cases [of "exit_country_code s"] choice_defaults scan_mode_mem
    chosen_mem [of OUTER_AUTO "OUTER_AUTO # OUTER_LADDER" "outer_transport s"]
  by (simp add: validated_def h2_mode_chosen chosen_mem)

lemma validated_idem: "validated (validated s) = validated s"
  by (simp add: validated_def normalize_region_idem chosen_idem choices_plain choice_defaults scan_mode_idem h2_mode_chosen)

text \<open>
  C29: Validation gives legal settings whatever was stored: every choice is one the engine knows and
  the exit country is empty or a two-letter code; validating again changes nothing, so settings
  that were validated once are kept.
\<close>

theorem validated_settings_are_legal:
  "settings_legal (validated s) \<and> validated (validated s) = validated s"
  by (simp add: validated_legal validated_idem del: validated_sel)

section \<open>Requests to the core are legal\<close>

lemma plan_cases: "op_ip_mode (outer_plan_of s mci) \<in> {''v4'', ''v6'', ''both''}"
  "op_masque_transport (outer_plan_of s mci) \<in> {''h2'', ''h3''}"
  "op_protocols (outer_plan_of s mci) \<noteq> []" "set (op_protocols (outer_plan_of s mci)) \<subseteq> set OUTER_LADDER"
  by (simp_all add: outer_plan_of_def plan_of_def Let_def OUTER_LADDER_def)

lemma ip_for_cases: "ip_for plan p \<in> {''v4'', ''v6'', ''both''}"
  by (simp add: ip_for_def)

lemma relay_urls_https: "relay_urls file \<noteq> [] \<and> list_all (\<lambda>u. startswith (lower u) ''https://'') (relay_urls file)"
proof -
  have "list_all (\<lambda>u. startswith (lower u) ''https://'') RELAY_URLS_DEFAULT" by code_simp
  then show ?thesis
    by (auto simp: relay_urls_def RELAY_URLS_DEFAULT_def Let_def list_all_iff split: sum.split)
qed

lemma json_fields [simp]: "dict_get ((k, v) # d) k' = (if k' = k then Some v else dict_get d k')"
  by (simp add: dict_get_def)

text \<open>
  C20: What the core is asked to do is legal for any settings, protocol and wanted transport: known scan
  depth, key route and address family, relays that are all https and at least one, the transport that was
  asked for (the plan's when none was) for MASQUE and h3 otherwise, so h2 or h3 whenever one of these or none
  was asked for; and the ClientHello is fragmented exactly for MASQUE over h2 when the user turned it on, or
  left it to the plan and the filter detection and one of them wants it.
\<close>

theorem core_request_is_legal:
  fixes dir p s disc mode mci wanted adaptive
  defines "req \<equiv> chain_outer_json dir p s disc mode mci wanted adaptive"
    and "plan \<equiv> outer_plan_of (validated s) mci"
    and "choice \<equiv> normalize_h2_fragment_mode (h2_fragment_mode s)"
  shows "\<exists>scan ip t frag key relays.
     dict_get req ''scan_mode'' = Some (JStr scan) \<and> scan \<in> set SCAN_MODES
     \<and> dict_get req ''ip_scan'' = Some (JStr ip) \<and> ip \<in> {''v4'', ''v6'', ''both''}
     \<and> dict_get req ''api_camo'' = Some (JStr key) \<and> key \<in> set KEY_FETCHES
     \<and> dict_get req ''api_relay'' = Some (JStr (join '','' relays))
     \<and> relays \<noteq> [] \<and> list_all (\<lambda>u. startswith (lower u) ''https://'') relays
     \<and> dict_get req ''masque_transport'' = Some (JStr t)
     \<and> t = (if p \<noteq> ''masque'' then ''h3'' else if wanted \<in> {None, Some []} then op_masque_transport plan else the wanted)
     \<and> (wanted \<in> {None, Some [], Some ''h2'', Some ''h3''} \<longrightarrow> t \<in> {''h2'', ''h3''})
     \<and> dict_get req ''h2_fragmentation'' = Some (JBool frag)
     \<and> (frag \<longleftrightarrow> p = ''masque'' \<and> t = ''h2'' \<and> (choice = H2_FRAG_ON \<or> choice \<noteq> H2_FRAG_OFF
          \<and> (op_fragment plan \<or> (case adaptive of None \<Rightarrow> adaptive_on (dd_adaptive dir) | Some a \<Rightarrow> a))))"
proof -
  define t where "t = (if p \<noteq> ''masque'' then ''h3'' else if wanted \<in> {None, Some []} then op_masque_transport plan else the wanted)"
  define ad where "ad = (case adaptive of None \<Rightarrow> adaptive_on (dd_adaptive dir) | Some a \<Rightarrow> a)"
  define frag where "frag = h2_fragment_effective (validated s) p plan ad (Some t)"
  have tr: "(if p = ''masque'' then (case wanted of None \<Rightarrow> op_masque_transport plan
      | Some x \<Rightarrow> if x = [] then op_masque_transport plan else x) else ''h3'') = t"
    by (auto simp: t_def split: option.split)
  have t: "wanted \<in> {None, Some [], Some ''h2'', Some ''h3''} \<longrightarrow> t \<in> {''h2'', ''h3''}" "t \<noteq> []"
    using plan_cases(2) [of "validated s" mci] by (auto simp: t_def plan_def)
  have m: "normalize_h2_fragment_mode (normalize_h2_fragment_mode r) = normalize_h2_fragment_mode r" for r
    by (simp add: h2_mode_chosen chosen_idem choices_plain choice_defaults)
  have f: "frag \<longleftrightarrow> p = ''masque'' \<and> t = ''h2'' \<and> (choice = H2_FRAG_ON \<or> choice \<noteq> H2_FRAG_OFF \<and> (op_fragment plan \<or> ad))"
    using t(2) by (auto simp: frag_def h2_fragment_effective_def m Let_def choice_def H2_FRAG_ON_def H2_FRAG_OFF_def)
  have r: "dict_get req ''scan_mode'' = Some (JStr (normalize_scan_mode mode))"
    "dict_get req ''ip_scan'' = Some (JStr (ip_for plan p))"
    "dict_get req ''masque_transport'' = Some (JStr t)"
    "dict_get req ''api_camo'' = Some (JStr (key_fetch (validated s)))"
    "dict_get req ''api_relay'' = Some (JStr (join '','' (relay_urls (dd_relays dir))))"
    "dict_get req ''h2_fragmentation'' = Some (JBool frag)"
    unfolding req_def chain_outer_json_def Let_def plan_def [symmetric] tr frag_def ad_def
    by (simp_all only: json_fields) simp_all
  have k: "key_fetch (validated s) \<in> set KEY_FETCHES" by (simp add: chosen_mem choice_defaults)
  show ?thesis
    using r(1) scan_mode_mem r(2) ip_for_cases r(4) k r(5) conjunct1 [OF relay_urls_https] conjunct2 [OF relay_urls_https] r(3) t_def t(1) r(6) f
    unfolding ad_def by (intro exI conjI) assumption+
qed


theorem core_request_is_legal_witness:
  "dict_get (chain_outer_json \<lparr>dd_path = ''d'', dd_relays = Inl OSError, dd_adaptive = Inl OSError\<rparr> ''masque''
      (DEFAULT_SETTINGS\<lparr>h2_fragment_mode := ''on''\<rparr>) ''cache'' ''turbo'' True (Some ''h2'') (Some False)) ''h2_fragmentation''
     = Some (JBool True)"
proof -
  have "normalize_h2_fragment_mode ''on'' = H2_FRAG_ON" by code_simp
  with core_request_is_legal [of "\<lparr>dd_path = ''d'', dd_relays = Inl OSError, dd_adaptive = Inl OSError\<rparr>" "''masque''"
      "DEFAULT_SETTINGS\<lparr>h2_fragment_mode := ''on''\<rparr>" "''cache''" "''turbo''" True "Some ''h2''" "Some False"]
  show ?thesis by auto
qed

section \<open>The inner leg's configuration\<close>

lemma base_config_get:
  "dict_get (base_config port dir st opt) ''UpstreamProxyURL'' = None"
  by (simp add: base_config_def)

lemma with_strategy_get:
  "dict_get (with_strategy st c) ''UpstreamProxyURL'' = dict_get c ''UpstreamProxyURL''"
  "dict_get (with_strategy st c) ''EstablishTunnelTimeoutSeconds'' = Some (JInt (ps_timeout_seconds st))"
  "dict_get (with_strategy st c) ''InitialLimitTunnelProtocols''
     = Some (JStrs (if ps_name st = ''A'' then FRONTED else FAST_DIRECT))"
  by (simp_all add: with_strategy_def)

lemma with_region_get:
  "dict_get (with_region r bias c) ''UpstreamProxyURL'' = dict_get c ''UpstreamProxyURL''"
  "dict_get (with_region r bias c) ''EstablishTunnelTimeoutSeconds''
     = (if r = None then dict_get c ''EstablishTunnelTimeoutSeconds''
        else Some (JInt (if bias then NEARBY_PHASE_TIMEOUT_SECONDS else REGION_PHASE_TIMEOUT_SECONDS)))"
  "dict_get (with_region r bias c) ''InitialLimitTunnelProtocols''
     = (if r = None \<or> bias then dict_get c ''InitialLimitTunnelProtocols'' else None)"
  by (cases r; simp add: with_region_def Let_def)+

lemma with_leg_get:
  "dict_get (with_leg direct st c) ''UpstreamProxyURL'' = dict_get c ''UpstreamProxyURL''"
  "dict_get (with_leg direct st c) ''LimitTunnelProtocols'' = Some (JStrs (if direct then direct_protocols st else CHAINABLE))"
  "dict_get (with_leg direct st c) ''InitialLimitTunnelProtocols''
     = (if direct then Some (JStrs (direct_protocols st)) else dict_get c ''InitialLimitTunnelProtocols'')"
  "\<exists>t. dict_get (with_leg direct st c) ''EstablishTunnelTimeoutSeconds''
     = (if direct then Some (JInt t) else dict_get c ''EstablishTunnelTimeoutSeconds'') \<and> 0 < t"
  by (auto simp: with_leg_def Let_def intro: exI [of _ 1])

lemma only_chainable_get:
  "dict_get (only_chainable c) ''UpstreamProxyURL'' = dict_get c ''UpstreamProxyURL''"
  "dict_get (only_chainable c) ''LimitTunnelProtocols'' = dict_get c ''LimitTunnelProtocols''"
  "dict_get (only_chainable c) ''EstablishTunnelTimeoutSeconds'' = dict_get c ''EstablishTunnelTimeoutSeconds''"
  by (auto simp: only_chainable_def Let_def split: option.split)

lemma only_chainable_initial:
  assumes "dict_get (only_chainable c) ''InitialLimitTunnelProtocols'' = Some v"
  obtains ps where "v = JArr ps" "ps \<noteq> []" "set ps \<subseteq> set (map JStr CHAINABLE)"
    "\<exists>qs. dict_get c ''InitialLimitTunnelProtocols'' = Some (JArr qs) \<and> set ps \<subseteq> set qs"
proof (cases "dict_get c ''InitialLimitTunnelProtocols''")
  case (Some pref)
  let ?ps = "filter (\<lambda>p. p \<in> set (map JStr CHAINABLE)) (case pref of JArr ps \<Rightarrow> ps | _ \<Rightarrow> [])"
  from assms Some have ps: "v = JArr ?ps" "?ps \<noteq> []" by (auto simp: only_chainable_def Let_def split: if_splits)
  then obtain qs where "pref = JArr qs" by (cases pref) auto
  with ps Some show ?thesis by (intro that) auto
qed (use assms in \<open>simp add: only_chainable_def\<close>)

lemma psiphon_config_parts:
  fixes port dir preferred st opt direct bias up fallback
  assumes "0 < ps_timeout_seconds st"
  defines "cfg \<equiv> psiphon_config port dir preferred st opt direct bias up"
  shows "dict_get cfg ''UpstreamProxyURL'' = (if direct then None else Some (JStr (''socks5://127.0.0.1:'' @ int_str up)))"
    and "\<exists>allowed. dict_get cfg ''LimitTunnelProtocols'' = Some (JArr allowed)
       \<and> (\<forall>v. dict_get cfg ''InitialLimitTunnelProtocols'' = Some v \<longrightarrow> (\<exists>ps. v = JArr ps \<and> ps \<noteq> [] \<and> set ps \<subseteq> set allowed))"
    and "\<exists>t. dict_get cfg ''EstablishTunnelTimeoutSeconds'' = Some (JInt t) \<and> 0 < t
       \<and> psiphon_wait_seconds (Inr (JObj cfg)) fallback bias' = Inr (t + (if bias' then 3 else 8))"
proof -
  define chained where "chained = (if direct then base_config port dir st opt
     else dict_set ''UpstreamProxyURL'' (JStr (''socks5://127.0.0.1:'' @ int_str up)) (base_config port dir st opt))"
  define r where "r = with_region (preferred_region_of preferred) bias (with_strategy st chained)"
  have cfg: "cfg = only_chainable (with_leg direct st r)"
    by (simp add: cfg_def psiphon_config_def Let_def r_def chained_def)
  show "dict_get cfg ''UpstreamProxyURL'' = (if direct then None else Some (JStr (''socks5://127.0.0.1:'' @ int_str up)))"
    unfolding cfg only_chainable_get with_leg_get r_def with_region_get with_strategy_get
    by (simp add: chained_def base_config_get)
  have "\<exists>ps. v = JArr ps \<and> ps \<noteq> [] \<and> set ps \<subseteq> set (map JStr (if direct then direct_protocols st else CHAINABLE))"
    if "dict_get cfg ''InitialLimitTunnelProtocols'' = Some v" for v
  proof -
    from that obtain ps where ps: "v = JArr ps" "ps \<noteq> []" "set ps \<subseteq> set (map JStr CHAINABLE)"
      "\<exists>qs. dict_get (with_leg direct st r) ''InitialLimitTunnelProtocols'' = Some (JArr qs) \<and> set ps \<subseteq> set qs"
      unfolding cfg by (rule only_chainable_initial)
    then show ?thesis by (cases direct) (auto simp: with_leg_get(3) JStrs_def)
  qed
  then show "\<exists>allowed. dict_get cfg ''LimitTunnelProtocols'' = Some (JArr allowed)
       \<and> (\<forall>v. dict_get cfg ''InitialLimitTunnelProtocols'' = Some v \<longrightarrow> (\<exists>ps. v = JArr ps \<and> ps \<noteq> [] \<and> set ps \<subseteq> set allowed))"
    unfolding cfg only_chainable_get with_leg_get(2) JStrs_def by blast
  have "\<exists>t. dict_get cfg ''EstablishTunnelTimeoutSeconds'' = Some (JInt t) \<and> 0 < t"
  proof (cases direct)
    case True
    with with_leg_get(4) [of direct st r] show ?thesis by (auto simp: cfg only_chainable_get)
  next
    case False
    with with_leg_get(4) [of direct st r] assms(1) show ?thesis
      by (auto simp: cfg only_chainable_get r_def with_region_get(2) with_strategy_get(2)
          NEARBY_PHASE_TIMEOUT_SECONDS_def REGION_PHASE_TIMEOUT_SECONDS_def)
  qed
  then show "\<exists>t. dict_get cfg ''EstablishTunnelTimeoutSeconds'' = Some (JInt t) \<and> 0 < t
       \<and> psiphon_wait_seconds (Inr (JObj cfg)) fallback bias' = Inr (t + (if bias' then 3 else 8))"
    by (auto simp: psiphon_wait_seconds_def dict_get_or_def or_else_def NEARBY_WAIT_MARGIN_S_def PSIPHON_WAIT_MARGIN_S_def)
qed

text \<open>
  Every configuration given to Psiphon is consistent: it goes through the outer leg's port
  exactly when it is not direct, the protocols it may start with are a non-empty part of the
  protocols it may use, and the ladder waits for the time this very configuration gives itself
  plus the margin, never for the fallback.
\<close>

theorem psiphon_config_is_consistent:
  fixes port dir preferred st opt direct bias up fallback
  assumes "0 < ps_timeout_seconds st"
  defines "cfg \<equiv> psiphon_config port dir preferred st opt direct bias up"
  shows "dict_get cfg ''UpstreamProxyURL'' = (if direct then None else Some (JStr (''socks5://127.0.0.1:'' @ int_str up)))
     \<and> (\<exists>allowed. dict_get cfg ''LimitTunnelProtocols'' = Some (JArr allowed)
         \<and> (\<forall>v. dict_get cfg ''InitialLimitTunnelProtocols'' = Some v \<longrightarrow> (\<exists>ps. v = JArr ps \<and> ps \<noteq> [] \<and> set ps \<subseteq> set allowed)))
     \<and> (\<exists>t. dict_get cfg ''EstablishTunnelTimeoutSeconds'' = Some (JInt t) \<and> 0 < t
         \<and> psiphon_wait_seconds (Inr (JObj cfg)) fallback bias' = Inr (t + (if bias' then 3 else 8)))"
  unfolding cfg_def by (intro conjI) (rule psiphon_config_parts [OF assms(1)])+

theorem psiphon_config_is_consistent_witness:
  "\<exists>t. dict_get (psiphon_config 1821 ''d'' (Some ''de'') STRATEGY_F True False False 1820) ''EstablishTunnelTimeoutSeconds''
      = Some (JInt t)
     \<and> psiphon_wait_seconds (Inr (JObj (psiphon_config 1821 ''d'' (Some ''de'') STRATEGY_F True False False 1820))) 5 False
      = Inr (t + 8)"
  using psiphon_config_is_consistent [of STRATEGY_F 1821 "''d''" "Some ''de''" True False False 1820 5 False]
  by (auto simp: STRATEGY_F_def)

section \<open>The first strategy\<close>

lemma first_min_mem: "xs \<noteq> [] \<Longrightarrow> first_min f xs \<in> set xs"
proof -
  have "foldl (\<lambda>b x. if f x < f b then x else b) a ys \<in> insert a (set ys)" for a ys
    by (induction ys arbitrary: a) force+
  then show "xs \<noteq> [] \<Longrightarrow> ?thesis" by (cases xs) (auto simp: first_min_def)
qed

lemma first_min_le: "x \<in> set xs \<Longrightarrow> f (first_min f xs) \<le> f x"
proof -
  have *: "f (foldl (\<lambda>b x. if f x < f b then x else b) a ys) \<le> f a
      \<and> (\<forall>y \<in> set ys. f (foldl (\<lambda>b x. if f x < f b then x else b) a ys) \<le> f y)" for a ys
  proof (induction ys arbitrary: a)
    case (Cons y ys)
    show ?case using Cons [of a] Cons [of y] by (cases "f y < f a") (auto simp: not_less)
  qed simp
  show "x \<in> set xs \<Longrightarrow> ?thesis" using * [of "hd xs" "tl xs"] by (cases xs) (auto simp: first_min_def)
qed

lemma start_index_in_ladder: "ladder \<noteq> [] \<Longrightarrow> 0 \<le> start_index ladder remembered rtts \<and> start_index ladder remembered rtts < int (length ladder)"
proof -
  assume ne: "ladder \<noteq> []"
  let ?m = "filter (\<lambda>i. dict_get_or rtts (ps_name (ladder ! i)) 0 > 0) [0..<length ladder]"
  have "first_min f ?m < length ladder" if "length ?m \<ge> 2" for f :: "nat \<Rightarrow> int"
  proof -
    have "?m \<noteq> []" using that by auto
    from first_min_mem [OF this, of f] show ?thesis by simp
  qed
  with ne show ?thesis by (auto simp: start_index_def Let_def split: option.split)
qed

end
