(* ===== verification/Gene_Pool.thy ===== *)
theory Gene_Pool
  imports Py_Float "HOL-Library.Product_Lexorder"
begin

text \<open>
  The gene pool of \<open>gene_pool.py\<close>: which stored genes may run, in which order, what a run teaches
  (score, failure streak, cooldown) and how many genes a profile gets. Genes and statistics are
  the JSON values of the settings file, so every field is read defensively, as the source does.
\<close>

section \<open>Constants\<close>

definition VALID_METHODS :: "string list" where
  "VALID_METHODS = [''wrong_seq'', ''plain'', ''full5'', ''full10'', ''full20'', ''multi64'',
     ''tls_sni_records'', ''sni_boundary'', ''sni_split'', ''primitive'']"

definition SUCCESS_BONUS :: rat where "SUCCESS_BONUS = 1 / 10"
definition FAIL_PENALTY :: rat where "FAIL_PENALTY = 5 / 100"
definition SCORE_MIN :: rat where "SCORE_MIN = 0"
definition SCORE_MAX :: rat where "SCORE_MAX = 2"
definition GENE_FAILS_BEFORE_COOLDOWN :: int where "GENE_FAILS_BEFORE_COOLDOWN = 3"
definition GENE_COOLDOWN_SECONDS :: rat where "GENE_COOLDOWN_SECONDS = 3 * 3600"
definition MAX_GENES_PER_PROFILE :: int where "MAX_GENES_PER_PROFILE = 3"
definition MAX_GENE_ATTEMPTS_TOTAL :: int where "MAX_GENE_ATTEMPTS_TOTAL = 9"
definition COUNTER_CAP :: int where "COUNTER_CAP = 10000"

section \<open>Reading a gene and its statistics\<close>

definition field :: "obj \<Rightarrow> string \<Rightarrow> json" where
  \<comment> \<open>\<open>d.get(k)\<close>\<close>
  "field d k = dict_get_or d k JNull"

definition num :: "json \<Rightarrow> pyfloat \<Rightarrow> pyfloat res" where
  "num v d = (case py_float_of v of
     Inr x \<Rightarrow> Inr x
   | Inl e \<Rightarrow> if e = TypeError \<or> e = ValueError then Inr d else Inl e)"

definition gene_id :: "obj \<Rightarrow> string" where
  \<comment> \<open>\<open>str(gene.get("id", ""))\<close>\<close>
  "gene_id g = py_str (dict_get_or g ''id'' (JStr []))"

definition is_confirmed :: "json \<Rightarrow> bool" where
  "is_confirmed gene \<longleftrightarrow> is_dict gene \<and> truthy (field (dict_of gene) ''confirmed'')
     \<and> py_str (or_else (dict_get_or (dict_of gene) ''id'' (JStr [])) (JStr [])) \<noteq> []
     \<and> lower (strip (py_str (or_else (dict_get_or (dict_of gene) ''method'' (JStr [])) (JStr [])))) \<in> set VALID_METHODS"

definition clamp_score :: "pyfloat \<Rightarrow> rat" where
  \<comment> \<open>\<open>max(SCORE_MIN, min(SCORE_MAX, x))\<close>: always finite, a NaN becomes the maximum\<close>
  "clamp_score x = fin_or SCORE_MAX (py_max (Fin SCORE_MIN) (py_min (Fin SCORE_MAX) x))"

definition base_score :: "obj \<Rightarrow> rat res" where
  "base_score g = rbind (num (field g ''score'') (Fin 0)) (\<lambda>x. Inr (clamp_score x))"

definition local_score :: "obj \<Rightarrow> obj \<Rightarrow> rat res" where
  "local_score g stats =
     (let entry = field stats (gene_id g) in
      if is_dict entry \<and> dict_get (dict_of entry) ''score'' \<noteq> None
      then rbind (base_score g) (\<lambda>b. rbind (num (field (dict_of entry) ''score'') (Fin b)) (\<lambda>x. Inr (clamp_score x)))
      else base_score g)"

definition in_cooldown :: "string \<Rightarrow> obj \<Rightarrow> rat \<Rightarrow> bool res" where
  "in_cooldown gid stats now =
     (let entry = field stats gid in
      if is_dict entry then rbind (num (field (dict_of entry) ''cooldown_until'') (Fin 0)) (\<lambda>x. Inr (flt_lt (Fin now) x))
      else Inr False)"

section \<open>The pool\<close>

fun select_genes :: "obj \<Rightarrow> rat \<Rightarrow> bool \<Rightarrow> string list \<Rightarrow> json list \<Rightarrow> obj list res" where
  "select_genes stats now include_cooldown seen [] = Inr []"
| "select_genes stats now include_cooldown seen (gene # genes) =
     (if \<not> is_confirmed gene \<or> gene_id (dict_of gene) \<in> set seen
      then select_genes stats now include_cooldown seen genes
      else rbind (if include_cooldown then Inr False else in_cooldown (gene_id (dict_of gene)) stats now) (\<lambda>cool.
        rbind (select_genes stats now include_cooldown (gene_id (dict_of gene) # seen) genes) (\<lambda>rest.
        Inr (if cool then rest else dict_of gene # rest))))"

definition pool_key :: "obj \<Rightarrow> string \<Rightarrow> obj \<Rightarrow> (nat \<times> rat \<times> rat \<times> string) res" where
  "pool_key stats last_winner g =
     rbind (local_score g stats) (\<lambda>l. rbind (base_score g) (\<lambda>b.
     Inr (if gene_id g = last_winner then 0 else 1, - l, - b, gene_id g)))"

definition ordered_pool :: "json list \<Rightarrow> obj \<Rightarrow> rat \<Rightarrow> string \<Rightarrow> bool \<Rightarrow> obj list res" where
  "ordered_pool strategies stats now last_winner include_cooldown =
     rbind (select_genes stats now include_cooldown [] strategies) (\<lambda>pool.
     rbind (rmap (pool_key stats last_winner) pool) (\<lambda>keys.
     Inr (map snd (sort_key fst (zip keys pool)))))"

fun cooled_down :: "json list \<Rightarrow> obj \<Rightarrow> rat \<Rightarrow> string list res" where
  "cooled_down [] stats now = Inr []"
| "cooled_down (g # gs) stats now =
     (if is_confirmed g then
        rbind (in_cooldown (gene_id (dict_of g)) stats now) (\<lambda>cool.
        rbind (cooled_down gs stats now) (\<lambda>rest. Inr (if cool then gene_id (dict_of g) # rest else rest)))
      else cooled_down gs stats now)"

section \<open>Learning\<close>

definition only_dicts :: "obj \<Rightarrow> obj" where
  "only_dicts stats = filter (\<lambda>(k, v). is_dict v) stats"

definition count_field :: "obj \<Rightarrow> string \<Rightarrow> int res" where
  \<comment> \<open>\<open>int(_num(entry.get(name)))\<close>\<close>
  "count_field e name = rbind (num (field e name) (Fin 0)) flt_trunc"

definition note_success :: "rat \<Rightarrow> pyfloat \<Rightarrow> obj \<Rightarrow> obj res" where
  "note_success now score e =
     rbind (count_field e ''successes'') (\<lambda>n.
     Inr (dict_set_all [(''score'', json_of_float (py_min (Fin SCORE_MAX) (flt_add score SUCCESS_BONUS))),
        (''successes'', JInt (min COUNTER_CAP (n + 1))), (''consecutive_failures'', JInt 0),
        (''last_success_at'', JNum now), (''cooldown_until'', JNum 0)] e))"

definition note_failure :: "rat \<Rightarrow> pyfloat \<Rightarrow> obj \<Rightarrow> (obj \<times> bool) res" where
  "note_failure now score e =
     rbind (count_field e ''failures'') (\<lambda>n.
     rbind (count_field e ''consecutive_failures'') (\<lambda>s.
     let cool = (s + 1 \<ge> GENE_FAILS_BEFORE_COOLDOWN)
     in Inr (dict_set_all ([(''score'', json_of_float (py_max (Fin SCORE_MIN) (flt_add score (- FAIL_PENALTY)))),
          (''failures'', JInt (min COUNTER_CAP (n + 1))), (''last_fail_at'', JNum now)]
          @ (if cool then [(''cooldown_until'', JNum (now + GENE_COOLDOWN_SECONDS))] else [])
          @ [(''consecutive_failures'', JInt (if cool then 0 else s + 1))]) e, cool)))"

definition record_result :: "obj \<Rightarrow> obj \<Rightarrow> bool \<Rightarrow> rat \<Rightarrow> (obj \<times> bool) res" where
  "record_result stats0 g ok now =
     (let stats = only_dicts stats0; old = field stats (gene_id g) in
      rbind (base_score g) (\<lambda>b.
      let e = (if truthy old then dict_of old else [(''score'', JNum b)]) in
      rbind (num (field e ''score'') (Fin b)) (\<lambda>score.
      rbind (if ok then rbind (note_success now score e) (\<lambda>e'. Inr (e', False)) else note_failure now score e) (\<lambda>r.
      Inr (dict_set (gene_id g) (JObj (fst r)) stats, snd r)))))"

definition prune_stats :: "obj \<Rightarrow> json list \<Rightarrow> obj" where
  "prune_stats stats strategies =
     (let ids = map (\<lambda>g. py_str (field (dict_of g) ''id'')) (filter is_dict strategies)
      in filter (\<lambda>(k, v). k \<in> set ids \<and> is_dict v) stats)"

definition plan_profile_genes :: "obj list \<Rightarrow> int \<Rightarrow> int \<Rightarrow> int \<Rightarrow> obj list" where
  "plan_profile_genes pool attempts_used per_profile total_cap =
     (let remaining = max 0 (total_cap - attempts_used) in take (nat (max 0 (min per_profile remaining))) pool)"


section \<open>The pool holds distinct confirmed genes, best first\<close>

lemma select_genes_props:
  "select_genes stats now inc seen genes = Inr pool \<Longrightarrow>
   distinct (map gene_id pool) \<and> set (map gene_id pool) \<inter> set seen = {}
   \<and> (\<forall>g \<in> set pool. (\<exists>j \<in> set genes. g = dict_of j \<and> is_confirmed j)
        \<and> (inc \<or> in_cooldown (gene_id g) stats now = Inr False))"
proof (induction stats now inc seen genes arbitrary: pool rule: select_genes.induct)
  case (2 stats now inc seen gene genes)
  show ?case
  proof (cases "\<not> is_confirmed gene \<or> gene_id (dict_of gene) \<in> set seen")
    case True
    with 2 show ?thesis by fastforce
  next
    case False
    with 2(3) obtain cool rest where
      cool: "(if inc then Inr False else in_cooldown (gene_id (dict_of gene)) stats now) = Inr cool"
      and rest: "select_genes stats now inc (gene_id (dict_of gene) # seen) genes = Inr rest"
      and pool: "pool = (if cool then rest else dict_of gene # rest)"
      by (auto simp: rbind_eq_Inr_iff)
    from 2(2) [OF False cool rest] cool pool False show ?thesis
      by (cases inc) (auto split: if_splits)
  qed
qed simp

lemma select_genes_complete:
  "select_genes stats now inc seen genes = Inr pool \<Longrightarrow> j \<in> set genes \<Longrightarrow> is_confirmed j \<Longrightarrow>
   gene_id (dict_of j) \<notin> set seen \<Longrightarrow> inc \<or> in_cooldown (gene_id (dict_of j)) stats now = Inr False \<Longrightarrow>
   gene_id (dict_of j) \<in> set (map gene_id pool)"
proof (induction stats now inc seen genes arbitrary: pool rule: select_genes.induct)
  case (2 stats now inc seen gene genes)
  show ?case
  proof (cases "\<not> is_confirmed gene \<or> gene_id (dict_of gene) \<in> set seen")
    case True
    with 2 show ?thesis by auto
  next
    case False
    with 2(3) obtain cool rest where
      cool: "(if inc then Inr False else in_cooldown (gene_id (dict_of gene)) stats now) = Inr cool"
      and rest: "select_genes stats now inc (gene_id (dict_of gene) # seen) genes = Inr rest"
      and pool: "pool = (if cool then rest else dict_of gene # rest)"
      by (auto simp: rbind_eq_Inr_iff)
    show ?thesis
    proof (cases "gene_id (dict_of j) = gene_id (dict_of gene)")
      case True
      with 2(7) cool have "\<not> cool" by (auto split: if_splits)
      with pool True show ?thesis by simp
    next
      case neq: False
      with 2(4) have "j \<in> set genes" by auto
      from 2(2) [OF False cool rest this 2(5) _ 2(7)] 2(6) neq pool show ?thesis by auto
    qed
  qed
qed simp

lemma rmap_nth: "rmap f xs = Inr ys \<Longrightarrow> i < length xs \<Longrightarrow> f (xs ! i) = Inr (ys ! i)"
  by (induction xs arbitrary: ys i) (auto simp: rbind_eq_Inr_iff nth_Cons split: nat.splits)

lemma ordered_pool_keys:
  assumes "ordered_pool strategies stats now w inc = Inr pool"
  obtains sel where "select_genes stats now inc [] strategies = Inr sel" "mset pool = mset sel"
    "sorted (map (\<lambda>g. projr (pool_key stats w g)) pool)"
    "\<forall>g \<in> set pool. \<exists>k. pool_key stats w g = Inr k"
proof -
  from assms obtain sel ks where sel: "select_genes stats now inc [] strategies = Inr sel"
    and ks: "rmap (pool_key stats w) sel = Inr ks" and pool: "pool = map snd (sort_key fst (zip ks sel))"
    by (auto simp: ordered_pool_def rbind_eq_Inr_iff)
  have len: "length ks = length sel" using rmap_length [OF ks] .
  have key: "pool_key stats w g = Inr k" if "(k, g) \<in> set (zip ks sel)" for k g
    using that rmap_nth [OF ks] by (auto simp: in_set_zip)
  have "map (\<lambda>g. projr (pool_key stats w g)) pool = map fst (sort_key fst (zip ks sel))"
    unfolding pool map_map comp_def using key by (intro map_cong refl) (metis prod.collapse set_sort sum.sel(2))
  then have "sorted (map (\<lambda>g. projr (pool_key stats w g)) pool)" by simp
  moreover have "mset pool = mset sel" unfolding pool mset_map mset_sort
    by (simp flip: mset_map add: len)
  moreover have "\<exists>k. pool_key stats w g = Inr k" if "g \<in> set pool" for g
    using that key unfolding pool by (auto)
  ultimately show ?thesis using that sel by blast
qed

lemma ordered_pool_parts:
  assumes "ordered_pool strategies stats now w inc = Inr pool"
  shows "distinct (map gene_id pool)"
    and "\<forall>g \<in> set pool. (\<exists>j \<in> set strategies. g = dict_of j \<and> is_confirmed j)
           \<and> (inc \<or> in_cooldown (gene_id g) stats now = Inr False)"
    and "\<forall>j \<in> set strategies. is_confirmed j \<and> (inc \<or> in_cooldown (gene_id (dict_of j)) stats now = Inr False)
           \<longrightarrow> gene_id (dict_of j) \<in> set (map gene_id pool)"
    and "sorted (map (\<lambda>g. projr (pool_key stats w g)) pool)"
    and "w \<in> set (map gene_id pool) \<Longrightarrow> gene_id (hd pool) = w"
proof -
  from assms obtain sel where sel: "select_genes stats now inc [] strategies = Inr sel" "mset pool = mset sel"
    "sorted (map (\<lambda>g. projr (pool_key stats w g)) pool)" and k: "\<forall>g \<in> set pool. \<exists>k. pool_key stats w g = Inr k"
    by (rule ordered_pool_keys)
  have set: "set pool = set sel" using sel(2) by (rule mset_eq_setD)
  show "sorted (map (\<lambda>g. projr (pool_key stats w g)) pool)" by (rule sel(3))
  have "mset (map gene_id pool) = mset (map gene_id sel)" using sel(2) by simp
  with select_genes_props [OF sel(1)] show "distinct (map gene_id pool)"
    by (metis mset_eq_imp_distinct_iff)
  show "\<forall>g \<in> set pool. (\<exists>j \<in> set strategies. g = dict_of j \<and> is_confirmed j)
           \<and> (inc \<or> in_cooldown (gene_id g) stats now = Inr False)"
    using select_genes_props [OF sel(1)] set by simp
  show "\<forall>j \<in> set strategies. is_confirmed j \<and> (inc \<or> in_cooldown (gene_id (dict_of j)) stats now = Inr False)
           \<longrightarrow> gene_id (dict_of j) \<in> set (map gene_id pool)"
    using select_genes_complete [OF sel(1)] set by auto
  show "gene_id (hd pool) = w" if "w \<in> set (map gene_id pool)"
  proof (cases pool)
    case (Cons h t)
    from that obtain g where g: "g \<in> set pool" "gene_id g = w" by auto
    show ?thesis
    proof (cases "g = h")
      case False
      then have "g \<in> set t" using g Cons by auto
      then have le: "projr (pool_key stats w h) \<le> projr (pool_key stats w g)" using sel(3) Cons by auto
      from k g Cons obtain kh kg where "pool_key stats w h = Inr kh" "pool_key stats w g = Inr kg" by force
      with le g(2) have "gene_id h = w"
        by (auto simp: pool_key_def rbind_eq_Inr_iff less_eq_prod_def split: if_splits)
      then show ?thesis by (simp add: Cons)
    qed (use g Cons in simp)
  qed (use that in simp)
qed

text \<open>
  The pool offered to a profile holds confirmed genes of the stored list, each id once, none in
  cooldown (unless asked for), every confirmed id that is not cooling down, in the order of the
  last winner first, then local score, base score and id.
\<close>

theorem ordered_pool_offers:
  assumes "ordered_pool strategies stats now w inc = Inr pool"
  shows "distinct (map gene_id pool)
     \<and> (\<forall>g \<in> set pool. (\<exists>j \<in> set strategies. g = dict_of j \<and> is_confirmed j)
           \<and> (inc \<or> in_cooldown (gene_id g) stats now = Inr False))
     \<and> (\<forall>j \<in> set strategies. is_confirmed j \<and> (inc \<or> in_cooldown (gene_id (dict_of j)) stats now = Inr False)
           \<longrightarrow> gene_id (dict_of j) \<in> set (map gene_id pool))
     \<and> sorted (map (\<lambda>g. projr (pool_key stats w g)) pool)
     \<and> (w \<in> set (map gene_id pool) \<longrightarrow> gene_id (hd pool) = w)"
  using ordered_pool_parts [OF assms] by blast

section \<open>What a run teaches\<close>

definition count_ok :: "json \<Rightarrow> int \<Rightarrow> bool" where
  "count_ok j hi \<longleftrightarrow> (case j of JNull \<Rightarrow> True | JInt n \<Rightarrow> 0 \<le> n \<and> n \<le> hi | _ \<Rightarrow> False)"

definition score_ok :: "json \<Rightarrow> bool" where
  "score_ok j \<longleftrightarrow> (case py_float_of j of Inr (Fin r) \<Rightarrow> SCORE_MIN \<le> r \<and> r \<le> SCORE_MAX | _ \<Rightarrow> False)"

definition entry_ok :: "json \<Rightarrow> bool" where
  "entry_ok j \<longleftrightarrow> is_dict j \<and> score_ok (field (dict_of j) ''score'')
     \<and> count_ok (field (dict_of j) ''successes'') COUNTER_CAP \<and> count_ok (field (dict_of j) ''failures'') COUNTER_CAP
     \<and> count_ok (field (dict_of j) ''consecutive_failures'') (GENE_FAILS_BEFORE_COOLDOWN - 1)"

definition stats_ok :: "obj \<Rightarrow> bool" where
  "stats_ok stats \<longleftrightarrow> dict_ok stats \<and> (\<forall>(k, v) \<in> set stats. entry_ok v)"

lemma fin_small: "\<bar>r\<bar> \<le> 10 ^ 18 \<Longrightarrow> fin r = Fin r"
proof -
  assume r: "\<bar>r\<bar> \<le> 10 ^ 18"
  have "(10 :: rat) ^ 18 = of_int (10 ^ 18)" by simp
  also have "\<dots> < of_int float_limit" using float_limit_big by (simp only: of_int_less_iff)
  finally show ?thesis using r by (auto simp: fin_def)
qed

lemma field_set [simp]: "field (dict_set k v d) k' = (if k' = k then v else field d k')"
  by (simp add: field_def dict_get_or_def)

lemma field_set_all: "field (dict_set_all kvs d) k = (case map_of (rev kvs) k of Some v \<Rightarrow> v | None \<Rightarrow> field d k)"
  by (induction kvs arbitrary: d) (auto simp: map_add_def split: option.split)

lemma count_field_ok: "count_ok (field e n) hi \<Longrightarrow> hi \<le> 10 ^ 18 \<Longrightarrow> \<exists>k. count_field e n = Inr k \<and> 0 \<le> k \<and> k \<le> max 0 hi"
  by (auto simp: count_ok_def count_field_def num_def trunc_rat_def split: json.splits)

lemma score_okE: "score_ok j \<Longrightarrow> \<exists>r. py_float_of j = Inr (Fin r) \<and> 0 \<le> r \<and> r \<le> 2"
  by (auto simp: score_ok_def SCORE_MIN_def SCORE_MAX_def split: sum.splits pyfloat.splits)

lemma score_ok_JNum: "0 \<le> r \<Longrightarrow> r \<le> 2 \<Longrightarrow> score_ok (JNum r)"
  by (simp add: score_ok_def SCORE_MIN_def SCORE_MAX_def)

lemma base_score_range: "base_score g = Inr b \<Longrightarrow> 0 \<le> b \<and> b \<le> 2"
  using py_min_max_range [of SCORE_MIN SCORE_MAX]
  by (auto simp: base_score_def rbind_eq_Inr_iff clamp_score_def fin_or_def SCORE_MIN_def SCORE_MAX_def split: pyfloat.splits)

lemma note_success_spec:
  assumes "count_ok (field e ''successes'') COUNTER_CAP" "0 \<le> r" "r \<le> 2"
  obtains n where "note_success now (Fin r) e = Inr (dict_set_all [(''score'', JNum (min 2 (r + 1 / 10))),
        (''successes'', JInt n), (''consecutive_failures'', JInt 0),
        (''last_success_at'', JNum now), (''cooldown_until'', JNum 0)] e)" "0 \<le> n" "n \<le> COUNTER_CAP"
proof -
  obtain k where k: "count_field e ''successes'' = Inr k" "0 \<le> k"
    using count_field_ok [OF assms(1)] by (auto simp: COUNTER_CAP_def)
  have "flt_add (Fin r) SUCCESS_BONUS = Fin (r + 1 / 10)"
    using assms(2,3) by (simp add: flt_add_def SUCCESS_BONUS_def fin_small)
  then have "json_of_float (py_min (Fin SCORE_MAX) (flt_add (Fin r) SUCCESS_BONUS)) = JNum (min 2 (r + 1 / 10))"
    by (auto simp: py_min_def flt_lt_def SCORE_MAX_def json_of_float_def min_def)
  with k show ?thesis by (intro that [of "min COUNTER_CAP (k + 1)"]) (simp_all add: note_success_def COUNTER_CAP_def)
qed

lemma note_failure_spec:
  assumes "count_ok (field e ''failures'') COUNTER_CAP"
    "count_ok (field e ''consecutive_failures'') (GENE_FAILS_BEFORE_COOLDOWN - 1)" "0 \<le> r" "r \<le> 2"
  obtains n s where "note_failure now (Fin r) e = Inr (dict_set_all ([(''score'', JNum (max 0 (r - 5 / 100))),
        (''failures'', JInt n), (''last_fail_at'', JNum now)]
        @ (if s = 2 then [(''cooldown_until'', JNum (now + GENE_COOLDOWN_SECONDS))] else [])
        @ [(''consecutive_failures'', JInt (if s = 2 then 0 else s + 1))]) e, s = 2)"
    "0 \<le> n" "n \<le> COUNTER_CAP" "0 \<le> s" "s \<le> 2" "count_field e ''consecutive_failures'' = Inr s"
proof -
  obtain k where k: "count_field e ''failures'' = Inr k" "0 \<le> k"
    using count_field_ok [OF assms(1)] by (auto simp: COUNTER_CAP_def)
  obtain s where s: "count_field e ''consecutive_failures'' = Inr s" "0 \<le> s" "s \<le> 2"
    using count_field_ok [OF assms(2)] by (auto simp: GENE_FAILS_BEFORE_COOLDOWN_def)
  have "flt_add (Fin r) (- FAIL_PENALTY) = Fin (r - 5 / 100)"
    using assms(3,4) by (simp add: flt_add_def FAIL_PENALTY_def fin_small)
  moreover have max0: "max 0 (r - 5 / 100) = (if 0 < r - 5 / 100 then r - 5 / 100 else 0)" by simp
  ultimately have sc: "json_of_float (py_max (Fin SCORE_MIN) (flt_add (Fin r) (- FAIL_PENALTY))) = JNum (max 0 (r - 5 / 100))"
    
    unfolding if_distrib [of JNum, symmetric] max0 by (simp add: py_max_def flt_lt_def SCORE_MIN_def json_of_float_def)
  have cool: "(s + 1 \<ge> GENE_FAILS_BEFORE_COOLDOWN) = (s = 2)" using s by (auto simp: GENE_FAILS_BEFORE_COOLDOWN_def)
  show ?thesis
    by (rule that [of "min COUNTER_CAP (k + 1)" s]) (use k s sc cool in \<open>simp_all add: note_failure_def COUNTER_CAP_def Let_def\<close>)
qed

text \<open>One recorded result on well-formed statistics.\<close>

lemma field_only_dicts: "stats_ok stats \<Longrightarrow> only_dicts stats = stats"
  by (auto simp: stats_ok_def entry_ok_def only_dicts_def intro: filter_True)

lemma stats_ok_field: "stats_ok stats \<Longrightarrow> field stats k = JNull \<or> entry_ok (field stats k)"
  by (auto simp: field_def dict_get_or_def stats_ok_def dict_get_def split: option.split dest!: map_of_SomeD)

lemma stats_ok_set: "stats_ok stats \<Longrightarrow> entry_ok v \<Longrightarrow> stats_ok (dict_set k v stats)"
proof -
  have "(a, b) \<in> set d \<or> b = v" if "(a, b) \<in> set (dict_set k v d)" for a b d
    using that by (induction d) (auto split: if_splits)
  then show "stats_ok stats \<Longrightarrow> entry_ok v \<Longrightarrow> ?thesis" by (fastforce simp: stats_ok_def)
qed

definition entry_of :: "obj \<Rightarrow> obj \<Rightarrow> rat \<Rightarrow> obj" where
  "entry_of stats g b = (if truthy (field stats (gene_id g)) then dict_of (field stats (gene_id g)) else [(''score'', JNum b)])"

lemma entry_of_ok:
  assumes "stats_ok stats" "0 \<le> b" "b \<le> 2"
  shows "entry_ok (JObj (entry_of stats g b))"
proof (cases "truthy (field stats (gene_id g))")
  case True
  with stats_ok_field [OF assms(1), of "gene_id g"] have ok: "entry_ok (field stats (gene_id g))" by auto
  then have "JObj (dict_of (field stats (gene_id g))) = field stats (gene_id g)"
    by (simp add: entry_ok_def is_dict_def dict_of_def split: json.splits)
  with ok True show ?thesis by (simp add: entry_of_def)
next
  case False
  then show ?thesis using assms score_ok_JNum [of b]
    by (simp add: entry_of_def entry_ok_def is_dict_def dict_of_def field_def dict_get_or_def dict_get_def count_ok_def)
qed

lemma record_result_step:
  assumes ok: "stats_ok stats" and b: "base_score g = Inr b"
  obtains e r e' cool where "record_result stats g good now = Inr (dict_set (gene_id g) (JObj e') stats, cool)"
    "e = entry_of stats g b" "entry_ok (JObj e)" "py_float_of (field e ''score'') = Inr (Fin r)" "0 \<le> r" "r \<le> 2"
    "if good then note_success now (Fin r) e = Inr e' \<and> \<not> cool else note_failure now (Fin r) e = Inr (e', cool)"
proof -
  let ?e = "entry_of stats g b"
  have e: "entry_ok (JObj ?e)" using entry_of_ok [OF ok] base_score_range [OF b] by simp
  then obtain r where r: "py_float_of (field ?e ''score'') = Inr (Fin r)" "0 \<le> r" "r \<le> 2"
    using score_okE by (auto simp: entry_ok_def dict_of_def)
  have rec: "record_result stats g good now =
     rbind (if good then rbind (note_success now (Fin r) ?e) (\<lambda>e'. Inr (e', False)) else note_failure now (Fin r) ?e)
      (\<lambda>q. Inr (dict_set (gene_id g) (JObj (fst q)) stats, snd q))"
    using r by (simp add: record_result_def b field_only_dicts [OF ok] entry_of_def num_def Let_def)
  show ?thesis
  proof (cases good)
    case True
    obtain n where "note_success now (Fin r) ?e = Inr (dict_set_all [(''score'', JNum (min 2 (r + 1 / 10))),
        (''successes'', JInt n), (''consecutive_failures'', JInt 0),
        (''last_success_at'', JNum now), (''cooldown_until'', JNum 0)] ?e)"
      using note_success_spec [of ?e r now] e r by (auto simp: entry_ok_def dict_of_def)
    with rec True r e show ?thesis by (intro that) auto
  next
    case False
    have c: "count_ok (field ?e ''failures'') COUNTER_CAP"
      "count_ok (field ?e ''consecutive_failures'') (GENE_FAILS_BEFORE_COOLDOWN - 1)"
      using e by (auto simp: entry_ok_def dict_of_def)
    obtain q where "note_failure now (Fin r) ?e = Inr q"
      using note_failure_spec [OF c r(2,3), of now] by blast
    with rec False r e show ?thesis by (intro that [of "fst q" "snd q"]) auto
  qed
qed


lemma in_cooldown_JNum: "field stats gid = JObj e \<Longrightarrow> field e ''cooldown_until'' = JNum c \<Longrightarrow>
    in_cooldown gid stats now = Inr (now < c)"
  by (simp add: in_cooldown_def is_dict_def dict_of_def num_def flt_lt_def)

lemma record_success:
  assumes "stats_ok stats" "base_score g = Inr b" "record_result stats g True now = Inr (s, c)"
  shows "stats_ok s \<and> \<not> c \<and> (\<exists>e. field s (gene_id g) = JObj e \<and> field e ''consecutive_failures'' = JInt 0
     \<and> field e ''cooldown_until'' = JNum 0 \<and> e \<noteq> [])"
proof -
  obtain e r e' cool where st: "record_result stats g True now = Inr (dict_set (gene_id g) (JObj e') stats, cool)"
    "entry_ok (JObj e)" "0 \<le> r" "r \<le> 2" "note_success now (Fin r) e = Inr e'" "\<not> cool"
    using record_result_step [OF assms(1,2), of True now] by metis
  obtain n where e': "e' = dict_set_all [(''score'', JNum (min 2 (r + 1 / 10))),
        (''successes'', JInt n), (''consecutive_failures'', JInt 0),
        (''last_success_at'', JNum now), (''cooldown_until'', JNum 0)] e" "0 \<le> n" "n \<le> COUNTER_CAP"
    using note_success_spec [of e r now] st by (auto simp: entry_ok_def dict_of_def)
  have f: "field e' ''score'' = JNum (min 2 (r + 1 / 10))" "field e' ''successes'' = JInt n"
    "field e' ''failures'' = field e ''failures''" "field e' ''consecutive_failures'' = JInt 0"
    "field e' ''cooldown_until'' = JNum 0" by (simp_all add: e'(1) field_set_all)
  have "entry_ok (JObj e')" using st(2-4) e'(2,3)
    by (auto simp: entry_ok_def is_dict_def dict_of_def f count_ok_def GENE_FAILS_BEFORE_COOLDOWN_def intro: score_ok_JNum)
  then have "stats_ok s" using stats_ok_set [OF assms(1)] assms(3) st(1) by auto
  moreover have "e' \<noteq> []" using f(5) by (auto simp: field_def dict_get_or_def JNum_def)
  ultimately show ?thesis using assms(3) st f by auto
qed

lemma record_failure:
  assumes "stats_ok stats" "base_score g = Inr b" "record_result stats g False now = Inr (s, c)"
  shows "stats_ok s \<and> (\<exists>e k. field s (gene_id g) = JObj e \<and> e \<noteq> []
     \<and> count_field (entry_of stats g b) ''consecutive_failures'' = Inr k \<and> 0 \<le> k \<and> k \<le> 2 \<and> c = (k = 2)
     \<and> field e ''consecutive_failures'' = JInt (if c then 0 else k + 1)
     \<and> field e ''cooldown_until'' = (if c then JNum (now + GENE_COOLDOWN_SECONDS)
          else field (entry_of stats g b) ''cooldown_until''))"
proof -
  obtain e r e' cool where st: "record_result stats g False now = Inr (dict_set (gene_id g) (JObj e') stats, cool)"
    "e = entry_of stats g b" "entry_ok (JObj e)" "0 \<le> r" "r \<le> 2" "note_failure now (Fin r) e = Inr (e', cool)"
    using record_result_step [OF assms(1,2), of False now] by metis
  have ok: "count_ok (field e ''failures'') COUNTER_CAP"
    "count_ok (field e ''consecutive_failures'') (GENE_FAILS_BEFORE_COOLDOWN - 1)"
    using st(3) by (auto simp: entry_ok_def dict_of_def)
  obtain n k where nk: "note_failure now (Fin r) e = Inr (dict_set_all ([(''score'', JNum (max 0 (r - 5 / 100))),
        (''failures'', JInt n), (''last_fail_at'', JNum now)]
        @ (if k = 2 then [(''cooldown_until'', JNum (now + GENE_COOLDOWN_SECONDS))] else [])
        @ [(''consecutive_failures'', JInt (if k = 2 then 0 else k + 1))]) e, k = 2)"
    "0 \<le> n" "n \<le> COUNTER_CAP" "0 \<le> k" "k \<le> 2" "count_field e ''consecutive_failures'' = Inr k"
    using note_failure_spec [OF ok st(4,5), of now] by metis
  let ?d = "dict_set_all ([(''score'', JNum (max 0 (r - 5 / 100))),
        (''failures'', JInt n), (''last_fail_at'', JNum now)]
        @ (if k = 2 then [(''cooldown_until'', JNum (now + GENE_COOLDOWN_SECONDS))] else [])
        @ [(''consecutive_failures'', JInt (if k = 2 then 0 else k + 1))]) e"
  have "(e', cool) = (?d, k = 2)" using st(6) nk(1) by (metis Inr_inject)
  then have e': "e' = ?d" and cool: "cool = (k = 2)" by (simp_all only: prod.inject)
  have f: "field e' ''score'' = JNum (max 0 (r - 5 / 100))" "field e' ''failures'' = JInt n"
    "field e' ''successes'' = field e ''successes''"
    "field e' ''consecutive_failures'' = JInt (if k = 2 then 0 else k + 1)"
    "field e' ''cooldown_until'' = (if k = 2 then JNum (now + GENE_COOLDOWN_SECONDS) else field e ''cooldown_until'')"
    by (simp_all add: e' field_set_all)
  have sc: "score_ok (JNum (max 0 (r - 5 / 100)))" using st(4,5) by (intro score_ok_JNum) auto
  have "entry_ok (JObj e')" using st(3) nk(2-5) sc
    by (auto simp: entry_ok_def is_dict_def dict_of_def f count_ok_def GENE_FAILS_BEFORE_COOLDOWN_def)
  then have "stats_ok s" using stats_ok_set [OF assms(1)] assms(3) st(1) by auto
  moreover have "e' \<noteq> []" using f(4) by (auto simp: field_def dict_get_or_def)
  ultimately show ?thesis using assms(3) st nk(4-6) f cool by auto
qed

lemma entry_of_known: "field s (gene_id g) = JObj e \<Longrightarrow> e \<noteq> [] \<Longrightarrow> entry_of s g b = e"
  by (simp add: entry_of_def truthy_def dict_of_def)

lemma count_field_JInt: "field e n = JInt k \<Longrightarrow> \<bar>k\<bar> \<le> 10 ^ 18 \<Longrightarrow> count_field e n = Inr k"
  by (simp add: count_field_def num_def)

fun run_results :: "obj \<Rightarrow> (obj \<times> bool \<times> rat) list \<Rightarrow> obj res" where
  "run_results stats [] = Inr stats"
| "run_results stats ((g, ok, now) # rs) = rbind (record_result stats g ok now) (\<lambda>p. run_results (fst p) rs)"

lemma record_result_ok:
  assumes "stats_ok stats" "base_score g = Inr b"
  shows "\<exists>s c. record_result stats g ok now = Inr (s, c) \<and> stats_ok s"
proof -
  obtain s c where "record_result stats g ok now = Inr (s, c)"
    using record_result_step [OF assms, of ok now] by metis
  moreover from this have "stats_ok s"
    by (cases ok) (simp_all add: record_success [OF assms, THEN conjunct1] record_failure [OF assms, THEN conjunct1])
  ultimately show ?thesis by blast
qed

text \<open>
  Learning is total and keeps the statistics well-formed: from well-formed statistics, any
  sequence of recorded results (of genes with a readable score) succeeds, and every gene keeps a
  score between 0 and 2, counters between 0 and 10000 and a failure streak below three.
\<close>

theorem gene_stats_stay_well_formed:
  assumes "stats_ok stats" "\<forall>(g, ok, now) \<in> set results. \<exists>b. base_score g = Inr b"
  shows "\<exists>s. run_results stats results = Inr s \<and> stats_ok s"
  using assms
proof (induction stats results rule: run_results.induct)
  case (2 stats g ok now rs)
  then obtain b where "base_score g = Inr b" by auto
  from record_result_ok [OF 2(2) this] obtain s c where "record_result stats g ok now = Inr (s, c)" "stats_ok s" by blast
  with 2(1) [of "(s, c)"] 2(3) show ?case by auto
qed simp

text \<open>
  Failures put a gene to sleep and a success wakes it: after a success the first two failures
  only count, the third enters the cooldown, which lasts three hours from that failure, and no
  earlier result of the streak keeps the gene out of the pool.
\<close>

theorem gene_cooldown_lifecycle:
  assumes "stats_ok stats" "base_score g = Inr b"
    and "record_result stats g True t0 = Inr (s0, c0)" "record_result s0 g False t1 = Inr (s1, c1)"
    and "record_result s1 g False t2 = Inr (s2, c2)" "record_result s2 g False t3 = Inr (s3, c3)"
  shows "\<not> c0 \<and> \<not> c1 \<and> \<not> c2 \<and> c3
     \<and> (0 \<le> now \<longrightarrow> in_cooldown (gene_id g) s2 now = Inr False)
     \<and> in_cooldown (gene_id g) s3 now = Inr (now < t3 + 3 * 3600)"
proof -
  from record_success [OF assms(1-3)] obtain e0 where s0: "stats_ok s0" "\<not> c0" "field s0 (gene_id g) = JObj e0"
    "field e0 ''consecutive_failures'' = JInt 0" "field e0 ''cooldown_until'' = JNum 0" "e0 \<noteq> []" by auto
  have n0: "count_field e0 ''consecutive_failures'' = Inr 0" using count_field_JInt [OF s0(4)] by simp
  from record_failure [OF s0(1) assms(2,4)] n0 obtain e1 where s1: "stats_ok s1" "\<not> c1" "field s1 (gene_id g) = JObj e1"
    "field e1 ''consecutive_failures'' = JInt 1" "field e1 ''cooldown_until'' = JNum 0" "e1 \<noteq> []"
    by (auto simp: entry_of_known [OF s0(3,6)] s0(5))
  have n1: "count_field e1 ''consecutive_failures'' = Inr 1" using count_field_JInt [OF s1(4)] by simp
  from record_failure [OF s1(1) assms(2,5)] n1 obtain e2 where s2: "stats_ok s2" "\<not> c2" "field s2 (gene_id g) = JObj e2"
    "field e2 ''consecutive_failures'' = JInt 2" "field e2 ''cooldown_until'' = JNum 0" "e2 \<noteq> []"
    by (auto simp: entry_of_known [OF s1(3,6)] s1(5))
  have n2: "count_field e2 ''consecutive_failures'' = Inr 2" using count_field_JInt [OF s2(4)] by simp
  from record_failure [OF s2(1) assms(2,6)] n2 obtain e3 where s3: "c3" "field s3 (gene_id g) = JObj e3"
    "field e3 ''cooldown_until'' = JNum (t3 + GENE_COOLDOWN_SECONDS)"
    by (auto simp: entry_of_known [OF s2(3,6)] s2(5))
  show ?thesis using s0 s1 s2 s3 in_cooldown_JNum [OF s2(3,5)] in_cooldown_JNum [OF s3(2,3)]
    by (simp add: GENE_COOLDOWN_SECONDS_def)
qed

text \<open>Profiles share one budget of attempts.\<close>

fun plan_profiles :: "obj list list \<Rightarrow> int \<Rightarrow> obj list list" where
  "plan_profiles [] used = []"
| "plan_profiles (pool # pools) used =
     (let genes = plan_profile_genes pool used MAX_GENES_PER_PROFILE MAX_GENE_ATTEMPTS_TOTAL
      in genes # plan_profiles pools (used + int (length genes)))"

lemma plan_length: "0 \<le> n \<Longrightarrow> 0 \<le> k \<Longrightarrow> int (length (plan_profile_genes pool used n k)) \<le> min n (max 0 (k - used))"
  by (auto simp: plan_profile_genes_def min_def)

lemma plan_profiles_total: "0 \<le> used \<Longrightarrow> used \<le> MAX_GENE_ATTEMPTS_TOTAL \<Longrightarrow>
   used + int (length (concat (plan_profiles pools used))) \<le> MAX_GENE_ATTEMPTS_TOTAL"
proof (induction pools arbitrary: used)
  case (Cons pool pools)
  let ?n = "int (length (plan_profile_genes pool used MAX_GENES_PER_PROFILE MAX_GENE_ATTEMPTS_TOTAL))"
  have "?n \<le> max 0 (MAX_GENE_ATTEMPTS_TOTAL - used)"
    using plan_length [of MAX_GENES_PER_PROFILE MAX_GENE_ATTEMPTS_TOTAL pool used]
    by (simp add: MAX_GENES_PER_PROFILE_def MAX_GENE_ATTEMPTS_TOTAL_def)
  with Cons.prems Cons.IH [of "used + ?n"] show ?case by (simp add: Let_def)
qed simp

section \<open>Concrete runs\<close>

definition sample_gene :: "string \<Rightarrow> obj" where
  "sample_gene i = [(''id'', JStr i), (''confirmed'', JBool True), (''method'', JStr ''full5''), (''score'', JInt 1)]"

lemma sample_gene_props: "is_confirmed (JObj (sample_gene i)) = (i \<noteq> [])" "gene_id (sample_gene i) = i"
  "base_score (sample_gene i) = Inr 1"
proof -
  have "lower (strip ''full5'') \<in> set VALID_METHODS" by code_simp
  then show "is_confirmed (JObj (sample_gene i)) = (i \<noteq> [])"
    by (auto simp: is_confirmed_def sample_gene_def is_dict_def dict_of_def field_def dict_get_or_def dict_get_def or_else_def)
qed (simp_all add: sample_gene_def gene_id_def dict_get_or_def dict_get_def base_score_def field_def num_def
    clamp_score_def py_clamp_id fin_or_def SCORE_MIN_def SCORE_MAX_def)

theorem ordered_pool_offers_witness:
  "\<exists>pool. ordered_pool [JObj (sample_gene ''a''), JObj (sample_gene ''b''), JNull] [] 0 ''b'' False = Inr pool
     \<and> gene_id (hd pool) = ''b'' \<and> distinct (map gene_id pool)"
proof -
  have null: "\<not> is_confirmed JNull" by (simp add: is_confirmed_def is_dict_def)
  have sel: "select_genes [] 0 False [] [JObj (sample_gene ''a''), JObj (sample_gene ''b''), JNull]
      = Inr [sample_gene ''a'', sample_gene ''b'']"
    by (simp add: null sample_gene_props dict_of_def in_cooldown_def field_def dict_get_or_def is_dict_def)
  have k: "pool_key [] ''b'' (sample_gene i) = Inr (if i = ''b'' then 0 else 1, -1, -1, i)" for i
    by (simp add: pool_key_def local_score_def field_def dict_get_or_def is_dict_def sample_gene_props Let_def)
  obtain pool where p: "ordered_pool [JObj (sample_gene ''a''), JObj (sample_gene ''b''), JNull] [] 0 ''b'' False = Inr pool"
    unfolding ordered_pool_def sel by (simp add: k)
  note offers = ordered_pool_offers [OF p]
  then have "''b'' \<in> set (map gene_id pool)"
    by (simp add: sample_gene_props dict_of_def in_cooldown_def field_def dict_get_or_def is_dict_def)
  with offers p show ?thesis by blast
qed

theorem gene_stats_stay_well_formed_witness:
  "\<exists>s. run_results [] [(sample_gene ''a'', False, 1), (sample_gene ''b'', True, 2)] = Inr s \<and> stats_ok s"
  by (rule gene_stats_stay_well_formed) (simp_all add: stats_ok_def sample_gene_props)

theorem gene_cooldown_lifecycle_witness:
  "\<exists>s0 s1 s2 s3. run_results [] [(sample_gene ''a'', True, 0), (sample_gene ''a'', False, 1),
       (sample_gene ''a'', False, 2), (sample_gene ''a'', False, 3)] = Inr s3
     \<and> record_result [] (sample_gene ''a'') True 0 = Inr (s0, False) \<and> record_result s0 (sample_gene ''a'') False 1 = Inr (s1, False)
     \<and> record_result s1 (sample_gene ''a'') False 2 = Inr (s2, False) \<and> record_result s2 (sample_gene ''a'') False 3 = Inr (s3, True)
     \<and> in_cooldown ''a'' s3 100 = Inr True \<and> in_cooldown ''a'' s3 10803 = Inr False"
proof -
  let ?g = "sample_gene ''a''"
  note ok = record_result_ok [OF _ sample_gene_props(3) [of "''a''"]]
  have "stats_ok []" by (simp add: stats_ok_def)
  from ok [OF this, of True 0] obtain s0 c0 where s0: "record_result [] ?g True 0 = Inr (s0, c0)" "stats_ok s0" by blast
  from ok [OF s0(2), of False 1] obtain s1 c1 where s1: "record_result s0 ?g False 1 = Inr (s1, c1)" "stats_ok s1" by blast
  from ok [OF s1(2), of False 2] obtain s2 c2 where s2: "record_result s1 ?g False 2 = Inr (s2, c2)" "stats_ok s2" by blast
  from ok [OF s2(2), of False 3] obtain s3 c3 where s3: "record_result s2 ?g False 3 = Inr (s3, c3)" by blast
  note life = gene_cooldown_lifecycle [OF \<open>stats_ok []\<close> sample_gene_props(3) s0(1) s1(1) s2(1) s3]
  from life have c: "\<not> c0" "\<not> c1" "\<not> c2" "c3" by auto
  have "in_cooldown ''a'' s3 100 = Inr True" "in_cooldown ''a'' s3 10803 = Inr False"
    using life [of 100] life [of 10803] by (simp_all add: sample_gene_props)
  with c s0 s1 s2 s3 show ?thesis by auto
qed

end
