(* ===== verification/Proxy_Ports.thy ===== *)
theory Proxy_Ports
  imports Py_Json
begin

text \<open>
  The local proxy ports of both engines, \<open>proxy_ports.py\<close>: reading a saved value, the checks of a
  port the user enters, and when a busy port is reported. Error texts are the English ones. Which
  process listens on a port and whether a bind fails are answers from outside.
\<close>

section \<open>Constants\<close>

definition XRAY_SOCKS_DEFAULT :: int where "XRAY_SOCKS_DEFAULT = 20808"
definition XRAY_HTTP_DEFAULT :: int where "XRAY_HTTP_DEFAULT = 20809"
definition POW_HTTP_DEFAULT :: int where "POW_HTTP_DEFAULT = 1822"
definition POW_SOCKS_DEFAULT :: int where "POW_SOCKS_DEFAULT = 1821"
definition PORT_MIN :: int where "PORT_MIN = 1024"
definition PORT_MAX :: int where "PORT_MAX = 65535"
definition XRAY_SOCKS_KEY :: string where "XRAY_SOCKS_KEY = ''proxy_socks_port''"
definition XRAY_HTTP_KEY :: string where "XRAY_HTTP_KEY = ''proxy_http_port''"
definition POW_HTTP_KEY :: string where "POW_HTTP_KEY = ''proxy_http_port''"
definition POW_SOCKS_KEY :: string where "POW_SOCKS_KEY = ''psiphon_socks_port''"

definition XRAY_RESERVED :: "(int, string) dict" where
  "XRAY_RESERVED = [(40443, ''Patterniha fragment proxy'')]"

definition POW_RESERVED :: "(int, string) dict" where
  "POW_RESERVED = [(1819, ''legacy aether port''), (1820, ''WARP chain SOCKS''), (1821, ''Psiphon SOCKS''),
     (1825, ''speed router''), (1830, ''parallel MASQUE''), (1831, ''parallel MASQUE'')]"

definition POW_SOCKS_RESERVED :: "(int, string) dict" where
  "POW_SOCKS_RESERVED = filter (\<lambda>pn. fst pn \<noteq> POW_SOCKS_DEFAULT) POW_RESERVED"

section \<open>Checking a port\<close>

definition int_value :: "json \<Rightarrow> int option res" where
  \<comment> \<open>\<open>int(value)\<close> with \<open>TypeError\<close> and \<open>ValueError\<close> handled\<close>
  "int_value v = (case py_int_of v of
     Inr n \<Rightarrow> Inr (Some n)
   | Inl e \<Rightarrow> if e = TypeError \<or> e = ValueError then Inr None else Inl e)"

definition coerce_port :: "json \<Rightarrow> int \<Rightarrow> int res" where
  "coerce_port v d = rbind (int_value v) (\<lambda>n. case n of
     None \<Rightarrow> Inr d
   | Some port \<Rightarrow> Inr (if PORT_MIN \<le> port \<and> port \<le> PORT_MAX then port else d))"

definition port_number_errors :: "int \<Rightarrow> (int, string) dict \<Rightarrow> string list" where
  "port_number_errors n reserved =
     (if \<not> (PORT_MIN \<le> n \<and> n \<le> PORT_MAX)
      then [''Port '' @ int_str n @ '' must be between '' @ int_str PORT_MIN @ '' and '' @ int_str PORT_MAX]
      else case dict_get reserved n of
        Some name \<Rightarrow> [''Port '' @ int_str n @ '' is reserved for the '' @ name]
      | None \<Rightarrow> [])"

definition validate_port :: "json \<Rightarrow> (int, string) dict \<Rightarrow> string list res" where
  "validate_port v reserved = rbind (int_value v) (\<lambda>n. case n of
     None \<Rightarrow> Inr [''The port must be a number'']
   | Some number \<Rightarrow> Inr (port_number_errors number reserved))"

definition validate_two :: "json \<Rightarrow> (int, string) dict \<Rightarrow> json \<Rightarrow> (int, string) dict \<Rightarrow> string \<Rightarrow> string list res" where
  \<comment> \<open>both ports alone, then that they differ\<close>
  "validate_two a ra b rb msg =
     rbind (validate_port a ra) (\<lambda>ea. rbind (validate_port b rb) (\<lambda>eb.
     if ea @ eb \<noteq> [] then Inr (ea @ eb)
     else rbind (py_int_of a) (\<lambda>x. rbind (py_int_of b) (\<lambda>y. Inr (if x = y then [msg] else [])))))"

definition validate_xray_ports :: "json \<Rightarrow> json \<Rightarrow> string list res" where
  "validate_xray_ports socks http =
     validate_two socks XRAY_RESERVED http XRAY_RESERVED ''Engine 1 SOCKS and HTTP ports must be different''"

definition validate_pow_port :: "json \<Rightarrow> string list res" where
  "validate_pow_port port = validate_port port POW_RESERVED"

definition validate_pow_socks_port :: "json \<Rightarrow> string list res" where
  "validate_pow_socks_port port = validate_port port POW_SOCKS_RESERVED"

definition validate_pow_ports :: "json \<Rightarrow> json \<Rightarrow> string list res" where
  "validate_pow_ports http socks =
     validate_two http POW_RESERVED socks POW_SOCKS_RESERVED ''Engine 2 HTTP and SOCKS ports must be different''"

definition xray_ports_from_settings :: "(string, json) dict \<Rightarrow> (int \<times> int) res" where
  "xray_ports_from_settings settings =
     rbind (coerce_port (dict_get_or settings XRAY_SOCKS_KEY (JInt XRAY_SOCKS_DEFAULT)) XRAY_SOCKS_DEFAULT) (\<lambda>socks.
     rbind (coerce_port (dict_get_or settings XRAY_HTTP_KEY (JInt XRAY_HTTP_DEFAULT)) XRAY_HTTP_DEFAULT) (\<lambda>http.
     rbind (validate_xray_ports (JInt socks) (JInt http)) (\<lambda>errors.
     Inr (if errors \<noteq> [] then (XRAY_SOCKS_DEFAULT, XRAY_HTTP_DEFAULT) else (socks, http)))))"

definition pow_port_from_value :: "json \<Rightarrow> int res" where
  "pow_port_from_value v =
     rbind (coerce_port v POW_HTTP_DEFAULT) (\<lambda>port.
     rbind (validate_pow_port (JInt port)) (\<lambda>errors. Inr (if errors \<noteq> [] then POW_HTTP_DEFAULT else port)))"

definition pow_socks_from_value :: "json \<Rightarrow> int res" where
  "pow_socks_from_value v =
     rbind (coerce_port v POW_SOCKS_DEFAULT) (\<lambda>port.
     rbind (validate_pow_socks_port (JInt port)) (\<lambda>errors. Inr (if errors \<noteq> [] then POW_SOCKS_DEFAULT else port)))"

section \<open>Busy ports\<close>

record bind_failure =
  bf_winerror :: "int option"
  bf_errno :: "int option"

record port_env =
  pe_listener :: "int \<Rightarrow> int" \<comment> \<open>process id of the listener, 0 for none\<close>
  pe_bind :: "int \<Rightarrow> bind_failure option"
  pe_name :: "int \<Rightarrow> string"
  pe_self :: int
  pe_allow :: "int \<Rightarrow> bool" \<comment> \<open>the caller's own helpers; never when no test was given\<close>

definition busy_reason :: "port_env \<Rightarrow> int \<Rightarrow> string" where
  "busy_reason env port =
     (let pid = pe_listener env port; ours = (pid \<noteq> 0 \<and> (pid = pe_self env \<or> pe_allow env pid)) in
      if pid \<noteq> 0 \<and> \<not> ours
      then ''127.0.0.1:'' @ int_str port @ '' is used by '' @ pe_name env pid @ '' (PID '' @ int_str pid @ '')''
      else case pe_bind env port of
        None \<Rightarrow> []
      | Some e \<Rightarrow>
          if ours then []
          else if bf_winerror e = Some 10013 \<or> bf_errno e = Some 13 \<or> bf_errno e = Some 10013
          then ''127.0.0.1:'' @ int_str port @ '' is inside a Windows excluded port range''
          else [])"

definition busy_reasons :: "port_env \<Rightarrow> int list \<Rightarrow> string list" where
  "busy_reasons env ports = filter (\<lambda>r. r \<noteq> []) (map (busy_reason env) (uniq ports))"

section \<open>Saved ports are usable\<close>

lemma int_value_JInt [simp]: "int_value (JInt n) = Inr (Some n)"
  by (simp add: int_value_def)

lemma validate_port_JInt [simp]: "validate_port (JInt n) reserved = Inr (port_number_errors n reserved)"
  by (simp add: validate_port_def)

lemma port_number_ok: "port_number_errors n reserved = [] \<longleftrightarrow> PORT_MIN \<le> n \<and> n \<le> PORT_MAX \<and> dict_get reserved n = None"
  by (auto simp: port_number_errors_def split: option.split)

lemma coerce_port_range: "coerce_port v d = Inr p \<Longrightarrow> PORT_MIN \<le> d \<Longrightarrow> d \<le> PORT_MAX \<Longrightarrow> PORT_MIN \<le> p \<and> p \<le> PORT_MAX"
  by (auto simp: coerce_port_def rbind_eq_Inr_iff split: option.splits if_splits)

lemma saved_ports_parts:
  shows "xray_ports_from_settings settings = Inr (s, h) \<Longrightarrow>
      port_number_errors s XRAY_RESERVED = [] \<and> port_number_errors h XRAY_RESERVED = [] \<and> s \<noteq> h"
    and "pow_port_from_value v = Inr p \<Longrightarrow> port_number_errors p POW_RESERVED = []"
    and "pow_socks_from_value v = Inr p \<Longrightarrow> port_number_errors p POW_SOCKS_RESERVED = []"
    and "port_number_errors p POW_RESERVED = [] \<Longrightarrow> pow_port_from_value (JInt p) = Inr p"
    and "port_number_errors p POW_SOCKS_RESERVED = [] \<Longrightarrow> pow_socks_from_value (JInt p) = Inr p"
proof -
  have d: "port_number_errors XRAY_SOCKS_DEFAULT XRAY_RESERVED = []" "port_number_errors XRAY_HTTP_DEFAULT XRAY_RESERVED = []"
    "port_number_errors POW_HTTP_DEFAULT POW_RESERVED = []" "port_number_errors POW_SOCKS_DEFAULT POW_SOCKS_RESERVED = []"
    "XRAY_SOCKS_DEFAULT \<noteq> XRAY_HTTP_DEFAULT" by code_simp+
  show "xray_ports_from_settings settings = Inr (s, h) \<Longrightarrow>
      port_number_errors s XRAY_RESERVED = [] \<and> port_number_errors h XRAY_RESERVED = [] \<and> s \<noteq> h"
    using d by (auto simp: xray_ports_from_settings_def validate_xray_ports_def validate_two_def rbind_eq_Inr_iff split: if_splits)
  show "pow_port_from_value v = Inr p \<Longrightarrow> port_number_errors p POW_RESERVED = []"
    using d by (auto simp: pow_port_from_value_def validate_pow_port_def rbind_eq_Inr_iff split: if_splits)
  show "pow_socks_from_value v = Inr p \<Longrightarrow> port_number_errors p POW_SOCKS_RESERVED = []"
    using d by (auto simp: pow_socks_from_value_def validate_pow_socks_port_def rbind_eq_Inr_iff split: if_splits)
  show "port_number_errors p POW_RESERVED = [] \<Longrightarrow> pow_port_from_value (JInt p) = Inr p"
    by (simp add: pow_port_from_value_def validate_pow_port_def coerce_port_def port_number_ok)
  show "port_number_errors p POW_SOCKS_RESERVED = [] \<Longrightarrow> pow_socks_from_value (JInt p) = Inr p"
    by (simp add: pow_socks_from_value_def validate_pow_socks_port_def coerce_port_def port_number_ok)
qed

text \<open>
  Ports read back from a settings file are always usable: the engine-1 pair is in range, not
  reserved and two different ports, the engine-2 ports are in range and not reserved, whatever
  the file holds; a valid choice is read back as it is.
\<close>

theorem saved_ports_are_usable:
  "(\<forall>s h. xray_ports_from_settings settings = Inr (s, h) \<longrightarrow>
      port_number_errors s XRAY_RESERVED = [] \<and> port_number_errors h XRAY_RESERVED = [] \<and> s \<noteq> h)
   \<and> (\<forall>p. pow_port_from_value v = Inr p \<longrightarrow> port_number_errors p POW_RESERVED = [])
   \<and> (\<forall>p. pow_socks_from_value v = Inr p \<longrightarrow> port_number_errors p POW_SOCKS_RESERVED = [])
   \<and> (port_number_errors n POW_RESERVED = [] \<longrightarrow> pow_port_from_value (JInt n) = Inr n)
   \<and> (port_number_errors n POW_SOCKS_RESERVED = [] \<longrightarrow> pow_socks_from_value (JInt n) = Inr n)"
  using saved_ports_parts by blast

theorem saved_ports_are_usable_witness:
  "xray_ports_from_settings [(''proxy_socks_port'', JInt 40443)] = Inr (20808, 20809)
   \<and> port_number_errors 20808 XRAY_RESERVED = [] \<and> pow_port_from_value (JInt 8080) = Inr 8080"
proof -
  have *: "xray_ports_from_settings [(''proxy_socks_port'', JInt 40443)] = Inr (20808, 20809)"
    by (simp add: xray_ports_from_settings_def coerce_port_def validate_xray_ports_def validate_two_def
        port_number_errors_def dict_get_or_def dict_get_def XRAY_SOCKS_KEY_def XRAY_HTTP_KEY_def PORT_MIN_def
        PORT_MAX_def XRAY_RESERVED_def XRAY_SOCKS_DEFAULT_def XRAY_HTTP_DEFAULT_def)
  have "port_number_errors 8080 POW_RESERVED = []" by code_simp
  with saved_ports_are_usable [of "[(''proxy_socks_port'', JInt 40443)]" JNull 8080] * show ?thesis by simp
qed

end
