(* ===== verification/Pow_Store.thy ===== *)
theory Pow_Store
  imports Pow_Config Gene_Pool Proxy_Ports
begin

text \<open>
  The settings file of the PoW engine, \<open>pow/store.py\<close>: loading and migrating it, the settings
  themselves, the last connection, the exit and port choices, and what was learned per network.
  The store is the document in memory and the one on disk; every write either succeeds or raises
  \<open>OSError\<close> with the memory already changed. Text is not dumped: the disk holds the JSON value.
\<close>

record pow_store =
  ps_doc :: obj
  ps_disk :: "json res" \<comment> \<open>what reading the file gives\<close>

definition SETTINGS_VERSION :: int where "SETTINGS_VERSION = 2"
definition MAX_NETWORKS :: nat where "MAX_NETWORKS = 32"

definition write_doc :: "bool \<Rightarrow> pow_store \<Rightarrow> unit res \<times> pow_store" where
  "write_doc ok st = (if ok then (Inr (), st\<lparr>ps_disk := Inr (JObj (ps_doc st))\<rparr>) else (Inl OSError, st))"

definition try_write :: "bool \<Rightarrow> pow_store \<Rightarrow> pow_store" where
  \<comment> \<open>a write whose \<open>OSError\<close> is dropped\<close>
  "try_write ok st = snd (write_doc ok st)"

definition put_doc :: "string \<Rightarrow> json \<Rightarrow> pow_store \<Rightarrow> pow_store" where
  "put_doc k v st = st\<lparr>ps_doc := dict_set k v (ps_doc st)\<rparr>"

section \<open>Loading\<close>

definition lowered :: "json \<Rightarrow> string" where
  "lowered j = lower (strip (py_str j))"

definition doc_version :: "obj \<Rightarrow> int res" where
  "doc_version doc = rbind (int_value (or_else (dict_get_or doc ''settings_version'' (JInt 1)) (JInt 1)))
     (\<lambda>n. Inr (case n of None \<Rightarrow> 1 | Some v \<Rightarrow> v))"

definition drop_retired :: "bool \<Rightarrow> pow_store \<Rightarrow> pow_store" where
  "drop_retired ok st =
     (if lowered (dict_get_or (ps_doc st) ''key_fetch'' (JStr [])) \<in> set KEY_FETCHES_RETIRED
      then try_write ok (put_doc ''key_fetch'' (JStr DEFAULT_KEY_FETCH) st) else st)"

definition to_version_2 :: "bool \<Rightarrow> pow_store \<Rightarrow> pow_store" where
  "to_version_2 ok st =
     try_write ok (put_doc ''settings_version'' (JInt SETTINGS_VERSION)
       (if lowered (dict_get_or (ps_doc st) ''key_fetch'' (JStr [])) \<in> {[], KEY_ECH}
        then put_doc ''key_fetch'' (JStr DEFAULT_KEY_FETCH) st else st))"

definition migrate :: "bool \<Rightarrow> pow_store \<Rightarrow> pow_store res" where
  "migrate ok st0 =
     (let st = drop_retired ok st0 in
      rbind (doc_version (ps_doc st)) (\<lambda>version.
      Inr (if version \<ge> SETTINGS_VERSION \<or> ps_doc st = [] then st else to_version_2 ok st)))"

definition read_doc :: "json res \<Rightarrow> json" where
  "read_doc disk = (case disk of Inr j \<Rightarrow> j | Inl _ \<Rightarrow> JObj [])"

definition open_store :: "bool \<Rightarrow> json res \<Rightarrow> pow_store res" where
  \<comment> \<open>a file that holds another JSON value than an object has no \<open>get\<close>\<close>
  "open_store ok disk = (case read_doc disk of
     JObj d \<Rightarrow> migrate ok \<lparr>ps_doc = d, ps_disk = disk\<rparr>
   | _ \<Rightarrow> Inl AttributeError)"

section \<open>Settings\<close>

definition str_or_fail :: "json \<Rightarrow> string res" where
  \<comment> \<open>\<open>(x or "")\<close> before a string method\<close>
  "str_or_fail j = (case j of JStr s \<Rightarrow> Inr s | _ \<Rightarrow> if truthy j then Inl AttributeError else Inr [])"

definition snapshot :: "pow_store \<Rightarrow> pow_settings res" where
  "snapshot st =
     (let get = dict_get_or (ps_doc st) in
      rbind (str_or_fail (get ''exit_country'' (JStr []))) (\<lambda>country.
      rbind (str_or_fail (get ''outer_transport'' (JStr OUTER_AUTO))) (\<lambda>transport.
      rbind (str_or_fail (get ''obfuscation_profile'' (JStr ''balanced''))) (\<lambda>obfuscation.
      rbind (str_or_fail (get ''firewall_profile'' (JStr FIREWALL_AUTO))) (\<lambda>firewall.
      rbind (str_or_fail (get ''link_recipe'' (JStr RECIPE_AUTO))) (\<lambda>recipe.
      rbind (str_or_fail (get ''key_fetch'' (JStr DEFAULT_KEY_FETCH))) (\<lambda>fetch.
      rbind (str_or_fail (get ''scan_mode'' (JStr SCAN_BALANCED))) (\<lambda>scan.
      rbind (str_or_fail (get ''h2_fragment_mode'' (JStr ''auto''))) (\<lambda>frag.
      Inr (validated \<lparr>exit_country_code = country, outer_transport = transport, obfuscation_profile = obfuscation,
        h2_fragmentation = truthy (get ''h2_fragmentation'' (JBool False)), scan_mode = scan,
        optimized_mode = truthy (get ''optimized_mode'' (JBool True)), firewall_profile = firewall,
        link_recipe = recipe, chain_psiphon = truthy (get ''chain_psiphon'' (JBool True)), key_fetch = fetch,
        parallel_masque = truthy (get ''speed_parallel_masque'' (JBool False)),
        irancell_h3 = truthy (get ''speed_irancell_h3'' (JBool False)),
        direct_psiphon_first = truthy (get ''speed_direct_psiphon_first'' (JBool False)),
        lowest_rtt_ip = truthy (get ''speed_lowest_rtt_ip'' (JBool False)),
        quic_tuned = truthy (get ''quic_tuned'' (JBool False)),
        h2_large_windows = truthy (get ''h2_large_windows'' (JBool True)),
        h2_socket_tuning = truthy (get ''h2_socket_tuning'' (JBool True)),
        h2_speed_pick = truthy (get ''h2_speed_pick'' (JBool True)), h2_fragment_mode = frag\<rparr>))))))))))"

definition settings_items :: "pow_settings \<Rightarrow> (string \<times> json) list" where
  \<comment> \<open>\<open>_KEY_MAP\<close> applied to a settings object\<close>
  "settings_items s = [
     (''exit_country'', JStr (exit_country_code s)), (''outer_transport'', JStr (outer_transport s)),
     (''obfuscation_profile'', JStr (obfuscation_profile s)), (''h2_fragmentation'', JBool (h2_fragmentation s)),
     (''scan_mode'', JStr (scan_mode s)), (''optimized_mode'', JBool (optimized_mode s)),
     (''firewall_profile'', JStr (firewall_profile s)), (''link_recipe'', JStr (link_recipe s)),
     (''chain_psiphon'', JBool (chain_psiphon s)), (''key_fetch'', JStr (key_fetch s)),
     (''speed_parallel_masque'', JBool (parallel_masque s)), (''speed_irancell_h3'', JBool (irancell_h3 s)),
     (''speed_direct_psiphon_first'', JBool (direct_psiphon_first s)), (''speed_lowest_rtt_ip'', JBool (lowest_rtt_ip s)),
     (''quic_tuned'', JBool (quic_tuned s)), (''h2_large_windows'', JBool (h2_large_windows s)),
     (''h2_socket_tuning'', JBool (h2_socket_tuning s)), (''h2_speed_pick'', JBool (h2_speed_pick s)),
     (''h2_fragment_mode'', JStr (h2_fragment_mode s))]"

definition put_all :: "(string \<times> json) list \<Rightarrow> pow_store \<Rightarrow> pow_store" where
  "put_all kvs st = st\<lparr>ps_doc := dict_set_all kvs (ps_doc st)\<rparr>"

definition save_settings :: "bool \<Rightarrow> pow_settings \<Rightarrow> pow_store \<Rightarrow> pow_settings res \<times> pow_store" where
  "save_settings ok s st =
     (let v = validated s;
          w = write_doc ok (put_all (settings_items v @ [(''settings_version'', JInt SETTINGS_VERSION)]) st)
      in (rbind (fst w) (\<lambda>_. Inr v), snd w))"

section \<open>Exit choice, ports and the last connection\<close>

definition exit_proxy_mode :: "pow_store \<Rightarrow> bool" where
  "exit_proxy_mode st = truthy (dict_get_or (ps_doc st) ''exit_proxy_mode'' (JBool False))"

definition save_exit_proxy_mode :: "bool \<Rightarrow> bool \<Rightarrow> pow_store \<Rightarrow> unit res \<times> pow_store" where
  "save_exit_proxy_mode ok proxy st = write_doc ok (put_doc ''exit_proxy_mode'' (JBool proxy) st)"

definition proxy_http_port :: "pow_store \<Rightarrow> int res" where
  "proxy_http_port st = pow_port_from_value (dict_get_or (ps_doc st) POW_HTTP_KEY (JInt POW_HTTP_DEFAULT))"

definition psiphon_socks_port :: "pow_store \<Rightarrow> int res" where
  "psiphon_socks_port st = pow_socks_from_value (dict_get_or (ps_doc st) POW_SOCKS_KEY (JInt POW_SOCKS_DEFAULT))"

definition save_port :: "bool \<Rightarrow> string \<Rightarrow> int res \<Rightarrow> pow_store \<Rightarrow> int res \<times> pow_store" where
  "save_port ok key value st = (case value of
     Inl e \<Rightarrow> (Inl e, st)
   | Inr p \<Rightarrow> let w = write_doc ok (put_doc key (JInt p) st) in (rbind (fst w) (\<lambda>_. Inr p), snd w))"

definition save_psiphon_socks_port :: "bool \<Rightarrow> json \<Rightarrow> pow_store \<Rightarrow> int res \<times> pow_store" where
  "save_psiphon_socks_port ok port st = save_port ok POW_SOCKS_KEY (pow_socks_from_value port) st"

definition save_proxy_http_port :: "bool \<Rightarrow> json \<Rightarrow> pow_store \<Rightarrow> int res \<times> pow_store" where
  "save_proxy_http_port ok port st = save_port ok POW_HTTP_KEY (pow_port_from_value port) st"

definition save_last_connect :: "bool \<Rightarrow> last_connect \<Rightarrow> pow_store \<Rightarrow> unit res \<times> pow_store" where
  "save_last_connect ok l st = write_doc ok (put_all [(''last_connect_protocol'', JStr (lc_protocol l)),
     (''last_connect_transport'', JStr (lc_transport l)), (''last_connect_ip'', JStr (lc_ip l)),
     (''last_connect_peer'', JStr (lc_peer l)), (''last_connect_psiphon'', JBool (lc_through_psiphon l))] st)"

definition read_last_connect :: "pow_store \<Rightarrow> last_connect" where
  "read_last_connect st = (let get = (\<lambda>k. py_str (dict_get_or (ps_doc st) k (JStr []))) in
     \<lparr>lc_protocol = get ''last_connect_protocol'', lc_transport = get ''last_connect_transport'',
      lc_ip = get ''last_connect_ip'', lc_peer = get ''last_connect_peer'',
      lc_through_psiphon = truthy (dict_get_or (ps_doc st) ''last_connect_psiphon'' (JBool True))\<rparr>)"

section \<open>Strategy memory\<close>

definition remembered_strategy_index :: "bool \<Rightarrow> int \<Rightarrow> string option \<Rightarrow> pow_store \<Rightarrow> int res \<times> pow_store" where
  "remembered_strategy_index ok ladder_size shape0 st =
     (let shape = (case shape0 of Some s \<Rightarrow> if s = [] then strategy_signature None else s | None \<Rightarrow> strategy_signature None) in
      if field (ps_doc st) ''strategy_shape'' \<noteq> JStr shape
      then (let w = write_doc ok (put_all [(''strategy_shape'', JStr shape), (''strategy_index'', JInt 0)] st)
            in (rbind (fst w) (\<lambda>_. Inr 0), snd w))
      else (rbind (int_value (dict_get_or (ps_doc st) ''strategy_index'' (JInt 0)))
              (\<lambda>n. Inr (case n of None \<Rightarrow> 0 | Some i \<Rightarrow> max 0 (min i (ladder_size - 1)))), st))"

definition save_strategy_winner :: "bool \<Rightarrow> int \<Rightarrow> string option \<Rightarrow> pow_store \<Rightarrow> unit res \<times> pow_store" where
  "save_strategy_winner ok i shape st = write_doc ok (put_all
     [(''strategy_shape'', JStr (case shape of Some s \<Rightarrow> if s = [] then strategy_signature None else s | None \<Rightarrow> strategy_signature None)),
      (''strategy_index'', JInt i)] st)"

section \<open>Networks\<close>

definition networks_of :: "obj \<Rightarrow> obj" where
  "networks_of doc = dict_of (field doc ''networks'')"

definition net_entry :: "obj \<Rightarrow> string \<Rightarrow> obj" where
  \<comment> \<open>\<open>_network(network)\<close> without creating it\<close>
  "net_entry doc network = dict_of (field (networks_of doc) network)"

text \<open>Python's \<open>a < b\<close> on the values of \<open>seen\<close>: numbers and strings; lists are not compared.\<close>

definition number_of :: "json \<Rightarrow> pyfloat option" where
  "number_of j = (case j of JBool b \<Rightarrow> Some (Fin (if b then 1 else 0)) | JInt i \<Rightarrow> Some (Fin (of_int i))
     | JFloat r _ \<Rightarrow> Some (Fin r) | JInf neg \<Rightarrow> Some (if neg then NInf else PInf) | JNan \<Rightarrow> Some NaN | _ \<Rightarrow> None)"

definition json_lt :: "json \<Rightarrow> json \<Rightarrow> bool res" where
  "json_lt a b = (case (number_of a, number_of b, a, b) of
     (Some x, Some y, _, _) \<Rightarrow> Inr (flt_lt x y)
   | (_, _, JStr s, JStr t) \<Rightarrow> Inr (s < t)
   | _ \<Rightarrow> Inl TypeError)"

definition seen_of :: "json \<Rightarrow> json" where
  "seen_of entry = (if is_dict entry then dict_get_or (dict_of entry) ''seen'' (JInt 0) else JInt 0)"

fun oldest_from :: "string \<times> json \<Rightarrow> obj \<Rightarrow> string res" where
  "oldest_from best [] = Inr (fst best)"
| "oldest_from best (kv # kvs) =
     rbind (json_lt (seen_of (snd kv)) (seen_of (snd best))) (\<lambda>lt. oldest_from (if lt then kv else best) kvs)"

definition make_room :: "obj \<Rightarrow> obj res" where
  "make_room nets =
     (if length nets \<ge> MAX_NETWORKS then rbind (oldest_from (hd nets) (tl nets)) (\<lambda>k. Inr (dict_pop k nets)) else Inr nets)"

definition edit_network :: "string \<Rightarrow> int \<Rightarrow> (obj \<Rightarrow> obj) \<Rightarrow> obj \<Rightarrow> obj res" where
  \<comment> \<open>\<open>_network(network, create=True)\<close> at a time, then changes of the entry\<close>
  "edit_network network now f doc =
     (let nets = networks_of doc in
      rbind (if is_dict (field nets network) then Inr nets else make_room nets) (\<lambda>nets'.
      Inr (dict_set ''networks'' (JObj (dict_set network
        (JObj (f (dict_set ''seen'' (JInt now) (net_entry doc network)))) nets')) doc)))"

definition with_doc :: "bool \<Rightarrow> obj res \<Rightarrow> pow_store \<Rightarrow> unit res \<times> pow_store" where
  "with_doc ok doc st = (case doc of Inl e \<Rightarrow> (Inl e, st) | Inr d \<Rightarrow> write_doc ok (st\<lparr>ps_doc := d\<rparr>))"

definition network_strategy_index :: "string \<Rightarrow> string \<Rightarrow> int \<Rightarrow> pow_store \<Rightarrow> int option res" where
  "network_strategy_index network shape ladder_size st =
     (let e = net_entry (ps_doc st) network in
      if field e ''strategy_shape'' \<noteq> JStr shape then Inr None
      else rbind (int_value (field e ''strategy_index'')) (\<lambda>n. Inr (case n of
        None \<Rightarrow> None | Some i \<Rightarrow> if 0 \<le> i \<and> i < ladder_size then Some i else None)))"

definition save_network_strategy :: "bool \<Rightarrow> int \<Rightarrow> string \<Rightarrow> string \<Rightarrow> int \<Rightarrow> pow_store \<Rightarrow> unit res \<times> pow_store" where
  "save_network_strategy ok now network shape i st =
     with_doc ok (rbind (edit_network network now
         (dict_set_all [(''strategy_shape'', JStr shape), (''strategy_index'', JInt i)]) (ps_doc st))
       (\<lambda>d. Inr (dict_set_all [(''strategy_shape'', JStr shape), (''strategy_index'', JInt i)] d))) st"

fun read_rtts :: "obj \<Rightarrow> string list \<Rightarrow> (string, int) dict \<Rightarrow> (string, int) dict res" where
  "read_rtts saved [] out = Inr out"
| "read_rtts saved (k # ks) out =
     rbind (int_value (dict_get_or saved k (JInt 0))) (\<lambda>n.
     read_rtts saved ks (case n of Some v \<Rightarrow> if v > 0 then dict_set k v out else out | None \<Rightarrow> out))"

definition strategy_rtts :: "string \<Rightarrow> string list \<Rightarrow> pow_store \<Rightarrow> (string, int) dict res" where
  "strategy_rtts network keys st =
     (let saved = dict_get_or (net_entry (ps_doc st) network) ''rtt'' (JObj []) in
      if is_dict saved then read_rtts (dict_of saved) keys [] else Inr [])"

definition save_strategy_rtt :: "bool \<Rightarrow> int \<Rightarrow> string \<Rightarrow> string \<Rightarrow> int \<Rightarrow> pow_store \<Rightarrow> unit res \<times> pow_store" where
  "save_strategy_rtt ok now network key rtt_ms st =
     (if rtt_ms \<le> 0 then (Inr (), st)
      else with_doc ok (edit_network network now
        (\<lambda>e. dict_set ''rtt'' (JObj (dict_set key (JInt rtt_ms) (dict_of (field e ''rtt'')))) e) (ps_doc st)) st)"

fun read_pool :: "obj \<Rightarrow> (string, int) dict \<Rightarrow> (string, int) dict res" where
  "read_pool [] out = Inr out"
| "read_pool ((peer, rtt) # kvs) out =
     rbind (int_value rtt) (\<lambda>n. read_pool kvs (dict_set peer (case n of Some v \<Rightarrow> max 0 v | None \<Rightarrow> 0) out))"

definition clean_pool :: "string \<Rightarrow> pow_store \<Rightarrow> (string, int) dict res" where
  "clean_pool network st = read_pool (dict_of (field (net_entry (ps_doc st) network) ''clean_h2'')) []"

definition rank_pool :: "nat \<Rightarrow> (string, int) dict \<Rightarrow> (string, int) dict" where
  "rank_pool limit pool = take limit (sort_key (\<lambda>kv. (snd kv \<le> 0, snd kv)) pool)"

definition save_clean_pool :: "bool \<Rightarrow> int \<Rightarrow> string \<Rightarrow> (string, int) dict \<Rightarrow> nat \<Rightarrow> pow_store \<Rightarrow> unit res \<times> pow_store" where
  "save_clean_pool ok now network pool limit st =
     with_doc ok (edit_network network now
       (dict_set ''clean_h2'' (JObj (map (\<lambda>kv. (fst kv, JInt (snd kv))) (rank_pool limit pool)))) (ps_doc st)) st"

definition remembered_region :: "string \<Rightarrow> pow_store \<Rightarrow> string option" where
  "remembered_region network st =
     (let v = upper (strip (py_str (dict_get_or (net_entry (ps_doc st) network) ''region'' (JStr []))))
      in if v = [] then None else Some v)"

definition save_region :: "bool \<Rightarrow> int \<Rightarrow> string \<Rightarrow> string \<Rightarrow> pow_store \<Rightarrow> unit res \<times> pow_store" where
  "save_region ok now network code st =
     (let clean = upper (strip code) in
      if length clean \<noteq> 2 then (Inr (), st)
      else with_doc ok (edit_network network now (dict_set ''region'' (JStr clean)) (ps_doc st)) st)"

definition learned_networks :: "pow_store \<Rightarrow> obj list res" where
  "learned_networks st =
     (let rows = map (\<lambda>kv. dict_set ''key'' (JStr (fst kv)) (dict_of (snd kv)))
                   (filter (\<lambda>kv. is_dict (snd kv)) (networks_of (ps_doc st)))
      in rbind (rmap (\<lambda>row. py_int_of (or_else (dict_get_or row ''seen'' (JInt 0)) (JInt 0))) rows) (\<lambda>keys.
         Inr (map snd (sort_key (\<lambda>kr. - fst kr) (zip keys rows)))))"

definition last_learned_region :: "pow_store \<Rightarrow> string option res" where
  "last_learned_region st = rbind (learned_networks st) (\<lambda>rows.
     Inr (find (\<lambda>r. r \<noteq> []) (map (\<lambda>row. upper (strip (py_str (or_else (dict_get_or row ''region'' (JStr [])) (JStr []))))) rows)))"

definition forget_learned :: "bool \<Rightarrow> pow_store \<Rightarrow> unit res \<times> pow_store" where
  "forget_learned ok st = write_doc ok (st\<lparr>ps_doc :=
     dict_pop ''strategy_shape'' (dict_pop ''strategy_index'' (dict_pop ''networks'' (ps_doc st)))\<rparr>)"

section \<open>Outer protocol and regions\<close>

definition remembered_outer_protocol :: "pow_store \<Rightarrow> string option" where
  "remembered_outer_protocol st = (let v = lowered (dict_get_or (ps_doc st) ''outer_protocol'' (JStr []))
     in if v \<in> set OUTER_LADDER then Some v else None)"

definition save_outer_protocol :: "bool \<Rightarrow> string \<Rightarrow> pow_store \<Rightarrow> unit res \<times> pow_store" where
  "save_outer_protocol ok protocol st = (let clean = lower (strip protocol) in
     if clean \<notin> set OUTER_LADDER then (Inr (), st) else write_doc ok (put_doc ''outer_protocol'' (JStr clean) st))"

definition sorted_codes :: "string list \<Rightarrow> string list" where
  "sorted_codes parts = sort (uniq (map (\<lambda>p. upper (strip p)) (filter is_code parts)))"

definition available_regions :: "pow_store \<Rightarrow> string list" where
  "available_regions st = sorted_codes (split_on (CHR '','') (py_str (dict_get_or (ps_doc st) ''available_regions'' (JStr []))))"

definition remember_available_regions :: "bool \<Rightarrow> string list \<Rightarrow> pow_store \<Rightarrow> unit res \<times> pow_store" where
  "remember_available_regions ok codes st = (let clean = sorted_codes codes in
     if clean = [] then (Inr (), st)
     else write_doc ok (put_doc ''available_regions'' (JStr (join '','' clean)) st))"


section \<open>Settings survive a restart\<close>

definition setting_keys :: "string list" where
  "setting_keys = map fst (settings_items DEFAULT_SETTINGS)"

definition same_settings :: "obj \<Rightarrow> obj \<Rightarrow> bool" where
  "same_settings d d' \<longleftrightarrow> (\<forall>k \<in> set setting_keys. dict_get d' k = dict_get d k)"

lemma same_settings_snapshot: "same_settings (ps_doc st) (ps_doc st') \<Longrightarrow> snapshot st' = snapshot st"
  by (simp add: same_settings_def setting_keys_def settings_items_def snapshot_def dict_get_or_def Let_def)

lemma settings_get:
  "dict_get (dict_set_all (settings_items s @ [(''settings_version'', JInt SETTINGS_VERSION)]) d) k
     = (if k = ''settings_version'' then Some (JInt SETTINGS_VERSION)
        else case map_of (settings_items s) k of Some v \<Rightarrow> Some v | None \<Rightarrow> dict_get d k)"
  by (simp add: dict_get_set_all settings_items_def)

lemma snapshot_of_items:
  assumes "\<And>k v. map_of (settings_items s) k = Some v \<Longrightarrow> dict_get (ps_doc st) k = Some v"
  shows "snapshot st = Inr (validated s)"
proof -
  have get: "dict_get (ps_doc st) k = map_of (settings_items s) k" if "map_of (settings_items s) k \<noteq> None" for k
    using that assms by auto
  have "s = \<lparr>exit_country_code = exit_country_code s, outer_transport = outer_transport s,
      obfuscation_profile = obfuscation_profile s, h2_fragmentation = h2_fragmentation s, scan_mode = scan_mode s,
      optimized_mode = optimized_mode s, firewall_profile = firewall_profile s, link_recipe = link_recipe s,
      chain_psiphon = chain_psiphon s, key_fetch = key_fetch s, parallel_masque = parallel_masque s,
      irancell_h3 = irancell_h3 s, direct_psiphon_first = direct_psiphon_first s, lowest_rtt_ip = lowest_rtt_ip s,
      quic_tuned = quic_tuned s, h2_large_windows = h2_large_windows s, h2_socket_tuning = h2_socket_tuning s,
      h2_speed_pick = h2_speed_pick s, h2_fragment_mode = h2_fragment_mode s\<rparr>"
    by simp
  note rec = this [symmetric]
  show ?thesis
    by (simp add: rec snapshot_def Let_def dict_get_or_def get settings_items_def str_or_fail_def)
qed

lemma lowered_JStr: "lowered (JStr s) = lower (strip s)"
  by (simp add: lowered_def)

lemma migrate_current:
  assumes "dict_get d ''settings_version'' = Some (JInt 2)" "dict_get d ''key_fetch'' = Some (JStr key)" "key \<in> set KEY_FETCHES"
  shows "migrate ok \<lparr>ps_doc = d, ps_disk = disk\<rparr> = Inr \<lparr>ps_doc = d, ps_disk = disk\<rparr>"
proof -
  have "list_all (\<lambda>k. lower (strip k) \<notin> set KEY_FETCHES_RETIRED) KEY_FETCHES" by code_simp
  then have "lower (strip key) \<notin> set KEY_FETCHES_RETIRED" using assms(3) by (auto simp: list_all_iff)
  then show ?thesis
    using assms(1,2) by (simp add: migrate_def drop_retired_def dict_get_or_def lowered_JStr doc_version_def or_else_def SETTINGS_VERSION_def)
qed

text \<open>
  C30: Settings survive a restart: what a successful save returns is what the store then shows, and
  what a store opened on the written file shows, migration included; these are the validated
  settings.
\<close>

theorem saved_settings_survive_restart:
  assumes "save_settings True s st = (r, st')"
  shows "r = Inr (validated s) \<and> snapshot st' = Inr (validated s)
     \<and> (\<exists>st''. open_store ok (ps_disk st') = Inr st'' \<and> snapshot st'' = Inr (validated s))"
proof -
  let ?d = "dict_set_all (settings_items (validated s) @ [(''settings_version'', JInt SETTINGS_VERSION)]) (ps_doc st)"
  from assms have r: "r = Inr (validated s)" and d: "ps_doc st' = ?d" "ps_disk st' = Inr (JObj ?d)"
    by (auto simp: save_settings_def write_doc_def put_all_def Let_def)
  have snap: "snapshot x = Inr (validated s)" if "ps_doc x = ?d" for x
  proof -
    have "snapshot x = Inr (validated (validated s))"
      by (rule snapshot_of_items) (auto simp: that settings_get settings_items_def split: if_splits)
    then show ?thesis by (simp add: validated_idem)
  qed
  have key: "dict_get ?d ''key_fetch'' = Some (JStr (key_fetch (validated s)))"
    and ver: "dict_get ?d ''settings_version'' = Some (JInt 2)"
    by (simp_all add: settings_get settings_items_def SETTINGS_VERSION_def)
  have mem: "key_fetch (validated s) \<in> set KEY_FETCHES" using validated_legal [of s] by (simp add: settings_legal_def)
  have "open_store ok (ps_disk st') = Inr \<lparr>ps_doc = ?d, ps_disk = ps_disk st'\<rparr>"
    unfolding open_store_def d(2) read_doc_def by (simp add: migrate_current [OF ver key mem])
  with r snap [OF d(1)] snap [of "\<lparr>ps_doc = ?d, ps_disk = ps_disk st'\<rparr>"] show ?thesis by auto
qed

theorem saved_settings_survive_restart_witness:
  "\<exists>st' st''. save_settings True (DEFAULT_SETTINGS\<lparr>scan_mode := ''FAST ''\<rparr>) \<lparr>ps_doc = [], ps_disk = Inl OSError\<rparr>
       = (Inr (validated (DEFAULT_SETTINGS\<lparr>scan_mode := ''FAST ''\<rparr>)), st')
     \<and> open_store False (ps_disk st') = Inr st'' \<and> snapshot st'' = Inr (validated (DEFAULT_SETTINGS\<lparr>scan_mode := ''FAST ''\<rparr>))"
proof -
  let ?s = "DEFAULT_SETTINGS\<lparr>scan_mode := ''FAST ''\<rparr>"
  obtain r st' where w: "save_settings True ?s \<lparr>ps_doc = [], ps_disk = Inl OSError\<rparr> = (r, st')" by fastforce
  from saved_settings_survive_restart [OF w, of False] w show ?thesis by auto
qed


section \<open>Learning never touches the settings and stays bounded\<close>

datatype memory_op =
    SaveNetworkStrategy int string string int
  | SaveStrategyRtt int string string int
  | SaveCleanPool int string "(string, int) dict" nat
  | SaveRegion int string string
  | SaveStrategyWinner int "string option"
  | RememberedIndex int "string option"
  | SaveLastConnect last_connect
  | SaveExitMode bool
  | SavePorts json json
  | SaveOuterProtocol string
  | RememberRegions "string list"
  | ForgetLearned

fun memory_step :: "bool \<Rightarrow> memory_op \<Rightarrow> pow_store \<Rightarrow> pow_store" where
  \<comment> \<open>the flag says whether the write succeeds\<close>
  "memory_step ok (SaveNetworkStrategy now n shape i) st = snd (save_network_strategy ok now n shape i st)"
| "memory_step ok (SaveStrategyRtt now n k rtt) st = snd (save_strategy_rtt ok now n k rtt st)"
| "memory_step ok (SaveCleanPool now n pool limit) st = snd (save_clean_pool ok now n pool limit st)"
| "memory_step ok (SaveRegion now n code) st = snd (save_region ok now n code st)"
| "memory_step ok (SaveStrategyWinner i shape) st = snd (save_strategy_winner ok i shape st)"
| "memory_step ok (RememberedIndex k shape) st = snd (remembered_strategy_index ok k shape st)"
| "memory_step ok (SaveLastConnect l) st = snd (save_last_connect ok l st)"
| "memory_step ok (SaveExitMode b) st = snd (save_exit_proxy_mode ok b st)"
| "memory_step ok (SavePorts h s) st = snd (save_psiphon_socks_port ok s (snd (save_proxy_http_port ok h st)))"
| "memory_step ok (SaveOuterProtocol p) st = snd (save_outer_protocol ok p st)"
| "memory_step ok (RememberRegions cs) st = snd (remember_available_regions ok cs st)"
| "memory_step ok ForgetLearned st = snd (forget_learned ok st)"

definition networks_ok :: "obj \<Rightarrow> bool" where
  "networks_ok doc \<longleftrightarrow> dict_ok (networks_of doc) \<and> length (networks_of doc) \<le> MAX_NETWORKS"

definition kept :: "obj \<Rightarrow> obj \<Rightarrow> bool" where
  \<comment> \<open>what a memory operation keeps\<close>
  "kept d d' \<longleftrightarrow> same_settings d d' \<and> (networks_ok d \<longrightarrow> networks_ok d')"

lemma kept_refl: "kept d d"
  by (simp add: kept_def same_settings_def)

lemma kept_trans: "kept d d' \<Longrightarrow> kept d' d'' \<Longrightarrow> kept d d''"
  by (simp add: kept_def same_settings_def)

lemma ps_doc_write [simp]: "ps_doc (snd (write_doc ok st)) = ps_doc st"
  by (simp add: write_doc_def)

lemma kept_set: "k \<notin> set setting_keys \<Longrightarrow> k \<noteq> ''networks'' \<Longrightarrow> kept d (dict_set k v d)"
  by (auto simp: kept_def same_settings_def networks_ok_def networks_of_def)

lemma kept_set_all:
  "\<forall>k \<in> fst ` set kvs. k \<notin> set setting_keys \<and> k \<noteq> ''networks'' \<Longrightarrow> kept d (dict_set_all kvs d)"
proof (induction kvs arbitrary: d)
  case (Cons kv kvs)
  obtain k v where kv: "kv = (k, v)" by (cases kv)
  have "kept d (dict_set k v d)" by (rule kept_set) (use Cons.prems kv in auto)
  moreover have "kept (dict_set k v d) (dict_set_all kvs (dict_set k v d))" using Cons by auto
  ultimately show ?case using kept_trans by (simp add: kv)
qed (simp add: kept_refl)

lemma length_make_room: "dict_ok nets \<Longrightarrow> length nets \<le> MAX_NETWORKS \<Longrightarrow> make_room nets = Inr nets' \<Longrightarrow>
    dict_ok nets' \<and> length nets' < MAX_NETWORKS"
proof -
  assume ok: "dict_ok nets" "length nets \<le> MAX_NETWORKS" and m: "make_room nets = Inr nets'"
  have mem: "oldest_from best kvs = Inr k \<Longrightarrow> k \<in> fst ` set (best # kvs)" for best kvs k
    by (induction best kvs rule: oldest_from.induct) (force simp: rbind_eq_Inr_iff split: if_splits)+
  show ?thesis
  proof (cases "length nets \<ge> MAX_NETWORKS")
    case True
    then have "nets \<noteq> []" by (auto simp: MAX_NETWORKS_def)
    with True m obtain k where k: "oldest_from (hd nets) (tl nets) = Inr k" "nets' = dict_pop k nets"
      by (auto simp: make_room_def rbind_eq_Inr_iff)
    with mem [OF k(1)] \<open>nets \<noteq> []\<close> have "k \<in> fst ` set nets" by (metis list.collapse)
    with length_dict_pop [OF ok(1), of k] ok k(2) show ?thesis by auto
  next
    case False
    with m ok show ?thesis by (simp add: make_room_def)
  qed
qed

lemma kept_edit: "edit_network n now f d = Inr d' \<Longrightarrow> kept d d'"
proof -
  assume "edit_network n now f d = Inr d'"
  then obtain nets' where nets': "(if is_dict (field (networks_of d) n) then Inr (networks_of d) else make_room (networks_of d)) = Inr nets'"
    and d': "d' = dict_set ''networks'' (JObj (dict_set n (JObj (f (dict_set ''seen'' (JInt now) (net_entry d n)))) nets')) d"
    by (auto simp: edit_network_def Let_def rbind_eq_Inr_iff)
  have new: "networks_of d' = dict_set n (JObj (f (dict_set ''seen'' (JInt now) (net_entry d n)))) nets'"
    by (simp add: d' networks_of_def dict_of_def)
  have "networks_ok d'" if ok: "networks_ok d"
  proof (cases "is_dict (field (networks_of d) n)")
    case True
    then have "n \<in> fst ` set nets'" using nets'
      by (auto simp: field_def dict_get_or_def is_dict_def split: option.splits dest: dict_get_Some_key)
    with True nets' ok show ?thesis by (auto simp: networks_ok_def new length_dict_set)
  next
    case False
    with nets' ok length_make_room [of "networks_of d" nets'] have "dict_ok nets'" "length nets' < MAX_NETWORKS"
      by (auto simp: networks_ok_def)
    with length_dict_set_le [of n "JObj (f (dict_set ''seen'' (JInt now) (net_entry d n)))" nets'] show ?thesis
      by (simp add: networks_ok_def new)
  qed
  then show ?thesis by (auto simp: kept_def same_settings_def d' setting_keys_def settings_items_def)
qed

lemma kept_with_doc: "(\<And>d'. r = Inr d' \<Longrightarrow> kept (ps_doc st) d') \<Longrightarrow> kept (ps_doc st) (ps_doc (snd (with_doc ok r st)))"
  by (cases r) (simp_all add: with_doc_def kept_refl)

lemma kept_put_all:
  "list_all (\<lambda>k. k \<notin> set setting_keys \<and> k \<noteq> ''networks'') (map fst kvs) \<Longrightarrow>
   kept (ps_doc st) (ps_doc (put_all kvs st))"
  by (simp add: put_all_def list_all_iff kept_set_all)

lemma kept_put_doc:
  "k \<notin> set setting_keys \<Longrightarrow> k \<noteq> ''networks'' \<Longrightarrow> kept (ps_doc st) (ps_doc (put_doc k v st))"
  by (simp add: put_doc_def kept_set)

lemma kept_pop: "k \<notin> set setting_keys \<Longrightarrow> kept d (dict_pop k d)"
  by (auto simp: kept_def same_settings_def networks_ok_def networks_of_def field_def dict_get_or_def dict_of_def)

lemma memory_keys:
  "list_all (\<lambda>k. k \<notin> set setting_keys) [''networks'', ''strategy_shape'', ''strategy_index'', ''last_connect_protocol'',
     ''last_connect_transport'', ''last_connect_ip'', ''last_connect_peer'', ''last_connect_psiphon'', ''exit_proxy_mode'',
     ''outer_protocol'', ''available_regions'', POW_HTTP_KEY, POW_SOCKS_KEY]"
  by (simp add: setting_keys_def settings_items_def POW_HTTP_KEY_def POW_SOCKS_KEY_def)

lemma kept_save_port: "k \<notin> set setting_keys \<Longrightarrow> k \<noteq> ''networks'' \<Longrightarrow> kept (ps_doc st) (ps_doc (snd (save_port ok k r st)))"
  by (cases r) (simp_all add: save_port_def kept_refl Let_def put_doc_def kept_set)

lemma kept_step: "kept (ps_doc st) (ps_doc (memory_step ok opn st))"
proof (cases opn)
  case (SaveNetworkStrategy now n shape i)
  have "kept (ps_doc st) d'" if "rbind (edit_network n now g (ps_doc st))
      (\<lambda>d. Inr (dict_set_all [(''strategy_shape'', JStr shape), (''strategy_index'', JInt i)] d)) = Inr d'" for g d'
  proof -
    from that obtain d where "edit_network n now g (ps_doc st) = Inr d"
      "d' = dict_set_all [(''strategy_shape'', JStr shape), (''strategy_index'', JInt i)] d" by (auto simp: rbind_eq_Inr_iff)
    moreover have "kept d (dict_set_all [(''strategy_shape'', JStr shape), (''strategy_index'', JInt i)] d)"
      using memory_keys by (intro kept_set_all) auto
    ultimately show ?thesis using kept_edit kept_trans by blast
  qed
  then show ?thesis by (auto simp: SaveNetworkStrategy save_network_strategy_def intro: kept_with_doc)
next
  case (SavePorts h s)
  have "kept (ps_doc st) (ps_doc (snd (save_proxy_http_port ok h st)))"
    unfolding save_proxy_http_port_def by (rule kept_save_port) (use memory_keys in \<open>auto simp: POW_HTTP_KEY_def\<close>)
  moreover have "kept (ps_doc x) (ps_doc (snd (save_psiphon_socks_port ok s x)))" for x
    unfolding save_psiphon_socks_port_def by (rule kept_save_port) (use memory_keys in \<open>auto simp: POW_SOCKS_KEY_def\<close>)
  ultimately show ?thesis unfolding SavePorts memory_step.simps by (rule kept_trans)
next
  case ForgetLearned
  have "kept (ps_doc st) (dict_pop ''strategy_shape'' (dict_pop ''strategy_index'' (dict_pop ''networks'' (ps_doc st))))"
    by (rule kept_trans [OF kept_trans [OF kept_pop [of "''networks''"] kept_pop [of "''strategy_index''"]]
          kept_pop [of "''strategy_shape''"]]) (use memory_keys in simp_all)
  then show ?thesis by (simp add: ForgetLearned forget_learned_def)
qed (use memory_keys in \<open>auto simp: save_strategy_rtt_def save_clean_pool_def save_region_def save_strategy_winner_def
    remembered_strategy_index_def save_last_connect_def save_exit_proxy_mode_def save_outer_protocol_def
    remember_available_regions_def Let_def kept_refl
    intro!: kept_with_doc kept_put_all kept_put_doc intro: kept_edit\<close>)

text \<open>
  C31: What the engine learns never changes the settings and stays bounded: under any sequence of
  saved strategies, timings, clean addresses, regions, ports, connections and resets, with writes
  that succeed or fail, the settings shown are the same, and when at most 32 networks, each once, were
  remembered at the start, the same holds at the end.
\<close>

theorem learning_keeps_settings_and_bound:
  fixes ops :: "(bool \<times> memory_op) list"
  defines "run \<equiv> fold (\<lambda>(ok, opn). memory_step ok opn) ops"
  shows "snapshot (run st) = snapshot st \<and> (networks_ok (ps_doc st) \<longrightarrow> networks_ok (ps_doc (run st)))"
proof -
  have *: "kept (ps_doc st) (ps_doc (run st))"
    unfolding run_def
  proof (induction ops arbitrary: st)
    case (Cons x ops)
    obtain ok opn where "x = (ok, opn)" by (cases x)
    with kept_step [of st ok opn] Cons [of "memory_step ok opn st"] kept_trans show ?case by auto
  qed (simp add: kept_refl)
  then show ?thesis by (simp add: kept_def same_settings_snapshot)
qed

theorem learning_keeps_settings_and_bound_witness:
  "\<exists>st. networks_ok (ps_doc (fold (\<lambda>(ok, opn). memory_step ok opn)
      [(True, SaveRegion 5 ''home'' ''de''), (False, SaveOuterProtocol ''masque''), (True, SaveStrategyRtt 6 ''cafe'' ''cA'' 120)] st))
    \<and> ps_doc st = []"
proof -
  have "networks_ok (ps_doc \<lparr>ps_doc = [], ps_disk = Inl OSError\<rparr>)"
    by (simp add: networks_ok_def networks_of_def field_def dict_get_or_def dict_of_def MAX_NETWORKS_def)
  with learning_keeps_settings_and_bound show ?thesis by (metis pow_store.select_convs(1))
qed

end
