(* ===== verification/Pow_Status.thy ===== *)
theory Pow_Status
  imports Py_Json
begin

text \<open>
  The list of connect steps shown to the user, \<open>pow/status.py\<close>: how native log lines become step
  lines, and the store \<open>PowStatusStore\<close> with its operations. Each operation runs under the store's
  lock, so it is one step of the model; it returns the new status and whether the listeners are
  told. The store keeps the last 24 steps: the unbounded history is the abstract specification.
\<close>

section \<open>Log lines\<close>

definition first_word :: "string \<Rightarrow> string" where
  \<comment> \<open>\<open>s.split()[0] if s.split() else s\<close>\<close>
  "first_word s = (if split_ws s = [] then s else hd (split_ws s))"

definition rejected_why :: "string \<Rightarrow> string" where
  "rejected_why text =
     (if contains ''status 400'' text then ''400''
      else if contains ''ACCESS_DENIED'' text then ''access-denied''
      else if contains ''CERTIFICATE'' text then ''certificate''
      else if contains ''timeout'' (lower text) then ''timeout''
      else if contains ''reset'' (lower text) then ''reset''
      else if contains ''unexpected EOF'' text then ''eof''
      else ''other'')"

definition scan_pulse :: "string \<Rightarrow> string option" where
  "scan_pulse message =
     (let text = strip message in
      if startswith text ''Scanning '' then
        (let rest = drop 9 text;
             addr = (if contains '' via '' rest then strip (fst (str_partition '' via '' rest)) else first_word rest)
         in Some (''Scan '' @ addr @ '' trying''))
      else if \<not> startswith text ''Rejected '' then None
      else
        (let body = drop 9 text;
             addr = strip (if contains '': '' body then fst (str_partition '': '' body) else first_word body)
         in Some (''Scan '' @ addr @ '' '' @ rejected_why text)))"

definition stage_line :: "string \<Rightarrow> string option" where
  "stage_line message =
     (let text = strip message; st = startswith text in
      if st ''Key:'' then Some (''Key '' @ strip (drop 4 text))
      else if st ''Cert:'' then Some (''Cert '' @ strip (drop 5 text))
      else if st ''Clean HTTP/2 list:'' then Some text
      else if st ''Clean HTTP/2 list is empty. Starting'' then Some ''Clean list empty. HTTP/2 scan is starting.''
      else if st ''Trying saved clean address'' then Some text
      else if st ''Saved clean address accepted'' then Some text
      else if st ''Saved clean address rejected'' then Some text
      else if st ''Every saved address failed. Scan was not started'' then Some text
      else if st ''Every saved address failed. Starting'' then Some ''Saved addresses failed. HTTP/2 scan is starting.''
      else if st ''Scanning HTTP/2'' then Some text
      else if st ''Saved clean HTTP/2 address'' then Some text
      else if st ''Scanning '' \<or> st ''Rejected '' then scan_pulse text
      else if st ''HTTP/2 selected'' then Some ''HTTP/2 started''
      else if st ''MASQUE accepted'' then Some text
      else if st ''MASQUE start'' then Some text
      else if st ''Tunnel did not stay up'' then Some text
      else if st ''MASQUE: dialing known gateways on UDP/1701'' then Some ''Trying UDP/1701''
      else if st ''MASQUE: no known gateway accepted UDP/1701'' then Some ''UDP/1701 did not answer''
      else if st ''MASQUE: UDP/1701 did not answer'' then Some ''UDP/1701 did not answer, trying TCP''
      else if st ''No usable MASQUE'' then Some text
      else if st ''MASQUE identity refused'' then Some ''Certificate refused. Requesting a new one.''
      else if st ''Certificate '' then Some text
      else if st ''This certificate was refused'' then Some text
      else if st ''New certificate saved'' then Some text
      else if st ''New MASQUE certificate issued'' then Some ''New certificate issued. Retrying the gateways.''
      else if st ''Could not refresh the MASQUE certificate'' then Some text
      else if st ''PSIPHON '' then Some text
      else None)"

section \<open>The store\<close>

datatype pow_phase = Idle | Starting | Outer | Inner | Bridging | Connected | PhaseFailed

datatype step_state = Running | StepDone | StepFailed

record pow_step =
  st_text :: string
  st_state :: step_state

record pow_status =
  us_phase :: pow_phase
  us_progress :: int
  us_detail :: string
  us_outer_label :: string
  us_exit_region :: string
  us_steps :: "pow_step list"

definition new_step :: "string \<Rightarrow> step_state \<Rightarrow> pow_step" where
  "new_step t s = \<lparr>st_text = t, st_state = s\<rparr>"

definition initial_status :: pow_status where
  "initial_status = \<lparr>us_phase = Idle, us_progress = 0, us_detail = [], us_outer_label = [], us_exit_region = [], us_steps = []\<rparr>"

definition step_text :: "string \<Rightarrow> string" where
  \<comment> \<open>\<open>(text or "").strip()[:180]\<close>\<close>
  "step_text t = take 180 (strip t)"

definition set_last :: "'a \<Rightarrow> 'a list \<Rightarrow> 'a list" where
  \<comment> \<open>\<open>xs[-1] = x\<close> for a non-empty list\<close>
  "set_last x xs = butlast xs @ [x]"

definition settle :: "pow_step list \<Rightarrow> pow_step list" where
  \<comment> \<open>a running last step is done\<close>
  "settle ss = (if ss \<noteq> [] \<and> st_state (last ss) = Running then set_last (new_step (st_text (last ss)) StepDone) ss else ss)"

definition running_scan :: "pow_step list \<Rightarrow> bool" where
  "running_scan ss \<longleftrightarrow> ss \<noteq> [] \<and> st_state (last ss) = Running \<and> startswith (st_text (last ss)) ''Scan ''"

definition note_locked :: "string \<Rightarrow> bool \<Rightarrow> pow_status \<Rightarrow> pow_status \<times> bool" where
  "note_locked text failed st =
     (let clean = step_text text; ss = us_steps st in
      if clean = [] then (st, False)
      else if ss \<noteq> [] \<and> st_text (last ss) = clean then (st, False)
      else (st\<lparr>us_steps := last_n 24 (settle ss @ [new_step clean (if failed then StepFailed else Running)])\<rparr>, True))"

definition finish_locked :: "step_state \<Rightarrow> pow_status \<Rightarrow> pow_status \<times> bool" where
  "finish_locked state st =
     (let ss = us_steps st in
      if ss = [] \<or> st_state (last ss) \<noteq> Running then (st, False)
      else (st\<lparr>us_steps := set_last (new_step (st_text (last ss)) state) ss\<rparr>, True))"

definition update_status :: "pow_phase \<Rightarrow> int \<Rightarrow> string \<Rightarrow> string option \<Rightarrow> string option \<Rightarrow> pow_status \<Rightarrow> pow_status \<times> bool" where
  "update_status phase progress detail label region st =
     (let st1 = st\<lparr>us_phase := phase, us_progress := max 0 (min 100 progress), us_detail := detail,
            us_outer_label := (case label of None \<Rightarrow> us_outer_label st | Some l \<Rightarrow> l),
            us_exit_region := (case region of None \<Rightarrow> us_exit_region st | Some r \<Rightarrow> r)\<rparr>;
          st2 = (if strip detail \<noteq> [] then fst (note_locked detail False st1) else st1);
          st3 = (if phase = Connected then fst (finish_locked StepDone st2) else st2);
          st4 = (if phase = PhaseFailed then fst (finish_locked StepFailed st3) else st3)
      in (st4, True))"

definition pulse :: "string \<Rightarrow> pow_status \<Rightarrow> pow_status \<times> bool" where
  "pulse text st =
     (let clean = step_text text; ss = us_steps st in
      if clean = [] then (st, False)
      else if running_scan ss then
        (if st_text (last ss) = clean then (st, False)
         else (st\<lparr>us_steps := set_last (new_step clean (st_state (last ss))) ss\<rparr>, True))
      else note_locked clean False st)"

definition scan_step :: "string \<Rightarrow> string \<Rightarrow> pow_status \<Rightarrow> pow_status \<times> bool" where
  "scan_step text outcome st =
     (let clean = step_text text; ss = us_steps st;
          state = (if outcome = ''trying'' then Running else if outcome = ''accepted'' then StepDone else StepFailed)
      in if clean = [] then (st, False)
         else if running_scan ss then (st\<lparr>us_steps := set_last (new_step clean state) ss\<rparr>, True)
         else (st\<lparr>us_steps := last_n 24 (settle ss @ [new_step clean state])\<rparr>, True))"

definition note_step :: "string \<Rightarrow> bool \<Rightarrow> pow_status \<Rightarrow> pow_status \<times> bool" where
  "note_step text failed st = note_locked text failed st"

definition reset_status :: "pow_status \<Rightarrow> pow_status \<times> bool" where
  "reset_status st = (initial_status, True)"

text \<open>The calls other components make, in any order.\<close>

datatype status_op =
    Update pow_phase int string "string option" "string option"
  | Pulse string
  | ScanOp string string
  | Note string bool
  | Reset

fun status_step :: "status_op \<Rightarrow> pow_status \<Rightarrow> pow_status" where
  "status_step (Update p n d l r) st = fst (update_status p n d l r st)"
| "status_step (Pulse t) st = fst (pulse t st)"
| "status_step (ScanOp t oc) st = fst (scan_step t oc st)"
| "status_step (Note t f) st = fst (note_step t f st)"
| "status_step Reset st = fst (reset_status st)"

section \<open>The specification: the whole history\<close>

definition add_step :: "pow_step \<Rightarrow> pow_step list \<Rightarrow> pow_step list" where
  "add_step s h = settle h @ [s]"

definition hist_note :: "string \<Rightarrow> bool \<Rightarrow> pow_step list \<Rightarrow> pow_step list" where
  "hist_note t failed h =
     (let clean = step_text t in
      if clean = [] \<or> (h \<noteq> [] \<and> st_text (last h) = clean) then h
      else add_step (new_step clean (if failed then StepFailed else Running)) h)"

definition hist_finish :: "step_state \<Rightarrow> pow_step list \<Rightarrow> pow_step list" where
  "hist_finish s h = (if h \<noteq> [] \<and> st_state (last h) = Running then set_last (new_step (st_text (last h)) s) h else h)"

fun hist_step :: "status_op \<Rightarrow> pow_step list \<Rightarrow> pow_step list" where
  "hist_step (Update p n d l r) h =
     (let h' = (if strip d = [] then h else hist_note d False h)
      in if p = Connected then hist_finish StepDone h'
         else if p = PhaseFailed then hist_finish StepFailed h' else h')"
| "hist_step (Pulse t) h =
     (if step_text t \<noteq> [] \<and> running_scan h then set_last (new_step (step_text t) Running) h
      else hist_note (step_text t) False h)"
| "hist_step (ScanOp t oc) h =
     (let s = new_step (step_text t) (if oc = ''trying'' then Running else if oc = ''accepted'' then StepDone else StepFailed)
      in if step_text t = [] then h else if running_scan h then set_last s h else add_step s h)"
| "hist_step (Note t f) h = hist_note t f h"
| "hist_step Reset h = []"


section \<open>The store shows the end of the history\<close>

lemma last_n_set_last:
  assumes "h \<noteq> []" shows "last_n 24 (set_last x h) = set_last x (last_n 24 h)"
proof -
  have "drop n (butlast h @ [x]) = butlast (drop n h) @ [x]" if "n < length h" for n
    using that by (simp add: drop_butlast)
  moreover have "length (butlast h @ [x]) = length h" using assms by simp
  ultimately show ?thesis using assms by (simp add: last_n_def set_last_def)
qed

lemma last_n_last: "h \<noteq> [] \<Longrightarrow> last (last_n 24 h) = last h"
  by (rule last_last_n) simp_all

lemma last_n_Nil [simp]: "last_n n [] = []"
  by (simp add: last_n_def)

lemma last_n_empty: "last_n 24 h = [] \<longleftrightarrow> h = []"
proof -
  have "length h \<le> length h - 24 \<longleftrightarrow> length h = 0" by arith
  then show ?thesis by (simp add: last_n_def)
qed

lemma last_n_Suc_append: "last_n (Suc n) (last_n (Suc n) h @ [x]) = last_n (Suc n) (h @ [x])"
proof (cases "length h \<le> Suc n")
  case False
  then have "drop (length h - n) h = drop 1 (drop (length h - Suc n) h)" by (simp add: Suc_diff_Suc)
  with False show ?thesis by (simp add: last_n_def)
qed simp

lemma last_n_append: "last_n 24 (last_n 24 h @ [x]) = last_n 24 (h @ [x])"
proof -
  have "(24 :: nat) = Suc 23" by simp
  then show ?thesis by (metis last_n_Suc_append)
qed

lemma length_settle [simp]: "length (settle h) = length h"
  by (auto simp: settle_def set_last_def)

lemma settle_Nil [simp]: "settle [] = []"
  by (simp add: settle_def)

lemma last_n_settle: "settle (last_n 24 h) = last_n 24 (settle h)"
proof (cases "h = []")
  case False
  then show ?thesis by (simp add: settle_def last_n_empty last_n_last last_n_set_last)
qed simp

lemma running_scan_last_n: "running_scan (last_n 24 h) = running_scan h"
  by (cases "h = []") (simp_all add: running_scan_def last_n_empty last_n_last)

definition shows_end :: "pow_step list \<Rightarrow> pow_status \<Rightarrow> bool" where
  "shows_end h st \<longleftrightarrow> us_steps st = last_n 24 h"

lemma note_locked_end: "shows_end h st \<Longrightarrow> shows_end (hist_note t f h) (fst (note_locked t f st))"
  by (cases "h = []")
    (auto simp: shows_end_def note_locked_def hist_note_def add_step_def Let_def last_n_empty last_n_last last_n_settle last_n_append)

lemma finish_locked_end: "shows_end h st \<Longrightarrow> shows_end (hist_finish s h) (fst (finish_locked s st))"
  by (cases "h = []")
    (auto simp: shows_end_def finish_locked_def hist_finish_def Let_def last_n_empty last_n_last last_n_set_last)

lemma shows_end_update [simp]:
  "shows_end h (st\<lparr>us_phase := p, us_progress := n, us_detail := d, us_outer_label := l, us_exit_region := r\<rparr>) = shows_end h st"
  by (simp add: shows_end_def)

lemma update_end: "shows_end h st \<Longrightarrow> shows_end (hist_step (Update p n d l r) h) (fst (update_status p n d l r st))"
  by (auto simp: update_status_def Let_def intro!: finish_locked_end note_locked_end)

lemma pulse_end: "shows_end h st \<Longrightarrow> shows_end (hist_step (Pulse t) h) (fst (pulse t st))"
proof (cases "step_text t \<noteq> [] \<and> running_scan h")
  case True
  assume st: "shows_end h st"
  from True have h: "h \<noteq> []" "st_state (last h) = Running" by (auto simp: running_scan_def)
  have same: "set_last (new_step (st_text (last h)) Running) h = h"
  proof -
    have "new_step (st_text (last h)) Running = last h" using h(2) by (cases "last h") (simp add: new_step_def)
    with h(1) show ?thesis by (simp add: set_last_def)
  qed
  then have same24: "set_last (new_step (st_text (last h)) Running) (last_n 24 h) = last_n 24 h"
    using last_n_set_last [OF h(1)] by metis
  show ?thesis
  proof (cases "st_text (last h) = step_text t")
    case eq: True
    with True st h same24 show ?thesis
      by (simp add: shows_end_def pulse_def Let_def running_scan_last_n last_n_last last_n_set_last)
  next
    case False
    with True st h show ?thesis
      by (simp add: shows_end_def pulse_def Let_def running_scan_last_n last_n_last last_n_set_last)
  qed
next
  case False
  assume st: "shows_end h st"
  show ?thesis
  proof (cases "step_text t = []")
    case True
    have "step_text [] = []" by (simp add: step_text_def)
    with True st show ?thesis by (simp add: pulse_def hist_note_def)
  next
    case ne: False
    with False have nr: "\<not> running_scan h" by simp
    with ne st note_locked_end [OF st, of "step_text t" False] show ?thesis
      by (simp add: pulse_def Let_def shows_end_def running_scan_last_n)
  qed
qed

lemma scan_end: "shows_end h st \<Longrightarrow> shows_end (hist_step (ScanOp t oc) h) (fst (scan_step t oc st))"
proof (cases "running_scan h")
  case True
  assume st: "shows_end h st"
  from True have "h \<noteq> []" by (simp add: running_scan_def)
  with True st show ?thesis
    by (simp add: shows_end_def scan_step_def Let_def running_scan_last_n last_n_set_last)
next
  case False
  assume "shows_end h st"
  with False show ?thesis
    by (simp add: shows_end_def scan_step_def Let_def running_scan_last_n add_step_def last_n_settle last_n_append)
qed

lemma status_step_end: "shows_end h st \<Longrightarrow> shows_end (hist_step opn h) (status_step opn st)"
proof (cases opn)
  case Reset
  then show ?thesis by (simp add: shows_end_def reset_status_def initial_status_def last_n_def)
qed (simp_all add: update_end pulse_end scan_end note_step_def note_locked_end del: hist_step.simps(1,2,3))

text \<open>
  C18: The status store refines an unbounded history: started empty and under any sequence of
  updates, pulses, scan results, notes and resets, what it shows is exactly the last 24 steps
  of the history that keeps them all.
\<close>

theorem status_store_refines_history:
  "us_steps (fold status_step ops initial_status) = last_n 24 (fold hist_step ops [])"
proof -
  have "shows_end h st \<Longrightarrow> shows_end (fold hist_step ops h) (fold status_step ops st)" for h st
    by (induction ops arbitrary: h st) (simp_all add: status_step_end del: hist_step.simps status_step.simps)
  moreover have "shows_end [] initial_status" by (simp add: shows_end_def initial_status_def last_n_def)
  ultimately show ?thesis unfolding shows_end_def by blast
qed

section \<open>At most one step runs\<close>

definition steps_ok :: "pow_step list \<Rightarrow> bool" where
  "steps_ok h \<longleftrightarrow> list_all (\<lambda>s. st_text s \<noteq> [] \<and> length (st_text s) \<le> 180) h
     \<and> list_all (\<lambda>s. st_state s \<noteq> Running) (butlast h)"

lemma step_text_length: "length (step_text t) \<le> 180"
  by (simp add: step_text_def)

lemma steps_ok_set_last:
  "steps_ok h \<Longrightarrow> st_text x \<noteq> [] \<Longrightarrow> length (st_text x) \<le> 180 \<Longrightarrow> steps_ok (set_last x h)"
  by (auto simp: steps_ok_def set_last_def list_all_iff dest: in_set_butlastD)

lemma settle_ok: "steps_ok h \<Longrightarrow> steps_ok (settle h) \<and> list_all (\<lambda>s. st_state s \<noteq> Running) (settle h)"
proof (cases "h \<noteq> [] \<and> st_state (last h) = Running")
  case True
  assume ok: "steps_ok h"
  from True ok have "st_text (last h) \<noteq> [] \<and> length (st_text (last h)) \<le> 180" by (simp add: steps_ok_def list_all_iff)
  with True ok steps_ok_set_last [OF ok, of "new_step (st_text (last h)) StepDone"] show ?thesis
    by (simp add: settle_def new_step_def) (simp add: steps_ok_def set_last_def)
next
  case False
  assume ok: "steps_ok h"
  with False have "list_all (\<lambda>s. st_state s \<noteq> Running) h"
    by (cases h rule: rev_cases) (auto simp: steps_ok_def)
  moreover from False have "settle h = h" by (auto simp: settle_def)
  ultimately show ?thesis using ok by simp
qed

lemma add_step_ok: "steps_ok h \<Longrightarrow> st_text x \<noteq> [] \<Longrightarrow> length (st_text x) \<le> 180 \<Longrightarrow> steps_ok (add_step x h)"
  using settle_ok [of h] by (simp add: add_step_def steps_ok_def)

lemma hist_note_ok: "steps_ok h \<Longrightarrow> steps_ok (hist_note t f h)"
  by (auto simp: hist_note_def Let_def new_step_def step_text_length intro!: add_step_ok)

lemma hist_finish_ok: "steps_ok h \<Longrightarrow> steps_ok (hist_finish s h)"
proof -
  assume ok: "steps_ok h"
  show ?thesis
  proof (cases "h = []")
    case False
    with ok have "st_text (last h) \<noteq> [] \<and> length (st_text (last h)) \<le> 180" by (simp add: steps_ok_def list_all_iff)
    with ok show ?thesis by (auto simp: hist_finish_def new_step_def intro: steps_ok_set_last)
  qed (use ok in \<open>simp add: hist_finish_def\<close>)
qed

lemma hist_step_ok: "steps_ok h \<Longrightarrow> steps_ok (hist_step opn h)"
  by (cases opn) (auto simp: Let_def new_step_def step_text_length hist_note_ok
      intro!: hist_finish_ok hist_note_ok steps_ok_set_last add_step_ok, simp_all add: steps_ok_def)

lemma steps_ok_last_n: "steps_ok h \<Longrightarrow> steps_ok (last_n n h)"
proof -
  assume ok: "steps_ok h"
  have "butlast (drop k h) = drop k (butlast h)" for k by (simp add: butlast_drop)
  with ok show ?thesis by (auto simp: steps_ok_def last_n_def list_all_iff dest: in_set_dropD)
qed

text \<open>
  Under any sequence of calls the shown list has at most 24 steps with texts of 1 to 180
  characters, only the last one may be running, and the progress stays between 0 and 100.
\<close>

theorem status_steps_well_formed:
  fixes ops defines "st \<equiv> fold status_step ops initial_status"
  shows "length (us_steps st) \<le> 24 \<and> steps_ok (us_steps st) \<and> 0 \<le> us_progress st \<and> us_progress st \<le> 100"
proof -
  have "steps_ok h \<Longrightarrow> steps_ok (fold hist_step ops h)" for h
    by (induction ops arbitrary: h) (simp_all add: hist_step_ok del: hist_step.simps)
  then have "steps_ok (fold hist_step ops [])" by (simp add: steps_ok_def)
  moreover have "us_steps st = last_n 24 (fold hist_step ops [])"
  proof -
    have "shows_end h s \<Longrightarrow> shows_end (fold hist_step ops h) (fold status_step ops s)" for h s
      by (induction ops arbitrary: h s) (simp_all add: status_step_end del: hist_step.simps status_step.simps)
    moreover have "shows_end [] initial_status" by (simp add: shows_end_def initial_status_def last_n_def)
    ultimately show ?thesis unfolding st_def shows_end_def by blast
  qed
  moreover have "0 \<le> us_progress (status_step opn s) \<and> us_progress (status_step opn s) \<le> 100"
    if "0 \<le> us_progress s \<and> us_progress s \<le> 100" for opn s
    using that
    by (cases opn) (auto simp: update_status_def note_locked_def finish_locked_def pulse_def scan_step_def note_step_def
        reset_status_def initial_status_def Let_def)
  then have "0 \<le> us_progress s \<and> us_progress s \<le> 100 \<Longrightarrow>
      0 \<le> us_progress (fold status_step ops s) \<and> us_progress (fold status_step ops s) \<le> 100" for s
    by (induction ops arbitrary: s) (simp_all del: status_step.simps)
  ultimately show ?thesis using steps_ok_last_n by (simp add: st_def initial_status_def)
qed

end
