(* ===== verification/Pow_Speed.thy ===== *)
theory Pow_Speed
  imports Pattern_Core Pow_Regions
begin

text \<open>
  The speed features of the PoW engine, \<open>pow/speed.py\<close>: the saved list of clean addresses, and the
  sticky SOCKS5 router that spreads connections over several sessions. A socket is the list of
  segments that will arrive on it; connecting, the clock and the text of an IPv6 address are
  answers from outside. The order in which the router tries its sessions is an interpretation of
  the exhaustive failover contract. Listening, copying between sockets and the latency probe
  itself are not modelled.
\<close>

section \<open>Addresses in the core's log\<close>

definition is_hex_char :: "char \<Rightarrow> bool" where
  "is_hex_char c \<longleftrightarrow> is_ascii_digit c \<or> (let n = of_char c :: nat in (65 \<le> n \<and> n \<le> 70) \<or> (97 \<le> n \<and> n \<le> 102))"

definition span :: "('a \<Rightarrow> bool) \<Rightarrow> 'a list \<Rightarrow> 'a list \<times> 'a list" where
  "span p xs = (takeWhile p xs, dropWhile p xs)"

definition port_suffix :: "string \<Rightarrow> string option" where
  \<comment> \<open>\<open>:\d+\<close> at the start\<close>
  "port_suffix s = (case s of
     c # cs \<Rightarrow> if c = CHR '':'' \<and> takeWhile is_ascii_digit cs \<noteq> [] then Some (c # takeWhile is_ascii_digit cs) else None
   | [] \<Rightarrow> None)"

definition bracket_peer :: "string \<Rightarrow> string option" where
  \<comment> \<open>\<open>\[[0-9a-fA-F:]+\]:\d+\<close>\<close>
  "bracket_peer s = (if s = [] \<or> hd s \<noteq> CHR ''['' then None
     else let sp = span (\<lambda>c. is_hex_char c \<or> c = CHR '':'') (tl s) in
     if fst sp = [] \<or> snd sp = [] \<or> hd (snd sp) \<noteq> CHR '']'' then None
     else map_option (\<lambda>p. [CHR ''[''] @ fst sp @ [CHR '']''] @ p) (port_suffix (tl (snd sp))))"

fun dotted_peer :: "nat \<Rightarrow> string \<Rightarrow> string option" where
  \<comment> \<open>one to three digits, so many more times after a point, then the port\<close>
  "dotted_peer 0 s = (let sp = span is_ascii_digit s in
     if fst sp = [] \<or> length (fst sp) > 3 then None else map_option (\<lambda>p. fst sp @ p) (port_suffix (snd sp)))"
| "dotted_peer (Suc k) s = (let sp = span is_ascii_digit s in
     if fst sp = [] \<or> length (fst sp) > 3 \<or> snd sp = [] \<or> hd (snd sp) \<noteq> CHR ''.'' then None
     else map_option (\<lambda>p. fst sp @ [CHR ''.''] @ p) (dotted_peer k (tl (snd sp))))"

definition ACCEPT_PREFIXES :: "string list" where
  "ACCEPT_PREFIXES = [''Accepted'', ''Saved clean HTTP/2 address'', ''Saved clean address accepted'', ''Selected'']"

definition accepted_peer :: "string \<Rightarrow> string" where
  "accepted_peer line =
     (let text = strip line in
      case find (\<lambda>p. startswith text p) ACCEPT_PREFIXES of
        None \<Rightarrow> []
      | Some p \<Rightarrow>
          let rest = drop (length p) text; body = lstrip rest in
          if body = rest then []
          else case bracket_peer body of
            Some a \<Rightarrow> a
          | None \<Rightarrow> (case dotted_peer 3 body of Some a \<Rightarrow> a | None \<Rightarrow> []))"

definition log_body :: "string \<Rightarrow> string" where
  \<comment> \<open>a line without its clock\<close>
  "log_body line = (if length line > 10 \<and> line ! 2 = CHR '':'' \<and> line ! 5 = CHR '':'' then strip (drop 10 line) else strip line)"

fun harvest :: "nat \<Rightarrow> string list \<Rightarrow> string list \<Rightarrow> string list" where
  "harvest limit [] found = found"
| "harvest limit (l # ls) found =
     (let peer = accepted_peer (log_body l) in
      if peer \<noteq> [] \<and> peer \<notin> set found
      then (if length (found @ [peer]) \<ge> limit then found @ [peer] else harvest limit ls (found @ [peer]))
      else harvest limit ls found)"

definition harvest_core_log :: "string option \<Rightarrow> nat \<Rightarrow> string list" where
  \<comment> \<open>the tail of the log, when it can be read\<close>
  "harvest_core_log file limit = (case file of None \<Rightarrow> [] | Some text \<Rightarrow> harvest limit (rev (splitlines text)) [])"

definition split_peer :: "string \<Rightarrow> (string \<times> int) option" where
  "split_peer peer =
     (let text = strip peer;
          parts = (if startswith text ''['' then str_partition '']:'' (tl text) else str_rpartition '':'' text);
          host = fst parts; port = snd (snd parts)
      in if host \<noteq> [] \<and> port \<noteq> [] then map_option (\<lambda>n. (host, n)) (py_int port) else None)"

definition rank_peers :: "string list \<Rightarrow> (string \<times> int) list \<Rightarrow> (string \<times> int) list" where
  \<comment> \<open>the second argument lists the probes that ended within the time, in that order\<close>
  "rank_peers peers finished =
     (let unique = uniq (filter (\<lambda>p. p \<noteq> []) peers);
          results = dict_set_all (filter (\<lambda>pr. fst pr \<in> set unique \<and> snd pr > 0) finished) []
      in sort_key snd results)"

definition read_clean_list :: "json res \<Rightarrow> string list" where
  "read_clean_list doc = (case doc of
     Inr (JObj d) \<Rightarrow> (case py_iter (dict_get_or d ''peers'' (JArr [])) of
       Inr ps \<Rightarrow> filter (\<lambda>p. split_peer p \<noteq> None) (map py_str ps)
     | Inl _ \<Rightarrow> [])
   | _ \<Rightarrow> [])"

definition write_clean_list :: "string list \<Rightarrow> json" where
  "write_clean_list peers = JObj [(''peers'', JArr (map JStr (take 16 (uniq peers))))]"

definition ordered_clean_list :: "string list \<Rightarrow> (string \<times> int) list \<Rightarrow> string list" where
  "ordered_clean_list saved ranked = (let first = map fst ranked in first @ filter (\<lambda>p. p \<notin> set first) saved)"

section \<open>Reading SOCKS5\<close>

definition recv_exact :: "nat \<Rightarrow> bytes list \<Rightarrow> (bytes \<times> bytes list) res" where
  \<comment> \<open>the loop of \<open>_recv_exact\<close>, an early end of the stream is an \<open>OSError\<close>\<close>
  "recv_exact n segs = (let r = read_more n [] segs in if length (fst r) < n then Inl OSError else Inr r)"

definition dotted :: "bytes \<Rightarrow> string" where
  \<comment> \<open>\<open>inet_ntoa\<close>\<close>
  "dotted addr = join ''.'' (map (\<lambda>b. nat_str (unat b)) addr)"

definition ascii_replace_text :: "bytes \<Rightarrow> string" where
  \<comment> \<open>\<open>decode("ascii", "replace")\<close>; the replacement character stands as its three UTF-8 bytes,
     which \<open>lower\<close> keeps\<close>
  "ascii_replace_text bs = concat (map (\<lambda>b. if unat b < 128 then [char_of (unat b)] else [CHR 0xEF, CHR 0xBF, CHR 0xBD]) bs)"

definition request_addr :: "(bytes \<Rightarrow> string) \<Rightarrow> u8 \<Rightarrow> bytes list \<Rightarrow> ((bytes \<times> string) \<times> bytes list) res" where
  \<comment> \<open>the address field and the host it names; \<open>inet_ntop\<close> is the parameter\<close>
  "request_addr ntop atyp segs =
     (if atyp = 1 then rbind (recv_exact 4 segs) (\<lambda>r. Inr ((fst r, dotted (fst r)), snd r))
      else if atyp = 3 then
        rbind (recv_exact 1 segs) (\<lambda>l. rbind (recv_exact (unat (hd (fst l))) (snd l)) (\<lambda>r.
          Inr ((fst l @ fst r, lower (ascii_replace_text (fst r))), snd r)))
      else if atyp = 4 then rbind (recv_exact 16 segs) (\<lambda>r. Inr ((fst r, ntop (fst r)), snd r))
      else Inl OSError)"

definition read_request :: "(bytes \<Rightarrow> string) \<Rightarrow> bytes list \<Rightarrow> ((bytes \<times> string) \<times> bytes list) res" where
  "read_request ntop segs =
     rbind (recv_exact 4 segs) (\<lambda>h.
     if fst h ! 0 \<noteq> 5 then Inl OSError
     else rbind (request_addr ntop (fst h ! 3) (snd h)) (\<lambda>a.
       rbind (recv_exact 2 (snd a)) (\<lambda>p.
       Inr ((fst h @ fst (fst a) @ fst p, snd (fst a)), snd p))))"

definition read_reply :: "bytes list \<Rightarrow> (bytes \<times> bytes list) res" where
  "read_reply segs =
     rbind (recv_exact 4 segs) (\<lambda>h.
     let atyp = fst h ! 3 in
     if atyp = 1 then rbind (recv_exact 6 (snd h)) (\<lambda>r. Inr (fst h @ fst r, snd r))
     else if atyp = 4 then rbind (recv_exact 18 (snd h)) (\<lambda>r. Inr (fst h @ fst r, snd r))
     else if atyp = 3 then rbind (recv_exact 1 (snd h)) (\<lambda>l. rbind (recv_exact (unat (hd (fst l)) + 2) (snd l)) (\<lambda>r.
       Inr (fst h @ fst l @ fst r, snd r)))
     else Inl OSError)"

section \<open>Choosing the session\<close>

text \<open>\<open>zlib.crc32\<close>: the reflected CRC-32.\<close>

definition crc_bit :: "32 word \<Rightarrow> 32 word" where
  "crc_bit c = (if bit c 0 then drop_bit 1 c XOR 0xEDB88320 else drop_bit 1 c)"

definition crc_byte :: "char \<Rightarrow> 32 word \<Rightarrow> 32 word" where
  "crc_byte b c = (crc_bit ^^ 8) (c XOR word_of_nat (of_char b))"

definition crc32 :: "string \<Rightarrow> 32 word" where
  "crc32 s = fold crc_byte s 0xFFFFFFFF XOR 0xFFFFFFFF"

definition site_key :: "string \<Rightarrow> string" where
  \<comment> \<open>the last two labels of a name, an address as it is\<close>
  "site_key host =
     (let key = lower host; labels = split_on (CHR ''.'') key; bare = replace_char (CHR ''.'') [] key in
      if length labels > 2 \<and> \<not> (bare \<noteq> [] \<and> list_all is_digit_char bare) then join ''.'' (last_n 2 labels) else key)"

definition sticky_index :: "string \<Rightarrow> nat \<Rightarrow> nat" where
  "sticky_index host n = (if n \<le> 1 then 0 else nat (uint (crc32 (site_key host)) mod int n))"

section \<open>The router\<close>

definition DOWN_FOR_S :: rat where "DOWN_FOR_S = 30"

record router =
  ro_upstreams :: "int list"
  ro_down :: "(nat, rat) dict"
  ro_counts :: "nat list"
  ro_calls :: nat \<comment> \<open>questions asked to the outside so far\<close>

definition new_router :: "int list \<Rightarrow> router" where
  "new_router ports = \<lparr>ro_upstreams = ports, ro_down = [], ro_counts = replicate (length ports) 0, ro_calls = 0\<rparr>"

definition add_upstream :: "int \<Rightarrow> router \<Rightarrow> router" where
  "add_upstream port r =
     (if port \<in> set (ro_upstreams r) then r
      else r\<lparr>ro_upstreams := ro_upstreams r @ [port], ro_counts := ro_counts r @ [0]\<rparr>)"

definition session_up :: "router \<Rightarrow> rat \<Rightarrow> nat \<Rightarrow> bool" where
  "session_up r now i \<longleftrightarrow> dict_get_or (ro_down r) i 0 \<le> now"

definition order_for :: "router \<Rightarrow> string \<Rightarrow> rat \<Rightarrow> nat list" where
  "order_for r host now =
     (let n = length (ro_upstreams r); first = sticky_index host n;
          order = first # filter (\<lambda>i. i \<noteq> first) [0..<n];
          healthy = filter (session_up r now) order
      in healthy @ filter (\<lambda>i. i \<notin> set healthy) order)"

record router_env =
  re_now :: "nat \<Rightarrow> rat"
  re_dial :: "nat \<Rightarrow> int \<Rightarrow> bytes list res" \<comment> \<open>connecting to a local port: what then arrives from it\<close>

definition handshake :: "bytes list \<Rightarrow> (bytes \<times> bytes list) res" where
  \<comment> \<open>method reply, then the reply to the request\<close>
  "handshake segs =
     rbind (recv_exact 2 segs) (\<lambda>m.
     if fst m \<noteq> [5, 0] then Inl OSError
     else rbind (read_reply (snd m)) (\<lambda>rp.
       if fst rp ! 1 \<noteq> 0 then Inl OSError else Inr rp))"

definition dial_session :: "router_env \<Rightarrow> router \<Rightarrow> nat \<Rightarrow> (bytes \<times> bytes list) res" where
  "dial_session env r i =
     (if i < length (ro_upstreams r) then rbind (re_dial env (ro_calls r) (ro_upstreams r ! i)) handshake else Inl IndexError)"

definition bump :: "nat \<Rightarrow> nat list \<Rightarrow> nat list" where
  "bump i xs = xs[i := Suc (xs ! i)]"

definition session_served :: "nat \<Rightarrow> router \<Rightarrow> router" where
  "session_served i r = r\<lparr>ro_counts := bump i (ro_counts r), ro_down := dict_pop i (ro_down r), ro_calls := Suc (ro_calls r)\<rparr>"

definition session_failed :: "nat \<Rightarrow> rat \<Rightarrow> router \<Rightarrow> router" where
  "session_failed i until r = r\<lparr>ro_down := dict_set i until (ro_down r), ro_calls := Suc (ro_calls r)\<rparr>"

datatype served =
    Piped nat bytes \<comment> \<open>joined to a session, whose reply went to the client\<close>
  | Refused \<comment> \<open>no session took it: the client is told so\<close>
  | Dropped \<comment> \<open>the connection is closed without an answer\<close>

fun try_sessions :: "router_env \<Rightarrow> nat list \<Rightarrow> router \<Rightarrow> served \<times> router" where
  "try_sessions env [] r = (Refused, r)"
| "try_sessions env (i # is) r =
     (case dial_session env r i of
        Inr reply \<Rightarrow> (Piped i (fst reply), session_served i r)
      | Inl e \<Rightarrow> if e \<in> {OSError, ConnectionError, PyTimeout}
          then try_sessions env is (session_failed i (re_now env (ro_calls r) + DOWN_FOR_S) r)
          else (Dropped, r))"

definition client_request :: "(bytes \<Rightarrow> string) \<Rightarrow> bytes list \<Rightarrow> (bytes \<times> string) res" where
  "client_request ntop segs =
     rbind (recv_exact 2 segs) (\<lambda>g. rbind (recv_exact (unat (fst g ! 1)) (snd g)) (\<lambda>m.
     rbind (read_request ntop (snd m)) (\<lambda>q. Inr (fst q))))"

definition serve :: "(bytes \<Rightarrow> string) \<Rightarrow> router_env \<Rightarrow> bytes list \<Rightarrow> router \<Rightarrow> served \<times> router" where
  "serve ntop env segs r = (case client_request ntop segs of
     Inl _ \<Rightarrow> (Dropped, r)
   | Inr q \<Rightarrow> try_sessions env (order_for r (snd q) (re_now env (ro_calls r))) (r\<lparr>ro_calls := Suc (ro_calls r)\<rparr>))"

section \<open>Trace answers\<close>

definition COLO_COUNTRY :: "(string, string) dict" where
  "COLO_COUNTRY = [(''FRA'', ''DE''), (''DUS'', ''DE''), (''HAM'', ''DE''), (''MUC'', ''DE''), (''TXL'', ''DE''),
     (''BER'', ''DE''), (''STR'', ''DE''), (''AMS'', ''NL''), (''LHR'', ''GB''), (''MAN'', ''GB''),
     (''EDI'', ''GB''), (''CDG'', ''FR''), (''MRS'', ''FR''), (''LYS'', ''FR''), (''VIE'', ''AT''),
     (''ZRH'', ''CH''), (''GVA'', ''CH''), (''MXP'', ''IT''), (''FCO'', ''IT''), (''PMO'', ''IT''),
     (''MAD'', ''ES''), (''BCN'', ''ES''), (''LIS'', ''PT''), (''BRU'', ''BE''), (''CPH'', ''DK''),
     (''ARN'', ''SE''), (''GOT'', ''SE''), (''OSL'', ''NO''), (''HEL'', ''FI''), (''WAW'', ''PL''),
     (''PRG'', ''CZ''), (''BUD'', ''HU''), (''OTP'', ''RO''), (''SOF'', ''BG''), (''BEG'', ''RS''),
     (''ATH'', ''GR''), (''SKG'', ''GR''), (''KBP'', ''UA''), (''KIV'', ''MD''), (''RIX'', ''LV''),
     (''VNO'', ''LT''), (''TLL'', ''EE''), (''DUB'', ''IE''), (''KEF'', ''IS''), (''IST'', ''TR''),
     (''ADB'', ''TR''), (''ESB'', ''TR''), (''TLV'', ''IL''), (''AMM'', ''JO''), (''DXB'', ''AE''),
     (''FJR'', ''AE''), (''AUH'', ''AE''), (''DOH'', ''QA''), (''BAH'', ''BH''), (''KWI'', ''KW''),
     (''MCT'', ''OM''), (''RUH'', ''SA''), (''JED'', ''SA''), (''DMM'', ''SA''), (''BGW'', ''IQ''),
     (''BSR'', ''IQ''), (''EBL'', ''IQ''), (''ISU'', ''IQ''), (''NJF'', ''IQ''), (''XNH'', ''IQ''),
     (''TBS'', ''GE''), (''EVN'', ''AM''), (''GYD'', ''AZ''), (''ALA'', ''KZ''), (''NQZ'', ''KZ''),
     (''TAS'', ''UZ''), (''KHI'', ''PK''), (''LHE'', ''PK''), (''ISB'', ''PK''), (''BOM'', ''IN''),
     (''DEL'', ''IN''), (''MAA'', ''IN''), (''BLR'', ''IN''), (''HYD'', ''IN''), (''CCU'', ''IN''),
     (''SIN'', ''SG''), (''HKG'', ''HK''), (''NRT'', ''JP''), (''KIX'', ''JP''), (''ICN'', ''KR''),
     (''TPE'', ''TW''), (''KUL'', ''MY''), (''BKK'', ''TH''), (''CGK'', ''ID''), (''MNL'', ''PH''),
     (''SYD'', ''AU''), (''MEL'', ''AU''), (''AKL'', ''NZ''), (''IAD'', ''US''), (''EWR'', ''US''),
     (''ORD'', ''US''), (''DFW'', ''US''), (''LAX'', ''US''), (''SJC'', ''US''), (''SEA'', ''US''),
     (''ATL'', ''US''), (''MIA'', ''US''), (''YYZ'', ''CA''), (''YUL'', ''CA''), (''GRU'', ''BR''),
     (''EZE'', ''AR''), (''SCL'', ''CL''), (''MEX'', ''MX''), (''JNB'', ''ZA''), (''CPT'', ''ZA''),
     (''CAI'', ''EG''), (''LOS'', ''NG''), (''NBO'', ''KE'')]"

definition trace_line :: "string \<Rightarrow> (string, string) dict \<Rightarrow> (string, string) dict" where
  "trace_line line out =
     (let p = str_partition ''='' (strip line) in
      if fst (snd p) \<noteq> [] \<and> fst p \<in> {''ip'', ''loc'', ''colo'', ''warp''} then dict_set (fst p) (strip (snd (snd p))) out else out)"

definition parse_trace :: "string \<Rightarrow> (string, string) dict" where
  "parse_trace text = fold trace_line (splitlines text) []"

definition colo_country :: "string \<Rightarrow> string" where
  "colo_country colo = dict_get_or COLO_COUNTRY (upper (strip colo)) []"


section \<open>A request is read whole, however it arrives\<close>

lemma read_more_rest_nonempty:
  "[] \<notin> set segs \<Longrightarrow> [] \<notin> set (snd (read_more n first segs))"
proof (induction n first segs rule: read_more.induct)
  case (1 n first segs)
  let ?r = "recv (int n - int (length first)) segs"
  show ?case
  proof (cases "length first < n")
    case True
    show ?thesis
    proof (cases "segs = []")
      case False
      with recv_nonempty [of "int n - int (length first)" segs] True 1(2)
      have r: "fst ?r \<noteq> []" "[] \<notin> set (snd ?r)" by simp_all
      with "1.IH" [OF True r] True show ?thesis by (subst read_more.simps) simp
    qed (use True in \<open>subst read_more.simps, simp\<close>)
  next
    case False
    with 1(2) show ?thesis by (subst read_more.simps) simp
  qed
qed

lemma recv_exact_spec:
  assumes "[] \<notin> set segs" "concat segs = a @ b"
  shows "\<exists>segs'. recv_exact (length a) segs = Inr (a, segs') \<and> concat segs' = b \<and> [] \<notin> set segs'"
proof -
  let ?r = "read_more (length a) [] segs"
  have len: "length (fst ?r) = length a" by (rule read_more_length) (use assms in simp_all)
  have cat: "fst ?r @ concat (snd ?r) = a @ b" using read_more_stream [of "length a" "[]" segs] assms(2) by simp
  with len have "fst ?r = a" "concat (snd ?r) = b" by (simp_all add: append_eq_append_conv)
  with read_more_rest_nonempty [OF assms(1), of "length a" "[]"] show ?thesis
    by (intro exI [of _ "snd ?r"]) (simp add: recv_exact_def Let_def prod_eq_iff)
qed

lemma recv_exact_take:
  assumes "[] \<notin> set segs" "concat segs = a @ b" "n = length a"
  obtains segs' where "recv_exact n segs = Inr (a, segs')" "concat segs' = b" "[] \<notin> set segs'"
  using recv_exact_spec [OF assms(1,2)] assms(3) by blast

datatype dest = Ip4 bytes | Name bytes | Ip6 bytes

fun dest_ok :: "dest \<Rightarrow> bool" where
  "dest_ok (Ip4 a) \<longleftrightarrow> length a = 4"
| "dest_ok (Name a) \<longleftrightarrow> length a \<le> 255"
| "dest_ok (Ip6 a) \<longleftrightarrow> length a = 16"

fun dest_bytes :: "dest \<Rightarrow> bytes" where
  "dest_bytes (Ip4 a) = 1 # a"
| "dest_bytes (Name a) = 3 # word_of_nat (length a) # a"
| "dest_bytes (Ip6 a) = 4 # a"

fun dest_host :: "(bytes \<Rightarrow> string) \<Rightarrow> dest \<Rightarrow> string" where
  "dest_host ntop (Ip4 a) = dotted a"
| "dest_host ntop (Name a) = lower (ascii_replace_text a)"
| "dest_host ntop (Ip6 a) = ntop a"

text \<open>The bytes of a request: version, command, a reserved byte, the address and the port.\<close>

definition socks_request :: "u8 \<Rightarrow> dest \<Rightarrow> bytes \<Rightarrow> bytes" where
  "socks_request cmd d port = [5, cmd, 0] @ dest_bytes d @ port"

lemma read_request_spec:
  assumes "[] \<notin> set segs" "concat segs = socks_request cmd d port @ rest" "dest_ok d" "length port = 2"
  shows "\<exists>segs'. read_request ntop segs = Inr ((socks_request cmd d port, dest_host ntop d), segs')
     \<and> concat segs' = rest \<and> [] \<notin> set segs'"
proof -
  have head: "concat segs = [5, cmd, 0, hd (dest_bytes d)] @ (tl (dest_bytes d) @ port @ rest)"
    using assms(2) by (cases d) (simp_all add: socks_request_def)
  obtain s1 where
    s1: "recv_exact 4 segs = Inr ([5, cmd, 0, hd (dest_bytes d)], s1)" "concat s1 = tl (dest_bytes d) @ port @ rest" "[] \<notin> set s1"
    by (rule recv_exact_take [OF assms(1) head, of 4]) (simp, blast)
  have "\<exists>s2. request_addr ntop (hd (dest_bytes d)) s1 = Inr ((tl (dest_bytes d), dest_host ntop d), s2)
      \<and> concat s2 = port @ rest \<and> [] \<notin> set s2"
  proof (cases d)
    case (Ip4 a)
    then have c: "concat s1 = a @ port @ rest" "4 = length a" using s1(2) assms(3) by simp_all
    obtain s2 where "recv_exact 4 s1 = Inr (a, s2)" "concat s2 = port @ rest" "[] \<notin> set s2"
      by (rule recv_exact_take [OF s1(3) c])
    then show ?thesis using Ip4 by (simp add: request_addr_def)
  next
    case (Ip6 a)
    then have c: "concat s1 = a @ port @ rest" "16 = length a" using s1(2) assms(3) by simp_all
    obtain s2 where "recv_exact 16 s1 = Inr (a, s2)" "concat s2 = port @ rest" "[] \<notin> set s2"
      by (rule recv_exact_take [OF s1(3) c])
    then show ?thesis using Ip6 by (simp add: request_addr_def)
  next
    case (Name a)
    let ?n = "word_of_nat (length a) :: u8"
    have n: "unat ?n = length a" using Name assms(3) by (simp add: unat_of_nat)
    have c: "concat s1 = [?n] @ (a @ port @ rest)" "1 = length [?n]" using Name s1(2) by simp_all
    obtain s2 where s2: "recv_exact 1 s1 = Inr ([?n], s2)" "concat s2 = a @ port @ rest" "[] \<notin> set s2"
      by (rule recv_exact_take [OF s1(3) c])
    obtain s3 where "recv_exact (unat ?n) s2 = Inr (a, s3)" "concat s3 = port @ rest" "[] \<notin> set s3"
      by (rule recv_exact_take [OF s2(3,2) n])
    with s2 Name show ?thesis by (simp add: request_addr_def)
  qed
  then obtain s2 where s2: "request_addr ntop (hd (dest_bytes d)) s1 = Inr ((tl (dest_bytes d), dest_host ntop d), s2)"
    "concat s2 = port @ rest" "[] \<notin> set s2" by blast
  obtain s3 where s3: "recv_exact 2 s2 = Inr (port, s3)" "concat s3 = rest" "[] \<notin> set s3"
    by (rule recv_exact_take [OF s2(3,2) assms(4) [symmetric]])
  have "[5, cmd, 0, hd (dest_bytes d)] @ tl (dest_bytes d) @ port = socks_request cmd d port"
    by (cases d) (simp_all add: socks_request_def)
  with s1 s2 s3 show ?thesis by (simp add: read_request_def)
qed

text \<open>
  C32: A SOCKS5 request is read whole however it is segmented: the bytes kept for the upstream are
  exactly the request, the host is the one it names, and what follows stays in the stream.
\<close>

theorem socks_request_roundtrip:
  assumes "[] \<notin> set segs" "concat segs = socks_request cmd d port @ rest" "dest_ok d" "length port = 2"
  shows "\<exists>segs'. read_request ntop segs = Inr ((socks_request cmd d port, dest_host ntop d), segs') \<and> concat segs' = rest"
  using read_request_spec [OF assms] by blast

theorem socks_request_roundtrip_witness:
  "\<exists>segs'. read_request (\<lambda>_. []) [[5, 1], [0, 3, 4, 97], [46, 105, 114, 1], [187, 22]]
     = Inr (([5, 1, 0, 3, 4, 97, 46, 105, 114, 1, 187], lower (ascii_replace_text [97, 46, 105, 114])), segs')
     \<and> concat segs' = [22]"
  using socks_request_roundtrip [of "[[5, 1], [0, 3, 4, 97], [46, 105, 114, 1], [187, 22]]" 1 "Name [97, 46, 105, 114]" "[1, 187]" "[22]" "\<lambda>_. []"]
  by (simp add: socks_request_def)

section \<open>The router's order keeps the contract\<close>

lemma sticky_index_less: "sticky_index host n < max 1 n"
proof -
  have "nat (uint (crc32 (site_key host)) mod int n) < n" if "0 < n"
    using that pos_mod_bound [of "int n" "uint (crc32 (site_key host))"] by (simp add: nat_less_iff)
  then show ?thesis by (auto simp: sticky_index_def)
qed

lemma set_order_for: "set (order_for r host now) = {0..<max 1 (length (ro_upstreams r))}"
proof -
  define n where "n = length (ro_upstreams r)"
  define first where "first = sticky_index host n"
  define order where "order = first # filter (\<lambda>i. i \<noteq> first) [0..<n]"
  have "order_for r host now = filter (session_up r now) order
      @ filter (\<lambda>i. i \<notin> set (filter (session_up r now) order)) order"
    unfolding order_for_def Let_def order_def first_def n_def ..
  then have "set (order_for r host now) = set order" by auto
  also have "\<dots> = insert first {0..<n}" by (auto simp: order_def)
  also have "\<dots> = {0..<max 1 n}" using sticky_index_less [of host n] by (cases "n = 0") (auto simp: first_def max_def)
  finally show ?thesis by (simp only: n_def)
qed

lemma order_for_split:
  "\<exists>hs us. order_for r host now = hs @ us \<and> (\<forall>i \<in> set hs. session_up r now i) \<and> (\<forall>i \<in> set us. \<not> session_up r now i)"
proof -
  define first where "first = sticky_index host (length (ro_upstreams r))"
  define order where "order = first # filter (\<lambda>i. i \<noteq> first) [0..<length (ro_upstreams r)]"
  define hs where "hs = filter (session_up r now) order"
  have "order_for r host now = hs @ filter (\<lambda>i. i \<notin> set hs) order"
    unfolding order_for_def Let_def hs_def order_def first_def ..
  moreover have "\<forall>i \<in> set hs. session_up r now i" "\<forall>i \<in> set (filter (\<lambda>i. i \<notin> set hs) order). \<not> session_up r now i"
    by (auto simp: hs_def)
  ultimately show ?thesis by blast
qed

interpretation sessions: exhaustive_failover
    "\<lambda>(r, host, now). order_for r host now" "\<lambda>(r, host, now). [0..<max 1 (length (ro_upstreams r))]"
    "\<lambda>(r, host, now). session_up r now"
  by unfold_locales (use order_for_split in \<open>auto simp: set_order_for\<close>)

lemma order_for_sticky_first:
  "session_up r now (sticky_index host (length (ro_upstreams r))) \<Longrightarrow>
   hd (order_for r host now) = sticky_index host (length (ro_upstreams r))"
  unfolding order_for_def Let_def by simp

section \<open>Serving a connection\<close>

definition os_error :: "py_error \<Rightarrow> bool" where
  "os_error e \<longleftrightarrow> e \<in> {OSError, ConnectionError, PyTimeout}"

definition steady :: "router_env \<Rightarrow> int list \<Rightarrow> (nat \<Rightarrow> bool) \<Rightarrow> bool" where
  \<comment> \<open>a session takes requests or fails, as long as the connection is set up\<close>
  "steady env ports works \<longleftrightarrow> (\<forall>k i. i < length ports \<longrightarrow>
     (if works i then \<exists>rp. rbind (re_dial env k (ports ! i)) handshake = Inr rp
      else \<exists>e. rbind (re_dial env k (ports ! i)) handshake = Inl e \<and> os_error e))"

lemma steadyD:
  "steady env ports works \<Longrightarrow> i < length ports \<Longrightarrow> works i \<Longrightarrow>
     \<exists>a b. rbind (re_dial env k (ports ! i)) handshake = Inr (a, b)"
  "steady env ports works \<Longrightarrow> i < length ports \<Longrightarrow> \<not> works i \<Longrightarrow>
     \<exists>e. rbind (re_dial env k (ports ! i)) handshake = Inl e \<and> os_error e"
  unfolding steady_def by (metis surj_pair)+

lemma try_sessions_find:
  assumes "steady env (ro_upstreams r) works" "\<forall>i \<in> set is. i < length (ro_upstreams r)"
  shows "case find works is of
      Some i \<Rightarrow> \<exists>reply r'. try_sessions env is r = (Piped i reply, r') \<and> dict_get (ro_down r') i = None
        \<and> ro_counts r' = bump i (ro_counts r)
    | None \<Rightarrow> \<exists>r'. try_sessions env is r = (Refused, r') \<and> ro_counts r' = ro_counts r
        \<and> (\<forall>i \<in> set is. \<exists>t. dict_get (ro_down r') i = Some t)"
  using assms
proof (induction "is" arbitrary: r)
  case (Cons i "is")
  then have i: "i < length (ro_upstreams r)" by simp
  show ?case
  proof (cases "works i")
    case True
    from steadyD(1) [OF Cons.prems(1) i True] obtain a b
      where "rbind (re_dial env (ro_calls r) (ro_upstreams r ! i)) handshake = Inr (a, b)" by blast
    with True i show ?thesis by (simp add: dial_session_def session_served_def)
  next
    case False
    from steadyD(2) [OF Cons.prems(1) i False] obtain e
      where e: "rbind (re_dial env (ro_calls r) (ro_upstreams r ! i)) handshake = Inl e" "os_error e" by blast
    let ?r = "session_failed i (re_now env (ro_calls r) + DOWN_FOR_S) r"
    have step: "try_sessions env (i # is) r = try_sessions env is ?r"
      using e i by (simp add: dial_session_def os_error_def)
    have kept: "\<exists>t. dict_get (ro_down (snd (try_sessions env js x))) k = Some t"
      if "dict_get (ro_down x) k = Some s" "find works js = None" "steady env (ro_upstreams x) works"
        "\<forall>i \<in> set js. i < length (ro_upstreams x)" for js x k s
      using that
    proof (induction js arbitrary: x s)
      case (Cons j js)
      then have "\<not> works j" "j < length (ro_upstreams x)" by (auto split: if_splits)
      with steadyD(2) [OF Cons.prems(3), of j] obtain e
        where "rbind (re_dial env (ro_calls x) (ro_upstreams x ! j)) handshake = Inl e" "os_error e" by blast
      then have "try_sessions env (j # js) x = try_sessions env js (session_failed j (re_now env (ro_calls x) + DOWN_FOR_S) x)"
        using \<open>j < length (ro_upstreams x)\<close> by (simp add: dial_session_def os_error_def)
      moreover have "\<exists>s. dict_get (ro_down (session_failed j (re_now env (ro_calls x) + DOWN_FOR_S) x)) k = Some s"
        using Cons.prems(1) by (simp add: session_failed_def)
      ultimately show ?case using Cons.IH Cons.prems \<open>\<not> works j\<close>
        by (auto simp: session_failed_def simp del: try_sessions.simps)
    qed simp
    from Cons.IH [of ?r] Cons.prems have IH: "case find works is of
        Some i \<Rightarrow> \<exists>reply r'. try_sessions env is ?r = (Piped i reply, r') \<and> dict_get (ro_down r') i = None
          \<and> ro_counts r' = bump i (ro_counts ?r)
      | None \<Rightarrow> \<exists>r'. try_sessions env is ?r = (Refused, r') \<and> ro_counts r' = ro_counts ?r
          \<and> (\<forall>i \<in> set is. \<exists>t. dict_get (ro_down r') i = Some t)"
      by (simp add: session_failed_def)
    show ?thesis
    proof (cases "find works is")
      case None
      with kept [of ?r i _ "is"] Cons.prems have "\<exists>t. dict_get (ro_down (snd (try_sessions env is ?r))) i = Some t"
        by (simp add: session_failed_def)
      with None IH False show ?thesis unfolding step by (auto simp: session_failed_def simp del: try_sessions.simps)
    next
      case (Some j)
      with IH False show ?thesis unfolding step by (auto simp: session_failed_def simp del: try_sessions.simps)
    qed
  qed
qed simp

lemma router_finds_parts:
  assumes "client_request ntop segs = Inr q" "ro_upstreams r \<noteq> []" "steady env (ro_upstreams r) works"
  shows "i < length (ro_upstreams r) \<Longrightarrow> works i \<Longrightarrow>
      \<exists>j reply r'. serve ntop env segs r = (Piped j reply, r') \<and> works j \<and> j < length (ro_upstreams r)
        \<and> ro_counts r' = bump j (ro_counts r) \<and> dict_get (ro_down r') j = None
        \<and> (let own = sticky_index (snd q) (length (ro_upstreams r))
            in works own \<and> session_up r (re_now env (ro_calls r)) own \<longrightarrow> j = own)"
    and "\<forall>i < length (ro_upstreams r). \<not> works i \<Longrightarrow>
      \<exists>r'. serve ntop env segs r = (Refused, r') \<and> (\<forall>i < length (ro_upstreams r). dict_get (ro_down r') i \<noteq> None)"
proof -
  let ?now = "re_now env (ro_calls r)" and ?n = "length (ro_upstreams r)"
  let ?r = "r\<lparr>ro_calls := Suc (ro_calls r)\<rparr>"
  let ?is = "order_for r (snd q) ?now"
  have n: "max 1 ?n = ?n" using assms(2) by (cases "ro_upstreams r") auto
  then have "\<forall>i \<in> set ?is. i < length (ro_upstreams ?r)" by (simp add: set_order_for)
  moreover have "steady env (ro_upstreams ?r) works" using assms(3) by simp
  ultimately have t: "case find works ?is of
      Some i \<Rightarrow> \<exists>reply r'. try_sessions env ?is ?r = (Piped i reply, r') \<and> dict_get (ro_down r') i = None
        \<and> ro_counts r' = bump i (ro_counts ?r)
    | None \<Rightarrow> \<exists>r'. try_sessions env ?is ?r = (Refused, r') \<and> ro_counts r' = ro_counts ?r
        \<and> (\<forall>i \<in> set ?is. \<exists>t. dict_get (ro_down r') i = Some t)"
    using try_sessions_find [of env ?r works ?is] by blast
  have walk: "find works ?is = sessions.walk works (r, snd q, ?now)" by (simp add: sessions.walk_def)
  have serve: "serve ntop env segs r = try_sessions env ?is ?r" by (simp add: serve_def assms(1))
  show "\<exists>j reply r'. serve ntop env segs r = (Piped j reply, r') \<and> works j \<and> j < ?n
        \<and> ro_counts r' = bump j (ro_counts r) \<and> dict_get (ro_down r') j = None
        \<and> (let own = sticky_index (snd q) ?n in works own \<and> session_up r ?now own \<longrightarrow> j = own)"
    if "i < ?n" "works i"
  proof -
    from sessions.walk_complete [of i "(r, snd q, ?now)" works] that n
    obtain j where j: "find works ?is = Some j" unfolding walk by auto
    with sessions.walk_sound [of works "(r, snd q, ?now)" j] n have "works j" "j < ?n" by (auto simp: walk)
    have "j = sticky_index (snd q) ?n"
      if w: "works (sticky_index (snd q) ?n)" and up: "session_up r ?now (sticky_index (snd q) ?n)"
    proof -
      have "?is \<noteq> []" using set_order_for [of r "snd q" ?now] by auto
      then obtain rest where "?is = sticky_index (snd q) ?n # rest"
        using order_for_sticky_first [OF up] by (metis list.collapse)
      with j w show ?thesis by simp
    qed
    with j t \<open>works j\<close> \<open>j < ?n\<close> show ?thesis by (simp add: serve Let_def) blast
  qed
  show "\<exists>r'. serve ntop env segs r = (Refused, r') \<and> (\<forall>i < ?n. dict_get (ro_down r') i \<noteq> None)"
    if "\<forall>i < ?n. \<not> works i"
  proof -
    have "find works ?is = None" unfolding find_None_iff set_order_for n using that by auto
    with t show ?thesis using n by (auto simp: serve set_order_for)
  qed
qed


lemma client_request_spec:
  assumes "[] \<notin> set segs" "concat segs = [5, word_of_nat (length ms)] @ ms @ socks_request cmd d port @ rest"
    and "length ms \<le> 255" "dest_ok d" "length port = 2"
  shows "client_request ntop segs = Inr (socks_request cmd d port, dest_host ntop d)"
proof -
  let ?n = "word_of_nat (length ms) :: u8"
  have n: "unat ?n = length ms" using assms(3) by (simp add: unat_of_nat)
  obtain s1 where s1: "recv_exact 2 segs = Inr ([5, ?n], s1)" "concat s1 = ms @ socks_request cmd d port @ rest" "[] \<notin> set s1"
    by (rule recv_exact_take [OF assms(1,2), of 2]) (simp, blast)
  obtain s2 where s2: "recv_exact (unat ?n) s1 = Inr (ms, s2)" "concat s2 = socks_request cmd d port @ rest" "[] \<notin> set s2"
    by (rule recv_exact_take [OF s1(3,2) n])
  from read_request_spec [OF s2(3,2) assms(4,5), of ntop] s1 s2 show ?thesis by (auto simp: client_request_def)
qed

lemma handshake_ok:
  assumes "[] \<notin> set segs" "concat segs = [5, 0] @ [5, 0, 0, 1] @ a" "length a = 6"
  shows "\<exists>s. handshake segs = Inr ([5, 0, 0, 1] @ a, s)"
proof -
  obtain s1 where s1: "recv_exact 2 segs = Inr ([5, 0], s1)" "concat s1 = [5, 0, 0, 1] @ a" "[] \<notin> set s1"
    by (rule recv_exact_take [OF assms(1,2), of 2]) (simp, blast)
  obtain s2 where s2: "recv_exact 4 s1 = Inr ([5, 0, 0, 1], s2)" "concat s2 = a @ []" "[] \<notin> set s2"
    by (rule recv_exact_take [OF s1(3,2), of 4]) (simp, simp)
  obtain s3 where "recv_exact 6 s2 = Inr (a, s3)"
    by (rule recv_exact_take [OF s2(3,2) assms(3) [symmetric]])
  with s1 s2 show ?thesis by (simp add: handshake_def read_reply_def)
qed

text \<open>
  C15: The router always finds a session that works: for a well-formed request, when some session
  takes requests the connection is joined to one that does, to the host's own session whenever
  that one works and is not marked down, and its counter goes up by one; when none works the
  client is refused and every session is marked down.
\<close>

theorem router_finds_a_session:
  assumes "client_request ntop segs = Inr q" "ro_upstreams r \<noteq> []" "steady env (ro_upstreams r) works"
  shows "if \<exists>i < length (ro_upstreams r). works i
     then \<exists>j reply r'. serve ntop env segs r = (Piped j reply, r') \<and> works j \<and> j < length (ro_upstreams r)
        \<and> ro_counts r' = bump j (ro_counts r) \<and> dict_get (ro_down r') j = None
        \<and> (let own = sticky_index (snd q) (length (ro_upstreams r))
            in works own \<and> session_up r (re_now env (ro_calls r)) own \<longrightarrow> j = own)
     else \<exists>r'. serve ntop env segs r = (Refused, r') \<and> (\<forall>i < length (ro_upstreams r). dict_get (ro_down r') i \<noteq> None)"
proof (cases "\<exists>i < length (ro_upstreams r). works i")
  case True
  with router_finds_parts(1) [OF assms] show ?thesis by auto
next
  case False
  with router_finds_parts(2) [OF assms] show ?thesis by auto
qed

theorem router_finds_a_session_witness:
  fixes env :: router_env
  defines "env \<equiv> \<lparr>re_now = (\<lambda>_. 0), re_dial = (\<lambda>_ p. if p = 1830 then Inr [[5, 0], [5, 0, 0, 1], [127, 0, 0, 1, 0, 80]] else Inl OSError)\<rparr>"
  shows "\<exists>reply r'. serve (\<lambda>_. []) env [[5, 1, 0], [5, 1, 0, 1, 1, 2, 3, 4, 0, 80]] (new_router [1820, 1830]) = (Piped 1 reply, r')
     \<and> ro_counts r' = [0, 1]"
proof -
  let ?r = "new_router [1820, 1830]" and ?segs = "[[5, 1, 0], [5, 1, 0, 1, 1, 2, 3, 4, 0, 80]] :: bytes list"
  have q: "client_request (\<lambda>_. []) ?segs = Inr (socks_request 1 (Ip4 [1, 2, 3, 4]) [0, 80], dest_host (\<lambda>_. []) (Ip4 [1, 2, 3, 4]))"
    by (rule client_request_spec [where ms = "[0]" and rest = "[]"]) (simp_all add: socks_request_def)
  have h: "\<exists>s. handshake [[5, 0], [5, 0, 0, 1], [127, 0, 0, 1, 0, 80]] = Inr ([5, 0, 0, 1] @ [127, 0, 0, 1, 0, 80], s)"
    by (rule handshake_ok) simp_all
  have st: "steady env (ro_upstreams ?r) (\<lambda>i. i = 1)"
    using h by (auto simp: steady_def env_def new_router_def os_error_def less_Suc_eq numeral_2_eq_2)
  from router_finds_a_session [OF q _ st] show ?thesis
    by (auto simp: new_router_def bump_def)
qed

end
