(* ===== verification/Windows_Proxy.thy ===== *)
theory Windows_Proxy
  imports Proxy_Ports Py_Float
begin

text \<open>
  The system proxy of Windows as the engine overrides it: class \<open>WindowsProxy\<close> of \<open>engine.py\<close>.
  A snapshot of the user's three registry values is written to a restore file before the first
  change and is removed after every value has been put back. Every access to the registry or to
  the file is one system call; a call succeeds, raises, or is the one during which the process
  dies, as the state's list of outcomes says. What a dead process held in memory is lost, the
  registry and the file stay as the last completed call left them.

  The restore file holds a JSON value or cannot be read; its text form is not modelled. The lock
  file is one call that may time out, \<open>_refresh\<close> changes nothing, log lines are left out. What the
  operating system says of processes is an argument.
\<close>

section \<open>System calls\<close>

datatype reg_value = RVal json | RRaw bytes \<comment> \<open>binary data has no JSON form\<close>

type_synonym reg_entry = "reg_value \<times> int"

datatype restore_file = Unreadable | Doc json

datatype outcome = Fine | Fails py_error | Dies

datatype stop = Raised py_error | Dead

record world =
  registry :: "string \<Rightarrow> reg_entry option"
  restore :: "restore_file option"
  outcomes :: "outcome list" \<comment> \<open>of the next calls that write or open; the others succeed\<close>
  read_fails :: "bool list" \<comment> \<open>whether the next reads of the restore file raise \<open>OSError\<close>\<close>
  self_previous :: obj
  self_token :: string

type_synonym 'a act = "world \<Rightarrow> (stop + 'a) \<times> world"

definition give :: "'a \<Rightarrow> 'a act" where
  "give a w = (Inr a, w)"

definition throw :: "py_error \<Rightarrow> 'a act" where
  "throw e w = (Inl (Raised e), w)"

definition seq :: "'a act \<Rightarrow> ('a \<Rightarrow> 'b act) \<Rightarrow> 'b act" where
  "seq m f w = (case m w of (Inl e, w') \<Rightarrow> (Inl e, w') | (Inr a, w') \<Rightarrow> f a w')"

definition pure :: "'a res \<Rightarrow> 'a act" where
  "pure r = (case r of Inl e \<Rightarrow> throw e | Inr a \<Rightarrow> give a)"

definition handle :: "'a act \<Rightarrow> (py_error \<Rightarrow> 'a act) \<Rightarrow> 'a act" where
  \<comment> \<open>\<open>try: m except e: h\<close>; a dead process runs no handler\<close>
  "handle m h w = (case m w of (Inl (Raised e), w') \<Rightarrow> h e w' | r \<Rightarrow> r)"

definition call :: "(world \<Rightarrow> world) \<Rightarrow> unit act" where
  "call f w = (case outcomes w of
     [] \<Rightarrow> (Inr (), f w)
   | Fine # fs \<Rightarrow> (Inr (), f (w\<lparr>outcomes := fs\<rparr>))
   | Fails e # fs \<Rightarrow> (Inl (Raised e), w\<lparr>outcomes := fs\<rparr>)
   | Dies # fs \<Rightarrow> (Inl Dead, w\<lparr>outcomes := fs\<rparr>))"

definition read_restore :: "restore_file option act" where
  \<comment> \<open>a file that cannot be read is the same as one that is no JSON\<close>
  "read_restore w =
     (case restore w of None \<Rightarrow> (Inr None, w)
      | Some f \<Rightarrow> (case read_fails w of
          [] \<Rightarrow> (Inr (Some f), w)
        | b # bs \<Rightarrow> (Inr (Some (if b then Unreadable else f)), w\<lparr>read_fails := bs\<rparr>)))"

definition get_self :: "(obj \<times> string) act" where
  "get_self w = (Inr (self_previous w, self_token w), w)"

definition set_self :: "obj \<Rightarrow> string \<Rightarrow> unit act" where
  "set_self prev tok w = (Inr (), w\<lparr>self_previous := prev, self_token := tok\<rparr>)"

definition with_object :: "obj \<Rightarrow> string \<Rightarrow> 'a act \<Rightarrow> 'a act" where
  \<comment> \<open>runs a method of another object\<close>
  "with_object prev tok m w =
     (let r = m (w\<lparr>self_previous := prev, self_token := tok\<rparr>)
      in (fst r, (snd r)\<lparr>self_previous := self_previous w, self_token := self_token w\<rparr>))"

definition guarded :: "'a act \<Rightarrow> 'a act" where
  \<comment> \<open>\<open>with _proxy_state_guard()\<close>\<close>
  "guarded m = seq (call id) (\<lambda>_. m)"

section \<open>The registry\<close>

definition NAMES :: "string list" where
  "NAMES = [''ProxyEnable'', ''ProxyServer'', ''ProxyOverride'']"

definition REG_SZ :: int where "REG_SZ = 1"
definition REG_EXPAND_SZ :: int where "REG_EXPAND_SZ = 2"
definition REG_DWORD :: int where "REG_DWORD = 4"
definition REG_QWORD :: int where "REG_QWORD = 11"

definition reg_number :: "nat \<Rightarrow> json \<Rightarrow> json res" where
  "reg_number bits v = (case v of
     JNull \<Rightarrow> Inr (JInt 0)
   | JBool b \<Rightarrow> Inr (JInt (if b then 1 else 0))
   | JInt i \<Rightarrow> if 0 \<le> i \<and> i < 2 ^ bits then Inr (JInt i) else Inl OverflowError
   | _ \<Rightarrow> Inl ValueError)"

definition reg_convert :: "int \<Rightarrow> json \<Rightarrow> json res" where
  \<comment> \<open>what \<open>winreg.SetValueEx\<close> stores for a type and a value, as a later read returns it\<close>
  "reg_convert ty v =
     (if ty < 0 then Inl ValueError else if ty \<ge> 2 ^ 32 then Inl OverflowError
      else if ty = REG_DWORD then reg_number 32 v
      else if ty = REG_QWORD then reg_number 64 v
      else if ty = REG_SZ \<or> ty = REG_EXPAND_SZ then
        (case v of JNull \<Rightarrow> Inr (JStr []) | JStr s \<Rightarrow> Inr (JStr (takeWhile (\<lambda>c. c \<noteq> CHR 0x00) s))
         | _ \<Rightarrow> Inl ValueError)
      else (if v = JNull then Inr JNull else Inl TypeError))"

definition set_value :: "string \<Rightarrow> int \<Rightarrow> json \<Rightarrow> unit act" where
  "set_value name ty v = seq (pure (reg_convert ty v))
     (\<lambda>v'. call (\<lambda>w. w\<lparr>registry := (registry w)(name \<mapsto> (RVal v', ty))\<rparr>))"

definition delete_value :: "string \<Rightarrow> unit act" where
  \<comment> \<open>an absent value is no error\<close>
  "delete_value name = call (\<lambda>w. w\<lparr>registry := (registry w)(name := None)\<rparr>)"

definition entry_json :: "reg_entry option \<Rightarrow> json option" where
  "entry_json e = (case e of
     None \<Rightarrow> Some (JObj [(''exists'', JBool False)])
   | Some (RVal v, ty) \<Rightarrow> Some (JObj [(''exists'', JBool True), (''value'', v), (''type'', JInt ty)])
   | Some (RRaw _, _) \<Rightarrow> None)"

definition read_entry :: "string \<Rightarrow> reg_entry option act" where
  "read_entry name = seq (call id) (\<lambda>_. \<lambda>w. (Inr (registry w name), w))"

fun read_entries :: "string list \<Rightarrow> (string \<times> reg_entry option) list act" where
  "read_entries [] = give []"
| "read_entries (n # ns) = seq (read_entry n) (\<lambda>e. seq (read_entries ns) (\<lambda>es. give ((n, e) # es)))"

fun entries_json :: "(string \<times> reg_entry option) list \<Rightarrow> (string \<times> json) list option" where
  \<comment> \<open>\<open>None\<close>: \<open>json.dumps\<close> raises \<open>TypeError\<close>\<close>
  "entries_json [] = Some []"
| "entries_json ((n, e) # es) = (case (entry_json e, entries_json es) of
     (Some j, Some js) \<Rightarrow> Some ((n, j) # js) | _ \<Rightarrow> None)"

definition STATE_VERSION :: int where "STATE_VERSION = 2"
definition SOCKS_PORT :: int where "SOCKS_PORT = 20808"
definition HTTP_PORT :: int where "HTTP_PORT = 20809"

section \<open>The restore file\<close>

definition default_type :: "string \<Rightarrow> int" where
  "default_type name = (if name = ''ProxyEnable'' then REG_DWORD else REG_SZ)"

definition absent :: json where
  "absent = JObj [(''exists'', JBool False)]"

definition present :: "json \<Rightarrow> int \<Rightarrow> json" where
  "present v ty = JObj [(''exists'', JBool True), (''value'', v), (''type'', JInt ty)]"

definition norm_entry :: "string \<Rightarrow> json \<Rightarrow> json option res" where
  "norm_entry name entry = (case entry of
     JObj d \<Rightarrow>
       if \<not> truthy (dict_get_or d ''exists'' (JBool False)) then Inr (Some absent)
       else rbind (int_value (dict_get_or d ''type'' (JInt (default_type name)))) (\<lambda>n.
         Inr (Some (present (dict_get_or d ''value'' JNull)
           (case n of Some ty \<Rightarrow> ty | None \<Rightarrow> default_type name))))
   | _ \<Rightarrow> Inr None)"

fun norm_values :: "string list \<Rightarrow> obj \<Rightarrow> obj res" where
  "norm_values [] raw = Inr []"
| "norm_values (n # ns) raw =
     rbind (norm_entry n (dict_get_or raw n JNull)) (\<lambda>e.
     rbind (norm_values ns raw) (\<lambda>es.
     Inr (case e of None \<Rightarrow> es | Some j \<Rightarrow> (n, j) # es)))"

definition legacy_values :: "obj \<Rightarrow> obj" where
  \<comment> \<open>the flat file of versions up to 1.4\<close>
  "legacy_values raw = concat (map (\<lambda>n. case dict_get raw n of
     None \<Rightarrow> []
   | Some v \<Rightarrow> [(n, if v = JNull then absent else present v (default_type n))]) NAMES)"

definition with_enable :: "obj \<Rightarrow> obj" where
  "with_enable values =
     (if dict_get values ''ProxyEnable'' = None
      then values @ [(''ProxyEnable'', present (JInt 0) REG_DWORD)] else values)"

definition make_state :: "int \<Rightarrow> obj \<Rightarrow> obj \<Rightarrow> obj" where
  "make_state version owner values =
     [(''version'', JInt version), (''owner'', JObj owner), (''values'', JObj values)]"

definition state_version :: "json \<Rightarrow> int res" where
  "state_version raw = (case raw of
     JObj d \<Rightarrow> rbind (int_value (or_else (dict_get_or d ''version'' (JInt 0)) (JInt 0)))
       (\<lambda>n. Inr (case n of Some v \<Rightarrow> v | None \<Rightarrow> 0))
   | _ \<Rightarrow> Inr 0)"

definition normalize_state :: "json \<Rightarrow> obj res" where
  "normalize_state raw =
     rbind (state_version raw) (\<lambda>version.
     (case raw of
        JObj d \<Rightarrow>
          if version \<ge> 2
          then rbind (norm_values NAMES (dict_of (dict_get_or d ''values'' (JObj [])))) (\<lambda>values.
            Inr (make_state STATE_VERSION (dict_of (dict_get_or d ''owner'' (JObj []))) (with_enable values)))
          else Inr (make_state 1 [] (with_enable (legacy_values d)))
      | _ \<Rightarrow> Inr (make_state 1 [] (with_enable []))))"

definition corrupt :: "obj \<Rightarrow> bool" where
  "corrupt st = truthy (dict_get_or st ''_corrupt'' JNull)"

definition load_state :: "obj option act" where
  "load_state = seq read_restore (\<lambda>f. case f of
     None \<Rightarrow> give None
   | Some Unreadable \<Rightarrow> seq (pure (normalize_state (JObj [])))
       (\<lambda>st. give (Some (st @ [(''_corrupt'', JBool True)])))
   | Some (Doc j) \<Rightarrow> seq (pure (normalize_state j)) (\<lambda>st. give (Some st)))"

definition write_state :: "obj option \<Rightarrow> unit act" where
  \<comment> \<open>the directory, the temporary file, and its renaming; \<open>None\<close> has no JSON text\<close>
  "write_state st = seq (call id) (\<lambda>_. case st of
     None \<Rightarrow> throw TypeError
   | Some d \<Rightarrow> seq (call id) (\<lambda>_. call (\<lambda>w. w\<lparr>restore := Some (Doc (JObj d))\<rparr>)))"

definition owner_of :: "obj \<Rightarrow> obj" where
  "owner_of st = dict_of (dict_get_or st ''owner'' (JObj []))"

definition values_of :: "obj \<Rightarrow> obj" where
  "values_of st = dict_of (dict_get_or st ''values'' (JObj []))"

definition token_of :: "obj \<Rightarrow> string" where
  "token_of owner = py_str (dict_get_or owner ''token'' (JStr []))"

section \<open>Whose snapshot it is\<close>

datatype process_state = Gone | Denied | BadPid | Stopped | Alive rat

record surroundings =
  my_pid :: int
  my_created :: "rat option" \<comment> \<open>\<open>None\<close>: the operating system does not say\<close>
  process_query :: "int \<Rightarrow> process_state"
  other_instance :: bool \<comment> \<open>\<open>_other_app_instance_alive()\<close>\<close>
  fresh_token :: string \<comment> \<open>\<open>uuid.uuid4().hex\<close>\<close>

definition process_identity :: "surroundings \<Rightarrow> string \<Rightarrow> obj res" where
  "process_identity env token = (case my_created env of
     None \<Rightarrow> Inl RuntimeError
   | Some t \<Rightarrow> Inr ([(''pid'', JInt (my_pid env)), (''create_time'', JNum t)]
       @ (if token = [] then [] else [(''token'', JStr token)])))"

definition near :: "rat \<Rightarrow> pyfloat \<Rightarrow> bool" where
  \<comment> \<open>\<open>abs(x - t) < 0.01\<close>\<close>
  "near t x = (case x of Fin r \<Rightarrow> \<bar>r - t\<bar> < 1 / 100 | _ \<Rightarrow> False)"

definition or_false :: "bool res \<Rightarrow> bool res" where
  \<comment> \<open>\<open>except (TypeError, ValueError): return False\<close>\<close>
  "or_false r = (case r of Inl e \<Rightarrow> if e = TypeError \<or> e = ValueError then Inr False else Inl e | _ \<Rightarrow> r)"

definition owner_matches :: "obj \<Rightarrow> int \<Rightarrow> rat \<Rightarrow> string option \<Rightarrow> bool res" where
  "owner_matches owner pid created token =
     rbind (or_false (rbind (py_int_of (dict_get_or owner ''pid'' (JInt (- 1)))) (\<lambda>p.
       if p \<noteq> pid then Inr False
       else rbind (py_float_of (dict_get_or owner ''create_time'' (JInt (- 1)))) (\<lambda>t. Inr (near created t)))))
     (\<lambda>same. Inr (same \<and> (case token of None \<Rightarrow> True | Some t \<Rightarrow> token_of owner = t)))"

definition owner_is_alive :: "surroundings \<Rightarrow> obj \<Rightarrow> bool res" where
  "owner_is_alive env owner =
     or_false (rbind (py_int_of (dict_get_or owner ''pid'' (JInt (- 1)))) (\<lambda>p.
       case process_query env p of
         Gone \<Rightarrow> Inr False | Denied \<Rightarrow> Inr True | BadPid \<Rightarrow> Inl ValueError | Stopped \<Rightarrow> Inr False
       | Alive t \<Rightarrow> rbind (py_float_of (dict_get_or owner ''create_time'' (JInt (- 1)))) (\<lambda>c. Inr (near t c))))"

definition owned_by_me :: "surroundings \<Rightarrow> obj \<Rightarrow> bool res" where
  "owned_by_me env owner = (case my_created env of
     None \<Rightarrow> Inl RuntimeError
   | Some t \<Rightarrow> owner_matches owner (my_pid env) t None)"

section \<open>Taking the values back\<close>

definition restore_entry :: "string \<Rightarrow> obj \<Rightarrow> unit act" where
  "restore_entry name values = (case dict_get values name of
     Some (JObj d) \<Rightarrow>
       if truthy (dict_get_or d ''exists'' (JBool False))
       then seq (pure (py_int_of (dict_get_or d ''type'' (JInt (default_type name)))))
         (\<lambda>ty. set_value name ty (dict_get_or d ''value'' JNull))
       else delete_value name
   | _ \<Rightarrow> give ())"

definition restore_values :: "obj \<Rightarrow> unit act" where
  "restore_values values =
     seq (call id) (\<lambda>_. seq (set_value ''ProxyEnable'' REG_DWORD (JInt 0)) (\<lambda>_.
     seq (restore_entry ''ProxyServer'' values) (\<lambda>_.
     seq (restore_entry ''ProxyOverride'' values) (\<lambda>_.
     restore_entry ''ProxyEnable'' values))))"

definition may_restore :: "surroundings \<Rightarrow> obj option \<Rightarrow> string \<Rightarrow> bool act" where
  "may_restore env st token = (case st of
     None \<Rightarrow> give True
   | Some d \<Rightarrow>
       if token \<noteq> [] then give (token_of (owner_of d) = token)
       else if owner_of d = [] then give True
       else pure (owned_by_me env (owner_of d)))"

definition finish_restore :: "obj \<Rightarrow> unit act" where
  \<comment> \<open>the file goes unless another snapshot has taken its place\<close>
  "finish_restore st = seq load_state (\<lambda>latest.
     let token = token_of (owner_of st);
         latest_token = (case latest of None \<Rightarrow> [] | Some d \<Rightarrow> token_of (owner_of d))
     in seq (if (case latest of None \<Rightarrow> True | Some d \<Rightarrow> corrupt d) \<or> token = [] \<or> latest_token = token
             then call (\<lambda>w. w\<lparr>restore := None\<rparr>) else give ())
       (\<lambda>_. set_self [] []))"

definition disable_locked :: "surroundings \<Rightarrow> bool act" where
  "disable_locked env =
     seq load_state (\<lambda>disk. seq get_self (\<lambda>(prev, token).
     let exact = (prev \<noteq> [] \<and> \<not> corrupt prev);
         from_memory = ((case disk of None \<Rightarrow> False | Some d \<Rightarrow> corrupt d) \<and> exact);
         state = (if from_memory then Some prev
                  else case disk of Some d \<Rightarrow> Some d | None \<Rightarrow> if prev \<noteq> [] then Some prev else None)
     in seq (may_restore env (if from_memory then None else disk) token) (\<lambda>allowed.
       if \<not> allowed then give False
       else case state of
         None \<Rightarrow> give False
       | Some st \<Rightarrow> seq (restore_values (values_of st)) (\<lambda>_.
           seq (finish_restore st) (\<lambda>_. give True)))))"

definition disable :: "surroundings \<Rightarrow> bool act" where
  "disable env = guarded (disable_locked env)"

text \<open>Recovering after a crash: \<open>recover_begin\<close> decides and makes the helper object, whose \<open>disable\<close> follows.\<close>

record demanded_owner =
  want_pid :: "int option"
  want_created :: "rat option"
  want_token :: "string option"

definition anyone :: demanded_owner where
  "anyone = \<lparr>want_pid = None, want_created = None, want_token = None\<rparr>"

definition recovery_allowed :: "surroundings \<Rightarrow> demanded_owner \<Rightarrow> obj \<Rightarrow> bool res" where
  "recovery_allowed env want owner =
     (if want \<noteq> anyone then
        (case (want_pid want, want_created want) of
           (Some p, Some t) \<Rightarrow> owner_matches owner p t (want_token want)
         | _ \<Rightarrow> Inr False)
      else if owner \<noteq> [] then rbind (owner_is_alive env owner) (\<lambda>alive. Inr (\<not> alive))
      else Inr (\<not> other_instance env))"

definition recover_begin :: "surroundings \<Rightarrow> demanded_owner \<Rightarrow> (obj \<times> string) option act" where
  "recover_begin env want = seq load_state (\<lambda>st. case st of
     None \<Rightarrow> give None
   | Some d \<Rightarrow> seq (pure (recovery_allowed env want (owner_of d))) (\<lambda>ok.
       give (if ok then Some (d, token_of (owner_of d)) else None)))"

definition recover_with :: "bool act \<Rightarrow> surroundings \<Rightarrow> demanded_owner \<Rightarrow> bool act" where
  "recover_with m env want = seq (recover_begin env want) (\<lambda>helper. case helper of
     None \<Rightarrow> give False
   | Some (prev, token) \<Rightarrow> with_object prev token m)"

definition recover_stale :: "surroundings \<Rightarrow> demanded_owner \<Rightarrow> bool act" where
  \<comment> \<open>the lock is taken by \<open>helper.disable()\<close>, unless the caller holds it already\<close>
  "recover_stale env want = recover_with (disable env) env want"

section \<open>Taking the proxy over\<close>

definition server_text :: "int \<Rightarrow> int \<Rightarrow> string" where
  "server_text socks http = ''http=127.0.0.1:'' @ int_str http @ '';https=127.0.0.1:'' @ int_str http
     @ '';socks=127.0.0.1:'' @ int_str socks"

definition write_app_values :: "string \<Rightarrow> bool \<Rightarrow> int \<Rightarrow> int \<Rightarrow> unit act" where
  "write_app_values bypass enabled socks http =
     seq (call id) (\<lambda>_. seq (set_value ''ProxyEnable'' REG_DWORD (JInt 0)) (\<lambda>_.
     seq (set_value ''ProxyServer'' REG_SZ (JStr (server_text socks http))) (\<lambda>_.
     seq (set_value ''ProxyOverride'' REG_SZ (JStr bypass)) (\<lambda>_.
     if enabled then set_value ''ProxyEnable'' REG_DWORD (JInt 1) else give ()))))"

definition resolved_ports :: "json \<Rightarrow> json \<Rightarrow> (int \<times> int) res" where
  "resolved_ports socks http =
     (case rbind (py_int_of (if socks = JNull then JInt SOCKS_PORT else socks)) (\<lambda>s.
           rbind (py_int_of (if http = JNull then JInt HTTP_PORT else http)) (\<lambda>h. Inr (s, h))) of
        Inr ports \<Rightarrow> Inr ports
      | Inl e \<Rightarrow> if e = TypeError \<or> e = ValueError then Inr (SOCKS_PORT, HTTP_PORT) else Inl e)"

definition make_room_for_snapshot :: "surroundings \<Rightarrow> unit act" where
  "make_room_for_snapshot env = seq load_state (\<lambda>existing. case existing of
     None \<Rightarrow> give ()
   | Some d \<Rightarrow> seq (if owner_of d = [] then give False else pure (owner_is_alive env (owner_of d))) (\<lambda>alive.
       if alive then throw RuntimeError
       else seq (recover_with (disable_locked env) env anyone) (\<lambda>ok. if ok then give () else throw RuntimeError)))"

definition take_snapshot :: "surroundings \<Rightarrow> unit act" where
  "take_snapshot env =
     seq (pure (process_identity env (fresh_token env))) (\<lambda>owner.
     seq (read_entries NAMES) (\<lambda>es.
     let st = map_option (make_state STATE_VERSION owner) (entries_json es)
     in seq (write_state st) (\<lambda>_. set_self (the st) (fresh_token env))))"

definition enable_locked :: "surroundings \<Rightarrow> string \<Rightarrow> bool \<Rightarrow> int \<Rightarrow> int \<Rightarrow> unit act" where
  "enable_locked env bypass enabled socks http =
     seq (make_room_for_snapshot env) (\<lambda>_. seq (take_snapshot env) (\<lambda>_.
     handle (write_app_values bypass enabled socks http)
       (\<lambda>e. seq (handle (seq (disable_locked env) (\<lambda>_. give ())) (\<lambda>_. give ())) (\<lambda>_. throw e))))"

definition owned_pending_state :: "surroundings \<Rightarrow> obj option act" where
  "owned_pending_state env = seq load_state (\<lambda>disk. seq get_self (\<lambda>(prev, token).
     case (if (case disk of None \<Rightarrow> False | Some d \<Rightarrow> corrupt d) \<and> prev \<noteq> [] then Some prev else disk) of
       None \<Rightarrow> give None
     | Some st \<Rightarrow> seq (pure (owned_by_me env (owner_of st))) (\<lambda>mine.
         let disk_token = token_of (owner_of st)
         in if \<not> mine \<or> (token \<noteq> [] \<and> disk_token \<noteq> token) then give None
            else seq (set_self st disk_token) (\<lambda>_. give (Some st)))))"

definition app_override :: "surroundings \<Rightarrow> string \<Rightarrow> bool \<Rightarrow> int \<Rightarrow> int \<Rightarrow> unit act" where
  \<comment> \<open>\<open>resume\<close> and \<open>suspend_for_tun\<close>\<close>
  "app_override env bypass enabled socks http = guarded (seq (owned_pending_state env) (\<lambda>st.
     case st of None \<Rightarrow> enable_locked env bypass enabled socks http
     | Some _ \<Rightarrow> write_app_values bypass enabled socks http))"

datatype proxy_op =
    Enable string json json | Resume string json json | SuspendForTun string json json
  | Suspend | Disable

definition with_ports :: "json \<Rightarrow> json \<Rightarrow> (int \<Rightarrow> int \<Rightarrow> unit act) \<Rightarrow> bool act" where
  "with_ports socks http m = seq (pure (resolved_ports socks http)) (\<lambda>(s, h). seq (m s h) (\<lambda>_. give True))"

fun run_op :: "surroundings \<Rightarrow> proxy_op \<Rightarrow> bool act" where
  "run_op env (Enable bypass s h) = with_ports s h (\<lambda>s h. guarded (enable_locked env bypass True s h))"
| "run_op env (Resume bypass s h) = with_ports s h (app_override env bypass True)"
| "run_op env (SuspendForTun bypass s h) = with_ports s h (app_override env bypass False)"
| "run_op env Suspend = guarded (seq (owned_pending_state env) (\<lambda>st.
     case st of None \<Rightarrow> give False
     | Some _ \<Rightarrow> seq (call id) (\<lambda>_. seq (set_value ''ProxyEnable'' REG_DWORD (JInt 0)) (\<lambda>_. give True))))"
| "run_op env Disable = disable env"

section \<open>Every process, every crash\<close>

text \<open>
  The system: the user's settings, the registry, the restore file, and the memory of the live
  objects of all processes. An operation runs under the lock and so as one step, with any
  outcomes of its calls; an object whose process dies in it is gone. A recovery is two steps: the
  decision, taken outside the lock, leaves a helper object, whose \<open>disable\<close> is an operation like any
  other and may come after those of other processes. The user may edit the registry at any time; an
  edit made while an override is pending is not the user's setting.

  Two things are left out, because the code loses the settings then: an object that restores from
  memory when there is no restore file (\<open>stale_memory_overrides_user\<close>), and a restore file that is there
  and cannot be read (\<open>unreadable_file_loses_settings\<close>).
\<close>

record proxy_system =
  user :: "string \<Rightarrow> reg_entry option"
  sys_registry :: "string \<Rightarrow> reg_entry option"
  sys_restore :: "restore_file option"
  objects :: "(obj \<times> string) list"

definition reg_typed :: "(string \<Rightarrow> reg_entry option) \<Rightarrow> bool" where
  \<comment> \<open>what reading returns, writing stores\<close>
  "reg_typed r \<longleftrightarrow> list_all (\<lambda>n. case r n of Some (RVal v, ty) \<Rightarrow> reg_convert ty v = Inr v | _ \<Rightarrow> True) NAMES"

definition world_of :: "proxy_system \<Rightarrow> outcome list \<Rightarrow> obj \<times> string \<Rightarrow> world" where
  "world_of s fs ob = \<lparr>registry = sys_registry s, restore = sys_restore s, outcomes = fs, read_fails = [],
     self_previous = fst ob, self_token = snd ob\<rparr>"

definition after_op :: "nat \<Rightarrow> (stop + 'a) \<times> world \<Rightarrow> proxy_system \<Rightarrow> proxy_system" where
  "after_op i r s = s\<lparr>sys_registry := registry (snd r), sys_restore := restore (snd r),
     objects := (case fst r of
       Inl Dead \<Rightarrow> take i (objects s) @ drop (Suc i) (objects s)
     | _ \<Rightarrow> (objects s)[i := (self_previous (snd r), self_token (snd r))])\<rparr>"

inductive proxy_reachable :: "proxy_system \<Rightarrow> bool" where
  start: "reg_typed r \<Longrightarrow>
     proxy_reachable \<lparr>user = r, sys_registry = r, sys_restore = None, objects = []\<rparr>"
| new_object: "proxy_reachable s \<Longrightarrow> proxy_reachable (s\<lparr>objects := objects s @ [([], [])]\<rparr>)"
| edit: "proxy_reachable s \<Longrightarrow> reg_typed r \<Longrightarrow>
     proxy_reachable (s\<lparr>sys_registry := r, user := if sys_restore s = None then r else user s\<rparr>)"
| operation: "proxy_reachable s \<Longrightarrow> i < length (objects s) \<Longrightarrow> fresh_token env \<noteq> [] \<Longrightarrow>
     (op = Disable \<Longrightarrow> sys_restore s \<noteq> None \<or> fst (objects s ! i) = []) \<Longrightarrow>
     proxy_reachable (after_op i (run_op env op (world_of s fs (objects s ! i))) s)"
| recovery: "proxy_reachable s \<Longrightarrow> recover_begin env want (world_of s fs ([], [])) = (Inr (Some helper), w) \<Longrightarrow>
     proxy_reachable (s\<lparr>objects := objects s @ [helper]\<rparr>)"

lemma recovery_in_two_steps:
  "recover_begin env want w = (Inr (Some (prev, token)), w') \<Longrightarrow>
   recover_stale env want w = with_object prev token (run_op env Disable) w'"
  by (simp add: recover_stale_def recover_with_def seq_def)

section \<open>Reasoning about calls\<close>

definition ends :: "('a \<Rightarrow> world \<Rightarrow> bool) \<Rightarrow> (world \<Rightarrow> bool) \<Rightarrow> (stop + 'a) \<times> world \<Rightarrow> bool" where
  \<comment> \<open>\<open>Q\<close> after a return, \<open>E\<close> after an exception or a death\<close>
  "ends Q E r = (case fst r of Inr a \<Rightarrow> Q a (snd r) | Inl _ \<Rightarrow> E (snd r))"

definition triple :: "(world \<Rightarrow> bool) \<Rightarrow> 'a act \<Rightarrow> ('a \<Rightarrow> world \<Rightarrow> bool) \<Rightarrow> (world \<Rightarrow> bool) \<Rightarrow> bool" where
  "triple P m Q E \<longleftrightarrow> (\<forall>w. P w \<longrightarrow> ends Q E (m w))"

named_theorems triples \<open>rules for the sequence of calls\<close>

lemma ends_simps [simp]: "ends Q E (Inr a, w) = Q a w" "ends Q E (Inl e, w) = E w"
  by (simp_all add: ends_def)

lemma triple_weaken:
  assumes "triple P' m Q' E'" "\<And>w. P w \<Longrightarrow> P' w" "\<And>a w. Q' a w \<Longrightarrow> Q a w" "\<And>w. E' w \<Longrightarrow> E w"
  shows "triple P m Q E"
  unfolding triple_def
proof (intro allI impI)
  fix w assume "P w"
  with assms(1,2) have "ends Q' E' (m w)" by (simp add: triple_def)
  then show "ends Q E (m w)"
    using assms(3,4) by (cases "fst (m w)") (auto simp: ends_def)
qed

lemma triple_seq [triples]:
  assumes "triple P m R E" "\<And>a. triple (R a) (f a) Q E"
  shows "triple P (seq m f) Q E"
  unfolding triple_def
proof (intro allI impI)
  fix w assume "P w"
  with assms(1) have "ends R E (m w)" by (simp add: triple_def)
  moreover obtain r w' where r: "m w = (r, w')" by (cases "m w")
  ultimately show "ends Q E (seq m f w)"
    using assms(2) by (cases r) (auto simp: seq_def triple_def)
qed

lemma triple_give: "(\<And>w. P w \<Longrightarrow> Q a w) \<Longrightarrow> triple P (give a) Q E"
  by (simp add: triple_def give_def)

lemma triple_throw: "(\<And>w. P w \<Longrightarrow> E w) \<Longrightarrow> triple P (throw e) Q E"
  by (simp add: triple_def throw_def)

lemma triple_pure: "(\<And>w. P w \<Longrightarrow> E w) \<Longrightarrow> (\<And>a w. P w \<Longrightarrow> r = Inr a \<Longrightarrow> Q a w) \<Longrightarrow> triple P (pure r) Q E"
  by (cases r) (auto simp: triple_def pure_def throw_def give_def)

lemma triple_call:
  assumes "\<And>w os. P w \<Longrightarrow> E (w\<lparr>outcomes := os\<rparr>)" "\<And>w os. P w \<Longrightarrow> Q () (f (w\<lparr>outcomes := os\<rparr>))"
  shows "triple P (call f) Q E"
  unfolding triple_def
proof (intro allI impI)
  fix w assume P: "P w"
  have "w = w\<lparr>outcomes := outcomes w\<rparr>" by simp
  with assms(2) [OF P, of "outcomes w"] have "Q () (f w)" by simp
  with assms P show "ends Q E (call f w)"
    by (auto simp: call_def split: list.splits outcome.splits)
qed

lemma triple_handle:
  assumes "triple P m Q E'" "\<And>e. triple E' (h e) Q E" "\<And>w. E' w \<Longrightarrow> E w"
  shows "triple P (handle m h) Q E"
  unfolding triple_def
proof (intro allI impI)
  fix w assume "P w"
  with assms(1) have "ends Q E' (m w)" by (simp add: triple_def)
  moreover obtain r w' where r: "m w = (r, w')" by (cases "m w")
  ultimately show "ends Q E (handle m h w)"
    using assms(2,3) by (auto simp: handle_def triple_def split: sum.split stop.split)
qed

lemma triple_if: "(b \<Longrightarrow> triple P m Q E) \<Longrightarrow> (\<not> b \<Longrightarrow> triple P m' Q E) \<Longrightarrow> triple P (if b then m else m') Q E"
  by simp

lemma triple_conj: "(b \<Longrightarrow> triple P m Q E) \<Longrightarrow> triple (\<lambda>w. b \<and> P w) m Q E"
  by (auto simp: triple_def)

section \<open>The snapshot\<close>

definition snapshot_of :: "(string \<Rightarrow> reg_entry option) \<Rightarrow> obj \<Rightarrow> bool" where
  "snapshot_of u d \<longleftrightarrow> (\<exists>pid t tok vs. tok \<noteq> [] \<and> entries_json (map (\<lambda>n. (n, u n)) NAMES) = Some vs
     \<and> d = make_state STATE_VERSION [(''pid'', JInt pid), (''create_time'', JNum t), (''token'', JStr tok)] vs)"

definition agree :: "(string \<Rightarrow> reg_entry option) \<Rightarrow> (string \<Rightarrow> reg_entry option) \<Rightarrow> bool" where
  "agree r u \<longleftrightarrow> (\<forall>n\<in>set NAMES. r n = u n)"

definition pending :: "(string \<Rightarrow> reg_entry option) \<Rightarrow> obj \<Rightarrow> world \<Rightarrow> bool" where
  "pending u d w \<longleftrightarrow> read_fails w = [] \<and> restore w = Some (Doc (JObj d)) \<and> snapshot_of u d"

definition settled :: "(string \<Rightarrow> reg_entry option) \<Rightarrow> world \<Rightarrow> bool" where
  "settled u w \<longleftrightarrow> read_fails w = [] \<and> restore w = None \<and> agree (registry w) u"

definition safe :: "(string \<Rightarrow> reg_entry option) \<Rightarrow> world \<Rightarrow> bool" where
  "safe u w \<longleftrightarrow> settled u w \<or> (\<exists>d. pending u d w)"

lemma safeI: "settled u w \<Longrightarrow> safe u w" "pending u d w \<Longrightarrow> safe u w"
  by (auto simp: safe_def)

lemma state_updates [simp]:
  "pending u d (w\<lparr>outcomes := os\<rparr>) = pending u d w" "pending u d (w\<lparr>registry := r\<rparr>) = pending u d w"
  "pending u d (w\<lparr>self_previous := p, self_token := t\<rparr>) = pending u d w"
  "settled u (w\<lparr>outcomes := os\<rparr>) = settled u w" "safe u (w\<lparr>outcomes := os\<rparr>) = safe u w"
  "settled u (w\<lparr>self_previous := p, self_token := t\<rparr>) = settled u w"
  "safe u (w\<lparr>self_previous := p, self_token := t\<rparr>) = safe u w"
  by (auto simp: pending_def settled_def safe_def)

lemma entries_json_Some:
  assumes "entries_json (map (\<lambda>n. (n, u n)) ns) = Some vs"
  shows "map fst vs = ns" "n \<in> set ns \<Longrightarrow> entry_json (u n) = map_of vs n"
proof -
  have "map fst vs = ns \<and> (\<forall>n\<in>set ns. entry_json (u n) = map_of vs n)"
    using assms
  proof (induction ns arbitrary: vs)
    case (Cons n ns)
    then obtain j js where "entry_json (u n) = Some j" "vs = (n, j) # js"
      and "entries_json (map (\<lambda>n. (n, u n)) ns) = Some js"
      by (auto split: option.splits)
    with Cons.IH [of js] show ?case by fastforce
  qed simp
  then show "map fst vs = ns" "n \<in> set ns \<Longrightarrow> entry_json (u n) = map_of vs n" by auto
qed

lemma norm_entry_json:
  "entry_json e = Some j \<Longrightarrow> norm_entry n j = Inr (Some j)"
  by (auto simp: entry_json_def norm_entry_def absent_def present_def int_value_def dict_get_or_def
      dict_get_def split: option.splits reg_value.splits prod.splits)

lemma norm_values_json:
  assumes "\<And>n. n \<in> set ns \<Longrightarrow> \<exists>j. dict_get raw n = Some j \<and> norm_entry n j = Inr (Some j)"
  shows "norm_values ns raw = Inr (map (\<lambda>n. (n, the (dict_get raw n))) ns)"
  using assms
proof (induction ns)
  case (Cons n ns)
  from Cons.prems [of n] obtain j where "dict_get raw n = Some j" "norm_entry n j = Inr (Some j)" by auto
  moreover have "norm_values ns raw = Inr (map (\<lambda>n. (n, the (dict_get raw n))) ns)"
    using Cons by simp
  ultimately show ?case by (simp add: dict_get_or_def)
qed simp

lemma map_the_map_of:
  assumes "distinct (map fst xs)"
  shows "map (\<lambda>n. (n, the (map_of xs n))) (map fst xs) = xs"
proof (rule nth_equalityI)
  fix i assume "i < length (map (\<lambda>n. (n, the (map_of xs n))) (map fst xs))"
  then have i: "i < length xs" by simp
  then have "(fst (xs ! i), snd (xs ! i)) \<in> set xs" by simp
  then have "map_of xs (fst (xs ! i)) = Some (snd (xs ! i))"
    using assms by (rule map_of_is_SomeI [rotated])
  with i show "map (\<lambda>n. (n, the (map_of xs n))) (map fst xs) ! i = xs ! i" by simp
qed simp

lemma make_state_get [simp]:
  "dict_get_or (make_state v ow vs) ''version'' x = JInt v"
  "dict_get_or (make_state v ow vs) ''owner'' x = JObj ow"
  "dict_get_or (make_state v ow vs) ''values'' x = JObj vs"
  "dict_get_or (make_state v ow vs) ''_corrupt'' x = x"
  "owner_of (make_state v ow vs) = ow" "values_of (make_state v ow vs) = vs"
  by (simp_all add: make_state_def dict_get_or_def dict_get_def owner_of_def values_of_def dict_of_def)

lemma NAMES_distinct: "distinct NAMES"
  by (simp add: NAMES_def)

lemma snapshotE:
  assumes "snapshot_of u d"
  obtains pid t tok vs where "tok \<noteq> []" "map fst vs = NAMES"
    "\<forall>n\<in>set NAMES. dict_get vs n = entry_json (u n) \<and> entry_json (u n) \<noteq> None"
    "d = make_state 2 [(''pid'', JInt pid), (''create_time'', JNum t), (''token'', JStr tok)] vs"
proof -
  from assms obtain pid t tok vs where "tok \<noteq> []"
    and es: "entries_json (map (\<lambda>n. (n, u n)) NAMES) = Some vs"
    and "d = make_state 2 [(''pid'', JInt pid), (''create_time'', JNum t), (''token'', JStr tok)] vs"
    by (auto simp: snapshot_of_def STATE_VERSION_def)
  moreover have "dict_get vs n = entry_json (u n) \<and> entry_json (u n) \<noteq> None" if "n \<in> set NAMES" for n
  proof -
    have "n \<in> fst ` set vs"
      using that by (metis entries_json_Some(1) [OF es] image_set)
    then have "map_of vs n \<noteq> None" by (simp add: map_of_eq_None_iff)
    with entries_json_Some(2) [OF es that] show ?thesis by (simp add: dict_get_def)
  qed
  ultimately show ?thesis
    using that [OF _ entries_json_Some(1) [OF es]] by blast
qed

lemma normalize_snapshot:
  assumes "snapshot_of u d"
  shows "normalize_state (JObj d) = Inr d" "\<not> corrupt d" "token_of (owner_of d) \<noteq> []" "owner_of d \<noteq> []"
proof -
  from assms obtain pid t tok vs where vs: "tok \<noteq> []" "map fst vs = NAMES"
    "\<forall>n\<in>set NAMES. dict_get vs n = entry_json (u n) \<and> entry_json (u n) \<noteq> None"
    and d: "d = make_state 2 [(''pid'', JInt pid), (''create_time'', JNum t), (''token'', JStr tok)] vs"
    by (rule snapshotE) blast
  have "norm_values NAMES vs = Inr (map (\<lambda>n. (n, the (dict_get vs n))) NAMES)"
    using vs(3) norm_entry_json by (intro norm_values_json) fastforce
  also have "map (\<lambda>n. (n, the (dict_get vs n))) NAMES = vs"
    using map_the_map_of [of vs] vs(2) NAMES_distinct by (simp add: dict_get_def)
  finally have "norm_values NAMES vs = Inr vs" .
  moreover have "with_enable vs = vs"
    using vs(3) by (auto simp: with_enable_def NAMES_def)
  ultimately show "normalize_state (JObj d) = Inr d"
    by (simp add: normalize_state_def state_version_def or_else_def int_value_def d dict_of_def STATE_VERSION_def)
  show "\<not> corrupt d" by (simp add: d corrupt_def)
  show "token_of (owner_of d) \<noteq> []" "owner_of d \<noteq> []"
    using vs(1) by (simp_all add: d token_of_def dict_get_or_def dict_get_def)
qed

lemma load_pending: "pending u d w \<Longrightarrow> load_state w = (Inr (Some d), w)"
  by (auto simp: pending_def load_state_def seq_def read_restore_def pure_def give_def
      dest!: normalize_snapshot(1))

lemma load_settled: "settled u w \<Longrightarrow> load_state w = (Inr None, w)"
  by (simp add: settled_def load_state_def seq_def read_restore_def give_def)


section \<open>The operations keep the user's settings recoverable\<close>

lemma triple_set_value:
  assumes "\<And>w. P w \<Longrightarrow> E w" "\<And>w os. P w \<Longrightarrow> E (w\<lparr>outcomes := os\<rparr>)"
    "\<And>w os v'. P w \<Longrightarrow> reg_convert ty v = Inr v' \<Longrightarrow>
       Q () (w\<lparr>outcomes := os, registry := (registry w)(name \<mapsto> (RVal v', ty))\<rparr>)"
  shows "triple P (set_value name ty v) Q E"
  unfolding set_value_def
proof (rule triple_seq)
  show "triple P (pure (reg_convert ty v)) (\<lambda>v' w. P w \<and> reg_convert ty v = Inr v') E"
    using assms(1) by (rule triple_pure) auto
  show "triple (\<lambda>w. P w \<and> reg_convert ty v = Inr v')
      (call (\<lambda>w. w\<lparr>registry := (registry w)(name \<mapsto> (RVal v', ty))\<rparr>)) Q E" for v'
    using assms(2,3) by (intro triple_call) auto
qed

lemma triple_app_values:
  "triple (pending u d) (write_app_values bypass enabled socks http) (\<lambda>_. pending u d) (pending u d)"
  unfolding write_app_values_def
  by (intro triple_seq [where R = "\<lambda>_. pending u d"] triple_call triple_set_value triple_if triple_give) auto

lemma entry_get_simps [simp]:
  "dict_get_or ((k, v) # d) k' x = (if k' = k then v else dict_get_or d k' x)" "dict_get_or [] k x = x"
  by (auto simp: dict_get_or_def dict_get_def)

lemma triple_restore_entry:
  assumes u: "reg_typed u" and n: "name \<in> set NAMES" "name \<in> N"
    and vs: "dict_get vs name = entry_json (u name)" "entry_json (u name) \<noteq> None"
  shows "triple (\<lambda>w. pending u d w \<and> (\<forall>n\<in>N - {name}. registry w n = u n)) (restore_entry name vs)
    (\<lambda>_ w. pending u d w \<and> (\<forall>n\<in>N. registry w n = u n)) (pending u d)"
proof (cases "u name")
  case None
  then show ?thesis
    using vs by (auto simp: restore_entry_def entry_json_def delete_value_def intro!: triple_call)
next
  case (Some e)
  with vs(2) obtain v ty where e: "u name = Some (RVal v, ty)"
    by (cases e) (auto simp: entry_json_def split: reg_value.splits)
  with u n(1) have conv: "reg_convert ty v = Inr v"
    by (auto simp: reg_typed_def list_all_iff)
  have "restore_entry name vs = seq (pure (Inr ty)) (\<lambda>ty. set_value name ty v)"
    using vs(1) e by (simp add: restore_entry_def entry_json_def)
  also have "\<dots> = set_value name ty v"
    by (simp add: seq_def pure_def give_def fun_eq_iff)
  finally show ?thesis
    using e conv by (auto intro!: triple_set_value)
qed

lemma triple_restore_values:
  assumes u: "reg_typed u" and d: "snapshot_of u d"
  shows "triple (pending u d) (restore_values (values_of d))
    (\<lambda>_ w. pending u d w \<and> agree (registry w) u) (pending u d)"
proof -
  from d obtain vs where vs: "values_of d = vs"
    "\<forall>n\<in>set NAMES. dict_get vs n = entry_json (u n) \<and> entry_json (u n) \<noteq> None"
    by (elim snapshotE) auto
  define ok where "ok N = (\<lambda>w. pending u d w \<and> (\<forall>n\<in>N. registry w n = u n))" for N
  have entry: "triple (ok (N - {name})) (restore_entry name vs) (\<lambda>_. ok N) (pending u d)"
    if "name \<in> set NAMES" "name \<in> N" for name N
    unfolding ok_def using u that vs(2) by (intro triple_restore_entry) auto
  have 1: "triple (ok {}) (restore_entry ''ProxyServer'' vs) (\<lambda>_. ok {''ProxyServer''}) (pending u d)"
    using entry [of "''ProxyServer''" "{''ProxyServer''}"] by (simp add: NAMES_def)
  have 2: "triple (ok {''ProxyServer''}) (restore_entry ''ProxyOverride'' vs)
      (\<lambda>_. ok {''ProxyServer'', ''ProxyOverride''}) (pending u d)"
    using entry [of "''ProxyOverride''" "{''ProxyServer'', ''ProxyOverride''}"] by (simp add: NAMES_def insert_Diff_if)
  have 3: "triple (ok {''ProxyServer'', ''ProxyOverride''}) (restore_entry ''ProxyEnable'' vs)
      (\<lambda>_. ok (set NAMES)) (pending u d)"
    using entry [of "''ProxyEnable''" "set NAMES"] by (simp add: NAMES_def insert_Diff_if)
  have 0: "triple (pending u d) (call id) (\<lambda>_. ok {}) (pending u d)"
    by (rule triple_call) (auto simp: ok_def)
  have off: "triple (ok {}) (set_value ''ProxyEnable'' REG_DWORD (JInt 0)) (\<lambda>_. ok {}) (pending u d)"
    by (rule triple_set_value) (auto simp: ok_def)
  have "triple (pending u d) (restore_values vs) (\<lambda>_. ok (set NAMES)) (pending u d)"
    unfolding restore_values_def by (rule triple_seq 0 off 1 2 3)+
  then show ?thesis
    by (simp add: ok_def agree_def vs(1))
qed

lemma triple_eq: "(\<And>w. P w \<Longrightarrow> m w = m' w) \<Longrightarrow> triple P m' Q E \<Longrightarrow> triple P m Q E"
  by (auto simp: triple_def)

lemma triple_ex: "(\<And>d. triple (P d) m Q E) \<Longrightarrow> triple (\<lambda>w. \<exists>d. P d w) m Q E"
  by (auto simp: triple_def)

lemma triple_pure_same: "triple P (pure r) (\<lambda>_. P) P"
  by (rule triple_pure)

lemma triple_may_restore: "triple P (may_restore env st tok) (\<lambda>_. P) P"
  unfolding may_restore_def by (auto split: option.split intro!: triple_give triple_pure_same)

lemma triple_finish_restore:
  "triple (\<lambda>w. pending u d w \<and> agree (registry w) u) (finish_restore d) (\<lambda>_. settled u) (pending u d)"
proof (rule triple_eq)
  fix w assume "pending u d w \<and> agree (registry w) u"
  then have p: "pending u d w" and d: "snapshot_of u d" by (auto simp: pending_def)
  show "finish_restore d w = seq (call (\<lambda>w. w\<lparr>restore := None\<rparr>)) (\<lambda>_. set_self [] []) w"
    using normalize_snapshot [OF d] by (simp add: finish_restore_def seq_def [of load_state] load_pending [OF p])
next
  show "triple (\<lambda>w. pending u d w \<and> agree (registry w) u)
      (seq (call (\<lambda>w. w\<lparr>restore := None\<rparr>)) (\<lambda>_. set_self [] [])) (\<lambda>_. settled u) (pending u d)"
  proof (rule triple_seq)
    show "triple (settled u) (set_self [] []) (\<lambda>_. settled u) (pending u d)"
      by (simp add: triple_def set_self_def)
  qed (rule triple_call, auto simp: settled_def pending_def)
qed

definition undo :: "(string \<Rightarrow> reg_entry option) \<Rightarrow> obj \<Rightarrow> bool \<Rightarrow> world \<Rightarrow> bool" where
  "undo u d r w = (if r then settled u w else pending u d w)"

lemma disable_pending:
  assumes u: "reg_typed u"
  shows "triple (pending u d) (disable_locked env) (undo u d) (pending u d)"
  unfolding triple_def
proof (intro allI impI)
  fix w assume p: "pending u d w"
  then have d: "snapshot_of u d" by (simp add: pending_def)
  have "disable_locked env w =
      seq (may_restore env (Some d) (self_token w)) (\<lambda>allowed.
        if \<not> allowed then give False
        else seq (restore_values (values_of d)) (\<lambda>_. seq (finish_restore d) (\<lambda>_. give True))) w"
    using normalize_snapshot(2) [OF d]
    by (simp add: disable_locked_def seq_def [of load_state] seq_def [of get_self] get_self_def load_pending [OF p]
        cong: if_cong)
  moreover have "triple (pending u d) (seq (may_restore env (Some d) tok) (\<lambda>allowed.
        if \<not> allowed then give False
        else seq (restore_values (values_of d)) (\<lambda>_. seq (finish_restore d) (\<lambda>_. give True))))
      (undo u d) (pending u d)" for tok
    by (rule triple_seq triple_may_restore triple_if triple_restore_values [OF u d] triple_finish_restore
        triple_give | simp add: undo_def)+
  ultimately show "ends (undo u d) (pending u d) (disable_locked env w)"
    using p by (simp add: triple_def)
qed

lemma disable_settled:
  "settled u w \<Longrightarrow> self_previous w = [] \<Longrightarrow> disable_locked env w = (Inr False, w)"
  by (simp add: disable_locked_def seq_def load_settled get_self_def may_restore_def give_def)

lemma triple_guarded:
  "(\<And>w os. P (w\<lparr>outcomes := os\<rparr>) = P w) \<Longrightarrow> (\<And>w. P w \<Longrightarrow> E w) \<Longrightarrow> triple P m Q E \<Longrightarrow>
   triple P (guarded m) Q E"
  unfolding guarded_def by (rule triple_seq, rule triple_call) auto

lemma triple_with_object:
  assumes "triple P m Q E" "\<And>w p t. P (w\<lparr>self_previous := p, self_token := t\<rparr>) = P w"
    "\<And>a w p t. Q a (w\<lparr>self_previous := p, self_token := t\<rparr>) = Q a w"
    "\<And>w p t. E (w\<lparr>self_previous := p, self_token := t\<rparr>) = E w"
  shows "triple P (with_object p t m) Q E"
  unfolding triple_def
proof (intro allI impI)
  fix w assume "P w"
  then have "P (w\<lparr>self_previous := p, self_token := t\<rparr>)" by (simp only: assms(2))
  then have "ends Q E (m (w\<lparr>self_previous := p, self_token := t\<rparr>))"
    using assms(1) by (simp add: triple_def)
  then show "ends Q E (with_object p t m w)"
    by (simp only: with_object_def Let_def ends_def fst_conv snd_conv assms(3,4))
qed

lemma recover_begin_pending:
  assumes "pending u d w"
  shows "recover_begin env want w = (case recovery_allowed env want (owner_of d) of
     Inl e \<Rightarrow> (Inl (Raised e), w)
   | Inr ok \<Rightarrow> (Inr (if ok then Some (d, token_of (owner_of d)) else None), w))"
  using assms by (simp add: recover_begin_def seq_def load_pending pure_def throw_def give_def split: sum.split)

lemma recover_settled: "settled u w \<Longrightarrow> recover_with m env want w = (Inr False, w)"
  by (simp add: recover_with_def recover_begin_def seq_def load_settled give_def)

lemma recover_pending:
  assumes "triple (pending u d) m (undo u d) (pending u d)"
  shows "triple (pending u d) (recover_with m env want) (undo u d) (pending u d)"
  unfolding triple_def
proof (intro allI impI)
  fix w assume p: "pending u d w"
  have "triple (pending u d) (with_object prev tok m) (undo u d) (pending u d)" for prev tok
    using assms by (rule triple_with_object) (simp_all add: undo_def)
  with p show "ends (undo u d) (pending u d) (recover_with m env want w)"
    by (auto simp: recover_with_def seq_def recover_begin_pending triple_def undo_def give_def split: sum.split)
qed

lemma triple_make_room:
  assumes u: "reg_typed u"
  shows "triple (safe u) (make_room_for_snapshot env) (\<lambda>_. settled u) (safe u)"
proof -
  have room: "ends (\<lambda>_. settled u) (safe u) (make_room_for_snapshot env w)" if p: "pending u d w" for d w
  proof -
    have "make_room_for_snapshot env w =
        seq (if owner_of d = [] then give False else pure (owner_is_alive env (owner_of d))) (\<lambda>alive.
          if alive then throw RuntimeError
          else seq (recover_with (disable_locked env) env anyone) (\<lambda>ok. if ok then give () else throw RuntimeError)) w"
      by (simp add: make_room_for_snapshot_def seq_def [of load_state] load_pending [OF p])
    moreover have "triple (pending u d)
       (seq (if owner_of d = [] then give False else pure (owner_is_alive env (owner_of d))) (\<lambda>alive.
          if alive then throw RuntimeError
          else seq (recover_with (disable_locked env) env anyone) (\<lambda>ok. if ok then give () else throw RuntimeError)))
       (\<lambda>_. settled u) (pending u d)"
      by (rule triple_seq [where R = "\<lambda>_. pending u d"] triple_seq [OF recover_pending [OF disable_pending [OF u]]]
        triple_if triple_throw triple_give triple_pure_same | simp add: undo_def)+
    ultimately show ?thesis
      using p safeI(2) by (auto simp: triple_def ends_def split: sum.splits)
  qed
  have "make_room_for_snapshot env w = (Inr (), w)" if "settled u w" for w
    using that by (simp add: make_room_for_snapshot_def seq_def load_settled give_def)
  with room show ?thesis
    by (auto simp: triple_def safe_def)
qed


lemma triple_read_entries:
  assumes "\<And>n. n \<in> set ns \<Longrightarrow> n \<in> set NAMES"
  shows "triple (settled u) (read_entries ns) (\<lambda>es w. settled u w \<and> es = map (\<lambda>n. (n, u n)) ns) (safe u)"
  using assms
proof (induction ns)
  case Nil
  show ?case by (simp add: triple_def give_def)
next
  case (Cons n ns)
  have entry: "triple (settled u) (read_entry n) (\<lambda>e w. settled u w \<and> e = u n) (safe u)"
    unfolding read_entry_def
  proof (rule triple_seq)
    show "triple (settled u) (call id) (\<lambda>_. settled u) (safe u)"
      by (rule triple_call) (auto simp: safeI)
    show "triple (settled u) (\<lambda>w. (Inr (registry w n), w)) (\<lambda>e w. settled u w \<and> e = u n) (safe u)"
      using Cons.prems [of n] by (simp add: triple_def settled_def agree_def)
  qed
  have rest: "triple (\<lambda>w. settled u w \<and> e = u n)
      (seq (read_entries ns) (\<lambda>es. give ((n, e) # es)))
      (\<lambda>es w. settled u w \<and> es = map (\<lambda>n. (n, u n)) (n # ns)) (safe u)" for e
  proof (rule triple_weaken [where P' = "\<lambda>w. e = u n \<and> settled u w"])
    show "triple (\<lambda>w. e = u n \<and> settled u w) (seq (read_entries ns) (\<lambda>es. give ((n, e) # es)))
      (\<lambda>es w. settled u w \<and> es = map (\<lambda>n. (n, u n)) (n # ns)) (safe u)"
      using Cons by (intro triple_conj triple_seq [OF Cons.IH] triple_give) auto
  qed auto
  show ?case
    unfolding read_entries.simps by (rule triple_seq [OF entry rest])
qed

lemma triple_write_state:
  assumes "\<And>d. st = Some d \<Longrightarrow> snapshot_of u d"
  shows "triple (settled u) (write_state st) (\<lambda>_ w. \<exists>d. pending u d w) (safe u)"
proof (cases st)
  case None
  show ?thesis
    unfolding write_state_def
    by (rule triple_seq [where R = "\<lambda>_. settled u"] triple_call | simp add: None safeI triple_throw)+
next
  case (Some d)
  show ?thesis
    unfolding write_state_def Some option.case
  proof (rule triple_seq [where R = "\<lambda>_. settled u"], rule triple_call)
    show "triple (settled u) (seq (call id) (\<lambda>_. call (\<lambda>w. w\<lparr>restore := Some (Doc (JObj d))\<rparr>)))
      (\<lambda>_ w. \<exists>d. pending u d w) (safe u)"
      using assms [OF Some]
      by (intro triple_seq [where R = "\<lambda>_. settled u"] triple_call)
        (auto simp: safeI pending_def settled_def)
  qed (auto simp: safeI)
qed

lemma triple_take_snapshot:
  assumes "fresh_token env \<noteq> []"
  shows "triple (settled u) (take_snapshot env) (\<lambda>_ w. \<exists>d. pending u d w) (safe u)"
proof -
  define owner_ok where "owner_ok owner \<longleftrightarrow> (\<exists>pid t. owner =
    [(''pid'', JInt pid), (''create_time'', JNum t), (''token'', JStr (fresh_token env))])" for owner :: obj
  have identity: "triple (settled u) (pure (process_identity env (fresh_token env)))
      (\<lambda>owner w. owner_ok owner \<and> settled u w) (safe u)"
    using assms by (intro triple_pure) (auto simp: safeI owner_ok_def process_identity_def split: option.splits)
  have entries: "triple (settled u) (read_entries NAMES)
      (\<lambda>es w. es = map (\<lambda>n. (n, u n)) NAMES \<and> settled u w) (safe u)"
    by (rule triple_weaken [OF triple_read_entries]) auto
  have snap: "snapshot_of u d"
    if "owner_ok owner" "map_option (make_state STATE_VERSION owner) (entries_json (map (\<lambda>n. (n, u n)) NAMES)) = Some d"
    for owner d
    using that assms by (auto simp: snapshot_of_def owner_ok_def)
  have store: "triple (settled u)
      (seq (write_state (map_option (make_state STATE_VERSION owner) (entries_json (map (\<lambda>n. (n, u n)) NAMES))))
        (\<lambda>_. set_self (the (map_option (make_state STATE_VERSION owner) (entries_json (map (\<lambda>n. (n, u n)) NAMES))))
          (fresh_token env)))
      (\<lambda>_ w. \<exists>d. pending u d w) (safe u)" if "owner_ok owner" for owner
    by (rule triple_seq [OF triple_write_state [OF snap [OF that]]])
      (auto simp: triple_def set_self_def)
  show ?thesis
    unfolding take_snapshot_def Let_def
    by (intro triple_seq [OF identity] triple_conj triple_seq [OF entries]) (simp add: store)
qed

lemma triple_enable:
  assumes u: "reg_typed u" and env: "fresh_token env \<noteq> []"
  shows "triple (safe u) (enable_locked env bypass enabled socks http) (\<lambda>_. safe u) (safe u)"
proof -
  have undo: "triple (pending u d) (disable_locked env) (\<lambda>_. safe u) (safe u)" for d
    by (rule triple_weaken [OF disable_pending [OF u]]) (auto simp: undo_def safeI split: if_splits)
  have roll: "triple (pending u d)
      (seq (handle (seq (disable_locked env) (\<lambda>_. give ())) (\<lambda>_. give ())) (\<lambda>_. throw e)) (\<lambda>_. safe u) (safe u)" for d e
    by (intro triple_seq [where R = "\<lambda>_. safe u"] triple_handle [where E' = "safe u"] triple_seq [OF undo]
        triple_give triple_throw)
  have apply_values: "triple (pending u d) (handle (write_app_values bypass enabled socks http)
       (\<lambda>e. seq (handle (seq (disable_locked env) (\<lambda>_. give ())) (\<lambda>_. give ())) (\<lambda>_. throw e)))
     (\<lambda>_. safe u) (safe u)" for d
    by (rule triple_handle [OF _ roll])
      (auto simp: safeI intro: triple_weaken [OF triple_app_values])
  show ?thesis
    unfolding enable_locked_def
    by (rule triple_seq [OF triple_make_room [OF u]], rule triple_seq [OF triple_take_snapshot [OF env]],
        rule triple_ex, rule apply_values)
qed

lemma owned_pending:
  "triple (safe u) (owned_pending_state env)
    (\<lambda>r w. safe u w \<and> (r \<noteq> None \<longrightarrow> (\<exists>d. pending u d w))) (safe u)"
proof -
  have "ends (\<lambda>r w. safe u w \<and> (r \<noteq> None \<longrightarrow> (\<exists>d. pending u d w))) (safe u) (owned_pending_state env w)"
    if p: "pending u d w" for d w
  proof -
    from p have "\<not> corrupt d" by (auto simp: pending_def dest: normalize_snapshot(2))
    with p show ?thesis
      by (auto simp: owned_pending_state_def seq_def load_pending get_self_def pure_def give_def throw_def
          set_self_def Let_def safeI split: sum.splits)
  qed
  moreover have "owned_pending_state env w = (Inr None, w)" if "settled u w" for w
    using that by (simp add: owned_pending_state_def seq_def load_settled get_self_def give_def)
  ultimately show ?thesis
    by (auto simp: triple_def safe_def)
qed


definition may_run :: "(string \<Rightarrow> reg_entry option) \<Rightarrow> proxy_op \<Rightarrow> world \<Rightarrow> bool" where
  "may_run u op w \<longleftrightarrow> safe u w \<and> (op = Disable \<longrightarrow> restore w \<noteq> None \<or> self_previous w = [])"

lemma triple_disable:
  assumes u: "reg_typed u"
  shows "triple (may_run u Disable) (disable env) (\<lambda>_. safe u) (safe u)"
proof -
  have "ends (\<lambda>_. safe u) (safe u) (disable_locked env w)" if "may_run u Disable w" for w
  proof (cases "settled u w")
    case True
    with that have "disable_locked env w = (Inr False, w)"
      by (intro disable_settled) (auto simp: may_run_def settled_def)
    with True show ?thesis by (simp add: safeI)
  next
    case False
    with that obtain d where "pending u d w" by (auto simp: may_run_def safe_def)
    then have "ends (undo u d) (pending u d) (disable_locked env w)"
      using disable_pending [OF u, of d env] by (simp add: triple_def)
    then show ?thesis
      by (auto simp: ends_def undo_def safeI split: sum.splits if_splits)
  qed
  then have "triple (may_run u Disable) (disable_locked env) (\<lambda>_. safe u) (safe u)"
    by (simp add: triple_def)
  then show ?thesis
    unfolding disable_def by (rule triple_guarded [rotated 2]) (auto simp: may_run_def)
qed

lemma triple_app_override:
  assumes u: "reg_typed u" and env: "fresh_token env \<noteq> []"
  shows "triple (safe u) (app_override env bypass enabled socks http) (\<lambda>_. safe u) (safe u)"
proof -
  have "triple (\<lambda>w. safe u w \<and> (st \<noteq> None \<longrightarrow> (\<exists>d. pending u d w)))
      (case st of None \<Rightarrow> enable_locked env bypass enabled socks http
       | Some _ \<Rightarrow> write_app_values bypass enabled socks http) (\<lambda>_. safe u) (safe u)" for st
  proof (cases st)
    case None
    then show ?thesis
      using triple_enable [OF u env] by (auto elim!: triple_weaken)
  next
    case (Some d)
    have "triple (\<lambda>w. \<exists>d. pending u d w) (write_app_values bypass enabled socks http) (\<lambda>_. safe u) (safe u)"
      by (rule triple_ex, rule triple_weaken [OF triple_app_values]) (auto simp: safeI)
    with Some show ?thesis by (auto elim!: triple_weaken)
  qed
  then show ?thesis
    unfolding app_override_def by (intro triple_guarded triple_seq [OF owned_pending]) auto
qed

lemma triple_suspend:
  "triple (safe u) (run_op env Suspend) (\<lambda>_. safe u) (safe u)"
proof -
  have "triple (\<lambda>w. \<exists>d. pending u d w) (seq (call id) (\<lambda>_. seq (set_value ''ProxyEnable'' REG_DWORD (JInt 0))
      (\<lambda>_. give True))) (\<lambda>_. safe u) (safe u)"
    by (intro triple_seq [where R = "\<lambda>_ w. \<exists>d. pending u d w"] triple_call triple_set_value triple_give)
      (auto simp: safeI)
  then have "triple (\<lambda>w. safe u w \<and> (st \<noteq> None \<longrightarrow> (\<exists>d. pending u d w)))
      (case st of None \<Rightarrow> give False
       | Some _ \<Rightarrow> seq (call id) (\<lambda>_. seq (set_value ''ProxyEnable'' REG_DWORD (JInt 0)) (\<lambda>_. give True)))
      (\<lambda>_. safe u) (safe u)" for st :: "obj option"
    by (cases st) (auto intro: triple_give elim!: triple_weaken)
  then show ?thesis
    unfolding run_op.simps by (intro triple_guarded triple_seq [OF owned_pending]) auto
qed

lemma triple_with_ports:
  assumes "\<And>s h. triple (safe u) (m s h) (\<lambda>_. safe u) (safe u)"
  shows "triple (safe u) (with_ports socks http m) (\<lambda>_. safe u) (safe u)"
  unfolding with_ports_def
  by (rule triple_seq [OF triple_pure_same], simp add: case_prod_beta')
    (rule triple_seq [OF assms], rule triple_give)

lemma triple_run_op:
  assumes "reg_typed u" "fresh_token env \<noteq> []"
  shows "triple (may_run u op) (run_op env op) (\<lambda>_. safe u) (safe u)"
proof (cases "op = Disable")
  case True
  with triple_disable [OF assms(1)] show ?thesis by simp
next
  case False
  then have "triple (safe u) (run_op env op) (\<lambda>_. safe u) (safe u)"
    using assms triple_enable [OF assms] triple_app_override [OF assms] triple_suspend [of u env]
    by (cases op) (auto intro!: triple_with_ports triple_guarded)
  then show ?thesis
    by (rule triple_weaken) (auto simp: may_run_def)
qed

definition sys_safe :: "proxy_system \<Rightarrow> bool" where
  "sys_safe s \<longleftrightarrow> reg_typed (user s) \<and> safe (user s) (world_of s [] ([], []))"

lemma sys_safe_of:
  assumes "reg_typed (user s)" "safe (user s) w" "registry w = sys_registry s" "restore w = sys_restore s"
  shows "sys_safe s"
  using assms by (auto simp: sys_safe_def safe_def settled_def pending_def world_of_def)

lemma safe_world_of: "sys_safe s \<Longrightarrow> safe (user s) (world_of s fs ob)"
  by (auto simp: sys_safe_def safe_def settled_def pending_def world_of_def)

lemma reachable_safe: "proxy_reachable s \<Longrightarrow> sys_safe s"
proof (induction rule: proxy_reachable.induct)
  case (start r)
  then show ?case by (simp add: sys_safe_def safe_def settled_def world_of_def agree_def)
next
  case (new_object s)
  then show ?case by (auto simp: sys_safe_def world_of_def)
next
  case (edit s r)
  then show ?case by (auto simp: sys_safe_def safe_def settled_def pending_def world_of_def agree_def)
next
  case (operation s i env op fs)
  let ?w = "world_of s fs (objects s ! i)"
  have u: "reg_typed (user s)" using operation by (simp add: sys_safe_def)
  have "may_run (user s) op ?w"
    using operation safe_world_of [of s] by (auto simp: may_run_def world_of_def)
  then have "ends (\<lambda>_. safe (user s)) (safe (user s)) (run_op env op ?w)"
    using triple_run_op [OF u \<open>fresh_token env \<noteq> []\<close>, of op] by (simp add: triple_def)
  then have "safe (user s) (snd (run_op env op ?w))"
    by (auto simp: ends_def split: sum.splits)
  then show ?case
    using u by (intro sys_safe_of) (auto simp: after_op_def)
next
  case (recovery s env want fs helper w)
  then show ?case by (auto simp: sys_safe_def world_of_def)
qed


section \<open>Taking back without disturbance\<close>

lemma call_ok: "outcomes w = [] \<Longrightarrow> call f w = (Inr (), f w)"
  by (simp add: call_def)

lemma restore_entry_ok:
  assumes "outcomes w = []" "reg_typed u" "name \<in> set NAMES"
    and vs: "dict_get vs name = entry_json (u name)" "entry_json (u name) \<noteq> None"
  shows "restore_entry name vs w = (Inr (), w\<lparr>registry := (registry w)(name := u name)\<rparr>)"
proof (cases "u name")
  case None
  then show ?thesis
    using vs assms(1) by (simp add: restore_entry_def entry_json_def delete_value_def call_ok)
next
  case (Some e)
  with vs(2) obtain v ty where e: "u name = Some (RVal v, ty)"
    by (cases e) (auto simp: entry_json_def split: reg_value.splits)
  with assms(2,3) have "reg_convert ty v = Inr v"
    by (auto simp: reg_typed_def list_all_iff)
  with e vs(1) assms(1) show ?thesis
    by (simp add: restore_entry_def entry_json_def set_value_def seq_def pure_def give_def call_ok)
qed

lemma restore_values_ok:
  assumes "outcomes w = []" "reg_typed u" "snapshot_of u d"
  obtains r where "restore_values (values_of d) w = (Inr (), w\<lparr>registry := r\<rparr>)" "agree r u"
proof -
  from assms(3) obtain vs where vs: "values_of d = vs"
    "\<forall>n\<in>set NAMES. dict_get vs n = entry_json (u n) \<and> entry_json (u n) \<noteq> None"
    by (elim snapshotE) auto
  have step: "restore_entry n vs w' = (Inr (), w'\<lparr>registry := (registry w')(n := u n)\<rparr>)"
    if "outcomes w' = []" "n \<in> set NAMES" for n w'
    using that vs(2) assms(2) by (intro restore_entry_ok) auto
  have "reg_convert REG_DWORD (JInt 0) = Inr (JInt 0)"
    by (simp add: reg_convert_def reg_number_def REG_DWORD_def)
  then have "restore_values vs w = (Inr (), w\<lparr>registry := (registry w)(''ProxyEnable'' \<mapsto> (RVal (JInt 0), REG_DWORD),
      ''ProxyServer'' := u ''ProxyServer'', ''ProxyOverride'' := u ''ProxyOverride'',
      ''ProxyEnable'' := u ''ProxyEnable'')\<rparr>)"
    using assms(1) by (simp add: restore_values_def seq_def call_ok set_value_def pure_def give_def step NAMES_def)
  then show ?thesis
    unfolding vs(1) [symmetric] by (rule that) (simp add: agree_def NAMES_def)
qed

lemma undone:
  assumes "outcomes w = []" "reg_typed u" "pending u d w" "self_token w = token_of (owner_of d)"
  shows "fst (disable env w) = Inr True \<and> settled u (snd (disable env w))"
proof -
  from assms(3) have d: "snapshot_of u d" by (simp add: pending_def)
  obtain r where r: "restore_values (values_of d) w = (Inr (), w\<lparr>registry := r\<rparr>)" "agree r u"
    by (rule restore_values_ok [OF assms(1,2) d])
  from assms(3) have p: "pending u d (w\<lparr>registry := r\<rparr>)" by simp
  have "finish_restore d (w\<lparr>registry := r\<rparr>)
      = (Inr (), w\<lparr>registry := r, restore := None, self_previous := [], self_token := []\<rparr>)"
    using normalize_snapshot [OF d] assms(1)
    by (simp add: finish_restore_def seq_def load_pending [OF p] call_ok set_self_def)
  then have "disable env w = (Inr True, w\<lparr>registry := r, restore := None, self_previous := [], self_token := []\<rparr>)"
    using normalize_snapshot(2,3) [OF d] assms(1,4) r(1)
    by (simp add: disable_def guarded_def seq_def call_ok disable_locked_def load_pending [OF assms(3)] get_self_def
        may_restore_def give_def cong: if_cong)
  with r(2) assms(3) show ?thesis by (simp add: settled_def pending_def)
qed

text \<open>
  What an object does that kept a snapshot in memory after another object or process has already
  used and removed the restore file: it writes the old values over the user's present ones.
\<close>

lemma stale_memory_overrides_user:
  assumes "outcomes w = []" "settled u w" "reg_typed old" "snapshot_of old (self_previous w)"
  shows "fst (disable env w) = Inr True \<and> agree (registry (snd (disable env w))) old"
proof -
  let ?d = "self_previous w"
  obtain r where r: "restore_values (values_of ?d) w = (Inr (), w\<lparr>registry := r\<rparr>)" "agree r old"
    by (rule restore_values_ok [OF assms(1,3,4)])
  from assms(4) have ne: "?d \<noteq> []" by (auto simp: snapshot_of_def make_state_def)
  have "load_state (w\<lparr>registry := r\<rparr>) = (Inr None, w\<lparr>registry := r\<rparr>)"
    using assms(2) by (simp add: settled_def load_state_def seq_def read_restore_def give_def)
  then have "disable env w = (Inr True, w\<lparr>registry := r, restore := None, self_previous := [], self_token := []\<rparr>)"
    using assms(1) r(1) ne
    by (simp add: disable_def guarded_def seq_def call_ok disable_locked_def load_settled [OF assms(2)] get_self_def
        may_restore_def give_def finish_restore_def Let_def set_self_def)
  with r(2) show ?thesis by simp
qed

section \<open>Properties\<close>

text \<open>C4: The user's proxy settings survive every crash. Whatever operations and recoveries the objects of
  any processes run, in any order, wherever a call that writes or opens fails or a process dies, and
  however the registry is edited meanwhile: without a restore file the registry holds the user's three
  values, and a restore file is readable and holds exactly these values. This is as long as no object
  restores from memory when the restore file has gone, and the file can be read when it is there.\<close>

theorem proxy_settings_never_lost:
  assumes "proxy_reachable s"
  shows "\<forall>n\<in>set NAMES. case sys_restore s of
      None \<Rightarrow> sys_registry s n = user s n
    | Some Unreadable \<Rightarrow> False
    | Some (Doc j) \<Rightarrow> dict_get (values_of (dict_of j)) n = entry_json (user s n) \<and> entry_json (user s n) \<noteq> None"
proof -
  from reachable_safe [OF assms] consider
    "settled (user s) (world_of s [] ([], []))" | d where "pending (user s) d (world_of s [] ([], []))"
    by (auto simp: sys_safe_def safe_def)
  then show ?thesis
  proof cases
    case 1
    then show ?thesis by (auto simp: settled_def world_of_def agree_def)
  next
    case (2 d)
    then have r: "sys_restore s = Some (Doc (JObj d))" and "snapshot_of (user s) d"
      by (auto simp: pending_def world_of_def)
    then show ?thesis
      by (elim snapshotE) (simp add: r dict_of_def)
  qed
qed

text \<open>C9: After any crash the next start undoes the override. When a restore file is there and its
  owner no longer runs, \<open>recover_stale\<close> reports success, puts the user's three values back into
  the registry and removes the file.\<close>

theorem next_start_undoes_override:
  assumes "proxy_reachable s" "sys_restore s = Some (Doc (JObj d))"
    "owner_is_alive env (owner_of d) = Inr False"
  shows "let r = recover_stale env anyone (world_of s [] ([], []))
    in fst r = Inr True \<and> restore (snd r) = None \<and> (\<forall>n\<in>set NAMES. registry (snd r) n = user s n)"
proof -
  let ?w = "world_of s [] ([], [])"
  from reachable_safe [OF assms(1)] assms(2) have u: "reg_typed (user s)" and p: "pending (user s) d ?w"
    by (auto simp: sys_safe_def safe_def settled_def pending_def world_of_def)
  then have d: "snapshot_of (user s) d" by (simp add: pending_def)
  let ?tok = "token_of (owner_of d)"
  have "recover_stale env anyone ?w = with_object d ?tok (disable env) ?w"
    using normalize_snapshot(4) [OF d] assms(3)
    by (simp add: recover_stale_def recover_with_def seq_def recover_begin_pending [OF p] recovery_allowed_def)
  moreover have "fst (disable env (?w\<lparr>self_previous := d, self_token := ?tok\<rparr>)) = Inr True
      \<and> settled (user s) (snd (disable env (?w\<lparr>self_previous := d, self_token := ?tok\<rparr>)))"
    using u p by (intro undone [where d = d]) (auto simp: world_of_def pending_def)
  ultimately show ?thesis
    by (auto simp: with_object_def Let_def settled_def agree_def)
qed


section \<open>A crash in the middle of taking over\<close>

definition sample_user :: "string \<Rightarrow> reg_entry option" where
  "sample_user = Map.empty(''ProxyEnable'' \<mapsto> (RVal (JInt 1), 4), ''ProxyServer'' \<mapsto> (RVal (JStr ''proxy:8080''), 1))"

definition sample_env :: surroundings where
  "sample_env = \<lparr>my_pid = 7, my_created = Some 100, process_query = (\<lambda>_. Gone), other_instance = False,
     fresh_token = ''t''\<rparr>"

definition sample_snapshot :: obj where
  "sample_snapshot = make_state 2
     [(''pid'', JInt 7), (''create_time'', JNum 100), (''token'', JStr ''t'')]
     [(''ProxyEnable'', JObj [(''exists'', JBool True), (''value'', JInt 1), (''type'', JInt 4)]),
      (''ProxyServer'', JObj [(''exists'', JBool True), (''value'', JStr ''proxy:8080''), (''type'', JInt 1)]),
      (''ProxyOverride'', JObj [(''exists'', JBool False)])]"

definition sample_crashed :: proxy_system where
  \<comment> \<open>the process died between the first and the second value it set\<close>
  "sample_crashed = \<lparr>user = sample_user,
     sys_registry = sample_user(''ProxyEnable'' \<mapsto> (RVal (JInt 0), 4)),
     sys_restore = Some (Doc (JObj sample_snapshot)), objects = []\<rparr>"

lemma sample_reachable_crash: "proxy_reachable sample_crashed"
proof -
  let ?s0 = "\<lparr>user = sample_user, sys_registry = sample_user, sys_restore = None, objects = []\<rparr>"
  let ?s1 = "?s0\<lparr>objects := objects ?s0 @ [([], [])]\<rparr>"
  let ?op = "Enable ''<local>'' (JInt 20808) (JInt 20809)"
  let ?fs = "[Fine, Fine, Fine, Fine, Fine, Fine, Fine, Fine, Fine, Dies]"
  have "reg_typed sample_user"
    by (simp add: reg_typed_def NAMES_def sample_user_def reg_convert_def reg_number_def REG_DWORD_def
        REG_QWORD_def REG_SZ_def)
  then have "proxy_reachable ?s1"
    by (intro proxy_reachable.new_object proxy_reachable.start)
  then have "proxy_reachable (after_op 0 (run_op sample_env ?op (world_of ?s1 ?fs (objects ?s1 ! 0))) ?s1)"
    by (rule proxy_reachable.operation) (simp_all add: sample_env_def)
  also have "after_op 0 (run_op sample_env ?op (world_of ?s1 ?fs (objects ?s1 ! 0))) ?s1 = sample_crashed"
    by (simp add: after_op_def world_of_def with_ports_def seq_def pure_def give_def throw_def resolved_ports_def
        guarded_def call_def enable_locked_def make_room_for_snapshot_def load_state_def read_restore_def
        take_snapshot_def process_identity_def sample_env_def NAMES_def read_entry_def sample_user_def entry_json_def
        write_state_def set_self_def handle_def write_app_values_def set_value_def reg_convert_def reg_number_def
        REG_DWORD_def REG_SZ_def REG_QWORD_def sample_crashed_def sample_snapshot_def STATE_VERSION_def)
  finally show ?thesis .
qed

lemma unreadable_file_loses_settings:
  \<comment> \<open>a restore file that raises \<open>OSError\<close> when it is read counts as one without values: the next start leaves
     the user's proxy switched off, reports success and removes the file\<close>
  "case recover_stale sample_env anyone ((world_of sample_crashed [] ([], []))\<lparr>read_fails := [True, True, True]\<rparr>) of (r, w) \<Rightarrow>
     r = Inr True \<and> restore w = None \<and> registry w ''ProxyEnable'' = Some (RVal (JInt 0), 4)
     \<and> user sample_crashed ''ProxyEnable'' = Some (RVal (JInt 1), 4)"
  by code_simp

lemma proxy_settings_never_lost_witness:
  "proxy_reachable sample_crashed
   \<and> dict_get (values_of sample_snapshot) ''ProxyServer''
     = Some (JObj [(''exists'', JBool True), (''value'', JStr ''proxy:8080''), (''type'', JInt 1)])"
  using proxy_settings_never_lost [OF sample_reachable_crash] sample_reachable_crash
  by (simp add: sample_crashed_def NAMES_def dict_of_def sample_user_def entry_json_def)

lemma next_start_undoes_override_witness:
  "let r = recover_stale sample_env anyone (world_of sample_crashed [] ([], []))
   in fst r = Inr True \<and> restore (snd r) = None \<and> (\<forall>n\<in>set NAMES. registry (snd r) n = sample_user n)"
proof -
  have "owner_is_alive sample_env (owner_of sample_snapshot) = Inr False"
    by (simp add: sample_snapshot_def owner_is_alive_def sample_env_def or_false_def)
  then show ?thesis
    using next_start_undoes_override [OF sample_reachable_crash, of sample_snapshot sample_env]
    by (simp add: sample_crashed_def)
qed


end
