(* ===== verification/Forward_Path.thy ===== *)
theory Forward_Path
  imports Clean_Ip
begin

text \<open>
  The packet filter of the mobile gateway: class \<open>ForwardPathHelper\<close> of \<open>gateway.py\<close>. For the
  devices of the local network it redirects DNS queries that a private resolver could not answer,
  restores the source of the answers, limits the segment size of new TCP connections and blocks
  QUIC. A packet is what WinDivert shows of it: the addresses as text, the ports, and the TCP
  header as bytes that the filter edits in place. Opening the driver and the receiving thread are
  outside; \<open>run_packets\<close> is the body of its loop. Addresses are lists of four octets.
\<close>

type_synonym ip = "nat list"
type_synonym subnet = "int \<times> nat" \<comment> \<open>network address and prefix length\<close>

record lan_adapter =
  lan_address :: string
  lan_prefix :: nat
  lan_gateway :: string

datatype transport =
    Tcp bytes nat bool \<comment> \<open>the bytes from the TCP header on, the header's length, SYN\<close>
  | Udp
  | NoTransport

record fwd_packet =
  src_addr :: string
  dst_addr :: string
  src_port :: "int option"
  dst_port :: "int option"
  transport_of :: transport

record forwarder =
  fw_resolver :: string
  fw_mss :: nat
  fw_block_quic :: bool
  fw_rewrite_dns :: bool
  fw_ttl :: rat
  fw_lan :: "lan_adapter option"
  fw_network :: "subnet option"
  fw_devices :: "string list" \<comment> \<open>a set\<close>
  fw_flows :: "(string \<times> string \<times> int, string \<times> rat) dict"

section \<open>Addresses\<close>

definition subnet_of :: "int \<Rightarrow> nat \<Rightarrow> subnet" where
  "subnet_of n p = (n - n mod 2 ^ (32 - p), p)"

definition in_subnet :: "int \<Rightarrow> subnet \<Rightarrow> bool" where
  "in_subnet n net \<longleftrightarrow> fst (subnet_of n (snd net)) = fst net"

definition net_broadcast :: "subnet \<Rightarrow> int" where
  "net_broadcast net = fst net + 2 ^ (32 - snd net) - 1"

definition quad :: "int \<Rightarrow> int \<Rightarrow> int \<Rightarrow> int \<Rightarrow> int" where
  "quad a b c d = ((a * 256 + b) * 256 + c) * 256 + d"

definition PRIVATE_NETWORKS :: "subnet list" where
  \<comment> \<open>of the module \<open>ipaddress\<close>\<close>
  "PRIVATE_NETWORKS = [(quad 0 0 0 0, 8), (quad 10 0 0 0, 8), (quad 127 0 0 0, 8), (quad 169 254 0 0, 16),
     (quad 172 16 0 0, 12), (quad 192 0 0 0, 24), (quad 192 0 0 170, 31), (quad 192 0 2 0, 24),
     (quad 192 168 0 0, 16), (quad 198 18 0 0, 15), (quad 198 51 100 0, 24), (quad 203 0 113 0, 24),
     (quad 240 0 0 0, 4), (quad 255 255 255 255, 32)]"

definition is_private :: "ip \<Rightarrow> bool" where
  "is_private a \<longleftrightarrow> list_ex (in_subnet (ipv4_num a)) PRIVATE_NETWORKS
     \<and> ipv4_num a \<notin> {quad 192 0 0 9, quad 192 0 0 10}"

definition is_external :: "ip \<Rightarrow> bool" where
  "is_external a \<longleftrightarrow> \<not> (is_private a
     \<or> in_subnet (ipv4_num a) (quad 127 0 0 0, 8) \<or> in_subnet (ipv4_num a) (quad 169 254 0 0, 16)
     \<or> in_subnet (ipv4_num a) (quad 224 0 0 0, 4) \<or> in_subnet (ipv4_num a) (quad 240 0 0 0, 4)
     \<or> ipv4_num a = 0)"

section \<open>Configuration\<close>

definition new_forwarder :: "string \<Rightarrow> int \<Rightarrow> bool \<Rightarrow> bool \<Rightarrow> rat \<Rightarrow> forwarder res" where
  "new_forwarder resolver mss quic dns ttl = (case parse_ipv4 resolver of
     None \<Rightarrow> Inl ValueError
   | Some os \<Rightarrow> Inr \<lparr>fw_resolver = ipv4_text os, fw_mss = nat (max 536 (min 1460 mss)), fw_block_quic = quic,
       fw_rewrite_dns = dns, fw_ttl = max 10 ttl, fw_lan = None, fw_network = None, fw_devices = [], fw_flows = []\<rparr>)"

definition lan_network :: "lan_adapter \<Rightarrow> subnet res" where
  \<comment> \<open>\<open>ipaddress.ip_network(f"{lan.address}/{lan.prefix}", strict=False)\<close>\<close>
  "lan_network lan = (case parse_ipv4 (lan_address lan) of
     None \<Rightarrow> Inl ValueError
   | Some os \<Rightarrow> if lan_prefix lan > 32 then Inl ValueError else Inr (subnet_of (ipv4_num os) (lan_prefix lan)))"

definition all_devices :: "subnet \<Rightarrow> string list \<Rightarrow> string list res" where
  "all_devices net devices =
     rbind (rmap (\<lambda>d. case parse_ipv4 d of None \<Rightarrow> Inl ValueError | Some os \<Rightarrow> Inr os) devices) (\<lambda>oss.
     Inr (uniq (map ipv4_text (filter (\<lambda>os. in_subnet (ipv4_num os) net) oss))))"

definition configure_forwarder :: "lan_adapter \<Rightarrow> string list \<Rightarrow> forwarder \<Rightarrow> forwarder res" where
  "configure_forwarder lan devices fw =
     rbind (lan_network lan) (\<lambda>net.
     rbind (all_devices net devices) (\<lambda>ds.
     Inr (fw\<lparr>fw_lan := Some lan, fw_network := Some net, fw_devices := ds\<rparr>)))"

definition set_devices :: "string list \<Rightarrow> forwarder \<Rightarrow> forwarder" where
  "set_devices devices fw = (case fw_network fw of
     None \<Rightarrow> fw
   | Some net \<Rightarrow> fw\<lparr>fw_devices := uniq (concat (map (\<lambda>d. case parse_ipv4 d of
       None \<Rightarrow> [] | Some os \<Rightarrow> if in_subnet (ipv4_num os) net then [ipv4_text os] else []) devices))\<rparr>)"

definition cleared :: "forwarder \<Rightarrow> forwarder" where
  \<comment> \<open>the state \<open>stop\<close> leaves\<close>
  "cleared fw = fw\<lparr>fw_flows := [], fw_devices := [], fw_lan := None, fw_network := None\<rparr>"

section \<open>Clients and private resolvers\<close>

definition is_client :: "forwarder \<Rightarrow> ip \<Rightarrow> bool" where
  "is_client fw a = (case (fw_lan fw, fw_network fw) of
     (Some lan, Some net) \<Rightarrow> in_subnet (ipv4_num a) net \<and> ipv4_text a \<notin> {lan_address lan, lan_gateway lan}
       \<and> ipv4_num a \<notin> {fst net, net_broadcast net}
   | _ \<Rightarrow> False)"

definition rewrite_private_dns :: "forwarder \<Rightarrow> ip \<Rightarrow> bool" where
  "rewrite_private_dns fw a = (case (fw_lan fw, fw_network fw) of
     (Some lan, Some net) \<Rightarrow> fw_rewrite_dns fw
       \<and> (ipv4_text a = lan_gateway lan \<or> (is_private a \<and> \<not> in_subnet (ipv4_num a) net))
   | _ \<Rightarrow> False)"

section \<open>Flows\<close>

definition expire_dns_flows :: "rat \<Rightarrow> forwarder \<Rightarrow> forwarder" where
  "expire_dns_flows now fw = fw\<lparr>fw_flows := filter (\<lambda>(k, v). \<not> snd v \<le> now) (fw_flows fw)\<rparr>"

definition remember_dns :: "string \<Rightarrow> string \<Rightarrow> int \<Rightarrow> string \<Rightarrow> rat \<Rightarrow> forwarder \<Rightarrow> forwarder" where
  "remember_dns protocol client port original now fw =
     fw\<lparr>fw_flows := dict_set (protocol, client, port) (original, now + fw_ttl fw) (fw_flows fw)\<rparr>"

definition original_dns :: "string \<Rightarrow> string \<Rightarrow> int \<Rightarrow> bool \<Rightarrow> forwarder \<Rightarrow> string \<times> forwarder" where
  "original_dns protocol client port remove fw = (case dict_get (fw_flows fw) (protocol, client, port) of
     None \<Rightarrow> ([], fw)
   | Some v \<Rightarrow> (fst v, if remove then fw\<lparr>fw_flows := dict_pop (protocol, client, port) (fw_flows fw)\<rparr> else fw))"

section \<open>The segment size\<close>

text \<open>The loop over the TCP options: where the option is that the filter looks at, \<open>None\<close> when it does not return.\<close>

partial_function (option) mss_scan :: "bytes \<Rightarrow> nat \<Rightarrow> nat \<Rightarrow> nat option option" where
  "mss_scan raw limit offset =
     (if \<not> offset < limit then Some None
      else if raw ! offset = 0 then Some None
      else if raw ! offset = 1 then mss_scan raw limit (offset + 1)
      else if offset + 1 \<ge> limit then Some None
      else if unat (raw ! (offset + 1)) < 2 \<or> offset + unat (raw ! (offset + 1)) > limit then Some None
      else if raw ! offset = 2 \<and> unat (raw ! (offset + 1)) = 4 then Some (Some offset)
      else mss_scan raw limit (offset + unat (raw ! (offset + 1))))"

definition option_mss :: "bytes \<Rightarrow> nat \<Rightarrow> nat" where
  "option_mss raw offset = from_be (pyslice (offset + 2) (offset + 4) raw)"

definition clamp_tcp_mss :: "nat \<Rightarrow> bytes \<Rightarrow> nat \<Rightarrow> (bool \<times> bytes) option" where
  "clamp_tcp_mss mss raw header_len = (case mss_scan raw (min header_len (length raw)) 20 of
     None \<Rightarrow> None
   | Some None \<Rightarrow> Some (False, raw)
   | Some (Some offset) \<Rightarrow> Some (if option_mss raw offset > mss
       then (True, take (offset + 2) raw @ be16 mss @ drop (offset + 4) raw) else (False, raw)))"

section \<open>A packet\<close>

definition protocol_of :: "transport \<Rightarrow> string" where
  "protocol_of t = (case t of Tcp _ _ _ \<Rightarrow> ''tcp'' | _ \<Rightarrow> ''udp'')"

definition port_or_zero :: "int option \<Rightarrow> int" where
  "port_or_zero p = (case p of None \<Rightarrow> 0 | Some n \<Rightarrow> n)"

definition redirect_dns :: "rat \<Rightarrow> ip \<Rightarrow> ip \<Rightarrow> fwd_packet \<Rightarrow> forwarder \<Rightarrow> (ip \<times> ip) \<times> fwd_packet \<times> forwarder" where
  \<comment> \<open>the query to the resolver, or the answer from the server that was asked\<close>
  "redirect_dns now source destination p fw =
     (let sp = port_or_zero (src_port p); dp = port_or_zero (dst_port p); proto = protocol_of (transport_of p) in
      if is_client fw source \<and> dp = 53 \<and> rewrite_private_dns fw destination
      then ((source, case parse_ipv4 (fw_resolver fw) of Some r \<Rightarrow> r | None \<Rightarrow> destination),
            p\<lparr>dst_addr := fw_resolver fw\<rparr>,
            remember_dns proto (ipv4_text source) sp (ipv4_text destination) now fw)
      else if is_client fw destination \<and> sp = 53 \<and> ipv4_text source = fw_resolver fw
      then (let r = original_dns proto (ipv4_text destination) dp (proto = ''udp'') fw in
        if fst r \<noteq> []
        then ((case parse_ipv4 (fst r) of Some s \<Rightarrow> s | None \<Rightarrow> source, destination), p\<lparr>src_addr := fst r\<rparr>, snd r)
        else ((source, destination), p, snd r))
      else ((source, destination), p, fw))"

definition clamp_syn :: "forwarder \<Rightarrow> bool \<Rightarrow> fwd_packet \<Rightarrow> fwd_packet option" where
  "clamp_syn fw crosses p = (case transport_of p of
     Tcp raw header_len True \<Rightarrow> (if crosses
       then map_option (\<lambda>r. p\<lparr>transport_of := Tcp (snd r) header_len True\<rparr>) (clamp_tcp_mss (fw_mss fw) raw header_len)
       else Some p)
   | _ \<Rightarrow> Some p)"

definition process_packet :: "rat \<Rightarrow> fwd_packet \<Rightarrow> forwarder \<Rightarrow> (bool \<times> fwd_packet \<times> forwarder) option" where
  \<comment> \<open>whether the packet is sent on, and the packet then\<close>
  "process_packet now p fw = (case (parse_ipv4 (src_addr p), parse_ipv4 (dst_addr p)) of
     (Some source0, Some destination0) \<Rightarrow>
       if transport_of p = NoTransport then Some (True, p, fw)
       else
         (let fw1 = expire_dns_flows now fw;
              from_client = is_client fw1 source0; to_client = is_client fw1 destination0
          in case redirect_dns now source0 destination0 p fw1 of ((source, destination), p1, fw2) \<Rightarrow>
            map_option (\<lambda>p2.
              (\<not> (fw_block_quic fw2 \<and> transport_of p2 = Udp \<and> from_client \<and> port_or_zero (dst_port p) = 443
                  \<and> is_external destination), p2, fw2))
              (clamp_syn fw2 ((from_client \<and> is_external destination) \<or> (to_client \<and> is_external source)) p1))
   | _ \<Rightarrow> Some (True, p, fw))"

fun run_packets :: "(rat \<times> fwd_packet) list \<Rightarrow> forwarder \<Rightarrow> (fwd_packet list \<times> forwarder) option" where
  \<comment> \<open>the loop of \<open>_run\<close>: the packets sent on\<close>
  "run_packets [] fw = Some ([], fw)"
| "run_packets ((now, p) # ps) fw = (case process_packet now p fw of
     None \<Rightarrow> None
   | Some (send, p', fw') \<Rightarrow> map_option (\<lambda>r. ((if send then [p'] else []) @ fst r, snd r)) (run_packets ps fw'))"

section \<open>The option loop returns\<close>

lemma nested_if:
  "(if \<not> a then x else if b then x else if c then y else if d then x else if e \<or> f then x else if g then z else w)
   = (if a \<and> \<not> b then if c then y else if \<not> d \<and> \<not> e \<and> \<not> f then if g then z else w else x else x)"
  by simp

lemma mss_scan_step:
  "mss_scan raw limit offset = (if offset < limit \<and> raw ! offset \<noteq> 0
     then if raw ! offset = 1 then mss_scan raw limit (offset + 1)
       else if \<not> offset + 1 \<ge> limit \<and> \<not> unat (raw ! (offset + 1)) < 2 \<and> \<not> offset + unat (raw ! (offset + 1)) > limit
       then if raw ! offset = 2 \<and> unat (raw ! (offset + 1)) = 4 then Some (Some offset)
         else mss_scan raw limit (offset + unat (raw ! (offset + 1)))
       else Some None
     else Some None)"
  by (subst mss_scan.simps) (rule nested_if)

lemma nested_if_found:
  assumes "(if a then if c then y else if d then if g then Some (Some o1) else w else Some None else Some None)
     = Some (Some k)"
  shows "a \<and> c \<and> y = Some (Some k) \<or> a \<and> \<not> c \<and> d \<and> g \<and> k = o1 \<or> a \<and> \<not> c \<and> d \<and> \<not> g \<and> w = Some (Some k)"
  using assms by (auto split: if_splits)

lemma nested_if_defined:
  assumes "a \<Longrightarrow> \<exists>r. y = Some r" "a \<Longrightarrow> d \<Longrightarrow> \<exists>r. w = Some r"
  shows "\<exists>r. (if a then if c then y else if d then if g then Some z else w else Some u else Some v) = Some r"
  using assms by auto

lemma mss_scan_total: "\<exists>r. mss_scan raw limit offset = Some r"
proof (induction "limit - offset" arbitrary: offset rule: less_induct)
  case less
  show ?case
  proof (subst mss_scan_step, rule nested_if_defined)
    assume "offset < limit \<and> raw ! offset \<noteq> 0"
    then show "\<exists>r. mss_scan raw limit (offset + 1) = Some r" by (intro less) linarith
  next
    assume "offset < limit \<and> raw ! offset \<noteq> 0"
      "\<not> offset + 1 \<ge> limit \<and> \<not> unat (raw ! (offset + 1)) < 2 \<and> \<not> offset + unat (raw ! (offset + 1)) > limit"
    then show "\<exists>r. mss_scan raw limit (offset + unat (raw ! (offset + 1))) = Some r"
      by (intro less) linarith
  qed
qed

lemma mss_scan_cases:
  assumes "mss_scan raw limit offset = Some (Some k)"
  obtains (no_op) "offset < limit" "raw ! offset = 1" "mss_scan raw limit (offset + 1) = Some (Some k)"
  | (here) "k = offset" "offset + 4 \<le> limit" "raw ! offset = 2" "unat (raw ! (offset + 1)) = 4"
  | (skip) n where "n = unat (raw ! (offset + 1))" "offset + 1 < limit" "2 \<le> n" "offset + n \<le> limit"
      "raw ! offset \<noteq> 0" "raw ! offset \<noteq> 1" "\<not> (raw ! offset = 2 \<and> n = 4)"
      "mss_scan raw limit (offset + n) = Some (Some k)"
proof -
  define n where "n = unat (raw ! (offset + 1))"
  have "(offset < limit \<and> raw ! offset \<noteq> 0) \<and> raw ! offset = 1 \<and> mss_scan raw limit (offset + 1) = Some (Some k)
    \<or> (offset < limit \<and> raw ! offset \<noteq> 0) \<and> raw ! offset \<noteq> 1 \<and> (\<not> offset + 1 \<ge> limit \<and> \<not> n < 2 \<and> \<not> offset + n > limit)
      \<and> (raw ! offset = 2 \<and> n = 4) \<and> k = offset
    \<or> (offset < limit \<and> raw ! offset \<noteq> 0) \<and> raw ! offset \<noteq> 1 \<and> (\<not> offset + 1 \<ge> limit \<and> \<not> n < 2 \<and> \<not> offset + n > limit)
      \<and> \<not> (raw ! offset = 2 \<and> n = 4) \<and> mss_scan raw limit (offset + n) = Some (Some k)"
    using nested_if_found [OF assms [unfolded mss_scan_step [of raw limit offset]], folded n_def] .
  then consider "offset < limit" "raw ! offset = 1" "mss_scan raw limit (offset + 1) = Some (Some k)"
    | "k = offset" "offset + 4 \<le> limit" "raw ! offset = 2" "n = 4"
    | "offset + 1 < limit" "2 \<le> n" "offset + n \<le> limit" "raw ! offset \<noteq> 0" "raw ! offset \<noteq> 1"
      "\<not> (raw ! offset = 2 \<and> n = 4)" "mss_scan raw limit (offset + n) = Some (Some k)"
    by linarith
  then show ?thesis
  proof cases
    case 1 then show ?thesis by (rule no_op)
  next
    case 2 then show ?thesis unfolding n_def by (rule here)
  next
    case 3 then show ?thesis by (rule skip [OF n_def])
  qed
qed

lemma mss_scan_here:
  "offset + 4 \<le> limit \<Longrightarrow> raw ! offset = 2 \<Longrightarrow> unat (raw ! (offset + 1)) = 4 \<Longrightarrow>
   mss_scan raw limit offset = Some (Some offset)"
  by (subst mss_scan.simps) simp

lemma mss_scan_range:
  "mss_scan raw limit offset = Some (Some k) \<Longrightarrow> offset \<le> k \<and> k + 4 \<le> limit"
proof (induction "limit - offset" arbitrary: offset rule: less_induct)
  case less
  from less.prems show ?case
  proof (cases rule: mss_scan_cases)
    case no_op
    with less.hyps [of "offset + 1"] show ?thesis by linarith
  next
    case (skip n)
    have "limit - (offset + n) < limit - offset" using skip(2,3) by linarith
    with less.hyps [of "offset + n"] skip(8) show ?thesis by linarith
  qed linarith
qed

lemma mss_scan_same:
  assumes "mss_scan raw limit offset = Some (Some k)"
    and "\<And>i. i < k + 2 \<Longrightarrow> raw' ! i = raw ! i"
  shows "mss_scan raw' limit offset = Some (Some k)"
  using assms(1)
proof (induction "limit - offset" arbitrary: offset rule: less_induct)
  case less
  have k: "offset \<le> k" using mss_scan_range [OF less.prems] by auto
  have same: "raw' ! offset = raw ! offset" "raw' ! (offset + 1) = raw ! (offset + 1)"
    using k by (auto intro!: assms(2))
  from less.prems show ?case
  proof (cases rule: mss_scan_cases)
    case no_op
    then have "mss_scan raw' limit (offset + 1) = Some (Some k)"
      by (intro less.hyps) linarith+
    with no_op(1,2) same show ?thesis by (subst mss_scan.simps) simp
  next
    case here
    with same show ?thesis by (metis mss_scan_here)
  next
    case (skip n)
    have "mss_scan raw' limit (offset + n) = Some (Some k)"
      using skip(2,3,8) by (intro less.hyps) linarith+
    moreover have "offset < limit" using skip(2) by linarith
    ultimately show ?thesis
      using skip same by (subst mss_scan_step) (simp only: same simp_thms if_True if_False not_less not_le)
  qed
qed

text \<open>C19: Limiting the segment size returns for any bytes of a TCP header, truncated or malformed
  ones included: it keeps their number and changes at most the two bytes of the MSS option it
  found; the option then found in the header is at most the limit.\<close>

theorem mss_clamp_returns:
  assumes "mss \<le> 65535"
  shows "\<exists>changed raw'. clamp_tcp_mss mss raw header_len = Some (changed, raw') \<and> length raw' = length raw
    \<and> (\<forall>i. i < length raw \<and> raw' ! i \<noteq> raw ! i \<longrightarrow>
         (\<exists>k. mss_scan raw (min header_len (length raw)) 20 = Some (Some k) \<and> 20 \<le> k \<and> (i = k + 2 \<or> i = k + 3)))
    \<and> (\<forall>k. mss_scan raw' (min header_len (length raw)) 20 = Some (Some k) \<longrightarrow> option_mss raw' k \<le> mss)"
proof -
  let ?limit = "min header_len (length raw)"
  obtain r where r: "mss_scan raw ?limit 20 = Some r" using mss_scan_total by blast
  show ?thesis
  proof (cases "\<exists>k. r = Some k \<and> option_mss raw k > mss")
    case False
    then have "clamp_tcp_mss mss raw header_len = Some (False, raw)"
      by (cases r) (auto simp: clamp_tcp_mss_def r)
    with False r show ?thesis by auto
  next
    case True
    then obtain k where k: "r = Some k" "option_mss raw k > mss" by blast
    define raw' where "raw' = take (k + 2) raw @ be16 mss @ drop (k + 4) raw"
    have range: "20 \<le> k" "k + 4 \<le> ?limit" using mss_scan_range r k(1) by blast+
    then have l: "k + 4 \<le> length raw" by simp
    then have len: "length raw' = length raw" by (simp add: raw'_def)
    have same: "raw' ! i = raw ! i" if "i \<noteq> k + 2" "i \<noteq> k + 3" "i < length raw" for i
      using that l by (auto simp: raw'_def nth_append be16_def nth_Cons' min_def)
    have "mss_scan raw' ?limit 20 = Some (Some k)"
      by (rule mss_scan_same [OF r [unfolded k(1)]]) (use same l in auto)
    moreover have "pyslice (k + 2) (k + 4) raw' = be16 mss"
      using l by (simp add: raw'_def pyslice_def min_def be16_def)
    then have "option_mss raw' k = mss"
      using assms by (simp add: option_mss_def from_be_be16)
    moreover have "clamp_tcp_mss mss raw header_len = Some (True, raw')"
      using k by (simp add: clamp_tcp_mss_def r raw'_def)
    ultimately show ?thesis
      using len same r k(1) range by (metis nle_le option.inject)
  qed
qed


section \<open>Flows are kept\<close>

lemma clamp_tcp_mss_total: "\<exists>r. clamp_tcp_mss mss raw header_len = Some r"
  using mss_scan_total [of raw "min header_len (length raw)" 20]
  by (auto simp: clamp_tcp_mss_def split: option.splits)

lemma clamp_syn_shape:
  "\<exists>tr. clamp_syn fw crosses p = Some (p\<lparr>transport_of := tr\<rparr>) \<and> (tr = Udp \<longleftrightarrow> transport_of p = Udp)"
proof (cases "transport_of p")
  case (Tcp raw n syn)
  obtain r where "clamp_tcp_mss (fw_mss fw) raw n = Some r" using clamp_tcp_mss_total by blast
  then have "clamp_syn fw crosses p =
      Some (p\<lparr>transport_of := if syn \<and> crosses then Tcp (snd r) n True else transport_of p\<rparr>)"
    by (simp add: clamp_syn_def Tcp)
  then show ?thesis using Tcp by auto
qed (auto simp: clamp_syn_def intro: exI [of _ "transport_of p"])

lemma map_of_filter_Some: "map_of d k = Some v \<Longrightarrow> P (k, v) \<Longrightarrow> map_of (filter P d) k = Some v"
  by (induction d) (auto split: if_splits)

definition touches_flow :: "string \<Rightarrow> ip \<Rightarrow> int \<Rightarrow> fwd_packet \<Rightarrow> bool" where
  \<comment> \<open>a DNS packet of this client, protocol and client port\<close>
  "touches_flow proto client port p \<longleftrightarrow> protocol_of (transport_of p) = proto
     \<and> (parse_ipv4 (src_addr p) = Some client \<and> port_or_zero (src_port p) = port
          \<and> port_or_zero (dst_port p) = 53
        \<or> parse_ipv4 (dst_addr p) = Some client \<and> port_or_zero (dst_port p) = port
          \<and> port_or_zero (src_port p) = 53)"

definition same_setup :: "forwarder \<Rightarrow> forwarder \<Rightarrow> bool" where
  "same_setup fw fw' \<longleftrightarrow> fw_resolver fw' = fw_resolver fw \<and> fw_lan fw' = fw_lan fw \<and> fw_network fw' = fw_network fw
     \<and> fw_rewrite_dns fw' = fw_rewrite_dns fw \<and> fw_ttl fw' = fw_ttl fw"

lemma same_setup_refl [simp]: "same_setup fw fw" "same_setup fw (fw\<lparr>fw_flows := d\<rparr>)"
  by (simp_all add: same_setup_def)

lemma same_setup_client:
  "same_setup fw fw' \<Longrightarrow> is_client fw' = is_client fw"
  "same_setup fw fw' \<Longrightarrow> rewrite_private_dns fw' = rewrite_private_dns fw"
  by (auto simp: same_setup_def is_client_def rewrite_private_dns_def fun_eq_iff split: option.splits)

lemma ipv4_text_inj: "octets_ok a \<Longrightarrow> octets_ok b \<Longrightarrow> ipv4_text a = ipv4_text b \<longleftrightarrow> a = b"
  by (metis parse_ipv4_text option.inject)

lemma redirect_setup:
  "redirect_dns now s d p fw = (sd, p', fw') \<Longrightarrow> same_setup fw fw'"
  by (auto simp: redirect_dns_def remember_dns_def original_dns_def Let_def same_setup_def
      split: if_splits option.splits)

lemma redirect_keeps_flow:
  assumes r: "redirect_dns now s d p fw = (sd, p', fw')"
    and ok: "octets_ok s" "octets_ok d" "octets_ok client"
    and flow: "dict_get (fw_flows fw) (proto, ipv4_text client, port) = Some v"
    and other: "protocol_of (transport_of p) = proto \<Longrightarrow>
      \<not> (s = client \<and> port_or_zero (src_port p) = port \<and> port_or_zero (dst_port p) = 53)
      \<and> \<not> (d = client \<and> port_or_zero (dst_port p) = port \<and> port_or_zero (src_port p) = 53)"
  shows "dict_get (fw_flows fw') (proto, ipv4_text client, port) = Some v"
proof -
  define sp dp pr where "sp = port_or_zero (src_port p)" "dp = port_or_zero (dst_port p)" "pr = protocol_of (transport_of p)"
  note shape = redirect_dns_def [of now s d p fw, unfolded Let_def, folded sp_dp_pr_def]
  have inj: "ipv4_text s = ipv4_text client \<longleftrightarrow> s = client" "ipv4_text d = ipv4_text client \<longleftrightarrow> d = client"
    using ok ipv4_text_inj by blast+
  consider (ask) "dp = 53" "fw' = remember_dns pr (ipv4_text s) sp (ipv4_text d) now fw"
    | (answer) "sp = 53" "fw' = snd (original_dns pr (ipv4_text d) dp (pr = ''udp'') fw)" | (plain) "fw' = fw"
    using r unfolding shape by (auto split: if_splits)
  then show ?thesis
  proof cases
    case ask
    then have "(pr, ipv4_text s, sp) \<noteq> (proto, ipv4_text client, port)"
      using other inj(1) by (auto simp: sp_dp_pr_def)
    with ask flow show ?thesis by (auto simp: remember_dns_def)
  next
    case answer
    then have "(pr, ipv4_text d, dp) \<noteq> (proto, ipv4_text client, port)"
      using other inj(2) by (auto simp: sp_dp_pr_def)
    with answer flow show ?thesis by (auto simp: original_dns_def split: option.split)
  qed (use flow in simp)
qed

lemma process_packetE:
  assumes "process_packet now p fw = Some (send, p', fw')"
  shows "fw' = fw \<or> (\<exists>s d sd p1. parse_ipv4 (src_addr p) = Some s \<and> parse_ipv4 (dst_addr p) = Some d
    \<and> redirect_dns now s d p (expire_dns_flows now fw) = (sd, p1, fw'))"
  using assms
  by (auto simp: process_packet_def Let_def split: option.splits if_splits prod.splits)

lemma process_keeps_flow:
  assumes "process_packet now p fw = Some (send, p', fw')"
    and flow: "dict_get (fw_flows fw) (proto, ipv4_text client, port) = Some (orig, t)"
    and "now < t" "octets_ok client" "\<not> touches_flow proto client port p"
  shows "dict_get (fw_flows fw') (proto, ipv4_text client, port) = Some (orig, t) \<and> same_setup fw fw'"
proof (cases "fw' = fw")
  case False
  then obtain s d sd p1 where a: "parse_ipv4 (src_addr p) = Some s" "parse_ipv4 (dst_addr p) = Some d"
    and r: "redirect_dns now s d p (expire_dns_flows now fw) = (sd, p1, fw')"
    using process_packetE [OF assms(1)] by blast
  have "dict_get (fw_flows (expire_dns_flows now fw)) (proto, ipv4_text client, port) = Some (orig, t)"
    using flow assms(3) by (auto simp: dict_get_def expire_dns_flows_def intro: map_of_filter_Some)
  then have "dict_get (fw_flows fw') (proto, ipv4_text client, port) = Some (orig, t)"
    by (rule redirect_keeps_flow [OF r parse_ipv4_Some [OF a(1)] parse_ipv4_Some [OF a(2)] assms(4)])
      (use assms(5) a in \<open>auto simp: touches_flow_def\<close>)
  with redirect_setup [OF r] show ?thesis
    by (simp add: same_setup_def expire_dns_flows_def)
qed (use flow in simp)

lemma run_keeps_flow:
  assumes "run_packets ps fw = Some (out, fw')"
    and "dict_get (fw_flows fw) (proto, ipv4_text client, port) = Some (orig, t)"
    and "octets_ok client" "\<forall>(now, p)\<in>set ps. now < t \<and> \<not> touches_flow proto client port p"
  shows "dict_get (fw_flows fw') (proto, ipv4_text client, port) = Some (orig, t) \<and> same_setup fw fw'"
  using assms
proof (induction ps fw arbitrary: out rule: run_packets.induct)
  case (2 now p ps fw)
  then obtain send p1 fw1 rest where s: "process_packet now p fw = Some (send, p1, fw1)"
    and rest: "run_packets ps fw1 = Some (rest, fw')"
    by (auto split: option.splits)
  have "dict_get (fw_flows fw1) (proto, ipv4_text client, port) = Some (orig, t) \<and> same_setup fw fw1"
    using 2 by (intro process_keeps_flow [OF s]) auto
  with 2 s rest show ?case by (fastforce simp: same_setup_def)
qed simp

section \<open>A query and its answer\<close>

definition dns_query :: "transport \<Rightarrow> ip \<Rightarrow> int \<Rightarrow> ip \<Rightarrow> fwd_packet" where
  "dns_query tr client port server = \<lparr>src_addr = ipv4_text client, dst_addr = ipv4_text server,
     src_port = Some port, dst_port = Some 53, transport_of = tr\<rparr>"

definition dns_answer :: "transport \<Rightarrow> ip \<Rightarrow> ip \<Rightarrow> int \<Rightarrow> fwd_packet" where
  "dns_answer tr resolver client port = \<lparr>src_addr = ipv4_text resolver, dst_addr = ipv4_text client,
     src_port = Some 53, dst_port = Some port, transport_of = tr\<rparr>"

lemma query_redirected:
  assumes ok: "octets_ok client" "octets_ok server" "octets_ok resolver" and tr: "tr \<noteq> NoTransport"
    and fw: "is_client fw client" "rewrite_private_dns fw server" "fw_resolver fw = ipv4_text resolver"
  shows "\<exists>q fw1. process_packet now (dns_query tr client port server) fw = Some (True, q, fw1)
    \<and> src_addr q = ipv4_text client \<and> dst_addr q = ipv4_text resolver \<and> same_setup fw fw1
    \<and> dict_get (fw_flows fw1) (protocol_of tr, ipv4_text client, port) = Some (ipv4_text server, now + fw_ttl fw)"
proof -
  let ?p = "dns_query tr client port server" and ?fw = "expire_dns_flows now fw"
  have s: "same_setup fw ?fw" by (simp add: expire_dns_flows_def)
  then have c: "is_client ?fw client" "rewrite_private_dns ?fw server" "fw_resolver ?fw = ipv4_text resolver"
    "fw_ttl ?fw = fw_ttl fw"
    using fw same_setup_client [OF s] by (simp_all add: same_setup_def)
  define fw1 where
    "fw1 = remember_dns (protocol_of tr) (ipv4_text client) port (ipv4_text server) now ?fw"
  have "redirect_dns now client server ?p ?fw = ((client, resolver), ?p\<lparr>dst_addr := ipv4_text resolver\<rparr>, fw1)"
    using c ok by (simp add: redirect_dns_def dns_query_def port_or_zero_def parse_ipv4_text fw1_def)
  moreover obtain tr' where "clamp_syn fw1 (is_client ?fw client \<and> is_external resolver \<or>
      is_client ?fw server \<and> is_external client) (?p\<lparr>dst_addr := ipv4_text resolver\<rparr>)
      = Some (?p\<lparr>dst_addr := ipv4_text resolver, transport_of := tr'\<rparr>)"
    using clamp_syn_shape by blast
  ultimately have "process_packet now ?p fw
      = Some (True, ?p\<lparr>dst_addr := ipv4_text resolver, transport_of := tr'\<rparr>, fw1)"
    using ok tr by (simp add: process_packet_def dns_query_def parse_ipv4_text Let_def port_or_zero_def)
  moreover have "same_setup fw fw1"
    using s by (simp add: fw1_def remember_dns_def same_setup_def)
  ultimately show ?thesis
    using c(4) by (auto simp: dns_query_def fw1_def remember_dns_def)
qed

lemma answer_restored:
  assumes ok: "octets_ok client" "octets_ok server" "octets_ok resolver" and tr: "tr \<noteq> NoTransport"
    and fw: "is_client fw client" "\<not> is_client fw resolver" "fw_resolver fw = ipv4_text resolver"
    and flow: "dict_get (fw_flows fw) (protocol_of tr, ipv4_text client, port) = Some (ipv4_text server, t)" "now < t"
  shows "\<exists>a fw1. process_packet now (dns_answer tr resolver client port) fw = Some (True, a, fw1)
    \<and> src_addr a = ipv4_text server \<and> dst_addr a = ipv4_text client"
proof -
  let ?p = "dns_answer tr resolver client port" and ?fw = "expire_dns_flows now fw"
  have s: "same_setup fw ?fw" by (simp add: expire_dns_flows_def)
  then have c: "is_client ?fw client" "\<not> is_client ?fw resolver" "fw_resolver ?fw = ipv4_text resolver"
    using fw same_setup_client [OF s] by (simp_all add: same_setup_def)
  have f: "dict_get (fw_flows ?fw) (protocol_of tr, ipv4_text client, port) = Some (ipv4_text server, t)"
    using flow by (auto simp: dict_get_def expire_dns_flows_def intro: map_of_filter_Some)
  define fw1 where "fw1 = snd (original_dns (protocol_of tr) (ipv4_text client) port (protocol_of tr = ''udp'') ?fw)"
  have "redirect_dns now resolver client ?p ?fw = ((server, client), ?p\<lparr>src_addr := ipv4_text server\<rparr>, fw1)"
    using c ok f ipv4_text_props(1) [OF ok(2)]
    by (simp add: redirect_dns_def dns_answer_def port_or_zero_def parse_ipv4_text fw1_def original_dns_def)
  moreover obtain tr' where "clamp_syn fw1 (is_client ?fw resolver \<and> is_external client \<or>
      is_client ?fw client \<and> is_external server) (?p\<lparr>src_addr := ipv4_text server\<rparr>)
      = Some (?p\<lparr>src_addr := ipv4_text server, transport_of := tr'\<rparr>)"
    using clamp_syn_shape by blast
  ultimately have "process_packet now ?p fw
      = Some (True, ?p\<lparr>src_addr := ipv4_text server, transport_of := tr'\<rparr>, fw1)"
    using ok tr c(2) by (simp add: process_packet_def dns_answer_def parse_ipv4_text Let_def port_or_zero_def)
  then show ?thesis by (auto simp: dns_answer_def)
qed

text \<open>C14: A redirected DNS query and its answer fit together for the client. A query of a device to
  its router goes to the resolver; whatever other traffic passes, an answer of the resolver to the
  same client port within the life of the flow comes from the server the client asked, as long as
  no other DNS packet of that client port has passed in between.\<close>

theorem dns_answer_comes_from_asked_server:
  assumes ok: "octets_ok client" "octets_ok server" "octets_ok resolver"
    and tr: "tr \<noteq> NoTransport" "tr' \<noteq> NoTransport" "protocol_of tr' = protocol_of tr"
    and fw: "is_client fw client" "\<not> is_client fw resolver" "rewrite_private_dns fw server"
      "fw_resolver fw = ipv4_text resolver"
    and traffic: "\<forall>(t, p)\<in>set ps. t < now + fw_ttl fw \<and> \<not> touches_flow (protocol_of tr) client port p"
      "later < now + fw_ttl fw"
  shows "\<exists>q fw1 out fw2 a fw3.
    process_packet now (dns_query tr client port server) fw = Some (True, q, fw1)
    \<and> src_addr q = ipv4_text client \<and> dst_addr q = ipv4_text resolver
    \<and> run_packets ps fw1 = Some (out, fw2)
    \<and> process_packet later (dns_answer tr' resolver client port) fw2 = Some (True, a, fw3)
    \<and> src_addr a = ipv4_text server \<and> dst_addr a = ipv4_text client"
proof -
  have total: "\<exists>r. process_packet t p f = Some r" for t p f
  proof -
    have "\<exists>r. clamp_syn f' c p' = Some r" for f' c p' using clamp_syn_shape by blast
    then show ?thesis
      by (auto simp: process_packet_def Let_def split: option.split prod.split)
  qed
  then have run: "\<exists>r. run_packets ps f = Some r" for f
    by (induction ps arbitrary: f) (auto split: option.split, metis option.distinct(1))
  obtain q fw1 where q: "process_packet now (dns_query tr client port server) fw = Some (True, q, fw1)"
    "src_addr q = ipv4_text client" "dst_addr q = ipv4_text resolver" "same_setup fw fw1"
    "dict_get (fw_flows fw1) (protocol_of tr, ipv4_text client, port) = Some (ipv4_text server, now + fw_ttl fw)"
    using query_redirected [OF ok tr(1) fw(1,3,4)] by blast
  obtain out fw2 where r: "run_packets ps fw1 = Some (out, fw2)" using run [of fw1] by auto
  have flow: "dict_get (fw_flows fw2) (protocol_of tr, ipv4_text client, port) = Some (ipv4_text server, now + fw_ttl fw)"
    "same_setup fw1 fw2"
    using run_keeps_flow [OF r q(5) ok(1) traffic(1)] by auto
  with q(4) have s: "same_setup fw fw2" by (simp add: same_setup_def)
  then have "fw_resolver fw2 = ipv4_text resolver" using fw(4) by (simp add: same_setup_def)
  moreover have "is_client fw2 client" "\<not> is_client fw2 resolver"
    using fw(1,2) by (simp_all add: same_setup_client [OF s])
  ultimately obtain a fw3 where "process_packet later (dns_answer tr' resolver client port) fw2 = Some (True, a, fw3)"
    "src_addr a = ipv4_text server" "dst_addr a = ipv4_text client"
    using answer_restored [OF ok tr(2)] flow(1) traffic(2) unfolding tr(3) by blast
  with q r show ?thesis by blast
qed


section \<open>Concrete runs\<close>

definition sample_forwarder :: forwarder where
  "sample_forwarder = \<lparr>fw_resolver = ipv4_text [1, 1, 1, 1], fw_mss = 1360, fw_block_quic = False,
     fw_rewrite_dns = True, fw_ttl = 180,
     fw_lan = Some \<lparr>lan_address = ipv4_text [192, 168, 1, 5], lan_prefix = 24, lan_gateway = ipv4_text [192, 168, 1, 1]\<rparr>,
     fw_network = Some (quad 192 168 1 0, 24), fw_devices = [], fw_flows = []\<rparr>"

lemma dns_answer_comes_from_asked_server_witness:
  "\<exists>q fw1 out fw2 a fw3.
    process_packet 0 (dns_query Udp [192, 168, 1, 20] 5000 [192, 168, 1, 1]) sample_forwarder = Some (True, q, fw1)
    \<and> dst_addr q = ipv4_text [1, 1, 1, 1]
    \<and> run_packets [(10, dns_query Udp [192, 168, 1, 21] 5000 [192, 168, 1, 1])] fw1 = Some (out, fw2)
    \<and> process_packet 60 (dns_answer Udp [1, 1, 1, 1] [192, 168, 1, 20] 5000) fw2 = Some (True, a, fw3)
    \<and> src_addr a = ipv4_text [192, 168, 1, 1]"
proof -
  have "is_client sample_forwarder [192, 168, 1, 20]" "\<not> is_client sample_forwarder [1, 1, 1, 1]"
    "rewrite_private_dns sample_forwarder [192, 168, 1, 1]"
    by (simp_all add: is_client_def rewrite_private_dns_def sample_forwarder_def in_subnet_def subnet_of_def
        net_broadcast_def quad_def ipv4_num_def ipv4_text_inj octets_ok_def)
  moreover have "\<not> touches_flow (protocol_of Udp) [192, 168, 1, 20] 5000
      (dns_query Udp [192, 168, 1, 21] 5000 [192, 168, 1, 1])"
    by (simp add: touches_flow_def dns_query_def parse_ipv4_text octets_ok_def)
  ultimately have "\<exists>q fw1 out fw2 a fw3.
    process_packet 0 (dns_query Udp [192, 168, 1, 20] 5000 [192, 168, 1, 1]) sample_forwarder = Some (True, q, fw1)
    \<and> src_addr q = ipv4_text [192, 168, 1, 20] \<and> dst_addr q = ipv4_text [1, 1, 1, 1]
    \<and> run_packets [(10, dns_query Udp [192, 168, 1, 21] 5000 [192, 168, 1, 1])] fw1 = Some (out, fw2)
    \<and> process_packet 60 (dns_answer Udp [1, 1, 1, 1] [192, 168, 1, 20] 5000) fw2 = Some (True, a, fw3)
    \<and> src_addr a = ipv4_text [192, 168, 1, 1] \<and> dst_addr a = ipv4_text [192, 168, 1, 20]"
    by (intro dns_answer_comes_from_asked_server) (simp_all add: octets_ok_def sample_forwarder_def)
  then show ?thesis by blast
qed

lemma mss_clamp_returns_witness:
  "\<exists>changed raw'. clamp_tcp_mss 1360 (replicate 20 0 @ [1, 2, 4, 5, 180, 0]) 28 = Some (changed, raw')
    \<and> length raw' = 26"
  using mss_clamp_returns [of 1360 "replicate 20 0 @ [1, 2, 4, 5, 180, 0]" 28] by auto


end
