(* ===== verification/Update_Checker.thy ===== *)
theory Update_Checker
  imports Py_Json "HOL-Library.Product_Lexorder"
begin

text \<open>
  The update check, \<open>update_checker.py\<close>: versions and their precedence, the repository URL, the
  choice of the asset, and \<open>check_latest_release\<close>. What the HTTP client answers is an argument.
  An error is its class; the limit on the digits of \<open>int()\<close> is not modelled.
\<close>

datatype update_error = InvalidRepositoryUrl | InvalidVersion | UpdateServiceError | UpdateCheckError

section \<open>Versions\<close>

record sem_version =
  sv_major :: nat
  sv_minor :: nat
  sv_patch :: nat
  sv_prerelease :: "string list"
  sv_build :: "string list"

definition is_ascii_alnum :: "char \<Rightarrow> bool" where
  "is_ascii_alnum c \<longleftrightarrow> is_ascii_alpha c \<or> is_ascii_digit c"

definition ident_char :: "char \<Rightarrow> bool" where
  "ident_char c \<longleftrightarrow> is_ascii_alnum c \<or> c = CHR ''-''"

definition ident_ok :: "string \<Rightarrow> bool" where
  "ident_ok s \<longleftrightarrow> s \<noteq> [] \<and> list_all ident_char s"

definition core_number :: "string \<Rightarrow> nat option" where
  \<comment> \<open>\<open>0|[1-9]\d*\<close>\<close>
  "core_number s = (if s \<noteq> [] \<and> list_all is_ascii_digit s \<and> (s = ''0'' \<or> hd s \<noteq> CHR ''0'')
     then digits_val 0 False s else None)"

definition is_numeric :: "string \<Rightarrow> bool" where
  \<comment> \<open>\<open>identifier.isdigit()\<close>\<close>
  "is_numeric s \<longleftrightarrow> s \<noteq> [] \<and> list_all is_ascii_digit s"

definition leading_zero :: "string \<Rightarrow> bool" where
  "leading_zero s \<longleftrightarrow> is_numeric s \<and> length s > 1 \<and> startswith s ''0''"

definition optional_part :: "string \<Rightarrow> string \<times> string \<times> string \<Rightarrow> string list option" where
  \<comment> \<open>the identifiers behind a separator, if there is one\<close>
  "optional_part sep parts = (case parts of (_, found, rest) \<Rightarrow>
     if found = [] then Some []
     else let ids = split_on (CHR ''.'') rest in if list_all ident_ok ids then Some ids else None)"

definition match_semver :: "string \<Rightarrow> sem_version option" where
  "match_semver raw =
     (let body = (if raw \<noteq> [] \<and> hd raw \<in> {CHR ''v'', CHR ''V''} then tl raw else raw);
          plus = str_partition ''+'' body;
          dash = str_partition ''-'' (fst plus)
      in case (map core_number (split_on (CHR ''.'') (fst dash)), optional_part ''-'' dash, optional_part ''+'' plus) of
        ([Some a, Some b, Some c], Some pre, Some build) \<Rightarrow>
          Some \<lparr>sv_major = a, sv_minor = b, sv_patch = c, sv_prerelease = pre, sv_build = build\<rparr>
      | _ \<Rightarrow> None)"

definition parse_version :: "string \<Rightarrow> update_error + sem_version" where
  "parse_version value = (case match_semver (strip value) of
     None \<Rightarrow> Inl InvalidVersion
   | Some v \<Rightarrow> if list_ex leading_zero (sv_prerelease v) then Inl InvalidVersion else Inr v)"

definition version_str :: "sem_version \<Rightarrow> string" where
  "version_str v = nat_str (sv_major v) @ ''.'' @ nat_str (sv_minor v) @ ''.'' @ nat_str (sv_patch v)
     @ (if sv_prerelease v \<noteq> [] then ''-'' @ join ''.'' (sv_prerelease v) else [])
     @ (if sv_build v \<noteq> [] then ''+'' @ join ''.'' (sv_build v) else [])"

definition ident_number :: "string \<Rightarrow> nat" where
  "ident_number s = (case digits_val 0 False s of Some n \<Rightarrow> n | None \<Rightarrow> 0)"

fun compare_idents :: "string list \<Rightarrow> string list \<Rightarrow> int" where
  \<comment> \<open>the loop over \<open>zip\<close>, then the lengths\<close>
  "compare_idents [] [] = 0"
| "compare_idents [] (r # rs) = - 1"
| "compare_idents (l # ls) [] = 1"
| "compare_idents (l # ls) (r # rs) =
     (if l = r then compare_idents ls rs
      else if is_numeric l \<and> is_numeric r then (if ident_number l < ident_number r then - 1 else 1)
      else if is_numeric l \<noteq> is_numeric r then (if is_numeric l then - 1 else 1)
      else if l < r then - 1 else 1)"

definition precedence_compare :: "sem_version \<Rightarrow> sem_version \<Rightarrow> int" where
  "precedence_compare v w =
     (let cv = (sv_major v, sv_minor v, sv_patch v); cw = (sv_major w, sv_minor w, sv_patch w)
      in if cv \<noteq> cw then (if cv < cw then - 1 else 1)
      else if sv_prerelease v = [] \<and> sv_prerelease w = [] then 0
      else if sv_prerelease v = [] then 1
      else if sv_prerelease w = [] then - 1
      else compare_idents (sv_prerelease v) (sv_prerelease w))"

definition version_eq :: "sem_version \<Rightarrow> sem_version \<Rightarrow> bool" where
  "version_eq v w \<longleftrightarrow> precedence_compare v w = 0"

definition version_lt :: "sem_version \<Rightarrow> sem_version \<Rightarrow> bool" where
  "version_lt v w \<longleftrightarrow> precedence_compare v w < 0"

definition version_gt :: "sem_version \<Rightarrow> sem_version \<Rightarrow> bool" where
  \<comment> \<open>\<open>v > w\<close> as \<open>total_ordering\<close> derives it: not \<open>v < w\<close> and not \<open>v == w\<close>\<close>
  "version_gt v w \<longleftrightarrow> \<not> version_lt v w \<and> \<not> version_eq v w"

section \<open>The precedence of SemVer 2.0.0\<close>

datatype ident_key = Num nat | Alpha string

instantiation ident_key :: linorder
begin

fun less_eq_ident_key :: "ident_key \<Rightarrow> ident_key \<Rightarrow> bool" where
  "less_eq_ident_key (Num m) (Num n) = (m \<le> n)"
| "less_eq_ident_key (Num m) (Alpha t) = True"
| "less_eq_ident_key (Alpha s) (Num n) = False"
| "less_eq_ident_key (Alpha s) (Alpha t) = (s \<le> t)"

definition less_ident_key :: "ident_key \<Rightarrow> ident_key \<Rightarrow> bool" where
  "less_ident_key a b \<longleftrightarrow> a \<le> b \<and> \<not> b \<le> a"

instance
proof
  fix a b c :: ident_key
  show "(a < b) = (a \<le> b \<and> \<not> b \<le> a)" by (rule less_ident_key_def)
  show "a \<le> a" by (cases a) auto
  show "a \<le> b \<Longrightarrow> b \<le> c \<Longrightarrow> a \<le> c" by (cases a; cases b; cases c) auto
  show "a \<le> b \<Longrightarrow> b \<le> a \<Longrightarrow> a = b" by (cases a; cases b) auto
  show "a \<le> b \<or> b \<le> a" by (cases a; cases b) auto
qed

end

lemma ident_key_less [simp]:
  "Num m < Num n \<longleftrightarrow> m < n" "Num m < Alpha t" "\<not> Alpha s < Num n" "Alpha s < Alpha t \<longleftrightarrow> s < t"
  by (auto simp: less_ident_key_def)

definition ident_key :: "string \<Rightarrow> ident_key" where
  "ident_key s = (if is_numeric s then Num (ident_number s) else Alpha s)"

definition version_key :: "sem_version \<Rightarrow> nat \<times> nat \<times> nat \<times> bool \<times> ident_key list" where
  \<comment> \<open>a release is above its pre-releases; a shorter list of identifiers is below its extensions\<close>
  "version_key v = (sv_major v, sv_minor v, sv_patch v, sv_prerelease v = [], map ident_key (sv_prerelease v))"

definition version_ok :: "sem_version \<Rightarrow> bool" where
  "version_ok v \<longleftrightarrow> list_all ident_ok (sv_prerelease v) \<and> list_all ident_ok (sv_build v)
     \<and> \<not> list_ex leading_zero (sv_prerelease v)"

definition order_sign :: "'a :: linorder \<Rightarrow> 'a \<Rightarrow> int" where
  "order_sign a b = (if a < b then - 1 else if a = b then 0 else 1)"

section \<open>Comparison\<close>

lemma foldl_digits_less:
  "list_all is_ascii_digit s \<Longrightarrow> foldl (\<lambda>a c. a * 10 + digit_val c) n s \<ge> n"
proof (induction s arbitrary: n)
  case (Cons c s)
  have "n \<le> n * 10 + digit_val c" by simp
  also have "\<dots> \<le> foldl (\<lambda>a c. a * 10 + digit_val c) (n * 10 + digit_val c) s" using Cons by simp
  finally show ?case by simp
qed simp

lemma digit_char_val: "is_ascii_digit c \<Longrightarrow> digit_val c < 10 \<and> digit_char (digit_val c) = c"
  by (auto simp: is_ascii_digit_def digit_val_def digit_char_def Let_def)

lemma nat_str_number:
  assumes "list_all is_ascii_digit s" "s \<noteq> []" "s = ''0'' \<or> hd s \<noteq> CHR ''0''"
  shows "nat_str (foldl (\<lambda>a c. a * 10 + digit_val c) 0 s) = s"
  using assms
proof (induction s rule: rev_induct)
  case (snoc c s)
  let ?v = "foldl (\<lambda>a c. a * 10 + digit_val c) 0 s"
  have c: "digit_val c < 10" "digit_char (digit_val c) = c"
    using snoc.prems(1) digit_char_val by auto
  show ?case
  proof (cases "s = []")
    case True
    with c show ?thesis by (subst nat_str.simps) simp
  next
    case False
    with snoc.prems have h: "hd s \<noteq> CHR ''0''" "list_all is_ascii_digit s" by auto
    have "?v \<noteq> 0"
    proof (cases s)
      case (Cons d t)
      have "char_of (48 :: nat) = CHR ''0''" by code_simp
      with h Cons have "digit_val d \<noteq> 0"
        using digit_char_val [of d] by (intro notI) (simp add: digit_char_def)
      then show ?thesis
        using foldl_digits_less [of t "digit_val d"] h Cons by auto
    qed (use False in simp)
    then have "nat_str (?v * 10 + digit_val c) = nat_str ?v @ [digit_char (digit_val c)]"
      using c(1) by (subst nat_str.simps) simp
    with snoc.IH [OF h(2) False] h(1) c(2) show ?thesis by simp
  qed
qed simp

lemma ident_number_digits: "is_numeric s \<Longrightarrow> ident_number s = foldl (\<lambda>a c. a * 10 + digit_val c) 0 s"
  by (simp add: ident_number_def is_numeric_def digits_val_digits)

lemma nat_str_ident_number:
  assumes "is_numeric s" "\<not> leading_zero s"
  shows "nat_str (ident_number s) = s"
proof -
  from assms(1) have d: "list_all is_ascii_digit s" "s \<noteq> []" by (simp_all add: is_numeric_def)
  have "s = ''0'' \<or> hd s \<noteq> CHR ''0''"
  proof (rule ccontr)
    assume c: "\<not> ?thesis"
    with d(2) obtain t where t: "s = CHR ''0'' # t" by (cases s) auto
    with c have "length s > 1" by (cases t) auto
    with t assms show False by (simp add: leading_zero_def startswith_def)
  qed
  from nat_str_number [OF d this] show ?thesis by (simp only: ident_number_digits [OF assms(1)])
qed

lemma ident_key_eq:
  assumes "\<not> leading_zero s" "\<not> leading_zero t"
  shows "ident_key s = ident_key t \<longleftrightarrow> s = t"
proof -
  have "s = t" if "is_numeric s" "is_numeric t" "ident_number s = ident_number t"
    using nat_str_ident_number [OF that(1) assms(1)] nat_str_ident_number [OF that(2) assms(2)] that(3) by metis
  then show ?thesis unfolding ident_key_def by (metis ident_key.inject ident_key.distinct(1))
qed

lemma compare_idents_key:
  "\<not> list_ex leading_zero ls \<Longrightarrow> \<not> list_ex leading_zero rs \<Longrightarrow>
   compare_idents ls rs = order_sign (map ident_key ls) (map ident_key rs)"
proof (induction ls rs rule: compare_idents.induct)
  case (4 l ls r rs)
  then have eq: "ident_key l = ident_key r \<longleftrightarrow> l = r" by (simp add: ident_key_eq)
  show ?case
  proof (cases "l = r")
    case True
    with 4 show ?thesis by (simp add: order_sign_def)
  next
    case False
    with eq show ?thesis
      by (auto simp: order_sign_def ident_key_def split: if_splits)
  qed
qed (simp_all add: order_sign_def)

text \<open>C17: Versions compare as SemVer 2.0.0 orders them. For versions without leading zeros in numeric
  pre-release identifiers, which \<open>SemVersion.parse\<close> guarantees, the comparison of the code is the
  order of the keys: the three numbers, then release above pre-release, then the identifiers from
  left to right with numbers below text and a prefix below its extensions. So the versions are
  totally ordered up to build data.\<close>

theorem precedence_is_semver_order:
  assumes "\<not> list_ex leading_zero (sv_prerelease v)" "\<not> list_ex leading_zero (sv_prerelease w)"
  shows "precedence_compare v w = order_sign (version_key v) (version_key w)"
proof -
  have "compare_idents (sv_prerelease v) (sv_prerelease w)
      = order_sign (map ident_key (sv_prerelease v)) (map ident_key (sv_prerelease w))"
    using assms by (rule compare_idents_key)
  then show ?thesis
    by (auto simp: precedence_compare_def version_key_def order_sign_def Let_def)
qed

lemma precedence_is_semver_order_witness:
  "precedence_compare \<lparr>sv_major = 1, sv_minor = 1, sv_patch = 0, sv_prerelease = [''rc'', ''2''], sv_build = []\<rparr>
     \<lparr>sv_major = 1, sv_minor = 1, sv_patch = 0, sv_prerelease = [''rc'', ''10''], sv_build = []\<rparr> = - 1"
proof -
  let ?v = "\<lparr>sv_major = 1, sv_minor = 1, sv_patch = 0, sv_prerelease = [''rc'', ''2''], sv_build = []\<rparr>"
  let ?w = "\<lparr>sv_major = 1, sv_minor = 1, sv_patch = 0, sv_prerelease = [''rc'', ''10''], sv_build = []\<rparr>"
  have "\<not> list_ex leading_zero (sv_prerelease ?v)" "\<not> list_ex leading_zero (sv_prerelease ?w)"
    "ident_key ''2'' < ident_key ''10''"
    by code_simp+
  moreover from this(3) have "ident_key ''2'' \<noteq> ident_key ''10''" by (rule less_imp_neq)
  ultimately show ?thesis
    by (subst precedence_is_semver_order) (auto simp: version_key_def order_sign_def)
qed

section \<open>Parsing and printing\<close>

lemma find_from_char:
  "c \<notin> set a \<Longrightarrow> find_from [c] (a @ c # b) i = Some (i + length a)"
  "c \<notin> set s \<Longrightarrow> find_from [c] s i = None"
proof -
  show "c \<notin> set a \<Longrightarrow> find_from [c] (a @ c # b) i = Some (i + length a)"
    by (induction a arbitrary: i) (subst find_from.simps, auto)+
  show "c \<notin> set s \<Longrightarrow> find_from [c] s i = None"
    by (induction s arbitrary: i) (subst find_from.simps, auto)+
qed

lemma partition_char:
  "c \<notin> set a \<Longrightarrow> str_partition [c] (a @ c # b) = (a, [c], b)"
  "c \<notin> set s \<Longrightarrow> str_partition [c] s = (s, [], [])"
  by (simp_all add: str_partition_def find_sub_def find_from_char)

lemma core_number_nat_str: "core_number (nat_str n) = Some n"
proof (cases "n = 0")
  case True
  then show ?thesis by (simp add: core_number_def nat_str_zero is_ascii_digit_def digit_val_def)
next
  case False
  then show ?thesis using nat_str_digits [of n] by (simp add: core_number_def hd_nat_str)
qed

lemma ident_char_not:
  "ident_char c \<Longrightarrow> c \<noteq> CHR ''.'' \<and> c \<noteq> CHR ''+'' \<and> \<not> is_space c"
  by (auto simp: ident_char_def is_ascii_alnum_def is_ascii_alpha_def is_ascii_digit_def is_space_def Let_def)

lemma set_join: "set (join sep xs) \<subseteq> \<Union> (set ` set xs) \<union> set sep"
  by (induction sep xs rule: join.induct) auto

lemma idents_text:
  assumes "list_all ident_ok ids" "ids \<noteq> []"
  shows "split_on (CHR ''.'') (join ''.'' ids) = ids" "CHR ''+'' \<notin> set (join ''.'' ids)"
    "\<forall>c\<in>set (join ''.'' ids). \<not> is_space c"
proof -
  have ch: "ident_char c" if "c \<in> set s" "s \<in> set ids" for c s
    using assms(1) that by (auto simp: list_all_iff ident_ok_def)
  then have "\<forall>s\<in>set ids. CHR ''.'' \<notin> set s" using ident_char_not by blast
  then show "split_on (CHR ''.'') (join ''.'' ids) = ids" using assms(2) by (rule split_on_join)
  have "c = CHR ''.'' \<or> ident_char c" if "c \<in> set (join ''.'' ids)" for c
    using set_join [of "''.''" ids] that ch by auto
  moreover have "\<not> is_space CHR ''.''" by code_simp
  ultimately show "CHR ''+'' \<notin> set (join ''.'' ids)" "\<forall>c\<in>set (join ''.'' ids). \<not> is_space c"
    using ident_char_not by fastforce+
qed

lemma stripped_no_space: "\<forall>c\<in>set s. \<not> is_space c \<Longrightarrow> strip s = s"
  by (intro strip_stripped) (auto simp: stripped_def)

lemma version_roundtrip:
  assumes "version_ok v"
  shows "parse_version (version_str v) = Inr v"
proof -
  define core where "core = join ''.'' [nat_str (sv_major v), nat_str (sv_minor v), nat_str (sv_patch v)]"
  define pre where "pre = (if sv_prerelease v \<noteq> [] then ''-'' @ join ''.'' (sv_prerelease v) else [])"
  define build where "build = (if sv_build v \<noteq> [] then ''+'' @ join ''.'' (sv_build v) else [])"
  have shape: "version_str v = core @ pre @ build"
    by (simp add: version_str_def core_def pre_def build_def)
  have digit: "\<forall>c\<in>set (nat_str n). is_ascii_digit c" for n
    using nat_str_digits [of n] by (simp add: list_all_iff)
  have dot: "\<forall>x\<in>set [nat_str (sv_major v), nat_str (sv_minor v), nat_str (sv_patch v)]. CHR ''.'' \<notin> set x"
    using digit digit_not(4) by auto
  have core: "is_ascii_digit c \<or> c = CHR ''.''" if "c \<in> set core" for c
    using set_join [of "''.''"] that digit unfolding core_def by fastforce
  then have no: "CHR ''+'' \<notin> set core" "CHR ''-'' \<notin> set core" "\<forall>c\<in>set core. \<not> is_space c"
    using digit_not by (fastforce simp: is_space_def)+
  have ids: "list_all ident_ok (sv_prerelease v)" "list_all ident_ok (sv_build v)"
    "\<not> list_ex leading_zero (sv_prerelease v)"
    using assms by (simp_all add: version_ok_def)
  have pre: "CHR ''+'' \<notin> set pre" "\<forall>c\<in>set pre. \<not> is_space c"
    using idents_text(2,3) [OF ids(1)] by (auto simp: pre_def is_space_def)
  have build: "\<forall>c\<in>set build. \<not> is_space c"
    using idents_text(3) [OF ids(2)] by (auto simp: build_def is_space_def)
  have strip: "strip (version_str v) = version_str v"
    unfolding shape using no(3) pre(2) build by (intro stripped_no_space) auto
  have "core \<noteq> []" by (simp add: core_def)
  then have "hd (version_str v) = hd core" "hd core \<in> set core" by (simp_all add: shape)
  then have h: "hd (version_str v) \<notin> {CHR ''v'', CHR ''V''}"
    using core [of "hd core"] by (auto simp: is_ascii_digit_def)
  have plus: "str_partition ''+'' (version_str v) = (core @ pre, if sv_build v = [] then [] else ''+'', join ''.'' (sv_build v))"
    using partition_char(1) [of "CHR ''+''" "core @ pre" "join ''.'' (sv_build v)"]
      partition_char(2) [of "CHR ''+''" "core @ pre"] no(1) pre(1)
    by (auto simp: shape build_def)
  have dash: "str_partition ''-'' (core @ pre) = (core, if sv_prerelease v = [] then [] else ''-'', join ''.'' (sv_prerelease v))"
    using partition_char(1) [of "CHR ''-''" core "join ''.'' (sv_prerelease v)"] partition_char(2) [of "CHR ''-''" core] no(2)
    by (auto simp: pre_def)
  have "split_on (CHR ''.'') core = [nat_str (sv_major v), nat_str (sv_minor v), nat_str (sv_patch v)]"
    unfolding core_def by (rule split_on_join [OF dot]) simp
  then have "match_semver (version_str v) = Some v"
    using h plus dash ids(1,2) idents_text(1)
    by (auto simp: match_semver_def optional_part_def core_number_nat_str)
  then show ?thesis
    using ids(3) strip by (simp add: parse_version_def)
qed

lemma parse_version_ok:
  assumes "parse_version s = Inr v" shows "version_ok v"
proof -
  from assms have m: "match_semver (strip s) = Some v" and z: "\<not> list_ex leading_zero (sv_prerelease v)"
    by (auto simp: parse_version_def split: option.splits if_splits)
  have opt: "list_all ident_ok ids" if "optional_part sep parts = Some ids" for sep parts ids
    using that by (auto simp: optional_part_def Let_def split: prod.splits if_splits)
  from m have "list_all ident_ok (sv_prerelease v) \<and> list_all ident_ok (sv_build v)"
    unfolding match_semver_def Let_def by (auto split: list.splits option.splits dest: opt)
  with z show ?thesis by (simp add: version_ok_def)
qed


section \<open>The repository\<close>

record url_parts =
  url_scheme :: string
  url_netloc :: string
  url_path :: string
  url_query :: string
  url_fragment :: string

definition scheme_char :: "char \<Rightarrow> bool" where
  "scheme_char c \<longleftrightarrow> is_ascii_alnum c \<or> c \<in> {CHR ''+'', CHR ''-'', CHR ''.''}"

definition urlsplit :: "string \<Rightarrow> url_parts" where
  \<comment> \<open>\<open>urllib.parse.urlsplit\<close> of a text without brackets, which are rejected before\<close>
  "urlsplit raw =
     (let s = filter (\<lambda>c. of_char c \<notin> {9 :: nat, 10, 13}) (dropWhile (\<lambda>c. (of_char c :: nat) \<le> 32) raw);
          colon = str_partition '':'' s;
          known = (fst (snd colon) \<noteq> [] \<and> fst colon \<noteq> [] \<and> is_ascii_alpha (hd (fst colon))
                   \<and> list_all scheme_char (fst colon));
          scheme = (if known then lower (fst colon) else []);
          rest = (if known then snd (snd colon) else s);
          netloc = (if startswith rest ''//''
            then takeWhile (\<lambda>c. c \<notin> {CHR ''/'', CHR ''?'', CHR ''#''}) (drop 2 rest) else []);
          rest' = (if startswith rest ''//'' then drop (2 + length netloc) rest else rest);
          frag = str_partition ''#'' rest';
          qu = str_partition ''?'' (fst frag)
      in \<lparr>url_scheme = scheme, url_netloc = netloc, url_path = fst qu, url_query = snd (snd qu),
          url_fragment = snd (snd frag)\<rparr>)"

definition url_host_port :: "string \<Rightarrow> string \<times> string" where
  "url_host_port netloc = (let hp = str_partition '':'' (snd (snd (str_rpartition ''@'' netloc)))
     in (lower (fst hp), snd (snd hp)))"

definition url_port :: "string \<Rightarrow> nat option option" where
  \<comment> \<open>\<open>None\<close>: the \<open>ValueError\<close> of the property \<open>port\<close>\<close>
  "url_port text = (if text = [] then Some None
     else if list_all is_ascii_digit text then (case digits_val 0 False text of
         Some n \<Rightarrow> if n \<le> 65535 then Some (Some n) else None | None \<Rightarrow> None)
     else None)"

record github_repository =
  gh_owner :: string
  gh_name :: string

definition owner_ok :: "string \<Rightarrow> bool" where
  "owner_ok s \<longleftrightarrow> s \<noteq> [] \<and> is_ascii_alnum (hd s) \<and> length s \<le> 39
     \<and> list_all (\<lambda>c. is_ascii_alnum c \<or> c = CHR ''-'') (tl s)"

definition repository_ok :: "string \<Rightarrow> bool" where
  "repository_ok s \<longleftrightarrow> s \<noteq> []
     \<and> list_all (\<lambda>c. is_ascii_alnum c \<or> c \<in> {CHR ''.'', CHR ''_'', CHR ''-''}) s"

definition canonical_url :: "github_repository \<Rightarrow> string" where
  "canonical_url r = ''https://github.com/'' @ gh_owner r @ ''/'' @ gh_name r"

definition latest_release_api_url :: "github_repository \<Rightarrow> string" where
  "latest_release_api_url r = ''https://api.github.com/repos/'' @ gh_owner r @ ''/'' @ gh_name r @ ''/releases/latest''"

definition root_url :: "url_parts \<Rightarrow> bool" where
  "root_url u = (case url_host_port (url_netloc u) of (host, port) \<Rightarrow>
     url_scheme u = ''https'' \<and> host \<in> {''github.com'', ''www.github.com''}
     \<and> CHR ''@'' \<notin> set (url_netloc u) \<and> url_port port \<in> {Some None, Some (Some 443)}
     \<and> url_query u = [] \<and> url_fragment u = [])"

definition drop_git :: "string \<Rightarrow> string" where
  "drop_git name = (if endswith (lower name) ''.git'' then take (length name - 4) name else name)"

definition parse_github_repository :: "string \<Rightarrow> update_error + github_repository" where
  "parse_github_repository repo_url =
     (let u = urlsplit (strip repo_url) in
      if CHR ''['' \<in> set (url_netloc u) \<or> CHR '']'' \<in> set (url_netloc u) \<or> \<not> root_url u then Inl InvalidRepositoryUrl
      else case filter (\<lambda>p. p \<noteq> []) (split_on (CHR ''/'') (url_path u)) of
        [owner, name] \<Rightarrow> (if owner_ok owner \<and> repository_ok (drop_git name)
          then Inr \<lparr>gh_owner = owner, gh_name = drop_git name\<rparr> else Inl InvalidRepositoryUrl)
      | _ \<Rightarrow> Inl InvalidRepositoryUrl)"

section \<open>The release\<close>

definition text_of :: "obj \<Rightarrow> string \<Rightarrow> string" where
  \<comment> \<open>\<open>str(d.get(k) or "")\<close>\<close>
  "text_of d k = py_str (or_else (dict_get_or d k JNull) (JStr []))"

definition asset_score :: "string \<Rightarrow> nat" where
  "asset_score name = (let l = lower name in
     (if contains ''windows'' l \<or> contains ''win'' l then 20 else 0)
     + (if contains ''x64'' l \<or> contains ''amd64'' l then 10 else 0)
     + (if endswith l ''.exe'' then 6 else if endswith l ''.msi'' then 5 else if endswith l ''.zip'' then 4 else 0))"

definition asset_candidate :: "json \<Rightarrow> (nat \<times> string \<times> string) list" where
  "asset_candidate asset = (case asset of
     JObj d \<Rightarrow> (let name = strip (text_of d ''name''); url = strip (text_of d ''browser_download_url'')
       in if name = [] \<or> \<not> startswith url ''https://github.com/'' then [] else [(asset_score name, name, url)])
   | _ \<Rightarrow> [])"

fun first_best :: "(nat \<times> string \<times> string) \<Rightarrow> (nat \<times> string \<times> string) list \<Rightarrow> nat \<times> string \<times> string" where
  \<comment> \<open>\<open>max\<close> keeps the first of equal candidates\<close>
  "first_best b [] = b"
| "first_best b (c # cs) =
     first_best (if (fst c, lower (fst (snd c))) > (fst b, lower (fst (snd b))) then c else b) cs"

definition preferred_asset :: "obj \<Rightarrow> string \<times> string" where
  "preferred_asset payload = (case dict_get_or payload ''assets'' JNull of
     JArr assets \<Rightarrow> (case concat (map asset_candidate assets) of
         [] \<Rightarrow> ([], []) | c # cs \<Rightarrow> snd (first_best c cs))
   | _ \<Rightarrow> ([], []))"

record update_info =
  ui_repo_url :: string
  ui_current_version :: string
  ui_latest_version :: string
  ui_tag_name :: string
  ui_release_name :: string
  ui_release_url :: string
  ui_published_at :: string
  ui_release_notes :: string
  ui_prerelease :: bool
  ui_is_update_available :: bool
  ui_download_url :: string
  ui_asset_name :: string

record http_answer =
  ha_status :: int
  ha_rate_remaining :: string \<comment> \<open>the header \<open>X-RateLimit-Remaining\<close>, empty without it\<close>
  ha_json :: "json option" \<comment> \<open>\<open>None\<close>: \<open>response.json()\<close> raises\<close>

definition status_ok :: "http_answer \<Rightarrow> bool" where
  \<comment> \<open>every other status raises \<open>UpdateServiceError\<close>, with one of three messages\<close>
  "status_ok a = (if ha_status a = 404 then False
     else if ha_status a \<in> {403, 429} \<and> ha_rate_remaining a = ''0'' then False
     else ha_status a = 200)"

definition release_info :: "github_repository \<Rightarrow> sem_version \<Rightarrow> obj \<Rightarrow> update_error + update_info" where
  "release_info repository installed payload =
     (let tag = strip (text_of payload ''tag_name''); release_url = strip (text_of payload ''html_url'') in
      if tag = [] then Inl UpdateServiceError
      else case parse_version tag of
        Inl _ \<Rightarrow> Inl UpdateServiceError
      | Inr latest \<Rightarrow>
          if \<not> startswith (lower release_url) (lower (canonical_url repository @ ''/releases/'')) then Inl UpdateServiceError
          else let asset = preferred_asset payload in
            Inr \<lparr>ui_repo_url = canonical_url repository, ui_current_version = version_str installed,
              ui_latest_version = version_str latest, ui_tag_name = tag,
              ui_release_name = strip (py_str (or_else (dict_get_or payload ''name'' JNull) (JStr tag))),
              ui_release_url = release_url, ui_published_at = strip (text_of payload ''published_at''),
              ui_release_notes = text_of payload ''body'',
              ui_prerelease = truthy (dict_get_or payload ''prerelease'' (JBool False)),
              ui_is_update_available = version_gt latest installed, ui_download_url = snd asset,
              ui_asset_name = fst asset\<rparr>)"

definition check_latest_release ::
    "string \<Rightarrow> string \<Rightarrow> rat \<times> rat \<Rightarrow> (string \<Rightarrow> http_answer option) \<Rightarrow> update_error + update_info" where
  \<comment> \<open>the HTTP client is asked for a URL; \<open>None\<close> is a \<open>RequestException\<close>\<close>
  "check_latest_release repo_url current_version timeout client =
     rbind (parse_github_repository repo_url) (\<lambda>repository.
     rbind (parse_version current_version) (\<lambda>installed.
     if fst timeout \<le> 0 \<or> snd timeout \<le> 0 then Inl UpdateCheckError
     else case client (latest_release_api_url repository) of
       None \<Rightarrow> Inl UpdateServiceError
     | Some a \<Rightarrow> if \<not> status_ok a then Inl UpdateServiceError
         else (case ha_json a of
             Some (JObj payload) \<Rightarrow> release_info repository installed payload
           | _ \<Rightarrow> Inl UpdateServiceError)))"

lemma first_best_mem: "first_best b cs \<in> insert b (set cs)"
  by (induction b cs rule: first_best.induct) (auto split: if_splits)

lemma asset_candidate_url:
  "c \<in> set (asset_candidate a) \<Longrightarrow> startswith (snd (snd c)) ''https://github.com/''"
  by (auto simp: asset_candidate_def Let_def split: json.splits if_splits)

lemma preferred_asset_url:
  "snd (preferred_asset payload) = [] \<or> startswith (snd (preferred_asset payload)) ''https://github.com/''"
proof (cases "preferred_asset payload = ([], [])")
  case False
  then obtain assets c cs where l: "concat (map asset_candidate assets) = c # cs"
    and p: "preferred_asset payload = snd (first_best c cs)"
    by (auto simp: preferred_asset_def split: json.splits list.splits)
  have "first_best c cs \<in> set (concat (map asset_candidate assets))"
    unfolding l using first_best_mem [of c cs] by simp
  then obtain a where "first_best c cs \<in> set (asset_candidate a)" by auto
  with p show ?thesis by (simp add: asset_candidate_url)
qed simp

text \<open>C22: An update is offered only from the configured repository and only when it is newer. When
  the check answers, the two versions are SemVer texts, an update is offered exactly if the key of the
  latest is above the key of the installed version, the release page belongs to the repository, and
  the download, if any, comes from GitHub over HTTPS.\<close>

theorem update_offer_is_genuine:
  assumes "check_latest_release repo_url current timeout client = Inr info"
  shows "\<exists>repository installed latest. parse_github_repository repo_url = Inr repository
    \<and> parse_version current = Inr installed \<and> parse_version (ui_tag_name info) = Inr latest
    \<and> (ui_is_update_available info \<longleftrightarrow> version_key installed < version_key latest)
    \<and> parse_version (ui_current_version info) = Inr installed \<and> parse_version (ui_latest_version info) = Inr latest
    \<and> startswith (lower (ui_release_url info)) (lower (canonical_url repository @ ''/releases/''))
    \<and> (ui_download_url info = [] \<or> startswith (ui_download_url info) ''https://github.com/'')"
proof -
  from assms obtain repository installed payload where r: "parse_github_repository repo_url = Inr repository"
    and i: "parse_version current = Inr installed" and info: "release_info repository installed payload = Inr info"
    by (auto simp: check_latest_release_def rbind_eq_Inr_iff split: if_splits option.splits json.splits)
  from info obtain latest where l: "parse_version (ui_tag_name info) = Inr latest"
    and gt: "ui_is_update_available info = version_gt latest installed"
    and t: "ui_current_version info = version_str installed" "ui_latest_version info = version_str latest"
    and u: "startswith (lower (ui_release_url info)) (lower (canonical_url repository @ ''/releases/''))"
    and d: "ui_download_url info = snd (preferred_asset payload)"
    by (auto simp: release_info_def Let_def split: if_splits sum.splits)
  have ok: "version_ok installed" "version_ok latest" using i l parse_version_ok by blast+
  have "version_gt latest installed \<longleftrightarrow> version_key installed < version_key latest"
    using ok precedence_is_semver_order [of latest installed]
    by (auto simp: version_gt_def version_lt_def version_eq_def version_ok_def order_sign_def)
  with r i l gt t u d show ?thesis
    using version_roundtrip ok preferred_asset_url [of payload] by auto
qed


definition sample_client :: "string \<Rightarrow> http_answer option" where
  "sample_client url = Some \<lparr>ha_status = 200, ha_rate_remaining = [], ha_json = Some (JObj
     [(''tag_name'', JStr ''v1.2.0''), (''html_url'', JStr ''https://github.com/a/b/releases/tag/v1.2.0'')])\<rparr>"

lemma sample_answer:
  "\<exists>info. check_latest_release ''https://github.com/a/b'' ''1.1.0'' (1, 1) sample_client = Inr info
     \<and> ui_is_update_available info \<and> ui_tag_name info = ''v1.2.0''"
proof -
  have r: "parse_github_repository ''https://github.com/a/b'' = Inr \<lparr>gh_owner = ''a'', gh_name = ''b''\<rparr>"
    by code_simp
  have i: "parse_version ''1.1.0'' = Inr \<lparr>sv_major = 1, sv_minor = 1, sv_patch = 0, sv_prerelease = [], sv_build = []\<rparr>"
    by code_simp
  have "case release_info \<lparr>gh_owner = ''a'', gh_name = ''b''\<rparr>
      \<lparr>sv_major = 1, sv_minor = 1, sv_patch = 0, sv_prerelease = [], sv_build = []\<rparr>
      [(''tag_name'', JStr ''v1.2.0''), (''html_url'', JStr ''https://github.com/a/b/releases/tag/v1.2.0'')]
    of Inr info \<Rightarrow> ui_is_update_available info \<and> ui_tag_name info = ''v1.2.0'' | Inl _ \<Rightarrow> False"
    by code_simp
  with r i show ?thesis
    by (auto simp: check_latest_release_def sample_client_def status_ok_def split: sum.splits)
qed

lemma update_offer_is_genuine_witness:
  "\<exists>info installed latest. check_latest_release ''https://github.com/a/b'' ''1.1.0'' (1, 1) sample_client = Inr info
     \<and> parse_version ''1.1.0'' = Inr installed \<and> parse_version ''v1.2.0'' = Inr latest
     \<and> version_key installed < version_key latest"
proof -
  obtain info where i: "check_latest_release ''https://github.com/a/b'' ''1.1.0'' (1, 1) sample_client = Inr info"
    "ui_is_update_available info" "ui_tag_name info = ''v1.2.0''"
    using sample_answer by blast
  from update_offer_is_genuine [OF i(1)] i show ?thesis by auto
qed


end
