(* ===== verification/Url_Text.thy ===== *)
theory Url_Text
  imports Update_Checker
begin

text \<open>
  The parts of \<open>urllib.parse\<close> the configurations are read with: percent-decoding, the query list and the
  properties of the network location. Text is Latin-1 as everywhere; a code point beyond it, and the
  replacement of undecodable bytes, is the character \<open>SUB\<close>. Whether the text in brackets of a location is
  an IPv6 address is an argument, \<open>bracket_ok\<close>.
\<close>

section \<open>Percent-decoding\<close>

definition SUB :: char where "SUB = CHR 0x1A"

definition hex_value :: "char \<Rightarrow> nat option" where
  "hex_value c = (let n = of_char c :: nat in
     if 48 \<le> n \<and> n \<le> 57 then Some (n - 48) else if 65 \<le> n \<and> n \<le> 70 then Some (n - 55)
     else if 97 \<le> n \<and> n \<le> 102 then Some (n - 87) else None)"

fun percent_bytes :: "string \<Rightarrow> nat list" where
  \<comment> \<open>\<open>unquote_to_bytes\<close> of ASCII text\<close>
  "percent_bytes (p # a # b # s) = (if p = CHR 0x25 then
       (case (hex_value a, hex_value b) of
          (Some x, Some y) \<Rightarrow> (16 * x + y) # percent_bytes s
        | _ \<Rightarrow> 37 # percent_bytes (a # b # s))
     else of_char p # percent_bytes (a # b # s))"
| "percent_bytes (c # s) = of_char c # percent_bytes s"
| "percent_bytes [] = []"

definition conts :: "nat \<Rightarrow> nat \<Rightarrow> nat \<Rightarrow> nat list \<Rightarrow> nat" where
  \<comment> \<open>how many of the next bytes continue a sequence of \<open>n\<close> more bytes whose first lies in the range\<close>
  "conts n lo hi bs = (case bs of [] \<Rightarrow> 0
     | b # rest \<Rightarrow> if lo \<le> b \<and> b \<le> hi then Suc (length (takeWhile (\<lambda>c. 128 \<le> c \<and> c \<le> 191) (take (n - 1) rest))) else 0)"

definition lead :: "nat \<Rightarrow> (nat \<times> nat \<times> nat) option" where
  \<comment> \<open>the bytes that follow a first byte: how many, and the range of the first of them\<close>
  "lead a = (if 194 \<le> a \<and> a \<le> 223 then Some (1, 128, 191)
     else if a = 224 then Some (2, 160, 191) else if a = 237 then Some (2, 128, 159)
     else if 225 \<le> a \<and> a \<le> 239 then Some (2, 128, 191)
     else if a = 240 then Some (3, 144, 191) else if 241 \<le> a \<and> a \<le> 243 then Some (3, 128, 191)
     else if a = 244 then Some (3, 128, 143) else None)"

function utf8_text :: "nat list \<Rightarrow> string" where
  \<comment> \<open>\<open>bytes.decode("utf-8", "replace")\<close>: one replacement for each maximal ill-formed part\<close>
  "utf8_text [] = []"
| "utf8_text (a # bs) = (if a < 128 then char_of a # utf8_text bs
     else case lead a of None \<Rightarrow> SUB # utf8_text bs
     | Some (n, lo, hi) \<Rightarrow> (let k = conts n lo hi bs; code = (a - 192) * 64 + (hd bs - 128) in
         (if k = n \<and> n = 1 \<and> code \<le> 255 then char_of code else SUB) # utf8_text (drop k bs)))"
  by pat_completeness auto
termination
  by (relation "measure length") auto

definition is_ascii :: "char \<Rightarrow> bool" where
  "is_ascii c \<longleftrightarrow> (of_char c :: nat) < 128"

function ascii_runs :: "string \<Rightarrow> string" where
  \<comment> \<open>each run of ASCII characters is decoded, the other characters stay\<close>
  "ascii_runs [] = []"
| "ascii_runs (c # s) = (if is_ascii c
     then utf8_text (percent_bytes (takeWhile is_ascii (c # s))) @ ascii_runs (dropWhile is_ascii (c # s))
     else c # ascii_runs s)"
  by pat_completeness auto
termination
  by (relation "measure length") (auto simp: less_Suc_eq_le length_dropWhile_le)

definition unquote :: "string \<Rightarrow> string" where
  "unquote s = (if CHR 0x25 \<in> set s then ascii_runs s else s)"

section \<open>Queries\<close>

definition parse_qsl :: "string \<Rightarrow> (string \<times> string) list" where
  \<comment> \<open>\<open>parse_qsl(qs, keep_blank_values=True)\<close>\<close>
  "parse_qsl qs = map (\<lambda>nv. case str_partition ''='' nv of
       (name, _, v) \<Rightarrow> (unquote (replace_char CHR ''+'' '' '' name), unquote (replace_char CHR ''+'' '' '' v)))
     (filter (\<lambda>nv. nv \<noteq> []) (split_on CHR ''&'' qs))"

definition query_dict :: "string \<Rightarrow> (string, string) dict" where
  \<comment> \<open>\<open>{str(key).lower(): str(value) for key, value in parse_qsl(...)}\<close>\<close>
  "query_dict qs = dict_set_all (map (\<lambda>(k, v). (lower k, v)) (parse_qsl qs)) []"

section \<open>The network location\<close>

definition netloc_ok :: "(string \<Rightarrow> bool) \<Rightarrow> string \<Rightarrow> bool" where
  \<comment> \<open>\<open>urlsplit\<close> raises \<open>ValueError\<close> otherwise\<close>
  "netloc_ok bracket_ok netloc = (let open_b = CHR ''['' \<in> set netloc; close_b = CHR '']'' \<in> set netloc in
     (open_b \<longleftrightarrow> close_b) \<and> (open_b \<longrightarrow>
       bracket_ok (fst (str_partition '']'' (snd (snd (str_partition ''['' netloc)))))))"

definition split_url :: "(string \<Rightarrow> bool) \<Rightarrow> string \<Rightarrow> url_parts res" where
  "split_url bracket_ok url = (let u = urlsplit url in
     if netloc_ok bracket_ok (url_netloc u) then Inr u else Inl ValueError)"

definition host_info :: "string \<Rightarrow> string \<times> string option" where
  \<comment> \<open>host and port text\<close>
  "host_info netloc = (let hostinfo = snd (snd (str_rpartition ''@'' netloc));
       (_, have_open, bracketed) = str_partition ''['' hostinfo;
       (hostname, have_port, port) = (if have_open \<noteq> []
         then (let (h, _, rest) = str_partition '']'' bracketed; (_, hp, p) = str_partition '':'' rest in (h, hp, p))
         else str_partition '':'' hostinfo) in
     (hostname, if have_port = [] then None else Some port))"

definition hostname :: "url_parts \<Rightarrow> string" where
  \<comment> \<open>empty for \<open>None\<close>; a zone keeps its case\<close>
  "hostname u = (let (h, delim, zone) = str_partition ''%'' (fst (host_info (url_netloc u))) in
     if fst (host_info (url_netloc u)) = [] then [] else lower h @ delim @ zone)"

definition port :: "url_parts \<Rightarrow> nat option res" where
  "port u = (case snd (host_info (url_netloc u)) of None \<Rightarrow> Inr None
     | Some text \<Rightarrow> (case url_port text of None \<Rightarrow> Inl ValueError | Some p \<Rightarrow> Inr p))"

definition username :: "url_parts \<Rightarrow> string" where
  \<comment> \<open>empty for \<open>None\<close>\<close>
  "username u = (let (userinfo, have_info, _) = str_rpartition ''@'' (url_netloc u) in
     if have_info = [] then [] else fst (str_partition '':'' userinfo))"

end
