(* ===== verification/Tunnel_Config.thy ===== *)
theory Tunnel_Config
  imports Forward_Path
begin

text \<open>
  The configurations of the tunnel process sing-box (\<open>build_singbox_tun_config\<close> and
  \<open>build_singbox_proxy_bypass_config\<close> of \<open>engine.py\<close>) and the choice of the local ports
  (\<open>allocate_local_ports\<close>). A configuration is the JSON value that is written to the file. What
  sing-box does with a rule is outside: a property that speaks of it takes the matching as an
  argument, with the documented meaning of a rule whose only condition is a list of process names.
\<close>

section \<open>File names of Windows\<close>

definition is_sep :: "char \<Rightarrow> bool" where
  "is_sep c \<longleftrightarrow> c = CHR 0x5C \<or> c = CHR ''/''"

fun find_sep :: "nat \<Rightarrow> string \<Rightarrow> nat option" where
  \<comment> \<open>position of the first separator, counted from \<open>i\<close>\<close>
  "find_sep i [] = None"
| "find_sep i (c # s) = (if is_sep c then Some i else find_sep (Suc i) s)"

definition after_drive :: "string \<Rightarrow> string" where
  \<comment> \<open>the path behind the drive letter or the share (\<open>ntpath.splitroot\<close>)\<close>
  "after_drive p = (case p of
     a # b # rest \<Rightarrow>
       (if is_sep a \<and> is_sep b then
          (let unc = map (\<lambda>c. if c = CHR ''/'' then CHR 0x5C else c) (take 8 p);
               start = (if upper unc = [CHR 0x5C, CHR 0x5C] @ ''?'' @ [CHR 0x5C] @ ''UNC'' @ [CHR 0x5C] then 8 else 2) in
           case find_sep start (drop start p) of None \<Rightarrow> []
           | Some i \<Rightarrow> (case find_sep (i + 1) (drop (i + 1) p) of None \<Rightarrow> [] | Some j \<Rightarrow> drop (j + 1) p))
        else if is_sep a then b # rest
        else if b = CHR '':'' then rest
        else p)
   | [a] \<Rightarrow> if is_sep a then [] else p
   | [] \<Rightarrow> [])"

definition basename :: "string \<Rightarrow> string" where
  \<comment> \<open>\<open>os.path.basename\<close>\<close>
  "basename p = rev (takeWhile (\<lambda>c. \<not> is_sep c) (rev (after_drive p)))"

section \<open>Lists of the configuration\<close>

fun add_names :: "string list \<Rightarrow> string list \<Rightarrow> string list \<Rightarrow> string list" where
  \<comment> \<open>base names that are neither excluded nor there already, up to case\<close>
  "add_names excluded acc [] = acc"
| "add_names excluded acc (value # vs) = (let name = basename (strip value) in
     if name \<noteq> [] \<and> lower name \<notin> set excluded \<and> lower name \<notin> set (map lower acc)
     then add_names excluded (acc @ [name]) vs else add_names excluded acc vs)"

definition edge_list :: "string list \<Rightarrow> string list" where
  \<comment> \<open>\<open>str(ipaddress.IPv4Address(value))\<close> of each that is one\<close>
  "edge_list values = uniq (concat (map (\<lambda>v. case parse_ipv4 v of None \<Rightarrow> [] | Some os \<Rightarrow> [ipv4_text os]) values))"

definition netmask_prefix :: "int \<Rightarrow> nat option" where
  "netmask_prefix n = find (\<lambda>p. n = 2 ^ 32 - 2 ^ (32 - p)) [0..<33]"

definition prefix_of :: "string \<Rightarrow> nat option" where
  \<comment> \<open>a prefix length, a netmask or a host mask\<close>
  "prefix_of m = (
     let short = (if m \<noteq> [] \<and> list_all is_ascii_digit m then digits_val 0 False m else None) in
     case short of
       Some p \<Rightarrow> if p \<le> 32 then Some p else None
     | None \<Rightarrow> (case parse_ipv4 m of None \<Rightarrow> None
       | Some os \<Rightarrow> (case netmask_prefix (ipv4_num os) of Some p \<Rightarrow> Some p
         | None \<Rightarrow> netmask_prefix (2 ^ 32 - 1 - ipv4_num os))))"

definition ipv4_network :: "string \<Rightarrow> subnet option" where
  \<comment> \<open>\<open>ip_network(value, strict=False)\<close> when it is of version 4\<close>
  "ipv4_network value = (case split_on CHR ''/'' value of
     [a] \<Rightarrow> map_option (\<lambda>os. subnet_of (ipv4_num os) 32) (parse_ipv4 a)
   | [a, m] \<Rightarrow> (case (parse_ipv4 a, prefix_of m) of
       (Some os, Some p) \<Rightarrow> Some (subnet_of (ipv4_num os) p) | _ \<Rightarrow> None)
   | _ \<Rightarrow> None)"

definition network_text :: "subnet \<Rightarrow> string" where
  "network_text net = ipv4_text (ipv4_octets (fst net)) @ ''/'' @ nat_str (snd net)"

definition network_list :: "string list \<Rightarrow> string list" where
  "network_list values = uniq (concat (map (\<lambda>v. case ipv4_network (strip v) of
     None \<Rightarrow> [] | Some net \<Rightarrow> [network_text net]) values))"

section \<open>Rules\<close>

definition strs :: "string list \<Rightarrow> json" where
  "strs xs = JArr (map JStr xs)"

definition to_outbound :: "string \<Rightarrow> obj" where
  "to_outbound tag = [(''action'', JStr ''route''), (''outbound'', JStr tag)]"

definition process_rule :: "string list \<Rightarrow> obj" where
  "process_rule names = (''process_name'', strs names) # to_outbound ''direct''"

definition REJECT :: obj where
  "REJECT = [(''action'', JStr ''reject''), (''method'', JStr ''default''), (''no_drop'', JBool True)]"

definition PROTECTED_PROCESSES :: "string list" where
  "PROTECTED_PROCESSES = [''sing-box.exe'', ''xray.exe'', ''aether.exe'', ''uac-psiphon.exe'', ''uac_psiphon.exe'']"

definition edge_rules :: "string \<Rightarrow> string list \<Rightarrow> obj list" where
  "edge_rules executable edges = (let app_process = strip (basename executable) in
     if edges \<noteq> [] \<and> app_process \<noteq> [] then
       [[(''process_name'', strs [app_process]), (''ip_cidr'', strs (map (\<lambda>a. a @ ''/32'') edges))]
         @ to_outbound ''direct'']
     else [])"

definition helper_rules :: "string list \<Rightarrow> obj list" where
  "helper_rules helpers = (if helpers = [] then [] else
     [[(''process_name'', strs helpers), (''ip_cidr'', strs [''127.0.0.0/8''])] @ to_outbound ''local-direct'',
      process_rule helpers])"

definition dns_rule :: "string list \<Rightarrow> obj" where
  "dns_rule networks = (if networks = [] then [] else [(''source_ip_cidr'', strs networks)])
     @ [(''port'', JInt 53), (''action'', JStr ''hijack-dns'')]"

definition network_rules :: "string list \<Rightarrow> obj list" where
  "network_rules networks = (if networks \<noteq> [] then
     [[(''source_ip_cidr'', strs networks), (''network'', JStr ''udp''), (''port'', JInt 443)] @ REJECT,
      [(''source_ip_cidr'', strs networks), (''network'', JStr ''icmp'')] @ REJECT]
     else [[(''network'', JStr ''icmp'')] @ to_outbound ''direct''])"

definition final_rules :: "string list \<Rightarrow> obj list" where
  "final_rules networks = (if networks \<noteq> [] then
     [[(''source_ip_cidr'', strs networks), (''ip_cidr'', strs networks)] @ to_outbound ''direct'',
      [(''source_ip_cidr'', strs networks)] @ to_outbound ''proxy'']
     else [[(''ip_is_private'', JBool True)] @ to_outbound ''direct''])"

definition bypass_list :: "string \<Rightarrow> string list \<Rightarrow> string list \<Rightarrow> string list" where
  "bypass_list executable extra bypass_processes
     = add_names (PROTECTED_PROCESSES @ lower (basename executable) # map lower extra) [] bypass_processes"

definition bypass_rules :: "string list \<Rightarrow> obj list" where
  "bypass_rules processes = (if processes = [] then [] else [process_rule processes])"

definition tun_rules :: "string \<Rightarrow> string list \<Rightarrow> string list \<Rightarrow> string list \<Rightarrow> string list \<Rightarrow> obj list" where
  "tun_rules executable edges helpers networks processes =
     edge_rules executable edges @ helper_rules helpers @ [dns_rule networks] @ network_rules networks
       @ bypass_rules processes @ final_rules networks"

section \<open>The configuration of the tunnel\<close>

record tun_request =
  bypass_processes :: "string list"
  direct_edge_addresses :: "string list"
  gateway_networks :: "string list"
  gateway_interface :: "string option"
  tun_socks_port :: int
  helper_processes :: "string list option"

definition helper_list :: "string list option \<Rightarrow> string list" where
  "helper_list hs = add_names [] [] (case hs of None \<Rightarrow> [''xray.exe''] | Some xs \<Rightarrow> xs)"

definition HOME_SUFFIX_REGEX :: string where
  "HOME_SUFFIX_REGEX = ''(?i)'' @ [CHR 0x5C] @ ''.(?:instagram'' @ [CHR 0x5C] @ ''.com|facebook'' @ [CHR 0x5C]
     @ ''.com|cdninstagram'' @ [CHR 0x5C] @ ''.com|fbcdn'' @ [CHR 0x5C] @ ''.net|fbsbx'' @ [CHR 0x5C] @ ''.com)''
     @ [CHR 0x5C] @ ''.(?:home|lan|localdomain)$''"

definition dns_section :: "string list \<Rightarrow> obj" where
  "dns_section networks = [(''servers'', JArr [JObj [(''type'', JStr ''tcp''), (''tag'', JStr ''remote-dns''),
       (''server'', JStr ''1.1.1.1''), (''server_port'', JInt 53), (''detour'', JStr ''proxy'')]])]
     @ (if networks = [] then [] else [(''rules'', JArr [JObj [(''domain_regex'', strs [HOME_SUFFIX_REGEX]),
         (''action'', JStr ''predefined''), (''rcode'', JStr ''NXDOMAIN'')]])])
     @ [(''final'', JStr ''remote-dns''), (''strategy'', JStr ''ipv4_only'')]"

definition tun_inbound :: "string list \<Rightarrow> string list \<Rightarrow> obj" where
  "tun_inbound edges networks = [(''type'', JStr ''tun''), (''tag'', JStr ''tun-in''),
       (''interface_name'', JStr ''UAC-Spoofer''), (''address'', strs [''172.19.0.1/30'', ''fdfe:dcba:9876::1/126'']),
       (''mtu'', JInt 1400), (''auto_route'', JBool True), (''strict_route'', JBool (networks = []))]
     @ (if edges = [] then [] else [(''route_exclude_address'', strs (map (\<lambda>a. a @ ''/32'') edges))])
     @ [(''stack'', JStr ''mixed'')]"

definition socks_outbound :: "int \<Rightarrow> obj" where
  "socks_outbound port = [(''type'', JStr ''socks''), (''tag'', JStr ''proxy''), (''server'', JStr ''127.0.0.1''),
     (''server_port'', JInt port), (''version'', JStr ''5'')]"

definition direct_outbound :: "string \<Rightarrow> obj" where
  "direct_outbound tag = [(''type'', JStr ''direct''), (''tag'', JStr tag)]"

definition LOG_WARN :: json where
  "LOG_WARN = JObj [(''level'', JStr ''warn''), (''timestamp'', JBool True)]"

definition request_rules :: "string \<Rightarrow> tun_request \<Rightarrow> obj list" where
  "request_rules executable r = tun_rules executable (edge_list (direct_edge_addresses r))
     (helper_list (helper_processes r)) (network_list (gateway_networks r))
     (bypass_list executable [] (bypass_processes r))"

definition build_singbox_tun_config :: "string \<Rightarrow> tun_request \<Rightarrow> obj" where
  "build_singbox_tun_config executable r = (
     let edges = edge_list (direct_edge_addresses r); networks = network_list (gateway_networks r);
         physical_interface = (case gateway_interface r of None \<Rightarrow> [] | Some s \<Rightarrow> strip s);
         direct = direct_outbound ''direct'' @ (if networks \<noteq> [] \<and> physical_interface \<noteq> []
           then [(''bind_interface'', JStr physical_interface)] else []) in
     [(''log'', LOG_WARN), (''dns'', JObj (dns_section networks)),
      (''inbounds'', JArr [JObj (tun_inbound edges networks)]),
      (''outbounds'', JArr (map JObj [socks_outbound (tun_socks_port r), direct_outbound ''local-direct'', direct])),
      (''route'', JObj [(''auto_detect_interface'', JBool True),
        (''rules'', JArr (map JObj (request_rules executable r))), (''final'', JStr ''proxy'')])])"

section \<open>The configuration of the proxy with exceptions\<close>

definition proxy_rules :: "string \<Rightarrow> string list \<Rightarrow> string list option \<Rightarrow> obj list" where
  "proxy_rules executable bypass hs = (let helpers = add_names [] [] (case hs of None \<Rightarrow> [] | Some xs \<Rightarrow> xs) in
     bypass_rules helpers @ bypass_rules (bypass_list executable helpers bypass))"

definition build_singbox_proxy_bypass_config :: "string \<Rightarrow> string list \<Rightarrow> int \<Rightarrow> int \<Rightarrow> string list option \<Rightarrow> obj" where
  "build_singbox_proxy_bypass_config executable bypass listen_port socks_port hs =
     [(''log'', LOG_WARN),
      (''inbounds'', JArr [JObj [(''type'', JStr ''mixed''), (''tag'', JStr ''mixed-in''),
         (''listen'', JStr ''127.0.0.1''), (''listen_port'', JInt listen_port)]]),
      (''outbounds'', JArr (map JObj [socks_outbound socks_port, direct_outbound ''direct''])),
      (''route'', JObj [(''rules'', JArr (map JObj (proxy_rules executable bypass hs))),
         (''final'', JStr ''proxy''), (''auto_detect_interface'', JBool True)])]"


section \<open>The local ports\<close>

record bind_error =
  winerror :: "int option"
  errno :: int

definition FRAGMENT_PORT :: int where "FRAGMENT_PORT = 40443"

definition is_windows_excluded :: "bind_error \<Rightarrow> bool" where
  "is_windows_excluded e \<longleftrightarrow> winerror e = Some 10013 \<or> errno e \<in> {13, 10013}"

fun scan_ports :: "(int \<Rightarrow> bind_error option) \<Rightarrow> int list \<Rightarrow> int list \<Rightarrow> int list \<Rightarrow> int list" where
  "scan_ports bind blocked chosen [] = chosen"
| "scan_ports bind blocked chosen (port # ports) =
     (if port \<in> set blocked \<or> port \<in> set chosen then scan_ports bind blocked chosen ports
      else if bind port = None then
        (let chosen = chosen @ [port] in
         if length chosen = 2 then chosen else scan_ports bind blocked chosen ports)
      else scan_ports bind blocked chosen ports)"

definition allocate_local_ports ::
    "(int \<Rightarrow> bind_error option) \<Rightarrow> int \<times> int \<Rightarrow> int \<Rightarrow> int \<Rightarrow> (int \<times> int \<times> string) res" where
  \<comment> \<open>\<open>bind\<close> is what a bind to the port on the loopback address answers\<close>
  "allocate_local_ports bind preferred scan_start scan_count = (
     let (socks_pref, http_pref) = preferred; socks_error = bind socks_pref; http_error = bind http_pref;
         pair = int_str socks_pref @ ''/'' @ int_str http_pref in
     if socks_error = None \<and> http_error = None then Inr (socks_pref, http_pref, [])
     else (case scan_ports bind [socks_pref, http_pref, FRAGMENT_PORT] [] [scan_start..scan_start + scan_count - 1] of
       a # b # _ \<Rightarrow> Inr (a, b, pair @
         (if list_ex is_windows_excluded (concat (map (\<lambda>e. case e of None \<Rightarrow> [] | Some x \<Rightarrow> [x]) [socks_error, http_error]))
          then '' rejected by Windows excluded-port range'' else '' are not bindable''))
     | _ \<Rightarrow> Inl RuntimeError))"

section \<open>Properties\<close>

subsection \<open>Process lists\<close>

definition names_of :: "string list \<Rightarrow> string set" where
  \<comment> \<open>the base names of the entries, without case\<close>
  "names_of values = (\<lambda>v. lower (basename (strip v))) ` set values - {[]}"

lemma add_names_set:
  "set (map lower (add_names excluded acc vs)) = set (map lower acc) \<union> (names_of vs - set excluded)"
proof (induction excluded acc vs rule: add_names.induct)
  case (2 excluded acc v vs)
  then show ?case
    by (cases "basename (strip v) = []") (auto simp: Let_def names_of_def split: if_splits)
qed (simp add: names_of_def)

lemma add_names_distinct: "distinct (map lower acc) \<Longrightarrow> distinct (map lower (add_names excluded acc vs))"
  by (induction excluded acc vs rule: add_names.induct) (auto simp: Let_def)

lemma helper_default: "helper_list None = [''xray.exe'']"
  by code_simp

text \<open>
  The processes that leave outside the tunnel are, up to case, exactly those the user named, without
  the processes of the application itself, each once.
\<close>

theorem bypass_list_is_exact:
  "set (map lower (bypass_list executable extra ps))
     = names_of ps - (set PROTECTED_PROCESSES \<union> {lower (basename executable)} \<union> set (map lower extra))
   \<and> distinct (map lower (bypass_list executable extra ps))"
proof -
  have "set (PROTECTED_PROCESSES @ lower (basename executable) # map lower extra)
      = set PROTECTED_PROCESSES \<union> {lower (basename executable)} \<union> set (map lower extra)" by simp
  then show ?thesis
    unfolding bypass_list_def add_names_set by (simp only: add_names_distinct list.map list.set distinct.simps Un_empty_left simp_thms)
qed

subsection \<open>No loop through the tunnel\<close>

definition config_rules :: "obj \<Rightarrow> obj list" where
  \<comment> \<open>the rules a configuration file holds\<close>
  "config_rules config = (case dict_get (dict_of (dict_get_or config ''route'' JNull)) ''rules'' of
     Some (JArr rules) \<Rightarrow> map dict_of rules | _ \<Rightarrow> [])"

definition first_match :: "(obj \<Rightarrow> 'c \<Rightarrow> bool) \<Rightarrow> obj list \<Rightarrow> 'c \<Rightarrow> obj option" where
  "first_match matches rules c = find (\<lambda>r. matches r c) rules"

definition leaves_directly :: "obj option \<Rightarrow> bool" where
  "leaves_directly r \<longleftrightarrow> (\<exists>rule. r = Some rule
     \<and> dict_get rule ''outbound'' \<in> {Some (JStr ''direct''), Some (JStr ''local-direct'')})"

lemma map_dict_of [simp]: "map (dict_of \<circ> JObj) rules = rules"
  by (simp add: comp_def dict_of_def)

lemma tun_config_rules: "config_rules (build_singbox_tun_config executable r) = request_rules executable r"
  by (simp add: config_rules_def build_singbox_tun_config_def Let_def dict_get_or_def dict_get_def dict_of_def)

lemma proxy_config_rules:
  "config_rules (build_singbox_proxy_bypass_config executable ps listen socks hs) = proxy_rules executable ps hs"
  by (simp add: config_rules_def build_singbox_proxy_bypass_config_def dict_get_or_def dict_get_def dict_of_def)

lemma outbound_tags:
  "dict_get (process_rule names) ''outbound'' = Some (JStr ''direct'')"
  "rule \<in> set (edge_rules executable edges) \<Longrightarrow> dict_get rule ''outbound'' = Some (JStr ''direct'')"
  "rule \<in> set (helper_rules helpers) \<Longrightarrow> dict_get rule ''outbound'' \<in> {Some (JStr ''direct''), Some (JStr ''local-direct'')}"
  by (auto simp: process_rule_def edge_rules_def helper_rules_def to_outbound_def dict_get_def Let_def split: if_splits)

lemma first_match_front:
  assumes "\<exists>rule\<in>set front. matches rule c"
    "\<And>rule. rule \<in> set front \<Longrightarrow> dict_get rule ''outbound'' \<in> {Some (JStr ''direct''), Some (JStr ''local-direct'')}"
  shows "leaves_directly (first_match matches (front @ rules) c)"
  using assms by (induction front) (auto simp: first_match_def leaves_directly_def)

lemma helper_rule_in: "helpers \<noteq> [] \<Longrightarrow> process_rule helpers \<in> set (helper_rules helpers)"
  by (simp add: helper_rules_def)

text \<open>
  C23: A connection of a helper process (Xray, the cores of the PoW mode) is sent out directly by the
  configuration of the tunnel and by the one of the proxy with exceptions, whatever edges, networks and
  exceptions they hold: the tunnel never carries its own traffic. Of sing-box it is used that the first
  rule that matches decides and that a rule with a list of process names alone matches just these.
\<close>

theorem helpers_never_enter_the_tunnel:
  assumes "\<And>names c. matches (process_rule names) c \<longleftrightarrow> process c \<in> set names"
  shows "(process c \<in> set (helper_list (helper_processes r))
      \<longrightarrow> leaves_directly (first_match matches (config_rules (build_singbox_tun_config executable r)) c))
    \<and> (process c \<in> set (add_names [] [] hs)
      \<longrightarrow> leaves_directly (first_match matches
            (config_rules (build_singbox_proxy_bypass_config executable ps listen socks (Some hs))) c))"
proof (intro conjI impI)
  let ?helpers = "helper_list (helper_processes r)"
  let ?front = "edge_rules executable (edge_list (direct_edge_addresses r)) @ helper_rules ?helpers"
  assume "process c \<in> set ?helpers"
  then have "?helpers \<noteq> []" "matches (process_rule ?helpers) c" using assms by auto
  with helper_rule_in have "\<exists>rule\<in>set ?front. matches rule c" by fastforce
  moreover have "dict_get rule ''outbound'' \<in> {Some (JStr ''direct''), Some (JStr ''local-direct'')}"
    if "rule \<in> set ?front" for rule
    using that outbound_tags(2,3) by (metis Un_iff insert_iff set_append)
  ultimately have "leaves_directly (first_match matches (?front @ rules) c)" for rules
    by (rule first_match_front)
  then show "leaves_directly (first_match matches (config_rules (build_singbox_tun_config executable r)) c)"
    unfolding tun_config_rules request_rules_def tun_rules_def by (metis append_assoc)
next
  let ?helpers = "add_names [] [] hs"
  assume proc: "process c \<in> set ?helpers"
  then have "bypass_rules ?helpers = [process_rule ?helpers]"
    by (auto simp: bypass_rules_def)
  then show "leaves_directly (first_match matches
      (config_rules (build_singbox_proxy_bypass_config executable ps listen socks (Some hs))) c)"
    using assms proc unfolding proxy_config_rules proxy_rules_def
    by (simp add: first_match_def leaves_directly_def outbound_tags Let_def)
qed

definition by_process :: "obj \<Rightarrow> string \<Rightarrow> bool" where
  \<comment> \<open>a matching for the witness: the connection is its process\<close>
  "by_process rule c \<longleftrightarrow> (case dict_get rule ''process_name'' of
     Some (JArr names) \<Rightarrow> JStr c \<in> set names | _ \<Rightarrow> False)"

lemma helpers_never_enter_the_tunnel_witness:
  "leaves_directly (first_match by_process (config_rules (build_singbox_tun_config ''C:/app/uac.exe''
      \<lparr>bypass_processes = [''chrome.exe''], direct_edge_addresses = [''104.18.1.1''], gateway_networks = [],
       gateway_interface = None, tun_socks_port = 20808, helper_processes = None\<rparr>)) ''xray.exe'')"
proof -
  have "by_process (process_rule names) c \<longleftrightarrow> c \<in> set names" for names c
    by (auto simp: by_process_def process_rule_def strs_def dict_get_def)
  from helpers_never_enter_the_tunnel [of by_process "\<lambda>c. c", OF this, of "''xray.exe''"
      "\<lparr>bypass_processes = [''chrome.exe''], direct_edge_addresses = [''104.18.1.1''], gateway_networks = [],
       gateway_interface = None, tun_socks_port = 20808, helper_processes = None\<rparr>" "''C:/app/uac.exe''" "[]" "[]" 0 0]
  show ?thesis by (simp add: helper_default)
qed

subsection \<open>The ports are free\<close>

lemma scan_ports_chosen:
  assumes "list_all (\<lambda>p. bind p = None \<and> p \<notin> set blocked) chosen" "distinct chosen" "length chosen < 2"
  shows "list_all (\<lambda>p. bind p = None \<and> p \<notin> set blocked) (scan_ports bind blocked chosen ports)
    \<and> distinct (scan_ports bind blocked chosen ports) \<and> length (scan_ports bind blocked chosen ports) \<le> 2
    \<and> (length (scan_ports bind blocked chosen ports) < 2 \<longrightarrow>
        (\<forall>p\<in>set ports. bind p = None \<and> p \<notin> set blocked \<longrightarrow> p \<in> set (scan_ports bind blocked chosen ports)))
    \<and> set chosen \<subseteq> set (scan_ports bind blocked chosen ports)"
  using assms
proof (induction bind blocked chosen ports rule: scan_ports.induct)
  case (2 bind blocked chosen port ports)
  consider "port \<in> set blocked \<or> port \<in> set chosen" | "port \<notin> set blocked" "port \<notin> set chosen" "bind port = None"
    | "port \<notin> set blocked" "port \<notin> set chosen" "bind port \<noteq> None" by blast
  then show ?case
  proof cases
    case 1
    then have "scan_ports bind blocked chosen (port # ports) = scan_ports bind blocked chosen ports" by simp
    with 1 2 show ?thesis by auto
  next
    case 2
    let ?c = "chosen @ [port]"
    have c: "list_all (\<lambda>p. bind p = None \<and> p \<notin> set blocked) ?c" "distinct ?c" using 2 "2.prems" by auto
    show ?thesis
    proof (cases "length ?c = 2")
      case True
      then have "scan_ports bind blocked chosen (port # ports) = ?c" using 2 by simp
      with c True show ?thesis by auto
    next
      case False
      then have run: "scan_ports bind blocked chosen (port # ports) = scan_ports bind blocked ?c ports" using 2 by simp
      from False \<open>length chosen < 2\<close> have "length ?c < 2" by (cases chosen) auto
      from "2.IH"(2) [OF _ _ refl _ c this] False 2 show ?thesis unfolding run by auto
    qed
  next
    case 3
    then have "scan_ports bind blocked chosen (port # ports) = scan_ports bind blocked chosen ports" by auto
    with 3 "2.IH"(3) "2.prems" show ?thesis by auto
  qed
qed simp


text \<open>
  The local ports that are allocated can be bound and differ when the preferred ones do; the
  preferred pair is kept exactly when it is free, and the error is raised only when the range holds
  less than two other free ports.
\<close>

theorem allocated_ports_are_free:
  assumes "socks \<noteq> http"
  shows "case allocate_local_ports bind (socks, http) start n of
     Inr (a, b, reason) \<Rightarrow> bind a = None \<and> bind b = None \<and> a \<noteq> b
       \<and> (reason = [] \<longleftrightarrow> bind socks = None \<and> bind http = None)
       \<and> (reason = [] \<longrightarrow> (a, b) = (socks, http)) \<and> (reason \<noteq> [] \<longrightarrow> FRAGMENT_PORT \<notin> {a, b})
   | Inl e \<Rightarrow> e = RuntimeError \<and> (\<exists>q. \<forall>p\<in>{start..<start + n}. bind p = None \<longrightarrow> p \<in> {q, socks, http, FRAGMENT_PORT})"
proof (cases "bind socks = None \<and> bind http = None")
  case True
  with assms show ?thesis by (simp add: allocate_local_ports_def)
next
  case False
  define ports where "ports = scan_ports bind [socks, http, FRAGMENT_PORT] [] [start..start + n - 1]"
  have p: "list_all (\<lambda>p. bind p = None \<and> p \<notin> set [socks, http, FRAGMENT_PORT]) ports" "distinct ports"
    "length ports < 2 \<longrightarrow> (\<forall>p\<in>set [start..start + n - 1]. bind p = None \<and> p \<notin> set [socks, http, FRAGMENT_PORT]
      \<longrightarrow> p \<in> set ports)"
    using scan_ports_chosen [of bind "[socks, http, FRAGMENT_PORT]" "[]" "[start..start + n - 1]"]
    unfolding ports_def by auto
  define reason where "reason = (int_str socks @ ''/'' @ int_str http) @
    (if list_ex is_windows_excluded (concat (map (\<lambda>e. case e of None \<Rightarrow> [] | Some x \<Rightarrow> [x]) [bind socks, bind http]))
     then '' rejected by Windows excluded-port range'' else '' are not bindable'')"
  have "reason \<noteq> []" by (simp add: reason_def)
  have run: "allocate_local_ports bind (socks, http) start n
      = (case ports of a # b # _ \<Rightarrow> Inr (a, b, reason) | _ \<Rightarrow> Inl RuntimeError)"
    unfolding allocate_local_ports_def Let_def prod.case if_not_P [OF False] ports_def reason_def ..
  show ?thesis
  proof (cases "length ports < 2")
    case True
    then have few: "allocate_local_ports bind (socks, http) start n = Inl RuntimeError"
      using run by (cases ports rule: list.exhaust) (auto split: list.split)
    obtain q where q: "set ports \<subseteq> {q}"
      using True by (cases ports) (auto simp: length_Suc_conv less_Suc_eq numeral_2_eq_2)
    have "\<forall>p\<in>{start..<start + n}. bind p = None \<longrightarrow> p \<in> {q, socks, http, FRAGMENT_PORT}"
      using p(3) True q by auto
    with few show ?thesis by auto
  next
    case False
    then obtain a b rest where ports: "ports = a # b # rest"
      by (metis One_nat_def length_Cons less_2_cases_iff list.exhaust list.size(3))
    with p have "bind a = None" "bind b = None" "a \<noteq> b" "FRAGMENT_PORT \<notin> {a, b}" by auto
    moreover have "allocate_local_ports bind (socks, http) start n = Inr (a, b, reason)" using run ports by simp
    ultimately show ?thesis using \<open>\<not> (bind socks = None \<and> bind http = None)\<close> \<open>reason \<noteq> []\<close> by auto
  qed
qed

lemma allocated_ports_are_free_witness:
  "case allocate_local_ports (\<lambda>p. if p = 20808 then Some \<lparr>winerror = Some 10013, errno = 13\<rparr> else None)
      (20808, 20809) 38408 512 of
     Inr (a, b, reason) \<Rightarrow> (a, b) = (38408, 38409) \<and> reason \<noteq> [] \<and> FRAGMENT_PORT \<notin> {a, b}
   | Inl e \<Rightarrow> False"
proof -
  let ?bind = "\<lambda>p :: int. if p = 20808 then Some \<lparr>winerror = Some 10013, errno = 13\<rparr> else None"
  have "[38408..38919 :: int] = 38408 # 38409 # [38410..38919]" by (simp add: upto_rec1)
  then have "scan_ports ?bind [20808, 20809, FRAGMENT_PORT] [] [38408..38919] = [38408, 38409]"
    by (simp add: FRAGMENT_PORT_def)
  then obtain reason where run: "allocate_local_ports ?bind (20808, 20809) 38408 512 = Inr (38408, 38409, reason)"
    by (simp add: allocate_local_ports_def)
  from allocated_ports_are_free [where socks = 20808 and http = 20809 and bind = ?bind and start = 38408 and n = 512] run
  show ?thesis by simp
qed

end
