(* ===== verification/Tuning_Model.thy ===== *)
theory Tuning_Model
  imports Py_Float
begin

text \<open>
  The tuning of a connection: class \<open>Tuning\<close> of \<open>models.py\<close> with its presets, the protected preset of
  the carrier MCI, and the recognition of the slow settings older versions saved for it. A tuning
  object is the dictionary of its fields in the order of the class (\<open>asdict\<close>), whose values may be
  of any JSON type, because \<open>from_dict\<close> checks none.
\<close>

type_synonym tuning = obj

section \<open>Python equality of JSON values\<close>

fun numeric :: "json \<Rightarrow> pyfloat option" where
  \<comment> \<open>a number, booleans included\<close>
  "numeric (JBool b) = Some (Fin (if b then 1 else 0))"
| "numeric (JInt i) = Some (Fin (of_int i))"
| "numeric (JFloat r _) = Some (Fin r)"
| "numeric (JInf n) = Some (if n then NInf else PInf)"
| "numeric JNan = Some NaN"
| "numeric _ = None"

fun py_eq :: "json \<Rightarrow> json \<Rightarrow> bool"
  and py_eq_list :: "json list \<Rightarrow> json list \<Rightarrow> bool"
  and py_eq_items :: "(string \<times> json) list \<Rightarrow> (string, json) dict \<Rightarrow> bool" where
  \<comment> \<open>\<open>a == b\<close>: numbers by value, dictionaries in any order\<close>
  "py_eq JNull b = (b = JNull)"
| "py_eq (JStr s) b = (b = JStr s)"
| "py_eq (JArr xs) b = (case b of JArr ys \<Rightarrow> py_eq_list xs ys | _ \<Rightarrow> False)"
| "py_eq (JObj d) b = (case b of JObj e \<Rightarrow> length d = length e \<and> py_eq_items d e | _ \<Rightarrow> False)"
| "py_eq a b = (numeric a = numeric b \<and> numeric a \<noteq> Some NaN)"
| "py_eq_list [] ys = (ys = [])"
| "py_eq_list (x # xs) ys = (case ys of [] \<Rightarrow> False | y # ys' \<Rightarrow> py_eq x y \<and> py_eq_list xs ys')"
| "py_eq_items [] e = True"
| "py_eq_items ((k, v) # d) e = ((case dict_get e k of None \<Rightarrow> False | Some w \<Rightarrow> py_eq v w) \<and> py_eq_items d e)"

section \<open>The fields\<close>

definition TUNING_DEFAULTS :: tuning where
  "TUNING_DEFAULTS = [
     (''mode'', JStr ''balanced''), (''carrier_mode'', JStr ''auto''), (''fake_probe_enabled'', JBool True),
     (''fake_probe_count'', JInt 1), (''fake_probe_delay_ms'', JInt 5), (''multi_fragment_size'', JInt 5),
     (''sni_split_delay_ms'', JInt 5), (''tls_record_delay_ms'', JInt 5), (''multi_delay_ms'', JInt 3),
     (''half_delay_ms'', JInt 5), (''route_probe_timeout_ms'', JInt 8000), (''initial_race_enabled'', JBool True),
     (''strategy_cache_enabled'', JBool True), (''strategy_cache_ttl_ms'', JInt 600000),
     (''startup_boost'', JStr ''fast''), (''warm_tcp_pool_enabled'', JBool True), (''warm_tcp_pool_size'', JInt 2),
     (''xray_mux_enabled'', JBool False), (''xray_mux_concurrency'', JInt 8), (''iran_direct'', JBool True),
     (''background_quality_probe_enabled'', JBool False), (''background_quality_probe_delay_s'', JInt 30),
     (''log_level'', JStr ''normal''), (''pattern_quality_preset'', JStr ''upload''),
     (''pattern_connect_ip'', JStr ''104.18.32.47''), (''pattern_fallback_ips'', JStr ''172.64.155.209''),
     (''pattern_use_profile_edges'', JBool False), (''pattern_gene_edges'', JStr []),
     (''pattern_clean_edges'', JStr []), (''pattern_session_edge'', JStr []), (''pattern_gene_ops'', JStr []),
     (''pattern_fake_sni'', JStr ''chatgpt.com''), (''pattern_fake_repeat'', JInt 1),
     (''pattern_inject_delay_ms'', JInt 1), (''pattern_ack_timeout_ms'', JInt 3000),
     (''pattern_connect_timeout_ms'', JInt 2500), (''pattern_relay_buffer_kb'', JInt 512),
     (''pattern_socket_buffer_kb'', JInt 4096), (''pattern_max_sessions'', JInt 12),
     (''pattern_edge_failure_cooldown_s'', JInt 8), (''pattern_keepalive_idle_s'', JInt 11),
     (''pattern_keepalive_interval_s'', JInt 3), (''pattern_keepalive_count'', JInt 3),
     (''pattern_upload_optimized'', JBool True)]"

definition TUNING_FIELDS :: "string list" where
  "TUNING_FIELDS = map fst TUNING_DEFAULTS"

definition from_dict :: "obj \<Rightarrow> tuning" where
  "from_dict raw = map (\<lambda>(k, d). (k, dict_get_or raw k d)) TUNING_DEFAULTS"

definition make_tuning :: "(string \<times> json) list \<Rightarrow> tuning" where
  \<comment> \<open>\<open>Tuning(k=v, ...)\<close>\<close>
  "make_tuning kvs = dict_set_all kvs TUNING_DEFAULTS"

section \<open>Presets\<close>


definition PRESET_MAXIMUM :: "(string \<times> json) list" where
  \<comment> \<open>but for the field \<open>mode\<close>\<close>
  "PRESET_MAXIMUM = [
     (''fake_probe_enabled'', JBool False), (''fake_probe_count'', JInt 0), (''fake_probe_delay_ms'', JInt 0),
     (''route_probe_timeout_ms'', JInt 1500), (''initial_race_enabled'', JBool False),
     (''warm_tcp_pool_enabled'', JBool False), (''xray_mux_enabled'', JBool True),
     (''xray_mux_concurrency'', JInt 8), (''background_quality_probe_enabled'', JBool False),
     (''log_level'', JStr ''minimal''), (''pattern_quality_preset'', JStr ''maximum''),
     (''pattern_inject_delay_ms'', JInt 0), (''pattern_ack_timeout_ms'', JInt 2200),
     (''pattern_connect_timeout_ms'', JInt 1800), (''pattern_relay_buffer_kb'', JInt 512),
     (''pattern_socket_buffer_kb'', JInt 4096), (''pattern_max_sessions'', JInt 12),
     (''pattern_edge_failure_cooldown_s'', JInt 8), (''pattern_keepalive_idle_s'', JInt 10),
     (''pattern_keepalive_interval_s'', JInt 2), (''pattern_keepalive_count'', JInt 4),
     (''pattern_upload_optimized'', JBool True)]"

definition PRESET_STREAMING :: "(string \<times> json) list" where
  \<comment> \<open>but for the field \<open>mode\<close>\<close>
  "PRESET_STREAMING = [
     (''fake_probe_enabled'', JBool False), (''fake_probe_count'', JInt 0), (''initial_race_enabled'', JBool False),
     (''warm_tcp_pool_enabled'', JBool False), (''xray_mux_enabled'', JBool False),
     (''xray_mux_concurrency'', JInt 4), (''background_quality_probe_enabled'', JBool False),
     (''log_level'', JStr ''minimal''), (''pattern_quality_preset'', JStr ''streaming''),
     (''pattern_inject_delay_ms'', JInt 0), (''pattern_ack_timeout_ms'', JInt 2500),
     (''pattern_connect_timeout_ms'', JInt 2000), (''pattern_relay_buffer_kb'', JInt 1024),
     (''pattern_socket_buffer_kb'', JInt 4096), (''pattern_max_sessions'', JInt 10),
     (''pattern_edge_failure_cooldown_s'', JInt 8), (''pattern_keepalive_idle_s'', JInt 10),
     (''pattern_keepalive_interval_s'', JInt 2), (''pattern_keepalive_count'', JInt 4),
     (''pattern_upload_optimized'', JBool True)]"

definition PRESET_FAST :: "(string \<times> json) list" where
  \<comment> \<open>but for the field \<open>mode\<close>\<close>
  "PRESET_FAST = [
     (''fake_probe_enabled'', JBool False), (''fake_probe_count'', JInt 0), (''fake_probe_delay_ms'', JInt 0),
     (''multi_fragment_size'', JInt 256), (''sni_split_delay_ms'', JInt 0), (''tls_record_delay_ms'', JInt 0),
     (''multi_delay_ms'', JInt 0), (''half_delay_ms'', JInt 0), (''route_probe_timeout_ms'', JInt 1200),
     (''initial_race_enabled'', JBool False), (''warm_tcp_pool_enabled'', JBool False),
     (''warm_tcp_pool_size'', JInt 2), (''xray_mux_enabled'', JBool True), (''xray_mux_concurrency'', JInt 8),
     (''background_quality_probe_enabled'', JBool False), (''log_level'', JStr ''minimal''),
     (''pattern_quality_preset'', JStr ''low_latency''), (''pattern_inject_delay_ms'', JInt 0),
     (''pattern_ack_timeout_ms'', JInt 1600), (''pattern_connect_timeout_ms'', JInt 1600),
     (''pattern_relay_buffer_kb'', JInt 128), (''pattern_socket_buffer_kb'', JInt 1024),
     (''pattern_max_sessions'', JInt 10), (''pattern_edge_failure_cooldown_s'', JInt 6),
     (''pattern_keepalive_idle_s'', JInt 9), (''pattern_keepalive_interval_s'', JInt 2),
     (''pattern_keepalive_count'', JInt 3), (''pattern_upload_optimized'', JBool True)]"

definition PRESET_COMPATIBILITY :: "(string \<times> json) list" where
  \<comment> \<open>but for the field \<open>mode\<close>\<close>
  "PRESET_COMPATIBILITY = [
     (''fake_probe_count'', JInt 2), (''fake_probe_delay_ms'', JInt 75), (''multi_fragment_size'', JInt 5),
     (''sni_split_delay_ms'', JInt 60), (''tls_record_delay_ms'', JInt 50), (''multi_delay_ms'', JInt 15),
     (''half_delay_ms'', JInt 50), (''route_probe_timeout_ms'', JInt 8000), (''initial_race_enabled'', JBool False),
     (''warm_tcp_pool_enabled'', JBool False), (''warm_tcp_pool_size'', JInt 1), (''xray_mux_enabled'', JBool False),
     (''xray_mux_concurrency'', JInt 4), (''background_quality_probe_enabled'', JBool False),
     (''log_level'', JStr ''normal''), (''pattern_quality_preset'', JStr ''compatibility''),
     (''pattern_inject_delay_ms'', JInt 2), (''pattern_ack_timeout_ms'', JInt 8000),
     (''pattern_connect_timeout_ms'', JInt 5000), (''pattern_relay_buffer_kb'', JInt 256),
     (''pattern_socket_buffer_kb'', JInt 512), (''pattern_max_sessions'', JInt 4),
     (''pattern_edge_failure_cooldown_s'', JInt 12), (''pattern_keepalive_idle_s'', JInt 15),
     (''pattern_keepalive_interval_s'', JInt 5), (''pattern_keepalive_count'', JInt 3),
     (''pattern_upload_optimized'', JBool False)]"

definition preset :: "string \<Rightarrow> tuning" where
  "preset mode = (let normalized = lower (strip (if mode = [] then ''balanced'' else mode)) in
     if normalized \<in> {''maximum'', ''upload''} then make_tuning ((''mode'', JStr mode) # PRESET_MAXIMUM)
     else if normalized = ''streaming'' then make_tuning ((''mode'', JStr mode) # PRESET_STREAMING)
     else if normalized \<in> {''fast'', ''low_latency''} then make_tuning ((''mode'', JStr ''fast'') # PRESET_FAST)
     else if normalized \<in> {''compatibility'', ''stealth''} then make_tuning ((''mode'', JStr mode) # PRESET_COMPATIBILITY)
     else make_tuning [(''mode'', JStr ''balanced'')])"

section \<open>The carriers\<close>

definition MCI_PROTECTED_PRIMARY_EDGE :: string where
  "MCI_PROTECTED_PRIMARY_EDGE = ''104.18.1.1''"

definition MCI_PROTECTED_FALLBACK_EDGES :: string where
  "MCI_PROTECTED_FALLBACK_EDGES = ''172.66.0.1''"

definition MCI_PROTECTED_FAKE_SNI :: string where
  "MCI_PROTECTED_FAKE_SNI = ''www.speedtest.net''"

definition MCI_PRESET :: "(string \<times> json) list" where
  \<comment> \<open>the assignments of \<open>carrier_preset("mci")\<close>\<close>
  "MCI_PRESET = [
     (''carrier_mode'', JStr ''mci''), (''xray_mux_enabled'', JBool False), (''xray_mux_concurrency'', JInt 4),
     (''pattern_connect_ip'', JStr MCI_PROTECTED_PRIMARY_EDGE),
     (''pattern_fallback_ips'', JStr MCI_PROTECTED_FALLBACK_EDGES),
     (''pattern_fake_sni'', JStr MCI_PROTECTED_FAKE_SNI), (''pattern_quality_preset'', JStr ''compatibility''),
     (''pattern_inject_delay_ms'', JInt 2), (''pattern_ack_timeout_ms'', JInt 8000),
     (''pattern_connect_timeout_ms'', JInt 5000), (''pattern_relay_buffer_kb'', JInt 256),
     (''pattern_socket_buffer_kb'', JInt 512), (''pattern_max_sessions'', JInt 4),
     (''pattern_edge_failure_cooldown_s'', JInt 12), (''pattern_keepalive_idle_s'', JInt 15),
     (''pattern_keepalive_interval_s'', JInt 5), (''pattern_keepalive_count'', JInt 3),
     (''pattern_upload_optimized'', JBool False), (''background_quality_probe_enabled'', JBool False),
     (''log_level'', JStr ''normal'')]"

definition IRANCELL_PRESET :: "(string \<times> json) list" where
  "IRANCELL_PRESET = [
     (''carrier_mode'', JStr ''irancell''), (''pattern_connect_ip'', JStr ''104.19.229.21''),
     (''pattern_fallback_ips'', JStr ''104.19.230.21''), (''pattern_fake_sni'', JStr ''chatgpt.com''),
     (''xray_mux_enabled'', JBool True), (''xray_mux_concurrency'', JInt 8), (''pattern_max_sessions'', JInt 12)]"

definition carrier_preset :: "string \<Rightarrow> tuning" where
  "carrier_preset carrier = (let normalized = lower (strip (if carrier = [] then ''auto'' else carrier)) in
     if normalized = ''mci'' then dict_set_all MCI_PRESET (preset ''compatibility'')
     else if normalized = ''irancell'' then dict_set_all IRANCELL_PRESET (preset ''maximum'')
     else dict_set ''carrier_mode'' (JStr ''auto'') (preset ''balanced''))"

definition fld :: "tuning \<Rightarrow> string \<Rightarrow> json" where
  \<comment> \<open>\<open>tuning.name\<close>\<close>
  "fld t name = dict_get_or t name JNull"

definition CARRIERS :: "string list" where
  "CARRIERS = [''auto'', ''mci'', ''irancell'']"

definition carrier_of_text :: "string \<Rightarrow> string" where
  "carrier_of_text s = (let v = lower (strip s) in if v \<in> set CARRIERS then v else ''auto'')"

definition enforce_named :: "tuning \<Rightarrow> string \<Rightarrow> tuning" where
  \<comment> \<open>once the carrier is known\<close>
  "enforce_named value carrier = (
     let normalized = carrier_of_text carrier;
         candidate = dict_set ''carrier_mode'' (JStr normalized) (from_dict value) in
     if normalized \<noteq> ''mci'' then candidate
     else let protected = carrier_preset ''mci'';
              log_level = lower (strip (py_str (or_else (fld candidate ''log_level'') (JStr ''minimal'')))) in
       dict_set ''log_level'' (JStr (if log_level \<in> {''minimal'', ''normal''} then log_level else ''minimal''))
         protected)"

definition enforce_carrier :: "tuning \<Rightarrow> string option \<Rightarrow> tuning res" where
  \<comment> \<open>without a carrier its own one; a value there that is no text has no \<open>strip\<close>\<close>
  "enforce_carrier value carrier = (case carrier of
     Some (c # cs) \<Rightarrow> Inr (enforce_named value (c # cs))
   | _ \<Rightarrow> (case or_else (fld (from_dict value) ''carrier_mode'') (JStr ''auto'') of
       JStr s \<Rightarrow> Inr (enforce_named value s)
     | _ \<Rightarrow> Inl AttributeError))"

section \<open>The settings older versions saved for MCI\<close>

definition COMPATIBILITY_FIELDS :: "string list" where
  "COMPATIBILITY_FIELDS = [''mode'', ''xray_mux_enabled'', ''xray_mux_concurrency'',
     ''background_quality_probe_enabled'', ''background_quality_probe_delay_s'', ''log_level'',
     ''pattern_quality_preset'', ''pattern_inject_delay_ms'', ''pattern_ack_timeout_ms'',
     ''pattern_connect_timeout_ms'', ''pattern_relay_buffer_kb'', ''pattern_socket_buffer_kb'',
     ''pattern_max_sessions'', ''pattern_edge_failure_cooldown_s'', ''pattern_keepalive_idle_s'',
     ''pattern_keepalive_interval_s'', ''pattern_keepalive_count'', ''pattern_upload_optimized'']"

definition ROUTE_FIELDS :: "string list" where
  "ROUTE_FIELDS = [''pattern_connect_ip'', ''pattern_fallback_ips'', ''pattern_use_profile_edges'',
     ''pattern_fake_sni'']"

definition legacy_mci :: tuning where
  "legacy_mci = (let compatibility = preset ''compatibility'' in
     dict_set_all (map (\<lambda>name. (name, fld compatibility name)) COMPATIBILITY_FIELDS) (carrier_preset ''mci''))"

definition is_legacy_mci_compatibility :: "tuning \<Rightarrow> bool" where
  "is_legacy_mci_compatibility t = (
     if fld t ''carrier_mode'' \<noteq> JStr ''mci'' then False
     else list_all (\<lambda>name. py_eq (fld t name) (fld legacy_mci name))
       (filter (\<lambda>name. name \<notin> set ROUTE_FIELDS) TUNING_FIELDS))"


section \<open>Properties\<close>

subsection \<open>Tuning objects have the fields of the class\<close>

definition wf_tuning :: "tuning \<Rightarrow> bool" where
  "wf_tuning t \<longleftrightarrow> map fst t = TUNING_FIELDS"

lemma distinct_fields: "distinct TUNING_FIELDS"
  by code_simp

lemma wf_tuning_dict_ok: "wf_tuning t \<Longrightarrow> dict_ok t"
  by (simp add: wf_tuning_def dict_ok_def distinct_fields)

lemma wf_from_dict [simp]: "wf_tuning (from_dict raw)"
  by (simp add: wf_tuning_def from_dict_def TUNING_FIELDS_def comp_def case_prod_beta)

lemma map_of_self:
  "distinct (map fst t) \<Longrightarrow> map fst t = map fst ds \<Longrightarrow> map (\<lambda>(k, d). (k, dict_get_or t k d)) ds = t"
proof (induction ds arbitrary: t)
  case (Cons d ds)
  obtain k v where kv: "d = (k, v)" by force
  from Cons.prems kv obtain w t' where t: "t = (k, w) # t'" "map fst t' = map fst ds" "k \<notin> set (map fst ds)"
    by (cases t) (auto simp flip: set_map)
  have other: "dict_get_or t k' d' = dict_get_or t' k' d'" if "(k', d') \<in> set ds" for k' d'
    using that t by (force simp: dict_get_or_def dict_get_def)
  have "map (\<lambda>(k, d). (k, dict_get_or t k d)) ds = map (\<lambda>(k, d). (k, dict_get_or t' k d)) ds"
    using other by (intro map_cong) auto
  with Cons t kv show ?case by (simp add: dict_get_or_def dict_get_def)
qed simp

lemma from_dict_wf: "wf_tuning t \<Longrightarrow> from_dict t = t"
  unfolding from_dict_def wf_tuning_def
  by (rule map_of_self) (use distinct_fields in \<open>simp_all add: TUNING_FIELDS_def\<close>)

lemma wf_dict_set: "wf_tuning t \<Longrightarrow> k \<in> set TUNING_FIELDS \<Longrightarrow> wf_tuning (dict_set k v t)"
  by (auto simp: wf_tuning_def keys_dict_set_list simp flip: set_map)

lemma wf_dict_set_all:
  "wf_tuning t \<Longrightarrow> set (map fst kvs) \<subseteq> set TUNING_FIELDS \<Longrightarrow> wf_tuning (dict_set_all kvs t)"
  by (induction kvs t rule: dict_set_all.induct) (auto simp: wf_dict_set)

lemma wf_make_tuning: "set (map fst kvs) \<subseteq> set TUNING_FIELDS \<Longrightarrow> wf_tuning (make_tuning kvs)"
  unfolding make_tuning_def by (rule wf_dict_set_all) (simp_all add: wf_tuning_def TUNING_FIELDS_def)

lemma preset_fields:
  "set (map fst PRESET_MAXIMUM) \<subseteq> set TUNING_FIELDS" "set (map fst PRESET_STREAMING) \<subseteq> set TUNING_FIELDS"
  "set (map fst PRESET_FAST) \<subseteq> set TUNING_FIELDS" "set (map fst PRESET_COMPATIBILITY) \<subseteq> set TUNING_FIELDS"
  "set (map fst MCI_PRESET) \<subseteq> set TUNING_FIELDS" "set (map fst IRANCELL_PRESET) \<subseteq> set TUNING_FIELDS"
  by code_simp+

lemma own_fields [simp]:
  "''mode'' \<in> set TUNING_FIELDS" "''carrier_mode'' \<in> set TUNING_FIELDS" "''log_level'' \<in> set TUNING_FIELDS"
  by code_simp+

lemma wf_preset [simp]: "wf_tuning (preset mode)"
  using preset_fields by (simp add: preset_def Let_def wf_make_tuning)

lemma wf_carrier_preset [simp]: "wf_tuning (carrier_preset carrier)"
  using preset_fields by (simp add: carrier_preset_def Let_def wf_dict_set wf_dict_set_all)

lemma wf_enforce_named [simp]: "wf_tuning (enforce_named t c)"
  by (simp add: enforce_named_def Let_def wf_dict_set)


subsection \<open>Enforcing a carrier\<close>

lemma carrier_of_text_cases: "carrier_of_text s \<in> set CARRIERS"
  by (simp add: carrier_of_text_def Let_def CARRIERS_def)

lemma carrier_of_text_id: "c \<in> set CARRIERS \<Longrightarrow> carrier_of_text c = c"
proof -
  assume "c \<in> set CARRIERS"
  then consider "c = ''auto''" | "c = ''mci''" | "c = ''irancell''" by (auto simp: CARRIERS_def)
  then show ?thesis by cases (simp_all, code_simp+)
qed

lemma carrier_of_text_idem [simp]: "carrier_of_text (carrier_of_text s) = carrier_of_text s"
  by (rule carrier_of_text_id [OF carrier_of_text_cases])

lemma fld_set [simp]: "fld (dict_set k v t) k' = (if k' = k then v else fld t k')"
  by (simp add: fld_def)

lemma enforced_carrier_mode: "fld (enforce_named t c) ''carrier_mode'' = JStr (carrier_of_text c)"
proof -
  have "fld (carrier_preset ''mci'') ''carrier_mode'' = JStr ''mci''"
    by code_simp
  then show ?thesis by (simp add: enforce_named_def Let_def)
qed

definition protected_with :: "string \<Rightarrow> tuning" where
  \<comment> \<open>the one tuning MCI may use, but for the level of the log\<close>
  "protected_with level = dict_set ''log_level'' (JStr level) (carrier_preset ''mci'')"

lemma log_levels:
  "lower (strip ''minimal'') = ''minimal''" "lower (strip ''normal'') = ''normal''"
  by code_simp+

lemma enforce_mci:
  assumes "carrier_of_text c = ''mci''"
  obtains level where "level \<in> {''minimal'', ''normal''}" "enforce_named t c = protected_with level"
proof
  let ?l = "lower (strip (py_str (or_else (fld (dict_set ''carrier_mode'' (JStr ''mci'') (from_dict t)) ''log_level'')
    (JStr ''minimal''))))"
  show "(if ?l \<in> {''minimal'', ''normal''} then ?l else ''minimal'') \<in> {''minimal'', ''normal''}"
    by simp
  show "enforce_named t c = protected_with (if ?l \<in> {''minimal'', ''normal''} then ?l else ''minimal'')"
    using assms by (simp only: enforce_named_def Let_def protected_with_def) simp
qed

lemma enforce_protected:
  "carrier_of_text c = ''mci'' \<Longrightarrow> level \<in> {''minimal'', ''normal''}
    \<Longrightarrow> enforce_named (protected_with level) c = protected_with level"
  by (auto simp: enforce_named_def Let_def protected_with_def from_dict_wf wf_dict_set or_else_def log_levels)

lemma dict_set_same: "dict_get d k = Some v \<Longrightarrow> dict_set k v d = d"
  by (induction d) (auto simp: dict_get_def)

lemma field_of_enforced: "dict_get (enforce_named t c) ''carrier_mode'' = Some (JStr (carrier_of_text c))"
  using enforced_carrier_mode [of t c] by (simp add: fld_def dict_get_or_def split: option.splits)

lemma enforce_other:
  "carrier_of_text c \<noteq> ''mci''
    \<Longrightarrow> enforce_named t c = dict_set ''carrier_mode'' (JStr (carrier_of_text c)) (from_dict t)"
  by (simp add: enforce_named_def Let_def)

lemma enforce_idem: "carrier_of_text d = carrier_of_text c \<Longrightarrow> enforce_named (enforce_named t c) d = enforce_named t c"
proof (cases "carrier_of_text c = ''mci''")
  case True
  assume "carrier_of_text d = carrier_of_text c"
  with True show ?thesis
    by (metis enforce_mci enforce_protected)
next
  case False
  assume "carrier_of_text d = carrier_of_text c"
  with False show ?thesis
    using field_of_enforced [of t c] by (simp add: enforce_other [of d] from_dict_wf dict_set_same)
qed

subsection \<open>Equality is reflexive on plain values\<close>

fun plain :: "json \<Rightarrow> bool" where
  "plain (JBool _) = True" | "plain (JInt _) = True" | "plain (JStr _) = True" | "plain JNull = True"
| "plain _ = False"

lemma py_eq_plain: "plain v \<Longrightarrow> py_eq v v"
  by (cases v) auto

lemma py_eq_items_refl:
  "distinct (map fst e) \<Longrightarrow> set d \<subseteq> set e \<Longrightarrow> (\<forall>(k, v)\<in>set d. plain v) \<Longrightarrow> py_eq_items d e"
  by (induction d) (auto simp: dict_get_def py_eq_plain)

lemma py_eq_dict_refl: "dict_ok d \<Longrightarrow> (\<forall>(k, v)\<in>set d. plain v) \<Longrightarrow> py_eq (JObj d) (JObj d)"
  by (simp add: py_eq_items_refl dict_ok_def)

lemma plain_dict_set: "\<forall>(k, v)\<in>set d. plain v \<Longrightarrow> plain w \<Longrightarrow> \<forall>(k, v)\<in>set (dict_set k' w d). plain v"
  by (induction k' w d rule: dict_set.induct) (auto split: if_splits)

lemma plain_mci: "list_all (\<lambda>(k, v). plain v) (carrier_preset ''mci'')"
  by code_simp

lemma protected_refl: "py_eq (JObj (protected_with level)) (JObj (protected_with level))"
proof (rule py_eq_dict_refl)
  show "dict_ok (protected_with level)"
    by (simp add: protected_with_def wf_tuning_dict_ok)
  have "\<forall>(k, v)\<in>set (carrier_preset ''mci''). plain v"
    using plain_mci by (simp add: list_all_iff)
  then show "\<forall>(k, v)\<in>set (protected_with level). plain v"
    unfolding protected_with_def by (rule plain_dict_set) simp
qed

end
