(* ===== verification/Tuning_Store.thy ===== *)
theory Tuning_Store
  imports Tuning_Model Gene_Pool
begin

text \<open>
  The settings of the desktop application: the part of class \<open>Storage\<close> (\<open>storage.py\<close>) that keeps the
  tuning of each carrier and the genes, with the migrations of older settings. The store holds the
  settings in memory, what is written on disk, and the saved scan results, which the first migration
  reads. A write succeeds; the JSON text of the file is outside.
\<close>

record store =
  settings :: obj
  settings_file :: obj
  scan_results :: "json list"

definition setting :: "store \<Rightarrow> string \<Rightarrow> json \<Rightarrow> json" where
  \<comment> \<open>\<open>self.settings.get(key, default)\<close>\<close>
  "setting s k d = dict_get_or (settings s) k d"

definition put :: "string \<Rightarrow> json \<Rightarrow> store \<Rightarrow> store" where
  "put k v s = s\<lparr>settings := dict_set k v (settings s)\<rparr>"

definition drop_key :: "string \<Rightarrow> store \<Rightarrow> store" where
  "drop_key k s = s\<lparr>settings := dict_pop k (settings s)\<rparr>"

definition setdefault :: "string \<Rightarrow> json \<Rightarrow> obj \<Rightarrow> obj" where
  "setdefault k v d = (if dict_get d k = None then dict_set k v d else d)"

definition save_store :: "store \<Rightarrow> store" where
  "save_store s = s\<lparr>settings_file := settings s\<rparr>"

section \<open>The tuning of each carrier\<close>

definition carrier_name :: "json \<Rightarrow> string" where
  \<comment> \<open>\<open>_carrier_name\<close>\<close>
  "carrier_name value = carrier_of_text (py_str (or_else value (JStr ''auto'')))"

definition enforced_carrier_tuning :: "string \<Rightarrow> tuning \<Rightarrow> tuning" where
  "enforced_carrier_tuning carrier tuning = (let value = enforce_named tuning carrier in
     dict_set ''pattern_session_edge'' (JStr []) (dict_set ''pattern_clean_edges'' (JStr [])
       (dict_set ''pattern_gene_edges'' (JStr []) value)))"

definition from_json :: "json \<Rightarrow> tuning res" where
  \<comment> \<open>\<open>Tuning.from_dict(x)\<close>: what is no dictionary has no \<open>items\<close>\<close>
  "from_json j = (case j of JObj d \<Rightarrow> Inr (from_dict d) | _ \<Rightarrow> Inl AttributeError)"

definition current_tuning :: "store \<Rightarrow> tuning res" where
  "current_tuning s = rbind (from_json (setting s ''tuning'' (JObj []))) (\<lambda>value.
     Inr (enforced_carrier_tuning (carrier_name (fld value ''carrier_mode'')) value))"

definition carrier_map :: "store \<Rightarrow> obj" where
  \<comment> \<open>\<open>settings.get("carrier_tunings", {})\<close>, a fresh dictionary when it is none\<close>
  "carrier_map s = dict_of (setting s ''carrier_tunings'' (JObj []))"

definition set_tuning :: "tuning \<Rightarrow> store \<Rightarrow> store" where
  "set_tuning t s = (let carrier = carrier_name (fld t ''carrier_mode'');
       t' = enforced_carrier_tuning carrier t;
       values = dict_set carrier (JObj t') (carrier_map s) in
     save_store (put ''tuning'' (JObj t') (put ''carrier_tunings'' (JObj values) s)))"

definition stored_tuning :: "string \<Rightarrow> json \<Rightarrow> tuning" where
  "stored_tuning carrier raw = (case raw of JObj d \<Rightarrow> from_dict d | _ \<Rightarrow> carrier_preset carrier)"

definition tuning_for_carrier :: "json \<Rightarrow> store \<Rightarrow> (tuning \<times> store) res" where
  "tuning_for_carrier value s = (let carrier = carrier_name value; values = carrier_map s;
       raw = dict_get_or values carrier JNull;
       t = enforced_carrier_tuning carrier (stored_tuning carrier raw) in
     if carrier = ''mci'' \<and> \<not> py_eq raw (JObj t) then
       let s1 = put ''carrier_tunings'' (JObj (dict_set carrier (JObj t) values)) s in
       rbind (from_json (setting s1 ''tuning'' (JObj []))) (\<lambda>active.
         let s2 = (if carrier_name (fld active ''carrier_mode'') = ''mci'' then put ''tuning'' (JObj t) s1 else s1) in
         Inr (t, save_store s2))
     else Inr (t, s))"

fun tunings_for :: "string list \<Rightarrow> store \<Rightarrow> ((string \<times> tuning) list \<times> store) res" where
  "tunings_for [] s = Inr ([], s)"
| "tunings_for (c # cs) s = rbind (tuning_for_carrier (JStr c) s) (\<lambda>(t, s').
     rbind (tunings_for cs s') (\<lambda>(ts, s''). Inr ((c, t) # ts, s'')))"

definition all_carrier_tunings :: "store \<Rightarrow> ((string \<times> tuning) list \<times> store) res" where
  "all_carrier_tunings s = tunings_for CARRIERS s"

definition activate_carrier :: "json \<Rightarrow> store \<Rightarrow> (tuning \<times> store) res" where
  "activate_carrier value s = (let carrier = carrier_name value in
     rbind (current_tuning s) (\<lambda>current.
       let values = carrier_map s; current_carrier = carrier_name (fld current ''carrier_mode'');
           current = enforced_carrier_tuning current_carrier current;
           values = dict_set current_carrier (JObj current) values in
       rbind (tuning_for_carrier (JStr carrier) s) (\<lambda>(target, s1).
         let values = dict_set carrier (JObj target) values in
         Inr (target, save_store (put ''tuning'' (JObj target)
           (put ''carrier_tunings'' (JObj values) s1))))))"

fun store_tunings :: "(string \<times> tuning) list \<Rightarrow> obj \<Rightarrow> obj" where
  "store_tunings [] stored = stored"
| "store_tunings ((c, t) # vs) stored = (let carrier = carrier_name (JStr c) in
     store_tunings vs (dict_set carrier (JObj (enforced_carrier_tuning carrier t)) stored))"

definition set_carrier_tunings :: "(string \<times> tuning) list \<Rightarrow> json \<Rightarrow> store \<Rightarrow> (tuning \<times> store) res" where
  "set_carrier_tunings values active_carrier s = (let stored = store_tunings values (carrier_map s);
       mci = stored_tuning ''mci'' (dict_get_or stored ''mci'' JNull);
       stored = dict_set ''mci'' (JObj (enforced_carrier_tuning ''mci'' mci)) stored;
       carrier = carrier_name active_carrier in
     rbind (from_json (dict_get_or stored carrier (JObj (carrier_preset carrier)))) (\<lambda>active.
       let active = enforced_carrier_tuning carrier active;
           stored = dict_set carrier (JObj active) stored in
       Inr (active, save_store (put ''tuning'' (JObj active) (put ''carrier_tunings'' (JObj stored) s)))))"


section \<open>The store as a map from carriers to tunings\<close>

text \<open>
  The contract of the four operations: a tuning for each carrier and the carrier in use. Whatever the
  records on disk hold, the tuning of a carrier is what \<open>eff_of\<close> reads; a write to one carrier leaves
  the others alone, and a change of the carrier in use leaves all of them alone.
\<close>

definition eff_of :: "obj \<Rightarrow> string \<Rightarrow> tuning" where
  "eff_of m c = enforced_carrier_tuning c (stored_tuning c (dict_get_or m c JNull))"

definition effective :: "store \<Rightarrow> string \<Rightarrow> tuning" where
  "effective s = eff_of (carrier_map s)"

definition active_carrier_of :: "store \<Rightarrow> string" where
  "active_carrier_of s = carrier_name (fld (from_dict (dict_of (setting s ''tuning'' (JObj [])))) ''carrier_mode'')"

definition records_ok :: "obj \<Rightarrow> bool" where
  "records_ok m = list_all (\<lambda>c. case dict_get m c of None \<Rightarrow> True | Some j \<Rightarrow> is_dict j) CARRIERS"

definition store_ok :: "store \<Rightarrow> bool" where
  \<comment> \<open>what is in memory is on disk, the records are dictionaries, and the tuning in use is the one of its carrier\<close>
  "store_ok s \<longleftrightarrow> settings_file s = settings s \<and> is_dict (setting s ''tuning'' (JObj []))
     \<and> records_ok (carrier_map s) \<and> current_tuning s = Inr (effective s (active_carrier_of s))"

datatype store_op = Set_Tuning tuning | Activate json | Tuning_For json
  | Set_All "(string \<times> tuning) list" json

fun store_step :: "store_op \<Rightarrow> store \<Rightarrow> (tuning option \<times> store) res" where
  "store_step (Set_Tuning t) s = Inr (None, set_tuning t s)"
| "store_step (Activate v) s = rbind (activate_carrier v s) (\<lambda>(t, s'). Inr (Some t, s'))"
| "store_step (Tuning_For v) s = rbind (tuning_for_carrier v s) (\<lambda>(t, s'). Inr (Some t, s'))"
| "store_step (Set_All vs v) s = rbind (set_carrier_tunings vs v s) (\<lambda>(t, s'). Inr (Some t, s'))"

fun run_store :: "store_op list \<Rightarrow> store \<Rightarrow> (tuning option list \<times> store) res" where
  "run_store [] s = Inr ([], s)"
| "run_store (x # xs) s = rbind (store_step x s) (\<lambda>(r, s').
     rbind (run_store xs s') (\<lambda>(rs, s''). Inr (r # rs, s'')))"

type_synonym carriers = "string \<times> (string \<Rightarrow> tuning)"

definition update_all :: "(string \<times> tuning) list \<Rightarrow> (string \<Rightarrow> tuning) \<Rightarrow> string \<Rightarrow> tuning" where
  "update_all vs m = fold (\<lambda>(c, t) m. m(carrier_name (JStr c) := enforced_carrier_tuning (carrier_name (JStr c)) t)) vs m"

fun spec_step :: "store_op \<Rightarrow> carriers \<Rightarrow> tuning option \<times> carriers" where
  "spec_step (Set_Tuning t) (a, m) = (let c = carrier_name (fld t ''carrier_mode'') in
     (None, c, m(c := enforced_carrier_tuning c t)))"
| "spec_step (Activate v) (a, m) = (Some (m (carrier_name v)), carrier_name v, m)"
| "spec_step (Tuning_For v) (a, m) = (Some (m (carrier_name v)), a, m)"
| "spec_step (Set_All vs v) (a, m) = (let m' = update_all vs m in (Some (m' (carrier_name v)), carrier_name v, m'))"

fun spec_run :: "store_op list \<Rightarrow> carriers \<Rightarrow> tuning option list \<times> carriers" where
  "spec_run [] m = ([], m)"
| "spec_run (x # xs) m = (let (r, m') = spec_step x m; (rs, m'') = spec_run xs m' in (r # rs, m''))"

definition abs_store :: "store \<Rightarrow> carriers" where
  "abs_store s = (active_carrier_of s, effective s)"

lemma carrier_name_in [simp]: "carrier_name v \<in> set CARRIERS"
  by (simp add: carrier_name_def carrier_of_text_cases)

lemma carrier_text_name [simp]: "carrier_of_text (carrier_name v) = carrier_name v"
  by (simp add: carrier_name_def)

lemma carrier_name_id: "c \<in> set CARRIERS \<Longrightarrow> carrier_name (JStr c) = c"
  by (auto simp: carrier_name_def or_else_def carrier_of_text_id py_str_def CARRIERS_def)

lemma carrier_name_name [simp]: "carrier_name (JStr (carrier_name v)) = carrier_name v"
  by (rule carrier_name_id) simp

lemma runtime_fields [simp]:
  "''pattern_gene_edges'' \<in> set TUNING_FIELDS" "''pattern_clean_edges'' \<in> set TUNING_FIELDS"
  "''pattern_session_edge'' \<in> set TUNING_FIELDS"
  by code_simp+

lemma wf_enforced [simp]: "wf_tuning (enforced_carrier_tuning c t)"
  by (simp add: enforced_carrier_tuning_def Let_def wf_dict_set)

lemma enforced_mode: "fld (enforced_carrier_tuning c t) ''carrier_mode'' = JStr (carrier_of_text c)"
  by (simp add: enforced_carrier_tuning_def Let_def enforced_carrier_mode)

lemma enforced_fields:
  "dict_get (enforced_carrier_tuning c t) ''pattern_gene_edges'' = Some (JStr [])"
  "dict_get (enforced_carrier_tuning c t) ''pattern_clean_edges'' = Some (JStr [])"
  "dict_get (enforced_carrier_tuning c t) ''pattern_session_edge'' = Some (JStr [])"
  "dict_get (enforced_carrier_tuning c t) ''carrier_mode'' = Some (JStr (carrier_of_text c))"
  by (simp_all add: enforced_carrier_tuning_def Let_def field_of_enforced)

lemma cleared_protected:
  "dict_get (protected_with l) ''pattern_gene_edges'' = Some (JStr [])"
  "dict_get (protected_with l) ''pattern_clean_edges'' = Some (JStr [])"
  "dict_get (protected_with l) ''pattern_session_edge'' = Some (JStr [])"
proof -
  have "dict_get (carrier_preset ''mci'') ''pattern_gene_edges'' = Some (JStr [])"
    "dict_get (carrier_preset ''mci'') ''pattern_clean_edges'' = Some (JStr [])"
    "dict_get (carrier_preset ''mci'') ''pattern_session_edge'' = Some (JStr [])"
    by code_simp+
  then show "dict_get (protected_with l) ''pattern_gene_edges'' = Some (JStr [])"
    "dict_get (protected_with l) ''pattern_clean_edges'' = Some (JStr [])"
    "dict_get (protected_with l) ''pattern_session_edge'' = Some (JStr [])"
    by (simp_all add: protected_with_def)
qed

lemma enforced_mci:
  assumes "carrier_of_text c = ''mci''"
  obtains l where "l \<in> {''minimal'', ''normal''}" "enforced_carrier_tuning c t = protected_with l"
proof -
  obtain l where "l \<in> {''minimal'', ''normal''}" "enforce_named t c = protected_with l"
    using assms by (rule enforce_mci)
  then show ?thesis
    using that by (simp add: enforced_carrier_tuning_def Let_def dict_set_same cleared_protected)
qed

lemma enforced_idem:
  "carrier_of_text d = carrier_of_text c \<Longrightarrow>
    enforced_carrier_tuning d (enforced_carrier_tuning c t) = enforced_carrier_tuning c t"
proof (cases "carrier_of_text c = ''mci''")
  case True
  assume "carrier_of_text d = carrier_of_text c"
  moreover obtain l where "l \<in> {''minimal'', ''normal''}" "enforced_carrier_tuning c t = protected_with l"
    using True by (rule enforced_mci)
  ultimately show ?thesis
    using True by (simp add: enforced_carrier_tuning_def Let_def enforce_protected dict_set_same cleared_protected)
next
  case False
  let ?e = "enforced_carrier_tuning c t"
  assume "carrier_of_text d = carrier_of_text c"
  with False have "enforce_named ?e d = ?e"
    by (simp add: enforce_other from_dict_wf dict_set_same enforced_fields)
  then show ?thesis
    unfolding enforced_carrier_tuning_def [of d] by (simp add: Let_def dict_set_same enforced_fields)
qed


subsection \<open>One operation\<close>

lemma put_simps [simp]:
  "setting (put k v s) k' d = (if k' = k then v else setting s k' d)"
  "setting (save_store s) = setting s"
  "settings_file (save_store s) = settings s"
  "settings (save_store s) = settings s"
  "scan_results (save_store s) = scan_results s" "scan_results (put k v s) = scan_results s"
  by (auto simp: setting_def put_def save_store_def fun_eq_iff)

lemma carrier_map_put [simp]:
  "carrier_map (put ''carrier_tunings'' (JObj m) s) = m"
  "k \<noteq> ''carrier_tunings'' \<Longrightarrow> carrier_map (put k v s) = carrier_map s"
  "carrier_map (save_store s) = carrier_map s"
  by (simp_all add: carrier_map_def dict_of_def)

lemma stored_tuning_JObj [simp]: "stored_tuning c (JObj d) = from_dict d"
  by (simp add: stored_tuning_def)

lemma from_json_JObj [simp]: "from_json (JObj d) = Inr (from_dict d)"
  by (simp add: from_json_def)

lemma eff_of_set:
  "carrier_of_text c = c \<Longrightarrow>
    eff_of (dict_set c (JObj (enforced_carrier_tuning c t)) m) = (eff_of m)(c := enforced_carrier_tuning c t)"
  by (auto simp: eff_of_def fun_eq_iff from_dict_wf enforced_idem)

lemma eff_of_idem:
  "carrier_of_text c = c \<Longrightarrow> enforced_carrier_tuning c (eff_of m c) = eff_of m c"
  by (simp add: eff_of_def enforced_idem)

lemma eff_of_set_self:
  "carrier_of_text c = c \<Longrightarrow> eff_of (dict_set c (JObj (eff_of m c)) m) = eff_of m"
  using eff_of_set [of c "eff_of m c" m] by (simp add: eff_of_idem)

lemma records_ok_set: "records_ok m \<Longrightarrow> records_ok (dict_set c (JObj t) m)"
  by (auto simp: records_ok_def is_dict_def list_all_iff)

lemma name_of_enforced:
  "carrier_name (fld (enforced_carrier_tuning c t) ''carrier_mode'') = carrier_of_text c"
  by (simp add: enforced_mode carrier_name_id carrier_of_text_cases)

definition commit :: "obj \<Rightarrow> tuning \<Rightarrow> store \<Rightarrow> store" where
  \<comment> \<open>the last steps of every operation that changes the carrier in use\<close>
  "commit m t s = save_store (put ''tuning'' (JObj t) (put ''carrier_tunings'' (JObj m) s))"

lemma commit_ok:
  assumes "records_ok m" "c = carrier_name v" "t = eff_of m c"
  shows "store_ok (commit m t s) \<and> abs_store (commit m t s) = (c, eff_of m)"
proof -
  have t: "wf_tuning t" "carrier_name (fld t ''carrier_mode'') = c" "enforced_carrier_tuning c t = t"
    using assms name_of_enforced [of c] by (simp_all add: eff_of_def enforced_idem)
  have "active_carrier_of (commit m t s) = c"
    using t by (simp add: active_carrier_of_def commit_def dict_of_def from_dict_wf)
  moreover have "current_tuning (commit m t s) = Inr t"
    using t by (simp add: current_tuning_def commit_def from_dict_wf)
  ultimately show ?thesis
    using assms by (simp add: store_ok_def abs_store_def effective_def) (simp add: commit_def is_dict_def)
qed

lemma set_tuning_refines:
  assumes "store_ok s"
  shows "store_ok (set_tuning t s) \<and> (None, abs_store (set_tuning t s)) = spec_step (Set_Tuning t) (abs_store s)"
proof -
  define c where "c = carrier_name (fld t ''carrier_mode'')"
  define e where "e = enforced_carrier_tuning c t"
  define m where "m = dict_set c (JObj e) (carrier_map s)"
  have c: "carrier_of_text c = c" by (simp add: c_def)
  have set: "set_tuning t s = commit m e s"
    by (simp add: set_tuning_def commit_def Let_def m_def e_def c_def)
  have eff: "eff_of m = (eff_of (carrier_map s))(c := e)"
    using c by (simp add: m_def e_def eff_of_set)
  have "store_ok (commit m e s) \<and> abs_store (commit m e s) = (c, eff_of m)"
    using assms c_def eff by (intro commit_ok) (simp_all add: m_def records_ok_set store_ok_def)
  with set eff show ?thesis
    by (simp add: abs_store_def effective_def Let_def c_def e_def)
qed

lemma tuning_JObj: "is_dict (setting s ''tuning'' (JObj [])) \<Longrightarrow>
    from_json (setting s ''tuning'' (JObj [])) = Inr (from_dict (dict_of (setting s ''tuning'' (JObj []))))"
  by (auto simp: is_dict_def dict_of_def split: json.splits)

lemma active_eff:
  assumes "store_ok s"
  shows "current_tuning s = Inr (eff_of (carrier_map s) (active_carrier_of s))"
    "carrier_of_text (active_carrier_of s) = active_carrier_of s"
  using assms by (auto simp: store_ok_def effective_def active_carrier_of_def)

lemma tuning_for_refines:
  assumes ok: "store_ok s"
  obtains s' where "tuning_for_carrier v s = Inr (effective s (carrier_name v), s')"
    "store_ok s'" "abs_store s' = abs_store s" "records_ok (carrier_map s')"
proof -
  define c where "c = carrier_name v"
  define m where "m = carrier_map s"
  define t where "t = eff_of m c"
  have c: "carrier_of_text c = c" by (simp add: c_def)
  have t: "t = enforced_carrier_tuning c (stored_tuning c (dict_get_or m c JNull))"
    by (simp add: t_def eff_of_def)
  note tfc = tuning_for_carrier_def [of v s, folded c_def m_def, unfolded Let_def, folded t]
  show ?thesis
  proof (cases "c = ''mci'' \<and> \<not> py_eq (dict_get_or m c JNull) (JObj t)")
    case False
    have "tuning_for_carrier v s = Inr (t, s)" unfolding tfc by (simp only: False if_False)
    then show ?thesis using that [of s] ok by (simp add: t_def c_def effective_def m_def store_ok_def)
  next
    case True
    define m' where "m' = dict_set c (JObj t) m"
    have eff: "eff_of m' = eff_of m" using c by (simp add: m'_def t_def eff_of_set_self)
    have rec: "records_ok m'" using ok by (simp add: m'_def m_def store_ok_def records_ok_set)
    define s1 where "s1 = put ''carrier_tunings'' (JObj m') s"
    have dict: "is_dict (setting s ''tuning'' (JObj []))" using ok by (simp add: store_ok_def)
    have act: "carrier_name (fld (from_dict (dict_of (setting s ''tuning'' (JObj [])))) ''carrier_mode'')
        = active_carrier_of s"
      by (simp add: active_carrier_of_def)
    have run: "tuning_for_carrier v s
        = Inr (t, save_store (if active_carrier_of s = ''mci'' then put ''tuning'' (JObj t) s1 else s1))"
      unfolding tfc if_P [OF True] using tuning_JObj [OF dict] act by (simp add: s1_def m'_def)
    show ?thesis
    proof (cases "active_carrier_of s = ''mci''")
      case amci: True
      have "store_ok (commit m' t s) \<and> abs_store (commit m' t s) = (c, eff_of m')"
        using rec eff by (intro commit_ok [where v = v]) (simp_all add: c_def t_def)
      with run amci True show ?thesis
        using that [of "commit m' t s"]
        by (simp add: commit_def s1_def abs_store_def effective_def eff m_def t_def c_def store_ok_def)
    next
      case aother: False
      have "store_ok (save_store s1) \<and> abs_store (save_store s1) = abs_store s"
        using ok rec eff active_eff [OF ok]
        by (simp add: store_ok_def abs_store_def effective_def s1_def active_carrier_of_def current_tuning_def m_def)
      with run aother True show ?thesis
        using that [of "save_store s1"] by (simp add: effective_def m_def t_def c_def store_ok_def)
    qed
  qed
qed


lemma activate_refines:
  assumes ok: "store_ok s"
  obtains s' where "activate_carrier v s = Inr (effective s (carrier_name v), s')"
    "store_ok s'" "abs_store s' = (carrier_name v, effective s)"
proof -
  define c a m where "c = carrier_name v" and "a = active_carrier_of s" and "m = carrier_map s"
  define m1 where "m1 = dict_set a (JObj (eff_of m a)) m"
  define m2 where "m2 = dict_set c (JObj (eff_of m c)) m1"
  have names: "carrier_of_text c = c" "carrier_of_text a = a" "carrier_name (JStr c) = c"
    using active_eff [OF ok] by (simp_all add: c_def a_def)
  have cur: "current_tuning s = Inr (eff_of m a)" using active_eff [OF ok] by (simp add: m_def a_def)
  have mode: "carrier_name (fld (eff_of m a) ''carrier_mode'') = a"
    using names by (simp add: eff_of_def name_of_enforced)
  have eff1: "eff_of m1 = eff_of m" using names by (simp add: m1_def eff_of_set_self)
  have eff2: "eff_of m2 = eff_of m" using names eff_of_set_self [of c m1] by (simp add: m2_def eff1)
  have rec: "records_ok m2" using ok by (simp add: m2_def m1_def m_def records_ok_set store_ok_def)
  obtain s1 where s1: "tuning_for_carrier (JStr c) s = Inr (eff_of m c, s1)"
    using tuning_for_refines [OF ok, of "JStr c"] names by (metis effective_def m_def)
  have run: "activate_carrier v s = Inr (eff_of m c, commit m2 (eff_of m c) s1)"
    using cur s1 mode names
    by (simp add: activate_carrier_def Let_def commit_def m2_def m1_def eff_of_idem flip: c_def m_def)
  have "store_ok (commit m2 (eff_of m c) s1) \<and> abs_store (commit m2 (eff_of m c) s1) = (c, eff_of m2)"
    using rec eff2 by (intro commit_ok [where v = v]) (simp_all add: c_def)
  with run eff2 show ?thesis using that by (simp add: effective_def c_def m_def)
qed

lemma store_tunings_eff: "eff_of (store_tunings vs m) = update_all vs (eff_of m)"
  by (induction vs m rule: store_tunings.induct) (simp_all add: update_all_def Let_def eff_of_set fun_upd_def)

lemma store_tunings_ok: "records_ok m \<Longrightarrow> records_ok (store_tunings vs m)"
  by (induction vs m rule: store_tunings.induct) (simp_all add: Let_def records_ok_set)

lemma from_json_record:
  assumes "records_ok m" "c \<in> set CARRIERS"
  shows "from_json (dict_get_or m c (JObj (carrier_preset c))) = Inr (stored_tuning c (dict_get_or m c JNull))"
proof (cases "dict_get m c")
  case None
  then show ?thesis by (simp add: dict_get_or_def stored_tuning_def from_dict_wf)
next
  case (Some j)
  with assms obtain d where "j = JObj d"
    by (cases j) (auto simp: records_ok_def list_all_iff is_dict_def split: option.splits)
  with Some show ?thesis by (simp add: dict_get_or_def)
qed

lemma set_all_refines:
  assumes ok: "store_ok s"
  obtains s' where "set_carrier_tunings vs v s = Inr (update_all vs (effective s) (carrier_name v), s')"
    "store_ok s'" "abs_store s' = (carrier_name v, update_all vs (effective s))"
proof -
  define c m where "c = carrier_name v" and "m = store_tunings vs (carrier_map s)"
  define m1 where "m1 = dict_set ''mci'' (JObj (eff_of m ''mci'')) m"
  define m2 where "m2 = dict_set c (JObj (eff_of m c)) m1"
  have names: "carrier_of_text c = c" "carrier_of_text ''mci'' = ''mci''" "c \<in> set CARRIERS"
    using carrier_name_in [of v] by (simp_all add: c_def carrier_of_text_id CARRIERS_def)
  have eff: "eff_of m = update_all vs (effective s)"
    by (simp add: m_def store_tunings_eff effective_def)
  have eff1: "eff_of m1 = eff_of m" using names by (simp add: m1_def eff_of_set_self)
  have eff2: "eff_of m2 = eff_of m" using names eff_of_set_self [of c m1] by (simp add: m2_def eff1)
  have rec0: "records_ok m" using ok by (simp add: m_def store_tunings_ok store_ok_def)
  then have rec1: "records_ok m1" and rec: "records_ok m2" by (simp_all add: m1_def m2_def records_ok_set)
  have act: "enforced_carrier_tuning c (stored_tuning c (dict_get_or m1 c JNull)) = eff_of m c"
    using eff1 by (metis eff_of_def)
  have mci: "enforced_carrier_tuning ''mci'' (stored_tuning ''mci'' (dict_get_or m ''mci'' JNull)) = eff_of m ''mci''"
    by (simp add: eff_of_def)
  have run: "set_carrier_tunings vs v s = Inr (eff_of m c, commit m2 (eff_of m c) s)"
    unfolding set_carrier_tunings_def Let_def c_def [symmetric] m_def [symmetric] mci m1_def [symmetric]
      from_json_record [OF rec1 names(3)]
    by (simp add: act commit_def m2_def)
  have "store_ok (commit m2 (eff_of m c) s) \<and> abs_store (commit m2 (eff_of m c) s) = (c, eff_of m2)"
    using rec eff2 by (intro commit_ok [where v = v]) (simp_all add: c_def)
  with run eff2 eff show ?thesis using that by (simp add: c_def)
qed

lemma store_step_refines:
  assumes "store_ok s"
  shows "\<exists>r s'. store_step x s = Inr (r, s') \<and> store_ok s' \<and> (r, abs_store s') = spec_step x (abs_store s)"
proof (cases x)
  case (Set_Tuning t)
  then show ?thesis using set_tuning_refines [OF assms, of t] by auto
next
  case (Activate v)
  obtain s' where "activate_carrier v s = Inr (effective s (carrier_name v), s')"
    "store_ok s'" "abs_store s' = (carrier_name v, effective s)"
    using assms by (rule activate_refines)
  with Activate show ?thesis by (simp add: abs_store_def)
next
  case (Tuning_For v)
  obtain s' where "tuning_for_carrier v s = Inr (effective s (carrier_name v), s')"
    "store_ok s'" "abs_store s' = abs_store s"
    using assms by (rule tuning_for_refines)
  with Tuning_For show ?thesis by (simp add: abs_store_def)
next
  case (Set_All vs v)
  obtain s' where "set_carrier_tunings vs v s = Inr (update_all vs (effective s) (carrier_name v), s')"
    "store_ok s'" "abs_store s' = (carrier_name v, update_all vs (effective s))"
    using assms by (rule set_all_refines)
  with Set_All show ?thesis by (simp add: abs_store_def Let_def)
qed

lemma run_store_refines:
  "store_ok s \<Longrightarrow> \<exists>rs s'. run_store xs s = Inr (rs, s') \<and> store_ok s' \<and> (rs, abs_store s') = spec_run xs (abs_store s)"
proof (induction xs arbitrary: s)
  case (Cons x xs)
  obtain r s1 where s1: "store_step x s = Inr (r, s1)" "store_ok s1" "spec_step x (abs_store s) = (r, abs_store s1)"
    using store_step_refines [OF Cons.prems, of x] by force
  obtain rs s2 where s2: "run_store xs s1 = Inr (rs, s2)" "store_ok s2" "spec_run xs (abs_store s1) = (rs, abs_store s2)"
    using Cons.IH [OF s1(2)] by force
  show ?case using s1 s2 by (simp add: Let_def)
qed simp


section \<open>Migrations of older settings\<close>

definition UPDATE_REPOSITORY_URL :: string where
  "UPDATE_REPOSITORY_URL = ''https://github.com/Floxu1/UAC-SNI-Spoofer-Windows''"

definition LEGACY_UPDATE_REPOSITORIES :: "string list" where
  "LEGACY_UPDATE_REPOSITORIES = map (\<lambda>platform. ''https://github.com/floxu1/uac-sni-spoofer-'' @ platform)
     [''android'', ''androids'']"

definition UPDATE_CACHE_KEYS :: "string list" where
  "UPDATE_CACHE_KEYS = [''last_update_checked_at'', ''latest_version'', ''latest_tag'', ''latest_release_name'',
     ''latest_release_url'', ''update_available'', ''last_update_repo_url'', ''last_update_current_version'',
     ''notified_update_version'']"

definition rstrip_char :: "char \<Rightarrow> string \<Rightarrow> string" where
  "rstrip_char c s = rev (dropWhile (\<lambda>x. x = c) (rev s))"

definition replace_first :: "string \<Rightarrow> string \<Rightarrow> string \<Rightarrow> string" where
  \<comment> \<open>\<open>s.replace(a, b, 1)\<close>\<close>
  "replace_first a b s = (case find_sub a s of None \<Rightarrow> s | Some i \<Rightarrow> take i s @ b @ drop (i + length a) s)"

definition normalized_repository_url :: "string \<Rightarrow> string" where
  "normalized_repository_url value = (
     let normalized = rstrip_char CHR ''/'' (lower (strip value));
         normalized = (if endswith normalized ''.git'' then take (length normalized - 4) normalized else normalized) in
     replace_first ''https://www.github.com/'' ''https://github.com/'' normalized)"

definition migrate_update_repository :: "store \<Rightarrow> store" where
  "migrate_update_repository s = (
     let current = strip (py_str (or_else (setting s ''update_repo_url'' (JStr [])) (JStr [])));
         normalized = normalized_repository_url current;
         replace_repository = (normalized = [] \<or> normalized \<in> set LEGACY_UPDATE_REPOSITORIES);
         (s, changed) = (if replace_repository \<and> current \<noteq> UPDATE_REPOSITORY_URL
           then (put ''update_repo_url'' (JStr UPDATE_REPOSITORY_URL) s, True) else (s, False));
         (s, changed) = (if replace_repository
           then (fold drop_key UPDATE_CACHE_KEYS s,
                 changed \<or> list_ex (\<lambda>k. dict_get (settings s) k \<noteq> None) UPDATE_CACHE_KEYS) else (s, changed));
         (s, changed) = (if \<not> py_eq (setting s ''update_repository_version'' JNull) (JInt 1)
           then (put ''update_repository_version'' (JInt 1) s, True) else (s, changed)) in
     if changed then save_store s else s)"

definition tuning_dict :: "store \<Rightarrow> obj" where
  \<comment> \<open>\<open>settings.get("tuning", {})\<close>, an empty dictionary when it is none\<close>
  "tuning_dict s = dict_of (setting s ''tuning'' (JObj []))"

definition migrate_pattern_core :: "store \<Rightarrow> store" where
  "migrate_pattern_core s = (if py_eq (setting s ''pattern_core_version'' JNull) (JInt 1) then s
     else let t = tuning_dict s;
         t = fold (\<lambda>(k, v) t. if startswith k ''pattern_'' then setdefault k v t else t) TUNING_DEFAULTS t;
         t = dict_set_all [(''fake_probe_enabled'', JBool False), (''fake_probe_count'', JInt 0),
               (''initial_race_enabled'', JBool False), (''warm_tcp_pool_enabled'', JBool False),
               (''log_level'', JStr ''minimal'')] t in
       save_store (put ''pattern_core_version'' (JInt 1) (put ''tuning'' (JObj t) s)))"

definition PRESET_ALIASES :: "string list" where
  "PRESET_ALIASES = [''maximum'', ''upload'', ''streaming'', ''fast'', ''low_latency'', ''compatibility'', ''stealth'',
     ''balanced'']"

definition SPEED_KEYS :: "string list" where
  "SPEED_KEYS = [''xray_mux_enabled'', ''xray_mux_concurrency'', ''background_quality_probe_enabled'',
     ''background_quality_probe_delay_s'', ''pattern_edge_failure_cooldown_s'', ''pattern_keepalive_interval_s'',
     ''pattern_keepalive_count'', ''pattern_max_sessions'']"

definition key_text :: "obj \<Rightarrow> string \<Rightarrow> string" where
  \<comment> \<open>\<open>str(d.get(key, "") or "").strip().lower()\<close>\<close>
  "key_text d k = lower (strip (py_str (or_else (dict_get_or d k (JStr [])) (JStr []))))"

definition mode_family :: "string \<Rightarrow> string" where
  \<comment> \<open>empty where the source has \<open>None\<close>\<close>
  "mode_family mode = (if mode \<in> {''fast'', ''low_latency''} then ''fast''
     else if mode = ''streaming'' then ''streaming''
     else if mode \<in> {''compatibility'', ''stealth''} then ''compatibility'' else [])"

definition session_cap_of :: "obj \<Rightarrow> tuning \<Rightarrow> (int \<times> obj) res" where
  \<comment> \<open>a value that is no number is replaced; an infinity is \<open>OverflowError\<close>, which is not caught\<close>
  "session_cap_of t defaults = (
     case py_int_of (or_else (dict_get_or t ''pattern_max_sessions'' (fld defaults ''pattern_max_sessions'')) (JInt 0)) of
       Inr n \<Rightarrow> Inr (n, t)
     | Inl e \<Rightarrow> (if e = TypeError \<or> e = ValueError
         then rbind (py_int_of (fld defaults ''pattern_max_sessions'')) (\<lambda>n.
           Inr (n, dict_set ''pattern_max_sessions'' (JInt n) t))
         else Inl e))"

definition migrate_speed_core :: "store \<Rightarrow> store res" where
  "migrate_speed_core s = rbind (py_int_of (or_else (setting s ''speed_core_version'' (JInt 0)) (JInt 0)))
     (\<lambda>previous_version. if previous_version \<ge> 3 then Inr s else (
       let t = tuning_dict s; mode = key_text t ''mode''; pattern_preset = key_text t ''pattern_quality_preset'';
           preset_name = (if mode \<in> set PRESET_ALIASES then mode
             else if pattern_preset \<in> set PRESET_ALIASES then pattern_preset else ''balanced'');
           defaults = preset preset_name;
           t = fold (\<lambda>k t. setdefault k (fld defaults k) t) SPEED_KEYS t in
       rbind (session_cap_of t defaults) (\<lambda>(session_cap, t).
         let family = mode_family mode;
             t = (if family \<in> {''fast'', ''streaming''} \<and> session_cap \<le> 6
               then dict_set ''pattern_max_sessions'' (JInt 10) t else t);
             previous_mux = dict_get_or t ''xray_mux_enabled'' JNull;
             t = (if family \<in> {''streaming'', ''compatibility''} then dict_set ''xray_mux_enabled'' (JBool False) t else t);
             t = (if family = ''compatibility'' \<and> previous_version = 2 \<and> previous_mux = JBool True \<and> session_cap = 10
               then dict_set ''pattern_max_sessions'' (fld defaults ''pattern_max_sessions'') t else t);
             t = setdefault ''background_quality_probe_enabled'' (JBool False) t;
             s = put ''speed_core_version'' (JInt 3) (put ''tuning'' (JObj t) s);
             s = s\<lparr>settings := setdefault ''update_repo_url'' (JStr UPDATE_REPOSITORY_URL) (settings s)\<rparr> in
         Inr (save_store s))))"


definition casefold :: "string \<Rightarrow> string" where
  \<comment> \<open>on Latin-1, as a key: the micro sign, whose fold is no Latin-1 character, stays itself\<close>
  "casefold s = concat (map (\<lambda>c. if (of_char c :: nat) = 223 then ''ss'' else [lower_char c]) s)"

fun fallback_items :: "string list \<Rightarrow> string list \<Rightarrow> string list" where
  \<comment> \<open>the items that are new up to case; \<open>seen\<close> holds folded keys\<close>
  "fallback_items seen [] = []"
| "fallback_items seen (raw # items) = (let item = strip raw; key = casefold item in
     if item = [] \<or> key \<in> set seen then fallback_items seen items
     else item # fallback_items (key # seen) items)"

definition text_field :: "tuning \<Rightarrow> string \<Rightarrow> string" where
  \<comment> \<open>\<open>str(tuning.name or "").strip()\<close>\<close>
  "text_field t name = strip (py_str (or_else (fld t name) (JStr [])))"

definition text_or :: "tuning \<Rightarrow> tuning \<Rightarrow> string \<Rightarrow> string" where
  "text_or t turbo name = (if text_field t name = [] then py_str (fld turbo name) else text_field t name)"

definition upgrade_mci_turbo :: "tuning \<Rightarrow> tuning" where
  "upgrade_mci_turbo t = (if \<not> is_legacy_mci_compatibility t then t else (
     let turbo = carrier_preset ''mci'';
         route_primary = text_or t turbo ''pattern_connect_ip'';
         raw_fallbacks = py_str (or_else (fld t ''pattern_fallback_ips'') (JStr []));
         seen = [casefold route_primary];
         route_fallbacks = fallback_items seen (split_on CHR '','' raw_fallbacks);
         defaults = py_str (fld turbo ''pattern_fallback_ips'') @ '','' @ py_str (fld turbo ''pattern_connect_ip'');
         route_fallbacks = (if route_fallbacks = []
           then take 1 (fallback_items seen (split_on CHR '','' defaults)) else route_fallbacks) in
     dict_set_all [(''pattern_connect_ip'', JStr route_primary),
       (''pattern_fallback_ips'', JStr (join '','' route_fallbacks)),
       (''pattern_fake_sni'', JStr (text_or t turbo ''pattern_fake_sni'')),
       (''pattern_use_profile_edges'', JBool (truthy (fld t ''pattern_use_profile_edges'')))] turbo))"

definition tuple_gt :: "pyfloat \<times> pyfloat \<times> string \<Rightarrow> pyfloat \<times> pyfloat \<times> string \<Rightarrow> bool" where
  \<comment> \<open>\<open>a > b\<close> of tuples: the first difference decides\<close>
  "tuple_gt a b = (case (a, b) of ((x, y, e), (x', y', e')) \<Rightarrow>
     if x \<noteq> x' then flt_lt x' x else if y \<noteq> y' then flt_lt y' y else e' < e)"

fun max_tuple :: "(pyfloat \<times> pyfloat \<times> string) list \<Rightarrow> pyfloat \<times> pyfloat \<times> string" where
  \<comment> \<open>\<open>max(...)\<close> keeps the first of equals\<close>
  "max_tuple [] = (Fin 0, Fin 0, [])"
| "max_tuple (x # xs) = fold (\<lambda>y best. if tuple_gt y best then y else best) xs x"

fun edge_candidates :: "string \<Rightarrow> string \<Rightarrow> json list \<Rightarrow> (pyfloat \<times> pyfloat \<times> string) list res" where
  "edge_candidates carrier domain [] = Inr []"
| "edge_candidates carrier domain (raw # results) = (case raw of
     JObj r \<Rightarrow>
       (let edge = strip (py_str (or_else (dict_get_or r ''edge'' (JStr [])) (JStr []))) in
        if \<not> truthy (dict_get_or r ''success'' (JBool True)) \<or> \<not> truthy (dict_get_or r ''edge_verified'' (JBool False))
          \<or> carrier_name (dict_get_or r ''carrier'' (JStr ''auto'')) \<noteq> carrier
          \<or> (domain \<noteq> [] \<and> lower (strip (py_str (dict_get_or r ''domain'' (JStr [])))) \<noteq> lower domain)
          \<or> edge = []
        then edge_candidates carrier domain results
        else rbind (py_float_of (or_else (dict_get_or r ''score'' (JInt (-9999))) (JInt (-9999)))) (\<lambda>score.
             rbind (py_float_of (or_else (dict_get_or r ''tested_at'' (JInt 0)) (JInt 0))) (\<lambda>tested_at.
             rbind (edge_candidates carrier domain results) (\<lambda>more. Inr ((score, tested_at, edge) # more)))))
   | _ \<Rightarrow> edge_candidates carrier domain results)"

definition best_saved_edge :: "store \<Rightarrow> string \<Rightarrow> string \<Rightarrow> string res" where
  "best_saved_edge s carrier domain = rbind (edge_candidates carrier domain (scan_results s)) (\<lambda>candidates.
     Inr (snd (snd (max_tuple candidates))))"

subsection \<open>Version 1: a record for each carrier\<close>

definition sni_setting :: "store \<Rightarrow> string \<Rightarrow> json" where
  "sni_setting s carrier = setting s (''working_pattern_sni_'' @ carrier) JNull"

definition initial_tuning :: "store \<Rightarrow> tuning \<Rightarrow> string \<Rightarrow> obj \<Rightarrow> string \<Rightarrow> tuning res" where
  "initial_tuning s current active raw_map carrier = (
     let raw = dict_get_or raw_map carrier JNull;
         value = (case raw of JObj d \<Rightarrow> from_dict d
           | _ \<Rightarrow> if carrier = active then from_dict current else carrier_preset carrier);
         value = dict_set ''carrier_mode'' (JStr carrier) value;
         remembered_sni = strip (py_str (or_else (sni_setting s carrier) (JStr [])));
         value = (if remembered_sni \<noteq> [] \<and> \<not> is_dict raw
           then dict_set ''pattern_fake_sni'' (JStr remembered_sni) value else value) in
     rbind (best_saved_edge s carrier remembered_sni) (\<lambda>saved_edge.
       let value = (if saved_edge \<noteq> [] \<and> carrier \<noteq> active \<and> \<not> is_dict raw
         then dict_set ''pattern_connect_ip'' (JStr saved_edge) value else value) in
       Inr (if carrier = ''mci'' then upgrade_mci_turbo value else value)))"

definition scoped_dict :: "store \<Rightarrow> string \<Rightarrow> obj" where
  "scoped_dict s k = dict_of (setting s k (JObj []))"

definition scoped_pins_of :: "store \<Rightarrow> string \<Rightarrow> obj" where
  "scoped_pins_of s active = (let scoped = scoped_dict s ''pattern_profile_sni_pins_by_carrier'' in
     case setting s ''pattern_profile_sni_pins'' (JObj []) of
       JObj (p # pins) \<Rightarrow> setdefault active (JObj (p # pins)) scoped | _ \<Rightarrow> scoped)"

definition scoped_globals_of :: "store \<Rightarrow> string \<Rightarrow> obj" where
  "scoped_globals_of s active = (
     let scoped = scoped_dict s ''pattern_global_sni_pin_by_carrier'';
         legacy = setting s ''pattern_global_sni_pin'' JNull;
         scoped = (if truthy legacy then setdefault active legacy scoped else scoped) in
     fold (\<lambda>carrier d. if truthy (sni_setting s carrier) then setdefault carrier (sni_setting s carrier) d else d)
       [''mci'', ''irancell''] scoped)"

definition mux_owners :: "store \<Rightarrow> string \<Rightarrow> string \<Rightarrow> string list" where
  "mux_owners s active profile_id = (let owners = filter (\<lambda>carrier.
       setting s (''working_profile_'' @ carrier) JNull = JStr profile_id) [''mci'', ''irancell''] in
     if owners = [] then [active] else owners)"

definition add_mux :: "string \<Rightarrow> json \<Rightarrow> string \<Rightarrow> obj \<Rightarrow> obj" where
  "add_mux profile_id entry carrier scoped = (let scoped = setdefault carrier (JObj []) scoped in
     case dict_get_or scoped carrier JNull of
       JObj bucket \<Rightarrow> dict_set carrier (JObj (setdefault profile_id entry bucket)) scoped
     | _ \<Rightarrow> scoped)"

definition scoped_mux_of :: "store \<Rightarrow> string \<Rightarrow> obj" where
  "scoped_mux_of s active = fold (\<lambda>(profile_id, entry) scoped.
       fold (add_mux profile_id entry) (mux_owners s active profile_id) scoped)
     (scoped_dict s ''profile_mux_compatibility'') (scoped_dict s ''profile_mux_compatibility_by_carrier'')"

definition initialize_carrier_tunings_v1 :: "store \<Rightarrow> store res" where
  "initialize_carrier_tunings_v1 s = (
     let current = from_dict (tuning_dict s); active = carrier_name (fld current ''carrier_mode'');
         raw_map = carrier_map s in
     rbind (rmap (\<lambda>carrier. rbind (initial_tuning s current active raw_map carrier) (\<lambda>t. Inr (carrier, JObj t)))
         CARRIERS) (\<lambda>tunings.
       Inr (put ''tuning'' (dict_get_or tunings active JNull)
         (put ''profile_mux_compatibility_by_carrier'' (JObj (scoped_mux_of s active))
         (put ''pattern_global_sni_pin_by_carrier'' (JObj (scoped_globals_of s active))
         (put ''pattern_profile_sni_pins_by_carrier'' (JObj (scoped_pins_of s active))
         (put ''carrier_tunings'' (JObj tunings) s)))))))"

subsection \<open>Versions 2 and 3: the tuning of MCI\<close>

definition migrate_mci_turbo_v2 :: "store \<Rightarrow> store" where
  "migrate_mci_turbo_v2 s = (
     let s1 = (case setting s ''carrier_tunings'' JNull of
           JObj raw_map \<Rightarrow> (case dict_get_or raw_map ''mci'' JNull of
             JObj raw_mci \<Rightarrow> (let mci = from_dict raw_mci in
               if is_legacy_mci_compatibility mci
               then put ''carrier_tunings'' (JObj (dict_set ''mci'' (JObj (upgrade_mci_turbo mci)) raw_map)) s else s)
           | _ \<Rightarrow> s)
         | _ \<Rightarrow> s) in
     case setting s1 ''tuning'' JNull of
       JObj raw_active \<Rightarrow> (let active = from_dict raw_active in
         if is_legacy_mci_compatibility active then put ''tuning'' (JObj (upgrade_mci_turbo active)) s1 else s1)
     | _ \<Rightarrow> s1)"

definition migrate_mci_protected_v3 :: "store \<Rightarrow> store \<times> bool" where
  "migrate_mci_protected_v3 s = (
     let stored = carrier_map s; raw_mci = dict_get_or stored ''mci'' JNull;
         protected = enforced_carrier_tuning ''mci'' (stored_tuning ''mci'' raw_mci);
         (s1, changed) = (if \<not> py_eq raw_mci (JObj protected)
           then (put ''carrier_tunings'' (JObj (dict_set ''mci'' (JObj protected) stored)) s, True) else (s, False)) in
     case setting s1 ''tuning'' JNull of
       JObj raw_active \<Rightarrow> (let active = from_dict raw_active in
         if carrier_name (fld active ''carrier_mode'') = ''mci'' then
           let protected_active = enforced_carrier_tuning ''mci'' active in
           if \<not> py_eq (JObj raw_active) (JObj protected_active)
           then (put ''tuning'' (JObj protected_active) s1, True) else (s1, changed)
         else (s1, changed))
     | _ \<Rightarrow> (s1, changed))"

definition version_of :: "store \<Rightarrow> string \<Rightarrow> int res" where
  \<comment> \<open>a malformed version counts as none; an infinity is not caught\<close>
  "version_of s k = (case py_int_of (or_else (setting s k (JInt 0)) (JInt 0)) of
     Inr n \<Rightarrow> Inr n | Inl e \<Rightarrow> if e = TypeError \<or> e = ValueError then Inr 0 else Inl e)"

definition migrate_carrier_tunings :: "store \<Rightarrow> store res" where
  "migrate_carrier_tunings s = rbind (version_of s ''carrier_tuning_version'') (\<lambda>previous_version.
     rbind (if previous_version < 1 then initialize_carrier_tunings_v1 s else Inr s) (\<lambda>s1.
       let s2 = (if previous_version < 2 then migrate_mci_turbo_v2 s1 else s1);
           (s3, repaired) = migrate_mci_protected_v3 s2;
           changed = (previous_version < 2 \<or> repaired);
           (s4, changed) = (if \<not> py_eq (setting s3 ''carrier_tuning_version'' JNull) (JInt 3)
             then (put ''carrier_tuning_version'' (JInt 3) s3, True) else (s3, changed)) in
       Inr (if changed then save_store s4 else s4)))"

definition migrate_settings :: "store \<Rightarrow> store res" where
  \<comment> \<open>the last four steps of \<open>__init__\<close>\<close>
  "migrate_settings s = rbind (migrate_speed_core (migrate_update_repository s)) (\<lambda>s.
     migrate_carrier_tunings (migrate_pattern_core s))"


section \<open>What the migrations promise\<close>

subsection \<open>The view of the carriers survives a rewritten record\<close>

definition view_ok :: "store \<Rightarrow> bool" where
  "view_ok s \<longleftrightarrow> is_dict (setting s ''tuning'' (JObj [])) \<and> records_ok (carrier_map s)
     \<and> current_tuning s = Inr (effective s (active_carrier_of s))"

lemma store_ok_view: "store_ok s \<longleftrightarrow> settings_file s = settings s \<and> view_ok s"
  by (simp add: store_ok_def view_ok_def)

lemma view_put_record:
  assumes "view_ok s" "eff_of m = effective s" "records_ok m"
  shows "view_ok (put ''carrier_tunings'' (JObj m) s)" "effective (put ''carrier_tunings'' (JObj m) s) = effective s"
    "active_carrier_of (put ''carrier_tunings'' (JObj m) s) = active_carrier_of s"
  using assms by (simp_all add: view_ok_def effective_def active_carrier_of_def current_tuning_def)

lemma view_put_active:
  assumes "view_ok s" "carrier_name (fld (from_dict t) ''carrier_mode'') = a"
    "enforced_carrier_tuning a (from_dict t) = effective s a"
  shows "view_ok (put ''tuning'' (JObj t) s)" "effective (put ''tuning'' (JObj t) s) = effective s"
    "active_carrier_of (put ''tuning'' (JObj t) s) = a"
  using assms by (simp_all add: view_ok_def effective_def active_carrier_of_def current_tuning_def is_dict_def dict_of_def)

lemma view_put_other:
  "view_ok s \<Longrightarrow> k \<noteq> ''tuning'' \<Longrightarrow> k \<noteq> ''carrier_tunings'' \<Longrightarrow> view_ok (put k v s)"
  by (simp add: view_ok_def effective_def active_carrier_of_def current_tuning_def)

lemma view_save: "view_ok (save_store s) = view_ok s"
  by (simp add: view_ok_def effective_def active_carrier_of_def current_tuning_def)

lemma view_active:
  assumes "view_ok s" "setting s ''tuning'' JNull = JObj d"
  shows "carrier_name (fld (from_dict d) ''carrier_mode'') = active_carrier_of s"
    "enforced_carrier_tuning (active_carrier_of s) (from_dict d) = effective s (active_carrier_of s)"
proof -
  have "setting s ''tuning'' (JObj []) = JObj d"
    using assms(2) by (auto simp: setting_def dict_get_or_def split: option.splits)
  with assms(1) show "carrier_name (fld (from_dict d) ''carrier_mode'') = active_carrier_of s"
    "enforced_carrier_tuning (active_carrier_of s) (from_dict d) = effective s (active_carrier_of s)"
    by (simp_all add: view_ok_def active_carrier_of_def dict_of_def current_tuning_def)
qed

lemma from_dict_field:
  assumes "dict_get d k = Some v" "k \<in> set TUNING_FIELDS"
  shows "dict_get (from_dict d) k = Some v"
proof -
  have "map_of (map (\<lambda>(k, x). (k, f k x)) ds) k = Some (f k (the (map_of ds k)))"
    if "k \<in> fst ` set ds" for ds :: obj and f :: "string \<Rightarrow> json \<Rightarrow> json"
    using that by (induction ds) auto
  from this [of TUNING_DEFAULTS "\<lambda>k x. dict_get_or d k x"] assms show ?thesis
    by (simp add: from_dict_def dict_get_def dict_get_or_def TUNING_FIELDS_def)
qed

lemma fld_from_dict: "dict_get d k = Some v \<Longrightarrow> k \<in> set TUNING_FIELDS \<Longrightarrow> fld (from_dict d) k = v"
  by (simp add: fld_def dict_get_or_def from_dict_field)

lemma preset_names:
  "lower (strip ''mci'') = ''mci''" "lower (strip ''compatibility'') = ''compatibility''"
  by code_simp+

lemma preset_compatibility: "preset ''compatibility'' = make_tuning ((''mode'', JStr ''compatibility'') # PRESET_COMPATIBILITY)"
  by (simp add: preset_def preset_names)

lemma preset_mci: "carrier_preset ''mci'' = dict_set_all MCI_PRESET (preset ''compatibility'')"
  by (simp add: carrier_preset_def preset_names)

lemma legacy_level: "fld legacy_mci ''log_level'' = JStr ''normal''" "''log_level'' \<notin> set ROUTE_FIELDS"
  "fld (carrier_preset ''mci'') ''log_level'' = JStr ''normal''"
  "fld (carrier_preset ''mci'') ''carrier_mode'' = JStr ''mci''"
  "dict_get (carrier_preset ''mci'') ''carrier_mode'' = Some (JStr ''mci'')"
  by (simp_all add: legacy_mci_def Let_def COMPATIBILITY_FIELDS_def preset_mci preset_compatibility make_tuning_def
      PRESET_COMPATIBILITY_def MCI_PRESET_def ROUTE_FIELDS_def)

lemma py_eq_JStr: "py_eq a (JStr s) \<longleftrightarrow> a = JStr s"
  by (cases a) auto

lemma legacy_fields:
  assumes "is_legacy_mci_compatibility t"
  shows "fld t ''carrier_mode'' = JStr ''mci''" "fld t ''log_level'' = JStr ''normal''"
proof -
  show "fld t ''carrier_mode'' = JStr ''mci''"
    using assms by (auto simp: is_legacy_mci_compatibility_def split: if_splits)
  have "\<forall>name\<in>set TUNING_FIELDS. name \<notin> set ROUTE_FIELDS \<longrightarrow> py_eq (fld t name) (fld legacy_mci name)"
    using assms by (auto simp: is_legacy_mci_compatibility_def list_all_iff split: if_splits)
  then have "py_eq (fld t ''log_level'') (fld legacy_mci ''log_level'')"
    using legacy_level by (meson own_fields)
  then show "fld t ''log_level'' = JStr ''normal''"
    by (simp add: legacy_level py_eq_JStr)
qed

lemma route_fields_in: "set [''pattern_connect_ip'', ''pattern_fallback_ips'', ''pattern_fake_sni'',
    ''pattern_use_profile_edges''] \<subseteq> set TUNING_FIELDS"
  by code_simp

lemma upgraded:
  assumes "is_legacy_mci_compatibility t"
  shows "wf_tuning (upgrade_mci_turbo t)" "fld (upgrade_mci_turbo t) ''carrier_mode'' = JStr ''mci''"
    "fld (upgrade_mci_turbo t) ''log_level'' = JStr ''normal''"
    "dict_get (upgrade_mci_turbo t) ''carrier_mode'' = Some (JStr ''mci'')"
proof -
  show "wf_tuning (upgrade_mci_turbo t)"
    using assms route_fields_in unfolding upgrade_mci_turbo_def Let_def
    by (simp add: wf_dict_set)
  show "fld (upgrade_mci_turbo t) ''carrier_mode'' = JStr ''mci''" "fld (upgrade_mci_turbo t) ''log_level'' = JStr ''normal''"
    "dict_get (upgrade_mci_turbo t) ''carrier_mode'' = Some (JStr ''mci'')"
    using assms by (simp_all add: upgrade_mci_turbo_def Let_def legacy_level)
qed

lemma enforced_level:
  assumes "fld (from_dict t) ''log_level'' = fld (from_dict u) ''log_level''" "carrier_of_text c = ''mci''"
  shows "enforced_carrier_tuning c t = enforced_carrier_tuning c u"
  using assms by (simp add: enforced_carrier_tuning_def enforce_named_def Let_def)

lemma enforced_upgrade:
  assumes "is_legacy_mci_compatibility (from_dict d)"
  shows "enforced_carrier_tuning ''mci'' (from_dict (upgrade_mci_turbo (from_dict d))) = enforced_carrier_tuning ''mci'' (from_dict d)"
  using assms
  by (intro enforced_level) (simp_all add: from_dict_wf upgraded legacy_fields carrier_of_text_id CARRIERS_def)


subsection \<open>Version 1 builds the view\<close>

lemma rmap_three:
  "rmap f [a, b, c] = Inr ys \<longleftrightarrow> (\<exists>x y z. f a = Inr x \<and> f b = Inr y \<and> f c = Inr z \<and> ys = [x, y, z])"
  by (auto simp: rbind_eq_Inr_iff)

lemma initial_mode:
  assumes "initial_tuning s current active raw_map carrier = Inr t"
  shows "dict_get t ''carrier_mode'' = Some (JStr carrier)"
proof -
  define raw where "raw = dict_get_or raw_map carrier JNull"
  define v0 where "v0 = (case raw of JObj d \<Rightarrow> from_dict d
    | _ \<Rightarrow> if carrier = active then from_dict current else carrier_preset carrier)"
  define sni where "sni = strip (py_str (or_else (sni_setting s carrier) (JStr [])))"
  define m0 where "m0 = dict_set ''carrier_mode'' (JStr carrier) v0"
  define v1 where "v1 = (if sni \<noteq> [] \<and> \<not> is_dict raw then dict_set ''pattern_fake_sni'' (JStr sni) m0 else m0)"
  have get1: "dict_get v1 ''carrier_mode'' = Some (JStr carrier)" by (simp add: v1_def m0_def)
  have "initial_tuning s current active raw_map carrier = rbind (best_saved_edge s carrier sni) (\<lambda>edge.
      let v2 = (if edge \<noteq> [] \<and> carrier \<noteq> active \<and> \<not> is_dict raw
        then dict_set ''pattern_connect_ip'' (JStr edge) v1 else v1) in
      Inr (if carrier = ''mci'' then upgrade_mci_turbo v2 else v2))"
    unfolding initial_tuning_def Let_def v1_def m0_def sni_def v0_def raw_def ..
  with assms obtain edge where "t = (let v2 = if edge \<noteq> [] \<and> carrier \<noteq> active \<and> \<not> is_dict raw
      then dict_set ''pattern_connect_ip'' (JStr edge) v1 else v1 in if carrier = ''mci'' then upgrade_mci_turbo v2 else v2)"
    by (auto simp: Let_def rbind_eq_Inr_iff)
  then obtain v2 where v2: "v2 = (if edge \<noteq> [] \<and> carrier \<noteq> active \<and> \<not> is_dict raw
      then dict_set ''pattern_connect_ip'' (JStr edge) v1 else v1)"
    and tv: "t = (if carrier = ''mci'' then upgrade_mci_turbo v2 else v2)"
    by (auto simp: Let_def)
  have t: "dict_get v2 ''carrier_mode'' = Some (JStr carrier)" "t = (if carrier = ''mci'' then upgrade_mci_turbo v2 else v2)"
    using get1 tv by (simp_all add: v2)
  show ?thesis
  proof (cases "carrier = ''mci'' \<and> is_legacy_mci_compatibility v2")
    case True
    with t upgraded(4) show ?thesis by simp
  next
    case False
    then have "t = v2" using t(2) by (auto simp: upgrade_mci_turbo_def)
    with t(1) show ?thesis by simp
  qed
qed

lemma v1_view:
  assumes "initialize_carrier_tunings_v1 s = Inr s1"
  shows "view_ok s1"
proof -
  define active where "active = carrier_name (fld (from_dict (tuning_dict s)) ''carrier_mode'')"
  obtain tunings where run: "rmap (\<lambda>carrier. rbind (initial_tuning s (from_dict (tuning_dict s)) active (carrier_map s)
        carrier) (\<lambda>t. Inr (carrier, JObj t))) [''auto'', ''mci'', ''irancell''] = Inr tunings"
    and set: "carrier_map s1 = tunings" "setting s1 ''tuning'' (JObj []) = dict_get_or (carrier_map s1) active JNull"
    using assms unfolding initialize_carrier_tunings_v1_def Let_def CARRIERS_def active_def [symmetric]
    by (auto simp: rbind_eq_Inr_iff simp del: rmap.simps)
  obtain ta tm ti where ts:
    "initial_tuning s (from_dict (tuning_dict s)) active (carrier_map s) ''auto'' = Inr ta"
    "initial_tuning s (from_dict (tuning_dict s)) active (carrier_map s) ''mci'' = Inr tm"
    "initial_tuning s (from_dict (tuning_dict s)) active (carrier_map s) ''irancell'' = Inr ti"
    and tun: "tunings = [(''auto'', JObj ta), (''mci'', JObj tm), (''irancell'', JObj ti)]"
    using run unfolding rmap_three by (auto simp: rbind_eq_Inr_iff)
  have "active \<in> set CARRIERS" by (simp add: active_def)
  then obtain t where t: "dict_get (carrier_map s1) active = Some (JObj t)" "dict_get t ''carrier_mode'' = Some (JStr active)"
    using set(1) tun ts [THEN initial_mode] by (auto simp: CARRIERS_def dict_get_def)
  have "setting s1 ''tuning'' (JObj []) = JObj t" using set(2) t(1) by (simp add: dict_get_or_def)
  moreover have "fld (from_dict t) ''carrier_mode'' = JStr active" using t(2) by (simp add: fld_from_dict)
  moreover have "carrier_name (JStr active) = active" by (simp add: active_def)
  moreover have "records_ok (carrier_map s1)"
    by (simp add: set(1) tun records_ok_def list_all_iff CARRIERS_def dict_get_def is_dict_def)
  ultimately show ?thesis
    using t(1) by (simp add: view_ok_def current_tuning_def active_carrier_of_def effective_def eff_of_def dict_of_def
      is_dict_def dict_get_or_def)
qed

subsection \<open>Versions 2 and 3 keep it\<close>

lemma setting_None: "setting s k JNull = JObj d \<Longrightarrow> setting s k e = JObj d"
  by (auto simp: setting_def dict_get_or_def split: option.splits)

lemma v2_active_view:
  assumes "view_ok s" "setting s ''tuning'' JNull = JObj d" "is_legacy_mci_compatibility (from_dict d)"
  shows "view_ok (put ''tuning'' (JObj (upgrade_mci_turbo (from_dict d))) s)"
proof (rule view_put_active [OF assms(1)])
  have mci: "carrier_name (JStr ''mci'') = ''mci''" by (simp add: carrier_name_id CARRIERS_def)
  have a: "active_carrier_of s = ''mci''"
    using view_active(1) [OF assms(1,2)] legacy_fields(1) [OF assms(3)] mci by simp
  show "carrier_name (fld (from_dict (upgrade_mci_turbo (from_dict d))) ''carrier_mode'') = ''mci''"
    using assms(3) mci by (simp add: from_dict_wf upgraded)
  show "enforced_carrier_tuning ''mci'' (from_dict (upgrade_mci_turbo (from_dict d))) = effective s ''mci''"
    using view_active(2) [OF assms(1,2)] a by (simp add: enforced_upgrade assms(3))
qed

lemma v2_view:
  assumes "view_ok s"
  shows "view_ok (migrate_mci_turbo_v2 s)"
proof -
  define s1 where "s1 = (case setting s ''carrier_tunings'' JNull of
           JObj raw_map \<Rightarrow> (case dict_get_or raw_map ''mci'' JNull of
             JObj raw_mci \<Rightarrow> (let mci = from_dict raw_mci in
               if is_legacy_mci_compatibility mci
               then put ''carrier_tunings'' (JObj (dict_set ''mci'' (JObj (upgrade_mci_turbo mci)) raw_map)) s else s)
           | _ \<Rightarrow> s)
         | _ \<Rightarrow> s)"
  have "s1 = s \<or> (\<exists>raw_map raw_mci. setting s ''carrier_tunings'' JNull = JObj raw_map
      \<and> dict_get_or raw_map ''mci'' JNull = JObj raw_mci \<and> is_legacy_mci_compatibility (from_dict raw_mci)
      \<and> s1 = put ''carrier_tunings'' (JObj (dict_set ''mci'' (JObj (upgrade_mci_turbo (from_dict raw_mci))) raw_map)) s)"
    unfolding s1_def Let_def by (cases "setting s ''carrier_tunings'' JNull"; simp split: json.split)
  then have view1: "view_ok s1"
  proof (elim disjE exE conjE)
    fix raw_map raw_mci
    assume raw: "setting s ''carrier_tunings'' JNull = JObj raw_map" "dict_get_or raw_map ''mci'' JNull = JObj raw_mci"
      "is_legacy_mci_compatibility (from_dict raw_mci)"
    let ?m = "dict_set ''mci'' (JObj (upgrade_mci_turbo (from_dict raw_mci))) raw_map"
    assume s1: "s1 = put ''carrier_tunings'' (JObj ?m) s"
    have m: "carrier_map s = raw_map" using setting_None [OF raw(1)] by (simp add: carrier_map_def dict_of_def)
    have "eff_of ?m c = eff_of raw_map c" for c
      using raw(2) enforced_upgrade [OF raw(3)] by (simp add: eff_of_def)
    then have "eff_of ?m = effective s" by (simp add: effective_def m fun_eq_iff)
    moreover have "records_ok ?m" using assms m by (simp add: view_ok_def records_ok_set)
    ultimately show ?thesis unfolding s1 using assms by (intro view_put_record)
  qed (simp add: assms)
  have "migrate_mci_turbo_v2 s = (case setting s1 ''tuning'' JNull of
       JObj raw_active \<Rightarrow> (let active = from_dict raw_active in
         if is_legacy_mci_compatibility active then put ''tuning'' (JObj (upgrade_mci_turbo active)) s1 else s1)
     | _ \<Rightarrow> s1)"
    unfolding migrate_mci_turbo_v2_def Let_def s1_def ..
  then show ?thesis using view1 v2_active_view [OF view1]
    by (cases "setting s1 ''tuning'' JNull") (auto simp: Let_def)
qed

definition mci_record :: "store \<Rightarrow> store \<times> bool" where
  \<comment> \<open>the first half of version 3\<close>
  "mci_record s = (let stored = carrier_map s; raw_mci = dict_get_or stored ''mci'' JNull;
         protected = enforced_carrier_tuning ''mci'' (stored_tuning ''mci'' raw_mci) in
     if \<not> py_eq raw_mci (JObj protected)
     then (put ''carrier_tunings'' (JObj (dict_set ''mci'' (JObj protected) stored)) s, True) else (s, False))"

definition mci_active :: "store \<times> bool \<Rightarrow> store \<times> bool" where
  \<comment> \<open>and the second\<close>
  "mci_active = (\<lambda>(s1, changed). case setting s1 ''tuning'' JNull of
       JObj raw_active \<Rightarrow> (let active = from_dict raw_active in
         if carrier_name (fld active ''carrier_mode'') = ''mci'' then
           let protected_active = enforced_carrier_tuning ''mci'' active in
           if \<not> py_eq (JObj raw_active) (JObj protected_active)
           then (put ''tuning'' (JObj protected_active) s1, True) else (s1, changed)
         else (s1, changed))
     | _ \<Rightarrow> (s1, changed))"

lemma v3_halves: "migrate_mci_protected_v3 s = mci_active (mci_record s)"
  unfolding migrate_mci_protected_v3_def mci_active_def mci_record_def Let_def by (simp split: prod.split)

lemma mci_text [simp]: "carrier_of_text ''mci'' = ''mci''"
  by (simp add: carrier_of_text_id CARRIERS_def)

lemma mci_record_view:
  assumes "view_ok s"
  shows "view_ok (fst (mci_record s))"
proof -
  let ?m = "dict_set ''mci'' (JObj (eff_of (carrier_map s) ''mci'')) (carrier_map s)"
  have "view_ok (put ''carrier_tunings'' (JObj ?m) s)"
    using assms by (intro view_put_record) (simp_all add: effective_def eff_of_set_self view_ok_def records_ok_set)
  with assms show ?thesis by (simp add: mci_record_def Let_def eff_of_def)
qed

lemma mci_active_view:
  assumes "view_ok s"
  shows "view_ok (fst (mci_active (s, b)))"
proof (cases "setting s ''tuning'' JNull")
  case (JObj d)
  show ?thesis
  proof (cases "carrier_name (fld (from_dict d) ''carrier_mode'') = ''mci''
      \<and> \<not> py_eq (JObj d) (JObj (enforced_carrier_tuning ''mci'' (from_dict d)))")
    case True
    let ?e = "enforced_carrier_tuning ''mci'' (from_dict d)"
    have e: "from_dict ?e = ?e" "carrier_name (fld ?e ''carrier_mode'') = ''mci''" "enforced_carrier_tuning ''mci'' ?e = ?e"
      by (simp_all add: from_dict_wf name_of_enforced enforced_idem)
    have "active_carrier_of s = ''mci''" using True view_active(1) [OF assms JObj] by simp
    then have eff: "?e = effective s ''mci''" using view_active(2) [OF assms JObj] by simp
    have "view_ok (put ''tuning'' (JObj ?e) s)"
      by (rule view_put_active [OF assms, where a = "''mci''"]) (simp only: e, simp only: e eff [symmetric])
    with True JObj show ?thesis by (simp add: mci_active_def del: py_eq.simps)
  next
    case False
    then show ?thesis using assms JObj by (auto simp: mci_active_def Let_def simp del: py_eq.simps)
  qed
qed (use assms in \<open>simp_all add: mci_active_def\<close>)

lemma v3_view: "view_ok s \<Longrightarrow> view_ok (fst (migrate_mci_protected_v3 s))"
  using mci_active_view [OF mci_record_view, of s "snd (mci_record s)"] by (simp add: v3_halves)


lemma first_migration_ok:
  assumes "version_of s ''carrier_tuning_version'' = Inr n" "n < 1" "migrate_carrier_tunings s = Inr s'"
  shows "store_ok s'"
proof -
  obtain s1 where s1: "initialize_carrier_tunings_v1 s = Inr s1"
    using assms by (auto simp: migrate_carrier_tunings_def rbind_eq_Inr_iff Let_def)
  obtain s3 b where s3: "migrate_mci_protected_v3 (migrate_mci_turbo_v2 s1) = (s3, b)" by force
  have "view_ok s3" using v3_view [OF v2_view [OF v1_view [OF s1]]] by (simp add: s3)
  then have "view_ok (put ''carrier_tuning_version'' (JInt 3) s3)" by (simp add: view_put_other)
  moreover have "s' = save_store (if \<not> py_eq (setting s3 ''carrier_tuning_version'' JNull) (JInt 3)
      then put ''carrier_tuning_version'' (JInt 3) s3 else s3)"
    using assms s1 s3 by (auto simp: migrate_carrier_tunings_def Let_def split: if_splits simp del: py_eq.simps)
  ultimately show ?thesis using \<open>view_ok s3\<close> by (simp add: store_ok_view view_save)
qed

subsection \<open>A second start changes nothing\<close>

lemma mci_record_done: "mci_record (fst (mci_record s)) = (fst (mci_record s), False)"
proof -
  define raw where "raw = dict_get_or (carrier_map s) ''mci'' JNull"
  define p where "p = enforced_carrier_tuning ''mci'' (stored_tuning ''mci'' raw)"
  obtain l where "p = protected_with l" using enforced_mci [of "''mci''"] by (metis mci_text p_def)
  then have refl: "py_eq (JObj p) (JObj p)" by (metis protected_refl)
  have idem: "enforced_carrier_tuning ''mci'' (stored_tuning ''mci'' (JObj p)) = p"
    by (simp add: p_def from_dict_wf enforced_idem)
  show ?thesis
  proof (cases "py_eq raw (JObj p)")
    case True
    then have "mci_record s = (s, False)" by (simp add: mci_record_def Let_def flip: raw_def p_def)
    then show ?thesis by simp
  next
    case False
    then have "mci_record s = (put ''carrier_tunings'' (JObj (dict_set ''mci'' (JObj p) (carrier_map s))) s, True)"
      by (simp add: mci_record_def Let_def flip: raw_def p_def)
    then show ?thesis using refl idem by (simp add: mci_record_def Let_def del: py_eq.simps stored_tuning_JObj)
  qed
qed

lemma mci_record_tuning: "carrier_map s = carrier_map s' \<Longrightarrow> mci_record s = (s, False) \<Longrightarrow> mci_record s' = (s', False)"
  by (auto simp: mci_record_def Let_def split: if_splits)

lemma mci_active_map: "carrier_map (fst (mci_active p)) = carrier_map (fst p)"
  by (cases p) (auto simp: mci_active_def Let_def simp del: py_eq.simps split: json.split)

lemma mci_active_done: "mci_active (fst (mci_active (s, b)), False) = (fst (mci_active (s, b)), False)"
proof (cases "setting s ''tuning'' JNull")
  case (JObj d)
  let ?e = "enforced_carrier_tuning ''mci'' (from_dict d)"
  obtain l where "?e = protected_with l" using enforced_mci [of "''mci''"] by (metis mci_text)
  then have refl: "py_eq (JObj ?e) (JObj ?e)" by (metis protected_refl)
  have e: "from_dict ?e = ?e" "enforced_carrier_tuning ''mci'' ?e = ?e" by (simp_all add: from_dict_wf enforced_idem)
  from JObj refl e show ?thesis by (auto simp: mci_active_def Let_def simp del: py_eq.simps)
qed (simp_all add: mci_active_def)

lemma v3_done:
  assumes "migrate_mci_protected_v3 s = (s', b)"
  shows "migrate_mci_protected_v3 s' = (s', False)"
proof -
  have s': "s' = fst (mci_active (fst (mci_record s), snd (mci_record s)))"
    using assms by (simp add: v3_halves)
  have "mci_record s' = (s', False)"
    by (rule mci_record_tuning [OF _ mci_record_done [of s]]) (simp add: s' mci_active_map)
  then show ?thesis
    using mci_active_done [of "fst (mci_record s)" "snd (mci_record s)"] by (simp add: v3_halves s')
qed

lemma v3_same:
  "migrate_mci_protected_v3 s = (s, False) \<longleftrightarrow> mci_record s = (s, False) \<and> mci_active (s, False) = (s, False)"
proof
  assume v3: "migrate_mci_protected_v3 s = (s, False)"
  have "snd (mci_active (x, True))" for x
    by (auto simp: mci_active_def Let_def simp del: py_eq.simps split: json.split)
  with v3 have "mci_record s = (s, False)"
    by (auto simp: v3_halves mci_record_def Let_def split: if_splits) (metis snd_conv)
  with v3 show "mci_record s = (s, False) \<and> mci_active (s, False) = (s, False)" by (simp add: v3_halves)
qed (simp add: v3_halves)

lemma v3_same_setting:
  assumes "migrate_mci_protected_v3 s = (s, False)" "carrier_map s' = carrier_map s"
    "setting s' ''tuning'' JNull = setting s ''tuning'' JNull"
  shows "migrate_mci_protected_v3 s' = (s', False)"
proof -
  have "mci_record s' = (s', False)" using assms mci_record_tuning [of s s'] by (simp add: v3_same)
  moreover have "mci_active (s', False) = (s', False)"
    using assms by (auto simp: v3_same mci_active_def Let_def simp del: py_eq.simps split: json.splits if_splits)
  ultimately show ?thesis by (simp add: v3_same)
qed


definition same_but :: "string set \<Rightarrow> store \<Rightarrow> store \<Rightarrow> bool" where
  \<comment> \<open>only the settings of the set differ\<close>
  "same_but ks s s' \<longleftrightarrow> (\<forall>k. k \<notin> ks \<longrightarrow> dict_get (settings s') k = dict_get (settings s) k)"

lemma same_but_refl [simp]: "same_but ks s s"
  by (simp add: same_but_def)

lemma same_but_put: "same_but ks s s' \<Longrightarrow> k \<in> ks \<Longrightarrow> same_but ks s (put k v s')"
  by (auto simp: same_but_def put_def)

lemma same_but_save [simp]: "same_but ks s (save_store s') = same_but ks s s'"
  by (simp add: same_but_def)

lemma same_but_trans: "same_but ks s s' \<Longrightarrow> same_but ls s' s'' \<Longrightarrow> same_but (ks \<union> ls) s s''"
  by (simp add: same_but_def)

lemma same_but_setting: "same_but ks s s' \<Longrightarrow> k \<notin> ks \<Longrightarrow> setting s' k d = setting s k d"
  by (simp add: same_but_def setting_def dict_get_or_def)

lemma pattern_same: "same_but {''tuning'', ''pattern_core_version''} s (migrate_pattern_core s)"
  by (simp add: migrate_pattern_core_def Let_def same_but_put del: py_eq.simps)

lemma pattern_done: "py_eq (setting (migrate_pattern_core s) ''pattern_core_version'' JNull) (JInt 1)"
proof (cases "py_eq (setting s ''pattern_core_version'' JNull) (JInt 1)")
  case False
  then have "setting (migrate_pattern_core s) ''pattern_core_version'' JNull = JInt 1"
    by (simp add: migrate_pattern_core_def Let_def del: py_eq.simps)
  then show ?thesis by simp
qed (simp add: migrate_pattern_core_def)

lemma speed_same:
  assumes "migrate_speed_core s = Inr s'"
  shows "same_but {''tuning'', ''speed_core_version'', ''update_repo_url''} s s'"
    "dict_get (settings s) ''update_repo_url'' \<noteq> None \<Longrightarrow> setting s' ''update_repo_url'' d = setting s ''update_repo_url'' d"
    "\<exists>n. py_int_of (or_else (setting s' ''speed_core_version'' (JInt 0)) (JInt 0)) = Inr n \<and> n \<ge> 3"
proof -
  obtain n where n: "py_int_of (or_else (setting s ''speed_core_version'' (JInt 0)) (JInt 0)) = Inr n"
    using assms by (auto simp: migrate_speed_core_def rbind_eq_Inr_iff)
  have "(n \<ge> 3 \<and> s' = s) \<or> (\<exists>t. s' = save_store ((put ''speed_core_version'' (JInt 3) (put ''tuning'' (JObj t) s))
      \<lparr>settings := setdefault ''update_repo_url'' (JStr UPDATE_REPOSITORY_URL)
        (settings (put ''speed_core_version'' (JInt 3) (put ''tuning'' (JObj t) s)))\<rparr>))"
  proof (cases "n \<ge> 3")
    case True
    then show ?thesis using assms n by (simp add: migrate_speed_core_def)
  next
    case False
    then show ?thesis using assms n
      unfolding migrate_speed_core_def Let_def by (auto simp: rbind_eq_Inr_iff)
  qed
  then consider "n \<ge> 3" "s' = s" | t where "s' = save_store ((put ''speed_core_version'' (JInt 3) (put ''tuning'' (JObj t) s))
      \<lparr>settings := setdefault ''update_repo_url'' (JStr UPDATE_REPOSITORY_URL)
        (settings (put ''speed_core_version'' (JInt 3) (put ''tuning'' (JObj t) s)))\<rparr>)"
    by blast
  note s'_cases = this
  from s'_cases show "same_but {''tuning'', ''speed_core_version'', ''update_repo_url''} s s'"
    by cases (auto simp: same_but_def put_def setdefault_def)
  from s'_cases show "\<exists>n. py_int_of (or_else (setting s' ''speed_core_version'' (JInt 0)) (JInt 0)) = Inr n \<and> n \<ge> 3"
  proof cases
    case 1
    then show ?thesis using n by simp
  next
    case 2
    then have "setting s' ''speed_core_version'' (JInt 0) = JInt 3"
      by (simp add: setting_def put_def setdefault_def dict_get_or_def)
    then show ?thesis by (simp add: or_else_def)
  qed
  assume "dict_get (settings s) ''update_repo_url'' \<noteq> None"
  with s'_cases show "setting s' ''update_repo_url'' d = setting s ''update_repo_url'' d"
    by cases (auto simp: setting_def put_def setdefault_def dict_get_or_def)
qed

lemma v1_same:
  "initialize_carrier_tunings_v1 s = Inr s' \<Longrightarrow> same_but {''tuning'', ''carrier_tunings'',
    ''pattern_profile_sni_pins_by_carrier'', ''pattern_global_sni_pin_by_carrier'',
    ''profile_mux_compatibility_by_carrier''} s s'"
  by (auto simp: initialize_carrier_tunings_v1_def Let_def rbind_eq_Inr_iff same_but_put simp del: rmap.simps)

lemma v2_same: "same_but {''tuning'', ''carrier_tunings''} s (migrate_mci_turbo_v2 s)"
  by (simp add: migrate_mci_turbo_v2_def Let_def same_but_put split: json.split)

lemma v3_same_but: "same_but {''tuning'', ''carrier_tunings''} s (fst (migrate_mci_protected_v3 s))"
  by (auto simp: v3_halves mci_active_def mci_record_def Let_def same_but_put simp del: py_eq.simps split: json.split)

definition CARRIER_KEYS :: "string set" where
  "CARRIER_KEYS = {''tuning'', ''carrier_tunings'', ''pattern_profile_sni_pins_by_carrier'',
    ''pattern_global_sni_pin_by_carrier'', ''profile_mux_compatibility_by_carrier'', ''carrier_tuning_version''}"

lemma same_but_mono: "same_but ks s s' \<Longrightarrow> ks \<subseteq> ls \<Longrightarrow> same_but ls s s'"
  by (auto simp: same_but_def)


lemma carrier_keys_sub:
  "{''tuning'', ''carrier_tunings''} \<subseteq> CARRIER_KEYS"
  "{''tuning'', ''carrier_tunings'', ''pattern_profile_sni_pins_by_carrier'', ''pattern_global_sni_pin_by_carrier'',
    ''profile_mux_compatibility_by_carrier''} \<subseteq> CARRIER_KEYS"
  "''carrier_tuning_version'' \<in> CARRIER_KEYS"
  by (simp_all only: CARRIER_KEYS_def insert_subset empty_subsetI insert_iff simp_thms)

lemmas carrier_same =
  v2_same [THEN same_but_mono, OF carrier_keys_sub(1)]
  v3_same_but [THEN same_but_mono, OF carrier_keys_sub(1)]

lemma carriers_steps:
  assumes "migrate_carrier_tunings s = Inr s'"
  obtains s1 s2 s3 b where "same_but CARRIER_KEYS s s2" "migrate_mci_protected_v3 s2 = (s3, b)"
    "settings s' = settings (if \<not> py_eq (setting s3 ''carrier_tuning_version'' JNull) (JInt 3)
       then put ''carrier_tuning_version'' (JInt 3) s3 else s3)"
proof -
  obtain n s1 where s1: "(if n < 1 then initialize_carrier_tunings_v1 s else Inr s) = Inr s1"
    and n: "version_of s ''carrier_tuning_version'' = Inr n"
    using assms by (auto simp: migrate_carrier_tunings_def rbind_eq_Inr_iff)
  define s2 where "s2 = (if n < 2 then migrate_mci_turbo_v2 s1 else s1)"
  obtain s3 b where s3: "migrate_mci_protected_v3 s2 = (s3, b)" by force
  have "same_but CARRIER_KEYS s s1"
    using s1 same_but_mono [OF v1_same carrier_keys_sub(2)] by (cases "n < 1") simp_all
  moreover have "same_but CARRIER_KEYS s1 s2"
    by (simp add: s2_def carrier_same)
  ultimately have "same_but CARRIER_KEYS s s2" using same_but_trans by force
  moreover have "settings s' = settings (if \<not> py_eq (setting s3 ''carrier_tuning_version'' JNull) (JInt 3)
       then put ''carrier_tuning_version'' (JInt 3) s3 else s3)"
    using assms n s1 s3
    by (auto simp: migrate_carrier_tunings_def Let_def s2_def split: if_splits simp del: py_eq.simps)
  ultimately show ?thesis using s3 that by blast
qed

lemma version_three: "py_eq j (JInt 3) \<Longrightarrow> py_int_of (or_else j (JInt 0)) = Inr 3"
  by (cases j) (auto simp: or_else_def truthy_def py_int_of_def trunc_rat_def split: if_splits)

lemma carriers_done:
  assumes "migrate_carrier_tunings s = Inr s'"
  shows "same_but CARRIER_KEYS s s'" "migrate_carrier_tunings s' = Inr s'"
proof -
  obtain s2 s3 b where s: "same_but CARRIER_KEYS s s2" "migrate_mci_protected_v3 s2 = (s3, b)"
    "settings s' = settings (if \<not> py_eq (setting s3 ''carrier_tuning_version'' JNull) (JInt 3)
       then put ''carrier_tuning_version'' (JInt 3) s3 else s3)"
    using assms by (rule carriers_steps)
  have "same_but CARRIER_KEYS s2 s3"
    using carrier_same(2) [of s2] s(2) by simp
  with s(1) have "same_but CARRIER_KEYS s s3" using same_but_trans by force
  then show "same_but CARRIER_KEYS s s'"
    using s(3) carrier_keys_sub(3) by (auto simp: same_but_def put_def simp del: py_eq.simps split: if_splits)
  have get: "setting s' k d = (if k = ''carrier_tuning_version'' \<and> \<not> py_eq (setting s3 ''carrier_tuning_version'' JNull) (JInt 3)
       then JInt 3 else setting s3 k d)" for k d
    using s(3) by (auto simp: setting_def put_def split: if_splits)
  then have vers: "py_eq (setting s' ''carrier_tuning_version'' JNull) (JInt 3)"
    by (simp del: py_eq.simps) simp
  then have "setting s' ''carrier_tuning_version'' (JInt 0) = setting s' ''carrier_tuning_version'' JNull"
    by (auto simp: setting_def dict_get_or_def split: option.splits)
  with vers have n: "version_of s' ''carrier_tuning_version'' = Inr 3"
    by (simp add: version_of_def version_three del: py_eq.simps)
  have "migrate_mci_protected_v3 s' = (s', False)"
    by (rule v3_same_setting [OF v3_done [OF s(2)]]) (simp_all add: carrier_map_def get)
  then show "migrate_carrier_tunings s' = Inr s'"
    using n vers by (simp add: migrate_carrier_tunings_def Let_def del: py_eq.simps)
qed

definition repository_settled :: "store \<Rightarrow> bool" where
  "repository_settled s \<longleftrightarrow> (let normalized = normalized_repository_url (strip (py_str
       (or_else (setting s ''update_repo_url'' (JStr [])) (JStr [])))) in
     normalized \<noteq> [] \<and> normalized \<notin> set LEGACY_UPDATE_REPOSITORIES)
   \<and> py_eq (setting s ''update_repository_version'' JNull) (JInt 1)"

lemma settled_done: "repository_settled s \<Longrightarrow> migrate_update_repository s = s"
  by (simp add: migrate_update_repository_def repository_settled_def Let_def del: py_eq.simps)

lemma normal_Nil [simp]: "normalized_repository_url [] = []"
  by code_simp

lemma settled_url: "repository_settled s \<Longrightarrow> dict_get (settings s) ''update_repo_url'' \<noteq> None"
  by (rule notI) (simp add: repository_settled_def setting_def dict_get_or_def or_else_def)

lemma fold_drop_setting: "setting (fold drop_key ks s) k d = (if k \<in> set ks then d else setting s k d)"
  by (induction ks arbitrary: s) (auto simp: drop_key_def setting_def)

lemma own_repository_keys:
  "''update_repo_url'' \<notin> set UPDATE_CACHE_KEYS" "''update_repository_version'' \<notin> set UPDATE_CACHE_KEYS"
  by (simp_all add: UPDATE_CACHE_KEYS_def)

lemma own_repository:
  "strip UPDATE_REPOSITORY_URL = UPDATE_REPOSITORY_URL"
  "lower UPDATE_REPOSITORY_URL = ''https://github.com/floxu1/uac-sni-spoofer-windows''"
  by code_simp+


lemma own_repository_settled:
  "normalized_repository_url (strip UPDATE_REPOSITORY_URL) = ''https://github.com/floxu1/uac-sni-spoofer-windows''"
  "''https://github.com/floxu1/uac-sni-spoofer-windows'' \<notin> set LEGACY_UPDATE_REPOSITORIES"
proof -
  have "strip (lower UPDATE_REPOSITORY_URL) = lower UPDATE_REPOSITORY_URL"
    by (metis own_repository(1) strip_lower_strip)
  then show "normalized_repository_url (strip UPDATE_REPOSITORY_URL) = ''https://github.com/floxu1/uac-sni-spoofer-windows''"
    unfolding normalized_repository_url_def Let_def own_repository by code_simp
  show "''https://github.com/floxu1/uac-sni-spoofer-windows'' \<notin> set LEGACY_UPDATE_REPOSITORIES"
    by (simp add: LEGACY_UPDATE_REPOSITORIES_def)
qed

definition current_repository :: "store \<Rightarrow> string" where
  "current_repository s = strip (py_str (or_else (setting s ''update_repo_url'' (JStr [])) (JStr [])))"

definition legacy_repository :: "string \<Rightarrow> bool" where
  "legacy_repository url = (normalized_repository_url url = []
     \<or> normalized_repository_url url \<in> set LEGACY_UPDATE_REPOSITORIES)"

lemma repository_settled_iff:
  "repository_settled s \<longleftrightarrow> \<not> legacy_repository (current_repository s)
     \<and> py_eq (setting s ''update_repository_version'' JNull) (JInt 1)"
  by (simp add: repository_settled_def legacy_repository_def current_repository_def Let_def del: py_eq.simps)

lemma own_not_legacy: "\<not> legacy_repository UPDATE_REPOSITORY_URL"
  using own_repository_settled by (simp add: legacy_repository_def own_repository)

lemma current_put: "current_repository (put ''update_repo_url'' (JStr UPDATE_REPOSITORY_URL) s) = UPDATE_REPOSITORY_URL"
proof -
  have "UPDATE_REPOSITORY_URL \<noteq> []" by (simp add: UPDATE_REPOSITORY_URL_def)
  then show ?thesis by (simp add: current_repository_def or_else_def own_repository)
qed

lemma update_settles: "repository_settled (migrate_update_repository s)"
proof -
  define legacy where "legacy = legacy_repository (current_repository s)"
  define s1 where "s1 = (if legacy \<and> current_repository s \<noteq> UPDATE_REPOSITORY_URL
    then put ''update_repo_url'' (JStr UPDATE_REPOSITORY_URL) s else s)"
  define s2 where "s2 = (if legacy then fold drop_key UPDATE_CACHE_KEYS s1 else s1)"
  define s3 where "s3 = (if \<not> py_eq (setting s2 ''update_repository_version'' JNull) (JInt 1)
    then put ''update_repository_version'' (JInt 1) s2 else s2)"
  have "settings (migrate_update_repository s) = settings s3"
    by (auto simp: migrate_update_repository_def Let_def s3_def s2_def s1_def legacy_def legacy_repository_def
      current_repository_def simp del: py_eq.simps split: if_splits)
  then have same: "setting (migrate_update_repository s) = setting s3"
    by (simp add: setting_def fun_eq_iff)
  have "\<not> legacy_repository (current_repository s1)"
    using own_not_legacy by (auto simp: s1_def legacy_def current_put)
  then have "\<not> legacy_repository (current_repository s3)"
    using own_repository_keys by (auto simp: s3_def s2_def current_repository_def fold_drop_setting simp del: py_eq.simps)
  moreover have "py_eq (setting s3 ''update_repository_version'' JNull) (JInt 1)"
    by (simp add: s3_def del: py_eq.simps) simp
  ultimately show ?thesis by (simp add: repository_settled_iff current_repository_def same del: py_eq.simps)
qed

lemma settled_same:
  assumes "repository_settled s" "setting s' ''update_repo_url'' (JStr []) = setting s ''update_repo_url'' (JStr [])"
    "setting s' ''update_repository_version'' JNull = setting s ''update_repository_version'' JNull"
  shows "repository_settled s'"
  using assms by (simp add: repository_settled_iff current_repository_def)

lemma migrate_settings_steps:
  assumes "migrate_settings s = Inr s'"
  obtains s1 s2 where "repository_settled s1" "migrate_speed_core s1 = Inr s2"
    "migrate_carrier_tunings (migrate_pattern_core s2) = Inr s'"
  using assms update_settles [of s] by (auto simp: migrate_settings_def rbind_eq_Inr_iff)

lemma migrations_settle:
  assumes "migrate_settings s = Inr s'"
  shows "migrate_settings s' = Inr s'"
proof -
  obtain s1 s2 where s: "repository_settled s1" "migrate_speed_core s1 = Inr s2"
    "migrate_carrier_tunings (migrate_pattern_core s2) = Inr s'"
    using assms by (rule migrate_settings_steps)
  define s3 where "s3 = migrate_pattern_core s2"
  have late: "setting s' k d = setting s3 k d" if "k \<notin> CARRIER_KEYS" for k d
    using carriers_done(1) [OF s(3)] that by (simp add: same_but_setting s3_def)
  have late3: "setting s3 k d = setting s2 k d" if "k \<noteq> ''tuning''" "k \<noteq> ''pattern_core_version''" for k d
    using pattern_same [of s2] that by (simp add: same_but_setting s3_def)
  have keys: "''update_repo_url'' \<notin> CARRIER_KEYS" "''update_repository_version'' \<notin> CARRIER_KEYS"
    "''speed_core_version'' \<notin> CARRIER_KEYS" "''pattern_core_version'' \<notin> CARRIER_KEYS"
    by (simp_all add: CARRIER_KEYS_def)
  have "setting s2 ''update_repo_url'' (JStr []) = setting s1 ''update_repo_url'' (JStr [])"
    using speed_same(2) [OF s(2) settled_url [OF s(1)]] .
  moreover have "setting s2 ''update_repository_version'' JNull = setting s1 ''update_repository_version'' JNull"
    using speed_same(1) [OF s(2)] by (simp add: same_but_setting)
  ultimately have settled: "repository_settled s'"
    by (intro settled_same [OF s(1)]) (simp_all add: late late3 keys)
  obtain n where "py_int_of (or_else (setting s' ''speed_core_version'' (JInt 0)) (JInt 0)) = Inr n" "n \<ge> 3"
    using speed_same(3) [OF s(2)] by (auto simp: late late3 keys)
  then have speed: "migrate_speed_core s' = Inr s'" by (simp add: migrate_speed_core_def)
  have "py_eq (setting s' ''pattern_core_version'' JNull) (JInt 1)"
    using pattern_done [of s2] by (simp add: late keys s3_def del: py_eq.simps)
  then have pattern: "migrate_pattern_core s' = s'" by (simp add: migrate_pattern_core_def)
  show ?thesis
    using settled_done [OF settled] speed pattern carriers_done(2) [OF s(3)] by (simp add: migrate_settings_def)
qed


section \<open>Properties\<close>

definition fresh_store :: store where
  "fresh_store = \<lparr>settings = [], settings_file = [], scan_results = []\<rparr>"

text \<open>
  C10: The store of tunings is a map from carriers to tunings, whatever sequence of operations runs:
  a saved tuning is the enforced one and changes its own carrier alone, switching the carrier in use
  changes no tuning at all, what is handed out is the tuning of the asked carrier, no operation fails,
  and memory and disk agree.
\<close>

theorem carriers_stay_isolated:
  assumes "store_ok s"
  shows "\<exists>rs s'. run_store xs s = Inr (rs, s') \<and> store_ok s' \<and> (rs, abs_store s') = spec_run xs (abs_store s)"
  using assms by (rule run_store_refines)

lemma auto_default: "enforced_carrier_tuning ''auto'' (from_dict []) = eff_of [] ''auto''"
  by code_simp

lemma fresh_store_ok: "store_ok fresh_store"
proof -
  have "carrier_name (fld (from_dict []) ''carrier_mode'') = ''auto''" by code_simp
  then show ?thesis
    using auto_default
    by (simp add: store_ok_def fresh_store_def setting_def dict_get_or_def carrier_map_def is_dict_def records_ok_def
      current_tuning_def active_carrier_of_def dict_of_def effective_def CARRIERS_def)
qed

lemma carriers_stay_isolated_witness:
  "\<exists>rs s'. run_store [Activate (JStr ''mci''), Set_Tuning (preset ''fast''), Tuning_For (JStr ''irancell'')] fresh_store
      = Inr (rs, s') \<and> store_ok s'
    \<and> (rs, abs_store s') = spec_run [Activate (JStr ''mci''), Set_Tuning (preset ''fast''),
        Tuning_For (JStr ''irancell'')] (abs_store fresh_store)"
  by (rule carriers_stay_isolated [OF fresh_store_ok])

text \<open>
  C25: Whatever the settings hold, a tuning the store hands out for MCI is the protected one: its edges
  and its fake name are the fixed ones, and only the level of the log may vary.
\<close>

theorem mci_tuning_is_protected:
  assumes "current_tuning s = Inr t \<or> store_step x s = Inr (Some t, s')" "fld t ''carrier_mode'' = JStr ''mci''"
  shows "t \<in> {protected_with ''minimal'', protected_with ''normal''}
    \<and> fld t ''pattern_connect_ip'' = JStr ''104.18.1.1'' \<and> fld t ''pattern_fallback_ips'' = JStr ''172.66.0.1''
    \<and> fld t ''pattern_fake_sni'' = JStr ''www.speedtest.net'' \<and> fld t ''pattern_gene_edges'' = JStr []"
proof -
  have "\<exists>c u. t = enforced_carrier_tuning c u"
    using assms(1)
    by (cases x) (auto simp: current_tuning_def tuning_for_carrier_def activate_carrier_def set_carrier_tunings_def Let_def
      rbind_eq_Inr_iff split: if_splits prod.splits simp del: py_eq.simps)
  then obtain c u where t: "t = enforced_carrier_tuning c u" by blast
  then have c: "carrier_of_text c = ''mci''" using assms(2) by (simp add: enforced_mode)
  then obtain l where l: "l \<in> {''minimal'', ''normal''}" "t = protected_with l" using enforced_mci t by metis
  have "fld t ''pattern_connect_ip'' = JStr ''104.18.1.1''" "fld t ''pattern_fallback_ips'' = JStr ''172.66.0.1''"
    "fld t ''pattern_fake_sni'' = JStr ''www.speedtest.net''"
    by (simp_all add: l(2) protected_with_def preset_mci MCI_PRESET_def MCI_PROTECTED_PRIMARY_EDGE_def
      MCI_PROTECTED_FALLBACK_EDGES_def MCI_PROTECTED_FAKE_SNI_def)
  moreover have "fld t ''pattern_gene_edges'' = JStr []"
    using enforced_fields(1) [of c u] by (simp add: fld_def dict_get_or_def t)
  ultimately show ?thesis using l by blast
qed

lemma mci_tuning_is_protected_witness:
  "fld (eff_of [] ''mci'') ''pattern_connect_ip'' = JStr ''104.18.1.1''"
proof -
  obtain s' where "tuning_for_carrier (JStr ''mci'') fresh_store = Inr (effective fresh_store ''mci'', s')"
    by (rule tuning_for_refines [OF fresh_store_ok, of "JStr ''mci''"]) (simp add: carrier_name_id CARRIERS_def)
  moreover have "effective fresh_store ''mci'' = eff_of [] ''mci''"
    by (simp add: effective_def fresh_store_def carrier_map_def setting_def dict_get_or_def dict_of_def)
  ultimately have "store_step (Tuning_For (JStr ''mci'')) fresh_store = Inr (Some (eff_of [] ''mci''), s')" by simp
  moreover have "fld (eff_of [] ''mci'') ''carrier_mode'' = JStr ''mci''" by (simp add: eff_of_def enforced_mode)
  ultimately show ?thesis using mci_tuning_is_protected [of fresh_store "eff_of [] ''mci''"] by blast
qed

text \<open>
  The migrations settle: settings that were migrated at a start are left as they are by the next
  start, which writes nothing.
\<close>

theorem migrated_settings_are_stable:
  "case migrate_settings s of Inl _ \<Rightarrow> True | Inr s' \<Rightarrow> migrate_settings s' = Inr s'"
  by (simp add: migrations_settle split: sum.split)

text \<open>
  The first migration to a tuning for each carrier, whatever the older settings hold, leaves a store
  whose records are dictionaries, whose tuning in use is the one of its carrier, and which is on disk, so
  every later operation keeps the carriers apart.
\<close>

theorem first_migration_separates_carriers:
  assumes "version_of s ''carrier_tuning_version'' = Inr n" "n < 1" "migrate_carrier_tunings s = Inr s'"
  shows "store_ok s' \<and> migrate_carrier_tunings s' = Inr s'"
  using first_migration_ok [OF assms] carriers_done(2) [OF assms(3)] by simp


lemma rmap_total:
  assumes "\<And>x. \<exists>y. f x = Inr y"
  shows "\<exists>ys. rmap f xs = Inr ys"
proof (induction xs)
  case (Cons x xs)
  obtain y where "f x = Inr y" using assms by blast
  with Cons show ?case by auto
qed simp

lemma first_migration_returns:
  assumes "scan_results s = []" "version_of s ''carrier_tuning_version'' = Inr n"
  shows "\<exists>s'. migrate_carrier_tunings s = Inr s'"
proof -
  have initial: "\<exists>t. initial_tuning s current active raw_map c = Inr t" for current active raw_map c
    using assms(1) by (simp add: initial_tuning_def best_saved_edge_def Let_def)
  have "\<exists>ts. rmap (\<lambda>c. rbind (initial_tuning s current active raw_map c) (\<lambda>t. Inr (c, JObj t))) cs = Inr ts"
    for current active raw_map cs
  proof (rule rmap_total)
    fix c
    obtain t where "initial_tuning s current active raw_map c = Inr t"
      using initial by blast
    then show "\<exists>y. rbind (initial_tuning s current active raw_map c) (\<lambda>t. Inr (c, JObj t)) = Inr y" by simp
  qed
  then obtain ts where "rmap (\<lambda>c. rbind (initial_tuning s (from_dict (tuning_dict s))
      (carrier_name (fld (from_dict (tuning_dict s)) ''carrier_mode'')) (carrier_map s) c) (\<lambda>t. Inr (c, JObj t))) CARRIERS
      = Inr ts" by blast
  then obtain s1 where "initialize_carrier_tunings_v1 s = Inr s1"
    by (simp add: initialize_carrier_tunings_v1_def Let_def)
  then have "(if n < 1 then initialize_carrier_tunings_v1 s else Inr s) = Inr (if n < 1 then s1 else s)" by simp
  then show ?thesis
    unfolding migrate_carrier_tunings_def assms(2) rbind_simps Let_def by (simp split: prod.split del: py_eq.simps)
qed

lemma first_migration_separates_carriers_witness:
  "\<exists>s'. migrate_carrier_tunings fresh_store = Inr s' \<and> store_ok s'"
proof -
  have v: "version_of fresh_store ''carrier_tuning_version'' = Inr 0"
    by (simp add: version_of_def fresh_store_def setting_def dict_get_or_def or_else_def)
  obtain s' where s': "migrate_carrier_tunings fresh_store = Inr s'"
    using first_migration_returns [OF _ v] by (auto simp: fresh_store_def)
  then show ?thesis using first_migration_separates_carriers [OF v _ s'] by simp
qed

end
