(* ===== verification/Gene_Store.thy ===== *)
theory Gene_Store
  imports Tuning_Store
begin

text \<open>
  The rest of the settings part of class \<open>Storage\<close> (\<open>storage.py\<close>): the switches a new settings file is
  given, the stored genes with their statistics, and the flags of the gene pool.
\<close>

section \<open>Switches of a new settings file\<close>

definition PREFERENCES :: "(string \<times> json) list" where
  "PREFERENCES = [(''proxy_mode'', JBool True), (''tun_mode'', JBool False), (''assistant_enabled'', JBool False),
     (''assistant_guides_enabled'', JBool True), (''assistant_warnings_enabled'', JBool True),
     (''assistant_seen_guides'', JArr [])]"

definition init_preferences :: "store \<Rightarrow> store" where
  \<comment> \<open>the first part of \<open>__init__\<close>\<close>
  "init_preferences s = (
     let changed = (list_ex (\<lambda>(k, _). dict_get (settings s) k = None) PREFERENCES
           \<or> dict_get (settings s) ''close_to_tray'' \<noteq> None);
         s = s\<lparr>settings := fold (\<lambda>(k, v). setdefault k v) PREFERENCES (settings s)\<rparr>;
         s = drop_key ''close_to_tray'' s in
     if changed then save_store s else s)"

definition migrate_scan_results :: "json \<Rightarrow> json \<Rightarrow> json list \<times> bool" where
  \<comment> \<open>the saved scan results, or those of the bookmarks of older versions; the flag says they are written\<close>
  "migrate_scan_results results bookmarks = (
     let saved = (case results of JArr xs \<Rightarrow> xs | _ \<Rightarrow> []) in
     if saved = [] then (case bookmarks of
       JArr items \<Rightarrow> (let old = filter is_dict items in (old, old \<noteq> [])) | _ \<Rightarrow> ([], False))
     else (saved, False))"

section \<open>Genes\<close>

definition gene_strategies :: "store \<Rightarrow> json list" where
  "gene_strategies s = (case setting s ''gene_strategies'' (JArr []) of JArr xs \<Rightarrow> xs | _ \<Rightarrow> [])"

definition text_setting :: "store \<Rightarrow> string \<Rightarrow> string" where
  "text_setting s k = py_str (or_else (setting s k (JStr [])) (JStr []))"

definition selected_gene_strategy_id :: "store \<Rightarrow> string" where
  "selected_gene_strategy_id s = text_setting s ''selected_gene_strategy_id''"

definition gene_last_winner :: "store \<Rightarrow> string" where
  "gene_last_winner s = text_setting s ''gene_last_winner''"

definition gene_stats :: "store \<Rightarrow> obj" where
  "gene_stats s = dict_of (setting s ''gene_stats'' (JObj []))"

definition multi_gene_enabled :: "store \<Rightarrow> bool" where
  "multi_gene_enabled s = truthy (setting s ''multi_gene_enabled'' (JBool False))"

definition set_multi_gene_enabled :: "bool \<Rightarrow> store \<Rightarrow> store" where
  "set_multi_gene_enabled b s = save_store (put ''multi_gene_enabled'' (JBool b) s)"

definition strategy_locked :: "store \<Rightarrow> bool" where
  "strategy_locked s = truthy (setting s ''strategy_locked'' (JBool False))"

definition set_strategy_locked :: "bool \<Rightarrow> store \<Rightarrow> store" where
  "set_strategy_locked b s = save_store (put ''strategy_locked'' (JBool b) s)"

definition strategy_id :: "json \<Rightarrow> string" where
  \<comment> \<open>\<open>str(g.get("id"))\<close>\<close>
  "strategy_id g = py_str (dict_get_or (dict_of g) ''id'' JNull)"

definition set_gene_strategies :: "json list \<Rightarrow> string \<Rightarrow> store \<Rightarrow> store" where
  "set_gene_strategies strategies selected_id s = (
     let cleaned = filter (\<lambda>item. is_dict item \<and> truthy (dict_get_or (dict_of item) ''method'' JNull)) strategies;
         s = put ''selected_gene_strategy_id'' (JStr selected_id) (put ''gene_strategies'' (JArr cleaned) s);
         s = put ''gene_stats'' (JObj (prune_stats (gene_stats s) cleaned)) s;
         s = (if gene_last_winner s \<in> set (map strategy_id cleaned) then s
              else put ''gene_last_winner'' (JStr []) s) in
     save_store s)"

definition record_gene_result :: "obj \<Rightarrow> bool \<Rightarrow> rat \<Rightarrow> store \<Rightarrow> (bool \<times> store) res" where
  "record_gene_result gene ok now s = rbind (record_result (gene_stats s) gene ok now) (\<lambda>(stats, entered).
     let s = put ''gene_stats'' (JObj stats) s;
         s = (if ok then put ''gene_last_winner'' (JStr (py_str (dict_get_or gene ''id'' (JStr [])))) s else s) in
     Inr (entered, save_store s))"

definition selected_gene_strategy :: "store \<Rightarrow> json option" where
  "selected_gene_strategy s = (let selected = selected_gene_strategy_id s in
     if selected = [] then None
     else find (\<lambda>item. is_dict item \<and> py_str (dict_get_or (dict_of item) ''id'' (JStr [])) = selected)
       (gene_strategies s))"

section \<open>Properties\<close>

lemma set_gene_strategies_settings:
  "gene_strategies (set_gene_strategies gs i s)
     = filter (\<lambda>item. is_dict item \<and> truthy (dict_get_or (dict_of item) ''method'' JNull)) gs"
  "selected_gene_strategy_id (set_gene_strategies gs i s) = i"
  by (simp_all add: set_gene_strategies_def gene_strategies_def selected_gene_strategy_id_def text_setting_def Let_def
    or_else_def py_str_def)

lemma stats_of_stored_genes:
  assumes "k \<in> fst ` set (gene_stats (set_gene_strategies gs i s))"
  shows "k \<in> strategy_id ` set (gene_strategies (set_gene_strategies gs i s))"
  using assms unfolding set_gene_strategies_settings
  by (auto simp: set_gene_strategies_def gene_stats_def Let_def dict_of_def prune_stats_def strategy_id_def field_def
    dict_get_or_def split: if_splits option.splits)

lemma winner_is_stored:
  "gene_last_winner (set_gene_strategies gs i s) = []
    \<or> gene_last_winner (set_gene_strategies gs i s) \<in> strategy_id ` set (gene_strategies (set_gene_strategies gs i s))"
proof -
  define cleaned where "cleaned = filter (\<lambda>item. is_dict item \<and> truthy (dict_get_or (dict_of item) ''method'' JNull)) gs"
  define s1 where "s1 = put ''gene_stats'' (JObj (prune_stats (gene_stats (put ''selected_gene_strategy_id'' (JStr i)
    (put ''gene_strategies'' (JArr cleaned) s))) cleaned)) (put ''selected_gene_strategy_id'' (JStr i)
    (put ''gene_strategies'' (JArr cleaned) s))"
  have "set_gene_strategies gs i s = save_store (if gene_last_winner s1 \<in> set (map strategy_id cleaned) then s1
      else put ''gene_last_winner'' (JStr []) s1)"
    unfolding set_gene_strategies_def Let_def cleaned_def s1_def ..
  moreover have "gene_last_winner (save_store x) = gene_last_winner x" for x
    by (simp add: gene_last_winner_def text_setting_def)
  moreover have "gene_last_winner (put ''gene_last_winner'' (JStr []) x) = []" for x
    by (simp add: gene_last_winner_def text_setting_def or_else_def)
  ultimately show ?thesis unfolding set_gene_strategies_settings cleaned_def [symmetric] by simp
qed

definition GENE_KEYS :: "string set" where
  "GENE_KEYS = {''gene_strategies'', ''selected_gene_strategy_id'', ''gene_stats'', ''gene_last_winner''}"

lemma set_gene_same: "same_but GENE_KEYS s (set_gene_strategies gs i s)"
  by (simp add: set_gene_strategies_def Let_def GENE_KEYS_def same_but_put)

lemma gene_keys_other: "''tuning'' \<notin> GENE_KEYS" "''carrier_tunings'' \<notin> GENE_KEYS"
  by (simp_all add: GENE_KEYS_def)

lemma genes_keep_carriers: "abs_store (set_gene_strategies gs i s) = abs_store s"
  using same_but_setting [OF set_gene_same gene_keys_other(1)] same_but_setting [OF set_gene_same gene_keys_other(2)]
  by (simp add: abs_store_def effective_def active_carrier_of_def carrier_map_def)

lemma selected_is_stored: "selected_gene_strategy s = Some g \<Longrightarrow> g \<in> set (gene_strategies s)"
  by (auto simp: selected_gene_strategy_def Let_def find_Some_iff split: if_splits)

end
