(* ===== verification/Profiles.thy ===== *)
theory Profiles
  imports Url_Text Tunnel_Config Gene_Store
begin

text \<open>
  The profiles of \<open>models.py\<close>: class \<open>ProxyProfile\<close>, reading a profile from the settings file and from a
  share link (\<open>parse_uri\<close>), finding links in a text, the built-in profiles, the parameters of the link
  that describe the outbound (\<open>parse_outbound\<close>) and the route of a profile. A profile is the dictionary of
  its fields, whose values are unchecked, as for the tunings. The random and the name-based identifiers
  (\<open>uuid4\<close>, \<open>uuid5\<close>) are arguments, and so is the check of an address in brackets.
\<close>

section \<open>The fields\<close>

type_synonym profile = obj

definition PROFILE_DEFAULTS :: "(string \<times> json) list" where
  \<comment> \<open>behind the field \<open>id\<close>\<close>
  "PROFILE_DEFAULTS = [(''name'', JStr ''New V2Ray config''), (''address'', JStr ''104.18.8.83''),
     (''fallback_address'', JStr ''104.18.9.83''), (''port'', JInt 443), (''sni'', JStr ''www.speedtest.net''),
     (''method'', JStr ''combined''), (''source_uri'', JStr []), (''protocol'', JStr ''vless''),
     (''config_host'', JStr ''127.0.0.1''), (''config_port'', JInt 40443), (''last_ping_ok'', JBool False),
     (''last_ping_ms'', JFloat 0 ''0.0''), (''origin'', JStr ''user''), (''country_code'', JStr []),
     (''country_latency_ms'', JInt 0), (''verified_spoof'', JBool False), (''spoof_fake_sni'', JStr []),
     (''rotating_exit'', JBool False), (''observed_exit_ip'', JStr []), (''observed_country_code'', JStr []),
     (''observed_country_name'', JStr []), (''country_verified_at'', JFloat 0 ''0.0''), (''country_source'', JStr []),
     (''route_mode'', JStr ''sni''), (''verified_route'', JBool False), (''maker_meta'', JObj [])]"

definition PROFILE_FIELDS :: "string list" where
  "PROFILE_FIELDS = ''id'' # map fst PROFILE_DEFAULTS"

definition make_profile :: "string \<Rightarrow> (string \<times> json) list \<Rightarrow> profile" where
  \<comment> \<open>\<open>ProxyProfile(k=v, ...)\<close>; \<open>new_id\<close> is the random identifier\<close>
  "make_profile new_id kvs = dict_set_all kvs ((''id'', JStr new_id) # PROFILE_DEFAULTS)"

definition ALIASES :: "(string \<times> string) list" where
  "ALIASES = [(''fallbackAddress'', ''fallback_address''), (''sourceUri'', ''source_uri''),
     (''configHost'', ''config_host''), (''configPort'', ''config_port''), (''lastPingOk'', ''last_ping_ok''),
     (''lastPingMs'', ''last_ping_ms'')]"

definition query_get :: "(string, string) dict \<Rightarrow> string \<Rightarrow> string" where
  \<comment> \<open>\<open>query.get(key) or ""\<close>\<close>
  "query_get q k = dict_get_or q k []"

definition route_of_query :: "(string, string) dict \<Rightarrow> string option" where
  "route_of_query q = (if lower (query_get q ''security'') = ''reality'' then Some ''reality-direct''
     else if query_get q ''ech'' \<noteq> [] \<or> query_get q ''echcl'' \<noteq> [] then Some ''ech-direct'' else None)"

definition profile_from_dict :: "(string \<Rightarrow> bool) \<Rightarrow> string \<Rightarrow> obj \<Rightarrow> profile" where
  "profile_from_dict bracket_ok new_id raw = (
     let named = map (\<lambda>(k, v). (dict_get_or ALIASES k k, v)) raw;
         clean = dict_set_all (filter (\<lambda>(k, _). k \<in> set PROFILE_FIELDS) named) [];
         clean = (if dict_get clean ''route_mode'' \<noteq> None then clean
           else (case split_url bracket_ok (py_str (or_else (dict_get_or clean ''source_uri'' (JStr [])) (JStr []))) of
               Inl e \<Rightarrow> clean
             | Inr u \<Rightarrow> (case route_of_query (query_dict (url_query u)) of
                 None \<Rightarrow> clean | Some r \<Rightarrow> dict_set ''route_mode'' (JStr r) clean))) in
     make_profile new_id clean)"

section \<open>Share links\<close>

fun first_text :: "(string, string) dict \<Rightarrow> string list \<Rightarrow> string \<Rightarrow> string" where
  \<comment> \<open>the first non-empty value of the keys, or the default\<close>
  "first_text q [] d = d"
| "first_text q (k # ks) d = (if query_get q k \<noteq> [] then query_get q k else first_text q ks d)"

definition SNI_KEYS :: "string list" where
  "SNI_KEYS = [''sni'', ''servername'', ''host'', ''authority'']"

definition take_digits :: "string \<Rightarrow> string \<times> string" where
  "take_digits s = (takeWhile is_ascii_digit s, dropWhile is_ascii_digit s)"

definition spoof_meta :: "string \<Rightarrow> (string \<times> string) option" where
  \<comment> \<open>\<open>SPOOF_META_RE.fullmatch\<close>: number and country code\<close>
  "spoof_meta s = (if upper (take 6 s) \<noteq> ''SPOOF-'' then None else
     (case take_digits (drop 6 s) of (number, rest) \<Rightarrow>
        if number = [] then None else (case rest of
          d # a # b # tail \<Rightarrow>
            (if d = CHR ''-'' \<and> is_ascii_alpha a \<and> is_ascii_alpha b
              \<and> (tail = [] \<or> (hd tail = CHR ''-'' \<and> fst (take_digits (tl tail)) \<noteq> []
                   \<and> upper (snd (take_digits (tl tail))) = ''MS''))
             then Some (number, [a, b]) else None)
        | _ \<Rightarrow> None)))"

definition COUNTRIES :: "(string \<times> string) list" where
  \<comment> \<open>the English names\<close>
  "COUNTRIES = [(''AT'', ''Austria''), (''CH'', ''Switzerland''), (''DE'', ''Germany''), (''FI'', ''Finland''),
     (''FR'', ''France''), (''JP'', ''Japan''), (''NL'', ''Netherlands''), (''PL'', ''Poland''), (''SG'', ''Singapore''),
     (''US'', ''United States'')]"

definition ROTATING_SPOOF_SEQUENCES :: "nat list" where
  "ROTATING_SPOOF_SEQUENCES = [4, 5, 7, 8, 11, 18, 26, 47]"

definition VERIFIED_SPOOF_EDGE :: string where "VERIFIED_SPOOF_EDGE = ''104.19.229.21''"

definition VERIFIED_SPOOF_FAKE_SNI :: string where "VERIFIED_SPOOF_FAKE_SNI = ''static.cloudflare.com''"

definition pad3 :: "nat \<Rightarrow> string" where
  \<comment> \<open>\<open>f"{n:03d}"\<close>\<close>
  "pad3 n = replicate (3 - length (nat_str n)) CHR ''0'' @ nat_str n"

definition spoof_fields :: "(string \<Rightarrow> string) \<Rightarrow> string \<Rightarrow> string \<times> string \<Rightarrow> (string \<times> json) list" where
  \<comment> \<open>what a link with spoof data assigns; \<open>uuid5\<close> is the identifier made from the link\<close>
  "spoof_fields uuid5 raw m = (
     let n = (case digits_val 0 False (fst m) of None \<Rightarrow> 0 | Some n \<Rightarrow> n); code = upper (snd m);
         rotating = (n \<in> set ROTATING_SPOOF_SEQUENCES); dot = '' '' @ [CHR 0xB7] @ '' Spoof '' @ pad3 n in
     [(''id'', JStr (uuid5 raw)),
      (''name'', JStr ((if rotating then ''Dynamic exit'' else dict_get_or COUNTRIES code code) @ dot)),
      (''address'', JStr VERIFIED_SPOOF_EDGE), (''fallback_address'', JStr []), (''origin'', JStr ''verified''),
      (''country_code'', JStr (if rotating then ''XX'' else code)), (''country_latency_ms'', JInt 0),
      (''verified_spoof'', JBool True), (''spoof_fake_sni'', JStr VERIFIED_SPOOF_FAKE_SNI),
      (''rotating_exit'', JBool rotating)])"

definition LINK_TAIL :: string where
  \<comment> \<open>the characters cut from the end of a link\<close>
  "LINK_TAIL = [CHR 0x22, CHR 0x27, CHR ''.'', CHR '','', CHR '';'', CHR '')'']"

definition rstrip_set :: "string \<Rightarrow> string \<Rightarrow> string" where
  "rstrip_set cs s = rev (dropWhile (\<lambda>c. c \<in> set cs) (rev s))"

definition PROTOCOLS :: "string list" where "PROTOCOLS = [''vless'', ''trojan'', ''vmess'']"

definition or_port :: "nat option \<Rightarrow> int" where
  \<comment> \<open>\<open>parsed.port or 443\<close>\<close>
  "or_port p = (case p of None \<Rightarrow> 443 | Some n \<Rightarrow> if n = 0 then 443 else int n)"

definition parse_uri :: "(string \<Rightarrow> bool) \<Rightarrow> (string \<Rightarrow> string) \<Rightarrow> string \<Rightarrow> string \<Rightarrow> bool \<Rightarrow> profile option" where
  "parse_uri bracket_ok uuid5 new_id uri suggested = (
     let raw = rstrip_set LINK_TAIL (strip uri) in
     case split_url bracket_ok raw of Inl e \<Rightarrow> None
     | Inr u \<Rightarrow> (let protocol = lower (url_scheme u); host = hostname u; query = query_dict (url_query u) in
         if protocol \<notin> set PROTOCOLS \<or> host = [] then None
         else (case port u of Inl e \<Rightarrow> None
           | Inr p \<Rightarrow> (let fragment = unquote (url_fragment u);
               base = [(''name'', JStr (if fragment \<noteq> [] then fragment else upper protocol @ '' '' @ host)),
                 (''source_uri'', JStr raw), (''protocol'', JStr protocol), (''config_host'', JStr host),
                 (''config_port'', JInt (or_port p)), (''origin'', JStr (if suggested then ''builtin'' else ''user'')),
                 (''sni'', JStr (first_text query SNI_KEYS host)),
                 (''route_mode'', JStr (case route_of_query query of None \<Rightarrow> ''sni'' | Some r \<Rightarrow> r))] in
             (case spoof_meta fragment of
               None \<Rightarrow> Some (make_profile new_id base)
             | Some m \<Rightarrow> (if length (fst m) > 4300 then None \<comment> \<open>\<open>int\<close> reads no longer texts\<close>
                 else Some (make_profile new_id (base @ spoof_fields uuid5 raw m))))))))"

section \<open>Links in a text\<close>

definition link_at :: "string \<Rightarrow> bool" where
  \<comment> \<open>a link starts here: \<open>(?:vless|trojan|vmess)://[^\s]+\<close>\<close>
  "link_at s \<longleftrightarrow> list_ex (\<lambda>p. lower (take (length p + 3) s) = p @ ''://''
     \<and> (case drop (length p + 3) s of [] \<Rightarrow> False | c # _ \<Rightarrow> \<not> is_space c)) PROTOCOLS"

function find_links :: "string \<Rightarrow> string list" where
  "find_links [] = []"
| "find_links (c # s) = (if link_at (c # s)
     then (c # takeWhile (\<lambda>x. \<not> is_space x) s) # find_links (dropWhile (\<lambda>x. \<not> is_space x) s)
     else find_links s)"
  by pat_completeness auto
termination
  by (relation "measure length") (auto simp: less_Suc_eq_le length_dropWhile_le)

definition parse_many :: "(string \<Rightarrow> bool) \<Rightarrow> (string \<Rightarrow> string) \<Rightarrow> (nat \<Rightarrow> string) \<Rightarrow> string \<Rightarrow> bool \<Rightarrow> profile list" where
  \<comment> \<open>\<open>new_id\<close> gives the identifier of the i-th link\<close>
  "parse_many bracket_ok uuid5 new_id text suggested = concat (map (\<lambda>(i, link).
     case parse_uri bracket_ok uuid5 (new_id i) link suggested of None \<Rightarrow> [] | Some p \<Rightarrow> [p])
     (enumerate 0 (find_links text)))"

definition BUILTIN_CONFIGS :: string where
  "BUILTIN_CONFIGS = join [CHR 0x0A] [
      ''trojan://humanity@127.0.0.1:40443?path=%2Fassignment&security=tls&insecure=0&host=www.calmlunch.com&'' @
      ''type=ws&allowInsecure=0&sni=www.calmlunch.com#uacSpoofer%201'',
      ''trojan://humanity@127.0.0.1:40443?path=%2Fassignment&security=tls&insecure=0&host=www.ignitelimit.co'' @
      ''m&type=ws&allowInsecure=0&sni=www.ignitelimit.com#uacSpoofer%202'',
      ''trojan://humanity@127.0.0.1:40443?path=assignment&security=tls&insecure=0&type=ws&allowInsecure=0&sn'' @
      ''i=www.ignitelimit.com#uacSpoofer%203'',
      ''trojan://humanity@127.0.0.1:40443?path=%2Fassignment%3FTELEGRAM--KANAL--JKVPN--JKVPN--JKVPN--JKVPN--'' @
      ''JKVPN--JKVPN&security=tls&insecure=0&fp=chrome&type=ws&allowInsecure=0&sni=www.gossipglove.com#uacSp'' @
      ''oofer%204'',
      ''trojan://humanity@127.0.0.1:40443?path=%2F%2Fassignment&security=tls&insecure=0&host=www.multiplydos'' @
      ''e.com&type=ws&allowInsecure=0&sni=www.multiplydose.com#uacSpoofer%205'',
      ''vless://30980fc4-8789-42df-80d1-0c8e5cd26881@127.0.0.1:40443?path=%2Fvpnhu&security=tls&encryption=n'' @
      ''one&insecure=1&host=cdn.veilvpn.fans&fp=chrome&type=httpupgrade&allowInsecure=1&sni=cdn.veilvpn.fans'' @
      ''#uacSpoofer%206'']"


definition default_profiles :: "(string \<Rightarrow> bool) \<Rightarrow> (string \<Rightarrow> string) \<Rightarrow> (nat \<Rightarrow> string) \<Rightarrow> profile list" where
  "default_profiles bracket_ok uuid5 new_id = map (\<lambda>(i, p).
       dict_set ''id'' (JStr (uuid5 (py_str (fld p ''source_uri'')))) (dict_set ''name'' (JStr (''uacSpoofer '' @ nat_str i)) p))
     (enumerate 1 (parse_many bracket_ok uuid5 new_id BUILTIN_CONFIGS True))"

section \<open>The outbound of a link\<close>

record link_outbound =
  ob_protocol :: string
  ob_user :: string
  ob_host :: string
  ob_port :: int
  ob_sni :: string
  ob_host_header :: string
  ob_path :: string
  ob_network :: string
  ob_fingerprint :: string
  ob_pinned :: string
  ob_verify_name :: string
  ob_alter_id :: int
  ob_user_security :: string
  ob_security :: string
  ob_flow :: string
  ob_encryption :: string
  ob_reality_public_key :: string
  ob_reality_short_id :: string
  ob_reality_spider_x :: string
  ob_service_name :: string
  ob_authority :: string
  ob_mode :: string
  ob_extra :: string
  ob_header_type :: string
  ob_alpn :: "string list"
  ob_insecure :: bool
  ob_ech :: string

definition text_of_field :: "profile \<Rightarrow> string \<Rightarrow> string res" where
  \<comment> \<open>a field the code uses as text; another value has no such method\<close>
  "text_of_field p k = (case fld p k of JStr s \<Rightarrow> Inr s | _ \<Rightarrow> Inl AttributeError)"

definition parse_outbound :: "(string \<Rightarrow> bool) \<Rightarrow> profile \<Rightarrow> link_outbound res" where
  "parse_outbound bracket_ok profile =
     rbind (text_of_field profile ''source_uri'') (\<lambda>uri. rbind (split_url bracket_ok uri) (\<lambda>u.
     rbind (if hostname u \<noteq> [] then Inr (hostname u) else text_of_field profile ''config_host'') (\<lambda>host.
       let q = query_dict (url_query u); any = (\<lambda>ks d. first_text q ks d); sni = any SNI_KEYS host in
     rbind (if sni \<noteq> [] then Inr sni else text_of_field profile ''sni'') (\<lambda>fallback_header. rbind (port u) (\<lambda>p.
       let host_header = any [''host'', ''authority''] fallback_header;
           path = any [''path''] ''/'';
           path = (if startswith path ''/'' then path else ''/'' @ path);
           security = lower (strip (any [''security''] ''tls''));
           network = lower (strip (any [''type'', ''network''] (if security = ''reality'' then ''raw'' else ''ws'')));
           network = (if network = ''tcp'' then ''raw'' else network);
           alter_id = (case py_int (any [''aid'', ''alterid''] ''0'') of None \<Rightarrow> 0 | Some n \<Rightarrow> max 0 n);
           alpn = filter (\<lambda>v. v \<noteq> []) (map strip (split_on CHR '','' (query_get q ''alpn'')));
           insecure = (lower (strip (any [''allowinsecure'', ''insecure''] [])) \<in> {''1'', ''true'', ''yes'', ''on''}) in
       Inr \<lparr>ob_protocol = lower (url_scheme u), ob_user = unquote (username u), ob_host = host, ob_port = or_port p,
         ob_sni = sni, ob_host_header = host_header, ob_path = path, ob_network = network,
         ob_fingerprint = any [''fp'', ''fingerprint''] [], ob_pinned = any [''pinnedpeercertsha256'', ''pcs''] [],
         ob_verify_name = any [''verifypeercertbyname'', ''vcn''] [], ob_alter_id = alter_id,
         ob_user_security = any [''scy'', ''cipher''] ''auto'', ob_security = security, ob_flow = query_get q ''flow'',
         ob_encryption = any [''encryption''] ''none'',
         ob_reality_public_key = any [''pbk'', ''publickey'', ''password''] [],
         ob_reality_short_id = any [''sid'', ''shortid''] [], ob_reality_spider_x = any [''spx'', ''spiderx''] [],
         ob_service_name = query_get q ''servicename'', ob_authority = query_get q ''authority'',
         ob_mode = query_get q ''mode'', ob_extra = query_get q ''extra'', ob_header_type = any [''headertype''] ''none'',
         ob_alpn = alpn, ob_insecure = insecure, ob_ech = any [''ech'', ''echcl'', ''echconfiglist''] []\<rparr>)))))"

section \<open>Routes\<close>

definition uri_has_ech :: "(string \<Rightarrow> bool) \<Rightarrow> json \<Rightarrow> bool" where
  "uri_has_ech bracket_ok uri = (case split_url bracket_ok (py_str (or_else uri (JStr []))) of
     Inl e \<Rightarrow> False
   | Inr u \<Rightarrow> first_text (query_dict (url_query u)) [''ech'', ''echcl'', ''echconfiglist''] [] \<noteq> [])"

definition route_mode :: "profile \<Rightarrow> string" where
  "route_mode p = py_str (or_else (fld p ''route_mode'') (JStr []))"

definition is_ech_route :: "(string \<Rightarrow> bool) \<Rightarrow> profile \<Rightarrow> bool" where
  "is_ech_route bracket_ok p \<longleftrightarrow> route_mode p = ''ech-direct''
     \<or> (route_mode p \<noteq> ''reality-direct'' \<and> uri_has_ech bracket_ok (fld p ''source_uri''))"

definition is_direct_route :: "(string \<Rightarrow> bool) \<Rightarrow> profile \<Rightarrow> bool" where
  "is_direct_route bracket_ok p \<longleftrightarrow> route_mode p \<in> {''reality-direct'', ''ech-direct''} \<or> is_ech_route bracket_ok p"

definition route_label :: "(string \<Rightarrow> bool) \<Rightarrow> profile \<Rightarrow> string" where
  "route_label bracket_ok p = (if route_mode p = ''reality-direct'' then ''Reality''
     else if is_ech_route bracket_ok p then ''ECH'' else ''SNI'')"


section \<open>Properties\<close>

definition wf_profile :: "profile \<Rightarrow> bool" where
  "wf_profile p \<longleftrightarrow> map fst p = PROFILE_FIELDS"

lemma distinct_profile_fields: "distinct PROFILE_FIELDS"
  by code_simp

lemma profile_defaults_fields: "map fst ((''id'', JStr i) # PROFILE_DEFAULTS) = PROFILE_FIELDS"
  by (simp add: PROFILE_FIELDS_def)

lemma keys_set_all_sub: "set (map fst kvs) \<subseteq> set (map fst d) \<Longrightarrow> map fst (dict_set_all kvs d) = map fst d"
  by (induction kvs d rule: dict_set_all.induct) (auto simp: keys_dict_set_list simp flip: set_map)

lemma wf_make_profile: "set (map fst kvs) \<subseteq> set PROFILE_FIELDS \<Longrightarrow> wf_profile (make_profile i kvs)"
  unfolding wf_profile_def make_profile_def profile_defaults_fields [of i, symmetric] by (rule keys_set_all_sub)

lemma dict_eqI:
  assumes "map fst d = map fst e" "distinct (map fst d)" "\<And>k. dict_get d k = dict_get e k"
  shows "d = e"
proof -
  have self: "map (\<lambda>k. (k, the (dict_get d k))) (map fst d) = d" if "distinct (map fst d)" for d :: "('a, 'b) dict"
    using that by (auto simp: dict_get_def intro!: map_idI)
  have "map (\<lambda>k. (k, the (dict_get d k))) (map fst d) = map (\<lambda>k. (k, the (dict_get e k))) (map fst e)"
    using assms(1,3) by simp
  with self [of d] self [of e] assms(1,2) show ?thesis by metis
qed

lemma make_profile_self:
  assumes "wf_profile p"
  shows "make_profile i p = p"
proof (rule dict_eqI)
  have keys: "map fst (make_profile i p) = PROFILE_FIELDS"
    using assms wf_make_profile [of p i] by (simp add: wf_profile_def)
  then show "map fst (make_profile i p) = map fst p" "distinct (map fst (make_profile i p))"
    using assms distinct_profile_fields by (simp_all add: wf_profile_def)
  have dp: "distinct (map fst p)" using assms distinct_profile_fields by (simp add: wf_profile_def)
  show "dict_get (make_profile i p) k = dict_get p k" for k
  proof (cases "k \<in> set PROFILE_FIELDS")
    case True
    then obtain v where "map_of p k = Some v"
      using assms by (metis wf_profile_def map_of_eq_None_iff not_None_eq set_map)
    then show ?thesis unfolding make_profile_def dict_get_set_all [OF dp] by (simp add: dict_get_def)
  next
    case False
    then show ?thesis using keys assms by (metis dict_get_None_iff wf_profile_def set_map)
  qed
qed

lemma set_all_self: "distinct (map fst p) \<Longrightarrow> dict_set_all p [] = p"
proof (rule dict_eqI)
  assume d: "distinct (map fst p)"
  have keys: "map fst (dict_set_all kvs e) = map fst e @ map fst kvs"
    if "distinct (map fst e @ map fst kvs)" for kvs and e :: "('a, 'b) dict"
    using that by (induction kvs e rule: dict_set_all.induct) (auto simp: keys_dict_set_list)
  show "map fst (dict_set_all p []) = map fst p" "distinct (map fst (dict_set_all p []))"
    using keys [of "[]" p] d by simp_all
  show "dict_get (dict_set_all p []) k = dict_get p k" for k
    unfolding dict_get_set_all [OF d] by (simp add: dict_get_def split: option.split)
qed

lemma aliases_disjoint: "list_all (\<lambda>k. map_of ALIASES k = None) PROFILE_FIELDS"
  by code_simp

text \<open>
  A profile that was saved is read back as it was.
\<close>

theorem saved_profile_is_read_back:
  assumes "wf_profile p"
  shows "profile_from_dict bracket_ok new_id p = p"
proof -
  have keys: "k \<in> set PROFILE_FIELDS" if "(k, v) \<in> set p" for k v
    using that assms by (metis fst_conv image_eqI set_map wf_profile_def)
  have named: "map (\<lambda>(k, v). (dict_get_or ALIASES k k, v)) p = p"
    using aliases_disjoint keys
    by (intro map_idI) (auto simp: list_all_iff dict_get_or_def dict_get_def split: option.split)
  have "filter (\<lambda>(k, _). k \<in> set PROFILE_FIELDS) p = p"
    using keys by (auto intro: filter_True)
  moreover have "dict_set_all p [] = p"
    using assms distinct_profile_fields by (simp add: set_all_self wf_profile_def)
  moreover have "dict_get p ''route_mode'' \<noteq> None"
  proof -
    have "''route_mode'' \<in> set PROFILE_FIELDS" by (simp add: PROFILE_FIELDS_def PROFILE_DEFAULTS_def)
    then show ?thesis using assms by (metis dict_get_None_iff set_map wf_profile_def)
  qed
  ultimately show ?thesis
    using make_profile_self [OF assms] by (simp add: profile_from_dict_def named Let_def del: dict_get_set)
qed

lemma saved_profile_is_read_back_witness:
  "profile_from_dict (\<lambda>_. False) ''x'' (make_profile ''1'' [(''port'', JInt 8443)]) = make_profile ''1'' [(''port'', JInt 8443)]"
  by (rule saved_profile_is_read_back, rule wf_make_profile) (simp add: PROFILE_FIELDS_def PROFILE_DEFAULTS_def)

subsection \<open>A parsed link describes its outbound\<close>

lemma first_text_neq: "d \<noteq> [] \<Longrightarrow> first_text q ks d \<noteq> []"
  by (induction ks) auto

definition link_fields :: "string \<Rightarrow> url_parts \<Rightarrow> nat option \<Rightarrow> bool \<Rightarrow> (string \<times> json) list" where
  \<comment> \<open>the fields a parsed link sets\<close>
  "link_fields raw u p suggested = (let fragment = unquote (url_fragment u); host = hostname u; query = query_dict (url_query u) in
     [(''name'', JStr (if fragment \<noteq> [] then fragment else upper (lower (url_scheme u)) @ '' '' @ host)),
      (''source_uri'', JStr raw), (''protocol'', JStr (lower (url_scheme u))), (''config_host'', JStr host),
      (''config_port'', JInt (or_port p)), (''origin'', JStr (if suggested then ''builtin'' else ''user'')),
      (''sni'', JStr (first_text query SNI_KEYS host)),
      (''route_mode'', JStr (case route_of_query query of None \<Rightarrow> ''sni'' | Some r \<Rightarrow> r))])"

lemma parse_uriE:
  assumes "parse_uri bracket_ok uuid5 i uri suggested = Some p"
  obtains u q raw m where "split_url bracket_ok raw = Inr u" "lower (url_scheme u) \<in> set PROTOCOLS" "hostname u \<noteq> []"
    "port u = Inr q" "p = make_profile i (link_fields raw u q suggested)
      \<or> p = make_profile i (link_fields raw u q suggested @ spoof_fields uuid5 raw m)"
proof -
  define raw where "raw = rstrip_set LINK_TAIL (strip uri)"
  obtain u where u: "split_url bracket_ok raw = Inr u"
    using assms by (cases "split_url bracket_ok raw") (auto simp: parse_uri_def Let_def raw_def)
  have ok: "lower (url_scheme u) \<in> set PROTOCOLS" "hostname u \<noteq> []"
    using assms u by (auto simp: parse_uri_def Let_def simp flip: raw_def split: if_splits)
  obtain q where q: "port u = Inr q"
    using assms u ok by (cases "port u") (auto simp: parse_uri_def Let_def simp flip: raw_def)
  have "(case spoof_meta (unquote (url_fragment u)) of None \<Rightarrow> Some (make_profile i (link_fields raw u q suggested))
      | Some m \<Rightarrow> if length (fst m) > 4300 then None
          else Some (make_profile i (link_fields raw u q suggested @ spoof_fields uuid5 raw m))) = Some p"
    using assms u ok q unfolding parse_uri_def Let_def raw_def [symmetric] link_fields_def by simp
  then have "p = make_profile i (link_fields raw u q suggested)
      \<or> p = make_profile i (link_fields raw u q suggested @ spoof_fields uuid5 raw (the (spoof_meta (unquote (url_fragment u)))))"
    by (cases "spoof_meta (unquote (url_fragment u))") (auto split: if_splits)
  then show ?thesis by (rule that [OF u ok q])
qed

lemma set_all_front:
  assumes "distinct (map fst kvs)" "k \<notin> fst ` set rest" "map_of kvs k = Some v"
  shows "dict_get (dict_set_all (kvs @ rest) d) k = Some v"
proof -
  have app: "dict_set_all (kvs @ rest) d = dict_set_all rest (dict_set_all kvs d)"
    by (induction kvs d rule: dict_set_all.induct) simp_all
  have "dict_get (dict_set_all rest e) k = dict_get e k" for e :: "('a, 'b) dict"
    using assms(2) by (induction rest e rule: dict_set_all.induct) auto
  then show ?thesis using assms by (simp add: app dict_get_set_all)
qed

lemma spoof_keys: "fst ` set (spoof_fields uuid5 raw m) = {''id'', ''name'', ''address'', ''fallback_address'', ''origin'',
    ''country_code'', ''country_latency_ms'', ''verified_spoof'', ''spoof_fake_sni'', ''rotating_exit''}"
  by (simp add: spoof_fields_def Let_def)

lemma distinct_link_fields: "distinct (map fst (link_fields raw u q suggested))"
  by (simp add: link_fields_def Let_def)

lemma link_field:
  assumes "p = make_profile i (link_fields raw u q suggested)
      \<or> p = make_profile i (link_fields raw u q suggested @ spoof_fields uuid5 raw m)"
    "k \<notin> fst ` set (spoof_fields uuid5 raw m)" "map_of (link_fields raw u q suggested) k = Some v"
  shows "fld p k = v"
  using assms set_all_front [OF distinct_link_fields, of k _ raw u q suggested v]
  by (auto simp: make_profile_def fld_def dict_get_or_def) (metis append_Nil2 empty_iff empty_set image_empty option.simps(5))

lemma link_profile_fields:
  assumes "p = make_profile i (link_fields raw u q suggested)
      \<or> p = make_profile i (link_fields raw u q suggested @ spoof_fields uuid5 raw m)"
  shows "fld p ''source_uri'' = JStr raw" "fld p ''protocol'' = JStr (lower (url_scheme u))"
    "fld p ''config_host'' = JStr (hostname u)" "fld p ''config_port'' = JInt (or_port q)"
    "fld p ''sni'' = JStr (first_text (query_dict (url_query u)) SNI_KEYS (hostname u))"
    "fld p ''route_mode'' = JStr (case route_of_query (query_dict (url_query u)) of None \<Rightarrow> ''sni'' | Some r \<Rightarrow> r)"
  by (rule link_field [OF assms]; simp add: spoof_keys link_fields_def Let_def)+

lemma ech_of_query:
  "first_text q [''ech'', ''echcl'', ''echconfiglist''] [] \<noteq> []
    \<longleftrightarrow> query_get q ''ech'' \<noteq> [] \<or> query_get q ''echcl'' \<noteq> [] \<or> query_get q ''echconfiglist'' \<noteq> []"
  by simp

text \<open>
  C33: A link that is accepted describes an outbound: reading its parameters succeeds, gives the protocol,
  host, port and server name the profile shows, and the profile is an ECH route exactly when the outbound
  has an ECH configuration and the link is no Reality one.
\<close>

theorem parsed_link_has_its_outbound:
  assumes "parse_uri bracket_ok uuid5 i uri suggested = Some p"
  shows "\<exists>ob. parse_outbound bracket_ok p = Inr ob \<and> ob_protocol ob \<in> set PROTOCOLS
    \<and> fld p ''protocol'' = JStr (ob_protocol ob) \<and> fld p ''config_host'' = JStr (ob_host ob)
    \<and> fld p ''config_port'' = JInt (ob_port ob) \<and> fld p ''sni'' = JStr (ob_sni ob)
    \<and> (is_ech_route bracket_ok p \<longleftrightarrow> route_mode p \<noteq> ''reality-direct'' \<and> ob_ech ob \<noteq> [])"
proof -
  obtain u q raw m where u: "split_url bracket_ok raw = Inr u" "lower (url_scheme u) \<in> set PROTOCOLS" "hostname u \<noteq> []"
    "port u = Inr q" and p: "p = make_profile i (link_fields raw u q suggested)
      \<or> p = make_profile i (link_fields raw u q suggested @ spoof_fields uuid5 raw m)"
    using assms by (rule parse_uriE)
  note f = link_profile_fields [OF p]
  define query where "query = query_dict (url_query u)"
  have sni: "first_text query SNI_KEYS (hostname u) \<noteq> []" using u(3) by (rule first_text_neq)
  obtain ob where ob: "parse_outbound bracket_ok p = Inr ob" "ob_protocol ob = lower (url_scheme u)"
    "ob_host ob = hostname u" "ob_port ob = or_port q" "ob_sni ob = first_text query SNI_KEYS (hostname u)"
    "ob_ech ob = first_text query [''ech'', ''echcl'', ''echconfiglist''] []"
    using u sni unfolding parse_outbound_def Let_def text_of_field_def f by (simp flip: query_def)
  have has: "uri_has_ech bracket_ok (fld p ''source_uri'') \<longleftrightarrow> ob_ech ob \<noteq> []"
    using u(1) by (cases "raw = []") (simp_all add: uri_has_ech_def f or_else_def ob(6) query_def)
  have route: "route_mode p = (case route_of_query query of None \<Rightarrow> ''sni'' | Some r \<Rightarrow> r)"
    by (auto simp: route_mode_def f or_else_def py_str_def route_of_query_def query_def)
  have "route_mode p = ''ech-direct'' \<longrightarrow> ob_ech ob \<noteq> []"
    unfolding route ob(6) ech_of_query by (auto simp: route_of_query_def)
  then have "is_ech_route bracket_ok p \<longleftrightarrow> route_mode p \<noteq> ''reality-direct'' \<and> ob_ech ob \<noteq> []"
    by (auto simp: is_ech_route_def has)
  then show ?thesis using ob u f by (auto simp: query_def)
qed

abbreviation sample_link :: string where "sample_link \<equiv> ''vless://u@h.example:8443?ech=AEX''"

lemma sample_link_whole: "rstrip_set LINK_TAIL (strip sample_link) = sample_link"
proof -
  have "strip sample_link = sample_link"
    by (rule strip_stripped) (simp add: stripped_def is_space_def)
  then show ?thesis by (simp add: rstrip_set_def LINK_TAIL_def)
qed

lemma sample_link_parts:
  "url_scheme (urlsplit sample_link) = ''vless''" "url_netloc (urlsplit sample_link) = ''u@h.example:8443''"
  "url_fragment (urlsplit sample_link) = []"
  by code_simp+

lemma sample_link_host:
  "fst (host_info ''u@h.example:8443'') = ''h.example''" "snd (host_info ''u@h.example:8443'') = Some ''8443''"
  "str_partition ''%'' ''h.example'' = (''h.example'', [], [])" "lower ''h.example'' = ''h.example''"
  "lower ''vless'' = ''vless''"
  by code_simp+

lemma sample_link_more: "url_port ''8443'' = Some (Some 8443)" "spoof_meta [] = None"
  by (simp_all add: url_port_def is_ascii_digit_def digit_val_def spoof_meta_def upper_def)

lemma sample_link_parsed: "\<exists>p. parse_uri (\<lambda>_. False) (\<lambda>s. s) ''1'' sample_link False = Some p"
  by (simp add: parse_uri_def Let_def split_url_def netloc_ok_def sample_link_whole sample_link_parts hostname_def port_def
      sample_link_host sample_link_more PROTOCOLS_def unquote_def)

lemma parsed_link_has_its_outbound_witness:
  "\<exists>p ob. parse_uri (\<lambda>_. False) (\<lambda>s. s) ''1'' sample_link False = Some p
    \<and> parse_outbound (\<lambda>_. False) p = Inr ob \<and> fld p ''config_port'' = JInt (ob_port ob)"
proof -
  obtain p where p: "parse_uri (\<lambda>_. False) (\<lambda>s. s) ''1'' sample_link False = Some p"
    using sample_link_parsed by blast
  from parsed_link_has_its_outbound [OF this] p show ?thesis by blast
qed

end
