(* ===== verification/Profile_Store.thy ===== *)
theory Profile_Store
  imports Profiles
begin

text \<open>
  The profiles of class \<open>Storage\<close> (\<open>storage.py\<close>): loading them, putting the built-in ones back with what was
  learnt about them, the selected profile, and the whole constructor. The record holds the settings store,
  the profiles in memory and what is written of them. The built-in profiles (\<open>default_profiles\<close>) are an
  argument, \<open>originals\<close>, because their identifiers come from outside.
\<close>

record app_store =
  base :: store
  profiles :: "profile list"
  profiles_file :: json
  bookmarks :: json

definition save_profiles :: "app_store \<Rightarrow> app_store" where
  "save_profiles s = s\<lparr>profiles_file := JArr (map JObj (profiles s))\<rparr>"

definition load_profiles :: "(string \<Rightarrow> bool) \<Rightarrow> (nat \<Rightarrow> string) \<Rightarrow> profile list \<Rightarrow> json \<Rightarrow> (profile list \<times> json) res" where
  \<comment> \<open>the profiles, and the file as it is afterwards; what cannot be iterated is \<open>TypeError\<close>\<close>
  "load_profiles bracket_ok new_id originals raw = rbind (case raw of
       JArr xs \<Rightarrow> Inr (map (\<lambda>(i, x). profile_from_dict bracket_ok (new_id i) (dict_of x))
         (filter (\<lambda>(i, x). is_dict x) (enumerate 0 xs)))
     | JObj _ \<Rightarrow> Inr [] | JStr _ \<Rightarrow> Inr [] | _ \<Rightarrow> Inl TypeError) (\<lambda>ps.
     Inr (if ps = [] then (originals, JArr (map JObj originals)) else (ps, raw)))"

definition hashable :: "json \<Rightarrow> bool" where
  "hashable j = (case j of JArr _ \<Rightarrow> False | JObj _ \<Rightarrow> False | _ \<Rightarrow> True)"

definition is_direct :: "profile \<Rightarrow> bool" where
  \<comment> \<open>a profile of the user's own\<close>
  "is_direct p \<longleftrightarrow> fld p ''origin'' \<in> {JStr ''user'', JStr ''sni-maker''}"

definition cut_fragment :: "string \<Rightarrow> string" where
  \<comment> \<open>\<open>s.rsplit("#", 1)[0]\<close>\<close>
  "cut_fragment s = (if CHR ''#'' \<in> set s then fst (str_rpartition ''#'' s) else s)"

definition profile_text :: "profile \<Rightarrow> string \<Rightarrow> string" where
  "profile_text p k = strip (py_str (or_else (fld p k) (JStr [])))"

definition by_name :: "profile list \<Rightarrow> (string, profile) dict" where
  "by_name ps = dict_set_all (map (\<lambda>p. (casefold (profile_text p ''name''), p)) ps) []"

definition by_route :: "profile list \<Rightarrow> (string, profile) dict" where
  "by_route ps = dict_set_all (map (\<lambda>p. (cut_fragment (profile_text p ''source_uri''), p))
     (filter (\<lambda>p. profile_text p ''source_uri'' \<noteq> []) ps)) []"

definition LEARNT_FIELDS :: "string list" where
  "LEARNT_FIELDS = [''id'', ''last_ping_ok'', ''last_ping_ms'', ''verified_route'', ''spoof_fake_sni'']"

definition with_learnt :: "profile list \<Rightarrow> profile \<Rightarrow> profile" where
  \<comment> \<open>a built-in profile with what an earlier one of that name or route has learnt\<close>
  "with_learnt previous p = (
     case (case dict_get (by_name previous) (casefold (py_str (fld p ''name''))) of
         Some e \<Rightarrow> Some e
       | None \<Rightarrow> dict_get (by_route previous) (cut_fragment (py_str (fld p ''source_uri'')))) of
       None \<Rightarrow> p
     | Some e \<Rightarrow> dict_set_all (map (\<lambda>k. (k, fld e k)) LEARNT_FIELDS) p)"

definition id_text :: "store \<Rightarrow> string \<Rightarrow> string" where
  \<comment> \<open>\<open>str(self.settings.get(key, ""))\<close>\<close>
  "id_text s k = py_str (setting s k (JStr []))"

definition restore_original_suggested_profiles :: "profile list \<Rightarrow> app_store \<Rightarrow> app_store res" where
  "restore_original_suggested_profiles originals s = (
     if \<not> list_all (\<lambda>p. hashable (fld p ''origin'')) (profiles s) then Inl TypeError else
     let direct = filter is_direct (profiles s);
         previous_suggested = filter (\<lambda>p. \<not> is_direct p) (profiles s);
         restored = map (with_learnt previous_suggested) originals;
         ps = restored @ direct; retained_ids = map (\<lambda>p. fld p ''id'') ps in
     if \<not> list_all hashable retained_ids then Inl TypeError else
     let b = base s;
         b = (if JStr (id_text b ''selected_id'') \<in> set retained_ids then b
           else put ''selected_id'' (case restored of [] \<Rightarrow> JStr [] | p # _ \<Rightarrow> fld p ''id'') b);
         b = put ''selected_country_suggested'' (JStr ''ALL'') b;
         b = fold (\<lambda>k b. if startswith k ''working_profile_'' \<and> JStr (id_text b k) \<notin> set retained_ids
           then drop_key k b else b) (map fst (settings b)) b in
     Inr ((save_profiles (s\<lparr>profiles := ps\<rparr>))\<lparr>base := save_store b\<rparr>))"

definition migrate_verified_configs :: "profile list \<Rightarrow> app_store \<Rightarrow> app_store res" where
  "migrate_verified_configs originals s = rbind (version_of (base s) ''verified_configs_version'') (\<lambda>previous_version.
     if previous_version \<ge> 6 then Inr s
     else rbind (restore_original_suggested_profiles originals s) (\<lambda>s.
       Inr (s\<lparr>base := save_store (put ''verified_configs_version'' (JInt 6) (base s))\<rparr>)))"

definition selected_id :: "app_store \<Rightarrow> json" where
  "selected_id s = (let selected = setting (base s) ''selected_id'' (JStr []) in
     if list_ex (\<lambda>p. py_eq (fld p ''id'') selected) (profiles s) then selected
     else case profiles s of [] \<Rightarrow> JStr [] | p # _ \<Rightarrow> fld p ''id'')"

definition set_selected_id :: "string \<Rightarrow> app_store \<Rightarrow> app_store" where
  "set_selected_id v s = s\<lparr>base := save_store (put ''selected_id'' (JStr v) (base s))\<rparr>"

definition selected :: "app_store \<Rightarrow> profile option" where
  "selected s = find (\<lambda>p. py_eq (fld p ''id'') (selected_id s)) (profiles s)"

definition open_storage :: "(string \<Rightarrow> bool) \<Rightarrow> (nat \<Rightarrow> string) \<Rightarrow> profile list \<Rightarrow> obj \<Rightarrow> json \<Rightarrow> json \<Rightarrow> json \<Rightarrow> app_store res" where
  \<comment> \<open>\<open>__init__\<close>, from what the four files hold\<close>
  "open_storage bracket_ok new_id originals settings_json profiles_json bookmarks_json results_json = (
     let b = init_preferences \<lparr>settings = settings_json, settings_file = settings_json, scan_results = []\<rparr> in
     rbind (load_profiles bracket_ok new_id originals profiles_json) (\<lambda>(ps, file).
     rbind (migrate_verified_configs originals
         \<lparr>base = b, profiles = ps, profiles_file = file, bookmarks = bookmarks_json\<rparr>) (\<lambda>s.
     rbind (migrate_settings ((base s)\<lparr>scan_results := fst (migrate_scan_results results_json bookmarks_json)\<rparr>)) (\<lambda>b.
       Inr (s\<lparr>base := b\<rparr>)))))"


section \<open>Properties\<close>

definition stale_key :: "json list \<Rightarrow> store \<Rightarrow> string \<Rightarrow> bool" where
  \<comment> \<open>a remembered profile that is gone\<close>
  "stale_key ids b k \<longleftrightarrow> startswith k ''working_profile_'' \<and> JStr (id_text b k) \<notin> set ids"

lemma drop_stale_keys:
  "dict_get (settings (fold (\<lambda>k b. if stale_key ids b k then drop_key k b else b) ks b)) k
     = (if k \<in> set ks \<and> stale_key ids b k then None else dict_get (settings b) k)"
proof (induction ks arbitrary: b)
  case (Cons x ks)
  have other: "stale_key ids (drop_key x b) k = stale_key ids b k" if "k \<noteq> x"
    using that by (simp add: stale_key_def id_text_def setting_def drop_key_def)
  show ?case
  proof (cases "stale_key ids b x")
    case True
    then show ?thesis using Cons [of "drop_key x b"] other by (cases "k = x") (auto simp: drop_key_def)
  next
    case False
    then show ?thesis using Cons [of b] by auto
  qed
qed simp

lemma learnt_not_uri: "''source_uri'' \<notin> set LEARNT_FIELDS"
  by (simp add: LEARNT_FIELDS_def)

lemma fld_set_all_other: "k \<notin> fst ` set kvs \<Longrightarrow> fld (dict_set_all kvs p) k = fld p k"
  by (induction kvs p rule: dict_set_all.induct) auto

lemma learnt_link: "fld (with_learnt ps p) ''source_uri'' = fld p ''source_uri''"
  using learnt_not_uri unfolding with_learnt_def
  by (auto split: option.split simp: fld_set_all_other image_image)

text \<open>
  C34: Putting the built-in profiles back keeps every profile of the user, in order, behind the built-in
  ones, whose links are the original ones. The selected profile, where there are built-in ones, and the
  working profile of each carrier then name a profile that exists, and all of it is written. No other setting
  but the country shown is touched: in particular the tables of what was tested per profile (the multiplexer,
  the routes) keep their entries, those of built-in profiles that are gone too.
\<close>

theorem restoring_keeps_own_profiles:
  assumes "restore_original_suggested_profiles originals s = Inr s'"
  shows "(\<exists>front. profiles s' = front @ filter is_direct (profiles s)
        \<and> map (\<lambda>p. fld p ''source_uri'') front = map (\<lambda>p. fld p ''source_uri'') originals)
    \<and> (\<forall>k v. startswith k ''working_profile_'' \<and> dict_get (settings (base s')) k = Some v
        \<longrightarrow> JStr (py_str v) \<in> (\<lambda>p. fld p ''id'') ` set (profiles s'))
    \<and> (originals \<noteq> [] \<longrightarrow> (let v = setting (base s') ''selected_id'' (JStr []) in
        {v, JStr (py_str v)} \<inter> (\<lambda>p. fld p ''id'') ` set (profiles s') \<noteq> {}))
    \<and> (\<forall>k. \<not> startswith k ''working_profile_'' \<and> k \<notin> {''selected_id'', ''selected_country_suggested''}
        \<longrightarrow> dict_get (settings (base s')) k = dict_get (settings (base s)) k)
    \<and> profiles_file s' = JArr (map JObj (profiles s')) \<and> settings_file (base s') = settings (base s')"
proof -
  define restored where "restored = map (with_learnt (filter (\<lambda>p. \<not> is_direct p) (profiles s))) originals"
  define ps where "ps = restored @ filter is_direct (profiles s)"
  define ids where "ids = map (\<lambda>p. fld p ''id'') ps"
  define b1 where "b1 = (if JStr (id_text (base s) ''selected_id'') \<in> set ids then base s
    else put ''selected_id'' (case restored of [] \<Rightarrow> JStr [] | p # _ \<Rightarrow> fld p ''id'') (base s))"
  define b2 where "b2 = put ''selected_country_suggested'' (JStr ''ALL'') b1"
  define b3 where "b3 = fold (\<lambda>k b. if stale_key ids b k then drop_key k b else b) (map fst (settings b2)) b2"
  have ok: "list_all (\<lambda>p. hashable (fld p ''origin'')) (profiles s)" "list_all hashable ids"
    using assms unfolding restore_original_suggested_profiles_def Let_def restored_def [symmetric] ps_def [symmetric]
      ids_def [symmetric] by (auto split: if_splits)
  have s': "s' = (save_profiles (s\<lparr>profiles := ps\<rparr>))\<lparr>base := save_store b3\<rparr>"
    using assms ok unfolding restore_original_suggested_profiles_def Let_def restored_def [symmetric] ps_def [symmetric]
      ids_def [symmetric] b1_def [symmetric] b2_def [symmetric] stale_key_def [symmetric] b3_def [symmetric] by simp
  have get3: "dict_get (settings b3) k = (if stale_key ids b2 k then None else dict_get (settings b2) k)" for k
    using dict_get_None_iff [of "settings b2" k] by (auto simp: b3_def drop_stale_keys)
  have links: "map (\<lambda>p. fld p ''source_uri'') restored = map (\<lambda>p. fld p ''source_uri'') originals"
    by (simp add: restored_def comp_def learnt_link)
  have work: "JStr (py_str v) \<in> set ids"
    if "startswith k ''working_profile_''" "dict_get (settings b3) k = Some v" for k v
    using that by (auto simp: get3 stale_key_def id_text_def setting_def dict_get_or_def split: if_splits)
  have "\<not> stale_key ids b2 ''selected_id''" by (simp add: stale_key_def startswith_def)
  then have sel: "setting b3 ''selected_id'' (JStr []) = setting b1 ''selected_id'' (JStr [])"
    by (simp add: setting_def dict_get_or_def get3) (simp add: b2_def put_def)
  have "{setting b1 ''selected_id'' (JStr []), JStr (py_str (setting b1 ''selected_id'' (JStr [])))} \<inter> set ids \<noteq> {}"
    if o: "originals \<noteq> []"
  proof (cases "JStr (id_text (base s) ''selected_id'') \<in> set ids")
    case True
    then show ?thesis by (auto simp: b1_def id_text_def)
  next
    case False
    obtain p rest where "restored = p # rest" using o by (cases originals) (auto simp: restored_def)
    with False show ?thesis by (auto simp: b1_def ids_def ps_def)
  qed
  moreover have "dict_get (settings b3) k = dict_get (settings (base s)) k"
    if "\<not> startswith k ''working_profile_''" "k \<notin> {''selected_id'', ''selected_country_suggested''}" for k
    using that by (simp add: get3 stale_key_def b2_def b1_def put_def)
  moreover have "profiles s' = ps" "base s' = save_store b3" "profiles_file s' = JArr (map JObj ps)"
    by (simp_all add: s' save_profiles_def)
  moreover have "set ids = (\<lambda>p. fld p ''id'') ` set ps" by (simp add: ids_def)
  ultimately show ?thesis
    using links work sel by (simp add: Let_def) (auto simp: ps_def)
qed

definition sample_profiles :: app_store where
  "sample_profiles = \<lparr>base = fresh_store, profiles = [make_profile ''a'' [(''origin'', JStr ''user'')],
     make_profile ''b'' [(''origin'', JStr ''builtin'')]], profiles_file = JNull, bookmarks = JNull\<rparr>"

lemma restoring_keeps_own_profiles_witness:
  "\<exists>s' front. restore_original_suggested_profiles [make_profile ''c'' []] sample_profiles = Inr s'
    \<and> profiles s' = front @ filter is_direct (profiles sample_profiles)"
proof -
  have origins: "list_all (\<lambda>p. hashable (fld p ''origin'')) (profiles sample_profiles)"
    by (simp add: sample_profiles_def make_profile_def hashable_def PROFILE_DEFAULTS_def fld_def dict_get_or_def dict_get_def)
  have ids: "list_all (\<lambda>p. hashable (fld p ''id'')) (map (with_learnt (filter (\<lambda>p. \<not> is_direct p) (profiles sample_profiles)))
      [make_profile ''c'' []] @ filter is_direct (profiles sample_profiles))"
    by code_simp
  have "\<exists>s'. restore_original_suggested_profiles [make_profile ''c'' []] sample_profiles = Inr s'"
    using origins ids by (simp add: restore_original_suggested_profiles_def Let_def list_all_iff)
  then show ?thesis using restoring_keeps_own_profiles by blast
qed

end
