(* ===== verification/Xray_Config.thy ===== *)
theory Xray_Config
  imports Profile_Store
begin

text \<open>
  The configuration of Xray (\<open>build_xray_config\<close> of \<open>engine.py\<close>), the plan that sends an ECH route through
  the pattern core (\<open>plan_ech_via_pattern\<close>) and the choice of the address Xray dials
  (\<open>resolve_xray_upstream\<close>). The answers of the resolver, the text form of an IP address and \<open>json.loads\<close>
  are arguments; a configuration is the JSON value that is written to the file.
\<close>

section \<open>ECH through the pattern core\<close>

definition ech_via_pattern_enabled :: "string \<Rightarrow> bool \<Rightarrow> bool" where
  \<comment> \<open>the environment variable wins over the setting\<close>
  "ech_via_pattern_enabled env saved = (let raw = lower (strip env) in
     if raw \<in> {''1'', ''true'', ''yes'', ''on''} then True
     else if raw \<in> {''0'', ''false'', ''no'', ''off''} then False else saved)"

definition is_global_v4 :: "nat list \<Rightarrow> bool" where
  "is_global_v4 os \<longleftrightarrow> \<not> in_subnet (ipv4_num os) (quad 100 64 0 0, 10) \<and> \<not> is_private os"

definition own_edge_of :: "string \<Rightarrow> string" where
  \<comment> \<open>the public IPv4 address, or nothing\<close>
  "own_edge_of address = (case parse_ipv4 (strip address) of
     None \<Rightarrow> [] | Some os \<Rightarrow> if is_global_v4 os then ipv4_text os else [])"

definition name_text :: "json \<Rightarrow> string" where
  \<comment> \<open>\<open>str(x or "").strip().lower()\<close>\<close>
  "name_text j = lower (strip (py_str (or_else j (JStr []))))"

definition real_names :: "profile \<Rightarrow> link_outbound \<Rightarrow> string set" where
  "real_names profile ob = {lower (strip (ob_sni ob)), lower (strip (ob_host_header ob)), name_text (fld profile ''sni'')} - {[]}"

definition preset_fake :: "tuning \<Rightarrow> string" where
  \<comment> \<open>of the carrier's preset; nothing when the carrier is no text\<close>
  "preset_fake t = (case fld t ''carrier_mode'' of
     JStr c \<Rightarrow> py_str (fld (carrier_preset c) ''pattern_fake_sni'')
   | v \<Rightarrow> if truthy v then [] else py_str (fld (carrier_preset []) ''pattern_fake_sni''))"

definition choose_fake_sni :: "string \<Rightarrow> tuning \<Rightarrow> string set \<Rightarrow> string" where
  \<comment> \<open>\<open>env\<close> is the variable \<open>UAC_ECH_PATTERN_FAKE_SNI\<close>\<close>
  "choose_fake_sni env t names = (
     let fake = strip env in
     if fake \<noteq> [] then fake else
     let fake = strip (py_str (or_else (fld t ''pattern_fake_sni'') (JStr []))) in
     if fake \<noteq> [] \<and> lower fake \<notin> names then fake else
     let fake = preset_fake t in
     if fake \<noteq> [] \<and> lower fake \<notin> names then fake
     else py_str (fld TUNING_DEFAULTS ''pattern_fake_sni''))"

definition comma_list :: "json \<Rightarrow> string list" where
  "comma_list j = filter (\<lambda>s. s \<noteq> []) (map strip (split_on CHR '',''
     (replace_char CHR '';'' '','' (py_str (or_else j (JStr []))))))"

definition plan_ech_via_pattern :: "string \<Rightarrow> profile \<Rightarrow> tuning \<Rightarrow> link_outbound \<Rightarrow> string \<Rightarrow> (profile \<times> tuning) option res" where
  "plan_ech_via_pattern env profile t ob upstream_address = (
     if ob_ech ob = [] \<or> lower (ob_security ob) \<noteq> ''tls'' then Inr None
     else if route_mode profile = ''reality-direct'' then Inr None
     else (
       let own_edge = own_edge_of (if upstream_address \<noteq> [] then upstream_address else ob_host ob) in
       rbind (if own_edge \<noteq> [] then Inr (if ob_port ob = 0 then 443 else ob_port ob)
              else py_int_of (or_else (fld profile ''port'') (JInt 443))) (\<lambda>edge_port.
         let fake = choose_fake_sni env t (real_names profile ob);
             connect = strip (py_str (or_else (fld t ''pattern_connect_ip'') (JStr [])));
             fallbacks = comma_list (fld t ''pattern_fallback_ips'');
             fallbacks = (if own_edge \<noteq> [] then uniq (filter (\<lambda>e. e \<noteq> [] \<and> e \<noteq> own_edge) (connect # fallbacks))
               else fallbacks);
             connect = (if own_edge \<noteq> [] then own_edge else connect) in
         Inr (Some (dict_set_all [(''config_port'', JInt FRAGMENT_PORT), (''port'', JInt edge_port)] profile,
           dict_set_all [(''pattern_fake_sni'', JStr fake), (''pattern_connect_ip'', JStr connect),
             (''pattern_fallback_ips'', JStr (join '','' fallbacks))] t)))))"

section \<open>The address that is dialled\<close>

fun pick_address :: "(string \<Rightarrow> string option) \<Rightarrow> string list \<Rightarrow> (bool \<times> string) list \<Rightarrow> string res" where
  \<comment> \<open>the answers of \<open>getaddrinfo\<close>, each with whether it is of family INET\<close>
  "pick_address ip_text seen [] = (case seen of [] \<Rightarrow> Inl RuntimeError | a # _ \<Rightarrow> Inr a)"
| "pick_address ip_text seen ((inet, sockaddr) # answers) = (
     case ip_text (fst (str_partition ''%'' sockaddr)) of
       None \<Rightarrow> pick_address ip_text seen answers
     | Some a \<Rightarrow> (if inet then Inr a
         else pick_address ip_text (if a \<in> set seen then seen else seen @ [a]) answers))"

definition resolve_xray_upstream ::
    "(string \<Rightarrow> string option) \<Rightarrow> (string \<Rightarrow> int \<Rightarrow> (bool \<times> string) list res) \<Rightarrow> link_outbound \<Rightarrow> string res" where
  \<comment> \<open>\<open>ip_text\<close>: \<open>str(ipaddress.ip_address(s))\<close>, nothing for the \<open>ValueError\<close>\<close>
  "resolve_xray_upstream ip_text getaddrinfo ob = (let host = strip (ob_host ob) in
     case ip_text host of Some a \<Rightarrow> Inr a
     | None \<Rightarrow> rbind (getaddrinfo host (ob_port ob)) (pick_address ip_text []))"

section \<open>The configuration\<close>

definition rule_to :: "(string \<times> json) \<Rightarrow> string \<Rightarrow> json" where
  "rule_to condition tag = JObj [(''type'', JStr ''field''), condition, (''outboundTag'', JStr tag)]"

definition iran_direct_rules :: "json list" where
  "iran_direct_rules = [rule_to (''ip'', strs [''geoip:private'']) ''direct'',
     rule_to (''domain'', strs [''geosite:category-ir'', ''regexp:'' @ [CHR 0x5C] @ ''.ir$'']) ''direct'',
     rule_to (''ip'', strs [''geoip:ir'']) ''direct'']"

record xray_request =
  xr_bypass :: "string list"
  xr_upstream :: string
  xr_socks_port :: int
  xr_http_port :: int
  xr_direct_edge :: "bool option"
  xr_ech_config :: string
  xr_outbound_port :: int \<comment> \<open>0 when not given\<close>

definition inbounds_of :: "xray_request \<Rightarrow> bool \<Rightarrow> json list" where
  "inbounds_of r sniff = (let sniffing = (if sniff then [(''sniffing'', JObj [(''enabled'', JBool True),
       (''destOverride'', strs [''http'', ''tls'']), (''routeOnly'', JBool True)])] else []) in
     [JObj ([(''listen'', JStr ''127.0.0.1''), (''port'', JInt (xr_socks_port r)), (''protocol'', JStr ''socks''),
        (''tag'', JStr ''socks-in''), (''settings'', JObj [(''auth'', JStr ''noauth''), (''udp'', JBool True),
        (''ip'', JStr ''127.0.0.1'')])] @ sniffing),
      JObj ([(''listen'', JStr ''127.0.0.1''), (''port'', JInt (xr_http_port r)), (''protocol'', JStr ''http''),
        (''tag'', JStr ''http-in''), (''settings'', JObj [(''allowTransparent'', JBool False)])] @ sniffing)])"

definition dial_address :: "link_outbound \<Rightarrow> xray_request \<Rightarrow> json" where
  "dial_address ob r = JStr (if xr_upstream r \<noteq> [] then xr_upstream r else ob_host ob)"

definition server_settings :: "link_outbound \<Rightarrow> xray_request \<Rightarrow> int \<Rightarrow> obj res" where
  "server_settings ob r outbound_port = (
     if ob_protocol ob = ''trojan'' then
       Inr [(''servers'', JArr [JObj [(''address'', dial_address ob r), (''port'', JInt outbound_port),
         (''password'', JStr (ob_user ob))]])]
     else if ob_protocol ob = ''vless'' then
       Inr [(''vnext'', JArr [JObj [(''address'', dial_address ob r), (''port'', JInt outbound_port),
         (''users'', JArr [JObj ([(''id'', JStr (ob_user ob)), (''encryption'', JStr (ob_encryption ob))]
           @ (if ob_flow ob = [] then [] else [(''flow'', JStr (ob_flow ob))]))])]])]
     else if ob_protocol ob = ''vmess'' then
       Inr [(''vnext'', JArr [JObj [(''address'', dial_address ob r), (''port'', JInt (ob_port ob)),
         (''users'', JArr [JObj [(''id'', JStr (ob_user ob)), (''alterId'', JInt (ob_alter_id ob)),
           (''security'', JStr (ob_user_security ob))]])]])]
     else Inl ValueError)"

definition tls_settings :: "bool \<Rightarrow> bool \<Rightarrow> link_outbound \<Rightarrow> xray_request \<Rightarrow> obj" where
  \<comment> \<open>for the carrier MCI or not, for a built-in profile or not\<close>
  "tls_settings mci builtin ob r = (let web = (ob_network ob \<in> {''ws'', ''httpupgrade''}) in
     [(''serverName'', JStr (ob_sni ob))]
     @ (if mci \<and> web then [(''alpn'', strs [''http/1.1''])]
        else if ob_alpn ob \<noteq> [] then [(''alpn'', strs (ob_alpn ob))] else [])
     @ (if mci \<and> builtin \<and> web then [(''fingerprint'', JStr ''chrome'')]
        else if ob_fingerprint ob \<noteq> [] then [(''fingerprint'', JStr (ob_fingerprint ob))] else [])
     @ (if ob_ech ob = [] then []
        else [(''echConfigList'', JStr (if xr_ech_config r \<noteq> [] then xr_ech_config r else ob_ech ob))])
     @ (if ob_pinned ob = [] then [] else [(''pinnedPeerCertSha256'', JStr (ob_pinned ob))])
     @ (if ob_verify_name ob \<noteq> [] then [(''verifyPeerCertByName'', JStr (ob_verify_name ob))]
        else if lower (ob_sni ob) \<noteq> lower (ob_host_header ob)
        then [(''verifyPeerCertByName'', JStr (ob_host_header ob @ '','' @ ob_sni ob))] else []))"

definition reality_settings :: "link_outbound \<Rightarrow> obj" where
  "reality_settings ob = [(''serverName'', JStr (ob_sni ob)),
     (''fingerprint'', JStr (if ob_fingerprint ob \<noteq> [] then ob_fingerprint ob else ''chrome'')),
     (''publicKey'', JStr (ob_reality_public_key ob)), (''shortId'', JStr (ob_reality_short_id ob)),
     (''spiderX'', JStr (ob_reality_spider_x ob))]"

definition transport_settings :: "(string \<Rightarrow> json option) \<Rightarrow> link_outbound \<Rightarrow> obj res" where
  \<comment> \<open>\<open>loads\<close> is \<open>json.loads\<close>, nothing for its errors\<close>
  "transport_settings loads ob = (let n = ob_network ob; path = (''path'', JStr (ob_path ob));
       host = (''host'', JStr (ob_host_header ob)) in
     if n = ''httpupgrade'' then Inr [(''httpupgradeSettings'', JObj [path, host])]
     else if n = ''ws'' then Inr [(''wsSettings'', JObj [path, host,
       (''headers'', JObj [(''Host'', JStr (ob_host_header ob))])])]
     else if n = ''grpc'' then Inr [(''grpcSettings'', JObj ((''serviceName'', JStr (ob_service_name ob))
       # (if ob_authority ob = [] then [] else [(''authority'', JStr (ob_authority ob))])))]
     else if n = ''xhttp'' then Inr [(''xhttpSettings'', JObj ([path, host]
       @ (if ob_mode ob = [] then [] else [(''mode'', JStr (ob_mode ob))])
       @ (if ob_extra ob = [] then [] else case loads (ob_extra ob) of
            Some (JObj extra) \<Rightarrow> [(''extra'', JObj extra)] | _ \<Rightarrow> [])))]
     else if n = ''raw'' then Inr [(''rawSettings'', JObj [(''header'', JObj [(''type'',
       JStr (if ob_header_type ob \<noteq> [] then ob_header_type ob else ''none''))])])]
     else Inl ValueError)"

definition FINALMASK :: obj where
  "FINALMASK = [(''finalmask'', JObj [(''tcp'', JArr [JObj [(''type'', JStr ''fragment''),
      (''settings'', JObj [(''packets'', JStr ''tlshello''), (''length'', JStr ''5-5''), (''delay'', JStr ''0-0''),
       (''maxSplit'', JStr ''2-2'')])]])]),
    (''sockopt'', JObj [(''domainStrategy'', JStr ''UseIPv4''), (''tcpKeepAliveInterval'', JInt 1),
      (''tcpKeepAliveIdle'', JInt 11)])]"

definition log_level_of :: "tuning \<Rightarrow> string" where
  "log_level_of t = (let level = lower (strip (py_str (or_else (fld t ''log_level'') (JStr ''normal'')))) in
     if level = ''debug'' then ''debug'' else if level \<in> {''verbose'', ''info''} then ''info''
     else if level = ''error'' then ''error'' else if level = ''none'' then ''none'' else ''warning'')"

definition mux_settings :: "tuning \<Rightarrow> link_outbound \<Rightarrow> obj res" where
  "mux_settings t ob = (
     if truthy (fld t ''xray_mux_enabled'') \<and> ob_security ob \<noteq> ''reality'' \<and> ob_ech ob = [] \<and> ob_flow ob = [] then
       rbind (py_int_of (fld t ''xray_mux_concurrency'')) (\<lambda>n. let c = JInt (max 1 (min 32 n)) in
         Inr [(''mux'', JObj [(''enabled'', JBool True), (''concurrency'', c), (''xudpConcurrency'', c),
           (''xudpProxyUDP443'', JStr ''allow'')])])
     else Inr [])"

definition stream_settings :: "(string \<Rightarrow> json option) \<Rightarrow> bool \<Rightarrow> bool \<Rightarrow> bool \<Rightarrow> link_outbound \<Rightarrow> xray_request \<Rightarrow> obj res" where
  "stream_settings loads mci builtin masked ob r = rbind (transport_settings loads ob) (\<lambda>transport.
     Inr ([(''network'', JStr (ob_network ob)), (''security'', JStr (ob_security ob))]
       @ (if ob_security ob = ''reality'' then [(''realitySettings'', JObj (reality_settings ob))]
          else if ob_security ob = ''tls'' then [(''tlsSettings'', JObj (tls_settings mci builtin ob r))] else [])
       @ transport @ (if masked then FINALMASK else [])))"

definition routing_rules :: "tuning \<Rightarrow> xray_request \<Rightarrow> json list" where
  "routing_rules t r = (if xr_bypass r = [] then [] else [rule_to (''process'', strs (xr_bypass r)) ''direct''])
     @ (if truthy (fld t ''iran_direct'') then iran_direct_rules else [])"

definition xray_outbounds :: "obj \<Rightarrow> json list" where
  "xray_outbounds proxy = [JObj proxy, JObj [(''tag'', JStr ''direct''), (''protocol'', JStr ''freedom'')],
     JObj [(''tag'', JStr ''block''), (''protocol'', JStr ''blackhole'')]]"

definition build_xray_config ::
    "(string \<Rightarrow> bool) \<Rightarrow> (string \<Rightarrow> json option) \<Rightarrow> profile \<Rightarrow> tuning \<Rightarrow> xray_request \<Rightarrow> obj res" where
  "build_xray_config bracket_ok loads profile t r = rbind (parse_outbound bracket_ok profile) (\<lambda>ob.
     let mci = (fld t ''carrier_mode'' = JStr ''mci''); builtin = (fld profile ''origin'' = JStr ''builtin'');
         masked = (case xr_direct_edge r of None \<Rightarrow> mci \<and> builtin \<and> ob_security ob = ''tls'' | Some b \<Rightarrow> b) in
     rbind (if masked then py_int_of (fld profile ''port'') else Inr (ob_port ob)) (\<lambda>configured_port.
     rbind (server_settings ob r (if xr_outbound_port r \<noteq> 0 then xr_outbound_port r else configured_port)) (\<lambda>server.
     rbind (stream_settings loads mci builtin masked ob r) (\<lambda>stream.
     rbind (mux_settings t ob) (\<lambda>mux.
       let proxy = [(''tag'', JStr ''proxy''), (''protocol'', JStr (ob_protocol ob)), (''settings'', JObj server),
             (''streamSettings'', JObj stream)] @ mux in
       Inr [(''log'', JObj [(''loglevel'', JStr (log_level_of t))]),
         (''inbounds'', JArr (inbounds_of r (truthy (fld t ''iran_direct'')))),
         (''outbounds'', JArr (xray_outbounds proxy)),
         (''routing'', JObj [(''domainStrategy'', JStr ''AsIs''), (''rules'', JArr (routing_rules t r))])])))))"


section \<open>Properties\<close>

definition items :: "json \<Rightarrow> json list" where
  "items j = (case j of JArr xs \<Rightarrow> xs | _ \<Rightarrow> [])"

definition val :: "json \<Rightarrow> string \<Rightarrow> json" where
  \<comment> \<open>a value of a configuration\<close>
  "val j k = dict_get_or (dict_of j) k JNull"

definition proxy_outbound :: "obj \<Rightarrow> json" where
  "proxy_outbound config = hd (items (val (JObj config) ''outbounds''))"

definition dialled_servers :: "obj \<Rightarrow> json list" where
  "dialled_servers config = items (val (val (proxy_outbound config) ''settings'') ''servers'')
     @ items (val (val (proxy_outbound config) ''settings'') ''vnext'')"

lemma val_simps [simp]: "val (JObj d) k = dict_get_or d k JNull" "items (JArr xs) = xs" "items JNull = []" "val JNull k = JNull"
  by (simp_all add: val_def items_def dict_of_def dict_get_or_def)

lemma dict_get_or_Cons [simp]: "dict_get_or ((k', v) # d) k x = (if k = k' then v else dict_get_or d k x)"
  by (simp add: dict_get_or_def dict_get_def)

lemma dict_get_or_Nil [simp]: "dict_get_or [] k x = x"
  by (simp add: dict_get_or_def)

lemma build_xray_configE:
  assumes "build_xray_config bracket_ok loads profile t r = Inr config"
  obtains ob masked configured server stream mux where "parse_outbound bracket_ok profile = Inr ob"
    "(if masked then py_int_of (fld profile ''port'') else Inr (ob_port ob)) = Inr configured"
    "masked \<longleftrightarrow> (case xr_direct_edge r of Some b \<Rightarrow> b | None \<Rightarrow> fld t ''carrier_mode'' = JStr ''mci''
       \<and> fld profile ''origin'' = JStr ''builtin'' \<and> ob_security ob = ''tls'')"
    "server_settings ob r (if xr_outbound_port r \<noteq> 0 then xr_outbound_port r else configured) = Inr server"
    "stream_settings loads (fld t ''carrier_mode'' = JStr ''mci'') (fld profile ''origin'' = JStr ''builtin'') masked ob r = Inr stream"
    "mux_settings t ob = Inr mux"
    "config = [(''log'', JObj [(''loglevel'', JStr (log_level_of t))]),
         (''inbounds'', JArr (inbounds_of r (truthy (fld t ''iran_direct'')))),
         (''outbounds'', JArr (xray_outbounds ([(''tag'', JStr ''proxy''), (''protocol'', JStr (ob_protocol ob)),
            (''settings'', JObj server), (''streamSettings'', JObj stream)] @ mux))),
         (''routing'', JObj [(''domainStrategy'', JStr ''AsIs''), (''rules'', JArr (routing_rules t r))])]"
proof -
  obtain ob where ob: "parse_outbound bracket_ok profile = Inr ob"
    using assms by (auto simp: build_xray_config_def rbind_eq_Inr_iff)
  define masked where "masked = (case xr_direct_edge r of None \<Rightarrow> fld t ''carrier_mode'' = JStr ''mci''
      \<and> fld profile ''origin'' = JStr ''builtin'' \<and> ob_security ob = ''tls'' | Some b \<Rightarrow> b)"
  show ?thesis
    using assms ob unfolding build_xray_config_def Let_def rbind_eq_Inr_iff
    by (elim exE conjE) (rule that [of ob masked], auto simp: masked_def split: option.split)
qed

lemma proxy_outbound_at:
  "proxy_outbound [(''log'', l), (''inbounds'', i), (''outbounds'', JArr (xray_outbounds p)), (''routing'', u)] = JObj p"
  by (simp add: proxy_outbound_def xray_outbounds_def)

text \<open>
  C35: The configuration of Xray listens on the loopback address alone, on the two ports of the engine, has
  exactly the outbounds proxy, direct and block, and every rule names one of them.
\<close>

theorem xray_config_is_local_and_routable:
  assumes "build_xray_config bracket_ok loads profile t r = Inr config"
  shows "map (\<lambda>i. (val i ''listen'', val i ''port'')) (items (val (JObj config) ''inbounds''))
      = [(JStr ''127.0.0.1'', JInt (xr_socks_port r)), (JStr ''127.0.0.1'', JInt (xr_http_port r))]
    \<and> map (\<lambda>ob. val ob ''tag'') (items (val (JObj config) ''outbounds'')) = [JStr ''proxy'', JStr ''direct'', JStr ''block'']
    \<and> (\<forall>rule\<in>set (items (val (val (JObj config) ''routing'') ''rules'')). val rule ''outboundTag'' = JStr ''direct'')"
  using assms
  by (rule build_xray_configE)
    (auto simp: inbounds_of_def xray_outbounds_def routing_rules_def iran_direct_rules_def rule_to_def Let_def)

lemma server_settings_dial:
  assumes "server_settings ob r n = Inr server"
  shows "map (\<lambda>s. (val s ''address'', val s ''port'')) (items (val (JObj server) ''servers'') @ items (val (JObj server) ''vnext''))
    = [(dial_address ob r, JInt (if ob_protocol ob = ''vmess'' then ob_port ob else n))]"
  using assms by (auto simp: server_settings_def dict_get_or_def [of "[]"] split: if_splits)

lemma no_mux_for_ech: "ob_ech ob \<noteq> [] \<Longrightarrow> mux_settings t ob = Inr []"
  by (simp add: mux_settings_def)


lemma dict_get_append: "dict_get (a @ b) k = (case dict_get a k of None \<Rightarrow> dict_get b k | Some v \<Rightarrow> Some v)"
  by (simp add: dict_get_def map_add_def split: option.splits)

lemma dict_get_Cons: "dict_get ((k', v) # d) k = (if k = k' then Some v else dict_get d k)"
  by (simp add: dict_get_def)

lemma ech_in_tls_settings:
  assumes "ob_ech ob \<noteq> []"
  shows "dict_get (tls_settings mci builtin ob r) ''echConfigList''
    = Some (JStr (if xr_ech_config r \<noteq> [] then xr_ech_config r else ob_ech ob))"
  using assms by (simp add: tls_settings_def Let_def dict_get_append dict_get_Cons split: option.split)

lemma parsed_security: "parse_outbound bracket_ok p = Inr ob \<Longrightarrow> lower (ob_security ob) = ob_security ob"
  by (auto simp: parse_outbound_def Let_def rbind_eq_Inr_iff)

lemma tls_in_stream:
  assumes "stream_settings loads mci builtin masked ob r = Inr stream" "ob_security ob = ''tls''"
  shows "dict_get stream ''tlsSettings'' = Some (JObj (tls_settings mci builtin ob r))"
  using assms by (auto simp: stream_settings_def rbind_eq_Inr_iff dict_get_append dict_get_Cons)

lemma plan_ech_some:
  assumes "plan_ech_via_pattern env profile t ob upstream = Inr (Some (cp, ct))"
  shows "ob_ech ob \<noteq> []" "lower (ob_security ob) = ''tls''" "fld cp ''config_port'' = JInt FRAGMENT_PORT"
    "fld ct ''pattern_fake_sni'' = JStr (choose_fake_sni env t (real_names profile ob))"
    "\<exists>ips. fld ct ''pattern_fallback_ips'' = JStr ips"
  using assms by (auto simp: plan_ech_via_pattern_def Let_def rbind_eq_Inr_iff split: if_splits)

text \<open>
  C24: An ECH route that is sent through the pattern core dials the loopback address, and there the port of
  the core, unless the route is VMess: then the port is the one of its link, which is not the core's. The ECH
  configuration is handed on as it is, and the multiplexer is off.
\<close>

theorem ech_route_dials_the_core:
  assumes "plan_ech_via_pattern env profile t ob upstream = Inr (Some (cp, ct))"
    "parse_outbound bracket_ok profile = Inr ob"
    "xr_upstream r = ''127.0.0.1''" "fld cp ''config_port'' = JInt (xr_outbound_port r)"
    "build_xray_config bracket_ok loads profile t r = Inr config"
  shows "map (\<lambda>s. (val s ''address'', val s ''port'')) (dialled_servers config)
      = [(JStr ''127.0.0.1'', JInt (if ob_protocol ob = ''vmess'' then ob_port ob else 40443))]
    \<and> val (val (val (proxy_outbound config) ''streamSettings'') ''tlsSettings'') ''echConfigList''
        = JStr (if xr_ech_config r \<noteq> [] then xr_ech_config r else ob_ech ob)
    \<and> dict_get (dict_of (proxy_outbound config)) ''mux'' = None"
proof -
  note plan = plan_ech_some [OF assms(1)]
  have port: "xr_outbound_port r = 40443" using plan(3) assms(4) by (simp add: FRAGMENT_PORT_def)
  have tls: "ob_security ob = ''tls''" using plan(2) parsed_security [OF assms(2)] by simp
  obtain server stream masked where b:
    "server_settings ob r 40443 = Inr server"
    "stream_settings loads (fld t ''carrier_mode'' = JStr ''mci'') (fld profile ''origin'' = JStr ''builtin'') masked ob r = Inr stream"
    "proxy_outbound config = JObj [(''tag'', JStr ''proxy''), (''protocol'', JStr (ob_protocol ob)),
            (''settings'', JObj server), (''streamSettings'', JObj stream)]"
    using assms(5)
  proof (rule build_xray_configE)
    fix ob' masked configured server stream mux
    assume "parse_outbound bracket_ok profile = Inr ob'"
    then have ob': "ob' = ob" using assms(2) by simp
    assume *: "server_settings ob' r (if xr_outbound_port r \<noteq> 0 then xr_outbound_port r else configured) = Inr server"
      "stream_settings loads (fld t ''carrier_mode'' = JStr ''mci'') (fld profile ''origin'' = JStr ''builtin'') masked ob' r
        = Inr stream" "mux_settings t ob' = Inr mux"
      "config = [(''log'', JObj [(''loglevel'', JStr (log_level_of t))]),
         (''inbounds'', JArr (inbounds_of r (truthy (fld t ''iran_direct'')))),
         (''outbounds'', JArr (xray_outbounds ([(''tag'', JStr ''proxy''), (''protocol'', JStr (ob_protocol ob')),
            (''settings'', JObj server), (''streamSettings'', JObj stream)] @ mux))),
         (''routing'', JObj [(''domainStrategy'', JStr ''AsIs''), (''rules'', JArr (routing_rules t r))])]"
    then have "mux = []" using no_mux_for_ech plan(1) ob' by auto
    then have "proxy_outbound config = JObj [(''tag'', JStr ''proxy''), (''protocol'', JStr (ob_protocol ob)),
            (''settings'', JObj server), (''streamSettings'', JObj stream)]"
      using *(4) ob' by (simp add: proxy_outbound_at)
    with * ob' port show thesis by (intro that) simp_all
  qed
  have "val (JObj stream) ''tlsSettings'' = JObj (tls_settings (fld t ''carrier_mode'' = JStr ''mci'')
      (fld profile ''origin'' = JStr ''builtin'') ob r)"
    using tls_in_stream [OF b(2) tls] by (simp add: dict_get_or_def)
  then have "val (val (JObj stream) ''tlsSettings'') ''echConfigList''
      = JStr (if xr_ech_config r \<noteq> [] then xr_ech_config r else ob_ech ob)"
    using ech_in_tls_settings [OF plan(1)] by (simp add: dict_get_or_def)
  moreover have "map (\<lambda>s. (val s ''address'', val s ''port'')) (dialled_servers config)
      = [(JStr ''127.0.0.1'', JInt (if ob_protocol ob = ''vmess'' then ob_port ob else 40443))]"
    using server_settings_dial [OF b(1)] assms(3) by (simp add: dialled_servers_def b(3) dial_address_def)
  ultimately show ?thesis by (simp add: b(3) dict_of_def dict_get_def)
qed

lemma vmess_ignores_the_core:
  "ob_protocol ob = ''vmess'' \<Longrightarrow> server_settings ob r n = Inr server \<Longrightarrow>
    map (\<lambda>s. val s ''port'') (items (val (JObj server) ''vnext'')) = [JInt (ob_port ob)]"
  by (auto simp: server_settings_def split: if_splits)

subsection \<open>The fake name\<close>

text \<open>
  C36: Without the environment variable, the fake name that is sent in the clear before an ECH connection is
  not the name of the hidden server, unless that is the default fake name itself.
\<close>

theorem ech_fake_name_is_not_the_real_one:
  assumes "plan_ech_via_pattern [] profile t ob upstream = Inr (Some (cp, ct))"
    "''chatgpt.com'' \<notin> real_names profile ob"
  shows "\<exists>fake. fld ct ''pattern_fake_sni'' = JStr fake \<and> fake \<noteq> [] \<and> lower fake \<notin> real_names profile ob"
proof -
  have d: "py_str (fld TUNING_DEFAULTS ''pattern_fake_sni'') = ''chatgpt.com''" "lower ''chatgpt.com'' = ''chatgpt.com''"
    by code_simp+
  have "choose_fake_sni [] t names \<noteq> [] \<and> lower (choose_fake_sni [] t names) \<notin> names" if "''chatgpt.com'' \<notin> names" for names
    using that by (auto simp: choose_fake_sni_def Let_def d)
  with plan_ech_some(4) [OF assms(1)] assms(2) show ?thesis by blast
qed


subsection \<open>A sample route\<close>

definition sample_route :: profile where
  "sample_route = make_profile ''1'' [(''source_uri'', JStr sample_link)]"

lemma sample_query: "url_query (urlsplit sample_link) = ''ech=AEX''" "query_dict ''ech=AEX'' = [(''ech'', ''AEX'')]"
  "username (urlsplit sample_link) = ''u''"
  by code_simp+

lemma sample_words: "lower (strip ''tls'') = ''tls''" "lower (strip ''ws'') = ''ws''" "lower ''h.example'' = ''h.example''"
  "strip ''h.example'' = ''h.example''" "startswith ''/'' ''/''" "py_int ''0'' = Some 0"
  "parse_ipv4 ''h.example'' = None"
  by code_simp+

lemma sample_route_fields: "fld sample_route ''source_uri'' = JStr sample_link" "fld sample_route ''port'' = JInt 443"
  "fld sample_route ''route_mode'' = JStr ''sni''" "fld sample_route ''origin'' = JStr ''user''"
  "fld sample_route ''sni'' = JStr ''www.speedtest.net''"
  by (simp_all add: sample_route_def make_profile_def PROFILE_DEFAULTS_def fld_def dict_get_or_def dict_get_def)

lemma sample_split: "split_url (\<lambda>_. False) sample_link = Inr (urlsplit sample_link)" "hostname (urlsplit sample_link) = ''h.example''"
  "port (urlsplit sample_link) = Inr (Some 8443)"
  by (simp_all add: split_url_def netloc_ok_def hostname_def port_def Let_def sample_link_parts sample_link_host sample_link_more)

lemma sample_outbound:
  obtains ob where "parse_outbound (\<lambda>_. False) sample_route = Inr ob" "ob_protocol ob = ''vless''" "ob_ech ob = ''AEX''"
    "ob_security ob = ''tls''" "ob_network ob = ''ws''" "ob_host ob = ''h.example''" "ob_sni ob = ''h.example''"
    "ob_host_header ob = ''h.example''"
proof -
  have "\<exists>ob. parse_outbound (\<lambda>_. False) sample_route = Inr ob \<and> ob_protocol ob = ''vless'' \<and> ob_ech ob = ''AEX''
    \<and> ob_security ob = ''tls'' \<and> ob_network ob = ''ws'' \<and> ob_host ob = ''h.example'' \<and> ob_sni ob = ''h.example''
    \<and> ob_host_header ob = ''h.example''"
    unfolding parse_outbound_def text_of_field_def sample_route_fields Let_def
    by (simp add: sample_split sample_query sample_words query_get_def SNI_KEYS_def sample_link_parts sample_link_host)
  then show ?thesis using that by blast
qed

definition sample_request :: xray_request where
  "sample_request = \<lparr>xr_bypass = [], xr_upstream = ''127.0.0.1'', xr_socks_port = 20808, xr_http_port = 20809,
     xr_direct_edge = None, xr_ech_config = [], xr_outbound_port = 40443\<rparr>"

lemma sample_build: "\<exists>config. build_xray_config (\<lambda>_. False) loads sample_route TUNING_DEFAULTS sample_request = Inr config"
proof -
  obtain ob where ob: "parse_outbound (\<lambda>_. False) sample_route = Inr ob" "ob_protocol ob = ''vless''" "ob_ech ob = ''AEX''"
    "ob_security ob = ''tls''" "ob_network ob = ''ws''" "ob_host ob = ''h.example''" "ob_sni ob = ''h.example''"
    "ob_host_header ob = ''h.example''"
    by (rule sample_outbound)
  have user: "fld sample_route ''origin'' \<noteq> JStr ''builtin''" by (simp add: sample_route_fields)
  show ?thesis
    unfolding build_xray_config_def ob(1) rbind_simps Let_def
    using user by (simp add: sample_request_def server_settings_def stream_settings_def transport_settings_def ob no_mux_for_ech Let_def)
qed

lemma sample_plan:
  assumes "parse_outbound (\<lambda>_. False) sample_route = Inr ob" "ob_ech ob = ''AEX''" "ob_security ob = ''tls''" "ob_host ob = ''h.example''"
  shows "\<exists>cp ct. plan_ech_via_pattern [] sample_route TUNING_DEFAULTS ob [] = Inr (Some (cp, ct))"
proof -
  have "own_edge_of ''h.example'' = []" by (simp add: own_edge_of_def sample_words)
  moreover have "lower ''tls'' = ''tls''" by code_simp
  moreover have "route_mode sample_route \<noteq> ''reality-direct''"
    by (simp add: route_mode_def sample_route_fields or_else_def)
  ultimately show ?thesis
    using assms by (simp add: plan_ech_via_pattern_def Let_def sample_route_fields or_else_def)
qed

lemma xray_config_is_local_and_routable_witness:
  "\<exists>config. build_xray_config (\<lambda>_. False) (\<lambda>_. None) sample_route TUNING_DEFAULTS sample_request = Inr config
    \<and> map (\<lambda>ob. val ob ''tag'') (items (val (JObj config) ''outbounds'')) = [JStr ''proxy'', JStr ''direct'', JStr ''block'']"
proof -
  obtain config where c: "build_xray_config (\<lambda>_. False) (\<lambda>_. None) sample_route TUNING_DEFAULTS sample_request = Inr config"
    using sample_build by blast
  from xray_config_is_local_and_routable [OF c]
  have "map (\<lambda>ob. val ob ''tag'') (items (val (JObj config) ''outbounds'')) = [JStr ''proxy'', JStr ''direct'', JStr ''block'']"
    by (elim conjE)
  with c show ?thesis by (intro exI conjI)
qed

lemma ech_route_dials_the_core_witness:
  "\<exists>config. build_xray_config (\<lambda>_. False) (\<lambda>_. None) sample_route TUNING_DEFAULTS sample_request = Inr config
    \<and> map (\<lambda>s. (val s ''address'', val s ''port'')) (dialled_servers config) = [(JStr ''127.0.0.1'', JInt 40443)]"
proof -
  obtain ob where ob: "parse_outbound (\<lambda>_. False) sample_route = Inr ob" "ob_protocol ob = ''vless''" "ob_ech ob = ''AEX''"
    "ob_security ob = ''tls''" "ob_host ob = ''h.example''"
    by (rule sample_outbound)
  obtain cp ct where plan: "plan_ech_via_pattern [] sample_route TUNING_DEFAULTS ob [] = Inr (Some (cp, ct))"
    using sample_plan [OF ob(1,3,4,5)] by blast
  obtain config where c: "build_xray_config (\<lambda>_. False) (\<lambda>_. None) sample_route TUNING_DEFAULTS sample_request = Inr config"
    using sample_build by blast
  have cp: "fld cp ''config_port'' = JInt (xr_outbound_port sample_request)"
    using plan_ech_some(3) [OF plan] by (simp add: sample_request_def FRAGMENT_PORT_def)
  have up: "xr_upstream sample_request = ''127.0.0.1''" by (simp add: sample_request_def)
  from ech_route_dials_the_core [OF plan ob(1) up cp c]
  have "map (\<lambda>s. (val s ''address'', val s ''port'')) (dialled_servers config) = [(JStr ''127.0.0.1'', JInt 40443)]"
    by (simp add: ob(2))
  with c show ?thesis by (intro exI conjI)
qed

lemma ech_fake_name_is_not_the_real_one_witness:
  "\<exists>cp ct ob fake. plan_ech_via_pattern [] sample_route TUNING_DEFAULTS ob [] = Inr (Some (cp, ct))
    \<and> fld ct ''pattern_fake_sni'' = JStr fake \<and> lower fake \<notin> real_names sample_route ob"
proof -
  obtain ob where ob: "parse_outbound (\<lambda>_. False) sample_route = Inr ob" "ob_protocol ob = ''vless''" "ob_ech ob = ''AEX''"
    "ob_security ob = ''tls''" "ob_network ob = ''ws''" "ob_host ob = ''h.example''" "ob_sni ob = ''h.example''"
    "ob_host_header ob = ''h.example''"
    by (rule sample_outbound)
  obtain cp ct where plan: "plan_ech_via_pattern [] sample_route TUNING_DEFAULTS ob [] = Inr (Some (cp, ct))"
    using sample_plan [OF ob(1,3,4,6)] by blast
  have "name_text (JStr ''www.speedtest.net'') = ''www.speedtest.net''" by code_simp
  then have "''chatgpt.com'' \<notin> real_names sample_route ob"
    by (simp add: real_names_def ob sample_words sample_route_fields)
  from ech_fake_name_is_not_the_real_one [OF plan this] obtain fake
    where "fld ct ''pattern_fake_sni'' = JStr fake" "lower fake \<notin> real_names sample_route ob" by (elim exE conjE)
  with plan show ?thesis by (intro exI conjI)
qed


subsection \<open>The default fake name is not checked\<close>

lemma default_fake_may_be_real:
  "choose_fake_sni [] TUNING_DEFAULTS {''chatgpt.com''} = ''chatgpt.com''"
proof -
  have d: "fld TUNING_DEFAULTS ''pattern_fake_sni'' = JStr ''chatgpt.com''" "fld TUNING_DEFAULTS ''carrier_mode'' = JStr ''auto''"
    by (simp_all add: TUNING_DEFAULTS_def fld_def)
  have names: "strip ''chatgpt.com'' = ''chatgpt.com''" "lower ''chatgpt.com'' = ''chatgpt.com''"
    "lower (strip ''auto'') = ''auto''" "lower (strip ''balanced'') = ''balanced''"
    by code_simp+
  have "preset_fake TUNING_DEFAULTS = ''chatgpt.com''"
    by (simp add: preset_fake_def d carrier_preset_def names preset_def make_tuning_def)
  note d = d names this
  show ?thesis by (simp add: choose_fake_sni_def Let_def d or_else_def)
qed

subsection \<open>The address that is dialled\<close>

fun readable :: "(string \<Rightarrow> string option) \<Rightarrow> (bool \<times> string) list \<Rightarrow> (bool \<times> string) list" where
  \<comment> \<open>the answers that are addresses\<close>
  "readable ip_text [] = []"
| "readable ip_text ((inet, s) # answers) = (case ip_text (fst (str_partition ''%'' s)) of
     None \<Rightarrow> readable ip_text answers | Some a \<Rightarrow> (inet, a) # readable ip_text answers)"

lemma pick_address_spec:
  "pick_address ip_text seen answers = (case filter fst (readable ip_text answers) of
      (_, a) # _ \<Rightarrow> Inr a
    | [] \<Rightarrow> (case seen @ map snd (readable ip_text answers) of a # _ \<Rightarrow> Inr a | [] \<Rightarrow> Inl RuntimeError))"
proof (induction ip_text seen answers rule: pick_address.induct)
  case (2 ip_text seen inet sockaddr answers)
  show ?case
  proof (cases "ip_text (fst (str_partition ''%'' sockaddr))")
    case None
    then have r: "readable ip_text ((inet, sockaddr) # answers) = readable ip_text answers" by simp
    show ?thesis unfolding r using 2 None by simp
  next
    case (Some b)
    then have r: "readable ip_text ((inet, sockaddr) # answers) = (inet, b) # readable ip_text answers" by simp
    from Some have "\<not> inet \<Longrightarrow> pick_address ip_text (if b \<in> set seen then seen else seen @ [b]) answers
      = (case filter fst (readable ip_text answers) of (_, a) # _ \<Rightarrow> Inr a
        | [] \<Rightarrow> (case (if b \<in> set seen then seen else seen @ [b]) @ map snd (readable ip_text answers) of
            a # _ \<Rightarrow> Inr a | [] \<Rightarrow> Inl RuntimeError))"
      using "2.IH"(2) [OF Some] by simp
    with Some show ?thesis unfolding r by (cases inet; cases seen) (auto split: list.split)
  qed
qed (simp split: list.split)

end
