(* ===== verification/Ech_Keys.thy ===== *)
theory Ech_Keys
  imports Clean_Ip Py_Float Url_Text
begin

text \<open>
  \<open>ech_keys.py\<close>: the base64 form of an ECHConfigList and its check, the answers of the resolvers, the
  cache file with one entry per domain, and the order in which \<open>resolve\<close> and \<open>prefetch_pow_key\<close>
  fall back (live answer, cached key, built-in key, the value of the link). What the resolvers answer,
  and in which order, is an input; the DNS queries themselves are not modelled.
\<close>

section \<open>base64\<close>

definition B64 :: string where
  "B64 = ''ABCDEFGHIJKLMNOPQRSTUVWXYZabcdefghijklmnopqrstuvwxyz0123456789+/''"

definition b64_char :: "nat \<Rightarrow> char" where
  "b64_char n = B64 ! n"

definition b64_val :: "char \<Rightarrow> nat option" where
  "b64_val c = (let n = of_char c :: nat in
     if 65 \<le> n \<and> n \<le> 90 then Some (n - 65)
     else if 97 \<le> n \<and> n \<le> 122 then Some (n - 71)
     else if 48 \<le> n \<and> n \<le> 57 then Some (n + 4)
     else if n = 43 then Some 62
     else if n = 47 then Some 63 else None)"

fun b64encode :: "nat list \<Rightarrow> string" where
  \<comment> \<open>\<open>base64.b64encode\<close>\<close>
  "b64encode [] = []"
| "b64encode [a] = [b64_char (a div 4), b64_char (a mod 4 * 16), CHR ''='', CHR ''='']"
| "b64encode [a, b] = [b64_char (a div 4), b64_char (a mod 4 * 16 + b div 16), b64_char (b mod 16 * 4), CHR ''='']"
| "b64encode (a # b # c # r) = b64_char (a div 4) # b64_char (a mod 4 * 16 + b div 16)
     # b64_char (b mod 16 * 4 + c div 64) # b64_char (c mod 64) # b64encode r"

fun sextets :: "nat list \<Rightarrow> nat list" where
  "sextets (a # b # c # d # r) = (a * 4 + b div 16) # (b mod 16 * 16 + c div 4) # (c mod 4 * 64 + d) # sextets r"
| "sextets [a, b, c] = [a * 4 + b div 16, b mod 16 * 16 + c div 4]"
| "sextets [a, b] = [a * 4 + b div 16]"
| "sextets _ = []"

definition b64decode :: "string \<Rightarrow> nat list option" where
  \<comment> \<open>\<open>base64.b64decode(s, validate=True)\<close> of Python 3.11: the padding is right, or follows whole groups\<close>
  "b64decode s = (let data = takeWhile (\<lambda>c. c \<noteq> CHR ''='') s; pad = drop (length data) s;
       n = length data mod 4; vals = map b64_val data in
     if set pad \<subseteq> {CHR ''=''} \<and> None \<notin> set vals
       \<and> ((n = 0 \<and> (data \<noteq> [] \<or> pad = [])) \<or> (n = 2 \<and> length pad = 2) \<or> (n = 3 \<and> length pad = 1))
     then Some (sextets (map the vals)) else None)"

section \<open>Link values and keys\<close>

definition b64_shape :: "string \<Rightarrow> bool" where
  \<comment> \<open>\<open>[A-Za-z0-9+/]+={0,2}\<close> on a stripped text\<close>
  "b64_shape s = (let data = takeWhile (\<lambda>c. c \<noteq> CHR ''='') s; pad = drop (length data) s in
     data \<noteq> [] \<and> list_all (\<lambda>c. b64_val c \<noteq> None) data \<and> set pad \<subseteq> {CHR ''=''} \<and> length pad \<le> 2)"

definition list_framed :: "nat list \<Rightarrow> bool" where
  \<comment> \<open>the two length bytes count what follows\<close>
  "list_framed raw = (length raw \<ge> 4 \<and> raw ! 0 * 256 + raw ! 1 = length raw - 2)"

definition is_base64_text :: "string \<Rightarrow> bool" where
  "is_base64_text text0 = (let v = strip text0 in
     if length v < 16 \<or> CHR ''.'' \<in> set v \<or> (CHR ''+'' \<in> set v \<and> contains ''://'' v) then False
     else if \<not> b64_shape v then False
     else (case b64decode v of None \<Rightarrow> False | Some raw \<Rightarrow> list_framed raw))"

definition is_base64_list :: "json \<Rightarrow> bool" where
  "is_base64_list j = is_base64_text (py_str (or_else j (JStr [])))"

definition parse_ech_value :: "string \<Rightarrow> string \<times> string" where
  "parse_ech_value v0 = (let v = strip v0 in
     if v = [] \<or> is_base64_text v then ([], [])
     else let (d, _, server) = str_partition ''+'' v; d = lower (strip_set ''.'' (strip d)) in
       if d = [] \<or> CHR ''.'' \<notin> set d then ([], []) else (d, strip server))"

section \<open>What the resolvers answer\<close>

definition UDP_RESOLVERS :: "string list" where
  "UDP_RESOLVERS = [''1.1.1.1'', ''1.0.0.1'', ''8.8.8.8'', ''9.9.9.9'']"

definition ech_from_answer :: "nat list option list list \<Rightarrow> string" where
  \<comment> \<open>the \<open>ech\<close> parameter of every record of every set of an HTTPS answer\<close>
  "ech_from_answer rrsets = (case List.find (\<lambda>p. p \<noteq> None \<and> p \<noteq> Some []) (concat rrsets) of
     Some (Some data) \<Rightarrow> b64encode data | _ \<Rightarrow> [])"

definition ech_json_here :: "string \<Rightarrow> string option" where
  \<comment> \<open>\<open>ech="?([A-Za-z0-9+/]+={0,2})"?\<close> at the start of the text\<close>
  "ech_json_here s = (if \<not> startswith ''ech='' s then None
     else let r = drop 4 s; r = (if startswith [CHR 0x22] r then drop 1 r else r);
              data = takeWhile (\<lambda>c. b64_val c \<noteq> None) r;
              pad = take 2 (takeWhile (\<lambda>c. c = CHR ''='') (drop (length data) r)) in
       if data = [] then None else Some (data @ pad))"

fun ech_json_search :: "string \<Rightarrow> string option" where
  "ech_json_search [] = None"
| "ech_json_search (c # s) = (case ech_json_here (c # s) of Some k \<Rightarrow> Some k | None \<Rightarrow> ech_json_search s)"

fun doh_json_items :: "json list \<Rightarrow> string res" where
  \<comment> \<open>the loop of \<open>_query_doh_json\<close>\<close>
  "doh_json_items [] = Inr []"
| "doh_json_items (item # items) = (case item of
     JObj d \<Rightarrow> rbind (py_int_of (or_else (dict_get_or d ''type'' (JInt 0)) (JInt 0))) (\<lambda>t.
       if t = 65 then (case ech_json_search (py_str (dict_get_or d ''data'' (JStr []))) of
           Some k \<Rightarrow> Inr k | None \<Rightarrow> doh_json_items items)
       else doh_json_items items)
   | _ \<Rightarrow> doh_json_items items)"

definition dotted_quad :: "string \<Rightarrow> bool" where
  \<comment> \<open>\<open>\d{1,3}(?:\.\d{1,3}){3}\<close>\<close>
  "dotted_quad s = (let parts = split_on (CHR ''.'') s in
     length parts = 4 \<and> list_all (\<lambda>p. 1 \<le> length p \<and> length p \<le> 3 \<and> list_all is_ascii_digit p) parts)"

definition split_servers :: "string \<Rightarrow> string list" where
  \<comment> \<open>\<open>re.split("[ ,]+", text)\<close>; the empty pieces are dropped by the next test\<close>
  "split_servers s = split_on (CHR '','') (map (\<lambda>c. if c = CHR '' '' then CHR '','' else c) s)"

definition system_nameservers :: "json list \<Rightarrow> string list" where
  \<comment> \<open>from the \<open>NameServer\<close> and \<open>DhcpNameServer\<close> values that could be read, interface by interface\<close>
  "system_nameservers vals = take 3 (filter (\<lambda>s. s \<notin> set UDP_RESOLVERS)
     (fold (\<lambda>item acc. if dotted_quad item \<and> item \<notin> set acc then acc @ [item] else acc)
       (concat (map (\<lambda>v. split_servers (py_str (or_else v (JStr [])))) vals)) []))"

definition hinted_server :: "string \<Rightarrow> string option" where
  \<comment> \<open>\<open>^(?:udp://)?(IPv4)(?::53)?$\<close>, which allows a final line feed\<close>
  "hinted_server hint = (
     let h = (if hint \<noteq> [] \<and> last hint = CHR 0x0A then butlast hint else hint);
         h = (if startswith ''udp://'' h then drop 6 h else h);
         h = (if endswith '':53'' h then take (length h - 3) h else h) in
     if dotted_quad h then Some h else None)"

definition default_fetchers :: "string \<Rightarrow> string list" where
  \<comment> \<open>the servers asked, in order\<close>
  "default_fetchers hint = (case hinted_server hint of
     None \<Rightarrow> UDP_RESOLVERS | Some s \<Rightarrow> s # remove1 s UDP_RESOLVERS)"

definition doh_fetchers :: "string list" where
  \<comment> \<open>the labels of the second stage\<close>
  "doh_fetchers = [''system'', ''doh 8.8.8.8'', ''doh 8.8.4.4'', ''doh 1.1.1.1'', ''doh dns.google'']"

definition pow_fetchers :: "string list" where
  "pow_fetchers = map (\<lambda>s. ''udp '' @ s) (UDP_RESOLVERS @ [''178.22.122.100'']) @ doh_fetchers"

type_synonym answers = "(string \<times> string option) list"

definition good_answer :: "string \<times> string option \<Rightarrow> bool" where
  "good_answer a = (case snd a of None \<Rightarrow> False | Some k \<Rightarrow> k \<noteq> [] \<and> is_base64_list (JStr k))"

definition race :: "answers \<Rightarrow> string \<times> string" where
  \<comment> \<open>the answers that came in before the deadline, in the order they are looked at; \<open>None\<close> is a fetcher that raised\<close>
  "race ans = (case List.find good_answer ans of Some (l, Some k) \<Rightarrow> (k, l) | _ \<Rightarrow> ([], []))"

section \<open>The cache file\<close>

record ech_cache =
  cache_file :: "json option"   \<comment> \<open>\<open>None\<close>: missing, unreadable or not JSON\<close>
  cache_writable :: bool

definition cache_load :: "ech_cache \<Rightarrow> obj" where
  "cache_load c = (case cache_file c of Some (JObj d) \<Rightarrow> d | _ \<Rightarrow> [])"

definition cache_get :: "ech_cache \<Rightarrow> string \<Rightarrow> obj" where
  "cache_get c d = (case dict_get (cache_load c) (lower d) of
     Some (JObj entry) \<Rightarrow> if is_base64_list (dict_get_or entry ''key'' (JStr [])) then entry else []
   | _ \<Rightarrow> [])"

definition cache_put :: "string \<Rightarrow> string \<Rightarrow> string \<Rightarrow> rat \<Rightarrow> ech_cache \<Rightarrow> ech_cache" where
  \<comment> \<open>\<open>now\<close> is the moment of the call: the clock's, which the source reads where it is given none or 0\<close>
  "cache_put d key source now c = (
     let data = dict_set (lower d) (JObj [(''key'', JStr key), (''fetched_at'', JNum now), (''source'', JStr source)])
           (cache_load c) in
     if cache_writable c then c\<lparr>cache_file := Some (JObj data)\<rparr> else c)"

section \<open>resolve\<close>

definition ECH_CONFIG_FALLBACK :: "nat list" where
  "ECH_CONFIG_FALLBACK =
    [0x00,0x45,0xfe,0x0d,0x00,0x41,0x79,0x00,0x20,0x00,0x20,0x88,0x16,0xf6,0xbe,0x48,
     0xf2,0x70,0xf7,0x5a,0x51,0xab,0xe4,0x69,0xa8,0x32,0x56,0xa2,0xaf,0x43,0xc1,0xc2,
     0xea,0xb5,0x25,0xfe,0xae,0xc9,0xd6,0x07,0x8b,0xff,0x33,0x00,0x04,0x00,0x01,0x00,
     0x01,0x00,0x12,0x63,0x6c,0x6f,0x75,0x64,0x66,0x6c,0x61,0x72,0x65,0x2d,0x65,0x63,
     0x68,0x2e,0x63,0x6f,0x6d,0x00,0x00]"

definition ECH_FALLBACK_B64 :: string where
  "ECH_FALLBACK_B64 = b64encode ECH_CONFIG_FALLBACK"

definition ECH_FALLBACK_DOMAINS :: "string list" where
  "ECH_FALLBACK_DOMAINS = [''cloudflare-ech.com'', ''crypto.cloudflare.com'']"

datatype ech_state = Fresh | Cached | Fallback | RawValue | NoKey

record ech_resolution =
  er_value :: json
  er_state :: ech_state
  er_source :: json
  er_age :: pyfloat
  er_domain :: string

definition ech_resolution :: "json \<Rightarrow> ech_state \<Rightarrow> json \<Rightarrow> pyfloat \<Rightarrow> string \<Rightarrow> ech_resolution" where
  "ech_resolution v st src age d = \<lparr>er_value = v, er_state = st, er_source = src, er_age = age, er_domain = d\<rparr>"

definition age_since :: "rat \<Rightarrow> pyfloat \<Rightarrow> pyfloat" where
  \<comment> \<open>\<open>now - fetched_at\<close>\<close>
  "age_since now stamp = flt_add (negate stamp) now"

definition two_stages :: "answers res \<Rightarrow> answers res \<Rightarrow> string \<times> string" where
  \<comment> \<open>the UDP race, then the DoH race; \<open>Inl\<close> is a race that raised (no thread could be started)\<close>
  "two_stages udp doh = (case udp of
     Inl _ \<Rightarrow> ([], [])
   | Inr a \<Rightarrow> if fst (race a) \<noteq> [] then race a
       else (case doh of Inl _ \<Rightarrow> ([], []) | Inr b \<Rightarrow> race b))"

definition resolve_without_answer :: "string \<Rightarrow> string \<Rightarrow> ech_cache \<Rightarrow> rat \<Rightarrow> bool \<Rightarrow> ech_resolution res" where
  \<comment> \<open>the part of \<open>resolve\<close> after both races failed\<close>
  "resolve_without_answer v d c now use_fallback = (
     let entry = cache_get c d in
     if entry \<noteq> [] then
       rbind (py_float_of (dict_get_or entry ''fetched_at'' (JNum now))) (\<lambda>stamp.
         Inr (ech_resolution (dict_get_or entry ''key'' JNull) Cached (dict_get_or entry ''source'' (JStr []))
           (age_since now stamp) d))
     else if use_fallback \<and> d \<in> set ECH_FALLBACK_DOMAINS \<and> is_base64_list (JStr ECH_FALLBACK_B64) then
       Inr (ech_resolution (JStr ECH_FALLBACK_B64) Fallback (JStr ''built-in'') (Fin 0) d)
     else Inr (ech_resolution (JStr v) NoKey (JStr []) (Fin 0) d))"

definition resolve :: "string \<Rightarrow> answers res \<Rightarrow> answers res \<Rightarrow> rat \<Rightarrow> bool \<Rightarrow> ech_cache
    \<Rightarrow> ech_resolution res \<times> ech_cache" where
  "resolve ech_value udp doh now use_fallback c = (
     let v = strip ech_value in
     if v = [] then (Inr (ech_resolution (JStr []) NoKey (JStr []) (Fin 0) []), c)
     else if is_base64_list (JStr v) then (Inr (ech_resolution (JStr v) RawValue (JStr ''uri'') (Fin 0) []), c)
     else let (d, hint) = parse_ech_value v in
       if d = [] then (Inr (ech_resolution (JStr v) RawValue (JStr ''uri'') (Fin 0) []), c)
       else let (key, label) = two_stages udp doh in
         if key \<noteq> [] then (Inr (ech_resolution (JStr key) Fresh (JStr label) (Fin 0) d), cache_put d key label now c)
         else (resolve_without_answer v d c now use_fallback, c))"

section \<open>The key of the PoW core\<close>

definition POW_ECH_DOMAIN :: string where "POW_ECH_DOMAIN = ''cloudflare-ech.com''"
definition POW_CACHE_FRESH_S :: rat where "POW_CACHE_FRESH_S = 1800"

definition refresh_pow_key :: "string \<Rightarrow> answers res \<Rightarrow> rat \<Rightarrow> ech_cache \<Rightarrow> ech_cache" where
  \<comment> \<open>the body of the background thread, \<open>now\<close> being the clock when it writes\<close>
  "refresh_pow_key d routes now c = (case routes of
     Inl _ \<Rightarrow> c
   | Inr a \<Rightarrow> (let (key, label) = race a in if key \<noteq> [] then cache_put d key label now c else c))"

record prefetch =
  pf_key :: json
  pf_source :: string
  pf_refresh :: bool  \<comment> \<open>the background thread is started\<close>

definition prefetch :: "json \<Rightarrow> string \<Rightarrow> bool \<Rightarrow> prefetch" where
  "prefetch k src b = \<lparr>pf_key = k, pf_source = src, pf_refresh = b\<rparr>"

definition cached_age :: "obj \<Rightarrow> rat \<Rightarrow> pyfloat res" where
  "cached_age entry now = (if entry \<noteq> [] then
       rbind (py_float_of (or_else (dict_get_or entry ''fetched_at'' (JInt 0)) (JInt 0))) (\<lambda>stamp. Inr (age_since now stamp))
     else Inr (Fin (- 1)))"

definition age_is_fresh :: "pyfloat \<Rightarrow> bool" where
  "age_is_fresh age = (\<not> flt_lt age (Fin 0) \<and> age \<noteq> NaN \<and> flt_lt age (Fin POW_CACHE_FRESH_S))"

definition prefetch_pow_key :: "string \<Rightarrow> answers res \<Rightarrow> rat \<Rightarrow> bool \<Rightarrow> bool \<Rightarrow> ech_cache
    \<Rightarrow> (prefetch \<times> ech_cache) res" where
  "prefetch_pow_key d routes now background block c = (
     let entry = cache_get c d; key = dict_get_or entry ''key'' JNull in
     rbind (cached_age entry now) (\<lambda>age.
       if entry \<noteq> [] \<and> age_is_fresh age then Inr (prefetch key ''cache'' background, c)
       else if \<not> block then
         (if entry \<noteq> [] then Inr (prefetch key ''cache (stale)'' True, c) else Inr (prefetch (JStr []) [] True, c))
       else let (k, label) = (case routes of Inl _ \<Rightarrow> ([], []) | Inr a \<Rightarrow> race a) in
         if k \<noteq> [] then Inr (prefetch (JStr k) label False, cache_put d k label now c)
         else if entry \<noteq> [] then Inr (prefetch key ''cache'' False, c)
         else Inr (prefetch (JStr []) [] False, c)))"


section \<open>Encoded lists\<close>

lemma B64_vals: "map b64_val B64 = map Some [0..<64]"
  by (simp add: B64_def b64_val_def Let_def upt_rec)

lemma length_B64: "length B64 = 64" by (simp add: B64_def)

lemma B64_plain: "list_all (\<lambda>c. c \<noteq> CHR ''='' \<and> c \<noteq> CHR ''.'' \<and> c \<noteq> CHR '':'' \<and> \<not> is_space c) B64"
  by (simp add: B64_def is_space_def)

lemma b64_char_simps [simp]:
  assumes "n < 64"
  shows "b64_val (b64_char n) = Some n" "b64_char n \<noteq> CHR ''=''" "b64_char n \<noteq> CHR ''.''" "b64_char n \<noteq> CHR '':''"
    "\<not> is_space (b64_char n)"
proof -
  have "map b64_val B64 ! n = map Some [0..<64] ! n" by (simp only: B64_vals)
  then show "b64_val (b64_char n) = Some n" using assms by (simp add: b64_char_def length_B64)
  have "B64 ! n \<in> set B64" using assms by (simp add: length_B64)
  then show "b64_char n \<noteq> CHR ''=''" "b64_char n \<noteq> CHR ''.''" "b64_char n \<noteq> CHR '':''" "\<not> is_space (b64_char n)"
    using B64_plain unfolding list_all_iff b64_char_def by blast+
qed

text \<open>The sextets of a text and its padding.\<close>

fun sextets_of :: "nat list \<Rightarrow> nat list" where
  "sextets_of [] = []"
| "sextets_of [a] = [a div 4, a mod 4 * 16]"
| "sextets_of [a, b] = [a div 4, a mod 4 * 16 + b div 16, b mod 16 * 4]"
| "sextets_of (a # b # c # r) =
    a div 4 # (a mod 4 * 16 + b div 16) # (b mod 16 * 4 + c div 64) # c mod 64 # sextets_of r"

definition pad_of :: "nat list \<Rightarrow> string" where
  "pad_of bs = replicate (if length bs mod 3 = 1 then 2 else if length bs mod 3 = 2 then 1 else 0) (CHR ''='')"

lemma mod_Suc_groups: "Suc (Suc (Suc n)) mod 3 = n mod 3" "Suc (Suc (Suc (Suc n))) mod 4 = n mod 4"
  by presburger+

lemma b64encode_parts: "b64encode bs = map b64_char (sextets_of bs) @ pad_of bs"
  by (induction bs rule: b64encode.induct) (simp_all add: pad_of_def mod_Suc_groups numeral_2_eq_2)

lemma sextets_lt:
  assumes "list_all (\<lambda>b. b < 256) bs" shows "list_all (\<lambda>n. n < 64) (sextets_of bs)"
proof -
  have split: "x mod 4 * 16 + y div 16 < 64 \<and> y mod 16 * 4 + z div 64 < 64 \<and> z mod 64 < 64 \<and> x div 4 < 64 \<and> x mod 4 * 16 < 64
      \<and> y mod 16 * 4 < 64"
    if "x < 256" "y < 256" "z < 256" for x y z :: nat using that by linarith
  show ?thesis using assms
    by (induction bs rule: sextets_of.induct) (use split in \<open>auto dest: split [where y = 0 and z = 0]\<close>)
qed

lemma sextets_of_back: "list_all (\<lambda>b. b < 256) bs \<Longrightarrow> sextets (sextets_of bs) = bs"
  by (induction bs rule: sextets_of.induct) (auto simp: )

lemma length_sextets_mod:
  "length (sextets_of bs) mod 4 = (if length bs mod 3 = 0 then 0 else Suc (length bs mod 3))"
  by (induction bs rule: sextets_of.induct) (simp_all add: mod_Suc_groups)

lemma length_sextets: "3 * length (sextets_of bs) = 4 * length bs + (if length bs mod 3 = 0 then 0 else if length bs mod 3 = 1 then 2 else 1)"
  by (induction bs rule: sextets_of.induct) (simp_all add: mod_Suc_groups)

abbreviation bytes_ok :: "nat list \<Rightarrow> bool" where
  "bytes_ok bs \<equiv> list_all (\<lambda>b. b < 256) bs"

lemma takeWhile_prefix:
  "list_all P xs \<Longrightarrow> list_all (\<lambda>c. \<not> P c) ys \<Longrightarrow> takeWhile P (xs @ ys) = xs"
  by (induction xs) (auto simp: takeWhile_eq_Nil_iff list_all_iff hd_in_set)

lemma b64_data_pad:
  assumes "bytes_ok bs"
  shows "takeWhile (\<lambda>c. c \<noteq> CHR ''='') (b64encode bs) = map b64_char (sextets_of bs)"
    "drop (length (sextets_of bs)) (b64encode bs) = pad_of bs"
proof -
  have "list_all (\<lambda>c. c \<noteq> CHR ''='') (map b64_char (sextets_of bs))"
    using sextets_lt [OF assms] by (simp add: list_all_iff)
  moreover have "list_all (\<lambda>c. \<not> c \<noteq> CHR ''='') (pad_of bs)" by (simp add: pad_of_def list_all_iff)
  ultimately show "takeWhile (\<lambda>c. c \<noteq> CHR ''='') (b64encode bs) = map b64_char (sextets_of bs)"
    unfolding b64encode_parts by (rule takeWhile_prefix)
qed (simp add: b64encode_parts)

lemma b64_vals_back:
  assumes "bytes_ok bs" shows "map b64_val (map b64_char (sextets_of bs)) = map Some (sextets_of bs)"
  using sextets_lt [OF assms] by (simp add: list_all_iff)

lemma sextets_Nil [simp]: "sextets_of bs = [] \<longleftrightarrow> bs = []"
  by (induction bs rule: sextets_of.induct) simp_all

lemma length_pad: "length (pad_of bs) = (if length bs mod 3 = 1 then 2 else if length bs mod 3 = 2 then 1 else 0)"
  by (simp add: pad_of_def)

lemma set_pad: "set (pad_of bs) \<subseteq> {CHR ''=''}"
  by (auto simp: pad_of_def)

lemma base64_roundtrip:
  assumes "list_all (\<lambda>b. b < 256) bs"
  shows "b64decode (b64encode bs) = Some bs"
proof -
  have m: "length bs mod 3 = 0 \<or> length bs mod 3 = 1 \<or> length bs mod 3 = 2" by presburger
  have "None \<notin> set (map Some (sextets_of bs))" by auto
  moreover have "map the (map Some (sextets_of bs)) = sextets_of bs" by simp
  moreover have "length bs mod 3 = 0 \<Longrightarrow> pad_of bs = []" by (simp add: pad_of_def)
  ultimately show ?thesis
    unfolding b64decode_def Let_def b64_data_pad(1) [OF assms] length_map b64_data_pad(2) [OF assms]
      b64_vals_back [OF assms] length_sextets_mod length_pad
    using m set_pad [of bs] sextets_of_back [OF assms] by auto
qed

lemma encoded_plain:
  assumes "bytes_ok bs" "c \<in> set (b64encode bs)"
  shows "c \<noteq> CHR ''.''" "c \<noteq> CHR '':''" "\<not> is_space c"
proof -
  have "c \<in> b64_char ` set (sextets_of bs) \<or> c = CHR ''=''"
    using assms(2) set_pad [of bs] by (auto simp: b64encode_parts)
  moreover have "\<forall>n\<in>set (sextets_of bs). b64_char n \<noteq> CHR ''.'' \<and> b64_char n \<noteq> CHR '':'' \<and> \<not> is_space (b64_char n)"
    using sextets_lt [OF assms(1)] by (simp add: list_all_iff)
  moreover have "CHR ''='' \<noteq> CHR ''.'' \<and> CHR ''='' \<noteq> CHR '':'' \<and> \<not> is_space CHR ''=''" by (simp add: is_space_def)
  ultimately show "c \<noteq> CHR ''.''" "c \<noteq> CHR '':''" "\<not> is_space c" by (metis imageE)+
qed

lemma length_encoded: "3 * length (b64encode bs) = 4 * (length bs + (if length bs mod 3 = 0 then 0 else 3 - length bs mod 3))"
proof -
  have m: "length bs mod 3 = 0 \<or> length bs mod 3 = 1 \<or> length bs mod 3 = 2" by presburger
  then show ?thesis using length_sextets [of bs] by (auto simp: b64encode_parts length_pad)
qed

lemma contains_char: "contains p s \<Longrightarrow> c \<in> set p \<Longrightarrow> c \<in> set s"
  unfolding contains_def using find_sub_Some [of p s]
  by (metis in_set_dropD in_set_takeD not_None_eq)

lemma no_space_stripped: "\<forall>c\<in>set s. \<not> is_space c \<Longrightarrow> strip s = s"
  by (intro strip_stripped) (auto simp: stripped_def)

lemma encoded_list_accepted:
  assumes "list_all (\<lambda>b. b < 256) bs"
  shows "is_base64_text (b64encode bs) \<longleftrightarrow> 10 \<le> length bs \<and> list_framed bs"
proof -
  have strip: "strip (b64encode bs) = b64encode bs" using encoded_plain(3) [OF assms] by (intro no_space_stripped) blast
  have dot: "CHR ''.'' \<notin> set (b64encode bs)" using encoded_plain(1) [OF assms] by blast
  have colon: "\<not> contains ''://'' (b64encode bs)"
    using encoded_plain(2) [OF assms] contains_char [of "''://''" "b64encode bs" "CHR '':''"] by auto
  have len: "length (b64encode bs) < 16 \<longleftrightarrow> length bs < 10" using length_encoded [of bs] by (auto split: if_splits; presburger)
  have "b64_shape (b64encode bs) \<longleftrightarrow> bs \<noteq> []"
    unfolding b64_shape_def Let_def b64_data_pad(1) [OF assms] length_map b64_data_pad(2) [OF assms] length_pad
    using set_pad [of bs] sextets_lt [OF assms] by (auto simp: list_all_iff)
  moreover have "list_framed bs \<Longrightarrow> bs \<noteq> []" by (auto simp: list_framed_def)
  ultimately show ?thesis unfolding is_base64_text_def Let_def strip base64_roundtrip [OF assms] using dot colon len by auto
qed

lemma fallback_key_valid: "is_base64_list (JStr ECH_FALLBACK_B64)"
proof -
  have "list_all (\<lambda>b. b < 256) ECH_CONFIG_FALLBACK \<and> 10 \<le> length ECH_CONFIG_FALLBACK \<and> list_framed ECH_CONFIG_FALLBACK"
    by (simp add: ECH_CONFIG_FALLBACK_def list_framed_def)
  then have "is_base64_text ECH_FALLBACK_B64" unfolding ECH_FALLBACK_B64_def using encoded_list_accepted by blast
  then show ?thesis by (auto simp: is_base64_list_def or_else_def truthy_def py_str_def is_base64_text_def)
qed

lemma is_base64_list_JStr: "is_base64_list (JStr s) = is_base64_text s"
  by (auto simp: is_base64_list_def or_else_def truthy_def py_str_def)

lemma find_SomeD: "List.find P xs = Some x \<Longrightarrow> P x \<and> x \<in> set xs"
  by (metis find_Some_iff nth_mem)

lemma race_good: "fst (race a) \<noteq> [] \<Longrightarrow> is_base64_list (JStr (fst (race a)))"
  by (cases "List.find good_answer a")
    (auto simp: race_def good_answer_def dest!: find_SomeD split: option.splits prod.splits)

lemma race_pair_good: "race a = (k, l) \<Longrightarrow> k \<noteq> [] \<Longrightarrow> is_base64_list (JStr k)"
  using race_good [of a] by simp

lemma two_stages_good: "fst (two_stages u d) \<noteq> [] \<Longrightarrow> is_base64_list (JStr (fst (two_stages u d)))"
  by (auto simp: two_stages_def race_good split: sum.splits if_splits)

lemma cached_key_good:
  assumes "cache_get c d \<noteq> []" shows "is_base64_list (dict_get_or (cache_get c d) ''key'' JNull)"
proof -
  have n: "\<not> is_base64_list (JStr [])" by (simp add: is_base64_list_JStr is_base64_text_def)
  obtain e where e: "cache_get c d = e" "is_base64_list (dict_get_or e ''key'' (JStr []))"
    using assms by (auto simp: cache_get_def split: option.splits json.splits if_splits)
  then show ?thesis using n by (auto simp: dict_get_or_def split: option.splits)
qed

lemma cache_get_put:
  assumes "cache_writable c" "is_base64_list (JStr k)"
  shows "cache_get (cache_put d k src now c) d
    = [(''key'', JStr k), (''fetched_at'', JNum now), (''source'', JStr src)]"
proof -
  have "dict_get_or [(''key'', JStr k), (''fetched_at'', JNum now), (''source'', JStr src)] ''key'' (JStr []) = JStr k"
    by (simp add: dict_get_or_def dict_get_def)
  then show ?thesis using assms by (simp add: cache_get_def cache_put_def cache_load_def Let_def)
qed

lemma cache_get_put_other:
  assumes "lower d' \<noteq> lower d"
  shows "cache_get (cache_put d k src now c) d' = cache_get c d'"
  using assms by (simp add: cache_get_def cache_put_def cache_load_def Let_def)

text \<open>C37: when \<open>resolve\<close> returns, a key that it calls fresh, cached or built-in always passes the check of an ECHConfigList;
  otherwise the value of the link is handed on unchanged and the cache file is left alone.\<close>

theorem resolved_keys_are_lists:
  assumes "resolve v udp doh now fb c = (Inr r, c')"
  shows "er_state r \<in> {Fresh, Cached, Fallback} \<and> is_base64_list (er_value r)
    \<or> er_state r \<in> {RawValue, NoKey} \<and> er_value r = JStr (strip v) \<and> c' = c"
  using assms two_stages_good [of udp doh] fallback_key_valid cached_key_good [of c]
  by (auto simp: resolve_def resolve_without_answer_def Let_def ech_resolution_def rbind_eq_Inr_iff
    split: if_splits prod.splits)

text \<open>C38: when the cache file can be written, a key fetched once is what \<open>resolve\<close> hands out when every resolver is silent later, whatever value
  the cache had before, with its age and the resolver it came from; the built-in key is not used then.\<close>

theorem fetched_key_is_reused:
  assumes "parse_ech_value v = (d, h)" "d \<noteq> []" "cache_writable c"
    and "two_stages udp doh = (key, label)" "key \<noteq> []" "two_stages udp' doh' = ([], [])"
    and "\<bar>later - now\<bar> < of_int float_limit"
  shows "fst (resolve v udp' doh' later fb (snd (resolve v udp doh now fb c)))
    = Inr (ech_resolution (JStr key) Cached (JStr label) (Fin (later - now)) d)"
proof -
  have v: "strip v \<noteq> []" "\<not> is_base64_list (JStr (strip v))" "parse_ech_value (strip v) = (d, h)"
    using assms(1,2) by (auto simp: parse_ech_value_def Let_def is_base64_list_JStr split: if_splits)
  have good: "is_base64_list (JStr key)" using two_stages_good [of udp doh] assms(4,5) by simp
  let ?c = "cache_put d key label now c"
  have r: "snd (resolve v udp doh now fb c) = ?c" using v assms by (simp add: resolve_def)
  have "fst (resolve v udp' doh' later fb ?c) = resolve_without_answer (strip v) d ?c later fb"
    using v assms by (simp add: resolve_def)
  also have "\<dots> = Inr (ech_resolution (JStr key) Cached (JStr label) (Fin (later - now)) d)"
    using assms(7) unfolding resolve_without_answer_def cache_get_put [OF assms(3) good]
    by (simp add: Let_def dict_get_or_def dict_get_def age_since_def flt_add_def negate_def fin_def abs_less_iff)
  finally show ?thesis unfolding r .
qed

definition sample_list :: "nat list" where
  "sample_list = [0, 8, 0xfe, 0x0d, 0, 4, 1, 2, 3, 4]"

lemma sample_key: "is_base64_text (b64encode sample_list)" "b64encode sample_list \<noteq> []"
proof -
  have "list_all (\<lambda>b. b < 256) sample_list \<and> 10 \<le> length sample_list \<and> list_framed sample_list"
    by (simp add: sample_list_def list_framed_def)
  then show *: "is_base64_text (b64encode sample_list)" using encoded_list_accepted by blast
  show "b64encode sample_list \<noteq> []" using * by (auto simp: is_base64_text_def)
qed

theorem fetched_key_is_reused_witness:
  "fst (resolve ''cloudflare-ech.com+udp://1.1.1.1'' (Inr []) (Inl RuntimeError) 160 True
      (snd (resolve ''cloudflare-ech.com+udp://1.1.1.1'' (Inr [(''udp 1.1.1.1'', None), (''udp 8.8.8.8'', Some (b64encode sample_list))])
        (Inr []) 100 True \<lparr>cache_file = None, cache_writable = True\<rparr>)))
    = Inr (ech_resolution (JStr (b64encode sample_list)) Cached (JStr ''udp 8.8.8.8'') (Fin 60) ''cloudflare-ech.com'')"
proof -
  have p: "parse_ech_value ''cloudflare-ech.com+udp://1.1.1.1'' = (''cloudflare-ech.com'', ''udp://1.1.1.1'')"
    by code_simp
  have good: "good_answer (''udp 8.8.8.8'', Some (b64encode sample_list))" "\<not> good_answer (''udp 1.1.1.1'', None)"
    using sample_key by (simp_all add: good_answer_def is_base64_list_JStr)
  then have s: "two_stages (Inr [(''udp 1.1.1.1'', None), (''udp 8.8.8.8'', Some (b64encode sample_list))]) (Inr [])
      = (b64encode sample_list, ''udp 8.8.8.8'')"
    using sample_key by (simp add: two_stages_def race_def)
  have "(60::rat) < of_int float_limit" by (simp add: float_limit_def)
  then show ?thesis
    using fetched_key_is_reused [OF p _ _ s, of "\<lparr>cache_file = None, cache_writable = True\<rparr>" "Inr []" "Inl RuntimeError" 160 100]
      sample_key by (simp add: two_stages_def race_def)
qed

theorem resolved_keys_are_lists_witness:
  "er_state (ech_resolution (JStr ECH_FALLBACK_B64) Fallback (JStr ''built-in'') (Fin 0) ''cloudflare-ech.com'') \<in> {Fresh, Cached, Fallback}
      \<and> is_base64_list (er_value (ech_resolution (JStr ECH_FALLBACK_B64) Fallback (JStr ''built-in'') (Fin 0) ''cloudflare-ech.com''))
    \<or> er_state (ech_resolution (JStr ECH_FALLBACK_B64) Fallback (JStr ''built-in'') (Fin 0) ''cloudflare-ech.com'') \<in> {RawValue, NoKey}
      \<and> er_value (ech_resolution (JStr ECH_FALLBACK_B64) Fallback (JStr ''built-in'') (Fin 0) ''cloudflare-ech.com'') = JStr (strip ''cloudflare-ech.com'')
      \<and> \<lparr>cache_file = None, cache_writable = True\<rparr> = \<lparr>cache_file = None, cache_writable = True\<rparr>"
proof (rule resolved_keys_are_lists)
  have p: "strip ''cloudflare-ech.com'' = ''cloudflare-ech.com''" "\<not> is_base64_text ''cloudflare-ech.com''"
    "parse_ech_value ''cloudflare-ech.com'' = (''cloudflare-ech.com'', [])"
    by code_simp+
  show "resolve ''cloudflare-ech.com'' (Inr []) (Inr []) 160 True \<lparr>cache_file = None, cache_writable = True\<rparr>
    = (Inr (ech_resolution (JStr ECH_FALLBACK_B64) Fallback (JStr ''built-in'') (Fin 0) ''cloudflare-ech.com''),
       \<lparr>cache_file = None, cache_writable = True\<rparr>)"
    using fallback_key_valid by (simp add: resolve_def p is_base64_list_JStr two_stages_def race_def resolve_without_answer_def
      cache_get_def cache_load_def ECH_FALLBACK_DOMAINS_def)
qed

lemma prefetched_keys_are_lists:
  assumes "prefetch_pow_key d routes now background block c = Inr (p, c')"
  shows "pf_key p = JStr [] \<and> pf_source p = [] \<or> is_base64_list (pf_key p)"
  using assms race_pair_good cached_key_good [of c d]
  by (auto simp: prefetch_pow_key_def Let_def prefetch_def rbind_eq_Inr_iff split: if_splits prod.splits sum.splits)

text \<open>Two observations: a damaged time stamp in the cache file makes \<open>resolve\<close> raise, and the
  form of the link value that the module describes does not survive the query parser.\<close>

lemma resolve_raises_on_a_bad_stamp:
  "fst (resolve ''example.com'' (Inr []) (Inr []) 160 True \<lparr>cache_file = Some (JObj [(''example.com'',
      JObj [(''key'', JStr (b64encode sample_list)), (''fetched_at'', JNull)])]), cache_writable = True\<rparr>) = Inl TypeError"
proof -
  have p: "strip ''example.com'' = ''example.com''" "\<not> is_base64_text ''example.com''"
    "parse_ech_value ''example.com'' = (''example.com'', [])" "lower ''example.com'' = ''example.com''"
    by code_simp+
  show ?thesis by (simp add: resolve_def p is_base64_list_JStr two_stages_def race_def resolve_without_answer_def
      cache_get_def cache_load_def dict_get_def dict_get_or_def sample_key)
qed

lemma query_loses_the_plus:
  "parse_qsl ''ech=cloudflare-ech.com+udp://1.1.1.1'' = [(''ech'', ''cloudflare-ech.com udp://1.1.1.1'')]"
  "parse_ech_value ''cloudflare-ech.com udp://1.1.1.1'' = (''cloudflare-ech.com udp://1.1.1.1'', [])"
  by code_simp+

end
