(* ===== verification/Pow_Session.thy ===== *)
theory Pow_Session
  imports Pow_Store Pow_Status Pow_Speed Tunnel_Config
begin

text \<open>
  \<open>pow/coordinator.py\<close>, the state of \<open>PowCoordinator\<close> and how its exit is carried: the Windows proxy
  (behind the HTTP forwarder or the App Bypass proxy of sing-box) or the TUN of sing-box, their
  teardown, the fallback from TUN to the proxy, \<open>switch_exit_mode\<close>, \<open>_fail\<close> and \<open>disconnect\<close>.

  An operation is a function of the state that returns a value or the exception raised, and the new
  state. Whatever it asks the outside (does the port accept, did the process start, is the TUN
  verified) is answered by a \<open>world\<close>, one answer per question, and before any answer another thread may
  run \<open>disconnect\<close> as a whole: that is how a user cancels a connect that is under way. What the Windows
  settings point at is a state of its own (\<open>c_windows\<close>), beside the proxy object the session holds:
  \<open>suspend\<close> can fail unseen and \<open>resume\<close> can raise after it wrote, as \<open>c_clean\<close> answers. Stopping a process
  or a listener is taken to work. Log lines that carry no state are left out, those of the dialling
  order are kept.

  The locale \<open>exit_client\<close> is what an assertion needs so that every operation on the exit keeps it; it is
  interpreted for who ended the session, what became of its legs and where Windows is pointed.
\<close>

section \<open>State\<close>

datatype sing_box = Tun string int int | Mixed int int
  \<comment> \<open>\<open>_tun_process\<close>: a TUN (stack, MTU, exit port) or the App Bypass proxy (port, exit port)\<close>

datatype dial_log =
    OuterAttempt string int string          \<comment> \<open>protocol, budget in ms, scan mode\<close>
  | PsiphonAttempt string string bool int   \<comment> \<open>strategy, region, nearby, upstream port\<close>
  | ExitNow bool                            \<comment> \<open>the Windows proxy rather than TUN\<close>

record coord =
  c_stop :: bool
  c_epoch :: nat
  c_me :: nat                        \<comment> \<open>\<open>_tls.epoch\<close> of the thread that is followed\<close>
  c_connected :: bool
  c_aether :: "string option"        \<comment> \<open>the outer leg that was started and not stopped\<close>
  c_psiphon :: "(string \<times> int) option" \<comment> \<open>strategy and upstream port, 0 when it dials itself\<close>
  c_forwarder :: "(int \<times> int) option" \<comment> \<open>\<open>_forwarder\<close>: port, exit port\<close>
  c_listeners :: "(int \<times> int) list"   \<comment> \<open>the forwarders that listen\<close>
  c_proxy :: "(int \<times> int) option"     \<comment> \<open>\<open>_proxy\<close>: the SOCKS and HTTP port Windows is pointed at\<close>
  c_windows :: "(int \<times> int) option"   \<comment> \<open>what the Windows settings are pointed at by the session\<close>
  c_clean :: "nat \<Rightarrow> bool"             \<comment> \<open>the \<open>n\<close>-th \<open>suspend\<close> works; the \<open>n\<close>-th call, a \<open>resume\<close> that fails, changes nothing\<close>
  c_cleans :: nat
  c_proxy_session :: bool
  c_tun :: "sing_box option"
  c_tun_stack :: "(string \<times> int) option"
  c_tun_misses :: nat
  c_tun_next_probe :: rat
  c_fell_back :: bool
  c_proxy_mode :: bool
  c_warp_only :: bool
  c_direct :: bool                   \<comment> \<open>\<open>_direct_psiphon\<close>\<close>
  c_exit_port :: int
  c_chain_port :: int
  c_router :: bool
  c_sessions :: nat
  c_forward_port :: int
  c_psiphon_port :: int
  c_bypass :: "string list"
  c_last_outer :: string
  c_won_transport :: string
  c_won_ip :: string
  c_h3_transport :: string
  c_exit_region :: string
  c_outer_label :: string
  c_settings :: pow_settings         \<comment> \<open>\<open>_speed\<close>\<close>
  c_status :: pow_status
  c_store :: pow_store
  c_log :: "dial_log list"
  c_tick :: nat

record world =
  w_answer :: "nat \<Rightarrow> bool"
  w_cancel :: "nat \<Rightarrow> bool"       \<comment> \<open>another thread disconnects before the answer\<close>
  w_clock :: "nat \<Rightarrow> rat"
  w_now :: int                   \<comment> \<open>the stamp of the store\<close>
  w_disk :: bool                 \<comment> \<open>writes of the store succeed\<close>
  w_region :: "nat \<Rightarrow> string"     \<comment> \<open>the region Psiphon reports\<close>
  w_regions :: "string list"     \<comment> \<open>the regions it offers\<close>
  w_network :: string            \<comment> \<open>the key of the network\<close>
  w_net_off :: bool              \<comment> \<open>\<open>UAC_NET_KEYFETCH\<close>\<close>
  w_net_force :: bool
  w_data :: data_dir

definition FORWARD_HTTP_PORT :: int where "FORWARD_HTTP_PORT = 1822"
definition ROUTER_PORT :: int where "ROUTER_PORT = 1825"

definition TUN_ATTEMPTS :: "(string \<times> int) list" where
  "TUN_ATTEMPTS = [(''mixed'', 1400), (''gvisor'', 1280), (''system'', 1280)]"

section \<open>Operations that may raise\<close>

datatype failure = Engine string | OtherError
  \<comment> \<open>\<open>PowEngineError\<close> with its text; any other exception\<close>

type_synonym 'a act = "coord \<Rightarrow> (failure + 'a) \<times> coord"

definition give :: "'a \<Rightarrow> 'a act" where
  "give a = (\<lambda>s. (Inr a, s))"

definition fail :: "failure \<Rightarrow> 'a act" where
  "fail e = (\<lambda>s. (Inl e, s))"

definition bind :: "'a act \<Rightarrow> ('a \<Rightarrow> 'b act) \<Rightarrow> 'b act" where
  "bind m f = (\<lambda>s. case m s of (Inl e, s') \<Rightarrow> (Inl e, s') | (Inr a, s') \<Rightarrow> f a s')"

definition seq2 :: "'a act \<Rightarrow> 'b act \<Rightarrow> 'b act" where
  "seq2 m k = bind m (\<lambda>_. k)"

definition look :: "(coord \<Rightarrow> 'a) \<Rightarrow> 'a act" where
  "look f = (\<lambda>s. (Inr (f s), s))"

definition change :: "(coord \<Rightarrow> coord) \<Rightarrow> unit act" where
  "change f = (\<lambda>s. (Inr (), f s))"

definition catching :: "'a act \<Rightarrow> (failure \<Rightarrow> 'a act) \<Rightarrow> 'a act" where
  "catching m h = (\<lambda>s. case m s of (Inl e, s') \<Rightarrow> h e s' | r \<Rightarrow> r)"

definition catching_engine :: "'a act \<Rightarrow> (string \<Rightarrow> 'a act) \<Rightarrow> 'a act" where
  \<comment> \<open>\<open>except PowEngineError as exc\<close>\<close>
  "catching_engine m h = catching m (\<lambda>e. case e of Engine t \<Rightarrow> h t | OtherError \<Rightarrow> fail OtherError)"

definition only_if :: "bool \<Rightarrow> unit act \<Rightarrow> unit act" where
  "only_if b m = (if b then m else give ())"

definition report :: "status_op \<Rightarrow> unit act" where
  "report op = change (\<lambda>s. s\<lparr>c_status := status_step op (c_status s)\<rparr>)"

definition log_line :: "dial_log \<Rightarrow> unit act" where
  "log_line l = change (\<lambda>s. s\<lparr>c_log := c_log s @ [l]\<rparr>)"

section \<open>Teardown\<close>

definition stop_tun :: "coord \<Rightarrow> coord" where
  \<comment> \<open>\<open>_stop_tun_process\<close>\<close>
  "stop_tun s = s\<lparr>c_tun := None\<rparr>"

definition drop_forwarder :: "coord \<Rightarrow> coord" where
  "drop_forwarder s = (case c_forwarder s of None \<Rightarrow> s
   | Some f \<Rightarrow> s\<lparr>c_forwarder := None, c_listeners := remove1 f (c_listeners s)\<rparr>)"

definition drop_proxy :: "coord \<Rightarrow> coord" where
  \<comment> \<open>\<open>proxy, self._proxy = self._proxy, None\<close> and \<open>proxy.suspend()\<close>, whose failure is swallowed\<close>
  "drop_proxy s = s\<lparr>c_proxy := None,
     c_windows := (if c_proxy s \<noteq> None \<and> c_clean s (c_cleans s) then None else c_windows s),
     c_cleans := (if c_proxy s \<noteq> None then Suc (c_cleans s) else c_cleans s)\<rparr>"

definition teardown_exit :: "coord \<Rightarrow> coord" where
  "teardown_exit s = drop_proxy (drop_forwarder (stop_tun s))"

definition stop_parallel :: "coord \<Rightarrow> coord" where
  \<comment> \<open>\<open>_stop_parallel_masque\<close>\<close>
  "stop_parallel s = s\<lparr>c_sessions := 0, c_router := False, c_chain_port := CHAIN_SOCKS_PORT\<rparr>"

definition disconnect :: "bool \<Rightarrow> nat option \<Rightarrow> coord \<Rightarrow> coord" where
  \<comment> \<open>a cancel of an older epoch is stale\<close>
  "disconnect quiet epoch s = (
     if (case epoch of None \<Rightarrow> False | Some e \<Rightarrow> c_epoch s \<noteq> e) then s
     else let s = s\<lparr>c_epoch := (case epoch of None \<Rightarrow> Suc (c_epoch s) | Some e \<Rightarrow> c_epoch s), c_stop := True,
                c_connected := False, c_psiphon := None, c_aether := None\<rparr>;
              s = teardown_exit (stop_parallel s);
              s = s\<lparr>c_proxy_session := False, c_exit_port := 0, c_outer_label := [], c_exit_region := [], c_direct := False,
                c_warp_only := False, c_last_outer := [], c_won_transport := [], c_won_ip := []\<rparr>
       in if quiet then s else s\<lparr>c_status := fst (reset_status (c_status s))\<rparr>)"

definition ask :: "world \<Rightarrow> bool act" where
  \<comment> \<open>one question to the outside\<close>
  "ask w = (\<lambda>s. let n = c_tick s; s = (if w_cancel w n then disconnect False None s else s) in
     (Inr (w_answer w n), s\<lparr>c_tick := Suc n\<rparr>))"

definition ask_running :: "world \<Rightarrow> bool act" where
  \<comment> \<open>a wait that ends with the stop event: \<open>wait_ready\<close>, \<open>wait_connected\<close>\<close>
  "ask_running w = bind (ask w) (\<lambda>a. look (\<lambda>s. a \<and> \<not> c_stop s))"

definition must :: "world \<Rightarrow> failure \<Rightarrow> unit act" where
  "must w e = bind (ask w) (\<lambda>a. if a then give () else fail e)"

definition ensure_active :: "unit act" where
  "ensure_active = bind (look (\<lambda>s. c_stop s \<or> c_me s \<noteq> c_epoch s)) (\<lambda>b. if b then fail (Engine ''stopped'') else give ())"

section \<open>The exit\<close>

definition tcp_accepts :: "world \<Rightarrow> (coord \<Rightarrow> int) \<Rightarrow> bool act" where
  \<comment> \<open>nothing listens on port 0\<close>
  "tcp_accepts w port = bind (ask w) (\<lambda>a. look (\<lambda>s. a \<and> port s > 0))"

definition exit_must_listen :: "world \<Rightarrow> unit act" where
  \<comment> \<open>asked twice\<close>
  "exit_must_listen w = bind (tcp_accepts w c_exit_port) (\<lambda>a. if a then give ()
     else bind (tcp_accepts w c_exit_port) (\<lambda>b. if b then give () else fail (Engine ''exit proxy is not listening'')))"

definition set_windows :: "int \<Rightarrow> int \<Rightarrow> coord \<Rightarrow> coord" where
  "set_windows socks http s = s\<lparr>c_windows := Some (socks, http), c_proxy := Some (socks, http), c_proxy_session := True\<rparr>"

definition miss_windows :: "int \<Rightarrow> int \<Rightarrow> coord \<Rightarrow> coord" where
  \<comment> \<open>\<open>resume\<close> raised, before or after the values were written\<close>
  "miss_windows socks http s = s\<lparr>c_windows := (if c_clean s (c_cleans s) then c_windows s else Some (socks, http)),
     c_cleans := Suc (c_cleans s)\<rparr>"

definition point_windows :: "world \<Rightarrow> int \<Rightarrow> int \<Rightarrow> unit act" where
  \<comment> \<open>\<open>proxy.resume(...)\<close>, then the object is remembered\<close>
  "point_windows w socks http = bind (ask w) (\<lambda>ok. if ok then change (set_windows socks http)
     else seq2 (change (miss_windows socks http)) (fail OtherError))"

definition forward_port :: "coord \<Rightarrow> int" where
  "forward_port s = (if c_forward_port s \<noteq> 0 then c_forward_port s else FORWARD_HTTP_PORT)"

definition enable_bypass_proxy :: "world \<Rightarrow> unit act" where
  \<comment> \<open>the part of \<open>_enable_proxy\<close> for App Bypass: binary, configuration, its check, start, the port\<close>
  "enable_bypass_proxy w = bind (look forward_port) (\<lambda>port. seq2 (must w (Engine ''sing-box.exe is missing''))
     (bind (look c_exit_port) (\<lambda>exit. seq2 (must w OtherError)
     (seq2 (must w (Engine ''sing-box config check failed'')) (seq2 (must w OtherError)
     (seq2 (must w (Engine ''sing-box proxy exited immediately'')) (seq2 (must w (Engine ''local App Bypass proxy did not start''))
     (seq2 (change (\<lambda>s. s\<lparr>c_tun := Some (Mixed port exit)\<rparr>)) (point_windows w port port)))))))))"

definition enable_forwarder :: "world \<Rightarrow> unit act" where
  "enable_forwarder w = bind (look (\<lambda>s. (forward_port s, c_exit_port s))) (\<lambda>(port, exit).
     seq2 (must w (Engine ''local HTTP proxy port could not be opened''))
     (seq2 (must w (Engine ''local HTTP forwarder did not start''))
     (seq2 (change (\<lambda>s. s\<lparr>c_forwarder := Some (port, exit), c_listeners := (port, exit) # c_listeners s\<rparr>))
     (bind (look c_exit_port) (\<lambda>socks. point_windows w socks port)))))"

definition enable_proxy :: "world \<Rightarrow> unit act" where
  "enable_proxy w = seq2 (exit_must_listen w) (bind (look c_bypass) (\<lambda>bypass.
     if bypass \<noteq> [] then enable_bypass_proxy w else enable_forwarder w))"

definition start_tun :: "world \<Rightarrow> string \<Rightarrow> int \<Rightarrow> unit act" where
  \<comment> \<open>\<open>_start_tun_process\<close>: the configuration is written and checked, sing-box starts and stays, the
     Windows proxy is suspended\<close>
  "start_tun w stack mtu = bind (look c_exit_port) (\<lambda>exit.
     seq2 (must w OtherError) (seq2 (must w (Engine ''sing-box config check failed'')) (seq2 (must w OtherError)
     (seq2 (change (\<lambda>s. s\<lparr>c_tun := Some (Tun stack mtu exit)\<rparr>))
     (seq2 (must w (Engine ''sing-box TUN exited immediately''))
       (change drop_proxy))))))"

definition tun_fallback :: "world \<Rightarrow> unit act" where
  "tun_fallback w = seq2 (change (\<lambda>s. (stop_tun s)\<lparr>c_fell_back := True\<rparr>)) (enable_proxy w)"

definition ensure_active_or_drop :: "unit act" where
  \<comment> \<open>replaced mid-check: only the sing-box of this attempt is stopped\<close>
  "ensure_active_or_drop = catching_engine ensure_active (\<lambda>t. seq2 (change stop_tun) (fail (Engine t)))"

fun verify_times :: "world \<Rightarrow> nat \<Rightarrow> bool act" where
  "verify_times w 0 = give False"
| "verify_times w (Suc n) = seq2 ensure_active_or_drop (bind (ask w) (\<lambda>ok. if ok then give True else verify_times w n))"

fun try_tuns :: "world \<Rightarrow> (string \<times> int) list \<Rightarrow> bool act" where
  \<comment> \<open>the loop of \<open>_enable_tun\<close>; true when a TUN was verified\<close>
  "try_tuns w [] = give False"
| "try_tuns w ((stack, mtu) # rest) = seq2 ensure_active
     (bind (catching_engine (seq2 (start_tun w stack mtu) (give True)) (\<lambda>_. seq2 (change stop_tun) (give False)))
       (\<lambda>started. if \<not> started then try_tuns w rest
         else bind (verify_times w 2) (\<lambda>ok.
           if ok then seq2 (change (\<lambda>s. s\<lparr>c_tun_stack := Some (stack, mtu)\<rparr>)) (give True)
           else seq2 (change stop_tun) (try_tuns w rest))))"

definition enable_tun :: "world \<Rightarrow> unit act" where
  \<comment> \<open>administrator, binary, the exit, a stale sing-box, the attempts\<close>
  "enable_tun w = bind (ask w) (\<lambda>admin. if \<not> admin then tun_fallback w
     else bind (ask w) (\<lambda>binary. if \<not> binary then tun_fallback w
     else seq2 ensure_active (bind (look c_exit_port) (\<lambda>exit.
       if exit \<le> 0 then fail (Engine ''exit proxy is not listening'')
       else seq2 (exit_must_listen w) (bind (try_tuns w TUN_ATTEMPTS) (\<lambda>ok.
         if ok then give () else tun_fallback w))))))"

definition enable_exit :: "world \<Rightarrow> bool \<Rightarrow> unit act" where
  "enable_exit w proxy = (if proxy then enable_proxy w else enable_tun w)"

definition fail_session :: "string \<Rightarrow> coord \<Rightarrow> coord" where
  \<comment> \<open>\<open>_fail\<close>\<close>
  "fail_session reason s = (if c_stop s then s
     else (drop_proxy (stop_tun s))\<lparr>c_status := status_step (Update PhaseFailed 0 reason None None) (c_status s),
       c_connected := False\<rparr>)"

definition actual_proxy_mode :: "coord \<Rightarrow> bool option" where
  "actual_proxy_mode s = (if c_connected s then Some (c_proxy_mode s \<or> c_fell_back s) else None)"

datatype switched = SwIdle | SwUnchanged | SwStopped | SwFailed | SwProxy | SwTun

definition exit_wanted :: "world \<Rightarrow> bool \<Rightarrow> switched act" where
  "exit_wanted w want = seq2 ensure_active (seq2 (enable_exit w want)
     (look (\<lambda>s. if c_proxy_mode s \<or> c_fell_back s then SwProxy else SwTun)))"

definition exit_instead :: "world \<Rightarrow> bool \<Rightarrow> switched act" where
  \<comment> \<open>the handler of \<open>switch_exit_mode\<close>: the Windows proxy, and whatever that raises ends the session\<close>
  "exit_instead w want = bind (look (\<lambda>s. c_stop s \<or> c_me s \<noteq> c_epoch s)) (\<lambda>b. if b then give SwStopped
     else catching
       (seq2 (change (\<lambda>s. (teardown_exit s)\<lparr>c_fell_back := \<not> want\<rparr>)) (seq2 (enable_proxy w) (give SwProxy)))
       (\<lambda>_. seq2 (change (fail_session ''exit switch failed'')) (give SwFailed)))"

definition switch_exit_mode :: "world \<Rightarrow> bool \<Rightarrow> switched act" where
  \<comment> \<open>only \<open>PowEngineError\<close> is caught around the first attempt\<close>
  "switch_exit_mode w want = bind (look id) (\<lambda>s0.
     if \<not> c_connected s0 then give SwIdle
     else if (c_proxy_mode s0 \<or> c_fell_back s0) = want then
       seq2 (change (\<lambda>s. if want then s\<lparr>c_proxy_mode := True\<rparr> else s)) (give SwUnchanged)
     else seq2 (change (\<lambda>s. (teardown_exit (s\<lparr>c_me := c_epoch s\<rparr>))\<lparr>c_proxy_mode := want, c_fell_back := False\<rparr>))
       (catching_engine (exit_wanted w want) (\<lambda>_. exit_instead w want)))"

section \<open>Triples\<close>

definition triple :: "(coord \<Rightarrow> bool) \<Rightarrow> 'a act \<Rightarrow> ('a \<Rightarrow> coord \<Rightarrow> bool) \<Rightarrow> (coord \<Rightarrow> bool) \<Rightarrow> bool" where
  \<comment> \<open>from \<open>P\<close> the operation returns with \<open>Q\<close> or raises with \<open>R\<close>\<close>
  "triple P m Q R \<longleftrightarrow> (\<forall>s. P s \<longrightarrow> (case m s of (Inr a, s') \<Rightarrow> Q a s' | (Inl e, s') \<Rightarrow> R s'))"

definition calm :: "(coord \<Rightarrow> bool) \<Rightarrow> bool" where
  \<comment> \<open>a question, and a disconnect of another thread before it, keep the assertion\<close>
  "calm A \<longleftrightarrow> (\<forall>s n. A s \<longrightarrow> A (s\<lparr>c_tick := n\<rparr>) \<and> A ((disconnect False None s)\<lparr>c_tick := n\<rparr>))"

lemma triple_returns: "triple P m Q R \<Longrightarrow> P s \<Longrightarrow> m s = (Inr a, s') \<Longrightarrow> Q a s'"
  by (force simp: triple_def)

lemma triple_raises: "triple P m Q R \<Longrightarrow> P s \<Longrightarrow> m s = (Inl e, s') \<Longrightarrow> R s'"
  by (force simp: triple_def)

lemma tr_weaken:
  assumes "triple P' m Q' R'" "\<And>s. P s \<Longrightarrow> P' s" "\<And>a s. Q' a s \<Longrightarrow> Q a s" "\<And>s. R' s \<Longrightarrow> R s"
  shows "triple P m Q R"
  using assms unfolding triple_def by (fastforce split: prod.splits sum.splits)

lemma tr_give: "(\<And>s. P s \<Longrightarrow> Q a s) \<Longrightarrow> triple P (give a) Q R"
  by (simp add: triple_def give_def)

lemma tr_fail: "(\<And>s. P s \<Longrightarrow> R s) \<Longrightarrow> triple P (fail e) Q R"
  by (simp add: triple_def fail_def)

lemma tr_look: "(\<And>s. P s \<Longrightarrow> Q (f s) s) \<Longrightarrow> triple P (look f) Q R"
  by (simp add: triple_def look_def)

lemma tr_change: "(\<And>s. P s \<Longrightarrow> Q () (f s)) \<Longrightarrow> triple P (change f) Q R"
  by (simp add: triple_def change_def)

lemma tr_bind:
  assumes "triple P m Q' R" "\<And>a. triple (Q' a) (f a) Q R" shows "triple P (bind m f) Q R"
  using assms unfolding triple_def bind_def by (fastforce split: prod.splits sum.splits)

lemma tr_seq2: "triple P m (\<lambda>_. Q') R \<Longrightarrow> triple Q' k Q R \<Longrightarrow> triple P (seq2 m k) Q R"
  unfolding seq2_def by (rule tr_bind)

lemma tr_look_bind: "(\<And>x. triple (\<lambda>s. P s \<and> f s = x) (g x) Q R) \<Longrightarrow> triple P (bind (look f) g) Q R"
  by (rule tr_bind [where Q' = "\<lambda>x s. P s \<and> f s = x"]) (auto intro: tr_look)

lemma tr_if: "(b \<Longrightarrow> triple P m Q R) \<Longrightarrow> (\<not> b \<Longrightarrow> triple P k Q R) \<Longrightarrow> triple P (if b then m else k) Q R"
  by simp

lemma tr_catching:
  assumes "triple P m Q R'" "\<And>e. triple R' (h e) Q R" shows "triple P (catching m h) Q R"
  using assms unfolding triple_def catching_def by (fastforce split: prod.splits sum.splits)

lemma tr_catching_engine:
  assumes "triple P m Q R'" "\<And>t. triple R' (h t) Q R" "\<And>s. R' s \<Longrightarrow> R s" shows "triple P (catching_engine m h) Q R"
  unfolding catching_engine_def
  by (rule tr_catching [OF assms(1)]) (auto split: failure.splits intro: assms(2) tr_fail assms(3))

lemma tr_ask: "calm P \<Longrightarrow> triple P (ask w) (\<lambda>_. P) R"
  by (auto simp: triple_def ask_def calm_def Let_def)

lemma tr_must: "calm P \<Longrightarrow> (\<And>s. P s \<Longrightarrow> R s) \<Longrightarrow> triple P (must w e) (\<lambda>_. P) R"
  unfolding must_def by (rule tr_bind [OF tr_ask]) (auto intro: tr_give tr_fail)

lemma tr_must_seq: "calm P \<Longrightarrow> (\<And>s. P s \<Longrightarrow> R s) \<Longrightarrow> triple P k Q R \<Longrightarrow> triple P (seq2 (must w e) k) Q R"
  by (rule tr_seq2 [OF tr_must])

lemma tr_ask_bind: "calm P \<Longrightarrow> (\<And>a. triple P (k a) Q R) \<Longrightarrow> triple P (bind (ask w) k) Q R"
  by (rule tr_bind [OF tr_ask])

lemma tr_change_seq: "triple (\<lambda>s. \<exists>s0. P s0 \<and> s = f s0) k Q R \<Longrightarrow> triple P (seq2 (change f) k) Q R"
  by (rule tr_seq2 [where Q' = "\<lambda>s. \<exists>s0. P s0 \<and> s = f s0"]) (auto intro: tr_change)

text \<open>A thread that was cancelled or replaced is dead and stays so; what a live thread has set up is its own.\<close>

definition dead :: "coord \<Rightarrow> bool" where
  "dead s \<longleftrightarrow> c_stop s \<or> c_me s \<noteq> c_epoch s"

lemma dead_disconnect [simp]: "dead (disconnect False None s)"
  by (simp add: dead_def disconnect_def Let_def teardown_exit_def drop_proxy_def drop_forwarder_def stop_tun_def stop_parallel_def
    split: option.splits)

lemma dead_tick [simp]: "dead (s\<lparr>c_tick := n\<rparr>) = dead s" by (simp add: dead_def)

lemma calm_unless_dead: "(\<And>s n. F s \<Longrightarrow> F (s\<lparr>c_tick := n\<rparr>)) \<Longrightarrow> calm (\<lambda>s. dead s \<or> F s)"
  by (auto simp: calm_def)

lemma calm_conj: "calm A \<Longrightarrow> calm B \<Longrightarrow> calm (\<lambda>s. A s \<and> B s)"
  by (auto simp: calm_def)

lemma tr_ensure_active:
  assumes "\<And>s. P s \<Longrightarrow> dead s \<Longrightarrow> R s" shows "triple P ensure_active (\<lambda>_ s. P s \<and> \<not> dead s) R"
  unfolding ensure_active_def
  by (rule tr_look_bind, rule tr_if) (auto intro!: tr_give tr_fail assms simp: dead_def)


section \<open>The exit is carried by one of the two\<close>

definition exit_inv :: "coord \<Rightarrow> bool" where
  "exit_inv s \<longleftrightarrow> (c_proxy s \<noteq> None \<longrightarrow> c_proxy_mode s \<or> c_fell_back s)
     \<and> (\<forall>st mtu e. c_tun s = Some (Tun st mtu e) \<longrightarrow> \<not> c_proxy_mode s \<and> \<not> c_fell_back s)"

definition exit_ready :: "coord \<Rightarrow> bool" where
  \<comment> \<open>what the user chose, or the fallback, leads to the exit port\<close>
  "exit_ready s \<longleftrightarrow> c_exit_port s > 0 \<and> (
     if c_proxy_mode s \<or> c_fell_back s then
       (\<exists>port. (port, c_exit_port s) \<in> set (c_listeners s) \<and> c_proxy s = Some (c_exit_port s, port))
       \<or> (\<exists>port. c_tun s = Some (Mixed port (c_exit_port s)) \<and> c_proxy s = Some (port, port))
     else (\<exists>stack mtu. (stack, mtu) \<in> set TUN_ATTEMPTS \<and> c_tun s = Some (Tun stack mtu (c_exit_port s))) \<and> c_proxy s = None)"

definition by_proxy :: "coord \<Rightarrow> bool" where
  "by_proxy s \<longleftrightarrow> exit_inv s \<and> (c_proxy_mode s \<or> c_fell_back s)"

lemma disconnect_exit [simp]:
  "c_proxy (disconnect q None s) = None" "c_tun (disconnect q None s) = None" "c_exit_port (disconnect q None s) = 0"
  "c_proxy_mode (disconnect q None s) = c_proxy_mode s" "c_fell_back (disconnect q None s) = c_fell_back s"
  "c_connected (disconnect q None s) = False" "c_stop (disconnect q None s)" "c_aether (disconnect q None s) = None"
  "c_psiphon (disconnect q None s) = None" "c_proxy_session (disconnect q None s) = False"
  "c_router (disconnect q None s) = False"
  by (simp_all add: disconnect_def Let_def teardown_exit_def drop_proxy_def drop_forwarder_def stop_tun_def stop_parallel_def
    split: option.splits)

lemma calm_exit_inv [simp]: "calm exit_inv" by (simp add: calm_def exit_inv_def)
lemma calm_by_proxy [simp]: "calm by_proxy" by (simp add: calm_def by_proxy_def exit_inv_def)

lemma tr_exit_must_listen:
  assumes "calm P" "\<And>s. P s \<Longrightarrow> R s"
  shows "triple P (exit_must_listen w) (\<lambda>_ s. P s \<and> c_exit_port s > 0) R"
proof -
  have t: "triple P (tcp_accepts w c_exit_port) (\<lambda>a s. P s \<and> (a \<longrightarrow> c_exit_port s > 0)) R"
    unfolding tcp_accepts_def by (rule tr_ask_bind [OF assms(1)]) (auto intro: tr_look)
  have "triple P (bind (tcp_accepts w c_exit_port) (\<lambda>b. if b then give () else fail (Engine ''exit proxy is not listening'')))
      (\<lambda>_ s. P s \<and> c_exit_port s > 0) R"
    by (rule tr_bind [OF t]) (auto intro: tr_give tr_fail assms(2))
  then have step: "triple (\<lambda>s. P s \<and> (a \<longrightarrow> c_exit_port s > 0)) (if a then give () else
      bind (tcp_accepts w c_exit_port) (\<lambda>b. if b then give () else fail (Engine ''exit proxy is not listening'')))
      (\<lambda>_ s. P s \<and> c_exit_port s > 0) R" for a
    by (cases a) (simp_all add: tr_give)
  show ?thesis unfolding exit_must_listen_def by (rule tr_bind [OF t step])
qed

lemma calm_or_dead:
  assumes "calm P" "\<And>s n. F s \<Longrightarrow> F (s\<lparr>c_tick := n\<rparr>)" shows "calm (\<lambda>s. P s \<and> (dead s \<or> F s))"
proof (rule calm_conj [OF assms(1)])
  show "calm (\<lambda>s. dead s \<or> F s)" using assms(2) unfolding calm_def by (metis dead_disconnect dead_tick)
qed

lemma tr_point_windows:
  assumes "calm P" "\<And>s. P s \<Longrightarrow> R (miss_windows a b s)" "\<And>s. P s \<Longrightarrow> Q () (set_windows a b s)"
  shows "triple P (point_windows w a b) Q R"
  unfolding point_windows_def
  by (rule tr_ask_bind [OF assms(1)], rule tr_if, rule tr_change, erule assms(3),
      rule tr_seq2 [OF tr_change [where Q = "\<lambda>_. R"] tr_fail]) (auto intro: assms(2))

lemma set_windows_simps [simp]:
  "c_proxy (set_windows a b s) = Some (a, b)" "c_tun (set_windows a b s) = c_tun s" "c_exit_port (set_windows a b s) = c_exit_port s"
  "c_listeners (set_windows a b s) = c_listeners s" "c_proxy_mode (set_windows a b s) = c_proxy_mode s"
  "c_fell_back (set_windows a b s) = c_fell_back s" "dead (set_windows a b s) = dead s"
  "c_stop (set_windows a b s) = c_stop s" "c_me (set_windows a b s) = c_me s" "c_epoch (set_windows a b s) = c_epoch s"
  "c_proxy (miss_windows a b s) = c_proxy s" "c_tun (miss_windows a b s) = c_tun s"
  "c_proxy_mode (miss_windows a b s) = c_proxy_mode s" "c_fell_back (miss_windows a b s) = c_fell_back s"
  "dead (miss_windows a b s) = dead s"
  by (simp_all add: set_windows_def miss_windows_def dead_def)

lemma by_proxy_upd [simp]:
  "by_proxy s \<Longrightarrow> by_proxy (set_windows a b s)" "by_proxy s \<Longrightarrow> by_proxy (miss_windows a b s)"
  "by_proxy s \<Longrightarrow> by_proxy (s\<lparr>c_tun := Some (Mixed x y)\<rparr>)"
  "by_proxy s \<Longrightarrow> by_proxy (s\<lparr>c_forwarder := fw, c_listeners := l\<rparr>)"
  by (auto simp: by_proxy_def exit_inv_def)

lemma tr_enable_forwarder:
  "triple (\<lambda>s. by_proxy s \<and> (dead s \<or> c_exit_port s > 0)) (enable_forwarder w)
     (\<lambda>_ s. by_proxy s \<and> (dead s \<or> exit_ready s)) by_proxy"
  unfolding enable_forwarder_def
proof (rule tr_look_bind, clarsimp split: prod.splits)
  fix port exit
  let ?A = "\<lambda>s. by_proxy s \<and> (dead s \<or> c_exit_port s = exit \<and> exit > 0)"
  let ?B = "\<lambda>s. by_proxy s \<and> (dead s \<or> c_exit_port s = exit \<and> exit > 0 \<and> (port, exit) \<in> set (c_listeners s))"
  have b: "triple ?B (bind (look c_exit_port) (\<lambda>socks. point_windows w socks port))
      (\<lambda>_ s. by_proxy s \<and> (dead s \<or> exit_ready s)) by_proxy"
  proof (rule tr_look_bind)
    fix socks
    show "triple (\<lambda>s. ?B s \<and> c_exit_port s = socks) (point_windows w socks port)
        (\<lambda>_ s. by_proxy s \<and> (dead s \<or> exit_ready s)) by_proxy"
    proof (rule tr_weaken [where P' = "\<lambda>s. by_proxy s \<and> (dead s \<or> c_exit_port s = exit \<and> exit > 0 \<and> (port, exit) \<in> set (c_listeners s) \<and> socks = exit)"])
      show "triple (\<lambda>s. by_proxy s \<and> (dead s \<or> c_exit_port s = exit \<and> exit > 0 \<and> (port, exit) \<in> set (c_listeners s) \<and> socks = exit))
          (point_windows w socks port) (\<lambda>_ s. by_proxy s \<and> (dead s \<or> exit_ready s)) by_proxy"
        by (rule tr_point_windows, rule calm_or_dead [OF calm_by_proxy]) (auto simp: exit_ready_def by_proxy_def exit_inv_def dead_def)
    qed auto
  qed
  have "triple ?A (seq2 (must w (Engine ''local HTTP proxy port could not be opened''))
     (seq2 (must w (Engine ''local HTTP forwarder did not start''))
     (seq2 (change (\<lambda>s. s\<lparr>c_forwarder := Some (port, exit), c_listeners := (port, exit) # c_listeners s\<rparr>))
     (bind (look c_exit_port) (\<lambda>socks. point_windows w socks port)))))
      (\<lambda>_ s. by_proxy s \<and> (dead s \<or> exit_ready s)) by_proxy"
    by (intro tr_must_seq tr_seq2 [OF tr_change b] calm_or_dead [OF calm_by_proxy]) (auto simp: dead_def)
  then show "triple (\<lambda>s. by_proxy s \<and> (dead s \<or> c_exit_port s > 0) \<and> forward_port s = port \<and> c_exit_port s = exit)
     (seq2 (must w (Engine ''local HTTP proxy port could not be opened''))
     (seq2 (must w (Engine ''local HTTP forwarder did not start''))
     (seq2 (change (\<lambda>s. s\<lparr>c_forwarder := Some (port, exit), c_listeners := (port, exit) # c_listeners s\<rparr>))
     (bind (look c_exit_port) (\<lambda>socks. point_windows w socks port)))))
      (\<lambda>_ s. by_proxy s \<and> (dead s \<or> exit_ready s)) by_proxy"
    by (rule tr_weaken) auto
qed


lemma tr_enable_bypass_proxy:
  "triple (\<lambda>s. by_proxy s \<and> (dead s \<or> c_exit_port s > 0)) (enable_bypass_proxy w)
     (\<lambda>_ s. by_proxy s \<and> (dead s \<or> exit_ready s)) by_proxy"
  unfolding enable_bypass_proxy_def
proof (rule tr_look_bind, rule tr_must_seq, simp_all)
  fix port
  show "calm (\<lambda>s. by_proxy s \<and> (dead s \<or> 0 < c_exit_port s) \<and> forward_port s = port)"
    by (auto simp: calm_def by_proxy_def exit_inv_def forward_port_def disconnect_def teardown_exit_def drop_proxy_def
      drop_forwarder_def stop_tun_def stop_parallel_def Let_def dead_def split: option.splits)
  let ?k = "\<lambda>exit. seq2 (must w OtherError)
     (seq2 (must w (Engine ''sing-box config check failed'')) (seq2 (must w OtherError)
     (seq2 (must w (Engine ''sing-box proxy exited immediately'')) (seq2 (must w (Engine ''local App Bypass proxy did not start''))
     (seq2 (change (\<lambda>s. s\<lparr>c_tun := Some (Mixed port exit)\<rparr>)) (point_windows w port port))))))"
  show "triple (\<lambda>s. by_proxy s \<and> (dead s \<or> 0 < c_exit_port s) \<and> forward_port s = port) (bind (look c_exit_port) ?k)
      (\<lambda>_ s. by_proxy s \<and> (dead s \<or> exit_ready s)) by_proxy"
  proof (rule tr_look_bind)
    fix exit
    let ?A = "\<lambda>s. by_proxy s \<and> (dead s \<or> c_exit_port s = exit \<and> exit > 0)"
    let ?B = "\<lambda>s. by_proxy s \<and> (dead s \<or> c_exit_port s = exit \<and> exit > 0 \<and> c_tun s = Some (Mixed port exit))"
    have b: "triple ?B (point_windows w port port) (\<lambda>_ s. by_proxy s \<and> (dead s \<or> exit_ready s)) by_proxy"
      by (rule tr_point_windows, rule calm_or_dead [OF calm_by_proxy])
        (auto simp: exit_ready_def by_proxy_def exit_inv_def dead_def)
    have "triple ?A (?k exit) (\<lambda>_ s. by_proxy s \<and> (dead s \<or> exit_ready s)) by_proxy"
      by (intro tr_must_seq tr_seq2 [OF tr_change b] calm_or_dead [OF calm_by_proxy]) (auto simp: dead_def)
    then show "triple (\<lambda>s. (by_proxy s \<and> (dead s \<or> 0 < c_exit_port s) \<and> forward_port s = port) \<and> c_exit_port s = exit) (?k exit)
        (\<lambda>_ s. by_proxy s \<and> (dead s \<or> exit_ready s)) by_proxy"
      by (rule tr_weaken) auto
  qed
qed

lemma tr_enable_proxy:
  "triple by_proxy (enable_proxy w) (\<lambda>_ s. by_proxy s \<and> (dead s \<or> exit_ready s)) by_proxy"
  unfolding enable_proxy_def
proof (rule tr_seq2 [OF tr_exit_must_listen], simp, assumption, rule tr_look_bind)
  fix bypass
  show "triple (\<lambda>s. (by_proxy s \<and> 0 < c_exit_port s) \<and> c_bypass s = bypass)
      (if bypass \<noteq> [] then enable_bypass_proxy w else enable_forwarder w)
      (\<lambda>_ s. by_proxy s \<and> (dead s \<or> exit_ready s)) by_proxy"
    by (rule tr_if; rule tr_weaken [OF tr_enable_bypass_proxy] tr_weaken [OF tr_enable_forwarder]) auto
qed

definition by_tun :: "coord \<Rightarrow> bool" where
  "by_tun s \<longleftrightarrow> exit_inv s \<and> \<not> c_proxy_mode s \<and> \<not> c_fell_back s"

lemma calm_by_tun [simp]: "calm by_tun"
  unfolding calm_def by (auto simp: by_tun_def exit_inv_def)

lemma by_tun_upd [simp]:
  "by_tun s \<Longrightarrow> by_tun (s\<lparr>c_tun := t\<rparr>)" "by_tun s \<Longrightarrow> by_tun (stop_tun s)" "by_tun s \<Longrightarrow> by_tun (drop_proxy s)"
  "by_tun s \<Longrightarrow> by_tun (s\<lparr>c_tun_stack := x\<rparr>)" "by_tun s \<Longrightarrow> exit_inv s"
  "by_tun s \<Longrightarrow> by_proxy ((stop_tun s)\<lparr>c_fell_back := True\<rparr>)"
  by (auto simp: by_tun_def exit_inv_def stop_tun_def drop_proxy_def by_proxy_def)

lemma dead_upd [simp]:
  "dead (s\<lparr>c_tun := t\<rparr>) = dead s" "dead (stop_tun s) = dead s" "dead (drop_proxy s) = dead s"
  "dead (s\<lparr>c_tun_stack := x\<rparr>) = dead s"
  "c_exit_port (stop_tun s) = c_exit_port s" "c_exit_port (drop_proxy s) = c_exit_port s"
  "c_tun (drop_proxy s) = c_tun s"
  by (simp_all add: dead_def stop_tun_def drop_proxy_def)

lemma by_tun_proxy [simp]: "by_tun s \<Longrightarrow> c_proxy s = None"
  by (cases "c_proxy s") (auto simp: by_tun_def exit_inv_def)

definition tun_up :: "string \<Rightarrow> int \<Rightarrow> coord \<Rightarrow> bool" where
  "tun_up stack mtu s \<longleftrightarrow> by_tun s \<and> (dead s \<or> c_exit_port s > 0 \<and> c_tun s = Some (Tun stack mtu (c_exit_port s)))"

lemma calm_tun_up [simp]: "calm (tun_up stack mtu)"
  unfolding tun_up_def by (rule calm_or_dead) auto

definition tun_wanted :: "coord \<Rightarrow> bool" where
  "tun_wanted s \<longleftrightarrow> by_tun s \<and> (dead s \<or> c_exit_port s > 0)"

lemma calm_tun_wanted [simp]: "calm tun_wanted"
  unfolding tun_wanted_def by (rule calm_or_dead) auto

lemma tun_up_wanted: "tun_up stack mtu s \<Longrightarrow> tun_wanted (stop_tun s)" "tun_up stack mtu s \<Longrightarrow> tun_wanted s"
  "tun_wanted s \<Longrightarrow> tun_wanted (stop_tun s)" "tun_wanted s \<Longrightarrow> by_tun s"
  by (auto simp: tun_up_def tun_wanted_def)

lemma tr_start_tun: "triple tun_wanted (start_tun w stack mtu) (\<lambda>_. tun_up stack mtu) tun_wanted"
  unfolding start_tun_def
proof (rule tr_look_bind)
  fix exit
  let ?A = "\<lambda>s. by_tun s \<and> (dead s \<or> c_exit_port s > 0 \<and> c_exit_port s = exit)"
  let ?k = "seq2 (must w OtherError) (seq2 (must w (Engine ''sing-box config check failed'')) (seq2 (must w OtherError)
     (seq2 (change (\<lambda>s. s\<lparr>c_tun := Some (Tun stack mtu exit)\<rparr>))
     (seq2 (must w (Engine ''sing-box TUN exited immediately'')) (change drop_proxy)))))"
  have "triple ?A ?k (\<lambda>_. tun_up stack mtu) tun_wanted"
    by (intro tr_must_seq tr_seq2 [OF tr_change tr_must_seq [where P = "tun_up stack mtu"]] tr_change calm_or_dead [OF calm_by_tun])
      (auto simp: tun_up_def tun_wanted_def)
  then show "triple (\<lambda>s. tun_wanted s \<and> c_exit_port s = exit) ?k (\<lambda>_. tun_up stack mtu) tun_wanted"
    by (rule tr_weaken) (auto simp: tun_wanted_def)
qed

lemma tr_verify: "triple (tun_up stack mtu) (verify_times w n) (\<lambda>_. tun_up stack mtu) tun_wanted"
proof (induction n)
  case 0
  show ?case by (simp add: tr_give)
next
  case (Suc n)
  have e: "triple (tun_up stack mtu) ensure_active_or_drop (\<lambda>_. tun_up stack mtu) tun_wanted"
    unfolding ensure_active_or_drop_def
  proof (rule tr_catching_engine [where R' = "tun_up stack mtu"])
    show "triple (tun_up stack mtu) ensure_active (\<lambda>_. tun_up stack mtu) (tun_up stack mtu)"
      by (rule tr_weaken [OF tr_ensure_active [where P = "tun_up stack mtu" and R = "tun_up stack mtu"]]) auto
    show "triple (tun_up stack mtu) (seq2 (change stop_tun) (fail (Engine t))) (\<lambda>_. tun_up stack mtu) tun_wanted" for t
      by (rule tr_seq2 [OF tr_change [where Q = "\<lambda>_. tun_wanted"] tr_fail]) (auto simp: tun_up_wanted)
  qed (simp add: tun_up_wanted)
  show ?case unfolding verify_times.simps
    by (rule tr_seq2 [OF e], rule tr_ask_bind) (auto intro!: tr_if tr_give Suc.IH)
qed


lemma tun_up_ready:
  assumes up: "tun_up stack mtu s" and m: "(stack, mtu) \<in> set TUN_ATTEMPTS" and live: "\<not> dead s"
  shows "exit_ready (s\<lparr>c_tun_stack := x\<rparr>)"
proof -
  have b: "by_tun s" "c_exit_port s > 0" "c_tun s = Some (Tun stack mtu (c_exit_port s))"
    using up live by (auto simp: tun_up_def)
  then have "\<not> (c_proxy_mode s \<or> c_fell_back s)" "c_proxy s = None" by (auto simp: by_tun_def)
  moreover have "\<exists>a b. (a, b) \<in> set TUN_ATTEMPTS \<and> c_tun s = Some (Tun a b (c_exit_port s))" using m b(3) by (intro exI conjI)
  ultimately show ?thesis using b(2) by (simp add: exit_ready_def)
qed

lemma tr_try_tuns:
  assumes "set l \<subseteq> set TUN_ATTEMPTS"
  shows "triple tun_wanted (try_tuns w l) (\<lambda>ok s. tun_wanted s \<and> (ok \<longrightarrow> dead s \<or> exit_ready s)) tun_wanted"
  using assms
proof (induction l)
  case Nil
  show ?case by (simp add: tr_give)
next
  case (Cons a l)
  obtain stack mtu where a: "a = (stack, mtu)" by force
  let ?Q = "\<lambda>ok s. tun_wanted s \<and> (ok \<longrightarrow> dead s \<or> exit_ready s)"
  have IH: "triple tun_wanted (try_tuns w l) ?Q tun_wanted" using Cons by simp
  have act: "triple tun_wanted ensure_active (\<lambda>_. tun_wanted) tun_wanted"
    by (rule tr_weaken [OF tr_ensure_active [where P = tun_wanted and R = tun_wanted]]) auto
  have start: "triple tun_wanted (catching_engine (seq2 (start_tun w stack mtu) (give True)) (\<lambda>_. seq2 (change stop_tun) (give False)))
      (\<lambda>b s. if b then tun_up stack mtu s else tun_wanted s) tun_wanted"
    by (rule tr_catching_engine [where R' = tun_wanted], rule tr_seq2 [OF tr_start_tun])
      (auto intro!: tr_give tr_seq2 [OF tr_change [where Q = "\<lambda>_. tun_wanted"]] simp: tun_up_wanted)
  have ready: "triple (tun_up stack mtu) (seq2 (change (\<lambda>s. s\<lparr>c_tun_stack := Some (stack, mtu)\<rparr>)) (give True)) ?Q tun_wanted"
  proof (rule tr_seq2 [OF tr_change tr_give])
    fix s assume "tun_up stack mtu s"
    then show "?Q True (s\<lparr>c_tun_stack := Some (stack, mtu)\<rparr>)"
      using Cons.prems a tun_up_ready [of stack mtu s] by (auto simp: tun_up_def tun_wanted_def)
  qed
  have again: "triple (tun_up stack mtu) (seq2 (change stop_tun) (try_tuns w l)) ?Q tun_wanted"
    by (rule tr_seq2 [OF tr_change IH]) (simp add: tun_up_wanted)
  have up: "triple (tun_up stack mtu) (bind (verify_times w 2) (\<lambda>ok.
      if ok then seq2 (change (\<lambda>s. s\<lparr>c_tun_stack := Some (stack, mtu)\<rparr>)) (give True)
      else seq2 (change stop_tun) (try_tuns w l))) ?Q tun_wanted"
    by (rule tr_bind [OF tr_verify]) (rule tr_if [OF ready again])
  have "triple (\<lambda>s. if b then tun_up stack mtu s else tun_wanted s) (if \<not> b then try_tuns w l
         else bind (verify_times w 2) (\<lambda>ok.
           if ok then seq2 (change (\<lambda>s. s\<lparr>c_tun_stack := Some (stack, mtu)\<rparr>)) (give True)
           else seq2 (change stop_tun) (try_tuns w l))) ?Q tun_wanted" for b
    using up IH by (cases b) simp_all
  then show ?case unfolding a try_tuns.simps by (rule tr_seq2 [OF act tr_bind [OF start]])
qed

lemma by_proxy_inv: "by_proxy s \<Longrightarrow> exit_inv s" by (simp add: by_proxy_def)

lemma tr_tun_fallback:
  "triple by_tun (tun_fallback w) (\<lambda>_ s. exit_inv s \<and> (dead s \<or> exit_ready s)) exit_inv"
  unfolding tun_fallback_def
  by (rule tr_seq2 [OF tr_change tr_weaken [OF tr_enable_proxy]]) (auto simp: by_proxy_inv)

lemma tr_enable_tun:
  "triple by_tun (enable_tun w) (\<lambda>_ s. exit_inv s \<and> (dead s \<or> exit_ready s)) exit_inv"
proof -
  let ?Q = "\<lambda>_ s. exit_inv s \<and> (dead s \<or> exit_ready s)"
  have attempts: "triple (\<lambda>s. by_tun s \<and> c_exit_port s > 0) (bind (try_tuns w TUN_ATTEMPTS) (\<lambda>ok. if ok then give () else tun_fallback w))
      ?Q exit_inv"
  proof (rule tr_bind)
    show "triple (\<lambda>s. by_tun s \<and> c_exit_port s > 0) (try_tuns w TUN_ATTEMPTS)
        (\<lambda>ok s. tun_wanted s \<and> (ok \<longrightarrow> dead s \<or> exit_ready s)) exit_inv"
      by (rule tr_weaken [OF tr_try_tuns]) (auto simp: tun_wanted_def)
    show "triple (\<lambda>s. tun_wanted s \<and> (ok \<longrightarrow> dead s \<or> exit_ready s)) (if ok then give () else tun_fallback w) ?Q exit_inv" for ok
      by (rule tr_if, rule tr_give) (auto simp: tun_wanted_def intro: tr_weaken [OF tr_tun_fallback])
  qed
  have listen: "triple by_tun (seq2 (exit_must_listen w)
      (bind (try_tuns w TUN_ATTEMPTS) (\<lambda>ok. if ok then give () else tun_fallback w))) ?Q exit_inv"
    by (rule tr_seq2 [OF tr_exit_must_listen attempts]) auto
  have "triple by_tun (seq2 ensure_active (bind (look c_exit_port) (\<lambda>exit.
       if exit \<le> 0 then fail (Engine ''exit proxy is not listening'')
       else seq2 (exit_must_listen w) (bind (try_tuns w TUN_ATTEMPTS) (\<lambda>ok. if ok then give () else tun_fallback w))))) ?Q exit_inv"
  proof (rule tr_seq2)
    show "triple by_tun ensure_active (\<lambda>_. by_tun) exit_inv"
      by (rule tr_weaken [OF tr_ensure_active [where P = by_tun and R = exit_inv]]) auto
  qed (auto intro!: tr_look_bind tr_if tr_fail tr_weaken [OF listen])
  then show ?thesis unfolding enable_tun_def
    by (intro tr_ask_bind tr_if tr_tun_fallback) auto
qed

lemma tr_enable_exit:
  "triple (\<lambda>s. exit_inv s \<and> c_proxy_mode s = p \<and> \<not> c_fell_back s) (enable_exit w p)
     (\<lambda>_ s. exit_inv s \<and> (dead s \<or> exit_ready s)) exit_inv"
  unfolding enable_exit_def
  by (rule tr_if; rule tr_weaken [OF tr_enable_proxy] tr_weaken [OF tr_enable_tun])
    (auto simp: by_proxy_def by_tun_def)


text \<open>What an operation leaves alone.\<close>

definition keeps :: "(coord \<Rightarrow> 'b) \<Rightarrow> 'a act \<Rightarrow> bool" where
  "keeps f m \<longleftrightarrow> (\<forall>s. f (snd (m s)) = f s)"

lemma keeps_give: "keeps f (give a)" by (simp add: keeps_def give_def)
lemma keeps_fail: "keeps f (fail e)" by (simp add: keeps_def fail_def)
lemma keeps_look: "keeps f (look g)" by (simp add: keeps_def look_def)
lemma keeps_change: "(\<And>s. f (g s) = f s) \<Longrightarrow> keeps f (change g)" by (simp add: keeps_def change_def)

lemma keeps_bind: "keeps f m \<Longrightarrow> (\<And>a. keeps f (k a)) \<Longrightarrow> keeps f (bind m k)"
  by (auto simp: keeps_def bind_def split: prod.splits sum.splits) (metis snd_conv)+

lemma keeps_seq2: "keeps f m \<Longrightarrow> keeps f k \<Longrightarrow> keeps f (seq2 m k)"
  by (simp add: seq2_def keeps_bind)

lemma keeps_catching: "keeps f m \<Longrightarrow> (\<And>e. keeps f (h e)) \<Longrightarrow> keeps f (catching m h)"
  by (auto simp: keeps_def catching_def split: prod.splits sum.splits) (metis snd_conv)+

lemma keeps_catching_engine: "keeps f m \<Longrightarrow> (\<And>t. keeps f (h t)) \<Longrightarrow> keeps f (catching_engine m h)"
  unfolding catching_engine_def by (rule keeps_catching) (auto split: failure.splits intro: keeps_fail)

lemma keeps_if: "keeps f m \<Longrightarrow> keeps f k \<Longrightarrow> keeps f (if b then m else k)" by simp

definition stable :: "(coord \<Rightarrow> 'b) \<Rightarrow> bool" where
  \<comment> \<open>a question does not change it\<close>
  "stable f \<longleftrightarrow> (\<forall>s n. f (s\<lparr>c_tick := n\<rparr>) = f s \<and> f (disconnect False None s) = f s)"

lemma keeps_ask: "stable f \<Longrightarrow> keeps f (ask w)"
  unfolding keeps_def ask_def stable_def Let_def by (metis snd_conv)

lemma keeps_must: "stable f \<Longrightarrow> keeps f (must w e)"
  unfolding must_def by (rule keeps_bind [OF keeps_ask]) (auto simp: keeps_give keeps_fail)

lemmas keeps_rules = keeps_give keeps_fail keeps_look keeps_bind keeps_seq2 keeps_catching keeps_catching_engine
  keeps_if keeps_ask keeps_must

lemma triple_keeps:
  assumes "triple P m Q R" "keeps f m"
  shows "triple (\<lambda>s. P s \<and> f s = x) m (\<lambda>a s. Q a s \<and> f s = x) (\<lambda>s. R s \<and> f s = x)"
  unfolding triple_def
proof (intro allI impI)
  fix s assume s: "P s \<and> f s = x"
  obtain r s' where m: "m s = (r, s')" by force
  have "f s' = f s" using assms(2) m unfolding keeps_def by (metis snd_conv)
  then show "case m s of (Inr a, s') \<Rightarrow> Q a s' \<and> f s' = x | (Inl e, s') \<Rightarrow> R s' \<and> f s' = x"
    using s assms(1) m unfolding triple_def by (cases r) (auto dest: spec [of _ s])
qed

lemma stable_mode: "stable c_proxy_mode"
  by (simp add: stable_def)

lemma keeps_enable_proxy: "keeps c_proxy_mode (enable_proxy w)"
  unfolding enable_proxy_def exit_must_listen_def tcp_accepts_def enable_bypass_proxy_def enable_forwarder_def point_windows_def
  by (auto intro!: keeps_rules keeps_change stable_mode split: prod.splits)

lemma keeps_tun_fallback: "keeps c_proxy_mode (tun_fallback w)"
  unfolding tun_fallback_def by (intro keeps_seq2 keeps_change keeps_enable_proxy) (simp add: stop_tun_def)

lemma keeps_ensure_active: "keeps f ensure_active"
  unfolding ensure_active_def by (intro keeps_rules)

lemma keeps_verify: "keeps c_proxy_mode (verify_times w n)"
  by (induction n) (auto simp: ensure_active_or_drop_def stop_tun_def
    intro!: keeps_rules keeps_change keeps_ensure_active stable_mode)

lemma keeps_try_tuns: "keeps c_proxy_mode (try_tuns w l)"
  by (induction l) (auto simp: start_tun_def stop_tun_def drop_proxy_def split: prod.splits
    intro!: keeps_rules keeps_change keeps_ensure_active keeps_verify stable_mode)

lemma keeps_enable_exit: "keeps c_proxy_mode (enable_exit w p)"
  unfolding enable_exit_def enable_tun_def exit_must_listen_def tcp_accepts_def
  by (auto intro!: keeps_rules keeps_enable_proxy keeps_tun_fallback keeps_try_tuns keeps_ensure_active stable_mode)

definition switch_done :: "bool \<Rightarrow> switched \<Rightarrow> coord \<Rightarrow> bool" where
  "switch_done want r s \<longleftrightarrow> exit_inv s
     \<and> (r \<in> {SwProxy, SwTun} \<longrightarrow> dead s \<or> exit_ready s \<and> (r = SwProxy \<longleftrightarrow> c_proxy_mode s \<or> c_fell_back s))
     \<and> (r = SwFailed \<longrightarrow> dead s \<or> c_proxy s = None \<and> c_tun s = None \<and> \<not> c_connected s)
     \<and> (r = SwTun \<longrightarrow> \<not> want) \<and> (r = SwStopped \<longrightarrow> dead s)"

lemma teardown_simps [simp]:
  "c_proxy (teardown_exit s) = None" "c_tun (teardown_exit s) = None" "c_proxy_mode (teardown_exit s) = c_proxy_mode s"
  "c_fell_back (teardown_exit s) = c_fell_back s" "dead (teardown_exit s) = dead s"
  "c_exit_port (teardown_exit s) = c_exit_port s" "c_connected (teardown_exit s) = c_connected s"
  by (simp_all add: teardown_exit_def drop_proxy_def drop_forwarder_def stop_tun_def dead_def split: option.splits)

lemma exit_inv_torn: "exit_inv ((teardown_exit s)\<lparr>c_proxy_mode := p, c_fell_back := f\<rparr>)" "exit_inv ((teardown_exit s)\<lparr>c_fell_back := f\<rparr>)"
  by (simp_all add: exit_inv_def)

lemma fail_session_done:
  "exit_inv s \<Longrightarrow> switch_done want SwFailed (fail_session t s)"
  by (auto simp: switch_done_def fail_session_def dead_def exit_inv_def drop_proxy_def stop_tun_def)

section \<open>What an operation keeps whether it returns or raises\<close>

definition safe :: "(coord \<Rightarrow> bool) \<Rightarrow> 'a act \<Rightarrow> bool" where
  "safe P m \<longleftrightarrow> triple P m (\<lambda>_. P) P"

lemma safe_basic: "safe P (give a)" "safe P (fail e)" "safe P (look f)"
  by (auto simp: safe_def intro: tr_give tr_fail tr_look)

lemma safe_change: "(\<And>s. P s \<Longrightarrow> P (g s)) \<Longrightarrow> safe P (change g)"
  by (auto simp: safe_def intro: tr_change)

lemma safe_bind: "safe P m \<Longrightarrow> (\<And>a. safe P (k a)) \<Longrightarrow> safe P (bind m k)"
  unfolding safe_def by (rule tr_bind)

lemma safe_seq2: "safe P m \<Longrightarrow> safe P k \<Longrightarrow> safe P (seq2 m k)"
  unfolding seq2_def by (rule safe_bind)

lemma safe_if: "safe P m \<Longrightarrow> safe P k \<Longrightarrow> safe P (if b then m else k)" by simp

lemma safe_catching: "safe P m \<Longrightarrow> (\<And>e. safe P (h e)) \<Longrightarrow> safe P (catching m h)"
  unfolding safe_def by (rule tr_catching)

lemma safe_catching_engine: "safe P m \<Longrightarrow> (\<And>t. safe P (h t)) \<Longrightarrow> safe P (catching_engine m h)"
  unfolding safe_def by (rule tr_catching_engine)

lemma safe_ask: "calm P \<Longrightarrow> safe P (ask w)" unfolding safe_def by (rule tr_ask)

lemma safe_ensure_active: "safe P ensure_active"
  unfolding ensure_active_def by (intro safe_bind safe_if safe_basic)

lemmas safe_rules = safe_basic safe_bind safe_seq2 safe_if safe_catching safe_catching_engine safe_ensure_active

lemma safe_ends: "safe P m \<Longrightarrow> P s \<Longrightarrow> m s = (r, s') \<Longrightarrow> P s'"
  unfolding safe_def triple_def by (cases r) force+

text \<open>
  The client of the exit: an assertion that sees of the state only what the exit does not set up, and
  that the steps at Windows keep. Every operation on the exit keeps it.
\<close>

definition exit_view :: "coord \<Rightarrow> (bool \<times> nat \<times> nat \<times> nat) \<times> ((int \<times> int) option \<times> (int \<times> int) option \<times> (nat \<Rightarrow> bool) \<times> nat)
    \<times> string option \<times> (string \<times> int) option \<times> bool" where
  "exit_view s = ((c_stop s, c_epoch s, c_me s, c_tick s), (c_proxy s, c_windows s, c_clean s, c_cleans s),
     c_aether s, c_psiphon s, c_connected s)"

lemma exit_view_upd [simp]:
  "exit_view (s\<lparr>c_tun := t\<rparr>) = exit_view s" "exit_view (s\<lparr>c_forwarder := f, c_listeners := l\<rparr>) = exit_view s"
  "exit_view (stop_tun s) = exit_view s" "exit_view ((stop_tun s)\<lparr>c_fell_back := b\<rparr>) = exit_view s"
  "exit_view (s\<lparr>c_tun_stack := x\<rparr>) = exit_view s" "exit_view (drop_forwarder s) = exit_view s"
  "exit_view (s\<lparr>c_fell_back := b\<rparr>) = exit_view s" "exit_view (s\<lparr>c_proxy_mode := p\<rparr>) = exit_view s"
  "exit_view (s\<lparr>c_proxy_mode := p, c_fell_back := b\<rparr>) = exit_view s"
  "exit_view (s\<lparr>c_status := st\<rparr>) = exit_view s" "exit_view (s\<lparr>c_store := d\<rparr>) = exit_view s"
  by (simp_all add: exit_view_def stop_tun_def drop_forwarder_def split: option.splits)

locale exit_client =
  fixes P :: "coord \<Rightarrow> bool" and w :: world
  assumes exit_see: "P s \<Longrightarrow> exit_view t = exit_view s \<Longrightarrow> P t"
    and exit_ask: "safe P (ask w)"
    and exit_drop: "P s \<Longrightarrow> P (drop_proxy s)"
    and exit_set: "P s \<Longrightarrow> P (set_windows a b s)"
    and exit_miss: "P s \<Longrightarrow> P (miss_windows a b s)"
begin

lemma exit_change: "(\<And>s. exit_view (g s) = exit_view s) \<Longrightarrow> safe P (change g)"
  by (rule safe_change) (rule exit_see)

lemma exit_must: "safe P (must w e)"
  unfolding must_def by (rule safe_bind [OF exit_ask]) (simp add: safe_basic)

lemma exit_listen: "safe P (exit_must_listen w)"
  unfolding exit_must_listen_def tcp_accepts_def by (intro safe_rules exit_ask)

lemma exit_windows: "safe P (point_windows w a b)"
  unfolding point_windows_def by (intro safe_rules exit_ask safe_change exit_set exit_miss)

lemma exit_proxy: "safe P (enable_proxy w)"
  unfolding enable_proxy_def enable_bypass_proxy_def enable_forwarder_def
  by (auto intro!: safe_rules exit_must exit_listen exit_windows exit_change split: prod.splits)

lemma exit_start_tun: "safe P (start_tun w stack mtu)"
  unfolding start_tun_def by (intro safe_rules exit_must exit_change safe_change exit_drop) simp

lemma exit_fallback: "safe P (tun_fallback w)"
  unfolding tun_fallback_def by (intro safe_rules exit_change exit_proxy) simp

lemma exit_verify: "safe P (verify_times w n)"
  by (induction n) (auto simp: ensure_active_or_drop_def intro!: safe_rules exit_change exit_ask)

lemma exit_try: "safe P (try_tuns w l)"
  by (induction l) (auto intro!: safe_rules exit_change exit_start_tun exit_verify)

lemma exit_tun: "safe P (enable_tun w)"
  unfolding enable_tun_def by (intro safe_rules exit_ask exit_listen exit_fallback exit_try)

lemma exit_enable: "safe P (enable_exit w p)"
  unfolding enable_exit_def by (intro safe_rules exit_proxy exit_tun)

lemma exit_teardown: "P s \<Longrightarrow> P (teardown_exit s)"
  unfolding teardown_exit_def by (rule exit_drop, rule exit_see) simp_all

end

text \<open>Three such assertions: who ended the session, what is left of its legs, what Windows is pointed at.\<close>

definition since :: "nat \<Rightarrow> coord \<Rightarrow> bool" where
  "since k s \<longleftrightarrow> k \<le> c_tick s"

definition cancelled_since :: "world \<Rightarrow> nat \<Rightarrow> coord \<Rightarrow> bool" where
  \<comment> \<open>the thread is dead only because another one disconnected after the \<open>k\<close>-th question\<close>
  "cancelled_since w k s \<longleftrightarrow> since k s \<and> (dead s \<longrightarrow> (\<exists>n. k \<le> n \<and> n < c_tick s \<and> w_cancel w n))"

definition gone :: "coord \<Rightarrow> bool" where
  "gone s \<longleftrightarrow> (dead s \<longrightarrow> c_aether s = None \<and> c_psiphon s = None)"

definition running :: "coord \<Rightarrow> bool" where
  "running s \<longleftrightarrow> dead s \<or> c_connected s"

definition follows :: "(nat \<Rightarrow> bool) \<Rightarrow> nat \<Rightarrow> coord \<Rightarrow> bool" where
  \<comment> \<open>Windows is pointed where the session remembers, or a step at Windows has failed\<close>
  "follows clean k s \<longleftrightarrow> c_clean s = clean \<and> k \<le> c_cleans s
     \<and> (c_windows s = c_proxy s \<or> (\<exists>n. k \<le> n \<and> n < c_cleans s \<and> \<not> clean n))"

lemma dead_view: "exit_view t = exit_view s \<Longrightarrow> dead t = dead s"
  by (simp add: exit_view_def dead_def)

definition windows_view :: "coord \<Rightarrow> (int \<times> int) option \<times> (int \<times> int) option \<times> (nat \<Rightarrow> bool) \<times> nat" where
  "windows_view s = (c_windows s, c_proxy s, c_clean s, c_cleans s)"

lemma follows_see: "follows clean k s \<Longrightarrow> windows_view t = windows_view s \<Longrightarrow> follows clean k t"
  by (simp add: follows_def windows_view_def)

lemma follows_drop: "follows clean k s \<Longrightarrow> follows clean k (drop_proxy s)"
  by (cases "c_proxy s") (auto simp: follows_def drop_proxy_def intro: less_SucI)

lemma follows_windows:
  "follows clean k s \<Longrightarrow> follows clean k (set_windows a b s)" "follows clean k s \<Longrightarrow> follows clean k (miss_windows a b s)"
  by (auto simp: follows_def set_windows_def miss_windows_def intro: less_SucI)

lemma windows_tick: "windows_view (s\<lparr>c_tick := n\<rparr>) = windows_view s" by (simp add: windows_view_def)

lemma windows_drop_cong: "windows_view t = windows_view s \<Longrightarrow> windows_view (drop_proxy t) = windows_view (drop_proxy s)"
  by (simp add: windows_view_def drop_proxy_def)

lemma windows_disconnect:
  "windows_view (disconnect q e s) = windows_view s \<or> windows_view (disconnect q e s) = windows_view (drop_proxy s)"
proof (cases "case e of None \<Rightarrow> False | Some e \<Rightarrow> c_epoch s \<noteq> e")
  case True
  then show ?thesis by (simp add: disconnect_def)
next
  case False
  let ?s1 = "s\<lparr>c_epoch := (case e of None \<Rightarrow> Suc (c_epoch s) | Some e \<Rightarrow> c_epoch s), c_stop := True,
                c_connected := False, c_psiphon := None, c_aether := None\<rparr>"
  have "windows_view (drop_forwarder (stop_tun (stop_parallel ?s1))) = windows_view s"
    by (simp add: windows_view_def drop_forwarder_def stop_tun_def stop_parallel_def split: option.split)
  from windows_drop_cong [OF this]
  have "windows_view (teardown_exit (stop_parallel ?s1)) = windows_view (drop_proxy s)" by (simp only: teardown_exit_def)
  moreover have "windows_view (disconnect q e s) = windows_view (teardown_exit (stop_parallel ?s1))"
    using False by (simp only: disconnect_def if_False Let_def) (simp add: windows_view_def)
  ultimately show ?thesis by simp
qed

lemma follows_disconnect: "follows clean k s \<Longrightarrow> follows clean k (disconnect q e s)"
  using windows_disconnect [of q e s] follows_see follows_drop by metis

lemma follows_ask: assumes "follows clean k s" shows "follows clean k (snd (ask w s))"
proof -
  have "follows clean k (if w_cancel w (c_tick s) then disconnect False None s else s)"
    using assms by (simp add: follows_disconnect)
  then show ?thesis unfolding ask_def Let_def snd_conv by (rule follows_see) (rule windows_tick)
qed

lemma safe_step: "(\<And>s. P s \<Longrightarrow> P (snd (ask w s))) \<Longrightarrow> safe P (ask w)"
  by (auto simp: safe_def triple_def ask_def Let_def)

lemma cancel_step: "cancelled_since w k s \<Longrightarrow> cancelled_since w k (snd (ask w s))"
  by (auto simp: cancelled_since_def since_def ask_def Let_def intro: less_SucI)

lemma view_parts:
  assumes "exit_view t = exit_view s"
  shows "c_stop t = c_stop s" "c_epoch t = c_epoch s" "c_me t = c_me s" "c_tick t = c_tick s" "c_aether t = c_aether s"
    "c_psiphon t = c_psiphon s" "c_connected t = c_connected s" "dead t = dead s" "windows_view t = windows_view s"
  using assms by (simp_all add: exit_view_def dead_def windows_view_def)

lemma windows_step_simps [simp]:
  "c_tick (drop_proxy s) = c_tick s" "c_tick (set_windows a b s) = c_tick s" "c_tick (miss_windows a b s) = c_tick s"
  "c_aether (drop_proxy s) = c_aether s" "c_aether (set_windows a b s) = c_aether s" "c_aether (miss_windows a b s) = c_aether s"
  "c_psiphon (drop_proxy s) = c_psiphon s" "c_psiphon (set_windows a b s) = c_psiphon s" "c_psiphon (miss_windows a b s) = c_psiphon s"
  "c_connected (drop_proxy s) = c_connected s" "c_connected (set_windows a b s) = c_connected s"
  "c_connected (miss_windows a b s) = c_connected s"
  by (simp_all add: drop_proxy_def set_windows_def miss_windows_def)

lemma seen_again:
  assumes "exit_view t = exit_view s"
  shows "since k s \<Longrightarrow> since k t" "cancelled_since w k s \<Longrightarrow> cancelled_since w k t" "gone s \<Longrightarrow> gone t" "running s \<Longrightarrow> running t"
  using view_parts [OF assms] by (simp_all add: since_def cancelled_since_def gone_def running_def)

lemma windows_steps_kept:
  "since k (drop_proxy s) = since k s" "since k (set_windows a b s) = since k s" "since k (miss_windows a b s) = since k s"
  "cancelled_since w k (drop_proxy s) = cancelled_since w k s" "cancelled_since w k (set_windows a b s) = cancelled_since w k s"
  "cancelled_since w k (miss_windows a b s) = cancelled_since w k s"
  "gone (drop_proxy s) = gone s" "gone (set_windows a b s) = gone s" "gone (miss_windows a b s) = gone s"
  "running (drop_proxy s) = running s" "running (set_windows a b s) = running s" "running (miss_windows a b s) = running s"
  by (simp_all add: since_def cancelled_since_def gone_def running_def)

lemma ask_kept: "since k s \<Longrightarrow> since k (snd (ask w s))" "calm gone" "calm running"
  by (simp_all add: since_def ask_def Let_def calm_def gone_def running_def)

interpretation since_exit: exit_client "since k" w for k w
  by (rule exit_client.intro, erule seen_again(1) [rotated], assumption) (simp_all add: windows_steps_kept safe_step ask_kept)

interpretation cancel_exit: exit_client "cancelled_since w k" w for w k
  by (rule exit_client.intro, erule seen_again(2) [rotated], assumption) (simp_all add: windows_steps_kept safe_step cancel_step)

interpretation gone_exit: exit_client gone w for w
  by (rule exit_client.intro, erule seen_again(3) [rotated], assumption) (simp_all add: windows_steps_kept safe_ask ask_kept)

interpretation running_exit: exit_client running w for w
  by (rule exit_client.intro, erule seen_again(4) [rotated], assumption) (simp_all add: windows_steps_kept safe_ask ask_kept)

interpretation follows_exit: exit_client "follows clean k" w for clean k w
  by (rule exit_client.intro, erule follows_see, erule view_parts(9))
    (simp_all add: follows_drop follows_windows safe_step follows_ask)

section \<open>What is left when setting up an exit raises\<close>

definition outcome :: "(coord \<Rightarrow> bool) \<Rightarrow> 'a act \<Rightarrow> ('a \<Rightarrow> coord \<Rightarrow> bool) \<Rightarrow> (failure \<Rightarrow> coord \<Rightarrow> bool) \<Rightarrow> bool" where
  \<comment> \<open>a triple that tells the exceptions apart\<close>
  "outcome P m Q R \<longleftrightarrow> (\<forall>s. P s \<longrightarrow> (case m s of (Inr a, s') \<Rightarrow> Q a s' | (Inl e, s') \<Rightarrow> R e s'))"

lemma triple_outcome: "triple P m Q R = outcome P m Q (\<lambda>_. R)"
  by (simp add: triple_def outcome_def)

lemma oc_of_triple: "triple P m Q R \<Longrightarrow> (\<And>e s. R s \<Longrightarrow> R' e s) \<Longrightarrow> outcome P m Q R'"
  unfolding triple_def outcome_def by (fastforce split: prod.splits sum.splits)

lemma oc_weaken: "outcome P' m Q' R \<Longrightarrow> (\<And>s. P s \<Longrightarrow> P' s) \<Longrightarrow> (\<And>a s. Q' a s \<Longrightarrow> Q a s) \<Longrightarrow> outcome P m Q R"
  unfolding outcome_def by (fastforce split: prod.splits sum.splits)

lemma oc_bind: "outcome P m Q' R \<Longrightarrow> (\<And>a. outcome (Q' a) (f a) Q R) \<Longrightarrow> outcome P (bind m f) Q R"
  unfolding outcome_def bind_def by (fastforce split: prod.splits sum.splits)

lemma oc_seq2: "outcome P m (\<lambda>_. Q') R \<Longrightarrow> outcome Q' k Q R \<Longrightarrow> outcome P (seq2 m k) Q R"
  unfolding seq2_def by (rule oc_bind)

lemma oc_change: "(\<And>s. P s \<Longrightarrow> Q () (f s)) \<Longrightarrow> outcome P (change f) Q R"
  by (simp add: outcome_def change_def)

lemma oc_look_bind: "(\<And>x. outcome (\<lambda>s. P s \<and> f s = x) (g x) Q R) \<Longrightarrow> outcome P (bind (look f) g) Q R"
  by (simp add: outcome_def look_def bind_def)

lemma oc_must: "calm P \<Longrightarrow> (\<And>s. P s \<Longrightarrow> R e s) \<Longrightarrow> outcome P (must w e) (\<lambda>_. P) R"
  by (auto simp: outcome_def must_def bind_def ask_def calm_def Let_def give_def fail_def)

lemma oc_if: "(b \<Longrightarrow> outcome P m Q R) \<Longrightarrow> (\<not> b \<Longrightarrow> outcome P k Q R) \<Longrightarrow> outcome P (if b then m else k) Q R"
  by simp

lemma oc_catching_engine:
  assumes "outcome P m Q R'" "\<And>t. outcome (R' (Engine t)) (h t) Q R" "\<And>s. R' OtherError s \<Longrightarrow> R OtherError s"
  shows "outcome P (catching_engine m h) Q R"
  using assms unfolding outcome_def catching_engine_def catching_def
  by (fastforce simp: fail_def split: prod.splits sum.splits failure.splits)

definition proxy_ok :: "(int \<times> int) option \<Rightarrow> coord \<Rightarrow> bool" where
  "proxy_ok p s \<longleftrightarrow> c_proxy s = None \<or> c_proxy s = p"

definition no_tun :: "(int \<times> int) option \<Rightarrow> coord \<Rightarrow> bool" where
  "no_tun p s \<longleftrightarrow> proxy_ok p s \<and> c_tun s = None"

definition proxy_meant :: "(int \<times> int) option \<Rightarrow> coord \<Rightarrow> bool" where
  "proxy_meant p s \<longleftrightarrow> proxy_ok p s \<and> (c_proxy_mode s \<or> c_fell_back s)"

definition carries :: "(int \<times> int) option \<Rightarrow> sing_box option \<Rightarrow> coord \<Rightarrow> bool" where
  \<comment> \<open>no exit but the one of before\<close>
  "carries p t s \<longleftrightarrow> proxy_ok p s \<and> (c_proxy_mode s \<or> c_fell_back s \<or> c_tun s = None \<or> c_tun s = t)"

lemma calm_proxy [simp]: "calm (proxy_ok p)" "calm (no_tun p)" "calm (proxy_meant p)"
  by (simp_all add: calm_def proxy_ok_def no_tun_def proxy_meant_def)

lemma carries_from: "no_tun p s \<Longrightarrow> carries p t s" "proxy_meant p s \<Longrightarrow> carries p t s" "no_tun p s \<Longrightarrow> proxy_ok p s"
  by (auto simp: carries_def no_tun_def proxy_meant_def)

lemma proxy_meant_upd [simp]:
  "proxy_meant p (miss_windows a b s) = proxy_meant p s" "proxy_meant p (s\<lparr>c_tun := t\<rparr>) = proxy_meant p s"
  "proxy_meant p (s\<lparr>c_forwarder := f, c_listeners := l\<rparr>) = proxy_meant p s"
  "proxy_ok p s \<Longrightarrow> proxy_meant p ((stop_tun s)\<lparr>c_fell_back := True\<rparr>)"
  "proxy_ok p s \<Longrightarrow> no_tun p (stop_tun s)" "proxy_ok p (s\<lparr>c_tun := t\<rparr>) = proxy_ok p s" "proxy_ok p (drop_proxy s)"
  "proxy_ok p (s\<lparr>c_tun_stack := x\<rparr>) = proxy_ok p s"
  by (simp_all add: proxy_meant_def proxy_ok_def no_tun_def stop_tun_def drop_proxy_def)

lemma raise_windows: "triple (proxy_meant p) (point_windows w a b) (\<lambda>_ _. True) (proxy_meant p)"
  by (rule tr_point_windows) simp_all

lemma raise_listen: "calm P \<Longrightarrow> triple P (exit_must_listen w) (\<lambda>_. P) P"
  by (rule tr_weaken [OF tr_exit_must_listen [of P P]]) simp_all

lemma raise_proxy: "triple (proxy_meant p) (enable_proxy w) (\<lambda>_ _. True) (proxy_meant p)"
proof -
  have looked: "triple (\<lambda>s. proxy_meant p s \<and> f s = x) m Q (proxy_meant p)"
    if "triple (proxy_meant p) m Q (proxy_meant p)" for f x and m :: "unit act" and Q
    by (rule tr_weaken [OF that]) auto
  have fwd: "triple (proxy_meant p) (enable_forwarder w) (\<lambda>_ _. True) (proxy_meant p)"
    unfolding enable_forwarder_def
  proof (rule tr_look_bind, rule looked)
    fix x :: "int \<times> int"
    obtain port exit where x: "x = (port, exit)" by force
    show "triple (proxy_meant p) (case x of (port, exit) \<Rightarrow> seq2 (must w (Engine ''local HTTP proxy port could not be opened''))
     (seq2 (must w (Engine ''local HTTP forwarder did not start''))
     (seq2 (change (\<lambda>s. s\<lparr>c_forwarder := Some (port, exit), c_listeners := (port, exit) # c_listeners s\<rparr>))
     (bind (look c_exit_port) (\<lambda>socks. point_windows w socks port))))) (\<lambda>_ _. True) (proxy_meant p)"
      unfolding x prod.case
      by (intro tr_must_seq tr_seq2 [OF tr_change [where Q = "\<lambda>_. proxy_meant p"]] tr_look_bind looked raise_windows) simp_all
  qed
  have app: "triple (proxy_meant p) (enable_bypass_proxy w) (\<lambda>_ _. True) (proxy_meant p)"
    unfolding enable_bypass_proxy_def
    by (intro tr_look_bind looked tr_must_seq calm_proxy tr_seq2 [OF tr_change [where Q = "\<lambda>_. proxy_meant p"]] raise_windows) auto
  show ?thesis unfolding enable_proxy_def
    by (rule tr_seq2 [OF raise_listen], simp, rule tr_look_bind, rule looked, rule tr_if [OF app fwd])
qed

lemma raise_start_tun:
  "outcome (no_tun p) (start_tun w stack mtu) (\<lambda>_. proxy_ok p) (\<lambda>e. case e of Engine _ \<Rightarrow> proxy_ok p | OtherError \<Rightarrow> no_tun p)"
proof -
  let ?R = "\<lambda>e. case e of Engine _ \<Rightarrow> proxy_ok p | OtherError \<Rightarrow> no_tun p"
  have "outcome (no_tun p) (seq2 (must w OtherError) (seq2 (must w (Engine ''sing-box config check failed'')) (seq2 (must w OtherError)
     (seq2 (change (\<lambda>s. s\<lparr>c_tun := Some (Tun stack mtu exit)\<rparr>))
     (seq2 (must w (Engine ''sing-box TUN exited immediately'')) (change drop_proxy)))))) (\<lambda>_. proxy_ok p) ?R" for exit
    by (intro oc_seq2 [OF oc_must] oc_seq2 [OF oc_change [where Q = "\<lambda>_. proxy_ok p"]] oc_change calm_proxy)
      (auto simp: carries_from)
  then show ?thesis unfolding start_tun_def
    by (intro oc_look_bind) (rule oc_weaken [where P' = "no_tun p" and Q' = "\<lambda>_. proxy_ok p"], auto)
qed

lemma stop_if_dead:
  "ensure_active_or_drop s = (if dead s then (Inl (Engine ''stopped''), stop_tun s) else (Inr (), s))"
  by (simp add: ensure_active_or_drop_def ensure_active_def catching_engine_def catching_def bind_def seq2_def look_def change_def
    fail_def give_def dead_def)

lemma raise_verify: "triple (proxy_ok p) (verify_times w n) (\<lambda>_. proxy_ok p) (no_tun p)"
proof (induction n)
  case 0
  show ?case by (simp add: tr_give)
next
  case (Suc n)
  have e: "triple (proxy_ok p) ensure_active_or_drop (\<lambda>_. proxy_ok p) (no_tun p)"
    by (simp add: triple_def stop_if_dead)
  show ?case unfolding verify_times.simps
    by (rule tr_seq2 [OF e], rule tr_ask_bind) (auto intro!: tr_if tr_give Suc.IH)
qed

lemma raise_try_tuns: "triple (no_tun p) (try_tuns w l) (\<lambda>ok s. ok \<or> no_tun p s) (no_tun p)"
proof (induction l)
  case Nil
  show ?case by (simp add: tr_give)
next
  case (Cons a l)
  obtain stack mtu where a: "a = (stack, mtu)" by force
  let ?Q = "\<lambda>ok s. ok \<or> no_tun p s"
  have act: "triple (no_tun p) ensure_active (\<lambda>_. no_tun p) (no_tun p)"
    by (rule tr_weaken [OF tr_ensure_active [where P = "no_tun p" and R = "no_tun p"]]) auto
  have start: "triple (no_tun p) (catching_engine (seq2 (start_tun w stack mtu) (give True)) (\<lambda>_. seq2 (change stop_tun) (give False)))
      (\<lambda>b s. if b then proxy_ok p s else no_tun p s) (no_tun p)"
    unfolding triple_outcome
    by (rule oc_catching_engine, rule oc_seq2 [OF raise_start_tun])
      (auto simp: outcome_def give_def seq2_def bind_def change_def)
  have up: "triple (proxy_ok p) (bind (verify_times w 2) (\<lambda>ok.
      if ok then seq2 (change (\<lambda>s. s\<lparr>c_tun_stack := Some (stack, mtu)\<rparr>)) (give True)
      else seq2 (change stop_tun) (try_tuns w l))) ?Q (no_tun p)"
    by (rule tr_bind [OF raise_verify], rule tr_if; rule tr_seq2 [OF tr_change [where Q = "\<lambda>_. proxy_ok p"] tr_give]
      tr_seq2 [OF tr_change Cons.IH]) simp_all
  have "triple (\<lambda>s. if b then proxy_ok p s else no_tun p s) (if \<not> b then try_tuns w l
         else bind (verify_times w 2) (\<lambda>ok.
           if ok then seq2 (change (\<lambda>s. s\<lparr>c_tun_stack := Some (stack, mtu)\<rparr>)) (give True)
           else seq2 (change stop_tun) (try_tuns w l))) ?Q (no_tun p)" for b
    using up Cons.IH by (cases b) simp_all
  then show ?case unfolding a try_tuns.simps by (rule tr_seq2 [OF act tr_bind [OF start]])
qed

lemma raise_tun: "triple (no_tun p) (enable_tun w) (\<lambda>_ _. True) (carries p t)"
proof -
  have fall: "triple (no_tun p) (tun_fallback w) (\<lambda>_ _. True) (carries p t)"
    unfolding tun_fallback_def
    by (rule tr_seq2 [OF tr_change tr_weaken [OF raise_proxy]]) (auto intro: carries_from proxy_meant_upd(4))
  have act: "triple (no_tun p) ensure_active (\<lambda>_. no_tun p) (carries p t)"
    by (rule tr_weaken [OF tr_ensure_active [where P = "no_tun p" and R = "no_tun p"]]) (auto intro: carries_from)
  have tries: "triple (no_tun p) (bind (try_tuns w TUN_ATTEMPTS) (\<lambda>ok. if ok then give () else tun_fallback w)) (\<lambda>_ _. True) (carries p t)"
  proof (rule tr_bind)
    show "triple (no_tun p) (try_tuns w TUN_ATTEMPTS) (\<lambda>ok s. ok \<or> no_tun p s) (carries p t)"
      by (rule tr_weaken [OF raise_try_tuns]) (auto intro: carries_from)
    show "triple (\<lambda>s. ok \<or> no_tun p s) (if ok then give () else tun_fallback w) (\<lambda>_ _. True) (carries p t)" for ok
      using fall by (cases ok) (simp_all add: tr_give)
  qed
  have listen: "triple (no_tun p) (exit_must_listen w) (\<lambda>_. no_tun p) (carries p t)"
    by (rule tr_weaken [OF raise_listen [OF calm_proxy(2)]]) (auto intro: carries_from)
  have port: "triple (\<lambda>s. no_tun p s \<and> c_exit_port s = exit) (if exit \<le> 0 then fail (Engine ''exit proxy is not listening'')
       else seq2 (exit_must_listen w) (bind (try_tuns w TUN_ATTEMPTS) (\<lambda>ok. if ok then give () else tun_fallback w)))
       (\<lambda>_ _. True) (carries p t)" for exit
    by (rule tr_if [OF tr_fail tr_weaken [OF tr_seq2 [OF listen tries]]]) (auto intro: carries_from)
  show ?thesis unfolding enable_tun_def
    by (intro tr_ask_bind tr_if fall calm_proxy tr_seq2 [OF act] tr_look_bind port)
qed

lemma raise_exit:
  "triple (\<lambda>s. no_tun p s \<and> c_proxy_mode s = pm) (enable_exit w pm) (\<lambda>_ _. True) (carries p t)"
  unfolding enable_exit_def
  by (rule tr_if; rule tr_weaken [OF raise_proxy] tr_weaken [OF raise_tun])
    (auto intro: carries_from simp: proxy_meant_def no_tun_def)

section \<open>Switching the exit\<close>

lemma tr_conj:
  assumes "triple P m Q R" "triple P' m Q' R'"
  shows "triple (\<lambda>s. P s \<and> P' s) m (\<lambda>a s. Q a s \<and> Q' a s) (\<lambda>s. R s \<and> R' s)"
  using assms unfolding triple_def by (fastforce split: prod.splits sum.splits)

definition switching :: "bool \<Rightarrow> coord \<Rightarrow> bool" where
  \<comment> \<open>the old exit is down\<close>
  "switching want s \<longleftrightarrow> exit_inv s \<and> c_proxy_mode s = want \<and> \<not> c_fell_back s \<and> no_tun None s \<and> running s"

definition unswitched :: "bool \<Rightarrow> coord \<Rightarrow> bool" where
  \<comment> \<open>no exit came up\<close>
  "unswitched want s \<longleftrightarrow> exit_inv s \<and> c_proxy_mode s = want \<and> carries None None s \<and> running s"

lemma tr_exit_wanted: "triple (switching want) (exit_wanted w want) (switch_done want) (unswitched want)"
proof -
  have active: "triple (switching want) ensure_active (\<lambda>_. switching want) (unswitched want)"
    by (rule tr_weaken [OF tr_ensure_active [where P = "switching want" and R = "unswitched want"]])
      (auto simp: switching_def unswitched_def carries_from)
  have "triple (\<lambda>s. ((exit_inv s \<and> c_proxy_mode s = want \<and> \<not> c_fell_back s) \<and> c_proxy_mode s = want)
        \<and> (no_tun None s \<and> c_proxy_mode s = want) \<and> running s) (enable_exit w want)
      (\<lambda>_ s. ((exit_inv s \<and> (dead s \<or> exit_ready s)) \<and> c_proxy_mode s = want) \<and> True \<and> running s)
      (\<lambda>s. (exit_inv s \<and> c_proxy_mode s = want) \<and> carries None None s \<and> running s)"
    by (intro tr_conj triple_keeps [OF tr_enable_exit keeps_enable_exit] raise_exit
      running_exit.exit_enable [unfolded safe_def])
  then have enable: "triple (switching want) (enable_exit w want)
      (\<lambda>_ s. exit_inv s \<and> (dead s \<or> exit_ready s) \<and> c_proxy_mode s = want) (unswitched want)"
    by (rule tr_weaken) (auto simp: switching_def unswitched_def)
  show ?thesis unfolding exit_wanted_def
    by (rule tr_seq2 [OF active tr_seq2 [OF enable tr_look]]) (auto simp: switch_done_def)
qed

lemma tr_exit_instead: "triple (\<lambda>s. exit_inv s \<and> c_proxy_mode s = want) (exit_instead w want) (switch_done want) (\<lambda>_. False)"
proof -
  have proxy: "triple by_proxy (seq2 (enable_proxy w) (give SwProxy)) (switch_done want) exit_inv"
    by (rule tr_seq2 [OF tr_weaken [OF tr_enable_proxy] tr_give [where P = "\<lambda>s. by_proxy s \<and> (dead s \<or> exit_ready s)"]])
      (auto simp: by_proxy_inv switch_done_def by_proxy_def)
  have over: "triple exit_inv (seq2 (change (fail_session ''exit switch failed'')) (give SwFailed)) (switch_done want) (\<lambda>_. False)"
    by (rule tr_seq2 [OF tr_change [where Q = "\<lambda>_. switch_done want SwFailed"] tr_give]) (auto intro: fail_session_done)
  have again: "triple (\<lambda>s. exit_inv s \<and> c_proxy_mode s = want) (catching
             (seq2 (change (\<lambda>s. (teardown_exit s)\<lparr>c_fell_back := \<not> want\<rparr>)) (seq2 (enable_proxy w) (give SwProxy)))
             (\<lambda>_. seq2 (change (fail_session ''exit switch failed'')) (give SwFailed))) (switch_done want) (\<lambda>_. False)"
    by (rule tr_catching [OF tr_seq2 [OF tr_change proxy] over]) (simp add: by_proxy_def exit_inv_torn)
  show ?thesis unfolding exit_instead_def
    by (rule tr_look_bind, rule tr_if, rule tr_give, simp add: switch_done_def dead_def, rule tr_weaken [OF again]) auto
qed

lemma oc_switch:
  "outcome exit_inv (switch_exit_mode w want) (switch_done want) (\<lambda>e s. e = OtherError \<and> unswitched want s)"
proof -
  let ?R = "\<lambda>e s. e = OtherError \<and> unswitched want s"
  have try_exit: "outcome (switching want) (catching_engine (exit_wanted w want) (\<lambda>_. exit_instead w want)) (switch_done want) ?R"
  proof (rule oc_catching_engine)
    show "outcome (switching want) (exit_wanted w want) (switch_done want) (\<lambda>_. unswitched want)"
      using tr_exit_wanted by (simp add: triple_outcome)
    show "outcome (unswitched want) (exit_instead w want) (switch_done want) ?R" for t
      by (rule oc_of_triple [OF tr_weaken [OF tr_exit_instead]]) (auto simp: unswitched_def)
  qed simp
  have switch: "outcome (\<lambda>s. exit_inv s \<and> c_connected s) (seq2 (change (\<lambda>s. (teardown_exit (s\<lparr>c_me := c_epoch s\<rparr>))\<lparr>c_proxy_mode := want, c_fell_back := False\<rparr>))
       (catching_engine (exit_wanted w want) (\<lambda>_. exit_instead w want))) (switch_done want) ?R"
    by (rule oc_seq2 [OF oc_change try_exit])
      (simp add: switching_def exit_inv_torn no_tun_def proxy_ok_def running_def)
  have same: "outcome (\<lambda>s. exit_inv s \<and> (c_proxy_mode s \<or> c_fell_back s) = want)
      (seq2 (change (\<lambda>s. if want then s\<lparr>c_proxy_mode := True\<rparr> else s)) (give SwUnchanged)) (switch_done want) ?R"
    by (auto simp: outcome_def seq2_def bind_def change_def give_def switch_done_def exit_inv_def)
  have idle: "outcome exit_inv (give SwIdle) (switch_done want) ?R"
    by (auto simp: outcome_def give_def switch_done_def)
  have "outcome (\<lambda>s. exit_inv s \<and> id s = x) (if \<not> c_connected x then give SwIdle
     else if (c_proxy_mode x \<or> c_fell_back x) = want then
       seq2 (change (\<lambda>s. if want then s\<lparr>c_proxy_mode := True\<rparr> else s)) (give SwUnchanged)
     else seq2 (change (\<lambda>s. (teardown_exit (s\<lparr>c_me := c_epoch s\<rparr>))\<lparr>c_proxy_mode := want, c_fell_back := False\<rparr>))
       (catching_engine (exit_wanted w want) (\<lambda>_. exit_instead w want))) (switch_done want) ?R" for x
    by (rule oc_if, rule oc_weaken [OF idle], simp, assumption, rule oc_if, rule oc_weaken [OF same], force, assumption,
        rule oc_weaken [OF switch]) auto
  then show ?thesis unfolding switch_exit_mode_def by (intro oc_look_bind)
qed

lemma switch_follows: "safe (follows clean k) (switch_exit_mode w want)"
proof -
  have torn: "follows clean k ((teardown_exit (s\<lparr>c_me := e\<rparr>))\<lparr>c_proxy_mode := want, c_fell_back := b\<rparr>)" if "follows clean k s" for s e b
  proof -
    have "follows clean k (s\<lparr>c_me := e\<rparr>)" by (rule follows_see [OF that]) (simp add: windows_view_def)
    from follows_exit.exit_teardown [OF this] show ?thesis by (rule follows_see) (simp add: windows_view_def)
  qed
  have over: "follows clean k (fail_session t s)" if "follows clean k s" for s t
  proof -
    have "follows clean k (drop_proxy (stop_tun s))"
      by (rule follows_drop, rule follows_see [OF that]) (simp add: windows_view_def stop_tun_def)
    then have "follows clean k ((drop_proxy (stop_tun s))\<lparr>c_status := status_step (Update PhaseFailed 0 t None None) (c_status s), c_connected := False\<rparr>)"
      by (rule follows_see) (simp add: windows_view_def)
    then show ?thesis using that by (simp add: fail_session_def)
  qed
  have fell: "follows clean k ((teardown_exit s)\<lparr>c_fell_back := b\<rparr>)" if "follows clean k s" for s b
    by (rule follows_see [OF follows_exit.exit_teardown [OF that]]) (simp add: windows_view_def)
  have mode: "follows clean k (if want then s\<lparr>c_proxy_mode := True\<rparr> else s)" if "follows clean k s" for s
    using that by (auto elim: follows_see simp: windows_view_def)
  show ?thesis unfolding switch_exit_mode_def exit_wanted_def exit_instead_def
    by (intro safe_rules follows_exit.exit_enable follows_exit.exit_proxy safe_change torn over fell mode)
qed

lemma switch_cancelled:
  "triple (\<lambda>s. since k s \<and> \<not> c_stop s) (switch_exit_mode w want)
     (\<lambda>r s. r \<in> {SwIdle, SwUnchanged} \<or> cancelled_since w k s) (cancelled_since w k)"
proof -
  have torn: "cancelled_since w k ((teardown_exit (s\<lparr>c_me := c_epoch s\<rparr>))\<lparr>c_proxy_mode := want, c_fell_back := b\<rparr>)"
    if "since k s" "\<not> c_stop s" for s b
  proof -
    have "cancelled_since w k (s\<lparr>c_me := c_epoch s\<rparr>)" using that by (simp add: cancelled_since_def since_def dead_def)
    from cancel_exit.exit_teardown [OF this] show ?thesis by (rule cancel_exit.exit_see) simp
  qed
  have over: "cancelled_since w k (fail_session t s)" if "cancelled_since w k s" for s t
    using that by (auto simp: fail_session_def cancelled_since_def since_def dead_def stop_tun_def drop_proxy_def)
  have fell: "cancelled_since w k ((teardown_exit s)\<lparr>c_fell_back := b\<rparr>)" if "cancelled_since w k s" for s b
    by (rule cancel_exit.exit_see [OF cancel_exit.exit_teardown [OF that]]) simp
  have "safe (cancelled_since w k) (catching_engine (exit_wanted w want) (\<lambda>_. exit_instead w want))"
    unfolding exit_wanted_def exit_instead_def
    by (intro safe_rules cancel_exit.exit_enable cancel_exit.exit_proxy safe_change over fell)
  then have go: "triple (\<lambda>s. since k s \<and> \<not> c_stop s) (seq2 (change (\<lambda>s. (teardown_exit (s\<lparr>c_me := c_epoch s\<rparr>))\<lparr>c_proxy_mode := want, c_fell_back := False\<rparr>))
       (catching_engine (exit_wanted w want) (\<lambda>_. exit_instead w want)))
       (\<lambda>r s. r \<in> {SwIdle, SwUnchanged} \<or> cancelled_since w k s) (cancelled_since w k)"
    unfolding safe_def by (intro tr_seq2 [OF tr_change [where Q = "\<lambda>_. cancelled_since w k"]]) (auto intro: torn elim: tr_weaken)
  show ?thesis unfolding switch_exit_mode_def
    by (rule tr_look_bind, rule tr_if, rule tr_give, simp, rule tr_if,
        rule tr_seq2 [OF tr_change [where Q = "\<lambda>_ _. True"] tr_give], simp, simp, rule tr_weaken [OF go]) auto
qed

section \<open>Properties\<close>

lemma never_both:
  "exit_inv s \<Longrightarrow> \<not> (c_proxy s \<noteq> None \<and> (\<exists>st mtu e. c_tun s = Some (Tun st mtu e)))"
  by (auto simp: exit_inv_def)

text \<open>
  C3: however a switch of the exit of a running session ends, a TUN and a Windows proxy are never up
  together. An exit that is reported leads to the exit port, unless another thread ended the session
  during the switch; a switch to TUN that fails ends on the Windows proxy, and when that fails too the
  session is over and nothing is left routed into it. What a switch raises is not a
  \<open>PowEngineError\<close>: then there is no Windows proxy and no TUN at all while the session goes on. Windows
  is pointed at the proxy the session holds, unless a \<open>suspend\<close> or \<open>resume\<close> failed on the way.
\<close>

theorem exit_switch_leaves_one_exit:
  assumes "exit_inv s" "switch_exit_mode w want s = (r, s')"
  shows "\<not> (c_proxy s' \<noteq> None \<and> (\<exists>st mtu e. c_tun s' = Some (Tun st mtu e)))
    \<and> (r \<in> {Inr SwProxy, Inr SwTun} \<longrightarrow> dead s' \<or> exit_ready s' \<and> (r = Inr SwProxy \<longleftrightarrow> c_proxy_mode s' \<or> c_fell_back s'))
    \<and> (r = Inr SwFailed \<longrightarrow> dead s' \<or> c_proxy s' = None \<and> c_tun s' = None \<and> \<not> c_connected s')
    \<and> (r = Inr SwTun \<longrightarrow> \<not> want) \<and> (r = Inr SwStopped \<longrightarrow> dead s')
    \<and> (\<forall>e. r = Inl e \<longrightarrow> e = OtherError \<and> c_proxy s' = None \<and> (\<forall>st mtu x. c_tun s' \<noteq> Some (Tun st mtu x))
        \<and> (dead s' \<or> c_connected s'))
    \<and> (dead s' \<and> r \<notin> {Inr SwIdle, Inr SwUnchanged} \<longrightarrow> c_stop s \<or> (\<exists>n. c_tick s \<le> n \<and> n < c_tick s' \<and> w_cancel w n))
    \<and> (c_windows s = c_proxy s \<longrightarrow> c_windows s' = c_proxy s' \<or> (\<exists>n. c_cleans s \<le> n \<and> n < c_cleans s' \<and> \<not> c_clean s n))"
proof -
  have fin: "case r of Inr a \<Rightarrow> switch_done want a s' | Inl e \<Rightarrow> e = OtherError \<and> unswitched want s'"
    using oc_switch [of w want] assms unfolding outcome_def by fastforce
  then have both: "exit_inv s'" by (auto simp: switch_done_def unswitched_def split: sum.splits)
  have raised: "c_proxy s' = None \<and> (\<forall>st mtu x. c_tun s' \<noteq> Some (Tun st mtu x)) \<and> (dead s' \<or> c_connected s')" if "r = Inl e" for e
    using fin that by (auto simp: unswitched_def carries_def proxy_ok_def exit_inv_def running_def)
  have cancel: "dead s' \<Longrightarrow> r \<notin> {Inr SwIdle, Inr SwUnchanged} \<Longrightarrow> c_stop s \<or> (\<exists>n. c_tick s \<le> n \<and> n < c_tick s' \<and> w_cancel w n)"
    using switch_cancelled [of "c_tick s" w want] assms(2) unfolding triple_def
    by (cases r) (force simp: since_def cancelled_since_def)+
  have windows: "c_windows s = c_proxy s \<Longrightarrow> follows (c_clean s) (c_cleans s) s'"
    by (rule safe_ends [OF switch_follows _ assms(2)]) (simp add: follows_def)
  show ?thesis using fin never_both [OF both] raised cancel windows
    by (intro conjI impI allI) (auto simp: switch_done_def follows_def)
qed

definition calm_world :: world where
  \<comment> \<open>every answer is yes and nobody cancels\<close>
  "calm_world = \<lparr>w_answer = \<lambda>_. True, w_cancel = \<lambda>_. False, w_clock = \<lambda>_. 0, w_now = 0, w_disk = True, w_region = \<lambda>_. ''DE'',
     w_regions = [''DE''], w_network = ''home'', w_net_off = True, w_net_force = False,
     w_data = \<lparr>dd_path = ''d'', dd_relays = Inr JNull, dd_adaptive = Inr JNull\<rparr>\<rparr>"

definition idle_coord :: coord where
  \<comment> \<open>after \<open>__init__\<close>\<close>
  "idle_coord = \<lparr>c_stop = False, c_epoch = 0, c_me = 0, c_connected = False, c_aether = None, c_psiphon = None, c_forwarder = None,
     c_listeners = [], c_proxy = None, c_windows = None, c_clean = \<lambda>_. True, c_cleans = 0, c_proxy_session = False, c_tun = None, c_tun_stack = None, c_tun_misses = 0,
     c_tun_next_probe = 0, c_fell_back = False, c_proxy_mode = True, c_warp_only = False, c_direct = False, c_exit_port = 0,
     c_chain_port = CHAIN_SOCKS_PORT, c_router = False, c_sessions = 0, c_forward_port = FORWARD_HTTP_PORT,
     c_psiphon_port = PSIPHON_SOCKS_PORT, c_bypass = [], c_last_outer = [], c_won_transport = [], c_won_ip = [],
     c_h3_transport = [], c_exit_region = [], c_outer_label = [], c_settings = DEFAULT_SETTINGS, c_status = initial_status,
     c_store = \<lparr>ps_doc = [], ps_disk = Inr JNull\<rparr>, c_log = [], c_tick = 0\<rparr>"

definition session_coord :: coord where
  "session_coord = idle_coord\<lparr>c_connected := True, c_psiphon := Some (''F'', 1820), c_aether := Some ''masque'', c_exit_port := 1821,
     c_proxy := Some (1821, 1822), c_windows := Some (1821, 1822), c_proxy_session := True, c_forwarder := Some (1822, 1821), c_listeners := [(1822, 1821)]\<rparr>"

lemmas act_run = bind_def seq2_def give_def fail_def look_def change_def catching_def catching_engine_def must_def ask_def
  ask_running_def ensure_active_def tcp_accepts_def exit_must_listen_def point_windows_def Let_def

lemma sample_switch:
  "fst (switch_exit_mode calm_world False session_coord) = Inr SwTun"
  by (simp add: switch_exit_mode_def exit_wanted_def session_coord_def idle_coord_def calm_world_def act_run enable_exit_def enable_tun_def
    TUN_ATTEMPTS_def start_tun_def teardown_exit_def drop_proxy_def drop_forwarder_def stop_tun_def
    ensure_active_or_drop_def numeral_2_eq_2)

theorem exit_switch_leaves_one_exit_witness:
  "\<exists>s'. exit_inv session_coord \<and> switch_exit_mode calm_world False session_coord = (Inr SwTun, s') \<and> (dead s' \<or> exit_ready s')"
proof -
  have i: "exit_inv session_coord" by (simp add: exit_inv_def session_coord_def idle_coord_def)
  obtain s' where r: "switch_exit_mode calm_world False session_coord = (Inr SwTun, s')"
    using sample_switch by (metis prod.collapse)
  show ?thesis using exit_switch_leaves_one_exit [OF i r] i r by blast
qed

end
