(* ===== verification/Pow_Connect.thy ===== *)
theory Pow_Connect
  imports Pow_Session
begin

text \<open>
  \<open>pow/coordinator.py\<close>, how a session comes up and stays up: the ladder of the outer leg with its key
  requests, the strategies of the Psiphon hop, \<open>connect\<close>, the recovery of a lost leg and the watchdog.
  The growth of parallel sessions and the memory threads (clean addresses, RTT) run beside the
  session and are not modelled.
\<close>

section \<open>The outer leg\<close>

definition order_ladder :: "pow_store \<Rightarrow> string list \<Rightarrow> string list" where
  "order_ladder st ladder = (case remembered_outer_protocol st of
     Some p \<Rightarrow> if p \<in> set ladder then p # remove1 p ladder else ladder
   | None \<Rightarrow> ladder)"

definition apply_transport_choice :: "pow_settings \<Rightarrow> string list \<Rightarrow> string list \<times> string" where
  \<comment> \<open>the second part is the protocol the user asked for\<close>
  "apply_transport_choice settings ordered = (
     let choice = lower (strip (if outer_transport settings = [] then OUTER_AUTO else outer_transport settings)) in
     if choice = OUTER_AUTO \<or> choice \<notin> set OUTER_LADDER then (ordered, [])
     else if link_recipe settings \<noteq> RECIPE_AUTO then (ordered, [])
     else (choice # filter (\<lambda>p. p \<noteq> choice) ordered, choice))"

datatype key_result = KeyOk | KeyStopped | KeyFailed

definition if_stopped :: "'a act \<Rightarrow> 'a act \<Rightarrow> 'a act" where
  "if_stopped m k = bind (look c_stop) (\<lambda>b. if b then m else k)"

definition net_key_lane :: "world \<Rightarrow> bool act" where
  \<comment> \<open>\<open>keyfetch-net.ps1\<close>: there, started, ended with 0 before the cap, and the identity is complete\<close>
  "net_key_lane w = bind (ask w) (\<lambda>script. if \<not> script then give False
     else bind (ask w) (\<lambda>started. if \<not> started then give False
     else bind (ask_running w) (\<lambda>done_ok. if done_ok then ask w else give False)))"

fun key_attempts :: "world \<Rightarrow> string \<Rightarrow> bool \<Rightarrow> (nat \<times> string) list \<Rightarrow> key_result act" where
  "key_attempts w protocol net_tried [] = give KeyFailed"
| "key_attempts w protocol net_tried ((n, camo) # rest) = if_stopped (give KeyStopped)
     (bind (ask w) (\<lambda>ok. if ok then give KeyOk
       else if_stopped (give KeyStopped)
         (if n = 0 \<and> camo = KEY_AUTO \<and> protocol = ''masque'' \<and> \<not> w_net_off w \<and> \<not> net_tried
          then bind (net_key_lane w) (\<lambda>got. if got then give KeyOk
            else if_stopped (give KeyStopped) (key_attempts w protocol net_tried rest))
          else key_attempts w protocol net_tried rest)))"

definition fetch_key :: "world \<Rightarrow> pow_settings \<Rightarrow> string \<Rightarrow> key_result act" where
  "fetch_key w settings protocol = (
     let mode = (if key_fetch settings = [] then KEY_AUTO else key_fetch settings);
         attempts = (0, mode) # (if mode = KEY_AUTO then [(1, KEY_FETCH_FALLBACK)] else []);
         net_first = (protocol = ''masque'' \<and> \<not> w_net_off w \<and> (mode \<in> {KEY_AUTO, KEY_OOB} \<or> w_net_force w)) in
     if net_first then bind (net_key_lane w) (\<lambda>got. if got then give KeyOk
       else if_stopped (give KeyStopped) (key_attempts w protocol True attempts))
     else key_attempts w protocol False attempts)"

definition start_aether :: "world \<Rightarrow> string \<Rightarrow> bool act" where
  \<comment> \<open>a replaced thread starts nothing; false when the start raised\<close>
  "start_aether w protocol = bind (look (\<lambda>s. c_epoch s \<noteq> c_me s)) (\<lambda>stale. if stale then fail (Engine ''stopped'')
     else bind (ask w) (\<lambda>ok. if ok then seq2 (change (\<lambda>s. s\<lparr>c_aether := Some protocol\<rparr>)) (give True) else give False))"

definition stop_aether :: "coord \<Rightarrow> coord" where
  "stop_aether s = s\<lparr>c_aether := None\<rparr>"

fun dial_windows :: "world \<Rightarrow> string list \<Rightarrow> bool act" where
  "dial_windows w [] = give False"
| "dial_windows w (transport # rest) = seq2 ensure_active (bind (start_aether w ''masque'') (\<lambda>started.
     if \<not> started then dial_windows w rest
     else bind (ask_running w) (\<lambda>ready.
       if ready then seq2 (change (\<lambda>s. s\<lparr>c_h3_transport := transport\<rparr>)) (give True)
       else if_stopped (give False) (seq2 (change stop_aether) (dial_windows w rest)))))"

definition dial_irancell_h3 :: "world \<Rightarrow> bool act" where
  "dial_irancell_h3 w = seq2 (change (\<lambda>s. s\<lparr>c_h3_transport := []\<rparr>)) (dial_windows w [''h3'', ''h2''])"

definition irancell_h3_applies :: "pow_settings \<Rightarrow> bool \<Rightarrow> string \<Rightarrow> bool" where
  "irancell_h3_applies settings mci protocol = (irancell_h3 settings \<and> \<not> mci \<and> protocol = ''masque'' \<and> link_recipe settings = RECIPE_AUTO)"

datatype dialled = DialReady | DialNoStart | DialNotReady

definition dial_outer :: "world \<Rightarrow> pow_settings \<Rightarrow> bool \<Rightarrow> string \<Rightarrow> dialled act" where
  "dial_outer w settings mci protocol = (
     if irancell_h3_applies settings mci protocol then
       bind (dial_irancell_h3 w) (\<lambda>r. give (if r then DialReady else DialNotReady))
     else bind (start_aether w protocol) (\<lambda>started. if \<not> started then give DialNoStart
       else bind (ask_running w) (\<lambda>ready. give (if ready then DialReady else DialNotReady))))"

definition MCI_WG_BUDGET_MS :: int where "MCI_WG_BUDGET_MS = 20000"

definition attempt_budget :: "pow_settings \<Rightarrow> bool \<Rightarrow> string \<Rightarrow> int \<Rightarrow> bool \<Rightarrow> int" where
  "attempt_budget settings mci protocol offset is_last = (
     let budget = outer_budget_ms protocol False (attempt_scan_mode protocol offset (scan_mode settings) False) in
     if mci \<and> protocol = ''wireguard'' \<and> \<not> is_last then min budget MCI_WG_BUDGET_MS else budget)"

definition outer_won :: "world \<Rightarrow> pow_settings \<Rightarrow> bool \<Rightarrow> string \<Rightarrow> coord \<Rightarrow> coord" where
  "outer_won w settings mci protocol s = (let plan = outer_plan_of settings mci in
     s\<lparr>c_store := snd (save_outer_protocol (w_disk w) protocol (c_store s)), c_last_outer := protocol,
       c_won_transport := (if protocol = ''masque'' then (if c_h3_transport s \<noteq> [] then c_h3_transport s else op_masque_transport plan) else []),
       c_won_ip := ip_for plan protocol\<rparr>)"

definition outer_name :: "string \<Rightarrow> string \<Rightarrow> string" where
  "outer_name preferred protocol = (if preferred \<noteq> [] \<and> protocol \<noteq> preferred
     then outer_label protocol @ '' ('' @ outer_label preferred @ '' failed, fell back)'' else outer_label protocol)"

definition prepare_key :: "world \<Rightarrow> pow_settings \<Rightarrow> string \<Rightarrow> int \<Rightarrow> key_result act" where
  \<comment> \<open>a saved identity makes the request unnecessary for MASQUE\<close>
  "prepare_key w settings protocol offset = bind (if protocol = ''masque'' then ask w else give False) (\<lambda>ready.
     if ready then give KeyOk
     else seq2 (report (Update Outer (15 + offset * 10) ''Getting a WARP key'' (Some (outer_label protocol)) None))
       (bind (fetch_key w settings protocol) (\<lambda>r.
         if_stopped (give KeyStopped)
           (if r = KeyOk then seq2 (report (Update Outer (20 + offset * 10) (''Connecting '' @ outer_label protocol)
               (Some (outer_label protocol)) None)) (give KeyOk)
            else give KeyFailed))))"

fun raise_outer :: "world \<Rightarrow> pow_settings \<Rightarrow> bool \<Rightarrow> string \<Rightarrow> int \<Rightarrow> string list \<Rightarrow> string option act" where
  "raise_outer w settings mci preferred offset [] = give None"
| "raise_outer w settings mci preferred offset (protocol # rest) = seq2 ensure_active
     (seq2 (report (Update Outer (20 + offset * 10) (''Connecting '' @ outer_label protocol) (Some (outer_label protocol)) None))
     (seq2 (log_line (OuterAttempt protocol (attempt_budget settings mci protocol offset (rest = []))
         (attempt_scan_mode protocol offset (scan_mode settings) False)))
     (bind (prepare_key w settings protocol offset) (\<lambda>key.
       if key = KeyStopped then give None
       else if key = KeyFailed then
         (if protocol = ''masque'' then seq2 (report (Note ''Key request failed. Staying on this method.'' True)) (give None)
          else raise_outer w settings mci preferred (offset + 1) rest)
       else bind (dial_outer w settings mci protocol) (\<lambda>d.
         if d = DialReady then seq2 (change (outer_won w settings mci protocol)) (give (Some (outer_name preferred protocol)))
         else if d = DialNoStart then
           (if protocol = ''masque'' then seq2 (report (Note ''Scan finished. Staying on this method.'' True)) (give None)
            else raise_outer w settings mci preferred (offset + 1) rest)
         else if_stopped (give None) (seq2 (change stop_aether)
           (if protocol = ''masque'' then seq2 (report (Note ''Scan finished. Staying on this method.'' True)) (give None)
            else raise_outer w settings mci preferred (offset + 1) rest)))))))"

definition start_parallel :: "world \<Rightarrow> pow_settings \<Rightarrow> unit act" where
  \<comment> \<open>\<open>_start_parallel_masque\<close>: the router in front of the main session\<close>
  "start_parallel w settings = (if \<not> parallel_masque settings then give ()
     else bind (look (\<lambda>s. c_last_outer s = ''masque'' \<and> c_won_transport s \<in> {[], ''h2''})) (\<lambda>h2.
       if \<not> h2 then give ()
       else bind (ask w) (\<lambda>listens. if listens
         then change (\<lambda>s. s\<lparr>c_router := True, c_chain_port := ROUTER_PORT, c_sessions := 1\<rparr>) else give ())))"

definition join_router :: "coord \<Rightarrow> coord" where
  \<comment> \<open>\<open>_join_router\<close> of a further session\<close>
  "join_router s = (if c_router s then s\<lparr>c_sessions := Suc (c_sessions s)\<rparr> else s)"

section \<open>The Psiphon hop\<close>

definition strategy_order :: "world \<Rightarrow> bool \<Rightarrow> pow_store \<Rightarrow> (psiphon_strategy list \<times> int) \<times> pow_store" where
  \<comment> \<open>an error of the store clears what was remembered\<close>
  "strategy_order w direct st = (
     let ladder = strategy_ladder direct; shape = strategy_signature (Some direct); n = int (length ladder);
         (r, st) = (case network_strategy_index (w_network w) shape n st of
            Inr None \<Rightarrow> if w_network w = ''default''
              then (case remembered_strategy_index (w_disk w) n (Some shape) st of (r, st') \<Rightarrow> (rbind r (\<lambda>i. Inr (Some i)), st'))
              else (Inr None, st)
          | r \<Rightarrow> (r, st));
         keys = map (\<lambda>s. rtt_key direct (ps_name s)) ladder;
         found = rbind r (\<lambda>i. rbind (strategy_rtts (w_network w) keys st) (\<lambda>saved. Inr (i,
           concat (map (\<lambda>s. case dict_get saved (rtt_key direct (ps_name s)) of
             Some v \<Rightarrow> [(ps_name s, v)] | None \<Rightarrow> []) ladder)))) in
     case found of
       Inl _ \<Rightarrow> ((ladder, start_index ladder None []), st)
     | Inr (i, rtts) \<Rightarrow> ((ladder, start_index ladder i rtts), st))"

type_synonym psiphon_attempt = "psiphon_strategy \<times> string \<times> bool"  \<comment> \<open>strategy, region, nearby\<close>

definition bias_region :: "world \<Rightarrow> pow_settings \<Rightarrow> bool \<Rightarrow> pow_store \<Rightarrow> string option" where
  "bias_region w settings direct st = (
     if egress_region (exit_country_code settings) = None \<and> \<not> direct
     then auto_bias_region (remembered_region (w_network w) st) (available_regions st) False else None)"

definition psiphon_attempts :: "string option \<Rightarrow> string option \<Rightarrow> psiphon_strategy list \<Rightarrow> psiphon_attempt list" where
  "psiphon_attempts explicit bias ordered = (case explicit of
       Some r \<Rightarrow> [(hd ordered, r, False)]
     | None \<Rightarrow> (case bias of Some r \<Rightarrow> [(hd ordered, r, True)] | None \<Rightarrow> []))
     @ map (\<lambda>s. (s, [], False)) ordered"

definition index_of :: "string \<Rightarrow> psiphon_strategy list \<Rightarrow> int" where
  "index_of name ladder = int (length (takeWhile (\<lambda>s. ps_name s \<noteq> name) ladder))"

definition upstream_of :: "bool \<Rightarrow> coord \<Rightarrow> int" where
  "upstream_of direct s = (if direct then 0 else c_chain_port s)"

definition start_psiphon :: "world \<Rightarrow> string \<Rightarrow> bool \<Rightarrow> bool act" where
  "start_psiphon w name direct = bind (look (upstream_of direct)) (\<lambda>port. bind (ask w) (\<lambda>ok.
     if ok then seq2 (change (\<lambda>s. s\<lparr>c_psiphon := Some (name, port)\<rparr>)) (give True) else give False))"

definition stop_psiphon :: "coord \<Rightarrow> coord" where
  "stop_psiphon s = s\<lparr>c_psiphon := None\<rparr>"

definition psiphon_won :: "world \<Rightarrow> bool \<Rightarrow> psiphon_strategy list \<Rightarrow> string \<Rightarrow> coord \<Rightarrow> coord" where
  "psiphon_won w direct ladder name s = (
     let st = snd (save_network_strategy (w_disk w) (w_now w) (w_network w) (strategy_signature (Some direct)) (index_of name ladder) (c_store s));
         st = (if w_regions w \<noteq> [] then snd (remember_available_regions (w_disk w) (w_regions w) st) else st) in
     s\<lparr>c_store := st, c_exit_region := w_region w (c_tick s)\<rparr>)"

fun try_psiphon :: "world \<Rightarrow> bool \<Rightarrow> psiphon_strategy list \<Rightarrow> psiphon_attempt list \<Rightarrow> unit act" where
  "try_psiphon w direct ladder [] = seq2 (report (Update PhaseFailed 0 ''Psiphon did not connect in time'' None None))
     (fail (Engine ''Psiphon did not connect in time''))"
| "try_psiphon w direct ladder ((strategy, region, bias) # rest) = seq2 ensure_active
     (bind (look (upstream_of direct)) (\<lambda>port. seq2 (log_line (PsiphonAttempt (ps_name strategy) region bias port))
     (bind (start_psiphon w (ps_name strategy) direct) (\<lambda>started. if \<not> started then try_psiphon w direct ladder rest
       else bind (ask_running w) (\<lambda>up. if up then change (psiphon_won w direct ladder (ps_name strategy))
         else seq2 (change stop_psiphon) (try_psiphon w direct ladder rest))))))"

definition start_psiphon_tunnel :: "world \<Rightarrow> pow_settings \<Rightarrow> unit act" where
  "start_psiphon_tunnel w settings = bind (look c_direct) (\<lambda>direct. bind (look c_store) (\<lambda>st.
     case strategy_order w direct st of ((ladder, start), st') \<Rightarrow>
       let ordered = drop (nat start) ladder @ take (nat start) ladder;
           explicit = egress_region (exit_country_code settings) in
       seq2 (change (\<lambda>s. s\<lparr>c_store := st'\<rparr>))
         (try_psiphon w direct ladder (psiphon_attempts explicit (bias_region w settings direct st') ordered))))"

definition try_direct_psiphon_fast :: "world \<Rightarrow> pow_settings \<Rightarrow> bool act" where
  "try_direct_psiphon_fast w settings = (if \<not> chain_psiphon settings then give False
     else seq2 ensure_active (bind (look c_store) (\<lambda>st. case strategy_order w True st of ((ladder, start), st') \<Rightarrow>
       let strategy = ladder ! nat start in
       seq2 (change (\<lambda>s. s\<lparr>c_store := st'\<rparr>))
       (seq2 (report (Update Inner 10 ''Trying Psiphon directly (fast mode)'' None None))
       (bind (start_psiphon w (ps_name strategy) True) (\<lambda>started. if \<not> started then give False
         else bind (ask_running w) (\<lambda>up.
           if up then seq2 (change (\<lambda>s. s\<lparr>c_direct := True, c_exit_region := w_region w (c_tick s)\<rparr>)) (give True)
           else seq2 (change stop_psiphon) (give False))))))))"

section \<open>connect\<close>

definition last_connection :: "bool \<Rightarrow> coord \<Rightarrow> last_connect" where
  "last_connection chain s = \<lparr>
     lc_protocol = (if chain \<and> c_direct s then ''psiphon'' else if c_last_outer s \<noteq> [] then c_last_outer s else ''psiphon''),
     lc_transport = c_won_transport s, lc_ip = c_won_ip s, lc_peer = [], lc_through_psiphon = chain\<rparr>"

definition ready_text :: "bool \<Rightarrow> bool \<Rightarrow> string \<Rightarrow> coord \<Rightarrow> string" where
  "ready_text chain proxy_mode outer_text s = (
     if chain then (if \<not> c_direct s then ''UAC PoW ready'' @ middle_dot @ ''Tunnel through Psiphon over '' @ outer_text
       else ''UAC PoW ready'' @ middle_dot @ ''Tunnel through Psiphon'')
     else if proxy_mode then ''UAC PoW ready'' @ middle_dot @ ''WARP only''
     else ''UAC PoW ready'' @ middle_dot @ ''Tunnel VPN through WARP'')"

definition connect_answer :: "bool \<Rightarrow> string \<Rightarrow> coord \<Rightarrow> string" where
  \<comment> \<open>what \<open>connect\<close> returns\<close>
  "connect_answer proxy_mode ready s = (if proxy_mode \<or> c_fell_back s
     then ''UAC PoW ready'' @ middle_dot @ ''Proxy 127.0.0.1:'' @ int_str (c_exit_port s) else ready)"

definition watched :: "world \<Rightarrow> coord \<Rightarrow> coord" where
  \<comment> \<open>\<open>_connected\<close> is set and the watchdog starts\<close>
  "watched w s = s\<lparr>c_connected := True, c_tun_misses := 0, c_tun_next_probe := w_clock w (c_tick s) + 30\<rparr>"

definition bring_inner :: "world \<Rightarrow> pow_settings \<Rightarrow> bool \<Rightarrow> string option \<Rightarrow> string act" where
  \<comment> \<open>the part of \<open>_connect_session\<close> between the outer leg and the exit; it returns the outer name\<close>
  "bring_inner w settings fast outer = (
     if \<not> chain_psiphon settings then
       (let outer_text = (case outer of Some n \<Rightarrow> n | None \<Rightarrow> ''WARP'') in
        seq2 (change (\<lambda>s. s\<lparr>c_warp_only := True, c_exit_port := c_chain_port s, c_outer_label := outer_text\<rparr>)) (give outer_text))
     else
       (let direct = (outer = None); outer_text = (case outer of Some n \<Rightarrow> n | None \<Rightarrow> ''Psiphon'') in
        seq2 (change (\<lambda>s. s\<lparr>c_direct := direct\<rparr>)) (seq2 ensure_active
          (seq2 (report (Update Inner 55 (if direct then ''Starting Psiphon directly'' else ''Starting Psiphon through '' @ outer_text)
              (Some outer_text) None))
          (seq2 (change (\<lambda>s. s\<lparr>c_outer_label := outer_text\<rparr>))
          (seq2 (if fast then give () else start_psiphon_tunnel w settings)
          (seq2 (change (\<lambda>s. s\<lparr>c_exit_port := c_psiphon_port s\<rparr>)) (give outer_text))))))))"

definition outer_phase :: "world \<Rightarrow> pow_settings \<Rightarrow> bool \<Rightarrow> string \<Rightarrow> string list \<Rightarrow> bool \<Rightarrow> string option act" where
  "outer_phase w settings mci preferred ordered fast = (if fast then give None
     else bind (raise_outer w settings mci preferred 0 ordered) (\<lambda>outer.
       seq2 (if outer = None then give () else if_stopped (give ()) (start_parallel w settings)) (give outer)))"

definition bring_exit :: "world \<Rightarrow> pow_settings \<Rightarrow> bool \<Rightarrow> string \<Rightarrow> string act" where
  \<comment> \<open>the part of \<open>_connect_session\<close> after the legs\<close>
  "bring_exit w settings proxy_mode outer_text = seq2 ensure_active
     (seq2 (report (if proxy_mode then Update Bridging 88 ''Pointing Windows proxy at UAC PoW'' None None
         else Update Bridging 90 ''Routing device traffic through UAC PoW'' None None))
     (seq2 (enable_exit w proxy_mode)
     (bind (look (\<lambda>s. save_last_connect (w_disk w) (last_connection (chain_psiphon settings) s) (c_store s))) (\<lambda>(r, st').
       seq2 (change (\<lambda>s. s\<lparr>c_store := st'\<rparr>))
       (case r of Inl _ \<Rightarrow> fail OtherError | Inr _ \<Rightarrow>
          bind (look (ready_text (chain_psiphon settings) proxy_mode outer_text)) (\<lambda>text.
          seq2 (report (Update Connected 100 text (Some outer_text) None))
          (seq2 (change (watched w)) (look (connect_answer proxy_mode text)))))))))"

definition connect_session :: "world \<Rightarrow> pow_settings \<Rightarrow> bool \<Rightarrow> string list \<Rightarrow> string act" where
  "connect_session w settings proxy_mode bypass = (
     let mci = uses_mci_firewall settings; plan = outer_plan_of settings mci in
     seq2 (change (\<lambda>s. s\<lparr>c_proxy_mode := proxy_mode, c_fell_back := False,
         c_bypass := filter (\<lambda>b. b \<noteq> []) (map strip bypass), c_status := status_step Reset (c_status s),
         c_settings := settings, c_h3_transport := [], c_chain_port := CHAIN_SOCKS_PORT\<rparr>))
     (seq2 (report (Update Starting 5 ''Starting UAC PoW'' None None))
     (bind (look c_store) (\<lambda>st.
       let (ordered, preferred) = apply_transport_choice settings (order_ladder st (op_protocols plan)) in
       if ordered = [] then fail (Engine ''no WARP transport selected'')
       else bind (if direct_psiphon_first settings then try_direct_psiphon_fast w settings else give False) (\<lambda>fast.
         bind (outer_phase w settings mci preferred ordered fast) (\<lambda>outer.
         if_stopped (fail (Engine ''stopped''))
         (if \<not> chain_psiphon settings \<and> outer = None then
            seq2 (report (Update PhaseFailed 0 ''WARP did not come up'' None None)) (fail (Engine ''WARP did not come up''))
          else bind (bring_inner w settings fast outer) (bring_exit w settings proxy_mode))))))))"

definition port_of :: "int res \<Rightarrow> int \<Rightarrow> int" where
  "port_of r d = (case r of Inr p \<Rightarrow> p | Inl _ \<Rightarrow> d)"

definition begin_connect :: "coord \<Rightarrow> coord" where
  \<comment> \<open>the new epoch belongs to this thread\<close>
  "begin_connect s = (let s = s\<lparr>c_epoch := Suc (c_epoch s), c_me := Suc (c_epoch s)\<rparr> in disconnect True (Some (c_me s)) s)"

definition read_ports :: "coord \<Rightarrow> coord" where
  "read_ports s = s\<lparr>c_stop := False, c_forward_port := port_of (proxy_http_port (c_store s)) FORWARD_HTTP_PORT,
     c_psiphon_port := port_of (psiphon_socks_port (c_store s)) PSIPHON_SOCKS_PORT\<rparr>"

definition connect :: "world \<Rightarrow> pow_settings \<Rightarrow> bool \<Rightarrow> string list \<Rightarrow> string act" where
  "connect w settings0 proxy_mode bypass = (let settings = validated settings0 in
     seq2 (change begin_connect)
     (bind (ask w) (\<lambda>waited. seq2 (change (\<lambda>s. if waited then disconnect True (Some (c_me s)) s else s))
     (bind (look (\<lambda>s. c_epoch s \<noteq> c_me s)) (\<lambda>replaced. if replaced then fail (Engine ''stopped'')
       else seq2 (change read_ports)
       (bind (look (\<lambda>s. c_psiphon_port s \<noteq> PSIPHON_SOCKS_PORT \<and> (chain_psiphon settings \<or> direct_psiphon_first settings))) (\<lambda>custom.
         seq2 (if custom then must w (Engine ''Psiphon SOCKS port is not free'') else give ())
         (seq2 (if proxy_mode then must w (Engine ''Local proxy port is not free'') else give ())
           (connect_session w settings proxy_mode bypass)))))))))"


section \<open>Recovery and the watchdog\<close>

definition raise_legs_again :: "world \<Rightarrow> unit act" where
  "raise_legs_again w = bind (look c_settings) (\<lambda>settings.
     let mci = uses_mci_firewall settings; plan = outer_plan_of settings mci in
     seq2 (change (\<lambda>s. stop_parallel (stop_aether (stop_psiphon s))))
     (bind (look (\<lambda>s. (c_store s, \<not> c_direct s \<or> c_warp_only s, c_warp_only s))) (\<lambda>(st, needs_outer, warp_only).
       let (ordered, preferred) = apply_transport_choice settings (order_ladder st (op_protocols plan)) in
       seq2 (if \<not> needs_outer then give ()
         else bind (raise_outer w settings mci preferred 0 ordered) (\<lambda>outer.
           if outer = None then fail (Engine ''WARP did not come up'')
           else if_stopped (give ()) (start_parallel w settings)))
       (seq2 ensure_active
         (if warp_only then change (\<lambda>s. s\<lparr>c_exit_port := c_chain_port s\<rparr>)
          else seq2 (start_psiphon_tunnel w settings) (change (\<lambda>s. s\<lparr>c_exit_port := c_psiphon_port s\<rparr>)))))))"

definition reattach_exit :: "world \<Rightarrow> bool \<Rightarrow> int \<Rightarrow> unit act" where
  \<comment> \<open>the part of a recovery attempt under the exit lock\<close>
  "reattach_exit w released old_exit = seq2 ensure_active (bind (look id) (\<lambda>s.
     if \<not> c_proxy_mode s \<and> \<not> c_fell_back s then
       (if released \<or> c_tun s = None \<or> c_exit_port s \<noteq> old_exit then seq2 (change stop_tun) (enable_tun w)
        else bind (ask w) (\<lambda>ok. if ok then give () else seq2 (change stop_tun) (enable_tun w)))
     else if released \<or> c_proxy s = None then enable_proxy w else give ()))"

definition recover_attempt :: "world \<Rightarrow> bool \<Rightarrow> unit act" where
  "recover_attempt w released = bind (look c_exit_port) (\<lambda>old_exit.
     seq2 (raise_legs_again w) (seq2 (exit_must_listen w) (seq2 (reattach_exit w released old_exit)
       (bind (look c_outer_label) (\<lambda>lab. report (Update Connected 100 ''UAC PoW ready'' (Some lab) None))))))"

definition HOLD_S :: rat where "HOLD_S = 90"

definition release_exit :: "coord \<Rightarrow> coord" where
  "release_exit s = drop_proxy (stop_tun s)"

fun recover_loop :: "world \<Rightarrow> nat \<Rightarrow> nat \<Rightarrow> rat \<Rightarrow> bool \<Rightarrow> rat \<Rightarrow> bool option act" where
  \<comment> \<open>\<open>None\<close>: still trying after so many attempts\<close>
  "recover_loop w 0 epoch started released delay = give None"
| "recover_loop w (Suc n) epoch started released delay = bind (look (\<lambda>s. c_stop s \<or> c_epoch s \<noteq> epoch)) (\<lambda>ended.
     if ended then give (Some False)
     else bind (catching (seq2 (recover_attempt w released) (give True)) (\<lambda>_. give False)) (\<lambda>up.
       if up then give (Some True)
       else bind (look (\<lambda>s. c_stop s \<or> c_epoch s \<noteq> epoch)) (\<lambda>ended. if ended then give (Some False)
       else bind (look (\<lambda>s. \<not> released \<and> w_clock w (c_tick s) - started > HOLD_S)) (\<lambda>late.
         seq2 (change (\<lambda>s. if late then release_exit s else s)) (seq2 (ask w)
           (if_stopped (give (Some False))
             (recover_loop w n epoch started (released \<or> late) (min (delay * 2) 30))))))))"

definition recover :: "world \<Rightarrow> nat \<Rightarrow> nat \<Rightarrow> bool option act" where
  "recover w fuel epoch = bind (look c_outer_label) (\<lambda>lab.
     seq2 (report (Update Outer 30 ''Reconnecting'' (Some lab) None))
     (bind (look (\<lambda>s. w_clock w (c_tick s))) (\<lambda>started. recover_loop w fuel epoch started False 2)))"

definition restart_tun :: "world \<Rightarrow> bool act" where
  "restart_tun w = bind (look id) (\<lambda>s. if c_stop s \<or> c_me s \<noteq> c_epoch s \<or> c_exit_port s \<le> 0 then give False
     else let (stack, mtu) = (case c_tun_stack s of Some x \<Rightarrow> x | None \<Rightarrow> hd TUN_ATTEMPTS) in
       seq2 (change stop_tun)
       (bind (catching_engine (seq2 (start_tun w stack mtu) (give True)) (\<lambda>_. give False)) (\<lambda>started.
         if started then ask w else give False)))"

definition tun_healthy :: "world \<Rightarrow> nat \<Rightarrow> bool act" where
  \<comment> \<open>false: the watchdog ends\<close>
  "tun_healthy w epoch = bind (look (\<lambda>s. c_tun s = None \<or> c_fell_back s \<or> c_proxy_mode s)) (\<lambda>skip.
     if skip then give True
     else bind (ask w) (\<lambda>alive. bind (look (\<lambda>s. alive \<and> w_clock w (c_tick s) < c_tun_next_probe s)) (\<lambda>early.
       if early then give True
       else seq2 (change (\<lambda>s. s\<lparr>c_tun_next_probe := w_clock w (c_tick s) + 30\<rparr>))
         (bind (if alive then ask w else give False) (\<lambda>healthy.
           if healthy then seq2 (change (\<lambda>s. s\<lparr>c_tun_misses := 0\<rparr>)) (give True)
           else seq2 (change (\<lambda>s. s\<lparr>c_tun_misses := (if alive then Suc (c_tun_misses s) else 0)\<rparr>))
             (bind (look (\<lambda>s. alive \<and> c_tun_misses s < 2)) (\<lambda>wait. if wait then give True
               else bind (look (\<lambda>s. c_stop s \<or> c_epoch s \<noteq> epoch)) (\<lambda>ended. if ended then give False
                 else bind (restart_tun w) (\<lambda>ok.
                   if ok then seq2 (change (\<lambda>s. s\<lparr>c_tun_misses := 0\<rparr>)) (give True)
                   else seq2 (change (fail_session ''system tunnel stopped working'')) (give False))))))))))"

definition leg_running :: "world \<Rightarrow> bool \<Rightarrow> bool act" where
  "leg_running w started = (if started then ask w else give False)"

definition watch_step :: "world \<Rightarrow> nat \<Rightarrow> nat \<Rightarrow> bool option act" where
  \<comment> \<open>one round of the watchdog; false: it ends, \<open>None\<close>: it is still reconnecting\<close>
  "watch_step w fuel epoch = seq2 (ask w) (bind (look (\<lambda>s. c_stop s \<or> c_epoch s \<noteq> epoch \<or> \<not> c_connected s)) (\<lambda>ended.
     if ended then give (Some False)
     else bind (look id) (\<lambda>s.
       bind (if c_warp_only s \<or> \<not> c_direct s then leg_running w (c_aether s \<noteq> None) else give True) (\<lambda>outer_ok.
       bind (if \<not> c_warp_only s then leg_running w (c_psiphon s \<noteq> None) else give True) (\<lambda>inner_ok.
       if outer_ok \<and> inner_ok then bind (tun_healthy w epoch) (\<lambda>b. give (Some b))
       else bind (if \<not> outer_ok \<and> inner_ok \<and> c_router s then ask w else give False) (\<lambda>promoted.
         if promoted then give (Some True) else recover w fuel epoch))))))"

section \<open>What a live thread keeps\<close>

definition kept_by :: "(coord \<Rightarrow> 'b) \<Rightarrow> 'a act \<Rightarrow> bool" where
  \<comment> \<open>unless the thread dies on the way\<close>
  "kept_by f m \<longleftrightarrow> (\<forall>s. (dead s \<longrightarrow> dead (snd (m s))) \<and> (dead (snd (m s)) \<or> f (snd (m s)) = f s))"

lemma kept_give: "kept_by f (give a)" by (simp add: kept_by_def give_def)
lemma kept_fail: "kept_by f (fail e)" by (simp add: kept_by_def fail_def)
lemma kept_look: "kept_by f (look g)" by (simp add: kept_by_def look_def)

lemma kept_change: "(\<And>s. dead (g s) = dead s) \<Longrightarrow> (\<And>s. f (g s) = f s) \<Longrightarrow> kept_by f (change g)"
  by (simp add: kept_by_def change_def)

lemma kept_bind:
  assumes "kept_by f m" "\<And>a. kept_by f (k a)" shows "kept_by f (bind m k)"
  unfolding kept_by_def
proof
  fix s
  obtain r s1 where m: "m s = (r, s1)" by force
  have 1: "dead s \<longrightarrow> dead s1" "dead s1 \<or> f s1 = f s" using assms(1) m unfolding kept_by_def by (metis snd_conv)+
  show "(dead s \<longrightarrow> dead (snd (bind m k s))) \<and> (dead (snd (bind m k s)) \<or> f (snd (bind m k s)) = f s)"
  proof (cases r)
    case (Inl e)
    then show ?thesis using 1 m by (auto simp: bind_def)
  next
    case (Inr a)
    have "dead s1 \<longrightarrow> dead (snd (k a s1))" "dead (snd (k a s1)) \<or> f (snd (k a s1)) = f s1"
      using assms(2) [of a] unfolding kept_by_def by blast+
    then show ?thesis using 1 m Inr by (auto simp: bind_def)
  qed
qed

lemma kept_seq2: "kept_by f m \<Longrightarrow> kept_by f k \<Longrightarrow> kept_by f (seq2 m k)"
  unfolding seq2_def by (rule kept_bind)

lemma kept_catching:
  assumes "kept_by f m" "\<And>e. kept_by f (h e)" shows "kept_by f (catching m h)"
  unfolding kept_by_def
proof
  fix s
  obtain r s1 where m: "m s = (r, s1)" by force
  have 1: "dead s \<longrightarrow> dead s1" "dead s1 \<or> f s1 = f s" using assms(1) m unfolding kept_by_def by (metis snd_conv)+
  show "(dead s \<longrightarrow> dead (snd (catching m h s))) \<and> (dead (snd (catching m h s)) \<or> f (snd (catching m h s)) = f s)"
  proof (cases r)
    case (Inr a)
    then show ?thesis using 1 m by (auto simp: catching_def)
  next
    case (Inl e)
    have "dead s1 \<longrightarrow> dead (snd (h e s1))" "dead (snd (h e s1)) \<or> f (snd (h e s1)) = f s1"
      using assms(2) [of e] unfolding kept_by_def by blast+
    then show ?thesis using 1 m Inl by (auto simp: catching_def)
  qed
qed

lemma kept_catching_engine: "kept_by f m \<Longrightarrow> (\<And>t. kept_by f (h t)) \<Longrightarrow> kept_by f (catching_engine m h)"
  unfolding catching_engine_def by (rule kept_catching) (auto split: failure.splits intro: kept_fail)

lemma kept_if: "kept_by f m \<Longrightarrow> kept_by f k \<Longrightarrow> kept_by f (if b then m else k)" by simp

definition blind :: "(coord \<Rightarrow> 'b) \<Rightarrow> bool" where
  "blind f \<longleftrightarrow> (\<forall>s n. f (s\<lparr>c_tick := n\<rparr>) = f s)"

lemma kept_ask: assumes "blind f" shows "kept_by f (ask w)"
proof -
  have "f (s\<lparr>c_tick := n\<rparr>) = f s" for s n using assms unfolding blind_def by blast
  then show ?thesis by (simp add: kept_by_def ask_def Let_def)
qed

lemma kept_ask_running: "blind f \<Longrightarrow> kept_by f (ask_running w)"
  unfolding ask_running_def by (rule kept_bind [OF kept_ask]) (auto intro: kept_look)

lemma kept_must: "blind f \<Longrightarrow> kept_by f (must w e)"
  unfolding must_def by (rule kept_bind [OF kept_ask]) (auto simp: kept_give kept_fail)

lemma kept_ensure_active: "kept_by f ensure_active"
  unfolding ensure_active_def by (intro kept_bind kept_if kept_look kept_give kept_fail)

lemmas kept_rules = kept_give kept_fail kept_look kept_bind kept_seq2 kept_catching kept_catching_engine kept_if
  kept_ask kept_ask_running kept_must kept_ensure_active

lemma triple_kept:
  assumes "triple P m Q R" "kept_by f m"
  shows "triple (\<lambda>s. P s \<and> (dead s \<or> G (f s))) m (\<lambda>a s. Q a s \<and> (dead s \<or> G (f s))) (\<lambda>s. R s \<and> (dead s \<or> G (f s)))"
  unfolding triple_def
proof (intro allI impI)
  fix s assume s: "P s \<and> (dead s \<or> G (f s))"
  obtain r s' where m: "m s = (r, s')" by force
  have "dead s \<longrightarrow> dead s'" "dead s' \<or> f s' = f s" using assms(2) m unfolding kept_by_def by (metis snd_conv)+
  then have "dead s' \<or> G (f s')" using s by auto
  then show "case m s of (Inr a, s') \<Rightarrow> Q a s' \<and> (dead s' \<or> G (f s')) | (Inl e, s') \<Rightarrow> R s' \<and> (dead s' \<or> G (f s'))"
    using s assms(1) m unfolding triple_def by (cases r) (auto dest: spec [of _ s])
qed

text \<open>The legs of a session: what the exit does not touch.\<close>

definition legs :: "coord \<Rightarrow> string option \<times> (string \<times> int) option \<times> bool \<times> bool \<times> int \<times> int \<times> int \<times> bool" where
  "legs s = (c_aether s, c_psiphon s, c_direct s, c_warp_only s, c_chain_port s, c_psiphon_port s, c_exit_port s, c_proxy_mode s)"

lemma blind_legs [simp]: "blind legs" by (simp add: blind_def legs_def)

lemma legs_upd [simp]:
  "legs (set_windows h k s) = legs s" "legs (miss_windows h k s) = legs s" "legs (s\<lparr>c_tun := t\<rparr>) = legs s"
  "legs (s\<lparr>c_forwarder := fw, c_listeners := l\<rparr>) = legs s" "legs ((stop_tun s)\<lparr>c_fell_back := b\<rparr>) = legs s"
  "legs (s\<lparr>c_tun_stack := x\<rparr>) = legs s" "legs (stop_tun s) = legs s" "legs (drop_proxy s) = legs s"
  "dead (s\<lparr>c_forwarder := fw, c_listeners := l\<rparr>) = dead s"
  "dead ((stop_tun s)\<lparr>c_fell_back := b\<rparr>) = dead s"
  by (simp_all add: legs_def dead_def stop_tun_def drop_proxy_def set_windows_def miss_windows_def)

lemma kept_exit:
  "kept_by legs (exit_must_listen w)" "kept_by legs (point_windows w a b)"
  unfolding exit_must_listen_def tcp_accepts_def point_windows_def
  by (auto intro!: kept_rules kept_change)

lemma kept_enable_proxy: "kept_by legs (enable_proxy w)"
  unfolding enable_proxy_def enable_bypass_proxy_def enable_forwarder_def
  by (auto intro!: kept_rules kept_exit kept_change split: prod.splits)

lemma kept_tun_fallback: "kept_by legs (tun_fallback w)"
  unfolding tun_fallback_def
  by (auto intro!: kept_rules kept_change kept_enable_proxy )

lemma kept_verify: "kept_by legs (verify_times w n)"
  by (induction n) (auto simp: ensure_active_or_drop_def intro!: kept_rules kept_change)

lemma kept_try_tuns: "kept_by legs (try_tuns w l)"
  by (induction l) (auto simp: start_tun_def split: prod.splits
    intro!: kept_rules kept_change kept_verify)

lemma kept_enable_exit: "kept_by legs (enable_exit w p)"
  unfolding enable_exit_def enable_tun_def
  by (auto intro!: kept_rules kept_exit kept_enable_proxy kept_tun_fallback kept_try_tuns)


section \<open>Bringing up the legs\<close>

text \<open>The client of the legs: an assertion that sees what bringing up a leg does not set.\<close>

lemma safe_if_stopped: "safe P m \<Longrightarrow> safe P k \<Longrightarrow> safe P (if_stopped m k)"
  unfolding if_stopped_def by (intro safe_bind safe_if safe_basic)

definition leg_view :: "coord \<Rightarrow> (bool \<times> nat \<times> nat \<times> nat) \<times> ((int \<times> int) option \<times> (int \<times> int) option \<times> (nat \<Rightarrow> bool) \<times> nat)
    \<times> sing_box option \<times> bool \<times> bool" where
  "leg_view s = ((c_stop s, c_epoch s, c_me s, c_tick s), windows_view s, c_tun s, c_proxy_mode s, c_fell_back s)"

lemma leg_view_upd [simp]:
  "leg_view (s\<lparr>c_aether := a\<rparr>) = leg_view s" "leg_view (s\<lparr>c_psiphon := q\<rparr>) = leg_view s"
  "leg_view (s\<lparr>c_status := st\<rparr>) = leg_view s" "leg_view (s\<lparr>c_log := l\<rparr>) = leg_view s" "leg_view (s\<lparr>c_store := d\<rparr>) = leg_view s"
  "leg_view (s\<lparr>c_h3_transport := t\<rparr>) = leg_view s" "leg_view (s\<lparr>c_direct := b\<rparr>) = leg_view s"
  "leg_view (s\<lparr>c_outer_label := t\<rparr>) = leg_view s" "leg_view (s\<lparr>c_exit_port := e\<rparr>) = leg_view s"
  "leg_view (s\<lparr>c_router := r, c_chain_port := c, c_sessions := n\<rparr>) = leg_view s"
  "leg_view (s\<lparr>c_direct := b, c_exit_region := t\<rparr>) = leg_view s" "leg_view (s\<lparr>c_warp_only := b\<rparr>) = leg_view s"
  "leg_view (s\<lparr>c_warp_only := b, c_exit_port := e, c_outer_label := t\<rparr>) = leg_view s"
  "leg_view (stop_aether s) = leg_view s" "leg_view (stop_psiphon s) = leg_view s" "leg_view (stop_parallel s) = leg_view s"
  "leg_view (outer_won w settings mci proto s) = leg_view s" "leg_view (psiphon_won w b ladder name s) = leg_view s"
  "leg_view (watched w s) = leg_view s"
  by (simp_all add: leg_view_def windows_view_def stop_aether_def stop_psiphon_def stop_parallel_def outer_won_def psiphon_won_def
    watched_def Let_def)

locale leg_client =
  fixes P :: "coord \<Rightarrow> bool" and w :: world
  assumes leg_see: "P s \<Longrightarrow> leg_view t = leg_view s \<Longrightarrow> P t"
    and leg_ask: "safe P (ask w)"
begin

lemma leg_change: "(\<And>s. leg_view (g s) = leg_view s) \<Longrightarrow> safe P (change g)"
  by (rule safe_change) (rule leg_see)

lemma leg_ask_running: "safe P (ask_running w)"
  unfolding ask_running_def by (intro safe_rules leg_ask)

lemma leg_must: "safe P (must w e)"
  unfolding must_def by (rule safe_bind [OF leg_ask]) (simp add: safe_basic)

lemmas leg_rules = safe_rules safe_if_stopped leg_ask leg_ask_running leg_must leg_change

lemma leg_report: "safe P (report op)" "safe P (log_line l)"
  unfolding report_def log_line_def by (rule leg_change; simp)+

lemma leg_net_key_lane: "safe P (net_key_lane w)"
  unfolding net_key_lane_def by (intro leg_rules)

lemma leg_key_attempts: "safe P (key_attempts w protocol tried l)"
proof (induction l)
  case Nil
  show ?case by (simp add: safe_basic)
next
  case (Cons a l)
  obtain n camo where a: "a = (n, camo)" by force
  show ?case unfolding a key_attempts.simps by (intro leg_rules leg_net_key_lane Cons.IH)
qed

lemma leg_start_aether: "safe P (start_aether w p)"
  unfolding start_aether_def by (auto intro!: leg_rules)

lemma leg_dial_windows: "safe P (dial_windows w l)"
  by (induction l) (auto intro!: leg_rules leg_start_aether)

lemma leg_dial_outer: "safe P (dial_outer w settings mci p)"
  unfolding dial_outer_def dial_irancell_h3_def by (auto intro!: leg_rules leg_start_aether leg_dial_windows)

lemma leg_prepare_key: "safe P (prepare_key w settings p n)"
  unfolding prepare_key_def fetch_key_def Let_def
  by (auto intro!: leg_rules leg_report leg_net_key_lane leg_key_attempts)

lemma leg_raise_outer: "safe P (raise_outer w settings mci preferred n l)"
  by (induction l arbitrary: n) (auto intro!: leg_rules leg_report leg_prepare_key leg_dial_outer)

lemma leg_start_parallel: "safe P (start_parallel w settings)"
  unfolding start_parallel_def by (auto intro!: leg_rules)

lemma leg_start_psiphon: "safe P (start_psiphon w name d)"
  unfolding start_psiphon_def by (auto intro!: leg_rules)

lemma leg_try_psiphon: "safe P (try_psiphon w d ladder l)"
proof (induction l)
  case Nil
  show ?case by (simp, intro leg_rules leg_report)
next
  case (Cons a l)
  obtain st r b where a: "a = (st, r, b)" by (metis prod_cases3)
  show ?case unfolding a try_psiphon.simps
    by (intro leg_rules leg_report leg_start_psiphon Cons.IH) simp_all
qed

lemma leg_tunnel: "safe P (start_psiphon_tunnel w settings)"
  unfolding start_psiphon_tunnel_def Let_def by (auto intro!: leg_rules leg_try_psiphon split: prod.splits)

lemma leg_try_direct: "safe P (try_direct_psiphon_fast w settings)"
  unfolding try_direct_psiphon_fast_def Let_def
  by (auto intro!: leg_rules leg_report leg_start_psiphon split: prod.splits)

lemma leg_bring_inner: "safe P (bring_inner w settings fast outer)"
  unfolding bring_inner_def Let_def by (auto intro!: leg_rules leg_report leg_tunnel)

lemma leg_outer_phase: "safe P (outer_phase w settings mci preferred ordered fast)"
  unfolding outer_phase_def by (auto intro!: leg_rules leg_raise_outer leg_start_parallel)

lemma leg_again: "safe P (raise_legs_again w)"
  unfolding raise_legs_again_def Let_def
  by (auto intro!: leg_rules leg_raise_outer leg_start_parallel leg_tunnel split: prod.splits)

end

definition modes :: "bool \<Rightarrow> bool \<Rightarrow> coord \<Rightarrow> bool" where
  "modes pm fb s \<longleftrightarrow> exit_inv s \<and> c_proxy_mode s = pm \<and> c_fell_back s = fb"

lemma calm_modes [simp]: "calm (modes pm fb)"
  unfolding calm_def by (auto simp: modes_def exit_inv_def)

lemma leg_parts:
  assumes "leg_view t = leg_view s"
  shows "c_proxy t = c_proxy s" "c_tun t = c_tun s" "c_proxy_mode t = c_proxy_mode s" "c_fell_back t = c_fell_back s"
    "c_tick t = c_tick s" "dead t = dead s" "windows_view t = windows_view s"
  using assms by (simp_all add: leg_view_def windows_view_def dead_def)

lemma leg_seen:
  assumes "leg_view t = leg_view s"
  shows "exit_inv s \<Longrightarrow> exit_inv t" "modes pm fb s \<Longrightarrow> modes pm fb t" "carries q x s \<Longrightarrow> carries q x t"
    "since k s \<Longrightarrow> since k t" "cancelled_since w k s \<Longrightarrow> cancelled_since w k t" "follows clean k s \<Longrightarrow> follows clean k t"
  using leg_parts [OF assms]
  by (auto simp: exit_inv_def modes_def carries_def proxy_ok_def since_def cancelled_since_def elim: follows_see)

lemma calm_carries [simp]: "calm (carries p t)"
  by (auto simp: calm_def carries_def proxy_ok_def)

interpretation inv_legs: leg_client exit_inv w for w
  by (rule leg_client.intro, erule leg_seen(1) [rotated], assumption) (simp add: safe_ask)

interpretation mode_legs: leg_client "modes pm fb" w for pm fb w
  by (rule leg_client.intro, erule leg_seen(2) [rotated], assumption) (simp add: safe_ask)

interpretation carried_legs: leg_client "carries p t" w for p t w
  by (rule leg_client.intro, erule leg_seen(3) [rotated], assumption) (simp add: safe_ask)

lemma modes_upd [simp]: "modes pm fb (s\<lparr>c_status := st\<rparr>) = modes pm fb s"
  by (simp add: modes_def exit_inv_def)

abbreviation base :: "bool \<Rightarrow> coord \<Rightarrow> bool" where
  "base pm \<equiv> modes pm False"

section \<open>The legs of a session that has come up\<close>

lemma calm_dead_or [intro]: "(\<And>s n. F (s\<lparr>c_tick := n\<rparr>) = F s) \<Longrightarrow> calm (\<lambda>s. dead s \<or> F s)"
  by (rule calm_unless_dead) simp

lemma tr_ask_running: "calm P \<Longrightarrow> triple P (ask_running w) (\<lambda>_. P) R"
  unfolding ask_running_def by (rule tr_ask_bind) (auto intro: tr_look)

definition has_aether :: "coord \<Rightarrow> bool" where
  "has_aether s \<longleftrightarrow> dead s \<or> c_aether s \<noteq> None"

lemma calm_has_aether [simp]: "calm has_aether"
  unfolding has_aether_def by (rule calm_unless_dead) simp

lemma calm_true [simp]: "calm (\<lambda>_. True)" by (simp add: calm_def)

lemma tr_true: "triple P m (\<lambda>_ _. True) (\<lambda>_. True)"
  by (simp add: triple_def split: prod.splits sum.splits)

lemma tr_start_aether: "triple (\<lambda>_. True) (start_aether w p) (\<lambda>b s. b \<longrightarrow> has_aether s) (\<lambda>_. True)"
  unfolding start_aether_def
proof (rule tr_look_bind, rule tr_if [OF tr_fail], simp, rule tr_weaken [where P' = "\<lambda>_. True"])
  show "triple (\<lambda>_. True) (bind (ask w) (\<lambda>ok. if ok then seq2 (change (\<lambda>s. s\<lparr>c_aether := Some p\<rparr>)) (give True) else give False))
      (\<lambda>b s. b \<longrightarrow> has_aether s) (\<lambda>_. True)"
    by (rule tr_ask_bind) (auto intro!: tr_give tr_seq2 [OF tr_change [where Q = "\<lambda>_. has_aether"]] simp: has_aether_def)
qed auto

lemma tr_after_start:
  assumes "triple has_aether m Q (\<lambda>_. True)" "triple (\<lambda>_. True) k Q (\<lambda>_. True)"
  shows "triple (\<lambda>_. True) (bind (start_aether w p) (\<lambda>b. if \<not> b then k else m)) Q (\<lambda>_. True)"
  by (rule tr_bind [OF tr_start_aether], rule tr_if; rule tr_weaken [OF assms(1)] tr_weaken [OF assms(2)]) auto

lemma tr_dial_windows: "triple (\<lambda>_. True) (dial_windows w l) (\<lambda>b s. b \<longrightarrow> has_aether s) (\<lambda>_. True)"
proof (induction l)
  case Nil
  show ?case by (simp add: tr_give)
next
  case (Cons t l)
  have won: "triple has_aether (seq2 (change (\<lambda>s. s\<lparr>c_h3_transport := t\<rparr>)) (give True)) (\<lambda>b s. b \<longrightarrow> has_aether s) (\<lambda>_. True)"
    by (rule tr_seq2 [OF tr_change [where Q = "\<lambda>_. has_aether"] tr_give]) (auto simp: has_aether_def dead_def)
  have lost: "triple has_aether (if_stopped (give False) (seq2 (change stop_aether) (dial_windows w l)))
      (\<lambda>b s. b \<longrightarrow> has_aether s) (\<lambda>_. True)"
    unfolding if_stopped_def
    by (rule tr_look_bind, rule tr_if [OF tr_give], simp, rule tr_seq2 [OF tr_change Cons.IH]) simp
  show ?case unfolding dial_windows.simps
    by (rule tr_seq2 [OF tr_true], rule tr_after_start [OF tr_bind [OF tr_ask_running [OF calm_has_aether]] Cons.IH],
        rule tr_if [OF won lost])
qed

lemma tr_dial_outer: "triple (\<lambda>_. True) (dial_outer w settings mci p) (\<lambda>d s. d = DialReady \<longrightarrow> has_aether s) (\<lambda>_. True)"
proof -
  have windows: "triple (\<lambda>_. True) (bind (dial_irancell_h3 w) (\<lambda>r. give (if r then DialReady else DialNotReady)))
      (\<lambda>d s. d = DialReady \<longrightarrow> has_aether s) (\<lambda>_. True)"
    unfolding dial_irancell_h3_def by (rule tr_bind [OF tr_seq2 [OF tr_true tr_dial_windows]]) (auto intro: tr_give)
  have one: "triple (\<lambda>_. True) (bind (start_aether w p) (\<lambda>started. if \<not> started then give DialNoStart
       else bind (ask_running w) (\<lambda>ready. give (if ready then DialReady else DialNotReady))))
      (\<lambda>d s. d = DialReady \<longrightarrow> has_aether s) (\<lambda>_. True)"
    by (rule tr_after_start [OF tr_bind [OF tr_ask_running]]) (auto intro: tr_give)
  show ?thesis unfolding dial_outer_def by (rule tr_if [OF windows one])
qed

lemma tr_raise_outer:
  "triple (\<lambda>_. True) (raise_outer w settings mci preferred n l) (\<lambda>r s. r \<noteq> None \<longrightarrow> has_aether s) (\<lambda>_. True)"
proof (induction l arbitrary: n)
  case Nil
  show ?case by (simp add: tr_give)
next
  case (Cons p l)
  let ?Q = "\<lambda>r s. r \<noteq> None \<longrightarrow> has_aether s"
  have none: "triple P (give None) ?Q (\<lambda>_. True)" for P :: "coord \<Rightarrow> bool" by (rule tr_give) simp
  have lost: "triple P (if p = ''masque'' then seq2 (report (Note t True)) (give None)
      else raise_outer w settings mci preferred (n + 1) l) ?Q (\<lambda>_. True)" for P t
    by (rule tr_if [OF tr_seq2 [OF tr_true none] tr_weaken [OF Cons.IH]]) auto
  have won: "triple has_aether (seq2 (change (outer_won w settings mci p)) (give (Some (outer_name preferred p)))) ?Q (\<lambda>_. True)"
    by (rule tr_seq2 [OF tr_change [where Q = "\<lambda>_. has_aether"] tr_give])
      (auto simp: has_aether_def dead_def outer_won_def Let_def)
  have dial: "triple (\<lambda>_. True) (bind (dial_outer w settings mci p) (\<lambda>d.
         if d = DialReady then seq2 (change (outer_won w settings mci p)) (give (Some (outer_name preferred p)))
         else if d = DialNoStart then
           (if p = ''masque'' then seq2 (report (Note ''Scan finished. Staying on this method.'' True)) (give None)
            else raise_outer w settings mci preferred (n + 1) l)
         else if_stopped (give None) (seq2 (change stop_aether)
           (if p = ''masque'' then seq2 (report (Note ''Scan finished. Staying on this method.'' True)) (give None)
            else raise_outer w settings mci preferred (n + 1) l)))) ?Q (\<lambda>_. True)"
  proof (rule tr_bind [OF tr_dial_outer])
    fix d
    have stopped: "triple (\<lambda>_. True) (if_stopped (give None) (seq2 (change stop_aether)
           (if p = ''masque'' then seq2 (report (Note ''Scan finished. Staying on this method.'' True)) (give None)
            else raise_outer w settings mci preferred (n + 1) l))) ?Q (\<lambda>_. True)"
      unfolding if_stopped_def by (rule tr_look_bind, rule tr_if [OF none], rule tr_seq2 [OF tr_true lost])
    show "triple (\<lambda>s. d = DialReady \<longrightarrow> has_aether s) (if d = DialReady
          then seq2 (change (outer_won w settings mci p)) (give (Some (outer_name preferred p)))
         else if d = DialNoStart then
           (if p = ''masque'' then seq2 (report (Note ''Scan finished. Staying on this method.'' True)) (give None)
            else raise_outer w settings mci preferred (n + 1) l)
         else if_stopped (give None) (seq2 (change stop_aether)
           (if p = ''masque'' then seq2 (report (Note ''Scan finished. Staying on this method.'' True)) (give None)
            else raise_outer w settings mci preferred (n + 1) l))) ?Q (\<lambda>_. True)"
      using won lost [of "\<lambda>_. True"] stopped by (cases d) simp_all
  qed
  show ?case unfolding raise_outer.simps
    by (rule tr_seq2 [OF tr_true], rule tr_seq2 [OF tr_true], rule tr_seq2 [OF tr_true], rule tr_bind [OF tr_true],
        rule tr_if [OF none], rule tr_if [OF lost dial])
qed


definition has_psiphon :: "bool \<Rightarrow> coord \<Rightarrow> bool" where
  "has_psiphon d s \<longleftrightarrow> dead s \<or> (\<exists>n. c_psiphon s = Some (n, upstream_of d s))"

lemma calm_has_psiphon [simp]: "calm (has_psiphon d)"
  unfolding has_psiphon_def by (rule calm_unless_dead) (auto simp: upstream_of_def split: if_splits)

lemma has_psiphon_upd [simp]:
  "has_psiphon d (psiphon_won w d' ladder name s) = has_psiphon d s"
  by (simp add: has_psiphon_def psiphon_won_def Let_def dead_def upstream_of_def)

lemma tr_start_psiphon: "triple (\<lambda>_. True) (start_psiphon w name d) (\<lambda>b s. b \<longrightarrow> has_psiphon d s) (\<lambda>_. True)"
  unfolding start_psiphon_def
proof (rule tr_look_bind, rule tr_weaken)
  fix x
  let ?A = "\<lambda>s. dead s \<or> upstream_of d s = x"
  have c: "calm ?A" by (rule calm_unless_dead) (auto simp: upstream_of_def split: if_splits)
  show "triple ?A (bind (ask w) (\<lambda>ok. if ok then seq2 (change (\<lambda>s. s\<lparr>c_psiphon := Some (name, x)\<rparr>)) (give True) else give False))
      (\<lambda>b s. b \<longrightarrow> has_psiphon d s) (\<lambda>_. True)"
  proof (rule tr_ask_bind [OF c])
    fix a
    have "triple ?A (seq2 (change (\<lambda>s. s\<lparr>c_psiphon := Some (name, x)\<rparr>)) (give True)) (\<lambda>b s. b \<longrightarrow> has_psiphon d s) (\<lambda>_. True)"
      by (rule tr_seq2 [OF tr_change [where Q = "\<lambda>_. has_psiphon d"] tr_give])
        (auto simp: has_psiphon_def dead_def upstream_of_def)
    then show "triple ?A (if a then seq2 (change (\<lambda>s. s\<lparr>c_psiphon := Some (name, x)\<rparr>)) (give True) else give False)
      (\<lambda>b s. b \<longrightarrow> has_psiphon d s) (\<lambda>_. True)" by (rule tr_if [OF _ tr_give]) simp
  qed
qed auto

lemma tr_try_psiphon: "triple (\<lambda>_. True) (try_psiphon w d ladder l) (\<lambda>_. has_psiphon d) (\<lambda>_. True)"
proof (induction l)
  case Nil
  show ?case by (simp, rule tr_seq2 [OF tr_true tr_fail]) simp
next
  case (Cons a l)
  obtain strategy region bias where a: "a = (strategy, region, bias)" by (metis prod_cases3)
  have lost: "triple (has_psiphon d) (seq2 (change stop_psiphon) (try_psiphon w d ladder l)) (\<lambda>_. has_psiphon d) (\<lambda>_. True)"
    by (rule tr_seq2 [OF tr_true Cons.IH])
  have won: "triple (has_psiphon d) (change (psiphon_won w d ladder (ps_name strategy))) (\<lambda>_. has_psiphon d) (\<lambda>_. True)"
    by (rule tr_change) simp
  have wait: "triple (has_psiphon d) (bind (ask_running w) (\<lambda>up. if up then change (psiphon_won w d ladder (ps_name strategy))
         else seq2 (change stop_psiphon) (try_psiphon w d ladder l))) (\<lambda>_. has_psiphon d) (\<lambda>_. True)"
    by (rule tr_bind [OF tr_ask_running [OF calm_has_psiphon]]) (rule tr_if [OF won lost])
  have one: "triple (\<lambda>s. b \<longrightarrow> has_psiphon d s) (if \<not> b then try_psiphon w d ladder l
       else bind (ask_running w) (\<lambda>up. if up then change (psiphon_won w d ladder (ps_name strategy))
         else seq2 (change stop_psiphon) (try_psiphon w d ladder l))) (\<lambda>_. has_psiphon d) (\<lambda>_. True)" for b
    using wait Cons.IH by (cases b) simp_all
  show ?case unfolding a try_psiphon.simps
    by (rule tr_seq2 [OF tr_true], rule tr_bind [OF tr_true], rule tr_seq2 [OF tr_true], rule tr_bind [OF tr_start_psiphon one])
qed

definition roots :: "coord \<Rightarrow> string option \<times> bool" where
  "roots s = (c_aether s, c_direct s)"

lemma blind_roots [simp]: "blind roots" by (simp add: blind_def roots_def)

lemma roots_upd [simp]:
  "roots (s\<lparr>c_psiphon := p\<rparr>) = roots s" "roots (s\<lparr>c_status := st\<rparr>) = roots s" "roots (s\<lparr>c_log := l\<rparr>) = roots s"
  "roots (s\<lparr>c_store := x\<rparr>) = roots s" "roots (stop_psiphon s) = roots s" "roots (psiphon_won w d ladder name s) = roots s"
  "roots (s\<lparr>c_outer_label := lab\<rparr>) = roots s" "roots (s\<lparr>c_exit_port := e\<rparr>) = roots s"
  "dead (s\<lparr>c_psiphon := p\<rparr>) = dead s" "dead (s\<lparr>c_status := st\<rparr>) = dead s" "dead (s\<lparr>c_log := l\<rparr>) = dead s"
  "dead (s\<lparr>c_store := x\<rparr>) = dead s" "dead (stop_psiphon s) = dead s" "dead (psiphon_won w d ladder name s) = dead s"
  "dead (s\<lparr>c_outer_label := lab\<rparr>) = dead s" "dead (s\<lparr>c_exit_port := e\<rparr>) = dead s"
  by (simp_all add: roots_def dead_def stop_psiphon_def psiphon_won_def Let_def)

lemma kept_report: "kept_by roots (report op)" "kept_by roots (log_line l)"
  unfolding report_def log_line_def by (rule kept_change; simp)+

lemma kept_start_psiphon: "kept_by roots (start_psiphon w name d)"
  unfolding start_psiphon_def by (auto intro!: kept_rules kept_change)

lemma kept_try_psiphon: "kept_by roots (try_psiphon w d ladder l)"
  by (induction w d ladder l rule: try_psiphon.induct)
    (auto intro!: kept_rules kept_change kept_report kept_start_psiphon)

lemma kept_tunnel: "kept_by roots (start_psiphon_tunnel w settings)"
  unfolding start_psiphon_tunnel_def Let_def
  by (auto intro!: kept_rules kept_change kept_try_psiphon split: prod.splits)

lemma tr_dead: "kept_by f m \<Longrightarrow> triple dead m (\<lambda>_. dead) dead"
  using triple_kept [OF tr_true, of f m "\<lambda>_. True" "\<lambda>_. False"] by (auto elim: tr_weaken)

lemma tr_tunnel:
  "triple (\<lambda>s. dead s \<or> c_direct s = d) (start_psiphon_tunnel w settings) (\<lambda>_. has_psiphon d) (\<lambda>_. True)"
proof -
  let ?m = "\<lambda>x. bind (look c_store) (\<lambda>st. case strategy_order w x st of ((ladder, start), st') \<Rightarrow>
       let ordered = drop (nat start) ladder @ take (nat start) ladder;
           explicit = egress_region (exit_country_code settings) in
       seq2 (change (\<lambda>s. s\<lparr>c_store := st'\<rparr>))
         (try_psiphon w x ladder (psiphon_attempts explicit (bias_region w settings x st') ordered)))"
  have any: "triple (\<lambda>_. True) (?m x) (\<lambda>_. has_psiphon x) (\<lambda>_. True)" for x
    by (rule tr_bind [OF tr_true]) (auto simp: Let_def split: prod.splits intro!: tr_seq2 [OF tr_true tr_try_psiphon])
  have kept: "kept_by roots (?m x)" for x
    unfolding Let_def by (auto intro!: kept_rules kept_change kept_try_psiphon split: prod.splits)
  have "triple (\<lambda>s. (dead s \<or> c_direct s = d) \<and> c_direct s = x) (?m x) (\<lambda>_. has_psiphon d) (\<lambda>_. True)" for x
  proof (cases "x = d")
    case True
    then show ?thesis using tr_weaken [OF any [of d]] by auto
  next
    case False
    show ?thesis by (rule tr_weaken [OF tr_dead [OF kept]]) (use False in \<open>auto simp: has_psiphon_def\<close>)
  qed
  then show ?thesis unfolding start_psiphon_tunnel_def by (rule tr_look_bind)
qed

definition legs_ok :: "bool \<Rightarrow> string option \<times> (string \<times> int) option \<times> bool \<times> bool \<times> int \<times> int \<times> int \<times> bool \<Rightarrow> bool" where
  \<comment> \<open>with the chain: Psiphon runs, on its own or through the running outer leg, and its port is the exit;
     without: the outer leg runs and its port, or the router's, is the exit\<close>
  "legs_ok chain l = (case l of (aether, psiphon, direct, warp_only, chain_port, psiphon_port, exit_port, _) \<Rightarrow>
     if chain then exit_port = psiphon_port \<and> (\<exists>n. psiphon = Some (n, if direct then 0 else chain_port)) \<and> (direct \<or> aether \<noteq> None)
     else warp_only \<and> exit_port = chain_port \<and> aether \<noteq> None)"

lemma tr_bring_inner:
  assumes "chain_psiphon settings \<or> outer \<noteq> None"
  shows "triple (\<lambda>s. (outer \<noteq> None \<longrightarrow> has_aether s) \<and> (fast \<longrightarrow> outer = None \<and> has_psiphon True s))
     (bring_inner w settings fast outer) (\<lambda>_ s. dead s \<or> legs_ok (chain_psiphon settings) (legs s)) (\<lambda>_. True)"
proof (cases "chain_psiphon settings")
  case False
  then show ?thesis using assms unfolding bring_inner_def Let_def
    by (auto intro!: tr_seq2 [OF tr_change [where Q = "\<lambda>_ s. dead s \<or> legs_ok False (legs s)"] tr_give]
      simp: legs_ok_def legs_def has_aether_def dead_def)
next
  case True
  let ?d = "outer = None"
  let ?J = "\<lambda>s. dead s \<or> (c_direct s = ?d \<and> (?d \<or> c_aether s \<noteq> None))"
  let ?G = "\<lambda>x. snd x = ?d \<and> (?d \<or> fst x \<noteq> None)"
  have J: "?J s \<longleftrightarrow> dead s \<or> ?G (roots s)" for s by (simp add: roots_def)
  let ?I = "\<lambda>s. ?J s \<and> (fast \<longrightarrow> has_psiphon ?d s)"
  have up: "?I s \<Longrightarrow> ?I (s\<lparr>c_outer_label := t\<rparr>)" "?I s \<Longrightarrow> ?I (s\<lparr>c_status := st\<rparr>)" for s t st
    by (auto simp: has_psiphon_def dead_def upstream_of_def split: if_splits)
  have tunnel: "triple ?J (start_psiphon_tunnel w settings) (\<lambda>_ s. ?J s \<and> has_psiphon ?d s) (\<lambda>_. True)"
  proof -
    have "triple (\<lambda>s. (dead s \<or> c_direct s = ?d) \<and> (dead s \<or> ?G (roots s))) (start_psiphon_tunnel w settings)
      (\<lambda>_ s. has_psiphon ?d s \<and> (dead s \<or> ?G (roots s))) (\<lambda>s. True \<and> (dead s \<or> ?G (roots s)))"
      by (rule triple_kept [OF tr_tunnel kept_tunnel])
    then show ?thesis by (rule tr_weaken) (auto simp: roots_def)
  qed
  have inner: "triple ?I (if fast then give () else start_psiphon_tunnel w settings) (\<lambda>_ s. ?J s \<and> has_psiphon ?d s) (\<lambda>_. True)"
    by (rule tr_if [OF tr_give tr_weaken [OF tunnel]]) auto
  have last: "triple (\<lambda>s. ?J s \<and> has_psiphon ?d s) (seq2 (change (\<lambda>s. s\<lparr>c_exit_port := c_psiphon_port s\<rparr>)) (give t))
      (\<lambda>_ s. dead s \<or> legs_ok True (legs s)) (\<lambda>_. True)" for t
    by (rule tr_seq2 [OF tr_change [where Q = "\<lambda>_ s. dead s \<or> legs_ok True (legs s)"] tr_give])
      (auto simp: legs_ok_def legs_def has_psiphon_def upstream_of_def dead_def split: if_splits)
  have act: "triple ?I ensure_active (\<lambda>_. ?I) (\<lambda>_. True)"
    by (rule tr_weaken [OF tr_ensure_active [where P = ?I and R = "\<lambda>_. True"]]) auto
  have rep: "triple ?I (report op) (\<lambda>_. ?I) (\<lambda>_. True)" for op
    unfolding report_def by (rule tr_change) (rule up)
  have lab: "triple ?I (change (\<lambda>s. s\<lparr>c_outer_label := t\<rparr>)) (\<lambda>_. ?I) (\<lambda>_. True)" for t
    by (rule tr_change) (rule up)
  have dir: "triple (\<lambda>s. (outer \<noteq> None \<longrightarrow> has_aether s) \<and> (fast \<longrightarrow> outer = None \<and> has_psiphon True s))
      (change (\<lambda>s. s\<lparr>c_direct := outer = None\<rparr>)) (\<lambda>_. ?I) (\<lambda>_. True)"
    by (rule tr_change) (auto simp: has_aether_def has_psiphon_def dead_def upstream_of_def)
  have c: "chain_psiphon settings = True" "(\<not> True) = False" using True by simp_all
  show ?thesis unfolding bring_inner_def Let_def c if_False
    by (intro tr_seq2 [OF dir] tr_seq2 [OF act] tr_seq2 [OF rep] tr_seq2 [OF lab] tr_seq2 [OF inner last])
qed


lemma tr_try_direct: "triple (\<lambda>_. True) (try_direct_psiphon_fast w settings) (\<lambda>b s. b \<longrightarrow> has_psiphon True s) (\<lambda>_. True)"
proof -
  let ?Q = "\<lambda>b s. b \<longrightarrow> has_psiphon True s"
  have won: "triple (has_psiphon True) (seq2 (change (\<lambda>s. s\<lparr>c_direct := True, c_exit_region := w_region w (c_tick s)\<rparr>)) (give True))
      ?Q (\<lambda>_. True)"
    by (rule tr_seq2 [OF tr_change [where Q = "\<lambda>_. has_psiphon True"] tr_give]) (auto simp: has_psiphon_def dead_def upstream_of_def)
  have lost: "triple P (seq2 m (give False)) ?Q (\<lambda>_. True)" for P and m :: "unit act"
    by (rule tr_seq2 [OF tr_true tr_give]) simp
  have no: "triple P (give False) ?Q (\<lambda>_. True)" for P by (rule tr_give) simp
  have wait: "triple (has_psiphon True) (bind (ask_running w) (\<lambda>up.
           if up then seq2 (change (\<lambda>s. s\<lparr>c_direct := True, c_exit_region := w_region w (c_tick s)\<rparr>)) (give True)
           else seq2 (change stop_psiphon) (give False))) ?Q (\<lambda>_. True)"
    by (rule tr_bind [OF tr_ask_running [OF calm_has_psiphon]]) (rule tr_if [OF won lost])
  have one: "triple (\<lambda>s. b \<longrightarrow> has_psiphon True s) (if \<not> b then give False else bind (ask_running w) (\<lambda>up.
           if up then seq2 (change (\<lambda>s. s\<lparr>c_direct := True, c_exit_region := w_region w (c_tick s)\<rparr>)) (give True)
           else seq2 (change stop_psiphon) (give False))) ?Q (\<lambda>_. True)" for b
    using wait no by (cases b) simp_all
  show ?thesis unfolding try_direct_psiphon_fast_def Let_def
    by (rule tr_if [OF no], rule tr_seq2 [OF tr_true], rule tr_bind [OF tr_true])
      (auto split: prod.splits intro!: tr_seq2 [OF tr_true] tr_bind [OF tr_start_psiphon one])
qed

lemma tr_start_parallel: "triple has_aether (start_parallel w settings) (\<lambda>_. has_aether) (\<lambda>_. True)"
proof -
  have "safe has_aether (start_parallel w settings)"
    unfolding start_parallel_def by (auto intro!: safe_rules safe_change safe_ask) (auto simp: has_aether_def dead_def)
  then show ?thesis unfolding safe_def by (rule tr_weaken) auto
qed

definition leg_facts :: "bool \<Rightarrow> string option \<Rightarrow> coord \<Rightarrow> bool" where
  "leg_facts fast outer s \<longleftrightarrow> (outer \<noteq> None \<longrightarrow> has_aether s) \<and> (fast \<longrightarrow> outer = None \<and> has_psiphon True s)"

lemma tr_outer_phase:
  "triple (\<lambda>s. fast \<longrightarrow> has_psiphon True s) (outer_phase w settings mci preferred ordered fast) (leg_facts fast) (\<lambda>_. True)"
proof (cases fast)
  case True
  then show ?thesis by (simp add: outer_phase_def leg_facts_def tr_give)
next
  case False
  have par: "triple (\<lambda>s. outer \<noteq> None \<longrightarrow> has_aether s)
      (seq2 (if outer = None then give () else if_stopped (give ()) (start_parallel w settings)) (give outer)) (leg_facts False) (\<lambda>_. True)" for outer
  proof (cases outer)
    case None
    then show ?thesis by (auto intro!: tr_seq2 [OF tr_true tr_give] simp: leg_facts_def)
  next
    case (Some n)
    have "triple has_aether (if_stopped (give ()) (start_parallel w settings)) (\<lambda>_. has_aether) (\<lambda>_. True)"
      unfolding if_stopped_def by (rule tr_look_bind, rule tr_if [OF tr_give tr_weaken [OF tr_start_parallel]]) auto
    then have "triple has_aether (seq2 (if_stopped (give ()) (start_parallel w settings)) (give outer)) (leg_facts False) (\<lambda>_. True)"
      by (rule tr_seq2 [OF _ tr_give]) (simp add: leg_facts_def)
    then show ?thesis using Some by simp
  qed
  show ?thesis unfolding outer_phase_def using False tr_bind [OF tr_raise_outer par] by simp
qed

definition whole_session :: "bool \<Rightarrow> bool \<Rightarrow> coord \<Rightarrow> bool" where
  "whole_session chain pm s \<longleftrightarrow> exit_inv s \<and> (dead s \<or> exit_ready s) \<and> (dead s \<or> legs_ok chain (legs s) \<and> c_proxy_mode s = pm)"

lemma whole_session_upd [simp]:
  "whole_session c pm (s\<lparr>c_store := x\<rparr>) = whole_session c pm s" "whole_session c pm (s\<lparr>c_status := st\<rparr>) = whole_session c pm s"
  "whole_session c pm (watched w s) = whole_session c pm s" "c_connected (watched w s)" "c_status (watched w s) = c_status s"
  by (simp_all add: whole_session_def exit_inv_def exit_ready_def legs_def dead_def watched_def)

lemma connected_phase: "us_phase (status_step (Update Connected n t l r) st) = Connected"
  by (simp add: update_status_def Let_def note_locked_def finish_locked_def)

lemma tr_bring_exit:
  "triple (\<lambda>s. base pm s \<and> (dead s \<or> legs_ok chain (legs s))) (bring_exit w settings pm t)
     (\<lambda>_ s. whole_session chain pm s \<and> c_connected s \<and> us_phase (c_status s) = Connected) exit_inv"
proof -
  let ?A = "\<lambda>s. base pm s \<and> (dead s \<or> legs_ok chain (legs s))"
  let ?Q = "\<lambda>_ s. whole_session chain pm s \<and> c_connected s \<and> us_phase (c_status s) = Connected"
  have act: "triple ?A ensure_active (\<lambda>_. ?A) exit_inv"
    by (rule tr_weaken [OF tr_ensure_active [where P = ?A and R = exit_inv]]) (auto simp: modes_def)
  have rep: "triple ?A (report op) (\<lambda>_. ?A) exit_inv" for op
    unfolding report_def by (rule tr_change) (auto simp: legs_def)
  have ex: "triple ?A (enable_exit w pm) (\<lambda>_. whole_session chain pm) exit_inv"
  proof -
    let ?G = "\<lambda>l. legs_ok chain l \<and> (case l of (_, _, _, _, _, _, _, m) \<Rightarrow> m = pm)"
    have "triple (\<lambda>s. (exit_inv s \<and> c_proxy_mode s = pm \<and> \<not> c_fell_back s) \<and> (dead s \<or> ?G (legs s))) (enable_exit w pm)
        (\<lambda>_ s. (exit_inv s \<and> (dead s \<or> exit_ready s)) \<and> (dead s \<or> ?G (legs s))) (\<lambda>s. exit_inv s \<and> (dead s \<or> ?G (legs s)))"
      by (rule triple_kept [OF tr_enable_exit kept_enable_exit])
    then show ?thesis by (rule tr_weaken) (auto simp: modes_def whole_session_def legs_def)
  qed
  have last: "triple (whole_session chain pm) (bind (look f) (\<lambda>text.
          seq2 (report (Update Connected 100 text (Some t) None))
          (seq2 (change (watched w)) (look (connect_answer pm text))))) ?Q exit_inv" for f
    by (rule tr_look_bind, unfold report_def,
        rule tr_seq2 [OF tr_change [where Q = "\<lambda>_ s. whole_session chain pm s \<and> us_phase (c_status s) = Connected"]],
        simp add: connected_phase del: status_step.simps,
        rule tr_seq2 [OF tr_change [where Q = "\<lambda>_ s. whole_session chain pm s \<and> c_connected s \<and> us_phase (c_status s) = Connected"] tr_look]) auto
  have store: "triple (whole_session chain pm) (seq2 (change (\<lambda>s. s\<lparr>c_store := x\<rparr>))
       (case r of Inl _ \<Rightarrow> fail OtherError | Inr _ \<Rightarrow>
          bind (look f) (\<lambda>text. seq2 (report (Update Connected 100 text (Some t) None))
          (seq2 (change (watched w)) (look (connect_answer pm text)))))) ?Q exit_inv" for x f and r :: "unit res"
  proof (rule tr_seq2 [OF tr_change [where Q = "\<lambda>_. whole_session chain pm"]])
    show "triple (whole_session chain pm) (case r of Inl _ \<Rightarrow> fail OtherError | Inr _ \<Rightarrow>
          bind (look f) (\<lambda>text. seq2 (report (Update Connected 100 text (Some t) None))
          (seq2 (change (watched w)) (look (connect_answer pm text))))) ?Q exit_inv"
    proof (cases r)
      case (Inl e)
      have "triple (whole_session chain pm) (fail OtherError) ?Q exit_inv" by (rule tr_fail) (simp add: whole_session_def)
      then show ?thesis using Inl by simp
    next
      case (Inr u)
      then show ?thesis using last [of f] by simp
    qed
  qed simp
  show ?thesis unfolding bring_exit_def
    by (rule tr_seq2 [OF act], rule tr_seq2 [OF rep], rule tr_seq2 [OF ex], rule tr_look_bind)
      (auto split: prod.splits intro: tr_weaken [OF store])
qed

lemma tr_connect_session:
  "triple (\<lambda>s. c_proxy s = None \<and> c_tun s = None) (connect_session w settings pm bypass)
     (\<lambda>_ s. whole_session (chain_psiphon settings) pm s \<and> c_connected s \<and> us_phase (c_status s) = Connected) exit_inv"
proof -
  let ?Q = "\<lambda>(_ :: string) s. whole_session (chain_psiphon settings) pm s \<and> c_connected s \<and> us_phase (c_status s) = Connected"
  have base_inv: "base pm s \<Longrightarrow> exit_inv s" for s by (simp add: modes_def)
  have inner: "triple (\<lambda>s. base pm s \<and> leg_facts fast outer s) (bind (bring_inner w settings fast outer) (bring_exit w settings pm)) ?Q exit_inv"
    if "chain_psiphon settings \<or> outer \<noteq> None" for fast outer
  proof (rule tr_bind)
    show "triple (\<lambda>s. base pm s \<and> leg_facts fast outer s) (bring_inner w settings fast outer)
        (\<lambda>_ s. base pm s \<and> (dead s \<or> legs_ok (chain_psiphon settings) (legs s))) exit_inv"
      by (rule tr_weaken [OF tr_conj [OF mode_legs.leg_bring_inner [unfolded safe_def] tr_bring_inner [OF that]]])
        (auto simp: leg_facts_def base_inv)
  qed (rule tr_bring_exit)
  have rest: "triple (\<lambda>s. base pm s \<and> leg_facts fast outer s) (if_stopped (fail (Engine ''stopped''))
         (if \<not> chain_psiphon settings \<and> outer = None then
            seq2 (report (Update PhaseFailed 0 ''WARP did not come up'' None None)) (fail (Engine ''WARP did not come up''))
          else bind (bring_inner w settings fast outer) (bring_exit w settings pm))) ?Q exit_inv" for fast outer
  proof -
    have no: "triple (\<lambda>s. base pm s \<and> leg_facts fast outer s)
        (seq2 (report (Update PhaseFailed 0 ''WARP did not come up'' None None)) (fail (Engine ''WARP did not come up''))) ?Q exit_inv"
      by (rule tr_seq2 [where Q' = exit_inv]) (auto simp: report_def modes_def exit_inv_def intro!: tr_change tr_fail)
    show ?thesis unfolding if_stopped_def
      by (rule tr_look_bind, rule tr_if [OF tr_fail], simp add: base_inv, rule tr_if)
        (auto intro: tr_weaken [OF no] tr_weaken [OF inner])
  qed
  have outer: "triple (\<lambda>s. base pm s \<and> (fast \<longrightarrow> has_psiphon True s)) (outer_phase w settings mci preferred ordered fast)
      (\<lambda>outer s. base pm s \<and> leg_facts fast outer s) exit_inv" for mci preferred ordered fast
    by (rule tr_weaken [OF tr_conj [OF mode_legs.leg_outer_phase [unfolded safe_def] tr_outer_phase]]) (auto simp: base_inv)
  have fast: "triple (base pm) (if direct_psiphon_first settings then try_direct_psiphon_fast w settings else give False)
      (\<lambda>fast s. base pm s \<and> (fast \<longrightarrow> has_psiphon True s)) exit_inv"
  proof (rule tr_if)
    show "triple (base pm) (try_direct_psiphon_fast w settings) (\<lambda>fast s. base pm s \<and> (fast \<longrightarrow> has_psiphon True s)) exit_inv"
      by (rule tr_weaken [OF tr_conj [OF mode_legs.leg_try_direct [unfolded safe_def] tr_try_direct]]) (auto simp: base_inv)
  qed (auto intro: tr_give)
  have start: "triple (base pm) (report op) (\<lambda>_. base pm) exit_inv" for op
    unfolding report_def by (rule tr_change) simp
  show ?thesis unfolding connect_session_def Let_def
  proof (rule tr_seq2 [OF tr_change [where Q = "\<lambda>_. base pm"]])
    show "c_proxy s = None \<and> c_tun s = None \<Longrightarrow> base pm (s\<lparr>c_proxy_mode := pm, c_fell_back := False,
         c_bypass := filter (\<lambda>b. b \<noteq> []) (map strip bypass), c_status := status_step Reset (c_status s),
         c_settings := settings, c_h3_transport := [], c_chain_port := CHAIN_SOCKS_PORT\<rparr>)" for s
      by (simp add: modes_def exit_inv_def)
    have main: "triple (base pm) (bind (if direct_psiphon_first settings then try_direct_psiphon_fast w settings else give False) (\<lambda>fast.
         bind (outer_phase w settings mci preferred ordered fast) (\<lambda>outer.
         if_stopped (fail (Engine ''stopped''))
         (if \<not> chain_psiphon settings \<and> outer = None then
            seq2 (report (Update PhaseFailed 0 ''WARP did not come up'' None None)) (fail (Engine ''WARP did not come up''))
          else bind (bring_inner w settings fast outer) (bring_exit w settings pm))))) ?Q exit_inv" for mci preferred ordered
      by (rule tr_bind [OF fast tr_bind [OF outer rest]])
    have choose: "triple (base pm) (case x of (ordered, preferred) \<Rightarrow>
       if ordered = [] then fail (Engine ''no WARP transport selected'')
       else bind (if direct_psiphon_first settings then try_direct_psiphon_fast w settings else give False) (\<lambda>fast.
         bind (outer_phase w settings mci preferred ordered fast) (\<lambda>outer.
         if_stopped (fail (Engine ''stopped''))
         (if \<not> chain_psiphon settings \<and> outer = None then
            seq2 (report (Update PhaseFailed 0 ''WARP did not come up'' None None)) (fail (Engine ''WARP did not come up''))
          else bind (bring_inner w settings fast outer) (bring_exit w settings pm))))) ?Q exit_inv" for mci x
    proof (cases x)
      case (Pair ordered preferred)
      show ?thesis unfolding Pair prod.case by (rule tr_if [OF tr_fail main]) (rule base_inv)
    qed
    show "triple (base pm) (seq2 (report (Update Starting 5 ''Starting UAC PoW'' None None)) (bind (look c_store) (\<lambda>st.
       case apply_transport_choice settings (order_ladder st (op_protocols (outer_plan_of settings (uses_mci_firewall settings)))) of
       (ordered, preferred) \<Rightarrow> if ordered = [] then fail (Engine ''no WARP transport selected'')
       else bind (if direct_psiphon_first settings then try_direct_psiphon_fast w settings else give False) (\<lambda>fast.
         bind (outer_phase w settings (uses_mci_firewall settings) preferred ordered fast) (\<lambda>outer.
         if_stopped (fail (Engine ''stopped''))
         (if \<not> chain_psiphon settings \<and> outer = None then
            seq2 (report (Update PhaseFailed 0 ''WARP did not come up'' None None)) (fail (Engine ''WARP did not come up''))
          else bind (bring_inner w settings fast outer) (bring_exit w settings pm))))))) ?Q exit_inv"
      by (rule tr_seq2 [OF start], rule tr_look_bind, rule tr_weaken [OF choose]) auto
  qed
qed

lemma tr_connect:
  "triple (\<lambda>_. True) (connect w settings pm bypass)
     (\<lambda>_ s. whole_session (chain_psiphon (validated settings)) pm s \<and> c_connected s \<and> us_phase (c_status s) = Connected) exit_inv"
proof -
  let ?F = "\<lambda>s. c_proxy s = None \<and> c_tun s = None"
  let ?Q = "\<lambda>(_ :: string) s. whole_session (chain_psiphon (validated settings)) pm s \<and> c_connected s \<and> us_phase (c_status s) = Connected"
  have calm: "calm ?F" by (simp add: calm_def)
  have inv: "?F s \<Longrightarrow> exit_inv s" for s by (simp add: exit_inv_def)
  have again: "?F s \<Longrightarrow> ?F (disconnect q e s)" for s q e
    by (simp add: disconnect_def Let_def)
  have begun: "?F (begin_connect s)" for s
    by (simp add: begin_connect_def disconnect_def Let_def)
  have must: "triple ?F (if b then must w e else give ()) (\<lambda>_. ?F) exit_inv" for b e
    by (rule tr_if [OF tr_must tr_give]) (auto intro: calm inv)
  have session: "triple ?F (seq2 (change read_ports)
       (bind (look (\<lambda>s. c_psiphon_port s \<noteq> PSIPHON_SOCKS_PORT \<and> (chain_psiphon (validated settings) \<or> direct_psiphon_first (validated settings)))) (\<lambda>custom.
         seq2 (if custom then must w (Engine ''Psiphon SOCKS port is not free'') else give ())
         (seq2 (if pm then must w (Engine ''Local proxy port is not free'') else give ())
           (connect_session w (validated settings) pm bypass))))) ?Q exit_inv"
    by (rule tr_seq2 [OF tr_change [where Q = "\<lambda>_. ?F"]], simp add: read_ports_def, rule tr_look_bind,
        rule tr_weaken [where P' = ?F], rule tr_seq2 [OF must tr_seq2 [OF must tr_connect_session]]) auto
  show ?thesis unfolding connect_def Let_def
    by (rule tr_seq2 [OF tr_change [where Q = "\<lambda>_. ?F"]], rule begun, rule tr_ask_bind [OF calm],
        rule tr_seq2 [OF tr_change [where Q = "\<lambda>_. ?F"]], simp add: again, rule tr_look_bind,
        rule tr_if [OF tr_fail], simp add: inv, rule tr_weaken [OF session]) auto
qed


section \<open>A recovered session\<close>

definition flags :: "coord \<Rightarrow> bool \<times> bool" where
  "flags s = (c_direct s, c_warp_only s)"

lemma blind_flags [simp]: "blind flags" by (simp add: blind_def flags_def)

lemma flags_upd [simp]:
  "flags (s\<lparr>c_aether := a\<rparr>) = flags s" "flags (s\<lparr>c_psiphon := p\<rparr>) = flags s" "flags (s\<lparr>c_status := st\<rparr>) = flags s"
  "flags (s\<lparr>c_log := l\<rparr>) = flags s" "flags (s\<lparr>c_store := x\<rparr>) = flags s" "flags (s\<lparr>c_h3_transport := t\<rparr>) = flags s"
  "flags (s\<lparr>c_router := r, c_chain_port := c, c_sessions := n\<rparr>) = flags s" "flags (s\<lparr>c_exit_port := e\<rparr>) = flags s"
  "flags (stop_aether s) = flags s" "flags (stop_psiphon s) = flags s" "flags (outer_won w settings mci q s) = flags s"
  "flags (psiphon_won w d ladder name s) = flags s" "flags (stop_parallel s) = flags s"
  "dead (s\<lparr>c_aether := a\<rparr>) = dead s" "dead (s\<lparr>c_h3_transport := t\<rparr>) = dead s"
  "dead (s\<lparr>c_router := r, c_chain_port := c, c_sessions := n\<rparr>) = dead s"
  "dead (stop_aether s) = dead s" "dead (outer_won w settings mci q s) = dead s" "dead (stop_parallel s) = dead s"
  by (simp_all add: flags_def dead_def stop_aether_def stop_psiphon_def outer_won_def psiphon_won_def stop_parallel_def Let_def)

lemma kept_if_stopped: "kept_by f m \<Longrightarrow> kept_by f k \<Longrightarrow> kept_by f (if_stopped m k)"
  unfolding if_stopped_def by (intro kept_bind kept_if kept_look)

lemmas kept_rules2 = kept_rules kept_if_stopped

lemma flags_report: "kept_by flags (report op)" "kept_by flags (log_line l)"
  unfolding report_def log_line_def by (rule kept_change; simp)+

lemma flags_net_key_lane: "kept_by flags (net_key_lane w)"
  unfolding net_key_lane_def by (auto intro!: kept_rules2)

lemma flags_key_attempts: "kept_by flags (key_attempts w protocol tried l)"
proof (induction l)
  case Nil
  show ?case by (simp add: kept_give)
next
  case (Cons a l)
  obtain n camo where a: "a = (n, camo)" by force
  show ?case unfolding a key_attempts.simps by (intro kept_rules2 flags_net_key_lane Cons.IH blind_flags)
qed

lemma flags_start_aether: "kept_by flags (start_aether w p)"
  unfolding start_aether_def by (auto intro!: kept_rules2 kept_change)

lemma flags_dial_windows: "kept_by flags (dial_windows w l)"
  by (induction l) (auto intro!: kept_rules2 kept_change flags_start_aether)

lemma flags_dial_outer: "kept_by flags (dial_outer w settings mci p)"
  unfolding dial_outer_def dial_irancell_h3_def
  by (auto intro!: kept_rules2 kept_change flags_start_aether flags_dial_windows)

lemma flags_prepare_key: "kept_by flags (prepare_key w settings p n)"
  unfolding prepare_key_def fetch_key_def Let_def
  by (auto intro!: kept_rules2 flags_report flags_net_key_lane flags_key_attempts)

lemma flags_raise_outer: "kept_by flags (raise_outer w settings mci preferred n l)"
  by (induction l arbitrary: n)
    (auto intro!: kept_rules2 kept_change flags_report flags_prepare_key flags_dial_outer)

lemma flags_start_parallel: "kept_by flags (start_parallel w settings)"
  unfolding start_parallel_def by (auto intro!: kept_rules2 kept_change)

lemma flags_try_psiphon: "kept_by flags (try_psiphon w d ladder l)"
proof (induction l)
  case Nil
  show ?case by (simp, intro kept_rules2 flags_report)
next
  case (Cons a l)
  obtain s r b where a: "a = (s, r, b)" by (metis prod_cases3)
  show ?case unfolding a try_psiphon.simps start_psiphon_def
    by (intro kept_rules2 kept_change flags_report Cons.IH blind_flags) simp_all
qed

lemma flags_tunnel: "kept_by flags (start_psiphon_tunnel w settings)"
  unfolding start_psiphon_tunnel_def Let_def
  by (auto intro!: kept_rules2 kept_change flags_try_psiphon split: prod.splits)


lemma tr_outer_again:
  "triple (\<lambda>s. dead s \<or> flags s = x)
    (bind (raise_outer w settings mci preferred 0 ordered) (\<lambda>outer. if outer = None then fail (Engine ''WARP did not come up'')
           else if_stopped (give ()) (start_parallel w settings)))
    (\<lambda>_ s. (dead s \<or> flags s = x) \<and> has_aether s) (\<lambda>_. True)"
proof -
  let ?F = "\<lambda>s. dead s \<or> flags s = x"
  have outer: "triple ?F (raise_outer w settings mci preferred 0 ordered)
      (\<lambda>r s. (r \<noteq> None \<longrightarrow> has_aether s) \<and> ?F s) (\<lambda>_. True)"
    by (rule tr_weaken [OF triple_kept [OF tr_raise_outer flags_raise_outer, where G = "\<lambda>f. f = x"]]) auto
  have par: "triple (\<lambda>s. has_aether s \<and> ?F s) (if_stopped (give ()) (start_parallel w settings)) (\<lambda>_ s. ?F s \<and> has_aether s) (\<lambda>_. True)"
    unfolding if_stopped_def
    by (rule tr_look_bind, rule tr_if [OF tr_give], simp,
        rule tr_weaken [OF triple_kept [OF tr_start_parallel flags_start_parallel, where G = "\<lambda>f. f = x"]]) auto
  have one: "triple (\<lambda>s. (r \<noteq> None \<longrightarrow> has_aether s) \<and> ?F s) (if r = None then fail (Engine ''WARP did not come up'')
           else if_stopped (give ()) (start_parallel w settings)) (\<lambda>_ s. ?F s \<and> has_aether s) (\<lambda>_. True)" for r
    using par by (cases r) (simp_all add: tr_fail)
  show ?thesis by (rule tr_bind [OF outer one])
qed

lemma tr_psiphon_again:
  "triple (\<lambda>s. (dead s \<or> flags s = (d, False)) \<and> (d \<or> has_aether s))
    (seq2 (start_psiphon_tunnel w settings) (change (\<lambda>s. s\<lparr>c_exit_port := c_psiphon_port s\<rparr>)))
    (\<lambda>_ s. dead s \<or> legs_ok True (legs s)) (\<lambda>_. True)"
proof (rule tr_seq2)
  let ?G = "\<lambda>x. snd x = d \<and> (d \<or> fst x \<noteq> None)"
  have "triple (\<lambda>s. (dead s \<or> c_direct s = d) \<and> (dead s \<or> ?G (roots s))) (start_psiphon_tunnel w settings)
      (\<lambda>_ s. has_psiphon d s \<and> (dead s \<or> ?G (roots s))) (\<lambda>s. True \<and> (dead s \<or> ?G (roots s)))"
    by (rule triple_kept [OF tr_tunnel kept_tunnel])
  then show "triple (\<lambda>s. (dead s \<or> flags s = (d, False)) \<and> (d \<or> has_aether s)) (start_psiphon_tunnel w settings)
      (\<lambda>_ s. has_psiphon d s \<and> (dead s \<or> ?G (roots s))) (\<lambda>_. True)"
    by (rule tr_weaken) (auto simp: roots_def flags_def has_aether_def)
  show "triple (\<lambda>s. has_psiphon d s \<and> (dead s \<or> ?G (roots s))) (change (\<lambda>s. s\<lparr>c_exit_port := c_psiphon_port s\<rparr>))
      (\<lambda>_ s. dead s \<or> legs_ok True (legs s)) (\<lambda>_. True)"
    by (rule tr_change) (auto simp: legs_ok_def legs_def has_psiphon_def upstream_of_def roots_def dead_def split: if_splits)
qed

lemma tr_legs_again: "triple (\<lambda>s. flags s = (d, wo)) (raise_legs_again w) (\<lambda>_ s. dead s \<or> legs_ok (\<not> wo) (legs s)) (\<lambda>_. True)"
  unfolding raise_legs_again_def Let_def
proof (rule tr_look_bind, rule tr_seq2 [OF tr_change [where Q = "\<lambda>_ s. flags s = (d, wo)"]], simp, rule tr_look_bind)
  fix settings :: pow_settings and x :: "pow_store \<times> bool \<times> bool"
  obtain st :: pow_store and needs warp :: bool where x: "x = (st, needs, warp)" by (metis prod_cases3)
  let ?mci = "uses_mci_firewall settings"
  let ?F = "\<lambda>s. dead s \<or> flags s = (d, wo)"
  have outer: "triple ?F (if \<not> needs then give ()
         else bind (raise_outer w settings ?mci preferred 0 ordered) (\<lambda>outer.
           if outer = None then fail (Engine ''WARP did not come up'')
           else if_stopped (give ()) (start_parallel w settings)))
      (\<lambda>_ s. ?F s \<and> (needs \<longrightarrow> has_aether s)) (\<lambda>_. True)" for preferred ordered
    using tr_outer_again [of "(d, wo)"] by (cases needs) (simp_all add: tr_give)
  let ?I = "\<lambda>s. ?F s \<and> (needs \<longrightarrow> has_aether s)"
  have act: "triple ?I ensure_active (\<lambda>_. ?I) (\<lambda>_. True)"
    by (rule tr_weaken [OF tr_ensure_active [where P = ?I and R = "\<lambda>_. True"]]) auto
  have last: "triple ?I (if wo then change (\<lambda>s. s\<lparr>c_exit_port := c_chain_port s\<rparr>)
          else seq2 (start_psiphon_tunnel w settings) (change (\<lambda>s. s\<lparr>c_exit_port := c_psiphon_port s\<rparr>)))
      (\<lambda>_ s. dead s \<or> legs_ok (\<not> wo) (legs s)) (\<lambda>_. True)" if "needs \<longleftrightarrow> \<not> d \<or> wo"
  proof (cases wo)
    case True
    then show ?thesis using that
      by (auto intro!: tr_change simp: legs_ok_def legs_def flags_def has_aether_def dead_def)
  next
    case False
    have "triple ?I (seq2 (start_psiphon_tunnel w settings) (change (\<lambda>s. s\<lparr>c_exit_port := c_psiphon_port s\<rparr>)))
        (\<lambda>_ s. dead s \<or> legs_ok True (legs s)) (\<lambda>_. True)"
      by (rule tr_weaken [OF tr_psiphon_again [of d]]) (use False that in auto)
    then show ?thesis using False by simp
  qed
  have all: "triple ?F (case y of (ordered, preferred) \<Rightarrow> seq2 (if \<not> needs then give ()
         else bind (raise_outer w settings ?mci preferred 0 ordered) (\<lambda>outer.
           if outer = None then fail (Engine ''WARP did not come up'')
           else if_stopped (give ()) (start_parallel w settings)))
       (seq2 ensure_active
         (if wo then change (\<lambda>s. s\<lparr>c_exit_port := c_chain_port s\<rparr>)
          else seq2 (start_psiphon_tunnel w settings) (change (\<lambda>s. s\<lparr>c_exit_port := c_psiphon_port s\<rparr>)))))
      (\<lambda>_ s. dead s \<or> legs_ok (\<not> wo) (legs s)) (\<lambda>_. True)" if "needs \<longleftrightarrow> \<not> d \<or> wo" for y
    by (cases y) (simp only: prod.case, rule tr_seq2 [OF outer tr_seq2 [OF act last [OF that]]])
  show "triple (\<lambda>s. flags s = (d, wo) \<and> (c_store s, \<not> c_direct s \<or> c_warp_only s, c_warp_only s) = x)
     (case x of (st, needs_outer, warp_only) \<Rightarrow> case apply_transport_choice settings (order_ladder st (op_protocols (outer_plan_of settings ?mci))) of
       (ordered, preferred) \<Rightarrow> seq2 (if \<not> needs_outer then give ()
         else bind (raise_outer w settings ?mci preferred 0 ordered) (\<lambda>outer.
           if outer = None then fail (Engine ''WARP did not come up'')
           else if_stopped (give ()) (start_parallel w settings)))
       (seq2 ensure_active
         (if warp_only then change (\<lambda>s. s\<lparr>c_exit_port := c_chain_port s\<rparr>)
          else seq2 (start_psiphon_tunnel w settings) (change (\<lambda>s. s\<lparr>c_exit_port := c_psiphon_port s\<rparr>)))))
      (\<lambda>_ s. dead s \<or> legs_ok (\<not> wo) (legs s)) (\<lambda>_. True)"
  proof (cases "(needs \<longleftrightarrow> \<not> d \<or> wo) \<and> warp = wo")
    case True
    then have w: "warp = wo" and n: "needs \<longleftrightarrow> \<not> d \<or> wo" by auto
    show ?thesis unfolding x prod.case w by (rule tr_weaken [OF all [OF n]]) auto
  next
    case False
    then show ?thesis unfolding x by (auto simp: triple_def flags_def)
  qed
qed



lemma kept_finer: "kept_by f m \<Longrightarrow> kept_by (\<lambda>s. g (f s)) m"
  unfolding kept_by_def by metis

lemma flags_of_legs: "kept_by legs m \<Longrightarrow> kept_by flags m"
  using kept_finer [of legs m "\<lambda>(_, _, d, wo, _). (d, wo)"]
  by (simp add: kept_by_def legs_def flags_def)

lemma kept_enable_tun: "kept_by legs (enable_tun w)"
  using kept_enable_exit [of w False] by (simp add: enable_exit_def)

lemma kept_reattach: "kept_by legs (reattach_exit w released old)"
  unfolding reattach_exit_def
  by (auto intro!: kept_rules kept_change kept_enable_tun kept_enable_proxy simp: stop_tun_def legs_def dead_def)

lemma flags_legs_again: "kept_by flags (raise_legs_again w)"
  unfolding raise_legs_again_def Let_def
  by (auto intro!: kept_rules2 kept_change flags_raise_outer flags_start_parallel flags_tunnel
    simp: stop_psiphon_def split: prod.splits)

section \<open>The client of a whole session\<close>

locale session_client = exit_client P w + leg_client P w for P :: "coord \<Rightarrow> bool" and w :: world
begin

lemma run_bring_exit: "safe P (bring_exit w settings pm t)"
  unfolding bring_exit_def
  by (auto intro!: leg_rules leg_report exit_enable split: prod.splits sum.splits)

lemma run_connect_session: "safe P (connect_session w settings pm bypass)"
proof -
  have start: "safe P (change (\<lambda>s. s\<lparr>c_proxy_mode := pm, c_fell_back := False, c_bypass := bp, c_status := status_step Reset (c_status s),
         c_settings := settings, c_h3_transport := [], c_chain_port := CHAIN_SOCKS_PORT\<rparr>))" for bp
    by (rule exit_change) (simp add: exit_view_def)
  show ?thesis unfolding connect_session_def Let_def
    by (intro safe_rules start) (auto intro!: leg_rules leg_report leg_try_direct leg_outer_phase leg_bring_inner run_bring_exit split: prod.splits)
qed

lemma run_reattach: "safe P (reattach_exit w released old)"
  unfolding reattach_exit_def by (intro safe_rules exit_tun exit_proxy exit_ask exit_change) simp_all

lemma run_attempt: "safe P (recover_attempt w released)"
  unfolding recover_attempt_def by (intro safe_rules leg_again exit_listen run_reattach leg_report)

lemma run_release: "safe P (change (\<lambda>s. if late then release_exit s else s))"
proof (rule safe_change)
  show "P (if late then release_exit s else s)" if "P s" for s
    using that exit_drop [OF exit_see [OF that, of "stop_tun s"]] by (simp add: release_exit_def)
qed

lemma run_loop: "safe P (recover_loop w n epoch started released delay)"
  by (induction n arbitrary: released delay)
    (simp_all add: safe_basic, intro safe_rules safe_if_stopped run_attempt run_release leg_ask)

lemma run_recover: "safe P (recover w fuel epoch)"
  unfolding recover_def by (intro safe_rules leg_report run_loop)

end

interpretation run_cancel: session_client "cancelled_since w k" w for w k
  by (rule session_client.intro [OF cancel_exit.exit_client_axioms], rule leg_client.intro, erule leg_seen(5) [rotated], assumption)
    (rule cancel_exit.exit_ask)

interpretation run_since: session_client "since k" w for k w
  by (rule session_client.intro [OF since_exit.exit_client_axioms], rule leg_client.intro, erule leg_seen(4) [rotated], assumption)
    (rule since_exit.exit_ask)

interpretation run_follows: session_client "follows clean k" w for clean k w
  by (rule session_client.intro [OF follows_exit.exit_client_axioms], rule leg_client.intro, erule leg_seen(6) [rotated], assumption)
    (rule follows_exit.exit_ask)

lemma tick_disconnect [simp]: "c_tick (disconnect q e s) = c_tick s"
  by (simp add: disconnect_def Let_def teardown_exit_def drop_proxy_def drop_forwarder_def stop_tun_def stop_parallel_def
    split: option.split)

lemma follows_begin: "follows clean k s \<Longrightarrow> follows clean k (begin_connect s)"
  unfolding begin_connect_def Let_def
  by (rule follows_disconnect, erule follows_see) (simp add: windows_view_def)

lemma follows_ports: "follows clean k s \<Longrightarrow> follows clean k (read_ports s)"
  by (erule follows_see) (simp add: windows_view_def read_ports_def)

lemma connect_follows: "safe (follows clean k) (connect w settings pm bypass)"
proof -
  have again: "follows clean k (if waited then disconnect True (Some (c_me s)) s else s)" if "follows clean k s" for waited s
    using that by (simp add: follows_disconnect)
  show ?thesis unfolding connect_def Let_def
    by (intro safe_rules safe_change follows_begin follows_ports again run_follows.leg_ask run_follows.leg_must
      run_follows.run_connect_session)
qed

lemma connect_cancelled:
  "triple (since k) (connect w settings pm bypass) (\<lambda>_. cancelled_since w k) (\<lambda>_. True)"
proof -
  have any: "triple (cancelled_since w k) m (\<lambda>_. cancelled_since w k) (\<lambda>_. True)"
    if "safe (cancelled_since w k) m" for m :: "'b act"
    using that unfolding safe_def by (rule tr_weaken) auto
  have rest: "safe (cancelled_since w k) (bind (look (\<lambda>s. c_psiphon_port s \<noteq> PSIPHON_SOCKS_PORT \<and> (chain_psiphon (validated settings) \<or> direct_psiphon_first (validated settings)))) (\<lambda>custom.
         seq2 (if custom then must w (Engine ''Psiphon SOCKS port is not free'') else give ())
         (seq2 (if pm then must w (Engine ''Local proxy port is not free'') else give ())
           (connect_session w (validated settings) pm bypass))))"
    by (intro safe_rules run_cancel.leg_must run_cancel.run_connect_session)
  have go: "triple (\<lambda>s. since k s \<and> c_epoch s = c_me s) (seq2 (change read_ports) (bind (look (\<lambda>s. c_psiphon_port s \<noteq> PSIPHON_SOCKS_PORT \<and> (chain_psiphon (validated settings) \<or> direct_psiphon_first (validated settings)))) (\<lambda>custom.
         seq2 (if custom then must w (Engine ''Psiphon SOCKS port is not free'') else give ())
         (seq2 (if pm then must w (Engine ''Local proxy port is not free'') else give ())
           (connect_session w (validated settings) pm bypass))))) (\<lambda>_. cancelled_since w k) (\<lambda>_. True)"
    by (rule tr_seq2 [OF tr_change [where Q = "\<lambda>_. cancelled_since w k"] any [OF rest]])
      (simp add: cancelled_since_def since_def read_ports_def dead_def)
  have ask: "triple (since k) (ask w) (\<lambda>_. since k) (\<lambda>_. True)"
    using since_exit.exit_ask [of k w] unfolding safe_def by (rule tr_weaken) auto
  show ?thesis unfolding connect_def Let_def
    by (rule tr_seq2 [OF tr_change [where Q = "\<lambda>_. since k"]], simp add: begin_connect_def Let_def since_def,
        rule tr_bind [OF ask], rule tr_seq2 [OF tr_change [where Q = "\<lambda>_. since k"]], simp add: since_def,
        rule tr_look_bind, rule tr_if [OF tr_fail], simp, rule tr_weaken [OF go]) auto
qed

lemma bring_exit_gone: "triple (\<lambda>_. True) (bring_exit w settings pm t) (\<lambda>_. gone) (\<lambda>_. True)"
proof -
  have any: "triple gone m (\<lambda>_. gone) (\<lambda>_. True)" if "safe gone m" for m :: "'b act"
    using that unfolding safe_def by (rule tr_weaken) auto
  have upd: "gone (s\<lparr>c_status := st\<rparr>) = gone s" "gone (s\<lparr>c_store := d\<rparr>) = gone s" "gone (watched w s) = gone s" for s st d
    by (simp_all add: gone_def dead_def watched_def)
  have active: "triple (\<lambda>_. True) ensure_active (\<lambda>_. gone) (\<lambda>_. True)"
    by (rule tr_weaken [OF tr_ensure_active [where P = "\<lambda>_. True" and R = "\<lambda>_. True"]]) (auto simp: gone_def)
  show ?thesis unfolding bring_exit_def
    by (rule tr_seq2 [OF active any])
      (auto intro!: safe_rules safe_change gone_exit.exit_enable simp: report_def upd split: prod.splits sum.splits)
qed

lemma connect_gone: "triple (\<lambda>_. True) (connect w settings pm bypass) (\<lambda>_. gone) (\<lambda>_. True)"
proof -
  have session: "triple (\<lambda>_. True) (connect_session w settings pm bypass) (\<lambda>_. gone) (\<lambda>_. True)" for settings
    unfolding connect_session_def Let_def if_stopped_def
    by (rule tr_seq2 [OF tr_true], rule tr_seq2 [OF tr_true], rule tr_bind [OF tr_true])
      (auto split: prod.splits intro!: tr_bind [OF tr_true] tr_if tr_fail tr_seq2 [OF tr_true] bring_exit_gone)
  show ?thesis unfolding connect_def Let_def
    by (rule tr_seq2 [OF tr_true], rule tr_bind [OF tr_true], rule tr_seq2 [OF tr_true], rule tr_bind [OF tr_true],
        rule tr_if [OF tr_fail], simp, rule tr_seq2 [OF tr_true], rule tr_bind [OF tr_true], rule tr_seq2 [OF tr_true],
        rule tr_seq2 [OF tr_true session])
qed

section \<open>A recovery under way\<close>

definition carried :: "(int \<times> int) option \<Rightarrow> sing_box option \<Rightarrow> coord \<Rightarrow> bool" where
  \<comment> \<open>the exit of before the recovery goes on\<close>
  "carried p t s \<longleftrightarrow> (if c_proxy_mode s \<or> c_fell_back s then p \<noteq> None \<and> c_proxy s = p else t \<noteq> None \<and> c_tun s = t)"

lemma tr_reattach:
  "triple (\<lambda>s. exit_inv s \<and> carries p t s) (reattach_exit w released old)
     (\<lambda>_ s. exit_inv s \<and> (dead s \<or> exit_ready s \<or> carried p t s)) (\<lambda>s. exit_inv s \<and> carries p t s)"
proof -
  let ?P = "\<lambda>s. exit_inv s \<and> carries p t s"
  let ?Q = "\<lambda>_ s. exit_inv s \<and> (dead s \<or> exit_ready s \<or> carried p t s)"
  have act: "triple ?P ensure_active (\<lambda>_. ?P) ?P"
    by (rule tr_weaken [OF tr_ensure_active [where P = ?P and R = ?P]]) auto
  have tun: "triple (\<lambda>s. by_tun s \<and> carries p t s) (seq2 (change stop_tun) (enable_tun w)) ?Q ?P"
    by (rule tr_seq2 [OF tr_change tr_weaken [OF tr_conj [OF tr_enable_tun raise_tun [of p w t]]]]) (auto simp: carries_def)
  have check: "triple (\<lambda>s. by_tun s \<and> carries p t s \<and> (dead s \<or> c_tun s \<noteq> None))
      (bind (ask w) (\<lambda>ok. if ok then give () else seq2 (change stop_tun) (enable_tun w))) ?Q ?P"
  proof (rule tr_ask_bind)
    have "calm (\<lambda>s. (by_tun s \<and> carries p t s) \<and> (dead s \<or> c_tun s \<noteq> None))"
      by (rule calm_or_dead [OF calm_conj]) auto
    then show "calm (\<lambda>s. by_tun s \<and> carries p t s \<and> (dead s \<or> c_tun s \<noteq> None))" by (simp only: conj_assoc)
    show "triple (\<lambda>s. by_tun s \<and> carries p t s \<and> (dead s \<or> c_tun s \<noteq> None)) (if ok then give () else seq2 (change stop_tun) (enable_tun w)) ?Q ?P" for ok
      by (rule tr_if, rule tr_give, force simp: carried_def carries_def by_tun_def, rule tr_weaken [OF tun]) auto
  qed
  have proxy: "triple (\<lambda>s. by_proxy s \<and> proxy_meant p s) (enable_proxy w) ?Q ?P"
    by (rule tr_weaken [OF tr_conj [OF tr_enable_proxy raise_proxy [of p]]]) (auto simp: by_proxy_inv carries_from)
  have body: "triple (\<lambda>s. ?P s \<and> id s = x) (if \<not> c_proxy_mode x \<and> \<not> c_fell_back x then
       (if released \<or> c_tun x = None \<or> c_exit_port x \<noteq> old then seq2 (change stop_tun) (enable_tun w)
        else bind (ask w) (\<lambda>ok. if ok then give () else seq2 (change stop_tun) (enable_tun w)))
     else if released \<or> c_proxy x = None then enable_proxy w else give ()) ?Q ?P" for x
  proof (rule tr_if; rule tr_if)
    assume "\<not> c_proxy_mode x \<and> \<not> c_fell_back x"
    then show "triple (\<lambda>s. ?P s \<and> id s = x) (seq2 (change stop_tun) (enable_tun w)) ?Q ?P"
      by (intro tr_weaken [OF tun]) (auto simp: by_tun_def)
  next
    assume "\<not> c_proxy_mode x \<and> \<not> c_fell_back x" "\<not> (released \<or> c_tun x = None \<or> c_exit_port x \<noteq> old)"
    then show "triple (\<lambda>s. ?P s \<and> id s = x) (bind (ask w) (\<lambda>ok. if ok then give () else seq2 (change stop_tun) (enable_tun w))) ?Q ?P"
      by (intro tr_weaken [OF check]) (auto simp: by_tun_def)
  next
    assume "\<not> (\<not> c_proxy_mode x \<and> \<not> c_fell_back x)"
    then show "triple (\<lambda>s. ?P s \<and> id s = x) (enable_proxy w) ?Q ?P"
      by (intro tr_weaken [OF proxy]) (auto simp: by_proxy_def proxy_meant_def carries_def)
  next
    assume "\<not> (\<not> c_proxy_mode x \<and> \<not> c_fell_back x)" "\<not> (released \<or> c_proxy x = None)"
    then show "triple (\<lambda>s. ?P s \<and> id s = x) (give ()) ?Q ?P"
      by (intro tr_give) (auto simp: carried_def carries_def proxy_ok_def)
  qed
  show ?thesis unfolding reattach_exit_def
    by (rule tr_seq2 [OF act tr_look_bind]) (rule body)
qed

lemma reattach_live: "triple (since k) (reattach_exit w released old) (\<lambda>_ s. cancelled_since w k s \<and> gone s) (since k)"
proof -
  let ?I = "\<lambda>s. cancelled_since w k s \<and> gone s"
  have act: "triple (since k) ensure_active (\<lambda>_. ?I) (since k)"
    by (rule tr_weaken [OF tr_ensure_active [where P = "since k" and R = "since k"]]) (auto simp: gone_def cancelled_since_def)
  have stop: "?I s \<Longrightarrow> ?I (stop_tun s)" for s
    by (simp add: cancelled_since_def since_def gone_def dead_def stop_tun_def)
  have both: "safe ?I m" if "safe (cancelled_since w k) m" "safe gone m" for m :: "'b act"
    using that unfolding safe_def by (rule tr_conj)
  have "safe ?I (bind (look id) (\<lambda>s.
     if \<not> c_proxy_mode s \<and> \<not> c_fell_back s then
       (if released \<or> c_tun s = None \<or> c_exit_port s \<noteq> old then seq2 (change stop_tun) (enable_tun w)
        else bind (ask w) (\<lambda>ok. if ok then give () else seq2 (change stop_tun) (enable_tun w)))
     else if released \<or> c_proxy s = None then enable_proxy w else give ()))"
    by (intro safe_rules safe_change both cancel_exit.exit_tun gone_exit.exit_tun cancel_exit.exit_proxy gone_exit.exit_proxy
      cancel_exit.exit_ask gone_exit.exit_ask) (rule stop, assumption)+
  then have "triple ?I (bind (look id) (\<lambda>s.
     if \<not> c_proxy_mode s \<and> \<not> c_fell_back s then
       (if released \<or> c_tun s = None \<or> c_exit_port s \<noteq> old then seq2 (change stop_tun) (enable_tun w)
        else bind (ask w) (\<lambda>ok. if ok then give () else seq2 (change stop_tun) (enable_tun w)))
     else if released \<or> c_proxy s = None then enable_proxy w else give ())) (\<lambda>_. ?I) (since k)"
    unfolding safe_def by (rule tr_weaken) (auto simp: cancelled_since_def)
  then show ?thesis unfolding reattach_exit_def by (rule tr_seq2 [OF act])
qed

lemma attempt_live: "triple (since k) (recover_attempt w released) (\<lambda>_ s. cancelled_since w k s \<and> gone s) (since k)"
proof -
  let ?I = "\<lambda>s. cancelled_since w k s \<and> gone s"
  have rep: "triple ?I (bind (look c_outer_label) (\<lambda>lab. report (Update Connected 100 tx (Some lab) None))) (\<lambda>_. ?I) (since k)" for tx
    unfolding report_def by (rule tr_look_bind, rule tr_change) (simp add: cancelled_since_def since_def gone_def dead_def)
  show ?thesis unfolding recover_attempt_def
    by (rule tr_look_bind, rule tr_weaken [where P' = "since k"],
        rule tr_seq2 [OF run_since.leg_again [unfolded safe_def]], rule tr_seq2 [OF since_exit.exit_listen [unfolded safe_def]],
        rule tr_seq2 [OF reattach_live rep]) auto
qed


definition legs_back :: "bool \<times> bool \<Rightarrow> coord \<Rightarrow> bool" where
  "legs_back x s \<longleftrightarrow> flags s = x \<and> legs_ok (\<not> snd x) (legs s)"

definition same_session :: "bool \<times> bool \<Rightarrow> (int \<times> int) option \<Rightarrow> sing_box option \<Rightarrow> coord \<Rightarrow> bool" where
  \<comment> \<open>flags of the session and the exit it had\<close>
  "same_session x p t s \<longleftrightarrow> exit_inv s \<and> carries p t s \<and> (dead s \<or> flags s = x)"

lemma tr_legs_back:
  "triple (same_session x p t) (raise_legs_again w) (\<lambda>_ s. (exit_inv s \<and> carries p t s) \<and> (dead s \<or> legs_back x s)) (same_session x p t)"
proof -
  obtain d wo where x: "x = (d, wo)" by force
  have kept: "triple (\<lambda>s. True \<and> (dead s \<or> flags s = x)) (raise_legs_again w) (\<lambda>_ s. True \<and> (dead s \<or> flags s = x)) (\<lambda>s. True \<and> (dead s \<or> flags s = x))"
    by (rule triple_kept [OF tr_true flags_legs_again, where G = "\<lambda>f. f = x"])
  have alive: "triple (\<lambda>s. flags s = x) (raise_legs_again w) (\<lambda>_ s. dead s \<or> legs_ok (\<not> wo) (legs s)) (\<lambda>_. True)"
    unfolding x by (rule tr_legs_again)
  have lost: "triple dead (raise_legs_again w) (\<lambda>_. dead) dead" by (rule tr_dead [OF flags_legs_again])
  have either: "triple (\<lambda>s. dead s \<or> flags s = x) (raise_legs_again w) (\<lambda>_ s. dead s \<or> legs_ok (\<not> wo) (legs s)) (\<lambda>_. True)"
    using alive lost unfolding triple_def by (fastforce split: prod.splits sum.splits)
  show ?thesis
    by (rule tr_weaken [OF tr_conj [OF tr_conj [OF inv_legs.leg_again [unfolded safe_def] carried_legs.leg_again [unfolded safe_def]]
          tr_conj [OF kept either]]])
      (auto simp: same_session_def legs_back_def x)
qed

definition recovered :: "bool \<times> bool \<Rightarrow> (int \<times> int) option \<Rightarrow> sing_box option \<Rightarrow> coord \<Rightarrow> bool" where
  "recovered x p t s \<longleftrightarrow> exit_inv s \<and> (dead s \<or> (legs_back x s \<and> c_exit_port s > 0) \<and> (exit_ready s \<or> carried p t s))"

lemma recovered_upd: "recovered x p t (s\<lparr>c_status := st\<rparr>) = recovered x p t s"
proof -
  have "exit_inv (s\<lparr>c_status := st\<rparr>) = exit_inv s" "legs_back x (s\<lparr>c_status := st\<rparr>) = legs_back x s"
    "exit_ready (s\<lparr>c_status := st\<rparr>) = exit_ready s" "carried p t (s\<lparr>c_status := st\<rparr>) = carried p t s"
    by (simp_all add: exit_inv_def legs_back_def flags_def legs_def exit_ready_def carried_def)
  then show ?thesis by (simp add: recovered_def)
qed

lemma tr_recover_attempt:
  "triple (same_session x p t) (recover_attempt w released)
     (\<lambda>_ s. recovered x p t s \<and> us_phase (c_status s) = Connected) (same_session x p t)"
proof -
  let ?A = "\<lambda>s. (exit_inv s \<and> carries p t s) \<and> (dead s \<or> legs_back x s)"
  let ?G = "\<lambda>l. (case l of (_, _, d, wo, _) \<Rightarrow> (d, wo) = x) \<and> legs_ok (\<not> snd x) l \<and> (case l of (_, _, _, _, _, _, e, _) \<Rightarrow> e > 0)"
  have G: "?G (legs s) \<longleftrightarrow> legs_back x s \<and> c_exit_port s > 0" for s
    by (auto simp: legs_back_def legs_def flags_def)
  have same: "?A s \<Longrightarrow> same_session x p t s" for s by (auto simp: same_session_def legs_back_def)
  have calm: "calm ?A" by (rule calm_or_dead [OF calm_conj]) (auto simp: legs_back_def legs_def flags_def)
  have listen: "triple ?A (exit_must_listen w) (\<lambda>_ s. ?A s \<and> c_exit_port s > 0) (same_session x p t)"
    by (rule tr_exit_must_listen [OF calm same])
  have reattach: "triple (\<lambda>s. ?A s \<and> c_exit_port s > 0) (reattach_exit w released old) (\<lambda>_. recovered x p t) (same_session x p t)" for old
    by (rule tr_weaken [OF triple_kept [OF tr_reattach kept_reattach, where G = ?G]])
      (auto simp: G recovered_def same_session_def legs_back_def)
  have last: "triple (recovered x p t) (bind (look c_outer_label) (\<lambda>lab. report (Update Connected 100 t' (Some lab) None)))
      (\<lambda>_ s. recovered x p t s \<and> us_phase (c_status s) = Connected) (same_session x p t)" for t'
    unfolding report_def by (rule tr_look_bind, rule tr_change)
      (simp add: connected_phase recovered_upd del: status_step.simps)
  show ?thesis unfolding recover_attempt_def
    by (rule tr_look_bind, rule tr_weaken [where P' = "same_session x p t"],
        rule tr_seq2 [OF tr_legs_back], rule tr_seq2 [OF listen], rule tr_seq2 [OF reattach last]) auto
qed

definition trying :: "nat \<Rightarrow> bool \<times> bool \<Rightarrow> (int \<times> int) option \<Rightarrow> sing_box option \<Rightarrow> coord \<Rightarrow> bool" where
  "trying k x p t s \<longleftrightarrow> same_session x p t s \<and> since k s"

lemma trying_release: "trying k x p t s \<Longrightarrow> trying k x p t (release_exit s)"
  by (auto simp: trying_def since_def same_session_def release_exit_def exit_inv_def stop_tun_def drop_proxy_def flags_def dead_def
    carries_def proxy_ok_def)

definition back_up :: "world \<Rightarrow> nat \<Rightarrow> bool \<times> bool \<Rightarrow> (int \<times> int) option \<Rightarrow> sing_box option \<Rightarrow> coord \<Rightarrow> bool" where
  "back_up w k x p t s \<longleftrightarrow> recovered x p t s \<and> us_phase (c_status s) = Connected \<and> cancelled_since w k s \<and> gone s"

definition recover_done :: "world \<Rightarrow> nat \<Rightarrow> nat \<Rightarrow> bool \<times> bool \<Rightarrow> (int \<times> int) option \<Rightarrow> sing_box option \<Rightarrow> bool option \<Rightarrow> coord \<Rightarrow> bool" where
  "recover_done w k epoch x p t r s \<longleftrightarrow> exit_inv s \<and> (r = Some True \<longrightarrow> back_up w k x p t s)
     \<and> (r = Some False \<longrightarrow> c_stop s \<or> c_epoch s \<noteq> epoch)"

lemma calm_same [simp]: "calm (same_session x p t)"
proof -
  have "calm (\<lambda>s. (exit_inv s \<and> carries p t s) \<and> (dead s \<or> flags s = x))"
    by (rule calm_or_dead [OF calm_conj]) (auto simp: flags_def)
  then show ?thesis by (simp add: same_session_def [abs_def] conj_assoc)
qed

lemma tr_trying_ask: "triple (trying k x p t) (ask w) (\<lambda>_. trying k x p t) R"
proof -
  have "triple (\<lambda>s. same_session x p t s \<and> since k s) (ask w) (\<lambda>_ s. same_session x p t s \<and> since k s) (\<lambda>s. False \<and> since k s)"
    by (rule tr_conj [OF tr_ask [OF calm_same] since_exit.exit_ask [unfolded safe_def]])
  then show ?thesis by (rule tr_weaken) (auto simp: trying_def)
qed

lemma tr_recover_loop:
  "triple (trying k x p t) (recover_loop w n epoch started released delay) (recover_done w k epoch x p t) (\<lambda>_. False)"
proof (induction n arbitrary: released delay)
  case 0
  show ?case by (simp, rule tr_give) (auto simp: recover_done_def trying_def same_session_def)
next
  case (Suc n)
  let ?D = "recover_done w k epoch x p t"
  let ?T = "trying k x p t"
  let ?over = "\<lambda>s. ?T s \<and> (c_stop s \<or> c_epoch s \<noteq> epoch)"
  have stop: "triple ?over (give (Some False)) ?D (\<lambda>_. False)"
    by (rule tr_give) (auto simp: recover_done_def trying_def same_session_def)
  have again: "triple ?T (if_stopped (give (Some False)) (recover_loop w n epoch started r d)) ?D (\<lambda>_. False)" for r d
    unfolding if_stopped_def
    by (rule tr_look_bind, rule tr_if, rule tr_weaken [OF stop], (auto)[3], rule tr_weaken [OF Suc.IH]) auto
  have wait: "triple ?T (seq2 (change (\<lambda>s. if late then release_exit s else s)) (seq2 (ask w)
           (if_stopped (give (Some False)) (recover_loop w n epoch started r d)))) ?D (\<lambda>_. False)" for late r d
    by (rule tr_seq2 [OF tr_change [where Q = "\<lambda>_. ?T"] tr_seq2 [OF tr_trying_ask again]]) (auto intro: trying_release)
  have retry: "triple ?T (bind (look (\<lambda>s. c_stop s \<or> c_epoch s \<noteq> epoch)) (\<lambda>ended. if ended then give (Some False)
       else bind (look (\<lambda>s. \<not> released \<and> w_clock w (c_tick s) - started > HOLD_S)) (\<lambda>late.
         seq2 (change (\<lambda>s. if late then release_exit s else s)) (seq2 (ask w)
           (if_stopped (give (Some False))
             (recover_loop w n epoch started (released \<or> late) (min (delay * 2) 30))))))) ?D (\<lambda>_. False)"
    by (rule tr_look_bind, rule tr_if, rule tr_weaken [OF stop], (auto)[3], rule tr_look_bind, rule tr_weaken [OF wait]) auto
  let ?mid = "\<lambda>up s. if up then back_up w k x p t s else ?T s"
  have one: "triple ?T (recover_attempt w released) (\<lambda>_. back_up w k x p t) ?T"
    by (rule tr_weaken [OF tr_conj [OF tr_recover_attempt [of x p t] attempt_live [of k]]]) (auto simp: trying_def back_up_def)
  have attempt: "triple ?T (catching (seq2 (recover_attempt w released) (give True)) (\<lambda>_. give False)) ?mid (\<lambda>_. False)"
    by (rule tr_catching [where R' = ?T], rule tr_seq2 [OF one tr_give]) (auto intro: tr_give)
  have next_up: "triple (?mid up) (if up then give (Some True) else bind (look (\<lambda>s. c_stop s \<or> c_epoch s \<noteq> epoch)) (\<lambda>ended. if ended then give (Some False)
       else bind (look (\<lambda>s. \<not> released \<and> w_clock w (c_tick s) - started > HOLD_S)) (\<lambda>late.
         seq2 (change (\<lambda>s. if late then release_exit s else s)) (seq2 (ask w)
           (if_stopped (give (Some False))
             (recover_loop w n epoch started (released \<or> late) (min (delay * 2) 30))))))) ?D (\<lambda>_. False)" for up
  proof (cases up)
    case True
    show ?thesis unfolding if_P [OF True] by (rule tr_give) (auto simp: recover_done_def back_up_def recovered_def)
  next
    case False
    show ?thesis unfolding if_not_P [OF False] by (rule retry)
  qed
  show ?case unfolding recover_loop.simps
    by (rule tr_look_bind, rule tr_if, rule tr_weaken [OF stop], (auto)[3],
        rule tr_weaken [where P' = ?T], rule tr_bind [OF attempt next_up]) auto
qed

lemma tr_recover: "triple (trying k x p t) (recover w fuel epoch) (recover_done w k epoch x p t) (\<lambda>_. False)"
proof -
  have rep: "triple (trying k x p t) (report op) (\<lambda>_. trying k x p t) (\<lambda>_. False)" for op
    unfolding report_def
    by (rule tr_change) (simp add: trying_def since_def same_session_def exit_inv_def dead_def flags_def carries_def proxy_ok_def)
  show ?thesis unfolding recover_def
    by (rule tr_look_bind, rule tr_weaken [where P' = "trying k x p t"], rule tr_seq2 [OF rep tr_look_bind],
        rule tr_weaken [OF tr_recover_loop]) auto
qed

section \<open>Properties of the session\<close>

text \<open>
  C1: a connect that returns is connected and says so, with never a TUN and a Windows proxy together. Unless
  another thread disconnected during the call it has built the whole session: the exit the user asked for
  (or the fallback) leads to the exit port, the exit port is that of the innermost leg, and every leg
  under it runs, Psiphon alone or through the outer leg with the chain, the outer leg without. If another
  thread did, both legs are down again. Windows is pointed at the proxy the
  session holds, unless a \<open>suspend\<close> or \<open>resume\<close> failed on the way.
\<close>

theorem connected_session_is_whole:
  assumes "connect w settings pm bypass s = (Inr text, s')"
  shows "c_connected s' \<and> us_phase (c_status s') = Connected
    \<and> \<not> (c_proxy s' \<noteq> None \<and> (\<exists>st mtu e. c_tun s' = Some (Tun st mtu e)))
    \<and> (\<not> dead s' \<longrightarrow> exit_ready s' \<and> legs_ok (chain_psiphon (validated settings)) (legs s') \<and> c_proxy_mode s' = pm)
    \<and> (dead s' \<longrightarrow> (\<exists>n. c_tick s \<le> n \<and> n < c_tick s' \<and> w_cancel w n) \<and> c_aether s' = None \<and> c_psiphon s' = None)
    \<and> (c_windows s = c_proxy s \<longrightarrow> c_windows s' = c_proxy s' \<or> (\<exists>n. c_cleans s \<le> n \<and> n < c_cleans s' \<and> \<not> c_clean s n))"
proof -
  have whole: "whole_session (chain_psiphon (validated settings)) pm s' \<and> c_connected s' \<and> us_phase (c_status s') = Connected"
    by (rule triple_returns [OF tr_connect TrueI assms])
  have ended: "cancelled_since w (c_tick s) s'"
    by (rule triple_returns [OF connect_cancelled _ assms]) (simp add: since_def)
  have legs: "gone s'" by (rule triple_returns [OF connect_gone TrueI assms])
  have windows: "c_windows s = c_proxy s \<Longrightarrow> follows (c_clean s) (c_cleans s) s'"
    by (rule safe_ends [OF connect_follows _ assms]) (simp add: follows_def)
  show ?thesis using whole ended legs windows never_both [of s']
    by (auto simp: whole_session_def cancelled_since_def gone_def follows_def)
qed

definition warp_only_settings :: pow_settings where
  "warp_only_settings = DEFAULT_SETTINGS\<lparr>chain_psiphon := False\<rparr>"

lemma sample_connect:
  "case fst (connect calm_world warp_only_settings False [] idle_coord) of Inr _ \<Rightarrow> True | _ \<Rightarrow> False"
  by code_simp

theorem connected_session_is_whole_witness:
  "\<exists>text s'. connect calm_world warp_only_settings False [] idle_coord = (Inr text, s') \<and> c_connected s'"
proof -
  obtain r s' where c: "connect calm_world warp_only_settings False [] idle_coord = (r, s')" by force
  obtain t where "r = Inr t" using sample_connect unfolding c by (cases r) auto
  then show ?thesis using c connected_session_is_whole [of calm_world warp_only_settings False "[]" idle_coord t s'] by auto
qed

text \<open>
  C39: recovery never ends with an exception and never leaves a TUN and a Windows proxy together. It says
  that the session is back only when the status says connected and, unless another thread disconnected
  during the recovery (then both legs are down), the legs the session had run again and the exit leads
  to the exit port or is the very exit the session had before the recovery, which may still lead to
  the old port; it gives up only when the session was ended.
\<close>

theorem recovery_rebuilds_the_session:
  assumes "exit_inv s" "recover w fuel epoch s = (r, s')"
  shows "\<exists>b. r = Inr b \<and> \<not> (c_proxy s' \<noteq> None \<and> (\<exists>st mtu e. c_tun s' = Some (Tun st mtu e)))
    \<and> (b = Some True \<longrightarrow> us_phase (c_status s') = Connected
         \<and> (dead s' \<longrightarrow> (\<exists>n. c_tick s \<le> n \<and> n < c_tick s' \<and> w_cancel w n) \<and> c_aether s' = None \<and> c_psiphon s' = None)
         \<and> (\<not> dead s' \<longrightarrow> c_direct s' = c_direct s \<and> c_warp_only s' = c_warp_only s
              \<and> legs_ok (\<not> c_warp_only s) (legs s') \<and> c_exit_port s' > 0
              \<and> (exit_ready s' \<or> (if c_proxy_mode s' \<or> c_fell_back s' then c_proxy s \<noteq> None \<and> c_proxy s' = c_proxy s
                                 else c_tun s \<noteq> None \<and> c_tun s' = c_tun s))))
    \<and> (b = Some False \<longrightarrow> c_stop s' \<or> c_epoch s' \<noteq> epoch)"
proof -
  let ?D = "recover_done w (c_tick s) epoch (flags s) (c_proxy s) (c_tun s)"
  have "trying (c_tick s) (flags s) (c_proxy s) (c_tun s) s"
    using assms(1) by (simp add: trying_def same_session_def since_def carries_def proxy_ok_def)
  then have "case (r, s') of (Inr b, s') \<Rightarrow> ?D b s' | (Inl e, s') \<Rightarrow> False"
    using tr_recover [of "c_tick s" "flags s" "c_proxy s" "c_tun s" w fuel epoch] assms(2) unfolding triple_def by (metis (no_types, lifting))
  then obtain b where b: "r = Inr b" and d: "?D b s'"
    by (auto split: sum.splits)
  then show ?thesis using never_both [of s']
    by (auto simp: recover_done_def back_up_def recovered_def legs_back_def flags_def carried_def cancelled_since_def gone_def)
qed

definition direct_coord :: coord where
  \<comment> \<open>a session of Psiphon alone\<close>
  "direct_coord = session_coord\<lparr>c_direct := True, c_aether := None, c_psiphon := Some (''F'', 0)\<rparr>"

lemma sample_recover: "fst (recover calm_world 1 0 direct_coord) = Inr (Some True)"
  by code_simp

theorem recovery_rebuilds_the_session_witness:
  "exit_inv direct_coord \<and> (\<exists>s'. recover calm_world 1 0 direct_coord = (Inr (Some True), s') \<and> us_phase (c_status s') = Connected)"
proof -
  have i: "exit_inv direct_coord" by (simp add: exit_inv_def direct_coord_def session_coord_def idle_coord_def)
  obtain s' where r: "recover calm_world 1 0 direct_coord = (Inr (Some True), s')"
    using sample_recover by (metis prod.collapse)
  show ?thesis using recovery_rebuilds_the_session [OF i r] i r by auto
qed

section \<open>Gaps\<close>

definition legs_coord :: coord where
  \<comment> \<open>the legs are up, the exit is not\<close>
  "legs_coord = session_coord\<lparr>c_connected := False, c_proxy := None, c_forwarder := None, c_listeners := []\<rparr>"

lemma cancel_while_pointing_windows:
  \<comment> \<open>the user disconnects while the Windows proxy is being set: connect still returns, the status says
     connected and Windows keeps a proxy nobody serves\<close>
  "case bring_exit (calm_world\<lparr>w_cancel := \<lambda>n. n = 3\<rparr>) DEFAULT_SETTINGS True [] legs_coord of (r, s) \<Rightarrow>
     (case r of Inr _ \<Rightarrow> True | _ \<Rightarrow> False) \<and> dead s \<and> c_connected s \<and> us_phase (c_status s) = Connected
     \<and> c_proxy s \<noteq> None \<and> c_listeners s = [] \<and> c_psiphon s = None \<and> c_aether s = None"
  by code_simp

lemma released_forwarder_leaks:
  \<comment> \<open>recovery released the exit after the hold time and sets it again: the first forwarder listens on
     after the exit is torn down\<close>
  "case enable_proxy calm_world (release_exit session_coord) of (r, s) \<Rightarrow> r = Inr () \<and> c_listeners (teardown_exit s) \<noteq> []"
  by code_simp

lemma recovered_proxy_keeps_the_old_port:
  \<comment> \<open>whatever the exit port has become, a Windows proxy that was not released is left as it is\<close>
  assumes "\<not> dead s" "c_proxy_mode s \<or> c_fell_back s" "c_proxy s \<noteq> None"
  shows "reattach_exit w False old_exit s = (Inr (), s)"
  using assms by (auto simp: reattach_exit_def act_run dead_def)

lemma switch_ends_without_exit:
  \<comment> \<open>the TUN configuration cannot be written: the switch raises, the session goes on, nothing carries it\<close>
  "case switch_exit_mode (calm_world\<lparr>w_answer := \<lambda>n. n \<noteq> 3\<rparr>) False session_coord of (r, s) \<Rightarrow>
     r = Inl OtherError \<and> \<not> dead s \<and> c_connected s \<and> c_proxy s = None \<and> c_tun s = None"
  by code_simp

lemma failed_suspend_leaves_windows:
  \<comment> \<open>the failure of \<open>suspend\<close> is swallowed and the object forgotten: Windows keeps the proxy\<close>
  "case disconnect False None (session_coord\<lparr>c_clean := \<lambda>_. False\<rparr>) of s \<Rightarrow>
     c_proxy s = None \<and> c_listeners s = [] \<and> c_windows s = Some (1821, 1822)"
  by code_simp

end
