(* ===== verification/Sni_Maker.thy ===== *)
theory Sni_Maker
  imports Profile_Store Ech_Keys Packet_Templates "HOL-Library.Product_Lexorder"
begin

text \<open>
  \<open>sni_maker.py\<close>: importing share links from a text, a file or a repository, one entry per link signature;
  turning a link into one that is dialled through the pattern core on the loopback address (\<open>convert_to_sni\<close>);
  testing many profiles at a time and grouping the healthy ones by country. The probe of a profile, the
  order in which probes finish and the HTTP client are inputs; so are the name-based identifiers (\<open>uuid5\<close>),
  the check of an address in brackets and whether an IPv6 address is a loopback one.
\<close>

section \<open>Constants\<close>

definition SUPPORTED_PROTOCOLS :: "string list" where "SUPPORTED_PROTOCOLS = [''vless'', ''trojan'']"

definition KNOWN_UNSUPPORTED_PROTOCOLS :: "string list" where
  "KNOWN_UNSUPPORTED_PROTOCOLS = [''ss'', ''ssr'', ''hysteria'', ''hysteria2'', ''hy2'', ''tuic'', ''wireguard'']"

definition LOCAL_SNI_HOST :: string where "LOCAL_SNI_HOST = ''127.0.0.1''"
definition LOCAL_SNI_PORT :: int where "LOCAL_SNI_PORT = 40443"
definition MAX_SOURCE_BYTES :: nat where "MAX_SOURCE_BYTES = 10 * 1024 * 1024"

definition DEFAULT_REPOSITORY_URL :: string where
  "DEFAULT_REPOSITORY_URL = ''https://gitverse.ru/api/repos/flaafix/AetrisVPN_Black_list/raw/branch/master/configs.txt''"

record outside =
  out_bracket :: "string \<Rightarrow> bool"
  out_loopback6 :: "string \<Rightarrow> bool"
  out_uuid5 :: "string \<Rightarrow> string"

section \<open>Finding links\<close>

definition supported_link_at :: "string \<Rightarrow> bool" where
  \<comment> \<open>\<open>(?:vless|trojan)://[^\s]+\<close> matches here\<close>
  "supported_link_at s \<longleftrightarrow> list_ex (\<lambda>p. lower (take (length p + 3) s) = p @ ''://''
     \<and> (case drop (length p + 3) s of [] \<Rightarrow> False | c # _ \<Rightarrow> \<not> is_space c)) SUPPORTED_PROTOCOLS"

function count_supported :: "string \<Rightarrow> nat" where
  "count_supported [] = 0"
| "count_supported (c # s) = (if supported_link_at (c # s)
     then Suc (count_supported (dropWhile (\<lambda>x. \<not> is_space x) s)) else count_supported s)"
  by pat_completeness auto
termination
  by (relation "measure length") (auto simp: less_Suc_eq_le length_dropWhile_le)

definition uri_scheme_at :: "string \<Rightarrow> string option" where
  \<comment> \<open>the scheme of a match of \<open>([a-z][a-z0-9+.-]*)://[^\s]+\<close> that starts here\<close>
  "uri_scheme_at s = (let sch = takeWhile scheme_char s; rest = drop (length sch) s in
     if sch = [] \<or> \<not> is_ascii_alpha (hd sch) \<or> \<not> startswith rest ''://'' then None
     else (case drop 3 rest of [] \<Rightarrow> None | c # _ \<Rightarrow> if is_space c then None else Some sch))"

function uri_tokens :: "string \<Rightarrow> (string \<times> string) list" where
  \<comment> \<open>scheme and text of every match\<close>
  "uri_tokens [] = []"
| "uri_tokens (c # s) = (case uri_scheme_at (c # s) of
     Some sch \<Rightarrow> (sch, takeWhile (\<lambda>x. \<not> is_space x) (c # s)) # uri_tokens (dropWhile (\<lambda>x. \<not> is_space x) s)
   | None \<Rightarrow> uri_tokens s)"
  by pat_completeness auto
termination
  by (relation "measure length") (auto simp: less_Suc_eq_le length_dropWhile_le)

section \<open>Decoding a payload\<close>

record config_payload =
  cp_text :: string
  cp_format :: string
  cp_count :: nat

definition plain_payload :: "string \<Rightarrow> config_payload" where
  "plain_payload t = \<lparr>cp_text = t, cp_format = ''none'', cp_count = 0\<rparr>"

definition base64_token :: "string \<Rightarrow> bool" where
  \<comment> \<open>\<open>[A-Za-z0-9+/_-]+={0,2}\<close>\<close>
  "base64_token s = (let data = takeWhile (\<lambda>c. c \<noteq> CHR ''='') s; pad = drop (length data) s in
     data \<noteq> [] \<and> list_all (\<lambda>c. b64_val c \<noteq> None \<or> c \<in> {CHR ''-'', CHR ''_''}) data
     \<and> set pad \<subseteq> {CHR ''=''} \<and> length pad \<le> 2)"

definition url_safe_back :: "char \<Rightarrow> char" where
  \<comment> \<open>\<open>altchars=b"-_"\<close>\<close>
  "url_safe_back c = (if c = CHR ''-'' then CHR ''+'' else if c = CHR ''_'' then CHR ''/'' else c)"

definition utf8_sig_text :: "nat list \<Rightarrow> string option" where
  \<comment> \<open>\<open>decode("utf-8-sig")\<close>, strict; a code point beyond Latin-1 is \<open>SUB\<close>\<close>
  "utf8_sig_text bs = (case utf8_decode (if take 3 bs = [239, 187, 191] then drop 3 bs else bs) of
     Inl _ \<Rightarrow> None | Inr cs \<Rightarrow> Some (map (\<lambda>n. if n < 256 then char_of n else SUB) cs))"

definition decode_config_payload :: "string \<Rightarrow> config_payload" where
  "decode_config_payload raw = (
     let direct = count_supported raw in
     if direct \<noteq> 0 then \<lparr>cp_text = raw, cp_format = ''direct'', cp_count = direct\<rparr>
     else let compact = concat (split_ws raw) in
       if length compact < 8 \<or> length compact mod 4 = 1 \<or> \<not> base64_token compact then plain_payload raw
       else let padded = compact @ replicate ((4 - length compact mod 4) mod 4) CHR ''='' in
         (case b64decode (map url_safe_back padded) of None \<Rightarrow> plain_payload raw
          | Some bytes \<Rightarrow> (case utf8_sig_text bytes of None \<Rightarrow> plain_payload raw
            | Some decoded \<Rightarrow> (let n = count_supported decoded in
                if n = 0 then plain_payload raw
                else \<lparr>cp_text = decoded, cp_format = ''base64'', cp_count = n\<rparr>))))"

section \<open>Countries\<close>

definition normalized_country_code :: "string \<Rightarrow> string" where
  "normalized_country_code v = (let code = upper (strip v) in
     if length code = 2 \<and> list_all (\<lambda>c. is_ascii_alpha c \<or> (let n = of_char c :: nat in n \<in> {170, 181, 186}
         \<or> 192 \<le> n \<and> n \<noteq> 215 \<and> n \<noteq> 247)) code then code else [])"

definition country_name :: "string \<Rightarrow> string \<Rightarrow> string" where
  "country_name code0 supplied = (if strip supplied \<noteq> [] then strip supplied
     else let code = normalized_country_code code0 in if code = [] then [] else dict_get_or COUNTRIES code code)"

section \<open>Signatures\<close>

definition tuple_text :: "string list \<Rightarrow> string" where
  \<comment> \<open>\<open>repr\<close> of a tuple with these parts\<close>
  "tuple_text ts = ''('' @ (case ts of [t] \<Rightarrow> t @ '','' | _ \<Rightarrow> join '', '' ts) @ '')''"

definition signature_of :: "outside \<Rightarrow> string \<Rightarrow> string res" where
  \<comment> \<open>\<open>config_signature\<close> of a link\<close>
  "signature_of out raw = rbind (split_url (out_bracket out) (strip raw)) (\<lambda>u.
     let (identity, sep, _) = str_rpartition ''@'' (url_netloc u);
         p = (case port u of Inl _ \<Rightarrow> 443 | Inr p \<Rightarrow> or_port p);
         pairs = sort (map (\<lambda>(k, v). (lower k, v)) (parse_qsl (url_query u))) in
     Inr (tuple_text [repr_str (lower (url_scheme u)), repr_str (if sep = [] then [] else unquote identity),
       repr_str (lower (hostname u)), int_str p, repr_str (url_path u),
       tuple_text (map (\<lambda>(k, v). tuple_text [repr_str k, repr_str v]) pairs)]))"

definition config_signature :: "outside \<Rightarrow> profile \<Rightarrow> string res" where
  "config_signature out p = rbind (text_of_field p ''source_uri'') (signature_of out)"

fun dedupe_loop :: "outside \<Rightarrow> string list \<Rightarrow> profile list \<Rightarrow> profile list \<times> profile list \<times> string list \<times> py_error option" where
  \<comment> \<open>what is new, what was seen before, the signatures afterwards; it stops at the first error\<close>
  "dedupe_loop out seen [] = ([], [], seen, None)"
| "dedupe_loop out seen (p # ps) = (case config_signature out p of Inl e \<Rightarrow> ([], [], seen, Some e)
   | Inr sig \<Rightarrow> if sig \<in> set seen then (case dedupe_loop out seen ps of (new, old, seen', e) \<Rightarrow> (new, p # old, seen', e))
       else (case dedupe_loop out (seen @ [sig]) ps of (new, old, seen', e) \<Rightarrow> (p # new, old, seen', e)))"

definition dedupe_profiles :: "outside \<Rightarrow> profile list \<Rightarrow> profile list res" where
  "dedupe_profiles out ps = (case dedupe_loop out [] ps of (new, _, _, None) \<Rightarrow> Inr new | (_, _, _, Some e) \<Rightarrow> Inl e)"

section \<open>Which links can be converted\<close>

definition loopback_host :: "outside \<Rightarrow> string \<Rightarrow> bool" where
  "loopback_host out host = (host = ''localhost'' \<or> (case parse_ipv4 host of
     Some os \<Rightarrow> hd os = 127 | None \<Rightarrow> out_loopback6 out host))"

definition link_is_local :: "outside \<Rightarrow> string \<Rightarrow> bool" where
  "link_is_local out raw = (case split_url (out_bracket out) (strip raw) of Inl _ \<Rightarrow> False
   | Inr u \<Rightarrow> (case port u of Inl _ \<Rightarrow> False
     | Inr p \<Rightarrow> lower (url_scheme u) \<in> set SUPPORTED_PROTOCOLS \<and> loopback_host out (lower (strip (hostname u)))
         \<and> or_port p = LOCAL_SNI_PORT))"

definition is_sni_config :: "outside \<Rightarrow> profile \<Rightarrow> bool res" where
  "is_sni_config out p = (if truthy (fld p ''verified_spoof'') \<or> truthy (fld p ''spoof_fake_sni'') then Inr True
     else rbind (text_of_field p ''source_uri'') (\<lambda>uri. Inr (link_is_local out uri)))"

function remove_sub :: "string \<Rightarrow> string \<Rightarrow> string" where
  \<comment> \<open>\<open>s.replace(pat, "")\<close>\<close>
  "remove_sub pat [] = []"
| "remove_sub pat (c # s) = (if pat \<noteq> [] \<and> startswith (c # s) pat then remove_sub pat (drop (length pat) (c # s))
     else c # remove_sub pat s)"
  by pat_completeness auto
termination
  by (relation "measure (\<lambda>(pat, s). length s)") auto

fun hex_digits_ok :: "bool \<Rightarrow> string \<Rightarrow> bool" where
  \<comment> \<open>digits with single underscores between them; whether the previous character was a digit\<close>
  "hex_digits_ok prev [] = prev"
| "hex_digits_ok prev (c # s) = (if hex_value c \<noteq> None then hex_digits_ok True s
     else c = CHR ''_'' \<and> prev \<and> hex_digits_ok False s)"

definition hex_int_ok :: "string \<Rightarrow> bool" where
  \<comment> \<open>\<open>int(text, 16)\<close> succeeds, on a text without a minus sign\<close>
  "hex_int_ok text = (let s = strip text; s = (if startswith s ''+'' then drop 1 s else s) in
     if take 2 s \<in> {''0x'', ''0X''} then hex_digits_ok False (if startswith (drop 2 s) ''_'' then drop 3 s else drop 2 s)
     else hex_digits_ok False s)"

definition uuid_ok :: "string \<Rightarrow> bool" where
  \<comment> \<open>\<open>uuid.UUID(text)\<close> succeeds\<close>
  "uuid_ok text = (let s = remove_sub ''-'' (strip_set ''{}'' (remove_sub ''uuid:'' (remove_sub ''urn:'' text))) in
     length s = 32 \<and> hex_int_ok s)"

definition mlkem_ok :: "string \<Rightarrow> bool" where
  \<comment> \<open>\<open>mlkem\d+x25519plus(?:\.[A-Za-z0-9_-]+)+\<close>, in any case\<close>
  "mlkem_ok s = (let l = lower s; digits = takeWhile is_ascii_digit (drop 5 l); rest = drop (5 + length digits) l;
       parts = split_on CHR ''.'' (drop 10 rest) in
     startswith l ''mlkem'' \<and> digits \<noteq> [] \<and> startswith rest ''x25519plus'' \<and> length parts > 1 \<and> hd parts = []
     \<and> list_all (\<lambda>p. p \<noteq> [] \<and> list_all (\<lambda>c. is_ascii_alnum c \<or> c \<in> {CHR ''_'', CHR ''-''}) p) (tl parts))"

fun first_stripped :: "(string, string) dict \<Rightarrow> string list \<Rightarrow> string \<Rightarrow> string" where
  \<comment> \<open>the first value of the keys that is not blank, stripped, or the default\<close>
  "first_stripped q [] d = d"
| "first_stripped q (k # ks) d = (if strip (query_get q k) \<noteq> [] then strip (query_get q k) else first_stripped q ks d)"

definition TRANSPORTS :: "string list" where
  "TRANSPORTS = [''ws'', ''httpupgrade'', ''grpc'', ''xhttp'', ''tcp'', ''raw'']"

definition compatibility_error :: "outside \<Rightarrow> string \<Rightarrow> string option" where
  \<comment> \<open>\<open>_compatibility_error\<close> of a link; \<open>None\<close> is the empty text\<close>
  "compatibility_error out uri = (case split_url (out_bracket out) uri of Inl _ \<Rightarrow> Some ''Invalid config URI''
   | Inr u \<Rightarrow> (let protocol = lower (url_scheme u); q = query_dict (url_query u);
         credential = strip (unquote (username u)); encryption = strip (dict_get_or q ''encryption'' ''none'');
         security = lower (strip (query_get q ''security''));
         insecure = lower (strip (first_text q [''allowinsecure'', ''insecure''] []));
         network = lower (strip (first_text q [''type'', ''network''] ''ws'')) in
       if protocol \<notin> set SUPPORTED_PROTOCOLS \<or> hostname u = [] then Some ''Unsupported config protocol''
       else if protocol = ''vless'' \<and> credential = [] then Some ''Missing VLESS UUID''
       else if protocol = ''vless'' \<and> \<not> uuid_ok credential then Some ''Invalid VLESS UUID''
       else if protocol = ''trojan'' \<and> credential = [] then Some ''Missing Trojan password''
       else if protocol = ''vless'' \<and> lower encryption \<notin> {[], ''none''} \<and> \<not> mlkem_ok encryption
         then Some ''Unsupported VLESS encryption''
       else if security \<notin> {[], ''tls''} then Some (''Unsupported security: '' @ security)
       else if insecure \<in> {''1'', ''true'', ''yes'', ''on''} then Some ''Unsupported insecure TLS option''
       else if network \<notin> set TRANSPORTS then Some (''Unsupported transport: '' @ network)
       else if first_stripped q SNI_KEYS (strip (hostname u)) = [] then Some ''Missing TLS route name''
       else (case port u of Inl _ \<Rightarrow> Some ''Invalid config URI'' | Inr _ \<Rightarrow> None)))"


section \<open>Conversion\<close>

definition unreserved :: "char \<Rightarrow> bool" where
  "unreserved c \<longleftrightarrow> is_ascii_alnum c \<or> c \<in> {CHR ''_'', CHR ''.'', CHR ''-'', CHR ''~''}"

definition hex_upper :: "nat \<Rightarrow> char" where
  "hex_upper d = (if d < 10 then char_of (48 + d) else char_of (55 + d))"

definition percent_byte :: "nat \<Rightarrow> string" where
  "percent_byte b = [CHR 0x25, hex_upper (b div 16), hex_upper (b mod 16)]"

definition utf8_char :: "char \<Rightarrow> nat list" where
  "utf8_char c = (let n = of_char c :: nat in if n < 128 then [n] else [192 + n div 64, 128 + n mod 64])"

definition quote :: "string \<Rightarrow> string" where
  \<comment> \<open>\<open>urllib.parse.quote(s, safe="")\<close>\<close>
  "quote s = concat (map (\<lambda>c. if unreserved c then [c] else concat (map percent_byte (utf8_char c))) s)"

definition urlunsplit :: "url_parts \<Rightarrow> string" where
  \<comment> \<open>\<open>urllib.parse.urlunsplit\<close> with a network location\<close>
  "urlunsplit u = (let url = (if url_path u \<noteq> [] \<and> hd (url_path u) \<noteq> CHR ''/'' then ''/'' @ url_path u else url_path u);
       url = ''//'' @ url_netloc u @ url;
       url = (if url_scheme u \<noteq> [] then url_scheme u @ '':'' @ url else url);
       url = (if url_query u \<noteq> [] then url @ ''?'' @ url_query u else url) in
     if url_fragment u \<noteq> [] then url @ ''#'' @ url_fragment u else url)"

record conversion =
  cv_source :: profile
  cv_profile :: "profile option"
  cv_status :: string
  cv_error :: string

record maker_settings =
  ms_edge :: string
  ms_fallback_edge :: string
  ms_fake_sni :: string
  ms_local_host :: string
  ms_local_port :: int

definition SPOOF_SUFFIX :: string where
  "SPOOF_SUFFIX = '' '' @ [CHR 0xB7] @ '' ''"

definition suffixed :: "string \<Rightarrow> string \<Rightarrow> string \<Rightarrow> string" where
  \<comment> \<open>the name, marked once\<close>
  "suffixed name ending mark = (if endswith (lower name) ending then name else name @ SPOOF_SUFFIX @ mark)"

definition local_query :: "url_parts \<Rightarrow> string \<Rightarrow> string" where
  \<comment> \<open>the server name is written into the query when no key names it\<close>
  "local_query u server_name = (let q = query_dict (url_query u) in
     if list_ex (\<lambda>k. strip (query_get q k) \<noteq> []) [''sni'', ''servername''] then url_query u
     else if url_query u \<noteq> [] then url_query u @ ''&sni='' @ quote server_name else ''sni='' @ quote server_name)"

definition local_netloc :: "maker_settings \<Rightarrow> string \<Rightarrow> string" where
  "local_netloc ms netloc = (case str_rpartition ''@'' netloc of (user, sep, _) \<Rightarrow>
     (if sep = [] then [] else user @ ''@'') @ ms_local_host ms @ '':'' @ int_str (ms_local_port ms))"

definition local_link :: "maker_settings \<Rightarrow> url_parts \<Rightarrow> string \<Rightarrow> url_parts" where
  "local_link ms u server_name = u\<lparr>url_netloc := local_netloc ms (url_netloc u), url_query := local_query u server_name\<rparr>"

definition route_server_name :: "url_parts \<Rightarrow> string" where
  \<comment> \<open>the name of the TLS connection; a profile with a host name needs no other default\<close>
  "route_server_name u = first_stripped (query_dict (url_query u)) SNI_KEYS (strip (hostname u))"

definition UNTESTED :: "(string \<times> json) list" where
  "UNTESTED = [(''verified_route'', JBool False), (''last_ping_ok'', JBool False), (''last_ping_ms'', JFloat 0 ''0.0''),
     (''country_code'', JStr []), (''verified_spoof'', JBool False)]"

definition ech_fields :: "outside \<Rightarrow> url_parts \<Rightarrow> nat option \<Rightarrow> string \<Rightarrow> string \<Rightarrow> (string \<times> json) list" where
  "ech_fields out u p sig name = [(''id'', JStr (out_uuid5 out sig)), (''name'', JStr (suffixed name '' ech'' ''ECH'')),
     (''protocol'', JStr (lower (url_scheme u))), (''config_host'', JStr (hostname u)), (''config_port'', JInt (or_port p)),
     (''address'', JStr (hostname u)), (''fallback_address'', JStr []), (''port'', JInt (or_port p)),
     (''sni'', JStr (route_server_name u)), (''origin'', JStr ''sni-maker''), (''route_mode'', JStr ''ech-direct''),
     (''method'', JStr ''plain''), (''spoof_fake_sni'', JStr [])] @ UNTESTED"

definition edge_of :: "maker_settings \<Rightarrow> url_parts \<Rightarrow> string" where
  \<comment> \<open>the server itself when it is an IPv4 address, else the edge of the maker\<close>
  "edge_of ms u = (case parse_ipv4 (strip (hostname u)) of
     Some os \<Rightarrow> if hd os \<noteq> 127 then ipv4_text os else if strip (ms_edge ms) \<noteq> [] then strip (ms_edge ms) else VERIFIED_SPOOF_EDGE
   | None \<Rightarrow> if strip (ms_edge ms) \<noteq> [] then strip (ms_edge ms) else VERIFIED_SPOOF_EDGE)"

definition sni_fields :: "outside \<Rightarrow> maker_settings \<Rightarrow> url_parts \<Rightarrow> nat option \<Rightarrow> string \<Rightarrow> string \<Rightarrow> string \<Rightarrow> (string \<times> json) list" where
  "sni_fields out ms u p rewritten sig name = [(''id'', JStr (out_uuid5 out sig)), (''name'', JStr (suffixed name '' sni'' ''SNI'')),
     (''source_uri'', JStr rewritten), (''protocol'', JStr (lower (url_scheme u))), (''config_host'', JStr (ms_local_host ms)),
     (''config_port'', JInt (ms_local_port ms)), (''address'', JStr (edge_of ms u)),
     (''fallback_address'', JStr (strip (ms_fallback_edge ms))), (''port'', JInt (or_port p)),
     (''sni'', JStr (route_server_name u)), (''origin'', JStr ''sni-maker''), (''route_mode'', JStr ''sni''),
     (''method'', JStr ''full5''), (''country_latency_ms'', JInt 0), (''spoof_fake_sni'', JStr (strip (ms_fake_sni ms))),
     (''rotating_exit'', JBool False), (''observed_exit_ip'', JStr []), (''observed_country_code'', JStr []),
     (''observed_country_name'', JStr []), (''country_verified_at'', JFloat 0 ''0.0''), (''country_source'', JStr [])] @ UNTESTED"

definition has_ech :: "url_parts \<Rightarrow> bool" where
  "has_ech u = (query_get (query_dict (url_query u)) ''ech'' \<noteq> [] \<or> query_get (query_dict (url_query u)) ''echcl'' \<noteq> [])"

definition convert_link :: "outside \<Rightarrow> maker_settings \<Rightarrow> profile \<Rightarrow> string \<Rightarrow> url_parts \<Rightarrow> nat option \<Rightarrow> conversion res" where
  \<comment> \<open>the part of \<open>convert_to_sni\<close> behind the checks\<close>
  "convert_link out ms p uri u q = rbind (is_sni_config out p) (\<lambda>already.
     if already then Inr \<lparr>cv_source = p, cv_profile = Some p, cv_status = ''already_sni'', cv_error = []\<rparr>
     else rbind (text_of_field p ''name'') (\<lambda>name.
       if has_ech u then rbind (signature_of out uri) (\<lambda>sig.
         Inr \<lparr>cv_source = p, cv_profile = Some (dict_set_all (ech_fields out u q sig name) p), cv_status = ''converted'', cv_error = []\<rparr>)
       else let rewritten = urlunsplit (local_link ms u (route_server_name u)) in rbind (signature_of out rewritten) (\<lambda>sig.
         Inr \<lparr>cv_source = p, cv_profile = Some (dict_set_all (sni_fields out ms u q rewritten sig name) p),
           cv_status = ''converted'', cv_error = []\<rparr>)))"

definition convert_to_sni :: "outside \<Rightarrow> maker_settings \<Rightarrow> profile \<Rightarrow> conversion res" where
  "convert_to_sni out ms p = rbind (text_of_field p ''source_uri'') (\<lambda>uri. case compatibility_error out uri of
     Some e \<Rightarrow> Inr \<lparr>cv_source = p, cv_profile = None, cv_status = ''incompatible'', cv_error = e\<rparr>
   | None \<Rightarrow> rbind (split_url (out_bracket out) uri) (\<lambda>u. rbind (port u) (\<lambda>q. convert_link out ms p uri u q)))"

definition make_settings :: "string \<Rightarrow> string \<Rightarrow> string \<Rightarrow> string \<Rightarrow> int \<Rightarrow> maker_settings" where
  \<comment> \<open>\<open>SniConfigMaker.__init__\<close>\<close>
  "make_settings edge fallback fake host p = \<lparr>ms_edge = (if strip edge \<noteq> [] then strip edge else VERIFIED_SPOOF_EDGE),
     ms_fallback_edge = strip fallback, ms_fake_sni = (if strip fake \<noteq> [] then strip fake else VERIFIED_SPOOF_FAKE_SNI),
     ms_local_host = (if strip host \<noteq> [] then strip host else LOCAL_SNI_HOST), ms_local_port = p\<rparr>"

record conversion_batch =
  cb_results :: "conversion list"
  cb_total :: nat
  cb_cancelled :: bool

fun convert_loop :: "outside \<Rightarrow> maker_settings \<Rightarrow> (profile \<times> bool) list \<Rightarrow> conversion list \<Rightarrow> (conversion list \<times> bool) res" where
  \<comment> \<open>each profile with what \<open>cancelled\<close> answers before it\<close>
  "convert_loop out ms [] acc = Inr (acc, False)"
| "convert_loop out ms ((p, cancelled) # rest) acc = (if cancelled then Inr (acc, True)
     else rbind (convert_to_sni out ms p) (\<lambda>c. convert_loop out ms rest (acc @ [c])))"

definition convert_many :: "outside \<Rightarrow> maker_settings \<Rightarrow> (profile \<times> bool) list \<Rightarrow> conversion_batch res" where
  "convert_many out ms items = rbind (convert_loop out ms items []) (\<lambda>(results, cancelled).
     Inr \<lparr>cb_results = results, cb_total = length items, cb_cancelled = cancelled\<rparr>)"

section \<open>Importing\<close>

record maker =
  mk_profiles :: "profile list"
  mk_signatures :: "string list"

record sni_import =
  si_profiles :: "profile list"
  si_source :: string
  si_parsed :: nat
  si_duplicates :: nat
  si_invalid :: nat
  si_unsupported :: nat
  si_by_protocol :: "(string, nat) dict"
  si_unsupported_uris :: "string list"
  si_etag :: string
  si_not_modified :: bool
  si_format :: string
  si_detected :: nat

definition empty_import :: "string \<Rightarrow> sni_import" where
  "empty_import source = \<lparr>si_profiles = [], si_source = source, si_parsed = 0, si_duplicates = 0, si_invalid = 0, si_unsupported = 0,
     si_by_protocol = [], si_unsupported_uris = [], si_etag = [], si_not_modified = False, si_format = ''none'', si_detected = 0\<rparr>"

definition add_profiles :: "outside \<Rightarrow> profile list \<Rightarrow> string \<Rightarrow> maker \<Rightarrow> sni_import res \<times> maker" where
  \<comment> \<open>what was added before an error stays\<close>
  "add_profiles out ps source m = (case dedupe_loop out (mk_signatures m) ps of (new, old, seen, err) \<Rightarrow>
     (case err of Some e \<Rightarrow> Inl e
      | None \<Rightarrow> Inr ((empty_import source)\<lparr>si_profiles := new, si_parsed := length ps, si_duplicates := length old\<rparr>),
      \<lparr>mk_profiles = mk_profiles m @ new, mk_signatures = seen\<rparr>))"

definition clear_maker :: "maker \<Rightarrow> maker" where
  "clear_maker m = \<lparr>mk_profiles = [], mk_signatures = []\<rparr>"

definition unsupported_parsed :: "profile \<Rightarrow> bool res" where
  "unsupported_parsed p = rbind (text_of_field p ''protocol'') (\<lambda>t. Inr (lower t \<notin> set SUPPORTED_PROTOCOLS))"

definition count_in :: "string list \<Rightarrow> (string, nat) dict" where
  \<comment> \<open>\<open>dict(sorted(Counter(...).items()))\<close>\<close>
  "count_in ks = map (\<lambda>k. (k, length (filter (\<lambda>x. x = k) ks))) (sort (uniq ks))"

definition TOKEN_TAIL :: string where
  "TOKEN_TAIL = [CHR 0x22, CHR 0x27, CHR ''.'', CHR '','', CHR '';'', CHR '')'', CHR '']'', CHR ''}'']"

definition import_text :: "outside \<Rightarrow> (nat \<Rightarrow> string) \<Rightarrow> string \<Rightarrow> string \<Rightarrow> bool \<Rightarrow> maker \<Rightarrow> sni_import res \<times> maker" where
  "import_text out new_id text source suggested m = (
     let payload = decode_config_payload text; value = cp_text payload;
         all = parse_many (out_bracket out) (out_uuid5 out) new_id value suggested;
         is_other = (\<lambda>p. case unsupported_parsed p of Inr b \<Rightarrow> b | Inl _ \<Rightarrow> True);
         parsed = filter (\<lambda>p. \<not> is_other p) all; rejected = filter is_other all;
         tokens = uri_tokens value; schemes = map (\<lambda>t. lower (fst t)) tokens;
         supported = length (filter (\<lambda>s. s \<in> set SUPPORTED_PROTOCOLS) schemes);
         others = filter (\<lambda>t. lower (fst t) \<in> set KNOWN_UNSUPPORTED_PROTOCOLS) tokens in
     case add_profiles out parsed source m of (r, m') \<Rightarrow>
       (rbind r (\<lambda>imp. Inr (imp\<lparr>si_invalid := supported - length parsed, si_unsupported := length others + length rejected,
         si_by_protocol := count_in (map (\<lambda>t. lower (fst t)) others @ map (\<lambda>p. lower (py_str (fld p ''protocol''))) rejected),
         si_unsupported_uris := map (\<lambda>t. rstrip_set TOKEN_TAIL (snd t)) others @ map (\<lambda>p. py_str (fld p ''source_uri'')) rejected,
         si_format := cp_format payload, si_detected := cp_count payload\<rparr>)), m'))"

definition import_file :: "outside \<Rightarrow> (nat \<Rightarrow> string) \<Rightarrow> string \<Rightarrow> nat \<Rightarrow> string \<Rightarrow> bool \<Rightarrow> nat \<Rightarrow> maker \<Rightarrow> sni_import res \<times> maker" where
  "import_file out new_id path bytes text suggested max_bytes m = (if bytes > max 1 max_bytes then (Inl ValueError, m)
     else import_text out new_id text path suggested m)"

definition normalize_repository_url :: "outside \<Rightarrow> string \<Rightarrow> string res" where
  "normalize_repository_url out url = (let v = strip (if url = [] then DEFAULT_REPOSITORY_URL else url) in
     rbind (split_url (out_bracket out) v) (\<lambda>u. let parts = filter (\<lambda>p. p \<noteq> []) (split_on CHR ''/'' (url_path u)) in
       Inr (if hostname u \<noteq> [] \<and> lower (hostname u) = ''github.com'' \<and> length parts \<ge> 5 \<and> parts ! 2 = ''blob''
         then ''https://raw.githubusercontent.com/'' @ join ''/'' (take 2 parts @ drop 3 parts) else v)))"

datatype source_answer =
    NotModified string
  | HttpFailure py_error
  | Body nat string string  \<comment> \<open>bytes, text, ETag\<close>

definition import_url :: "outside \<Rightarrow> (nat \<Rightarrow> string) \<Rightarrow> (string \<Rightarrow> string option \<Rightarrow> source_answer) \<Rightarrow> string \<Rightarrow> bool \<Rightarrow> nat \<Rightarrow> string
    \<Rightarrow> maker \<Rightarrow> sni_import res \<times> maker" where
  \<comment> \<open>the client is asked for a URL, with the stripped ETag when there is one\<close>
  "import_url out new_id client url suggested max_bytes etag m = (case normalize_repository_url out url of Inl e \<Rightarrow> (Inl e, m)
   | Inr source \<Rightarrow> (case client source (if strip etag \<noteq> [] then Some (strip etag) else None) of
       NotModified tag \<Rightarrow> (Inr ((empty_import source)\<lparr>si_etag := tag, si_not_modified := True\<rparr>), m)
     | HttpFailure e \<Rightarrow> (Inl e, m)
     | Body n text tag \<Rightarrow> if n > max 1 max_bytes then (Inl ValueError, m)
         else (case import_text out new_id text source suggested m of (r, m') \<Rightarrow>
           (rbind r (\<lambda>imp. Inr (imp\<lparr>si_etag := tag\<rparr>)), m'))))"

section \<open>Testing\<close>

record geo_location =
  gl_ip :: string
  gl_code :: string
  gl_country :: string
  gl_city :: string
  gl_source :: string

record sni_probe =
  pr_success :: bool
  pr_ping :: rat
  pr_location :: "geo_location option"
  pr_stage :: string
  pr_verified :: bool
  pr_error :: string

record sni_test =
  ts_profile :: profile
  ts_success :: bool
  ts_ping :: rat
  ts_status :: string
  ts_stage :: string
  ts_verified :: bool
  ts_code :: string
  ts_country :: string
  ts_city :: string
  ts_exit_ip :: string
  ts_geo_source :: string
  ts_verified_at :: rat
  ts_confidence :: string
  ts_hint :: string
  ts_error :: string

definition failed_probe :: "string \<Rightarrow> string \<Rightarrow> sni_probe" where
  "failed_probe stage e = \<lparr>pr_success = False, pr_ping = 0, pr_location = None, pr_stage = stage, pr_verified = False, pr_error = e\<rparr>"

definition preflight_probe :: "bool \<Rightarrow> bool \<times> rat \<Rightarrow> bool \<Rightarrow> sni_probe" where
  \<comment> \<open>cancelled before, what \<open>profile_ping\<close> answers, cancelled after\<close>
  "preflight_probe before ping after = (if before \<or> after then failed_probe ''preflight'' ''Cancelled''
     else \<lparr>pr_success = fst ping, pr_ping = snd ping, pr_location = None, pr_stage = ''preflight'', pr_verified = False,
       pr_error = (if fst ping then [] else ''TLS preflight failed'')\<rparr>)"

definition live_country :: "sni_probe \<Rightarrow> (string \<times> geo_location) option" where
  \<comment> \<open>the country is believed only when the tunnel itself was tested\<close>
  "live_country r = (case pr_location r of Some l \<Rightarrow>
       if pr_success r \<and> pr_verified r \<and> normalized_country_code (gl_code l) \<noteq> []
       then Some (normalized_country_code (gl_code l), l) else None
     | None \<Rightarrow> None)"

definition geo_fields :: "rat \<Rightarrow> sni_probe \<Rightarrow> (string \<times> json) list" where
  "geo_fields now r = (case live_country r of
     Some (code, l) \<Rightarrow> [(''country_code'', JStr code), (''observed_country_code'', JStr code),
       (''observed_country_name'', JStr (country_name code (gl_country l))), (''observed_exit_ip'', JStr (strip (gl_ip l))),
       (''country_verified_at'', JNum now), (''country_source'', JStr (strip (gl_source l)))]
   | None \<Rightarrow> [(''country_code'', JStr []), (''observed_country_code'', JStr []), (''observed_country_name'', JStr []),
       (''observed_exit_ip'', JStr []), (''country_verified_at'', JFloat 0 ''0.0''), (''country_source'', JStr [])])"

definition verified_fields :: "profile \<Rightarrow> sni_probe \<Rightarrow> (string \<times> json) list" where
  "verified_fields p r = (if \<not> (pr_success r \<and> pr_verified r) then []
     else if fld p ''route_mode'' \<in> {JStr ''reality-direct'', JStr ''ech-direct''}
       then [(''verified_route'', JBool True), (''verified_spoof'', JBool False)] else [(''verified_spoof'', JBool True)])"

definition tested_profile :: "rat \<Rightarrow> profile \<Rightarrow> sni_probe \<Rightarrow> profile" where
  "tested_profile now p r = dict_set_all
     ([(''last_ping_ok'', JBool (pr_success r)), (''last_ping_ms'', if pr_success r then JNum (max 0 (pr_ping r)) else JFloat 0 ''0.0'')]
        @ geo_fields now r @ verified_fields p r) p"

definition test_status :: "sni_probe \<Rightarrow> string" where
  "test_status r = (if pr_success r then (if pr_verified r then ''healthy'' else ''preflight_ok'')
     else if lower (pr_error r) = ''cancelled'' then ''cancelled'' else ''failed'')"

definition test_result :: "rat \<Rightarrow> profile \<Rightarrow> sni_probe \<Rightarrow> sni_test" where
  \<comment> \<open>\<open>_test_result\<close>\<close>
  "test_result now p r = (let live = live_country r in
     \<lparr>ts_profile = tested_profile now p r, ts_success = pr_success r, ts_ping = max 0 (pr_ping r), ts_status = test_status r,
       ts_stage = (if pr_stage r = [] then ''preflight'' else pr_stage r), ts_verified = pr_verified r,
       ts_code = (case live of None \<Rightarrow> [] | Some (code, _) \<Rightarrow> code),
       ts_country = (case live of None \<Rightarrow> [] | Some (code, l) \<Rightarrow> country_name code (gl_country l)),
       ts_city = (case live of None \<Rightarrow> [] | Some (_, l) \<Rightarrow> strip (gl_city l)),
       ts_exit_ip = (case live of None \<Rightarrow> [] | Some (_, l) \<Rightarrow> strip (gl_ip l)),
       ts_geo_source = (case live of None \<Rightarrow> [] | Some (_, l) \<Rightarrow> strip (gl_source l)),
       ts_verified_at = (if live = None then 0 else now), ts_confidence = (if live = None then [] else ''live''),
       ts_hint = normalized_country_code (py_str (or_else (fld p ''country_code'') (JStr []))), ts_error = pr_error r\<rparr>)"

definition healthy :: "sni_test \<Rightarrow> bool" where
  "healthy r = (ts_success r \<and> ts_verified r)"

definition row_key :: "sni_test \<Rightarrow> rat \<times> string" where
  "row_key r = (ts_ping r, lower (py_str (fld (ts_profile r) ''name'')))"

definition group_healthy :: "sni_test list \<Rightarrow> (string \<times> sni_test list) list" where
  \<comment> \<open>\<open>group_healthy_by_country\<close>\<close>
  "group_healthy rs = (let rows = filter (\<lambda>r. healthy r \<and> normalized_country_code (ts_code r) \<noteq> []) rs in
     map (\<lambda>code. (code, sort_key row_key (filter (\<lambda>r. normalized_country_code (ts_code r) = code) rows)))
       (sort (uniq (map (\<lambda>r. normalized_country_code (ts_code r)) rows))))"

datatype probe_run = Probed sni_probe | ProbeRaised string | NotStarted
  \<comment> \<open>what the worker of a profile does: the probe answers, raises, or was cancelled before\<close>

definition run_probe :: "rat \<Rightarrow> profile \<Rightarrow> probe_run \<Rightarrow> sni_test" where
  "run_probe now p r = test_result now p (case r of Probed out \<Rightarrow> out | ProbeRaised e \<Rightarrow> failed_probe ''live'' e
     | NotStarted \<Rightarrow> failed_probe ''preflight'' ''Cancelled'')"

record wait_round =
  wr_cancel :: bool                          \<comment> \<open>\<open>cancelled\<close> at the start of the round\<close>
  wr_done :: "(nat \<times> probe_run \<times> bool) list" \<comment> \<open>finished probes, and \<open>cancelled\<close> asked for each\<close>
  wr_now :: rat

record test_batch =
  tb_results :: "sni_test list"
  tb_total :: nat
  tb_cancelled :: bool

definition take_done :: "profile list \<Rightarrow> wait_round \<Rightarrow> (nat \<times> sni_test) list \<times> bool" where
  \<comment> \<open>the results of a round that count, and whether one of them was cancelled\<close>
  "take_done items w = (let rows = map (\<lambda>(i, r, c). (i, run_probe (wr_now w) (items ! i) r, c)) (wr_done w);
       gone = (\<lambda>(i, r, c). ts_status r = ''cancelled'' \<and> c) in
     (map (\<lambda>(i, r, c). (i, r)) (filter (\<lambda>x. \<not> gone x) rows), list_ex gone rows))"

fun wait_loop :: "profile list \<Rightarrow> wait_round list \<Rightarrow> (nat \<times> sni_test) list \<Rightarrow> (nat \<times> sni_test) list \<times> bool" where
  \<comment> \<open>ends when every probe has finished or on a cancel\<close>
  "wait_loop items [] acc = (acc, False)"
| "wait_loop items (w # ws) acc = (if wr_cancel w then (acc, True)
     else case take_done items w of (rows, gone) \<Rightarrow> if gone then (acc @ rows, True) else wait_loop items ws (acc @ rows))"

definition test_many :: "outside \<Rightarrow> profile list \<Rightarrow> bool \<Rightarrow> wait_round list \<Rightarrow> bool \<Rightarrow> test_batch res" where
  \<comment> \<open>cancelled before, the rounds of the wait, cancelled after\<close>
  "test_many out ps before rounds after = rbind (dedupe_profiles out ps) (\<lambda>items.
     if items = [] then Inr \<lparr>tb_results = [], tb_total = 0, tb_cancelled = False\<rparr>
     else if before then Inr \<lparr>tb_results = [], tb_total = length items, tb_cancelled = True\<rparr>
     else case wait_loop items rounds [] of (rows, cancelled) \<Rightarrow>
       Inr \<lparr>tb_results = map snd (sort_key fst rows), tb_total = length items, tb_cancelled = cancelled \<or> after\<rparr>)"



section \<open>Quoting\<close>

lemma hex_value_upper: "d < 16 \<Longrightarrow> hex_value (hex_upper d) = Some d"
  by (auto simp: hex_value_def hex_upper_def Let_def)

lemma percent_bytes_plain: "c \<noteq> CHR 0x25 \<Longrightarrow> percent_bytes (c # s) = of_char c # percent_bytes s"
  by (cases s rule: percent_bytes.cases) auto

lemma percent_bytes_byte: "b < 256 \<Longrightarrow> percent_bytes (percent_byte b @ s) = b # percent_bytes s"
proof -
  assume "b < 256"
  then have "b div 16 < 16" "b mod 16 < 16" by auto
  then show ?thesis by (simp add: percent_byte_def hex_value_upper)
qed

lemma utf8_char_bytes: "b \<in> set (utf8_char c) \<Longrightarrow> b < 256"
proof -
  have "of_char c < (256 :: nat)" by simp
  then have "of_char c div 64 < (64 :: nat)" by linarith
  then show "b \<in> set (utf8_char c) \<Longrightarrow> b < 256" by (auto simp: utf8_char_def Let_def split: if_splits)
qed

lemma percent_bytes_bytes: "(\<And>b. b \<in> set bs \<Longrightarrow> b < 256) \<Longrightarrow> percent_bytes (concat (map percent_byte bs) @ s) = bs @ percent_bytes s"
  by (induction bs) (auto simp: percent_bytes_byte)

lemma unreserved_low: "unreserved c \<Longrightarrow> of_char c < (128 :: nat) \<and> c \<noteq> CHR 0x25"
  by (auto simp: unreserved_def is_ascii_alnum_def is_ascii_alpha_def is_ascii_digit_def Let_def)

lemma percent_bytes_quote: "percent_bytes (quote s) = concat (map utf8_char s)"
proof (induction s)
  case (Cons c s)
  have cons: "quote (c # s) = (if unreserved c then [c] else concat (map percent_byte (utf8_char c))) @ quote s"
    by (simp add: quote_def)
  show ?case
  proof (cases "unreserved c")
    case True
    then show ?thesis using Cons unreserved_low [of c] by (simp add: cons percent_bytes_plain utf8_char_def)
  next
    case False
    then show ?thesis using Cons utf8_char_bytes [of _ c] by (simp add: cons percent_bytes_bytes)
  qed
qed (simp add: quote_def)

lemma utf8_text_char: "utf8_text (utf8_char c @ bs) = c # utf8_text bs"
proof (cases "of_char c < (128 :: nat)")
  case True
  then show ?thesis by (simp add: utf8_char_def)
next
  case False
  let ?n = "of_char c :: nat"
  have n: "?n < 256" by simp
  have d: "?n div 64 = 2 \<or> ?n div 64 = 3" using n False by linarith
  then have l: "lead (192 + ?n div 64) = Some (1, 128, 191)" by (auto simp: lead_def)
  have k: "conts 1 128 191 ((128 + ?n mod 64) # bs) = 1" by (simp add: conts_def)
  have "(192 + ?n div 64 - 192) * 64 + (128 + ?n mod 64 - 128) = ?n" by simp
  moreover have "?n \<le> 255" using n by linarith
  moreover have "?n mod 256 = ?n" by simp
  ultimately show ?thesis using False l k by (simp add: utf8_char_def Let_def del: of_char_mod_256)
qed

lemma utf8_text_chars: "utf8_text (concat (map utf8_char s)) = s"
  by (induction s) (simp_all add: utf8_text_char)

lemma quote_chars: "c \<in> set (quote s) \<Longrightarrow> unreserved c \<or> c = CHR 0x25"
proof -
  have "c \<in> set (percent_byte b) \<Longrightarrow> b < 256 \<Longrightarrow> unreserved c \<or> c = CHR 0x25" for b
  proof -
    assume "c \<in> set (percent_byte b)" "b < 256"
    moreover have h: "d < 16 \<Longrightarrow> unreserved (hex_upper d)" for d
      by (auto simp: hex_upper_def unreserved_def is_ascii_alnum_def is_ascii_alpha_def is_ascii_digit_def Let_def)
    ultimately show ?thesis using h [of "b div 16"] h [of "b mod 16"] by (auto simp: percent_byte_def)
  qed
  then show "c \<in> set (quote s) \<Longrightarrow> unreserved c \<or> c = CHR 0x25"
    using utf8_char_bytes by (fastforce simp: quote_def split: if_splits)
qed

lemma quote_ascii: "c \<in> set (quote s) \<Longrightarrow> is_ascii c"
  using quote_chars [of c s] unreserved_low [of c] by (auto simp: is_ascii_def)

lemma quote_plain: "CHR 0x25 \<notin> set (quote s) \<Longrightarrow> quote s = s"
proof (induction s)
  case (Cons c s)
  have cons: "quote (c # s) = (if unreserved c then [c] else concat (map percent_byte (utf8_char c))) @ quote s"
    by (simp add: quote_def)
  show ?case
  proof (cases "unreserved c")
    case True
    then show ?thesis using Cons by (simp add: cons)
  next
    case False
    have "utf8_char c \<noteq> []" by (simp add: utf8_char_def Let_def)
    then obtain b bs where "utf8_char c = b # bs" by (cases "utf8_char c") auto
    then have "CHR 0x25 \<in> set (quote (c # s))" using False by (simp add: cons percent_byte_def)
    then show ?thesis using Cons.prems by simp
  qed
qed (simp add: quote_def)

lemma unquote_quote: "unquote (quote s) = s"
proof (cases "CHR 0x25 \<in> set (quote s)")
  case True
  have all: "takeWhile is_ascii (quote s) = quote s" "dropWhile is_ascii (quote s) = []"
    using quote_ascii [of _ s] by (auto simp: takeWhile_eq_all_conv dropWhile_eq_Nil_conv)
  obtain c t where q: "quote s = c # t" using True by (cases "quote s") auto
  have "is_ascii c" using quote_ascii [of c s] by (simp add: q)
  then have "ascii_runs (quote s) = utf8_text (percent_bytes (quote s))"
    using all unfolding q by (metis append.right_neutral ascii_runs.simps)
  then show ?thesis using True by (simp add: unquote_def percent_bytes_quote utf8_text_chars)
next
  case False
  then show ?thesis using quote_plain [of s] by (simp add: unquote_def)
qed

section \<open>A link is put together and taken apart again\<close>

definition wf_url :: "url_parts \<Rightarrow> bool" where
  \<comment> \<open>the parts of a link with a network location\<close>
  "wf_url u \<longleftrightarrow> url_scheme u \<noteq> [] \<and> is_ascii_alpha (hd (url_scheme u)) \<and> list_all scheme_char (url_scheme u)
     \<and> lower (url_scheme u) = url_scheme u
     \<and> list_all (\<lambda>c. c \<notin> {CHR ''/'', CHR ''?'', CHR ''#''}) (url_netloc u)
     \<and> (url_path u = [] \<or> hd (url_path u) = CHR ''/'') \<and> list_all (\<lambda>c. c \<notin> {CHR ''?'', CHR ''#''}) (url_path u)
     \<and> CHR ''#'' \<notin> set (url_query u)
     \<and> list_all (\<lambda>c. of_char c \<notin> {9 :: nat, 10, 13}) (url_netloc u @ url_path u @ url_query u @ url_fragment u)"

lemma scheme_char_plain: "scheme_char c \<Longrightarrow> c \<noteq> CHR '':'' \<and> of_char c \<notin> {9 :: nat, 10, 13} \<and> (of_char c :: nat) > 32"
  by (auto simp: scheme_char_def is_ascii_alnum_def is_ascii_alpha_def is_ascii_digit_def Let_def)

definition url_tail :: "url_parts \<Rightarrow> string" where
  "url_tail u = url_path u @ (if url_query u \<noteq> [] then ''?'' @ url_query u else [])
     @ (if url_fragment u \<noteq> [] then ''#'' @ url_fragment u else [])"

lemma urlunsplit_wf: "wf_url u \<Longrightarrow> urlunsplit u = url_scheme u @ ''://'' @ url_netloc u @ url_tail u"
  by (auto simp: urlunsplit_def url_tail_def wf_url_def Let_def)

lemma urlsplit_link:
  assumes "sch \<noteq> []" "is_ascii_alpha (hd sch)" "list_all scheme_char sch"
  shows "urlsplit (sch @ ''://'' @ rest) = (let r = filter (\<lambda>c. of_char c \<notin> {9 :: nat, 10, 13}) rest;
      netloc = takeWhile (\<lambda>c. c \<notin> {CHR ''/'', CHR ''?'', CHR ''#''}) r; frag = str_partition ''#'' (drop (length netloc) r);
      qu = str_partition ''?'' (fst frag) in
    \<lparr>url_scheme = lower sch, url_netloc = netloc, url_path = fst qu, url_query = snd (snd qu), url_fragment = snd (snd frag)\<rparr>)"
proof -
  let ?F = "filter (\<lambda>c. of_char c \<notin> {9 :: nat, 10, 13})"
  have sch: "c \<noteq> CHR '':'' \<and> of_char c \<notin> {9 :: nat, 10, 13} \<and> (of_char c :: nat) > 32" if "c \<in> set sch" for c
    using assms(3) that scheme_char_plain by (simp add: list_all_iff)
  have d: "dropWhile (\<lambda>c. (of_char c :: nat) \<le> 32) (sch @ ''://'' @ rest) = sch @ ''://'' @ rest"
    using assms(1) sch [of "hd sch"] by (intro dropWhile_hd) (auto simp: hd_append)
  have f: "?F (sch @ ''://'' @ rest) = sch @ CHR '':'' # ''//'' @ ?F rest"
    using sch by (simp add: filter_id_conv)
  have p: "str_partition '':'' (sch @ CHR '':'' # ''//'' @ ?F rest) = (sch, '':'', ''//'' @ ?F rest)"
    using sch by (intro partition_char) blast
  have s: "startswith (''//'' @ ?F rest) ''//''" by (simp add: startswith_def)
  show ?thesis unfolding urlsplit_def d f Let_def p
    using assms s by (simp add: startswith_def)
qed

lemma takeWhile_stop: "list_all P a \<Longrightarrow> b = [] \<or> \<not> P (hd b) \<Longrightarrow> takeWhile P (a @ b) = a"
  by (induction a) (cases b; auto)+

lemma url_tail_hd: "wf_url u \<Longrightarrow> url_tail u = [] \<or> hd (url_tail u) \<in> {CHR ''/'', CHR ''?'', CHR ''#''}"
  by (cases "url_path u") (simp_all add: url_tail_def wf_url_def)

lemma url_tail_parts:
  assumes "wf_url u"
  shows "str_partition ''#'' (url_tail u) = (url_path u @ (if url_query u \<noteq> [] then ''?'' @ url_query u else []),
      if url_fragment u \<noteq> [] then ''#'' else [], url_fragment u)"
    "str_partition ''?'' (url_path u @ (if url_query u \<noteq> [] then ''?'' @ url_query u else [])) =
      (url_path u, if url_query u \<noteq> [] then ''?'' else [], url_query u)"
proof -
  let ?pq = "url_path u @ (if url_query u \<noteq> [] then ''?'' @ url_query u else [])"
  have no: "CHR ''#'' \<notin> set ?pq" "CHR ''?'' \<notin> set (url_path u)"
    using assms by (auto simp: wf_url_def list_all_iff)
  show "str_partition ''#'' (url_tail u) = (?pq, if url_fragment u \<noteq> [] then ''#'' else [], url_fragment u)"
    using partition_char(1) [OF no(1), of "url_fragment u"] partition_char(2) [OF no(1)]
    by (cases "url_fragment u = []") (simp_all add: url_tail_def)
  show "str_partition ''?'' ?pq = (url_path u, if url_query u \<noteq> [] then ''?'' else [], url_query u)"
    using partition_char [OF no(2)] by (cases "url_query u = []") simp_all
qed

theorem urlsplit_urlunsplit:
  assumes "wf_url u" shows "urlsplit (urlunsplit u) = u"
proof -
  let ?F = "filter (\<lambda>c. of_char c \<notin> {9 :: nat, 10, 13})"
  have f: "?F (url_netloc u @ url_tail u) = url_netloc u @ url_tail u"
  proof (rule filter_True, rule ballI)
    fix c assume c: "c \<in> set (url_netloc u @ url_tail u)"
    have "c \<in> set (url_netloc u @ url_path u @ url_query u @ url_fragment u) \<or> c = CHR ''?'' \<or> c = CHR ''#''"
      using c unfolding url_tail_def by (simp split: if_splits) blast+
    then show "of_char c \<notin> {9 :: nat, 10, 13}" using assms unfolding wf_url_def list_all_iff by fastforce
  qed
  have n: "takeWhile (\<lambda>c. c \<notin> {CHR ''/'', CHR ''?'', CHR ''#''}) (url_netloc u @ url_tail u) = url_netloc u"
    using assms url_tail_hd [OF assms] by (intro takeWhile_stop) (auto simp: wf_url_def)
  have sch: "url_scheme u \<noteq> []" "is_ascii_alpha (hd (url_scheme u))" "list_all scheme_char (url_scheme u)" "lower (url_scheme u) = url_scheme u"
    using assms by (simp_all add: wf_url_def)
  have d: "drop (length (url_netloc u)) (url_netloc u @ url_tail u) = url_tail u" by simp
  show ?thesis unfolding urlunsplit_wf [OF assms] urlsplit_link [OF sch(1-3)] Let_def f n d url_tail_parts [OF assms] fst_conv snd_conv sch(4)
    by simp
qed

lemma scheme_char_lower: "scheme_char c \<Longrightarrow> scheme_char (lower_char c)"
proof -
  have "(of_char c :: nat) + 32 < 256" if "65 \<le> (of_char c :: nat)" "(of_char c :: nat) \<le> 90" using that by linarith
  then show "scheme_char c \<Longrightarrow> scheme_char (lower_char c)"
    by (auto simp: scheme_char_def lower_char_def is_ascii_alnum_def is_ascii_alpha_def is_ascii_digit_def Let_def)
qed

lemma ascii_alpha_lower: "is_ascii_alpha c \<Longrightarrow> is_ascii_alpha (lower_char c)"
proof -
  have "(of_char c :: nat) + 32 < 256" if "65 \<le> (of_char c :: nat)" "(of_char c :: nat) \<le> 90" using that by linarith
  then show "is_ascii_alpha c \<Longrightarrow> is_ascii_alpha (lower_char c)"
    by (auto simp: lower_char_def is_ascii_alpha_def Let_def)
qed

lemma wf_urlsplit:
  assumes "url_netloc (urlsplit raw) \<noteq> []" "url_scheme (urlsplit raw) \<noteq> []"
  shows "wf_url (urlsplit raw)"
proof -
  define s where "s = filter (\<lambda>c. of_char c \<notin> {9 :: nat, 10, 13}) (dropWhile (\<lambda>c. (of_char c :: nat) \<le> 32) raw)"
  define sch where "sch = fst (str_partition '':'' s)"
  define rest where "rest = snd (snd (str_partition '':'' s))"
  let ?known = "fst (snd (str_partition '':'' s)) \<noteq> [] \<and> sch \<noteq> [] \<and> is_ascii_alpha (hd sch) \<and> list_all scheme_char sch"
  let ?N = "\<lambda>c. c \<notin> {CHR ''/'', CHR ''?'', CHR ''#''}"
  have known: ?known
    using assms(2) unfolding urlsplit_def Let_def s_def [symmetric] sch_def [symmetric] by (auto split: if_splits)
  define netloc where "netloc = (if startswith rest ''//'' then takeWhile ?N (drop 2 rest) else [])"
  define r where "r = (if startswith rest ''//'' then drop (2 + length netloc) rest else rest)"
  define frag where "frag = str_partition ''#'' r"
  define qu where "qu = str_partition ''?'' (fst frag)"
  have u: "urlsplit raw = \<lparr>url_scheme = lower sch, url_netloc = netloc, url_path = fst qu, url_query = snd (snd qu), url_fragment = snd (snd frag)\<rparr>"
    using known unfolding urlsplit_def Let_def s_def [symmetric] sch_def [symmetric] rest_def [symmetric]
    by (simp add: netloc_def r_def frag_def qu_def)
  have sl: "startswith rest ''//''" using assms(1) by (auto simp: u netloc_def split: if_splits)
  have rhd: "r = [] \<or> hd r \<in> {CHR ''/'', CHR ''?'', CHR ''#''}"
  proof -
    have "r = dropWhile ?N (drop 2 rest)" using sl by (simp add: r_def netloc_def drop_drop [symmetric] dropWhile_eq_drop add.commute)
    then show ?thesis using hd_dropWhile_not [of ?N "drop 2 rest"] by auto
  qed
  have part: "fst (str_partition [c] t) = takeWhile (\<lambda>x. x \<noteq> c) t \<and> set (snd (snd (str_partition [c] t))) \<subseteq> set t" for c t
  proof (cases "c \<in> set t")
    case True
    then obtain a b where t: "t = a @ c # b" "c \<notin> set a" by (metis split_list_first)
    have "takeWhile (\<lambda>x. x \<noteq> c) t = a"
      unfolding t(1) by (rule takeWhile_stop) (use t(2) in \<open>auto simp: list_all_iff\<close>)
    then show ?thesis using t by (auto simp: partition_char)
  next
    case False
    have t: "takeWhile (\<lambda>x. x \<noteq> c) t = t" using False by (auto simp: takeWhile_eq_all_conv)
    show ?thesis unfolding partition_char(2) [OF False] fst_conv snd_conv t by simp
  qed
  have clean: "c \<in> set s \<Longrightarrow> of_char c \<notin> {9 :: nat, 10, 13}" for c by (simp add: s_def)
  have rs: "set rest \<subseteq> set s" using part [of "CHR '':''" s] by (simp add: rest_def)
  have rr: "set r \<subseteq> set rest" "set netloc \<subseteq> set rest"
    using set_drop_subset [of "2 + length netloc" rest] set_drop_subset [of 2 rest]
    by (auto simp: r_def netloc_def dest: set_takeWhileD)
  have f: "fst frag = takeWhile (\<lambda>x. x \<noteq> CHR ''#'') r" "set (snd (snd frag)) \<subseteq> set r"
    using part [of "CHR ''#''" r] by (simp_all add: frag_def)
  have q: "fst qu = takeWhile (\<lambda>x. x \<noteq> CHR ''?'') (fst frag)" "set (snd (snd qu)) \<subseteq> set (fst frag)"
    using part [of "CHR ''?''" "fst frag"] by (simp_all add: qu_def)
  have ff: "set (fst frag) \<subseteq> set r" "CHR ''#'' \<notin> set (fst frag)" unfolding f by (auto dest: set_takeWhileD)
  have qq: "set (fst qu) \<subseteq> set (fst frag)" "CHR ''?'' \<notin> set (fst qu)" unfolding q by (auto dest: set_takeWhileD)
  have path: "fst qu = [] \<or> hd (fst qu) = CHR ''/''"
    using rhd unfolding q(1) f(1) by (cases r) auto
  have "list_all (\<lambda>c. of_char c \<notin> {9 :: nat, 10, 13}) (netloc @ fst qu @ snd (snd qu) @ snd (snd frag))"
  proof -
    have "set (netloc @ fst qu @ snd (snd qu) @ snd (snd frag)) \<subseteq> set s"
      using rs rr f(2) q(2) ff(1) qq(1) by (simp) (meson subset_trans)
    then show ?thesis using clean unfolding list_all_iff by blast
  qed
  moreover have "list_all scheme_char (lower sch)" "is_ascii_alpha (hd (lower sch))"
    using known by (auto simp: lower_def list_all_iff hd_map scheme_char_lower ascii_alpha_lower)
  moreover have "list_all ?N netloc" by (auto simp: netloc_def list_all_iff dest: set_takeWhileD)
  ultimately show ?thesis using known path ff qq q(2)
    by (auto simp: wf_url_def u list_all_iff lower_def)
qed



section \<open>The converted link\<close>

lemma split_char_acc_append: "split_char_acc sep acc (a @ sep # b) = split_char_acc sep acc a @ split_char_acc sep [] b"
  by (induction sep acc a rule: split_char_acc.induct) auto

lemma split_on_append: "split_on sep (a @ sep # b) = split_on sep a @ split_on sep b"
  by (simp add: split_on_def split_char_acc_append)

lemma split_on_none: "sep \<notin> set s \<Longrightarrow> split_on sep s = [s]"
  using split_on_join [of "[s]" sep] by simp

lemma parse_qsl_append: "parse_qsl (a @ CHR ''&'' # b) = parse_qsl a @ parse_qsl b"
  by (simp add: parse_qsl_def split_on_append)

lemma quote_no: "c \<in> {CHR ''&'', CHR ''='', CHR ''+'', CHR ''#'', CHR 0x09, CHR 0x0A, CHR 0x0D} \<Longrightarrow> c \<notin> set (quote s)"
  using quote_chars [of c s]
  by (auto simp: unreserved_def is_ascii_alnum_def is_ascii_alpha_def is_ascii_digit_def Let_def)

lemma parse_qsl_sni: "parse_qsl (''sni='' @ quote s) = [(''sni'', s)]"
proof -
  have split: "split_on CHR ''&'' (''sni='' @ quote s) = [''sni='' @ quote s]"
    using quote_no [of "CHR ''&''" s] by (intro split_on_none) auto
  have part: "str_partition ''='' (''sni='' @ quote s) = (''sni'', ''='', quote s)"
    using partition_char(1) [of "CHR ''=''" "''sni''" "quote s"] by simp
  have plus: "replace_char CHR ''+'' '' '' (quote s) = quote s" "replace_char CHR ''+'' '' '' ''sni'' = ''sni''"
    using quote_no [of "CHR ''+''" s] by (auto intro: replace_char_id)
  have "unquote ''sni'' = ''sni''" by (simp add: unquote_def)
  then show ?thesis unfolding parse_qsl_def split using part plus by (simp add: unquote_quote)
qed

lemma dict_set_all_append: "dict_set_all (a @ b) d = dict_set_all b (dict_set_all a d)"
  by (induction a d rule: dict_set_all.induct) simp_all

lemma lower_sni: "lower ''sni'' = ''sni''"
  by code_simp

definition names_route :: "url_parts \<Rightarrow> bool" where
  "names_route u \<longleftrightarrow> list_ex (\<lambda>k. strip (query_get (query_dict (url_query u)) k) \<noteq> []) [''sni'', ''servername'']"

lemma local_query_dict:
  "query_dict (local_query u name) = (if names_route u then query_dict (url_query u)
     else dict_set ''sni'' name (query_dict (url_query u)))"
proof (cases "names_route u")
  case False
  have one: "query_dict (q @ ''&sni='' @ quote name) = dict_set ''sni'' name (query_dict q)" for q
  proof -
    have "parse_qsl (q @ ''&sni='' @ quote name) = parse_qsl q @ [(''sni'', name)]"
      using parse_qsl_append [of q "''sni='' @ quote name"] unfolding parse_qsl_sni by simp
    then show ?thesis unfolding query_dict_def by (simp add: dict_set_all_append lower_sni)
  qed
  have two: "query_dict (''sni='' @ quote name) = dict_set ''sni'' name (query_dict [])"
    by (simp only: query_dict_def parse_qsl_sni) (simp add: lower_sni parse_qsl_def split_on_def)
  show ?thesis using False one [of "url_query u"] two by (simp add: local_query_def names_route_def Let_def)
qed (simp add: local_query_def names_route_def Let_def)

lemma query_get_local: "k \<noteq> ''sni'' \<Longrightarrow> query_get (query_dict (local_query u name)) k = query_get (query_dict (url_query u)) k"
  by (simp add: local_query_dict query_get_def dict_get_or_def)

lemma first_text_local: "''sni'' \<notin> set ks \<Longrightarrow> first_text (query_dict (local_query u name)) ks d = first_text (query_dict (url_query u)) ks d"
  by (induction ks) (auto simp: query_get_local)

definition tidy_names :: "url_parts \<Rightarrow> bool" where
  \<comment> \<open>no blanks around the names of the route\<close>
  "tidy_names u \<longleftrightarrow> strip (hostname u) = hostname u
     \<and> (\<forall>k \<in> set SNI_KEYS. strip (query_get (query_dict (url_query u)) k) = query_get (query_dict (url_query u)) k)"

lemma first_stripped_tidy:
  "(\<forall>k \<in> set ks. strip (query_get q k) = query_get q k) \<Longrightarrow> first_stripped q ks d = first_text q ks d"
  by (induction ks) auto

lemma route_name_tidy: "tidy_names u \<Longrightarrow> route_server_name u = first_text (query_dict (url_query u)) SNI_KEYS (hostname u)"
  by (simp add: route_server_name_def tidy_names_def first_stripped_tidy)

lemma first_text_default: "\<exists>k \<in> set ks. query_get q k \<noteq> [] \<Longrightarrow> first_text q ks d = first_text q ks e"
  by (induction ks) auto

lemma local_sni:
  assumes "tidy_names u" "hostname u \<noteq> []"
  shows "first_text (query_dict (local_query u (route_server_name u))) SNI_KEYS h = first_text (query_dict (url_query u)) SNI_KEYS (hostname u)"
proof (cases "names_route u")
  case True
  let ?q = "query_dict (url_query u)"
  have "query_get ?q ''sni'' \<noteq> [] \<or> query_get ?q ''servername'' \<noteq> []" using True by (auto simp: names_route_def)
  then have "\<exists>k \<in> set SNI_KEYS. query_get ?q k \<noteq> []" by (auto simp: SNI_KEYS_def)
  then show ?thesis using True first_text_default [of SNI_KEYS ?q h "hostname u"] by (simp add: local_query_dict)
next
  case False
  let ?n = "route_server_name u"
  have "?n \<noteq> []" using assms first_text_neq [of "hostname u"] by (simp add: route_name_tidy)
  then show ?thesis using False route_name_tidy [OF assms(1)]
    by (simp add: local_query_dict SNI_KEYS_def query_get_def dict_get_or_def)
qed

lemma rpartition_char:
  "c \<notin> set b \<Longrightarrow> str_rpartition [c] (a @ c # b) = (a, [c], b)"
  "c \<notin> set s \<Longrightarrow> str_rpartition [c] s = ([], [], s)"
  using partition_char(1) [of c "rev b" "rev a"] partition_char(2) [of c "rev s"]
  by (simp_all add: str_rpartition_def find_sub_def find_from_char)

lemma rpartition_split: 
  obtains (none) "CHR ''@'' \<notin> set s" "str_rpartition ''@'' s = ([], [], s)"
  | (some) user host where "s = user @ CHR ''@'' # host" "CHR ''@'' \<notin> set host" "str_rpartition ''@'' s = (user, ''@'', host)"
proof (cases "CHR ''@'' \<in> set s")
  case True
  then obtain a b where "s = a @ CHR ''@'' # b" "CHR ''@'' \<notin> set b" by (metis split_list_last)
  then show ?thesis using rpartition_char(1) some by blast
next
  case False
  then show ?thesis using rpartition_char(2) none by blast
qed

abbreviation local_address :: string where "local_address \<equiv> ''127.0.0.1:40443''"

definition local_maker :: "maker_settings \<Rightarrow> bool" where
  "local_maker ms \<longleftrightarrow> ms_local_host ms = LOCAL_SNI_HOST \<and> ms_local_port ms = LOCAL_SNI_PORT"

lemma digit_chars: "digit_char 0 = CHR ''0''" "digit_char 3 = CHR ''3''" "digit_char 4 = CHR ''4''"
  by code_simp+

lemma port_text: "int_str 40443 = ''40443''"
  by (simp add: int_str_def nat_str.simps digit_chars)

lemma local_netloc_rpartition:
  assumes "local_maker ms"
  shows "str_rpartition ''@'' (local_netloc ms n) = (fst (str_rpartition ''@'' n), fst (snd (str_rpartition ''@'' n)), local_address)"
proof -
  have l: "local_netloc ms n = (case str_rpartition ''@'' n of (user, sep, _) \<Rightarrow> (if sep = [] then [] else user @ ''@'') @ local_address)"
    using assms by (simp add: local_netloc_def local_maker_def LOCAL_SNI_HOST_def LOCAL_SNI_PORT_def port_text)
  have no: "CHR ''@'' \<notin> set local_address" by simp
  show ?thesis
  proof (cases n rule: rpartition_split)
    case none
    show ?thesis unfolding l none(2) prod.case using rpartition_char(2) [OF no] by simp
  next
    case (some user host)
    show ?thesis unfolding l some(3) prod.case using rpartition_char(1) [OF no, of user] by simp
  qed
qed

lemma local_address_parts:
  "str_partition ''['' local_address = (local_address, [], [])" "str_partition '':'' local_address = (''127.0.0.1'', '':'', ''40443'')"
  "str_partition ''%'' ''127.0.0.1'' = (''127.0.0.1'', [], [])" "lower ''127.0.0.1'' = ''127.0.0.1''"
  by code_simp+

lemma local_host_info: "local_maker ms \<Longrightarrow> host_info (local_netloc ms n) = (''127.0.0.1'', Some ''40443'')"
  by (simp only: host_info_def local_netloc_rpartition fst_conv snd_conv local_address_parts Let_def prod.case) simp

lemma local_link_parts [simp]:
  "url_scheme (local_link ms u name) = url_scheme u" "url_path (local_link ms u name) = url_path u"
  "url_fragment (local_link ms u name) = url_fragment u" "url_query (local_link ms u name) = local_query u name"
  "url_netloc (local_link ms u name) = local_netloc ms (url_netloc u)"
  by (simp_all add: local_link_def)

lemma local_hostname:
  assumes "local_maker ms"
  shows "hostname (local_link ms u name) = ''127.0.0.1''" "port (local_link ms u name) = Inr (Some 40443)"
proof -
  show "hostname (local_link ms u name) = ''127.0.0.1''"
    by (simp add: hostname_def local_host_info [OF assms] local_address_parts)
  have "url_port ''40443'' = Some (Some 40443)"
    by (simp add: url_port_def is_ascii_digit_def digit_val_def)
  then show "port (local_link ms u name) = Inr (Some 40443)"
    by (simp add: port_def local_host_info [OF assms])
qed

lemma local_username: "local_maker ms \<Longrightarrow> username (local_link ms u name) = username u"
  by (simp add: username_def local_netloc_rpartition Let_def split: prod.split)



lemma local_netloc_set:
  assumes "local_maker ms" shows "set (local_netloc ms n) \<subseteq> set n \<union> set (CHR ''@'' # local_address)"
proof -
  have l: "local_netloc ms n = (case str_rpartition ''@'' n of (user, sep, _) \<Rightarrow> (if sep = [] then [] else user @ ''@'') @ local_address)"
    using assms by (simp add: local_netloc_def local_maker_def LOCAL_SNI_HOST_def LOCAL_SNI_PORT_def port_text)
  show ?thesis
  proof (cases n rule: rpartition_split)
    case none
    show ?thesis unfolding l none(2) prod.case by auto
  next
    case (some user host)
    have "set user \<subseteq> set n" unfolding some(1) by auto
    then show ?thesis unfolding l some(3) prod.case by auto
  qed
qed

lemma local_netloc_end: "local_maker ms \<Longrightarrow> \<exists>a. local_netloc ms n = a @ ''40443''"
  by (simp add: local_netloc_def local_maker_def LOCAL_SNI_HOST_def LOCAL_SNI_PORT_def port_text split: prod.split)

lemma local_query_set: "set (local_query u name) \<subseteq> set (url_query u) \<union> set ''&sni='' \<union> set (quote name)"
  by (auto simp: local_query_def Let_def)

lemma local_query_plain:
  assumes "wf_url u" "c \<in> set (local_query u name)"
  shows "c \<noteq> CHR ''#'' \<and> of_char c \<notin> {9 :: nat, 10, 13}"
proof -
  have "c \<in> set (url_query u) \<or> c \<in> set ''&sni='' \<or> c \<in> set (quote name)" using local_query_set assms(2) by blast
  then show ?thesis
  proof (elim disjE)
    assume c: "c \<in> set (url_query u)"
    then show ?thesis using assms(1) unfolding wf_url_def list_all_iff by auto
  next
    assume "c \<in> set ''&sni=''"
    then show ?thesis by auto
  next
    assume "c \<in> set (quote name)"
    then have "unreserved c \<or> c = CHR 0x25" by (rule quote_chars)
    then show ?thesis by (auto simp: unreserved_def is_ascii_alnum_def is_ascii_alpha_def is_ascii_digit_def Let_def)
  qed
qed

lemma wf_local_link:
  assumes "wf_url u" "local_maker ms" shows "wf_url (local_link ms u name)"
proof -
  have n: "c \<in> set (url_netloc u) \<or> c \<in> set (CHR ''@'' # local_address)" if "c \<in> set (local_netloc ms (url_netloc u))" for c
    using that local_netloc_set [OF assms(2)] by blast
  have ok: "c \<notin> {CHR ''/'', CHR ''?'', CHR ''#''} \<and> of_char c \<notin> {9 :: nat, 10, 13}" if "c \<in> set (local_netloc ms (url_netloc u))" for c
    using n [OF that]
  proof
    assume "c \<in> set (url_netloc u)"
    then show ?thesis using assms(1) unfolding wf_url_def list_all_iff by auto
  qed auto
  then show ?thesis using assms(1) local_query_plain [OF assms(1), of _ name]
    unfolding wf_url_def list_all_iff local_link_parts by auto
qed

lemma strip_kept:
  assumes "\<not> is_space (hd a)" "\<not> is_space (last a)" "a \<noteq> []"
  obtains t' where "strip (a @ t) = a @ t'" "prefix t' t"
proof -
  have l: "lstrip (a @ t) = a @ t" using assms by (simp add: lstrip_def dropWhile_hd)
  show ?thesis
  proof (cases "\<forall>c \<in> set t. is_space c")
    case True
    then have "dropWhile is_space (rev t @ rev a) = rev a"
      using assms by (subst dropWhile_append2) (auto simp: dropWhile_hd hd_rev)
    then have "strip (a @ t) = a @ []" by (simp add: strip_def l)
    then show ?thesis by (rule that) simp
  next
    case False
    let ?d = "dropWhile is_space (rev t)"
    have "dropWhile is_space (rev t @ rev a) = ?d @ rev a" using False by (auto intro: dropWhile_append1)
    then have s: "strip (a @ t) = a @ rev ?d" by (simp add: strip_def l)
    have "suffix ?d (rev t)" by (rule suffix_dropWhile)
    then have "prefix (rev ?d) t" by (simp add: suffix_to_prefix)
    with s show ?thesis by (rule that)
  qed
qed

lemma netloc_of_stripped:
  assumes wf: "wf_url v" and e: "url_netloc v = a @ ''40443''"
  shows "url_netloc (urlsplit (strip (urlunsplit v))) = url_netloc v" "url_scheme (urlsplit (strip (urlunsplit v))) = lower (url_scheme v)"
proof -
  let ?pre = "url_scheme v @ ''://'' @ url_netloc v"
  let ?F = "filter (\<lambda>c. of_char c \<notin> {9 :: nat, 10, 13})"
  have sch: "url_scheme v \<noteq> []" "is_ascii_alpha (hd (url_scheme v))" "list_all scheme_char (url_scheme v)"
    using wf by (simp_all add: wf_url_def)
  have "\<not> is_space (hd ?pre)" using sch(1,2) by (cases "url_scheme v") (auto simp: is_ascii_alpha_def is_space_def Let_def)
  moreover have "\<not> is_space (last ?pre)"
  proof -
    have "last ?pre = CHR ''3''" unfolding e by simp
    moreover have "\<not> is_space CHR ''3''" by code_simp
    ultimately show ?thesis by simp
  qed
  moreover have "?pre \<noteq> []" using sch(1) by simp
  ultimately obtain t where t: "strip (?pre @ url_tail v) = ?pre @ t" "prefix t (url_tail v)" by (rule strip_kept)
  have f: "?F (url_netloc v @ t) = url_netloc v @ ?F t"
    using wf by (auto simp: wf_url_def list_all_iff intro!: filter_True)
  have hd: "?F t = [] \<or> hd (?F t) \<in> {CHR ''/'', CHR ''?'', CHR ''#''}"
  proof (cases t)
    case (Cons c t')
    then have "hd (url_tail v) = c" "url_tail v \<noteq> []" using t(2) by (cases "url_tail v"; auto)+
    then have "c \<in> {CHR ''/'', CHR ''?'', CHR ''#''}" using url_tail_hd [OF wf] by auto
    then show ?thesis using Cons by auto
  qed simp
  have "takeWhile (\<lambda>c. c \<notin> {CHR ''/'', CHR ''?'', CHR ''#''}) (url_netloc v @ ?F t) = url_netloc v"
    by (rule takeWhile_stop) (use wf hd in \<open>auto simp: wf_url_def\<close>)
  then have n: "takeWhile (\<lambda>c. c \<notin> {CHR ''/'', CHR ''?'', CHR ''#''}) (?F (url_netloc v @ t)) = url_netloc v"
    unfolding f .
  have "strip (urlunsplit v) = url_scheme v @ ''://'' @ (url_netloc v @ t)"
    using t(1) unfolding urlunsplit_wf [OF wf] by (simp only: append_assoc)
  then have u: "urlsplit (strip (urlunsplit v)) = urlsplit (url_scheme v @ ''://'' @ (url_netloc v @ t))" by (simp only:)
  show "url_netloc (urlsplit (strip (urlunsplit v))) = url_netloc v"
    unfolding u by (simp only: urlsplit_link [OF sch] Let_def n url_parts.simps)
  show "url_scheme (urlsplit (strip (urlunsplit v))) = lower (url_scheme v)"
    unfolding u by (simp only: urlsplit_link [OF sch] Let_def url_parts.simps)
qed

lemma local_link_split:
  assumes "wf_url u" "local_maker ms" "signature_of out (urlunsplit (local_link ms u name)) = Inr sig"
  shows "split_url (out_bracket out) (urlunsplit (local_link ms u name)) = Inr (local_link ms u name)"
proof -
  let ?v = "local_link ms u name"
  have wf: "wf_url ?v" using assms(1,2) by (rule wf_local_link)
  obtain a where a: "url_netloc ?v = a @ ''40443''" using local_netloc_end [OF assms(2)] by auto
  have "netloc_ok (out_bracket out) (url_netloc (urlsplit (strip (urlunsplit ?v))))"
    using assms(3) by (auto simp: signature_of_def split_url_def Let_def split: if_splits)
  then have "netloc_ok (out_bracket out) (url_netloc ?v)" by (simp only: netloc_of_stripped(1) [OF wf a])
  then show ?thesis by (simp add: split_url_def urlsplit_urlunsplit [OF wf] del: local_link_parts)
qed



lemma hostname_netloc: "hostname u \<noteq> [] \<Longrightarrow> url_netloc u \<noteq> []"
proof
  assume h: "hostname u \<noteq> []" and n: "url_netloc u = []"
  have "host_info [] = ([], None)" by code_simp
  then show False using h n by (simp add: hostname_def)
qed

lemma split_urlD: "split_url b uri = Inr u \<Longrightarrow> u = urlsplit uri \<and> netloc_ok b (url_netloc u)"
  by (auto simp: split_url_def Let_def split: if_splits)

lemma compatible_link:
  assumes "compatibility_error out uri = None"
  obtains u q where "split_url (out_bracket out) uri = Inr u" "port u = Inr q" "url_scheme u \<in> set SUPPORTED_PROTOCOLS"
    "hostname u \<noteq> []" "wf_url u" "route_server_name u \<noteq> []"
proof -
  obtain u where u: "split_url (out_bracket out) uri = Inr u"
    using assms by (cases "split_url (out_bracket out) uri") (auto simp: compatibility_error_def)
  have ok: "lower (url_scheme u) \<in> set SUPPORTED_PROTOCOLS" "hostname u \<noteq> []" "route_server_name u \<noteq> []" "\<exists>q. port u = Inr q"
    using assms u unfolding compatibility_error_def route_server_name_def
    by (simp_all add: Let_def split: if_splits sum.splits)
  then obtain q where q: "port u = Inr q" by blast
  have e: "u = urlsplit uri" using split_urlD [OF u] by blast
  have "url_scheme u \<noteq> []" using ok(1) by (auto simp: SUPPORTED_PROTOCOLS_def lower_def)
  then have wf: "wf_url u" using wf_urlsplit [of uri] hostname_netloc [OF ok(2)] by (simp add: e)
  then have "lower (url_scheme u) = url_scheme u" by (simp add: wf_url_def)
  then show ?thesis using that [OF u q _ ok(2) wf ok(3)] ok(1) by simp
qed

lemma local_link_recognised:
  assumes "wf_url u" "local_maker ms" "signature_of out (urlunsplit (local_link ms u name)) = Inr sig"
    "url_scheme u \<in> set SUPPORTED_PROTOCOLS"
  shows "link_is_local out (urlunsplit (local_link ms u name))"
proof -
  let ?v = "local_link ms u name" and ?t = "urlsplit (strip (urlunsplit (local_link ms u name)))"
  have wf: "wf_url ?v" using assms(1,2) by (rule wf_local_link)
  obtain a where a: "url_netloc ?v = a @ ''40443''" using local_netloc_end [OF assms(2)] by auto
  note t = netloc_of_stripped [OF wf a]
  have "split_url (out_bracket out) (strip (urlunsplit ?v)) = Inr ?t"
    using assms(3) by (auto simp: signature_of_def split_url_def Let_def split: if_splits)
  moreover have "hostname ?t = hostname ?v" "port ?t = port ?v" using t(1) by (simp_all add: hostname_def port_def)
  moreover have "lower (url_scheme ?t) = url_scheme u" using t(2) assms(1) by (simp add: wf_url_def)
  moreover have "loopback_host out (lower (strip ''127.0.0.1''))"
  proof -
    have "case parse_ipv4 (lower (strip ''127.0.0.1'')) of Some os \<Rightarrow> hd os = 127 | None \<Rightarrow> False" by code_simp
    then show ?thesis by (auto simp: loopback_host_def split: option.splits)
  qed
  ultimately show ?thesis using assms(4) local_hostname [OF assms(2), of u name]
    by (simp add: link_is_local_def or_port_def LOCAL_SNI_PORT_def)
qed

lemma converted_parts:
  assumes "convert_to_sni out ms p = Inr c" "cv_status c = ''converted''"
    "fld p ''source_uri'' = JStr uri" "split_url (out_bracket out) uri = Inr u"
  obtains q name where "compatibility_error out uri = None" "port u = Inr q" "is_sni_config out p = Inr False"
    "text_of_field p ''name'' = Inr name" "convert_link out ms p uri u q = Inr c"
proof -
  have comp: "compatibility_error out uri = None"
    using assms(1,2,3) by (cases "compatibility_error out uri") (auto simp: convert_to_sni_def text_of_field_def)
  obtain q where q: "port u = Inr q" using compatible_link [OF comp] assms(4) by auto
  have link: "convert_link out ms p uri u q = Inr c"
    using assms(1,3,4) comp q by (simp add: convert_to_sni_def text_of_field_def)
  obtain b where b: "is_sni_config out p = Inr b" using link by (cases "is_sni_config out p") (simp_all add: convert_link_def)
  have nb: "\<not> b" using link b assms(2) by (cases b) (auto simp: convert_link_def)
  obtain name where name: "text_of_field p ''name'' = Inr name"
    using link b nb by (cases "text_of_field p ''name''") (simp_all add: convert_link_def)
  show ?thesis using that [OF comp q _ name link] b nb by simp
qed

lemma convertedE:
  assumes "convert_to_sni out ms p = Inr c" "cv_status c = ''converted''" "cv_profile c = Some r"
    "fld p ''source_uri'' = JStr uri" "split_url (out_bracket out) uri = Inr u" "\<not> has_ech u"
  obtains q sig name where "compatibility_error out uri = None" "port u = Inr q"
    "signature_of out (urlunsplit (local_link ms u (route_server_name u))) = Inr sig"
    "r = dict_set_all (sni_fields out ms u q (urlunsplit (local_link ms u (route_server_name u))) sig name) p"
proof -
  obtain q name where c: "compatibility_error out uri = None" "port u = Inr q" "is_sni_config out p = Inr False"
    "text_of_field p ''name'' = Inr name" "convert_link out ms p uri u q = Inr c"
    by (rule converted_parts [OF assms(1,2,4,5)])
  let ?w = "urlunsplit (local_link ms u (route_server_name u))"
  obtain sig where sig: "signature_of out ?w = Inr sig"
    using c(3,4,5) assms(6) by (cases "signature_of out ?w") (simp_all add: convert_link_def Let_def)
  have "r = dict_set_all (sni_fields out ms u q ?w sig name) p"
    using c(3,4,5) assms(3,6) sig by (auto simp: convert_link_def Let_def)
  then show ?thesis by (rule that [OF c(1,2) sig])
qed

lemma converted_echE:
  assumes "convert_to_sni out ms p = Inr c" "cv_status c = ''converted''" "cv_profile c = Some r"
    "fld p ''source_uri'' = JStr uri" "split_url (out_bracket out) uri = Inr u" "has_ech u"
  obtains q sig name where "compatibility_error out uri = None" "port u = Inr q" "is_sni_config out p = Inr False"
    "signature_of out uri = Inr sig" "r = dict_set_all (ech_fields out u q sig name) p"
proof -
  obtain q name where c: "compatibility_error out uri = None" "port u = Inr q" "is_sni_config out p = Inr False"
    "text_of_field p ''name'' = Inr name" "convert_link out ms p uri u q = Inr c"
    by (rule converted_parts [OF assms(1,2,4,5)])
  obtain sig where sig: "signature_of out uri = Inr sig"
    using c(3,4,5) assms(6) by (cases "signature_of out uri") (simp_all add: convert_link_def)
  have "r = dict_set_all (ech_fields out u q sig name) p"
    using c(3,4,5) assms(3,6) sig by (auto simp: convert_link_def)
  then show ?thesis by (rule that [OF c(1,2,3) sig])
qed

lemma ech_field:
  "fld (dict_set_all (ech_fields out u q sig name) p) k
     = (case map_of (ech_fields out u q sig name) k of Some v \<Rightarrow> v | None \<Rightarrow> fld p k)"
proof -
  have "distinct (map fst (ech_fields out u q sig name))" by (simp add: ech_fields_def UNTESTED_def)
  from dict_get_set_all [OF this, of p k] show ?thesis by (simp add: fld_def dict_get_or_def split: option.split)
qed

lemma ech_field_values:
  "fld (dict_set_all (ech_fields out u q sig name) p) ''source_uri'' = fld p ''source_uri''"
  "fld (dict_set_all (ech_fields out u q sig name) p) ''name'' = JStr (suffixed name '' ech'' ''ECH'')"
  "fld (dict_set_all (ech_fields out u q sig name) p) ''port'' = JInt (or_port q)"
  "fld (dict_set_all (ech_fields out u q sig name) p) ''sni'' = JStr (route_server_name u)"
  "fld (dict_set_all (ech_fields out u q sig name) p) ''address'' = JStr (hostname u)"
  "fld (dict_set_all (ech_fields out u q sig name) p) ''route_mode'' = JStr ''ech-direct''"
  "fld (dict_set_all (ech_fields out u q sig name) p) ''verified_spoof'' = JBool False"
  "fld (dict_set_all (ech_fields out u q sig name) p) ''spoof_fake_sni'' = JStr []"
  by (simp_all add: ech_field ech_fields_def UNTESTED_def)

lemma distinct_sni_fields: "distinct (map fst (sni_fields out ms u q w sig name))"
  by (simp add: sni_fields_def UNTESTED_def)

lemma sni_field:
  "map_of (sni_fields out ms u q w sig name) k = Some v \<Longrightarrow> fld (dict_set_all (sni_fields out ms u q w sig name) p) k = v"
  by (simp add: fld_def dict_get_or_def dict_get_set_all [OF distinct_sni_fields])

lemma sni_field_values:
  "fld (dict_set_all (sni_fields out ms u q w sig name) p) ''source_uri'' = JStr w"
  "fld (dict_set_all (sni_fields out ms u q w sig name) p) ''port'' = JInt (or_port q)"
  "fld (dict_set_all (sni_fields out ms u q w sig name) p) ''sni'' = JStr (route_server_name u)"
  "fld (dict_set_all (sni_fields out ms u q w sig name) p) ''address'' = JStr (edge_of ms u)"
  "fld (dict_set_all (sni_fields out ms u q w sig name) p) ''spoof_fake_sni'' = JStr (strip (ms_fake_sni ms))"
  "fld (dict_set_all (sni_fields out ms u q w sig name) p) ''route_mode'' = JStr ''sni''"
  by (rule sni_field; simp add: sni_fields_def)+

definition outbound_of :: "string \<Rightarrow> string \<Rightarrow> string \<Rightarrow> int \<Rightarrow> string \<Rightarrow> (string, string) dict \<Rightarrow> link_outbound" where
  \<comment> \<open>the outbound of a link with a host: scheme, user, host, port, server name and the query\<close>
  "outbound_of scheme user host prt sni q = (let any = first_text q; path = any [''path''] ''/'';
       security = lower (strip (any [''security''] ''tls''));
       network = lower (strip (any [''type'', ''network''] (if security = ''reality'' then ''raw'' else ''ws''))) in
     \<lparr>ob_protocol = lower scheme, ob_user = user, ob_host = host, ob_port = prt, ob_sni = sni,
       ob_host_header = any [''host'', ''authority''] sni, ob_path = (if startswith path ''/'' then path else ''/'' @ path),
       ob_network = (if network = ''tcp'' then ''raw'' else network),
       ob_fingerprint = any [''fp'', ''fingerprint''] [], ob_pinned = any [''pinnedpeercertsha256'', ''pcs''] [],
       ob_verify_name = any [''verifypeercertbyname'', ''vcn''] [],
       ob_alter_id = (case py_int (any [''aid'', ''alterid''] ''0'') of None \<Rightarrow> 0 | Some n \<Rightarrow> max 0 n),
       ob_user_security = any [''scy'', ''cipher''] ''auto'', ob_security = security, ob_flow = query_get q ''flow'',
       ob_encryption = any [''encryption''] ''none'', ob_reality_public_key = any [''pbk'', ''publickey'', ''password''] [],
       ob_reality_short_id = any [''sid'', ''shortid''] [], ob_reality_spider_x = any [''spx'', ''spiderx''] [],
       ob_service_name = query_get q ''servicename'', ob_authority = query_get q ''authority'', ob_mode = query_get q ''mode'',
       ob_extra = query_get q ''extra'', ob_header_type = any [''headertype''] ''none'',
       ob_alpn = filter (\<lambda>v. v \<noteq> []) (map strip (split_on CHR '','' (query_get q ''alpn''))),
       ob_insecure = (lower (strip (any [''allowinsecure'', ''insecure''] [])) \<in> {''1'', ''true'', ''yes'', ''on''}),
       ob_ech = any [''ech'', ''echcl'', ''echconfiglist''] []\<rparr>)"

lemma parse_outbound_eq:
  assumes "fld p ''source_uri'' = JStr uri" "split_url b uri = Inr u" "hostname u \<noteq> []" "port u = Inr q"
  shows "parse_outbound b p = Inr (outbound_of (url_scheme u) (unquote (username u)) (hostname u) (or_port q)
    (first_text (query_dict (url_query u)) SNI_KEYS (hostname u)) (query_dict (url_query u)))"
  using assms first_text_neq [OF assms(3), of "query_dict (url_query u)" SNI_KEYS]
  unfolding parse_outbound_def outbound_of_def text_of_field_def Let_def by (simp del: first_text.simps)

lemma outbound_of_local:
  "outbound_of scheme user host prt sni (query_dict (local_query u name)) = outbound_of scheme user host prt sni (query_dict (url_query u))"
  unfolding outbound_of_def Let_def
  by (simp add: first_text_local query_get_local del: first_text.simps)

lemma outbound_of_server:
  "outbound_of scheme user h' p' sni' q = (outbound_of scheme user h p sni q)\<lparr>ob_host := h', ob_port := p', ob_sni := sni',
     ob_host_header := first_text q [''host'', ''authority''] sni'\<rparr>"
  "ob_port (outbound_of scheme user h p sni q) = p" "ob_sni (outbound_of scheme user h p sni q) = sni"
  by (simp_all add: outbound_of_def Let_def del: first_text.simps)

lemma local_sni_any:
  assumes "route_server_name u \<noteq> []"
  shows "first_text (query_dict (local_query u (route_server_name u))) SNI_KEYS h
    = (if names_route u then first_text (query_dict (url_query u)) SNI_KEYS (hostname u) else route_server_name u)"
proof (cases "names_route u")
  case True
  let ?q = "query_dict (url_query u)"
  have "query_get ?q ''sni'' \<noteq> [] \<or> query_get ?q ''servername'' \<noteq> []" using True by (auto simp: names_route_def)
  then have "\<exists>k \<in> set SNI_KEYS. query_get ?q k \<noteq> []" by (auto simp: SNI_KEYS_def)
  then show ?thesis using True first_text_default [of SNI_KEYS ?q h "hostname u"] by (simp add: local_query_dict)
next
  case False
  then show ?thesis using assms by (simp add: local_query_dict SNI_KEYS_def query_get_def dict_get_or_def)
qed

text \<open>
  C12: What a converted link dials, for a maker with the core's own address (the application makes no other).
  A link without an ECH configuration is the same tunnel through the pattern core: Xray gets the
  credentials, the transport, the path and every other parameter of the original link, only the server is
  the core's port on the loopback address, and the profile remembers the original port, the name of the
  route and the edge for the core. The server name is the original one where \<open>sni\<close> or \<open>servername\<close> is
  given, else it becomes the name of the route, which is the original one unless blanks surround a
  name. A link with an ECH configuration keeps its server: its outbound is the original one, and the
  profile is marked as a direct ECH route.
\<close>

theorem converted_link_keeps_the_outbound:
  assumes "convert_to_sni out ms p = Inr c" "cv_status c = ''converted''" "cv_profile c = Some r" "local_maker ms"
    "fld p ''source_uri'' = JStr uri" "split_url (out_bracket out) uri = Inr u"
  shows "\<exists>a. parse_outbound (out_bracket out) p = Inr a
    \<and> fld r ''port'' = JInt (ob_port a) \<and> fld r ''sni'' = JStr (route_server_name u)
    \<and> (tidy_names u \<longrightarrow> ob_sni a = route_server_name u)
    \<and> (if has_ech u
       then parse_outbound (out_bracket out) r = Inr a \<and> fld r ''route_mode'' = JStr ''ech-direct'' \<and> fld r ''address'' = JStr (hostname u)
       else (let n = (if names_route u then ob_sni a else route_server_name u) in
           parse_outbound (out_bracket out) r = Inr (a\<lparr>ob_host := LOCAL_SNI_HOST, ob_port := LOCAL_SNI_PORT, ob_sni := n,
             ob_host_header := first_text (query_dict (url_query u)) [''host'', ''authority''] n\<rparr>))
         \<and> (tidy_names u \<longrightarrow> parse_outbound (out_bracket out) r = Inr (a\<lparr>ob_host := LOCAL_SNI_HOST, ob_port := LOCAL_SNI_PORT\<rparr>))
         \<and> fld r ''route_mode'' = JStr ''sni'' \<and> fld r ''address'' = JStr (edge_of ms u))"
proof -
  let ?n = "route_server_name u" and ?q = "query_dict (url_query u)"
  obtain q name where comp: "compatibility_error out uri = None" and q: "port u = Inr q"
    by (rule converted_parts [OF assms(1,2,5,6)])
  obtain u' where "split_url (out_bracket out) uri = Inr u'" "hostname u' \<noteq> []" "wf_url u'" "route_server_name u' \<noteq> []"
    by (rule compatible_link [OF comp])
  then have h: "hostname u \<noteq> []" and wf: "wf_url u" and ne: "?n \<noteq> []" using assms(6) by simp_all
  let ?s = "first_text ?q SNI_KEYS (hostname u)"
  let ?a = "outbound_of (url_scheme u) (unquote (username u)) (hostname u) (or_port q) ?s ?q"
  have a: "parse_outbound (out_bracket out) p = Inr ?a" by (rule parse_outbound_eq [OF assms(5,6) h q])
  have port: "ob_port ?a = or_port q" and sni: "ob_sni ?a = ?s" by (rule outbound_of_server)+
  have tidy: "tidy_names u \<Longrightarrow> ?s = ?n" by (rule route_name_tidy [symmetric])
  show ?thesis
  proof (cases "has_ech u")
    case True
    obtain q' sig nm where q': "port u = Inr q'" and r: "r = dict_set_all (ech_fields out u q' sig nm) p"
      by (rule converted_echE [OF assms(1,2,3,5,6) True])
    note f = ech_field_values [of out u q' sig nm p, folded r]
    have "q' = q" using q q' by simp
    moreover have "parse_outbound (out_bracket out) r = Inr ?a"
      by (rule parse_outbound_eq [OF _ assms(6) h q]) (simp add: f assms(5))
    ultimately show ?thesis
      unfolding if_P [OF True] using a port sni tidy f(3,4,5,6) by (intro exI [of _ ?a] conjI impI) (simp_all only:)
  next
    case False
    let ?v = "local_link ms u ?n"
    obtain q' sig nm where q': "port u = Inr q'" and sig: "signature_of out (urlunsplit ?v) = Inr sig"
      and r: "r = dict_set_all (sni_fields out ms u q' (urlunsplit ?v) sig nm) p"
      by (rule convertedE [OF assms(1,2,3,5,6) False])
    have qq: "q' = q" using q q' by simp
    have v: "split_url (out_bracket out) (urlunsplit ?v) = Inr ?v" by (rule local_link_split [OF wf assms(4) sig])
    note f = sni_field_values [of out ms u q' "urlunsplit ?v" sig nm p, folded r]
    have lh: "hostname ?v \<noteq> []" by (simp add: local_hostname [OF assms(4)])
    let ?m = "if names_route u then ?s else ?n"
    have "parse_outbound (out_bracket out) r = Inr (outbound_of (url_scheme u) (unquote (username u)) LOCAL_SNI_HOST LOCAL_SNI_PORT ?m ?q)"
      using parse_outbound_eq [OF f(1) v lh local_hostname(2) [OF assms(4)]]
      unfolding local_link_parts outbound_of_local local_username [OF assms(4)] local_hostname(1) [OF assms(4)] local_sni_any [OF ne]
      by (simp add: or_port_def LOCAL_SNI_HOST_def LOCAL_SNI_PORT_def)
    then have new: "parse_outbound (out_bracket out) r = Inr (?a\<lparr>ob_host := LOCAL_SNI_HOST, ob_port := LOCAL_SNI_PORT, ob_sni := ?m,
        ob_host_header := first_text ?q [''host'', ''authority''] ?m\<rparr>)"
      by (simp only: outbound_of_server(1) [of "url_scheme u" "unquote (username u)" LOCAL_SNI_HOST LOCAL_SNI_PORT ?m ?q
          "hostname u" "or_port q" ?s])
    have same: "?a\<lparr>ob_host := LOCAL_SNI_HOST, ob_port := LOCAL_SNI_PORT, ob_sni := ?s,
        ob_host_header := first_text ?q [''host'', ''authority''] ?s\<rparr> = ?a\<lparr>ob_host := LOCAL_SNI_HOST, ob_port := LOCAL_SNI_PORT\<rparr>"
      by (simp add: outbound_of_def Let_def del: first_text.simps)
    have eq: "?m = ?s" if "tidy_names u" by (simp only: tidy [OF that] if_cancel)
    have "parse_outbound (out_bracket out) r = Inr (?a\<lparr>ob_host := LOCAL_SNI_HOST, ob_port := LOCAL_SNI_PORT\<rparr>)" if "tidy_names u"
      using new unfolding eq [OF that] same .
    with new show ?thesis
      unfolding if_not_P [OF False] Let_def using a port sni tidy f(2,3,4,6) qq
      by (intro exI [of _ ?a] conjI impI) (simp_all only:)
  qed
qed

definition sample_out :: outside where
  "sample_out = \<lparr>out_bracket = \<lambda>_. False, out_loopback6 = \<lambda>_. False, out_uuid5 = \<lambda>s. s\<rparr>"

definition sample_maker :: maker_settings where
  "sample_maker = make_settings [] [] [] [] LOCAL_SNI_PORT"

definition maker_link :: string where "maker_link = ''trojan://pw@h.example?type=ws''"

definition maker_profile :: profile where "maker_profile = make_profile ''1'' [(''source_uri'', JStr maker_link)]"

definition maker_parts :: url_parts where
  "maker_parts = \<lparr>url_scheme = ''trojan'', url_netloc = ''pw@h.example'', url_path = [], url_query = ''type=ws'', url_fragment = []\<rparr>"

lemma sample_maker_local: "local_maker sample_maker" "strip (ms_fake_sni sample_maker) \<noteq> []"
  by code_simp+

lemma maker_link_parts:
  "fld maker_profile ''source_uri'' = JStr maker_link" "split_url (out_bracket sample_out) maker_link = Inr maker_parts"
  "tidy_names maker_parts" "\<not> has_ech maker_parts"
  by code_simp+

lemma maker_profile_fields:
  "case fld maker_profile ''name'' of JStr _ \<Rightarrow> True | _ \<Rightarrow> False"
  "\<not> truthy (fld maker_profile ''verified_spoof'')" "\<not> truthy (fld maker_profile ''spoof_fake_sni'')"
  by code_simp+

lemma maker_link_checks:
  "compatibility_error sample_out maker_link = None" "port maker_parts = Inr None"
  "\<not> loopback_host sample_out (lower (strip (hostname maker_parts)))"
  "split_url (out_bracket sample_out) (strip maker_link) = Inr maker_parts"
  by code_simp+

lemma maker_link_rewritten:
  "urlunsplit (local_link sample_maker maker_parts (route_server_name maker_parts)) = ''trojan://pw@127.0.0.1:40443?type=ws&sni=h.example''"
proof -
  have "str_rpartition ''@'' ''pw@h.example'' = (''pw'', ''@'', ''h.example'')" by code_simp
  then have n: "local_netloc sample_maker ''pw@h.example'' = ''pw@127.0.0.1:40443''"
    by (simp add: local_netloc_def sample_maker_def make_settings_def LOCAL_SNI_HOST_def LOCAL_SNI_PORT_def port_text)
  have "urlunsplit (maker_parts\<lparr>url_netloc := ''pw@127.0.0.1:40443'', url_query := local_query maker_parts (route_server_name maker_parts)\<rparr>)
    = ''trojan://pw@127.0.0.1:40443?type=ws&sni=h.example''" by code_simp
  then show ?thesis using n by (simp add: local_link_def maker_parts_def)
qed

lemma rewritten_splits:
  "case split_url (out_bracket sample_out) (strip ''trojan://pw@127.0.0.1:40443?type=ws&sni=h.example'') of Inl _ \<Rightarrow> False | Inr _ \<Rightarrow> True"
  by code_simp

lemma sample_conversion:
  obtains c r where "convert_to_sni sample_out sample_maker maker_profile = Inr c" "cv_status c = ''converted''" "cv_profile c = Some r"
proof -
  obtain name where name: "fld maker_profile ''name'' = JStr name" using maker_profile_fields(1) by (auto split: json.splits)
  obtain w where w: "split_url (out_bracket sample_out) (strip ''trojan://pw@127.0.0.1:40443?type=ws&sni=h.example'') = Inr w"
    using rewritten_splits by (auto split: sum.splits)
  obtain sig where "signature_of sample_out ''trojan://pw@127.0.0.1:40443?type=ws&sni=h.example'' = Inr sig"
    using w by (cases "str_rpartition ''@'' (url_netloc w)") (auto simp: signature_of_def Let_def)
  then have "\<exists>c. convert_to_sni sample_out sample_maker maker_profile = Inr c \<and> cv_status c = ''converted'' \<and> cv_profile c \<noteq> None"
    using maker_link_parts(1,2,4) maker_link_checks maker_profile_fields(2,3) name
    by (simp add: convert_to_sni_def text_of_field_def convert_link_def is_sni_config_def link_is_local_def maker_link_rewritten)
  then show ?thesis using that by auto
qed

theorem converted_link_keeps_the_outbound_witness:
  "\<exists>c r a. convert_to_sni sample_out sample_maker maker_profile = Inr c \<and> cv_profile c = Some r
    \<and> parse_outbound (out_bracket sample_out) maker_profile = Inr a
    \<and> parse_outbound (out_bracket sample_out) r = Inr (a\<lparr>ob_host := LOCAL_SNI_HOST, ob_port := LOCAL_SNI_PORT\<rparr>)"
proof -
  obtain c r where c: "convert_to_sni sample_out sample_maker maker_profile = Inr c" "cv_status c = ''converted''" "cv_profile c = Some r"
    by (rule sample_conversion)
  from converted_link_keeps_the_outbound [OF c sample_maker_local(1) maker_link_parts(1,2)] maker_link_parts(3,4) c
  show ?thesis by auto
qed

lemma dict_get_local: "k \<noteq> ''sni'' \<Longrightarrow> dict_get_or (query_dict (local_query u name)) k d = dict_get_or (query_dict (url_query u)) k d"
  by (simp add: local_query_dict dict_get_or_def)

lemma strip_first_stripped: "strip (first_stripped q ks (strip d)) = first_stripped q ks (strip d)"
  by (induction ks) simp_all

lemma local_name_kept:
  assumes "route_server_name u \<noteq> []"
  shows "first_stripped (query_dict (local_query u (route_server_name u))) SNI_KEYS x \<noteq> []"
proof (cases "names_route u")
  case True
  then show ?thesis by (auto simp: local_query_dict names_route_def SNI_KEYS_def)
next
  case False
  have "strip (route_server_name u) = route_server_name u" by (simp add: route_server_name_def strip_first_stripped)
  then show ?thesis using False assms by (simp add: local_query_dict SNI_KEYS_def query_get_def dict_get_or_def)
qed

lemma if_Some_None: "(if a then Some x else y) = None \<longleftrightarrow> \<not> a \<and> y = None"
  by simp

lemma local_link_compatible:
  assumes "compatibility_error out uri = None" "split_url (out_bracket out) uri = Inr u" "local_maker ms"
    "split_url (out_bracket out) w = Inr (local_link ms u (route_server_name u))" "route_server_name u \<noteq> []"
  shows "compatibility_error out w = None"
proof -
  let ?n = "route_server_name u"
  let ?v = "local_link ms u ?n"
  have q: "query_get (query_dict (local_query u ?n)) ''security'' = query_get (query_dict (url_query u)) ''security''"
    "dict_get_or (query_dict (local_query u ?n)) ''encryption'' ''none'' = dict_get_or (query_dict (url_query u)) ''encryption'' ''none''"
    "first_text (query_dict (local_query u ?n)) [''allowinsecure'', ''insecure''] [] = first_text (query_dict (url_query u)) [''allowinsecure'', ''insecure''] []"
    "first_text (query_dict (local_query u ?n)) [''type'', ''network''] ''ws'' = first_text (query_dict (url_query u)) [''type'', ''network''] ''ws''"
    by (rule query_get_local dict_get_local first_text_local; simp)+
  note old = assms(1) [unfolded compatibility_error_def assms(2) Let_def sum.case if_Some_None]
  have new: "hostname ?v \<noteq> []" "first_stripped (query_dict (local_query u ?n)) SNI_KEYS (strip (hostname ?v)) \<noteq> []"
    "(case port ?v of Inl _ \<Rightarrow> Some ''Invalid config URI'' | Inr _ \<Rightarrow> None) = None"
    using local_name_kept [OF assms(5)] local_hostname [OF assms(3)] by simp_all
  show ?thesis using old new
    unfolding compatibility_error_def assms(4) Let_def sum.case if_Some_None local_link_parts q local_username [OF assms(3)]
    by blast
qed

lemma dict_set_kept: "dict_get d k = Some v \<Longrightarrow> dict_set k v d = d"
  by (induction k v d rule: dict_set.induct) (auto simp: dict_get_def split: if_splits)

lemma dict_set_all_kept: "(\<And>k v. (k, v) \<in> set kvs \<Longrightarrow> dict_get d k = Some v) \<Longrightarrow> dict_set_all kvs d = d"
  by (induction kvs d rule: dict_set_all.induct) (auto simp: dict_set_kept)

lemma dict_set_all_again: "distinct (map fst kvs) \<Longrightarrow> dict_set_all kvs (dict_set_all kvs d) = dict_set_all kvs d"
  by (rule dict_set_all_kept) (simp add: dict_get_set_all)

lemma suffixed_again: "suffixed (suffixed name '' ech'' ''ECH'') '' ech'' ''ECH'' = suffixed name '' ech'' ''ECH''"
proof -
  have "endswith (lower (name @ SPOOF_SUFFIX @ ''ECH'')) '' ech''"
  proof -
    have "lower (SPOOF_SUFFIX @ ''ECH'') = '' '' @ [CHR 0xB7] @ '' ech''" by code_simp
    then show ?thesis by (simp add: lower_def endswith_def startswith_def)
  qed
  then show ?thesis by (simp add: suffixed_def)
qed

text \<open>
  C40: Converting is done once: converting the profile of a converted link again gives this very profile,
  instead of stacking a second local route or a second mark on the first. A profile that goes through
  the core is recognised as converted already, by its fake name or by its local link; one that keeps
  its server for ECH is converted again, to itself.
\<close>

theorem conversion_is_stable:
  assumes "convert_to_sni out ms p = Inr c" "cv_status c = ''converted''" "cv_profile c = Some r" "local_maker ms"
    "fld p ''source_uri'' = JStr uri" "split_url (out_bracket out) uri = Inr u"
  shows "convert_to_sni out ms r = Inr \<lparr>cv_source = r, cv_profile = Some r,
    cv_status = (if has_ech u then ''converted'' else ''already_sni''), cv_error = []\<rparr>"
proof (cases "has_ech u")
  case True
  obtain q sig name where comp: "compatibility_error out uri = None" and q: "port u = Inr q"
    and fresh: "is_sni_config out p = Inr False" and sig: "signature_of out uri = Inr sig"
    and r: "r = dict_set_all (ech_fields out u q sig name) p"
    by (rule converted_echE [OF assms(1,2,3,5,6) True])
  note f = ech_field_values [of out u q sig name p, folded r]
  have "\<not> link_is_local out uri" using fresh assms(5) by (auto simp: is_sni_config_def text_of_field_def split: if_splits)
  then have new: "is_sni_config out r = Inr False" by (simp add: is_sni_config_def f assms(5) text_of_field_def)
  have "ech_fields out u q sig (suffixed name '' ech'' ''ECH'') = ech_fields out u q sig name"
    by (simp add: ech_fields_def suffixed_again)
  moreover have "distinct (map fst (ech_fields out u q sig name))" by (simp add: ech_fields_def UNTESTED_def)
  ultimately have "dict_set_all (ech_fields out u q sig (suffixed name '' ech'' ''ECH'')) r = r"
    unfolding r by (simp add: dict_set_all_again)
  then show ?thesis using True comp q assms(5,6) sig new
    by (simp add: convert_to_sni_def convert_link_def text_of_field_def f)
next
  case False
  let ?v = "local_link ms u (route_server_name u)"
  obtain q sig name where comp: "compatibility_error out uri = None" and q: "port u = Inr q"
    and sig: "signature_of out (urlunsplit ?v) = Inr sig"
    and r: "r = dict_set_all (sni_fields out ms u q (urlunsplit ?v) sig name) p"
    by (rule convertedE [OF assms(1,2,3,5,6) False])
  obtain u' where "split_url (out_bracket out) uri = Inr u'" "wf_url u'" "route_server_name u' \<noteq> []"
    "url_scheme u' \<in> set SUPPORTED_PROTOCOLS"
    by (rule compatible_link [OF comp])
  then have wf: "wf_url u" and n: "route_server_name u \<noteq> []" and sch: "url_scheme u \<in> set SUPPORTED_PROTOCOLS"
    using assms(6) by simp_all
  have v: "split_url (out_bracket out) (urlunsplit ?v) = Inr ?v" by (rule local_link_split [OF wf assms(4) sig])
  note f = sni_field_values [of out ms u q "urlunsplit ?v" sig name p, folded r]
  have "is_sni_config out r = Inr True"
    using local_link_recognised [OF wf assms(4) sig sch] by (simp add: is_sni_config_def f text_of_field_def)
  then show ?thesis
    using local_link_compatible [OF comp assms(6,4) v n] v local_hostname(2) [OF assms(4)] False
    by (simp add: convert_to_sni_def text_of_field_def f convert_link_def)
qed

theorem conversion_is_stable_witness:
  "\<exists>c r. convert_to_sni sample_out sample_maker maker_profile = Inr c \<and> cv_profile c = Some r
    \<and> convert_to_sni sample_out sample_maker r = Inr \<lparr>cv_source = r, cv_profile = Some r, cv_status = ''already_sni'', cv_error = []\<rparr>"
proof -
  obtain c r where c: "convert_to_sni sample_out sample_maker maker_profile = Inr c" "cv_status c = ''converted''" "cv_profile c = Some r"
    by (rule sample_conversion)
  from conversion_is_stable [OF c sample_maker_local(1) maker_link_parts(1,2)] maker_link_parts(4) c
  show ?thesis by auto
qed

section \<open>Importing adds a link once\<close>

definition maker_ok :: "outside \<Rightarrow> maker \<Rightarrow> bool" where
  \<comment> \<open>the signatures are those of the profiles, in order and without a repetition\<close>
  "maker_ok out m \<longleftrightarrow> map (config_signature out) (mk_profiles m) = map Inr (mk_signatures m) \<and> distinct (mk_signatures m)"

lemma dedupe_loop_adds:
  assumes "dedupe_loop out seen ps = (new, old, seen', e)" "distinct seen"
  shows "\<exists>sigs. map (config_signature out) new = map Inr sigs \<and> seen' = seen @ sigs \<and> distinct seen'
    \<and> set new \<subseteq> set ps \<and> (e = None \<longrightarrow> length ps = length new + length old \<and> (\<forall>p \<in> set ps. config_signature out p \<in> Inr ` set seen'))"
  using assms
proof (induction out seen ps arbitrary: new old rule: dedupe_loop.induct)
  case (1 out seen)
  then show ?case by simp
next
  case (2 out seen p ps)
  show ?case
  proof (cases "config_signature out p")
    case (Inl err)
    then show ?thesis using 2(3,4) by auto
  next
    case (Inr sig)
    show ?thesis
    proof (cases "sig \<in> set seen")
      case True
      then obtain old' where r: "dedupe_loop out seen ps = (new, old', seen', e)" "old = p # old'"
        using 2(3) Inr by (auto split: prod.splits)
      show ?thesis using 2(1) [OF Inr True r(1) 2(4)] True Inr r(2) by fastforce
    next
      case False
      then obtain new' where r: "dedupe_loop out (seen @ [sig]) ps = (new', old, seen', e)" "new = p # new'"
        using 2(3) Inr by (auto split: prod.splits)
      obtain sigs where "map (config_signature out) new' = map Inr sigs" "seen' = (seen @ [sig]) @ sigs" "distinct seen'" "set new' \<subseteq> set ps"
        "e = None \<longrightarrow> length ps = length new' + length old \<and> (\<forall>p \<in> set ps. config_signature out p \<in> Inr ` set seen')"
        using 2(2) [OF Inr False r(1)] False 2(4) by auto
      then show ?thesis using Inr r(2) by (intro exI [of _ "sig # sigs"]) auto
    qed
  qed
qed

lemma dedupe_loop_seen:
  "\<forall>p \<in> set ps. config_signature out p \<in> Inr ` set seen \<Longrightarrow> dedupe_loop out seen ps = ([], ps, seen, None)"
  by (induction ps) auto

lemma add_profiles_ok: "maker_ok out m \<Longrightarrow> maker_ok out (snd (add_profiles out ps source m))"
  using dedupe_loop_adds [of out "mk_signatures m" ps]
  by (cases "dedupe_loop out (mk_signatures m) ps") (fastforce simp: add_profiles_def maker_ok_def)

lemma imports_ok:
  "maker_ok out (clear_maker m)"
  "maker_ok out m \<Longrightarrow> maker_ok out (snd (import_text out new_id text source suggested m))"
  "maker_ok out m \<Longrightarrow> maker_ok out (snd (import_file out new_id file bytes text suggested max_bytes m))"
  "maker_ok out m \<Longrightarrow> maker_ok out (snd (import_url out new_id client url suggested max_bytes etag m))"
proof -
  show imp: "maker_ok out m \<Longrightarrow> maker_ok out (snd (import_text out new_id body src suggested m))" for body src
    using add_profiles_ok [of out m] by (simp add: import_text_def Let_def split_beta)
  show "maker_ok out (clear_maker m)" by (simp add: clear_maker_def maker_ok_def)
  show "maker_ok out m \<Longrightarrow> maker_ok out (snd (import_file out new_id file bytes text suggested max_bytes m))"
    using imp by (simp add: import_file_def)
  show "maker_ok out m \<Longrightarrow> maker_ok out (snd (import_url out new_id client url suggested max_bytes etag m))"
    using imp by (simp add: import_url_def split_beta split: sum.splits source_answer.splits)
qed

text \<open>
  C13: The maker holds every link once: adding profiles keeps the invariant that the remembered signatures are
  those of the profiles held, all different; what is added goes behind what was there and comes from the
  list, every profile given is counted as added or as a duplicate, and adding the same list again, under any
  source name, adds nothing.  An error on the way keeps the invariant too.
\<close>

theorem import_adds_each_link_once:
  assumes "maker_ok out m" "add_profiles out ps source m = (r, m')"
  shows "maker_ok out m' \<and> (\<exists>new. mk_profiles m' = mk_profiles m @ new \<and> set new \<subseteq> set ps \<and> (\<forall>imp. r = Inr imp \<longrightarrow>
      si_profiles imp = new \<and> si_parsed imp = length ps \<and> length ps = length new + si_duplicates imp
      \<and> add_profiles out ps again m' = (Inr ((empty_import again)\<lparr>si_parsed := length ps, si_duplicates := length ps\<rparr>), m')))"
proof -
  obtain new old seen e where d: "dedupe_loop out (mk_signatures m) ps = (new, old, seen, e)" by (metis prod_cases4)
  have m': "m' = \<lparr>mk_profiles = mk_profiles m @ new, mk_signatures = seen\<rparr>" using assms(2) d by (simp add: add_profiles_def)
  from dedupe_loop_adds [OF d] assms(1) obtain sigs where s: "map (config_signature out) new = map Inr sigs" "seen = mk_signatures m @ sigs"
    "distinct seen" "set new \<subseteq> set ps"
    "e = None \<longrightarrow> length ps = length new + length old \<and> (\<forall>p \<in> set ps. config_signature out p \<in> Inr ` set seen)"
    unfolding maker_ok_def by blast
  have "maker_ok out m'" using assms(1) s by (simp add: maker_ok_def m')
  moreover have "si_profiles imp = new \<and> si_parsed imp = length ps \<and> length ps = length new + si_duplicates imp
      \<and> add_profiles out ps again m' = (Inr ((empty_import again)\<lparr>si_parsed := length ps, si_duplicates := length ps\<rparr>), m')"
    if "r = Inr imp" for imp
  proof -
    have e: "e = None" using assms(2) d that by (cases e) (simp_all add: add_profiles_def)
    have "dedupe_loop out seen ps = ([], ps, seen, None)" using s(5) e by (intro dedupe_loop_seen) simp
    then show ?thesis using assms(2) d that e s(5) by (auto simp: add_profiles_def m' empty_import_def)
  qed
  ultimately show ?thesis using s(4) m' by auto
qed

theorem import_adds_each_link_once_witness:
  "\<exists>r m'. add_profiles sample_out [maker_profile, maker_profile] ''a'' \<lparr>mk_profiles = [], mk_signatures = []\<rparr> = (Inr r, m')
    \<and> length (mk_profiles m') = 1 \<and> si_duplicates r = 1 \<and> maker_ok sample_out m'
    \<and> add_profiles sample_out [maker_profile, maker_profile] ''b'' m'
      = (Inr ((empty_import ''b'')\<lparr>si_parsed := 2, si_duplicates := 2\<rparr>), m')"
proof -
  let ?m = "\<lparr>mk_profiles = [], mk_signatures = []\<rparr> :: maker"
  obtain sig where sig: "config_signature sample_out maker_profile = Inr sig"
    using maker_link_parts(1) maker_link_checks(4)
    by (cases "str_rpartition ''@'' (url_netloc maker_parts)") (auto simp: config_signature_def text_of_field_def signature_of_def Let_def)
  have ok: "maker_ok sample_out ?m" by (simp add: maker_ok_def)
  have a: "add_profiles sample_out [maker_profile, maker_profile] ''a'' ?m = (Inr ((empty_import ''a'')\<lparr>si_profiles := [maker_profile],
      si_parsed := 2, si_duplicates := 1\<rparr>), \<lparr>mk_profiles = [maker_profile], mk_signatures = [sig]\<rparr>)"
    by (simp add: add_profiles_def sig)
  show ?thesis using import_adds_each_link_once [OF ok a, of "''b''"] a by (auto simp: numeral_2_eq_2)
qed



section \<open>A link that makes the conversion raise\<close>

definition bracket_out :: outside where
  "bracket_out = \<lparr>out_bracket = \<lambda>_. True, out_loopback6 = \<lambda>_. False, out_uuid5 = \<lambda>s. s\<rparr>"

definition bracket_link :: string where "bracket_link = ''trojan://a]@[::2]?type=ws&sni=h''"

definition bracket_parts :: url_parts where
  "bracket_parts = \<lparr>url_scheme = ''trojan'', url_netloc = ''a]@[::2]'', url_path = [], url_query = ''type=ws&sni=h'', url_fragment = []\<rparr>"

definition bracket_profile :: profile where
  "bracket_profile = make_profile ''1'' [(''source_uri'', JStr bracket_link)]"

lemma bracket_link_checks:
  "split_url (out_bracket bracket_out) bracket_link = Inr bracket_parts"
  "split_url (out_bracket bracket_out) (strip bracket_link) = Inr bracket_parts"
  "compatibility_error bracket_out bracket_link = None" "port bracket_parts = Inr None" "\<not> has_ech bracket_parts"
  "\<not> loopback_host bracket_out (lower (strip (hostname bracket_parts)))"
  by code_simp+

lemma bracket_profile_fields:
  "fld bracket_profile ''source_uri'' = JStr bracket_link" "case fld bracket_profile ''name'' of JStr _ \<Rightarrow> True | _ \<Rightarrow> False"
  "\<not> truthy (fld bracket_profile ''verified_spoof'')" "\<not> truthy (fld bracket_profile ''spoof_fake_sni'')"
  by code_simp+

lemma bracket_link_rewritten:
  "urlunsplit (local_link sample_maker bracket_parts (route_server_name bracket_parts)) = ''trojan://a]@127.0.0.1:40443?type=ws&sni=h''"
proof -
  have "str_rpartition ''@'' ''a]@[::2]'' = (''a]'', ''@'', ''[::2]'')" by code_simp
  then have n: "local_netloc sample_maker ''a]@[::2]'' = ''a]@127.0.0.1:40443''"
    by (simp add: local_netloc_def sample_maker_def make_settings_def LOCAL_SNI_HOST_def LOCAL_SNI_PORT_def port_text)
  have "urlunsplit (bracket_parts\<lparr>url_netloc := ''a]@127.0.0.1:40443'', url_query := local_query bracket_parts (route_server_name bracket_parts)\<rparr>)
    = ''trojan://a]@127.0.0.1:40443?type=ws&sni=h''" by code_simp
  then show ?thesis using n by (simp add: local_link_def bracket_parts_def)
qed

lemma bracket_rewritten_rejected:
  "split_url (out_bracket bracket_out) (strip ''trojan://a]@127.0.0.1:40443?type=ws&sni=h'') = Inl ValueError"
  by code_simp

text \<open>
  A compatible link whose user part holds a closing bracket in front of a bracketed address: the rewritten
  network location has that bracket alone, its signature raises, and with it the conversion of the whole list.
\<close>

lemma one_link_stops_the_batch:
  "convert_many bracket_out sample_maker ((bracket_profile, False) # rest) = Inl ValueError"
proof -
  obtain name where name: "fld bracket_profile ''name'' = JStr name" using bracket_profile_fields(2) by (auto split: json.splits)
  have "signature_of bracket_out ''trojan://a]@127.0.0.1:40443?type=ws&sni=h'' = Inl ValueError"
    using bracket_rewritten_rejected by (simp add: signature_of_def)
  then have "convert_to_sni bracket_out sample_maker bracket_profile = Inl ValueError"
    using bracket_link_checks bracket_profile_fields(1,3,4) name
    by (simp add: convert_to_sni_def text_of_field_def convert_link_def is_sni_config_def link_is_local_def bracket_link_rewritten)
  then show ?thesis by (simp add: convert_many_def)
qed


end
