(* ===== verification/Spec2Isabelle.thy ===== *)
theory Spec2Isabelle
  imports Pattern_Core Pow_Store Pow_Status Pow_Speed Windows_Proxy Forward_Path Update_Checker Xray_Config Ech_Keys Pow_Connect Sni_Maker
begin

text \<open>
  A verification development for UAC SNI Spoofer, a Windows desktop client in Python under
  \<open>src/uac_desktop\<close> that keeps connections usable where TLS server names are filtered.

  \<^bold>\<open>The program.\<close> It has two engines of which one runs at a time. Engine 1 starts Xray with a
  configuration made from a proxy profile; the traffic of Xray goes through a local relay, the pattern
  core, which hides the server name of each TLS connection from the filter: it injects a decoy
  ClientHello with a wrong sequence number (a WinDivert packet filter), splits the ClientHello into
  TCP segments or TLS records, or runs a \<open>gene\<close>, a small program of operations on the ClientHello
  found by search. Engine 2, PoW, starts an outer leg (WARP over MASQUE or WireGuard) and a Psiphon leg
  through it. Either engine ends in local ports that the Windows proxy, a TUN of sing-box or a mobile
  gateway (phones that use the computer as their gateway) lead to. Around them are a settings file with
  a tuning per mobile carrier, a store of profiles, a finder of clean edge addresses, ECH keys, and an
  update check.

  \<^bold>\<open>Conventions.\<close> A function of the source that can raise returns a sum, \<open>Inl\<close> the class of the exception
  (texts of exceptions and log lines are left out unless a state depends on them); state is a record
  passed explicitly; an object the source mutates in place is returned updated; a dictionary is an
  association list in insertion order (\<open>Py_Json\<close>); text is Latin-1, as a list of characters; a Python
  integer is \<open>int\<close>, a Python float an exact rational with infinities and NaN (\<open>Py_Float\<close>), a packet field
  a word or the bytes it is made of. What is outside the source (sockets, processes, the registry, DNS,
  clocks, random draws) is an argument: the answers in the order they are asked for. A thread that may
  act between two steps is a choice made by that argument or a step of an inductive relation.

  \<^bold>\<open>The library.\<close>
  \<^item> \<open>Prelude\<close>: results, byte fields, order-preserving removal of duplicates, sorting by a flag, clamping.
  \<^item> \<open>Py_Text\<close>, \<open>Py_Json\<close>, \<open>Py_Float\<close>, \<open>Url_Text\<close>: the part of the Python library the sources use. The
    locale \<open>keyed_store\<close> of \<open>Py_Json\<close> is the contract of a dictionary and is interpreted on
    \<open>dict_get\<close>, \<open>dict_set\<close> and \<open>dict_pop\<close>.
  \<^item> \<open>Failover\<close>: ordering candidates and walking them (\<open>_ordered_edges\<close>, \<open>_ordered_hosts\<close>,
    \<open>StickyRouter.pick\<close>), as a locale with an extension for a walk that tries everything; interpreted in
    \<open>Pattern_Core\<close> (\<open>edges\<close>) and in \<open>Pow_Speed\<close> (\<open>sessions\<close>).

  \<^bold>\<open>Hiding the server name.\<close>
  \<^item> \<open>Packet_Templates\<close> (\<open>pattern_core/packet_templates.py\<close>): the decoy ClientHello and its parser.
  \<^item> \<open>Tls_Tools\<close> (\<open>tls_tools.py\<close>): finding the server name and cutting the ClientHello. The locale
    \<open>stream_cut\<close> (pieces joined are the data) is interpreted on every way of cutting the code has. The
    lemmas show that no strategy loses, doubles or reorders a byte, and that the builder, the finder and
    the parser of the ClientHello agree.
  \<^item> \<open>Gene_Ops\<close> (\<open>gene_ops.py\<close>), \<open>Gene_Pool\<close> (\<open>gene_pool.py\<close>): the gene operations, their live plan, which
    genes are offered and what a run teaches.
  \<^item> \<open>Injector\<close>, \<open>Pattern_Core\<close> (\<open>pattern_core/core.py\<close>): the packet state machine of the injector with its
    sender tasks under any interleaving (an inductive step relation, its invariants by rule induction),
    and a session of the relay for every strategy: settings, edges, connecting with failover, the retries
    of the first exchange, with a forward of the first answer that may pass a part on before it fails. A
    loop over received segments has fuel, the length of what has arrived.

  \<^bold>\<open>Engine 1.\<close>
  \<^item> \<open>Tuning_Model\<close>, \<open>Tuning_Store\<close>, \<open>Gene_Store\<close> (\<open>models.py\<close>, \<open>storage.py\<close>, \<open>app_config.py\<close>): tunings, their
    presets, the migrations of the settings file, the tunings of the carriers as a refinement of a map.
  \<^item> \<open>Profiles\<close>, \<open>Profile_Store\<close> (\<open>models.py\<close>, \<open>storage.py\<close>, \<open>verified_configs.py\<close>): links, outbounds, the
    stored profiles.
  \<^item> \<open>Xray_Config\<close>, \<open>Tunnel_Config\<close> (\<open>engine.py\<close>): the configurations of Xray and of sing-box, free ports.
  \<^item> \<open>Windows_Proxy\<close> (\<open>engine.py\<close>): the override of the Windows proxy as a sequence of registry and file
    calls, each of which may fail or be the last one before a crash; a recovery decides first and takes
    the lock then, so other objects may act between. Two ways to lose the user's settings are left out of
    the step relation and stated as lemmas: restoring from memory when the restore file has gone, and a
    restore file that is there but cannot be read.
  \<^item> \<open>Forward_Path\<close> (\<open>gateway.py\<close>): the packet filter of the mobile gateway on packets as bytes. The scan of
    the TCP options is a partial function, and that it returns is a theorem.
  \<^item> \<open>Clean_Ip\<close> (\<open>clean_ip.py\<close>), \<open>Ech_Keys\<close> (\<open>ech_keys.py\<close>), \<open>Proxy_Ports\<close> (\<open>proxy_ports.py\<close>), \<open>Update_Checker\<close>
    (\<open>update_checker.py\<close>).
  \<^item> \<open>Sni_Maker\<close> (\<open>sni_maker.py\<close>): importing links, turning them into links to the pattern core, batch tests.
    The lemmas show that \<open>urlsplit\<close> and \<open>urlunsplit\<close>, \<open>quote\<close> and \<open>unquote\<close> agree on what is rewritten, so
    that the outbound of \<open>Profiles\<close> of the new link is the one of the old link with another server, and the
    very same for a link that keeps its server for ECH.

  \<^bold>\<open>Engine 2.\<close>
  \<^item> \<open>Pow_Config\<close>, \<open>Pow_Regions\<close>, \<open>Pow_Store\<close>, \<open>Pow_Status\<close>, \<open>Pow_Speed\<close> (\<open>pow/config.py\<close>, \<open>regions.py\<close>,
    \<open>identity.py\<close>, \<open>store.py\<close>, \<open>status.py\<close>, \<open>speed.py\<close>): settings and the requests to the cores, what is
    remembered of a network, the list of steps shown (a refinement of its history), the router over
    parallel sessions.
  \<^item> \<open>Pow_Session\<close>, \<open>Pow_Connect\<close> (\<open>pow/coordinator.py\<close>): one thread of the coordinator while another may
    disconnect before every answer from outside. An operation returns or raises (\<open>act\<close>); \<open>triple P m Q R\<close>
    states both outcomes, \<open>calm\<close> assertions survive the other thread, \<open>kept_by\<close> and \<open>safe\<close> say what an
    operation leaves alone. The locales \<open>exit_client\<close>, \<open>leg_client\<close> and \<open>session_client\<close> prove once how
    the operations treat an assertion that obeys some laws; they are interpreted on what the theorems need
    (\<open>since\<close>, \<open>gone\<close>, \<open>running\<close>, \<open>follows\<close> and others). \<open>exit_inv\<close> (never two exits) holds always,
    \<open>legs_ok\<close> and \<open>exit_ready\<close> (the exit leads to the leg that was set up) unless another thread has
    disconnected during the call (\<open>dead\<close>), and then the legs are down. \<open>c_windows\<close> is what Windows is pointed
    at: it follows the proxy of the session (\<open>c_clean\<close>) unless a suspend or resume has failed. Recovery runs
    until it succeeds or is cancelled; it has fuel, the number of attempts, and \<open>None\<close> when it is used up,
    and the theorem about it holds for any fuel. What the code does not promise is shown as lemmas of its own:
    a connect that returns over legs that are down, an exit that keeps an old port, a switch that ends without
    an exit, a Windows setting that stays behind.

  \<^bold>\<open>How the parts meet.\<close> \<open>Xray_Config\<close> shows that an ECH route dials the port the pattern core listens on;
  \<open>Pattern_Core\<close> uses the plans of \<open>Gene_Ops\<close> and \<open>Tls_Tools\<close>, the pool of \<open>Gene_Pool\<close> and the verdict of
  \<open>Injector\<close>; \<open>Tuning_Store\<close> hands out the tuning \<open>Pattern_Core\<close> validates; \<open>Tunnel_Config\<close> keeps the helper
  processes out of the tunnel that \<open>Pow_Session\<close> starts; \<open>Pow_Connect\<close> reads \<open>Pow_Config\<close> and \<open>Pow_Store\<close>
  and reports through \<open>Pow_Status\<close>.

  \<^bold>\<open>Not modelled.\<close> The user interface (\<open>ui.py\<close>, \<open>pow_ui.py\<close>, the dialogs and widgets), which is Qt code;
  starting and watching processes, WinDivert, Npcap and the Windows API (\<open>process_win.py\<close>, \<open>npcap.py\<close>, the
  process part of \<open>engine.py\<close>, \<open>pow/runner.py\<close>, \<open>pow/psiphon.py\<close>); socket code that only copies bytes
  (\<open>pow/forwarder.py\<close>); network facts and display (\<open>network.py\<close>, \<open>ip_info.py\<close>, \<open>logfmt.py\<close>,
  \<open>device_names.py\<close>); the hotspot part of \<open>gateway.py\<close>, which drives PowerShell; the live batch
  tests and the finder around the pattern core (\<open>sni_batch.py\<close>, \<open>sni_finder.py\<close>) and the help texts (\<open>assistant.py\<close>).
  Within the modelled parts, the manifest says for each what is left out.
\<close>

end
